(* ===== verification/Mali_Prelude.thy ===== *)
theory Mali_Prelude
  imports Main "HOL-Library.Word"
begin

text \<open>
  Shared vocabulary of the development: the machine types of the driver (the build under
  src/ is a 32-bit ARM kernel, so \<open>u32\<close> and \<open>unsigned long\<close> are both 32 bits wide), the
  driver's error codes, and the generic lemmas on lists, options and words that the component
  theories share.
\<close>

unbundle bit_operations_syntax

type_synonym u32 = "32 word"

named_theorems word_arith_simps \<open>moving 32-bit arithmetic to natural numbers\<close>
named_theorems list_shape \<open>facts on the shape of lists the components share\<close>

section \<open>Error codes\<close>

datatype osk_err =
    ERR_OK
  | ERR_FAULT
  | ERR_INVALID_FUNC
  | ERR_INVALID_ARGS
  | ERR_NOMEM
  | ERR_TIMEOUT
  | ERR_RESTARTSYSCALL
  | ERR_ITEM_NOT_FOUND
  | ERR_BUSY
  | ERR_UNSUPPORTED

section \<open>Words\<close>

lemma unat_plus_small [word_arith_simps]:
  "unat (a::u32) + unat b < 2 ^ 32 \<Longrightarrow> unat (a + b) = unat a + unat b"
  by (simp add: unat_word_ariths)

lemma unat_minus_le [word_arith_simps]:
  "b \<le> (a::u32) \<Longrightarrow> unat (a - b) = unat a - unat b"
  by (simp add: unat_sub)

lemma unat_lt_u32: "unat (x::u32) < 4294967296"
  using unsigned_less [of x, where 'a=nat] by simp

lemma unat_minus_u32 [word_arith_simps]:
  "unat ((a::u32) - b) = (if unat b \<le> unat a then unat a - unat b
                          else unat a + 4294967296 - unat b)"
  by (simp add: unat_sub_if_size word_size)

lemma unat_diff_swap:
  assumes "(a::u32) \<noteq> b"
  shows "unat (a - b) = 4294967296 - unat (b - a)"
proof -
  have ne: "unat a \<noteq> unat b" using assms by (simp add: word_unat_eq_iff)
  show ?thesis
    unfolding unat_minus_u32 using ne unat_lt_u32 [of a] unat_lt_u32 [of b]
    by (cases "unat a \<le> unat b") auto
qed

lemma unat_plus_u32 [word_arith_simps]:
  "unat ((a::u32) + b) = (if unat a + unat b < 4294967296 then unat a + unat b
                          else unat a + unat b - 4294967296)"
proof -
  have "unat (a + b) = (unat a + unat b) mod 4294967296"
    by (simp add: unat_word_ariths)
  then show ?thesis
    using unat_lt_u32 [of a] unat_lt_u32 [of b] by (simp add: mod_if)
qed

text \<open>The sign of a 32-bit value.\<close>

lemma sint_neg_iff: "sint (x::u32) < 0 \<longleftrightarrow> 2147483648 \<le> unat x"
proof -
  have s: "sint x = (uint x + 2147483648) mod 4294967296 - 2147483648"
    by (simp add: sint_uint signed_take_bit_eq_take_bit_shift take_bit_eq_mod)
  have b: "0 \<le> uint x" "uint x < 4294967296"
    using uint_lt2p [of x] by simp_all
  have "sint x < 0 \<longleftrightarrow> 2147483648 \<le> uint x"
  proof (cases "uint x < 2147483648")
    case True
    then have "(uint x + 2147483648) mod 4294967296 = uint x + 2147483648"
      using b by (intro mod_pos_pos_trivial) linarith+
    with s True b show ?thesis by linarith
  next
    case False
    have "(uint x + 2147483648) mod 4294967296 = (uint x - 2147483648) mod 4294967296"
      using minus_mod_self2 [of "uint x + 2147483648" "4294967296"] by simp
    also have "\<dots> = uint x - 2147483648"
      using b False by (intro mod_pos_pos_trivial) linarith+
    finally show ?thesis using s False b by linarith
  qed
  moreover have "uint x = int (unat x)" by (rule uint_nat)
  ultimately show ?thesis by linarith
qed

section \<open>Lists\<close>

lemma sorted_wrt_filter_hd [list_shape]:
  "sorted_wrt P (x # xs) \<Longrightarrow> y \<in> set xs \<Longrightarrow> P x y"
  by simp

end
