(* ===== verification/Osk_List.thy ===== *)
theory Osk_List
  imports Mali_Prelude
begin

text \<open>
  The driver's intrusive circular lists (common/mali_osk_list.h) at the level of their
  pointers: every element and every list head is a node with a \<open>next\<close> and a \<open>prev\<close>
  pointer, held in a store. \<open>osk_list h l xs\<close> says that the head \<open>l\<close> carries the elements
  \<open>xs\<close> in order in the store \<open>h\<close>. Each operation is shown to do to the pointers what the
  corresponding operation on HOL lists does to \<open>xs\<close>; the other theories of the development
  therefore model the driver's queues as HOL lists.
\<close>

record 'n list_store =
  nxt :: "'n \<Rightarrow> 'n"
  prv :: "'n \<Rightarrow> 'n"

section \<open>The operations\<close>

definition mali_osk_list_add_between :: "'n \<Rightarrow> 'n \<Rightarrow> 'n \<Rightarrow> 'n list_store \<Rightarrow> 'n list_store" where
  "mali_osk_list_add_between new_entry p n h =
     (let h1 = h\<lparr>prv := (prv h)(n := new_entry)\<rparr>;
          h2 = h1\<lparr>nxt := (nxt h1)(new_entry := n)\<rparr>;
          h3 = h2\<lparr>prv := (prv h2)(new_entry := p)\<rparr>
      in h3\<lparr>nxt := (nxt h3)(p := new_entry)\<rparr>)"

definition mali_osk_list_del_between :: "'n \<Rightarrow> 'n \<Rightarrow> 'n list_store \<Rightarrow> 'n list_store" where
  "mali_osk_list_del_between p n h =
     (let h1 = h\<lparr>prv := (prv h)(n := p)\<rparr>
      in h1\<lparr>nxt := (nxt h1)(p := n)\<rparr>)"

definition mali_osk_list_init :: "'n \<Rightarrow> 'n list_store \<Rightarrow> 'n list_store" where
  "mali_osk_list_init l h = h\<lparr>nxt := (nxt h)(l := l), prv := (prv h)(l := l)\<rparr>"

definition mali_osk_list_add :: "'n \<Rightarrow> 'n \<Rightarrow> 'n list_store \<Rightarrow> 'n list_store" where
  "mali_osk_list_add new_entry l h = mali_osk_list_add_between new_entry l (nxt h l) h"

definition mali_osk_list_addtail :: "'n \<Rightarrow> 'n \<Rightarrow> 'n list_store \<Rightarrow> 'n list_store" where
  "mali_osk_list_addtail new_entry l h = mali_osk_list_add_between new_entry (prv h l) l h"

definition mali_osk_list_del :: "'n \<Rightarrow> 'n list_store \<Rightarrow> 'n list_store" where
  "mali_osk_list_del l h = mali_osk_list_del_between (prv h l) (nxt h l) h"

definition mali_osk_list_delinit :: "'n \<Rightarrow> 'n list_store \<Rightarrow> 'n list_store" where
  "mali_osk_list_delinit l h =
     mali_osk_list_init l (mali_osk_list_del_between (prv h l) (nxt h l) h)"

definition mali_osk_list_empty :: "'n \<Rightarrow> 'n list_store \<Rightarrow> bool" where
  "mali_osk_list_empty l h \<longleftrightarrow> nxt h l = l"

definition mali_osk_list_move :: "'n \<Rightarrow> 'n \<Rightarrow> 'n list_store \<Rightarrow> 'n list_store" where
  "mali_osk_list_move move_entry l h =
     mali_osk_list_add move_entry l
       (mali_osk_list_del_between (prv h move_entry) (nxt h move_entry) h)"

definition mali_osk_list_move_list :: "'n \<Rightarrow> 'n \<Rightarrow> 'n list_store \<Rightarrow> 'n list_store" where
  "mali_osk_list_move_list old_list new_list h =
     (if mali_osk_list_empty old_list h then h
      else let h1 = h\<lparr>nxt := (nxt h)(new_list := nxt h old_list)\<rparr>;
               h2 = h1\<lparr>prv := (prv h1)(new_list := prv h1 old_list)\<rparr>;
               h3 = h2\<lparr>prv := (prv h2)(nxt h2 new_list := new_list)\<rparr>;
               h4 = h3\<lparr>nxt := (nxt h3)(prv h3 new_list := new_list)\<rparr>
           in h4\<lparr>nxt := (nxt h4)(old_list := old_list), prv := (prv h4)(old_list := old_list)\<rparr>)"

section \<open>Chains of pointers\<close>

definition seg :: "'n list_store \<Rightarrow> 'n list \<Rightarrow> bool" where
  "seg h = successively (\<lambda>x y. nxt h x = y \<and> prv h y = x)"

definition osk_list :: "'n list_store \<Rightarrow> 'n \<Rightarrow> 'n list \<Rightarrow> bool" where
  "osk_list h l xs \<longleftrightarrow> distinct (l # xs) \<and> seg h (l # xs @ [l])"

lemma seg_append [list_shape]:
  "xs \<noteq> [] \<Longrightarrow> ys \<noteq> [] \<Longrightarrow>
   seg h (xs @ ys) \<longleftrightarrow>
     seg h xs \<and> seg h ys \<and> nxt h (last xs) = hd ys \<and> prv h (hd ys) = last xs"
  by (auto simp: seg_def successively_append_iff)

lemma seg_single [simp]: "seg h [x]"
  by (simp add: seg_def)

text \<open>Only the \<open>next\<close> pointers of all but the last node of a chain, and the \<open>prev\<close>
  pointers of all but the first, matter to it.\<close>

lemma seg_frame:
  assumes "\<And>x. x \<in> set (butlast zs) \<Longrightarrow> nxt h' x = nxt h x"
    and "\<And>x. x \<in> set (tl zs) \<Longrightarrow> prv h' x = prv h x"
  shows "seg h' zs = seg h zs"
  using assms
proof (induction zs)
  case (Cons z zs)
  show ?case
  proof (cases zs)
    case (Cons y ys)
    have "seg h' zs = seg h zs"
      using Cons.prems Cons by (intro Cons.IH) (auto dest: list.set_sel(2))
    moreover have "nxt h' z = nxt h z" "prv h' y = prv h y"
      using Cons.prems Cons by simp_all
    ultimately show ?thesis using Cons by (simp add: seg_def)
  qed (simp add: seg_def)
qed (simp add: seg_def)

text \<open>The gap between a prefix \<open>xs\<close> and the rest \<open>ys\<close> of a list, as the two chains
  around it.\<close>

lemma osk_list_gap:
  "osk_list h l (xs @ ys) \<longleftrightarrow>
     distinct (l # xs @ ys) \<and> seg h (l # xs) \<and> seg h (ys @ [l]) \<and>
     nxt h (last (l # xs)) = hd (ys @ [l]) \<and> prv h (hd (ys @ [l])) = last (l # xs)"
  using seg_append [of "l # xs" "ys @ [l]" h] by (auto simp: osk_list_def)

lemma osk_list_at:
  "osk_list h l (xs @ x # ys) \<longleftrightarrow>
     distinct (l # xs @ x # ys) \<and> seg h (l # xs) \<and> seg h (ys @ [l]) \<and>
     nxt h (last (l # xs)) = x \<and> prv h x = last (l # xs) \<and>
     nxt h x = hd (ys @ [l]) \<and> prv h (hd (ys @ [l])) = x"
  using seg_append [of "l # xs" "x # ys @ [l]" h] seg_append [of "[x]" "ys @ [l]" h]
  by (auto simp: osk_list_def)

lemma last_notin_rest: "distinct (l # xs @ ys) \<Longrightarrow> last (l # xs) \<notin> set ys"
  using last_in_set [of "l # xs"] by auto

lemma hd_notin_prefix: "distinct (l # xs @ ys) \<Longrightarrow> hd (ys @ [l]) \<notin> set xs"
  by (cases ys) auto

lemma last_notin_butlast: "distinct zs \<Longrightarrow> last zs \<notin> set (butlast zs)"
  by (cases zs rule: rev_cases) auto

lemma hd_notin_tl: "distinct zs \<Longrightarrow> hd zs \<notin> set (tl zs)"
  by (cases zs) auto

lemma osk_list_add_between:
  assumes l: "osk_list h l (xs @ ys)" and e: "e \<notin> set (l # xs @ ys)"
    and p: "p = last (l # xs)" and n: "n = hd (ys @ [l])"
  shows "osk_list (mali_osk_list_add_between e p n h) l (xs @ e # ys)"
proof -
  let ?h = "mali_osk_list_add_between e p n h"
  from l have d: "distinct (l # xs @ ys)" and s1: "seg h (l # xs)" and s2: "seg h (ys @ [l])"
    unfolding osk_list_gap by blast+
  have pe: "p \<noteq> e" using e last_in_set [of "l # xs"] p by auto
  have ne: "n \<noteq> e" using e n by (cases ys) auto
  have nxt': "nxt ?h x = (if x = p then e else if x = e then n else nxt h x)" for x
    using pe by (simp add: mali_osk_list_add_between_def Let_def)
  have prv': "prv ?h x = (if x = e then p else if x = n then e else prv h x)" for x
    using ne by (simp add: mali_osk_list_add_between_def Let_def)
  have p1: "p \<notin> set (butlast (l # xs))"
    unfolding p using d by (intro last_notin_butlast) auto
  have p2: "p \<notin> set ys" unfolding p by (rule last_notin_rest [OF d])
  have n1: "n \<notin> set xs" unfolding n by (rule hd_notin_prefix [OF d])
  have n2: "n \<notin> set (tl (ys @ [l]))" unfolding n using d by (intro hd_notin_tl) auto
  have e2: "e \<notin> set (tl (ys @ [l]))" using e by (cases ys) auto
  have e1: "e \<notin> set (butlast (l # xs))" using e in_set_butlastD [of e "l # xs"] by auto
  have "seg ?h (l # xs) = seg h (l # xs)"
    using p1 n1 e e1 by (intro seg_frame) (auto simp: nxt' prv' simp del: butlast.simps)
  moreover have "seg ?h (ys @ [l]) = seg h (ys @ [l])"
    using p2 n2 e e2 by (intro seg_frame) (auto simp: nxt' prv')
  ultimately have "seg ?h (l # xs)" "seg ?h (ys @ [l])" using s1 s2 by blast+
  moreover have "distinct (l # xs @ e # ys)" using d e by auto
  moreover have "nxt ?h p = e" "prv ?h e = p" "nxt ?h e = n" "prv ?h n = e"
    using pe ne by (simp_all add: nxt' prv')
  ultimately show ?thesis unfolding osk_list_at p n by blast
qed

lemma osk_list_del_between:
  assumes l: "osk_list h l (xs @ x # ys)"
  shows "osk_list (mali_osk_list_del_between (prv h x) (nxt h x) h) l (xs @ ys)"
proof -
  define p where "p = prv h x"
  define n where "n = nxt h x"
  let ?h = "mali_osk_list_del_between p n h"
  from l have d: "distinct (l # xs @ x # ys)" and s1: "seg h (l # xs)" and s2: "seg h (ys @ [l])"
    and p: "p = last (l # xs)" and n: "n = hd (ys @ [l])"
    unfolding osk_list_at p_def n_def by blast+
  have d': "distinct (l # xs @ ys)" using d by auto
  have nxt': "nxt ?h y = (if y = p then n else nxt h y)" for y
    by (simp add: mali_osk_list_del_between_def Let_def)
  have prv': "prv ?h y = (if y = n then p else prv h y)" for y
    by (simp add: mali_osk_list_del_between_def Let_def)
  have p1: "p \<notin> set (butlast (l # xs))"
    unfolding p using d' by (intro last_notin_butlast) auto
  have p2: "p \<notin> set ys" unfolding p by (rule last_notin_rest [OF d'])
  have n1: "n \<notin> set xs" unfolding n by (rule hd_notin_prefix [OF d'])
  have n2: "n \<notin> set (tl (ys @ [l]))" unfolding n using d' by (intro hd_notin_tl) auto
  have "seg ?h (l # xs) = seg h (l # xs)"
    using p1 n1 by (intro seg_frame) (auto simp: nxt' prv' simp del: butlast.simps)
  moreover have "seg ?h (ys @ [l]) = seg h (ys @ [l])"
    using p2 n2 by (intro seg_frame) (auto simp: nxt' prv')
  ultimately have "seg ?h (l # xs)" "seg ?h (ys @ [l])" using s1 s2 by blast+
  moreover have "nxt ?h p = n" "prv ?h n = p" by (simp_all add: nxt' prv')
  ultimately have "osk_list ?h l (xs @ ys)" using d' unfolding osk_list_gap p n by blast
  then show ?thesis by (simp only: p_def n_def)
qed

section \<open>What the operations do to the list\<close>

text \<open>Operations on one list leave the links of a list with other nodes alone.\<close>

definition touches :: "'n set \<Rightarrow> 'n list_store \<Rightarrow> 'n list_store \<Rightarrow> bool" where
  "touches A h h' \<longleftrightarrow> (\<forall>x. x \<notin> A \<longrightarrow> nxt h' x = nxt h x \<and> prv h' x = prv h x)"

lemma touches_osk_list:
  "touches A h h' \<Longrightarrow> A \<inter> set (m # ys) = {} \<Longrightarrow> osk_list h' m ys = osk_list h m ys"
proof -
  assume t: "touches A h h'" and dj: "A \<inter> set (m # ys) = {}"
  have "seg h' (m # ys @ [m]) = seg h (m # ys @ [m])"
    using t dj by (intro seg_frame) (auto simp: touches_def dest!: in_set_butlastD)
  then show ?thesis by (simp add: osk_list_def)
qed

lemma osk_list_init: "osk_list (mali_osk_list_init l h) l []"
  by (simp add: osk_list_def seg_def mali_osk_list_init_def)

lemma osk_list_empty: "osk_list h l xs \<Longrightarrow> mali_osk_list_empty l h \<longleftrightarrow> xs = []"
  by (cases xs) (auto simp: osk_list_def seg_def mali_osk_list_empty_def)

lemma osk_list_first: "osk_list h l (x # xs) \<Longrightarrow> nxt h l = x"
  by (auto simp: osk_list_def seg_def)

lemma osk_list_ends:
  "osk_list h l xs \<Longrightarrow> nxt h l = hd (xs @ [l]) \<and> prv h l = last (l # xs)"
  using osk_list_gap [of h l "[]" xs] osk_list_gap [of h l xs "[]"] by auto

lemma osk_list_add:
  assumes "osk_list h l xs" and "e \<notin> set (l # xs)"
  shows "osk_list (mali_osk_list_add e l h) l (e # xs)"
  using osk_list_add_between [of h l "[]" xs e l "nxt h l"] osk_list_ends [OF assms(1)] assms
  by (simp add: mali_osk_list_add_def)

lemma osk_list_addtail:
  assumes "osk_list h l xs" and "e \<notin> set (l # xs)"
  shows "osk_list (mali_osk_list_addtail e l h) l (xs @ [e])"
  using osk_list_add_between [of h l xs "[]" e "prv h l" l] osk_list_ends [OF assms(1)] assms
  by (simp add: mali_osk_list_addtail_def)

text \<open>Adding after an element of the list rather than after its head
  (\<open>_mali_osk_list_add(&job->list, &iter->list)\<close> in the job queues).\<close>

lemma osk_list_add_after:
  assumes "osk_list h l (xs @ x # ys)" and "e \<notin> set (l # xs @ x # ys)"
  shows "osk_list (mali_osk_list_add e x h) l (xs @ x # e # ys)"
proof -
  have "nxt h x = hd (ys @ [l])" using assms(1) unfolding osk_list_at by blast
  then show ?thesis
    using osk_list_add_between [of h l "xs @ [x]" ys e x "nxt h x"] assms
    by (simp add: mali_osk_list_add_def)
qed

lemma osk_list_del:
  "osk_list h l (xs @ x # ys) \<Longrightarrow> osk_list (mali_osk_list_del x h) l (xs @ ys)"
  unfolding mali_osk_list_del_def by (rule osk_list_del_between)

lemma osk_list_delinit:
  assumes "osk_list h l (xs @ x # ys)"
  shows "osk_list (mali_osk_list_delinit x h) l (xs @ ys)"
    and "osk_list (mali_osk_list_delinit x h) x []"
proof -
  let ?h = "mali_osk_list_del_between (prv h x) (nxt h x) h"
  have d: "distinct (l # xs @ x # ys)" using assms by (simp add: osk_list_def)
  have "touches {x} ?h (mali_osk_list_init x ?h)"
    by (simp add: touches_def mali_osk_list_init_def)
  then show "osk_list (mali_osk_list_delinit x h) l (xs @ ys)"
    unfolding mali_osk_list_delinit_def
    using touches_osk_list osk_list_del_between [OF assms] d by fastforce
  show "osk_list (mali_osk_list_delinit x h) x []"
    unfolding mali_osk_list_delinit_def by (rule osk_list_init)
qed

text \<open>Moving an element to the front of another list.\<close>

lemma touches_add:
  "touches {e, l, nxt h l} h (mali_osk_list_add e l h)"
  by (simp add: touches_def mali_osk_list_add_def mali_osk_list_add_between_def Let_def)

lemma touches_del:
  "touches {p, n} h (mali_osk_list_del_between p n h)"
  by (simp add: touches_def mali_osk_list_del_between_def Let_def)

lemma osk_list_ends_in:
  assumes "osk_list h l (xs @ x # ys)"
  shows "{prv h x, nxt h x} \<subseteq> set (l # xs @ ys)"
proof -
  have "prv h x = last (l # xs)" "nxt h x = hd (ys @ [l])"
    using assms unfolding osk_list_at by blast+
  then show ?thesis
    using last_in_set [of "l # xs"] hd_in_set [of "ys @ [l]"] by auto
qed

text \<open>moving an element between two lists takes it out of the one, puts it at the front
  of the other, and leaves the order of all other elements as it was.\<close>

theorem osk_list_move:
  assumes "osk_list h l (xs @ x # ys)" and "osk_list h m zs"
    and "set (l # xs @ x # ys) \<inter> set (m # zs) = {}"
  shows "osk_list (mali_osk_list_move x m h) l (xs @ ys) \<and>
         osk_list (mali_osk_list_move x m h) m (x # zs)"
proof -
  let ?h = "mali_osk_list_del_between (prv h x) (nxt h x) h"
  have d: "distinct (l # xs @ x # ys)" using assms(1) by (simp add: osk_list_def)
  have l: "osk_list ?h l (xs @ ys)" using assms(1) by (rule osk_list_del_between)
  have "osk_list ?h m zs"
    using touches_osk_list [OF touches_del, of "prv h x" "nxt h x" m zs h]
      osk_list_ends_in [OF assms(1)] assms(2,3) by fastforce
  then have mz: "osk_list ?h m zs" .
  then have m: "osk_list (mali_osk_list_add x m ?h) m (x # zs)"
    using assms(3) by (intro osk_list_add) auto
  have e: "nxt ?h m \<in> set (m # zs)"
    using osk_list_ends [OF mz] hd_in_set [of "zs @ [m]"] by auto
  have "osk_list (mali_osk_list_add x m ?h) l (xs @ ys)"
    using touches_osk_list [OF touches_add, of x m ?h l "xs @ ys"] l e d assms(3) by fastforce
  with m show ?thesis by (simp add: mali_osk_list_move_def)
qed

text \<open>Moving a whole list to an empty list head keeps its elements and their order, and
  leaves the old head empty.\<close>

theorem osk_list_move_list:
  assumes "osk_list h old xs" and "osk_list h new []" and "new \<notin> set (old # xs)"
  shows "osk_list (mali_osk_list_move_list old new h) new xs \<and>
         osk_list (mali_osk_list_move_list old new h) old []"
proof (cases "xs = []")
  case True
  with assms show ?thesis by (simp add: mali_osk_list_move_list_def osk_list_empty)
next
  case False
  let ?h = "mali_osk_list_move_list old new h"
  have d: "distinct (old # xs)" and sx: "seg h xs"
    and ends: "nxt h old = hd xs" "prv h old = last xs"
    using assms(1) osk_list_ends [OF assms(1)] False seg_append [of "[old]" "xs @ [old]" h]
      seg_append [of xs "[old]" h]
    by (auto simp: osk_list_def)
  have ne: "\<not> mali_osk_list_empty old h" using assms(1) False by (simp add: osk_list_empty)
  have hx: "hd xs \<in> set xs" "last xs \<in> set xs" using False by simp_all
  have nxt': "nxt ?h y = (if y = old then old else if y = last xs then new
                          else if y = new then hd xs else nxt h y)" for y
    using ne ends hx assms(3) d by (auto simp: mali_osk_list_move_list_def Let_def)
  have prv': "prv ?h y = (if y = old then old else if y = hd xs then new
                          else if y = new then last xs else prv h y)" for y
    using ne ends hx assms(3) d by (auto simp: mali_osk_list_move_list_def Let_def)
  have "last xs \<notin> set (butlast xs)" using d by (intro last_notin_butlast) auto
  moreover have "hd xs \<notin> set (tl xs)" using d by (intro hd_notin_tl) auto
  moreover have "set (tl xs) \<subseteq> set xs" by (cases xs) auto
  moreover have "set (butlast xs) \<subseteq> set xs" using in_set_butlastD [of _ xs] by blast
  ultimately have "seg ?h xs = seg h xs"
    using d assms(3) by (intro seg_frame) (auto simp: nxt' prv')
  then have "seg ?h (new # xs @ [new])"
    using sx False hx d assms(3) seg_append [of "[new]" "xs @ [new]" ?h]
      seg_append [of xs "[new]" ?h]
    by (auto simp: nxt' prv')
  moreover have "seg ?h [old, old]" by (simp add: seg_def nxt' prv')
  ultimately show ?thesis using d assms(3) by (simp add: osk_list_def)
qed

text \<open>A store with three nodes on list 0 and an empty list 9, for the witnesses.\<close>

definition store_example :: "nat list_store" where
  "store_example = mali_osk_list_addtail 2 0 (mali_osk_list_addtail 1 0
     (mali_osk_list_init 9 (mali_osk_list_init 0 \<lparr>nxt = id, prv = id\<rparr>)))"

lemma store_example_lists:
  "osk_list store_example 0 [1, 2]" "osk_list store_example 9 []"
  by (simp_all add: store_example_def osk_list_def seg_def mali_osk_list_addtail_def
      mali_osk_list_add_between_def mali_osk_list_init_def Let_def)

theorem osk_list_move_witness:
  "osk_list (mali_osk_list_move 1 9 store_example) 0 [2] \<and>
   osk_list (mali_osk_list_move 1 9 store_example) 9 [1]"
  using osk_list_move [of store_example 0 "[]" 1 "[2]" 9 "[]"] store_example_lists by simp

theorem osk_list_move_list_witness:
  "osk_list (mali_osk_list_move_list 0 9 store_example) 9 [1, 2] \<and>
   osk_list (mali_osk_list_move_list 0 9 store_example) 0 []"
  using osk_list_move_list [of store_example 0 "[1, 2]" 9] store_example_lists by simp

end
