(* ===== verification/Timeline_Points.thy ===== *)
theory Timeline_Points
  imports Mali_Prelude
begin

text \<open>
  The points of a timeline (common/mali_timeline.h): a timeline hands out 32-bit points that
  wrap around, and the inline functions of the header decide on which side of the timeline's
  window \<open>[point_oldest, point_next)\<close> a point lies. Points equal to 0 are reserved
  (MALI_TIMELINE_NO_POINT).
\<close>

type_synonym timeline_point = u32

definition NO_POINT :: timeline_point where
  "NO_POINT = 0"

definition MAX_POINT_SPAN :: u32 where
  "MAX_POINT_SPAN = 65536"

text \<open>The two fields of struct mali_timeline these functions read.\<close>

record timeline_window =
  point_next :: timeline_point
  point_oldest :: timeline_point

text \<open>
  The C computes \<open>0 > ((s32)b) - ((s32)a)\<close>. The kernel is built with wrapping signed
  arithmetic, so the difference is the two's complement one: \<open>sint (b - a)\<close>.
\<close>

definition mali_timeline_point_after :: "timeline_point \<Rightarrow> timeline_point \<Rightarrow> bool" where
  "mali_timeline_point_after a b \<longleftrightarrow> 0 > sint (b - a)"

definition mali_timeline_is_point_on :: "('a timeline_window_scheme) \<Rightarrow> timeline_point \<Rightarrow> bool" where
  "mali_timeline_is_point_on tline point \<longleftrightarrow>
     (point - point_oldest tline) < (point_next tline - point_oldest tline)"

definition mali_timeline_is_point_released ::
    "('a timeline_window_scheme) \<Rightarrow> timeline_point \<Rightarrow> bool" where
  "mali_timeline_is_point_released tline point \<longleftrightarrow>
     (let point_normalized = point - point_oldest tline;
          next_normalized = point_next tline - point_oldest tline
      in point_normalized > (next_normalized + MAX_POINT_SPAN))"

definition mali_timeline_is_point_valid :: "('a timeline_window_scheme) \<Rightarrow> timeline_point \<Rightarrow> bool" where
  "mali_timeline_is_point_valid tline point \<longleftrightarrow>
     mali_timeline_is_point_on tline point \<or> mali_timeline_is_point_released tline point"

definition mali_timeline_is_empty :: "('a timeline_window_scheme) \<Rightarrow> bool" where
  "mali_timeline_is_empty tline \<longleftrightarrow> point_next tline = point_oldest tline"

definition mali_timeline_is_full :: "('a timeline_window_scheme) \<Rightarrow> bool" where
  "mali_timeline_is_full tline \<longleftrightarrow> MAX_POINT_SPAN \<le> point_next tline - point_oldest tline"

text \<open>The step of \<open>mali_timeline_insert_tracker\<close> that finds the next available point.\<close>

definition next_point :: "timeline_point \<Rightarrow> timeline_point" where
  "next_point p = (if p + 1 = NO_POINT then p + 1 + 1 else p + 1)"

section \<open>Order of points\<close>

lemma point_after_iff:
  "mali_timeline_point_after a b \<longleftrightarrow> 0 < unat (a - b) \<and> unat (a - b) \<le> 2147483648"
proof (cases "a = b")
  case True
  then show ?thesis by (simp add: mali_timeline_point_after_def)
next
  case False
  then have "0 < unat (a - b)" by (simp add: unat_gt_0)
  moreover have "unat (b - a) = 4294967296 - unat (a - b)"
    using False by (intro unat_diff_swap) simp
  moreover have "unat (a - b) < 4294967296" by (rule unat_lt_u32)
  ultimately show ?thesis
    unfolding mali_timeline_point_after_def sint_neg_iff by linarith
qed

lemma point_after_irrefl [simp]: "\<not> mali_timeline_point_after a a"
  by (simp add: point_after_iff)

text \<open>less than half the range apart, the comparison orders points across a wrap of the
  32-bit counter: a point \<open>k\<close> steps further on is after, the other way round is not.\<close>

theorem point_after_orders:
  assumes "0 < unat k" and "unat k < 2147483648"
  shows "mali_timeline_point_after (p + k) p \<and> \<not> mali_timeline_point_after p (p + k)"
proof -
  have "k \<noteq> 0" using assms(1) by auto
  then have "unat (p - (p + k)) = 4294967296 - unat k"
    using unat_diff_swap [of p "p + k"] by simp
  with assms show ?thesis by (simp add: point_after_iff)
qed

theorem point_after_orders_witness:
  "mali_timeline_point_after (4294967290 + 10) 4294967290 \<and>
   \<not> mali_timeline_point_after 4294967290 (4294967290 + 10)"
  by (rule point_after_orders) simp_all

section \<open>The zones of a timeline\<close>

definition tspan :: "('a timeline_window_scheme) \<Rightarrow> nat" where
  "tspan tline = unat (point_next tline - point_oldest tline)"

text \<open>The largest span a timeline reaches: 65536, or one more when 0 is skipped.\<close>

definition window_ok :: "('a timeline_window_scheme) \<Rightarrow> bool" where
  "window_ok tline \<longleftrightarrow> point_next tline \<noteq> NO_POINT \<and> tspan tline \<le> 65537"

lemma is_point_on_iff:
  "mali_timeline_is_point_on tline p \<longleftrightarrow> unat (p - point_oldest tline) < tspan tline"
  by (simp add: mali_timeline_is_point_on_def tspan_def word_less_nat_alt)

lemma is_empty_iff: "mali_timeline_is_empty tline \<longleftrightarrow> tspan tline = 0"
  using unat_gt_0 [of "point_next tline - point_oldest tline"]
  by (auto simp: mali_timeline_is_empty_def tspan_def)

lemma is_full_iff: "mali_timeline_is_full tline \<longleftrightarrow> 65536 \<le> tspan tline"
  by (simp add: mali_timeline_is_full_def MAX_POINT_SPAN_def tspan_def word_le_nat_alt)

lemma is_point_released_iff:
  assumes "tspan tline \<le> 65537"
  shows "mali_timeline_is_point_released tline p \<longleftrightarrow>
           tspan tline + 65536 < unat (p - point_oldest tline)"
proof -
  have "unat (point_next tline - point_oldest tline + MAX_POINT_SPAN) = tspan tline + 65536"
    using assms unfolding tspan_def
    by (subst unat_plus_small) (simp_all add: MAX_POINT_SPAN_def)
  then show ?thesis
    by (simp add: mali_timeline_is_point_released_def word_less_nat_alt)
qed

lemma released_not_on:
  "tspan tline \<le> 65537 \<Longrightarrow> mali_timeline_is_point_released tline p \<Longrightarrow>
     \<not> mali_timeline_is_point_on tline p"
  by (simp add: is_point_released_iff is_point_on_iff)

text \<open>On a timeline within its span, the three zones of the diagram in
  mali_timeline.h partition the points: on the timeline, released, or in the forbidden zone
  of MALI_TIMELINE_MAX_POINT_SPAN + 1 points that follow the next point.\<close>

theorem point_zones:
  assumes "window_ok tline"
  shows "(mali_timeline_is_point_on tline p \<longleftrightarrow>
            unat (p - point_oldest tline) < tspan tline)
       \<and> (mali_timeline_is_point_released tline p \<longleftrightarrow>
            tspan tline + 65536 < unat (p - point_oldest tline))
       \<and> (\<not> mali_timeline_is_point_valid tline p \<longleftrightarrow>
            unat (p - point_oldest tline) \<in> {tspan tline .. tspan tline + 65536})
       \<and> \<not> (mali_timeline_is_point_on tline p \<and> mali_timeline_is_point_released tline p)"
  using assms
  by (auto simp: window_ok_def mali_timeline_is_point_valid_def is_point_on_iff
      is_point_released_iff)

theorem point_zones_witness:
  "\<not> mali_timeline_is_point_valid
       \<lparr>point_next = 5, point_oldest = 4294967290\<rparr> 7 \<longleftrightarrow>
   unat (7 - (4294967290::u32)) \<in>
     {tspan \<lparr>point_next = 5, point_oldest = 4294967290\<rparr> ..
      tspan \<lparr>point_next = 5, point_oldest = 4294967290\<rparr> + 65536}"
  using point_zones [of "\<lparr>point_next = 5, point_oldest = 4294967290\<rparr>" 7]
  by (simp add: window_ok_def NO_POINT_def tspan_def)

text \<open>When the oldest point of a timeline has moved \<open>k\<close> points past \<open>p\<close>, \<open>p\<close> is
  reported as released, and stays so until the counter has come round to within the
  forbidden zone of \<open>p\<close> again.\<close>

theorem passed_point_released:
  assumes "window_ok tline"
  shows "mali_timeline_is_point_released tline p \<longleftrightarrow>
           (let k = unat (point_oldest tline - p)
            in 0 < k \<and> k + tspan tline + 65536 < 4294967296)"
proof (cases "point_oldest tline = p")
  case True
  with assms show ?thesis by (simp add: window_ok_def is_point_released_iff)
next
  case False
  have k0: "0 < unat (point_oldest tline - p)" using False by (simp add: unat_gt_0)
  have "unat (p - point_oldest tline) = 4294967296 - unat (point_oldest tline - p)"
    using False by (intro unat_diff_swap) simp
  moreover have "unat (point_oldest tline - p) < 4294967296" by (rule unat_lt_u32)
  ultimately have "tspan tline + 65536 < unat (p - point_oldest tline) \<longleftrightarrow>
      unat (point_oldest tline - p) + tspan tline + 65536 < 4294967296"
    by linarith
  with k0 assms show ?thesis by (simp add: window_ok_def is_point_released_iff Let_def)
qed

theorem passed_point_released_witness:
  "mali_timeline_is_point_released \<lparr>point_next = 5, point_oldest = 2\<rparr> 4294967295"
  using passed_point_released [of "\<lparr>point_next = 5, point_oldest = 2\<rparr>" 4294967295]
  by (simp add: window_ok_def NO_POINT_def tspan_def)

section \<open>Handing out the next point\<close>

lemma next_point_nonzero [simp]: "next_point p \<noteq> NO_POINT"
  by (auto simp: next_point_def NO_POINT_def)

lemma next_point_dist:
  assumes "unat (p - o1) < 65537"
  shows "unat (next_point p - o1) = unat (p - o1) + (if p + 1 = 0 then 2 else 1)"
proof -
  have e1: "p + 1 - o1 = (p - o1) + 1" and e2: "p + 1 + 1 - o1 = (p - o1) + 2"
    by simp_all
  have a1: "unat ((p - o1) + 1) = unat (p - o1) + 1"
    using assms by (subst unat_plus_small) simp_all
  have a2: "unat ((p - o1) + 2) = unat (p - o1) + 2"
    using assms by (subst unat_plus_small) simp_all
  show ?thesis
  proof (cases "p + 1 = 0")
    case True
    then have "next_point p = p + 1 + 1" unfolding next_point_def NO_POINT_def by (rule if_P)
    then have "unat (next_point p - o1) = unat (p - o1) + 2" using e2 a2 by (simp only:)
    then show ?thesis unfolding if_P [OF True] .
  next
    case False
    then have "next_point p = p + 1" unfolding next_point_def NO_POINT_def by (rule if_not_P)
    then have "unat (next_point p - o1) = unat (p - o1) + 1" using e1 a1 by (simp only:)
    then show ?thesis unfolding if_not_P [OF False] .
  qed
qed

end
