(* ===== verification/PP_Job.thy ===== *)
theory PP_Job
  imports Timeline_Points
begin

text \<open>
  PP jobs (common/mali_pp_job.h and .c): the job object with its accounting of sub jobs, the
  register accessors, the performance counter settings, creation and deletion with the
  resources they take and give back, and the insertion into a scheduler queue. Jobs are
  identified by a \<open>jid\<close> (their address in the driver); a queue is the list of the jobs linked
  through \<open>job->list\<close>. The functions run under the locks their assertions name.
\<close>

type_synonym jid = nat
type_synonym session_id = nat

section \<open>Data\<close>

datatype timeline_id = TIMELINE_GP | TIMELINE_PP | TIMELINE_SOFT

record timeline_fence =
  f_points :: "timeline_id \<Rightarrow> timeline_point"
  f_sync_fd :: u32

definition PP_MAX_SUB_JOBS :: u32 where "PP_MAX_SUB_JOBS = 8"
definition HW_CORE_NO_COUNTER :: u32 where "HW_CORE_NO_COUNTER = - 1"
definition DLBU_VIRT_ADDR :: u32 where "DLBU_VIRT_ADDR = 0xFFF00000"
definition SCHEDULER_JOB_ID_SPAN :: u32 where "SCHEDULER_JOB_ID_SPAN = 65535"
definition FLAG_SRC0_ENABLE :: u32 where "FLAG_SRC0_ENABLE = 1"
definition FLAG_SRC1_ENABLE :: u32 where "FLAG_SRC1_ENABLE = 2"
definition PP_JOB_FLAG_NO_NOTIFICATION :: u32 where "PP_JOB_FLAG_NO_NOTIFICATION = 1"
definition PP_JOB_FLAG_IS_WINDOW_SURFACE :: u32 where "PP_JOB_FLAG_IS_WINDOW_SURFACE = 2"
definition PP_JOB_FLAG_PROTECTED :: u32 where "PP_JOB_FLAG_PROTECTED = 4"

text \<open>Word indices of the registers used below (byte offset / 4).\<close>

definition REG_ADDR_FRAME :: nat where "REG_ADDR_FRAME = 0"
definition REG_ADDR_STACK :: nat where "REG_ADDR_STACK = 12"
definition REG_WB_SOURCE_SELECT :: nat where "REG_WB_SOURCE_SELECT = 0"
definition REG_WB_SOURCE_ADDR :: nat where "REG_WB_SOURCE_ADDR = 1"

record pp_uargs =
  pu_user_job_ptr :: "64 word"
  pu_frame_registers :: "u32 list"
  pu_addr_frame :: "u32 list"
  pu_addr_stack :: "u32 list"
  pu_wb0 :: "u32 list"
  pu_wb1 :: "u32 list"
  pu_wb2 :: "u32 list"
  pu_num_cores :: u32
  pu_perf_counter_flag :: u32
  pu_perf_counter_src0 :: u32
  pu_perf_counter_src1 :: u32
  pu_frame_builder_id :: u32
  pu_flags :: u32
  pu_num_memory_cookies :: u32
  pu_fence :: timeline_fence

datatype pp_job_status = NO_SWAP_IN | SWAP_IN_FAIL | SWAP_IN_SUCC

text \<open>The tracker embedded in the job is kept apart, in the state of the timelines. The two
  pointers to notification and cookies are options.\<close>

record pp_job =
  pp_uargs :: pp_uargs
  pp_session :: session_id
  pp_pid :: u32
  pp_tid :: u32
  pp_id :: u32
  pp_cache_order :: u32
  pp_finished_notification :: bool
  pp_per_sub_count :: u32
  pp_per_sub_src0 :: "u32 list"
  pp_per_sub_src1 :: "u32 list"
  pp_sub_jobs_num :: u32
  pp_swap_status :: pp_job_status
  pp_user_notification :: bool
  pp_num_cores_in_virtual :: u32
  pp_sub_jobs_completed :: u32
  pp_sub_job_errors :: u32
  pp_memory_cookies :: "u32 list option"
  pp_sub_jobs_started :: u32
  pp_value0 :: "u32 list"
  pp_value1 :: "u32 list"

section \<open>Accessors\<close>

definition mali_pp_job_is_virtual :: "pp_job \<Rightarrow> bool" where
  "mali_pp_job_is_virtual job \<longleftrightarrow> 0 = pu_num_cores (pp_uargs job)"

definition mali_pp_job_get_addr_frame :: "pp_job \<Rightarrow> u32 \<Rightarrow> u32" where
  "mali_pp_job_get_addr_frame job sub_job =
     (if mali_pp_job_is_virtual job then DLBU_VIRT_ADDR
      else if 0 = sub_job then pu_frame_registers (pp_uargs job) ! REG_ADDR_FRAME
      else if sub_job < PP_MAX_SUB_JOBS then pu_addr_frame (pp_uargs job) ! unat (sub_job - 1)
      else 0)"

definition mali_pp_job_get_addr_stack :: "pp_job \<Rightarrow> u32 \<Rightarrow> u32" where
  "mali_pp_job_get_addr_stack job sub_job =
     (if 0 = sub_job then pu_frame_registers (pp_uargs job) ! REG_ADDR_STACK
      else if sub_job < PP_MAX_SUB_JOBS then pu_addr_stack (pp_uargs job) ! unat (sub_job - 1)
      else 0)"

definition mali_pp_job_get_wb0_source_addr :: "pp_job \<Rightarrow> u32" where
  "mali_pp_job_get_wb0_source_addr job = pu_wb0 (pp_uargs job) ! REG_WB_SOURCE_ADDR"

definition mali_pp_job_get_wb1_source_addr :: "pp_job \<Rightarrow> u32" where
  "mali_pp_job_get_wb1_source_addr job = pu_wb1 (pp_uargs job) ! REG_WB_SOURCE_ADDR"

definition mali_pp_job_get_wb2_source_addr :: "pp_job \<Rightarrow> u32" where
  "mali_pp_job_get_wb2_source_addr job = pu_wb2 (pp_uargs job) ! REG_WB_SOURCE_ADDR"

definition mali_pp_job_disable_wb0 :: "pp_job \<Rightarrow> pp_job" where
  "mali_pp_job_disable_wb0 job =
     job\<lparr>pp_uargs := (pp_uargs job)\<lparr>pu_wb0 := (pu_wb0 (pp_uargs job))[REG_WB_SOURCE_SELECT := 0]\<rparr>\<rparr>"

definition mali_pp_job_disable_wb1 :: "pp_job \<Rightarrow> pp_job" where
  "mali_pp_job_disable_wb1 job =
     job\<lparr>pp_uargs := (pp_uargs job)\<lparr>pu_wb1 := (pu_wb1 (pp_uargs job))[REG_WB_SOURCE_SELECT := 0]\<rparr>\<rparr>"

definition mali_pp_job_disable_wb2 :: "pp_job \<Rightarrow> pp_job" where
  "mali_pp_job_disable_wb2 job =
     job\<lparr>pp_uargs := (pp_uargs job)\<lparr>pu_wb2 := (pu_wb2 (pp_uargs job))[REG_WB_SOURCE_SELECT := 0]\<rparr>\<rparr>"

definition mali_pp_job_all_writeback_unit_disabled :: "pp_job \<Rightarrow> bool" where
  "mali_pp_job_all_writeback_unit_disabled job \<longleftrightarrow>
     \<not> (pu_wb0 (pp_uargs job) ! REG_WB_SOURCE_SELECT \<noteq> 0 \<or>
        pu_wb1 (pp_uargs job) ! REG_WB_SOURCE_SELECT \<noteq> 0 \<or>
        pu_wb2 (pp_uargs job) ! REG_WB_SOURCE_SELECT \<noteq> 0)"

definition mali_pp_job_has_started_sub_jobs :: "pp_job \<Rightarrow> bool" where
  "mali_pp_job_has_started_sub_jobs job \<longleftrightarrow> 0 < pp_sub_jobs_started job"

definition mali_pp_job_has_unstarted_sub_jobs :: "pp_job \<Rightarrow> bool" where
  "mali_pp_job_has_unstarted_sub_jobs job \<longleftrightarrow> pp_sub_jobs_started job < pp_sub_jobs_num job"

definition mali_pp_job_is_complete :: "pp_job \<Rightarrow> bool" where
  "mali_pp_job_is_complete job \<longleftrightarrow> pp_sub_jobs_num job = pp_sub_jobs_completed job"

definition mali_pp_job_get_first_unstarted_sub_job :: "pp_job \<Rightarrow> u32" where
  "mali_pp_job_get_first_unstarted_sub_job job = pp_sub_jobs_started job"

definition mali_pp_job_get_sub_job_count :: "pp_job \<Rightarrow> u32" where
  "mali_pp_job_get_sub_job_count job = pp_sub_jobs_num job"

definition mali_pp_job_unstarted_sub_job_count :: "pp_job \<Rightarrow> u32" where
  "mali_pp_job_unstarted_sub_job_count job = pp_sub_jobs_num job - pp_sub_jobs_started job"

definition mali_pp_job_mark_sub_job_started :: "u32 \<Rightarrow> pp_job \<Rightarrow> pp_job" where
  "mali_pp_job_mark_sub_job_started sub_job job =
     job\<lparr>pp_sub_jobs_started := pp_sub_jobs_started job + 1\<rparr>"

definition mali_pp_job_mark_sub_job_completed :: "bool \<Rightarrow> pp_job \<Rightarrow> pp_job" where
  "mali_pp_job_mark_sub_job_completed success job =
     (let job1 = job\<lparr>pp_sub_jobs_completed := pp_sub_jobs_completed job + 1\<rparr>
      in if \<not> success then job1\<lparr>pp_sub_job_errors := pp_sub_job_errors job1 + 1\<rparr> else job1)"

text \<open>The loop of \<open>mali_pp_job_mark_unstarted_failed\<close> over the remaining sub jobs.\<close>

primrec fail_sub_jobs :: "nat \<Rightarrow> pp_job \<Rightarrow> pp_job" where
  "fail_sub_jobs 0 job = job"
| "fail_sub_jobs (Suc n) job =
     fail_sub_jobs n (job\<lparr>pp_sub_jobs_completed := pp_sub_jobs_completed job + 1,
                          pp_sub_job_errors := pp_sub_job_errors job + 1\<rparr>)"

definition mali_pp_job_mark_unstarted_failed :: "pp_job \<Rightarrow> pp_job" where
  "mali_pp_job_mark_unstarted_failed job =
     (let jobs_remaining = pp_sub_jobs_num job - pp_sub_jobs_started job
      in fail_sub_jobs (unat jobs_remaining)
           (job\<lparr>pp_sub_jobs_started := pp_sub_jobs_started job + jobs_remaining\<rparr>))"

definition mali_pp_job_was_success :: "pp_job \<Rightarrow> bool" where
  "mali_pp_job_was_success job \<longleftrightarrow> 0 = pp_sub_job_errors job"

definition mali_pp_job_use_no_notification :: "pp_job \<Rightarrow> bool" where
  "mali_pp_job_use_no_notification job \<longleftrightarrow>
     pu_flags (pp_uargs job) AND PP_JOB_FLAG_NO_NOTIFICATION \<noteq> 0"

definition mali_pp_job_is_window_surface :: "pp_job \<Rightarrow> bool" where
  "mali_pp_job_is_window_surface job \<longleftrightarrow>
     pu_flags (pp_uargs job) AND PP_JOB_FLAG_IS_WINDOW_SURFACE \<noteq> 0"

definition mali_pp_job_is_protected_job :: "pp_job \<Rightarrow> bool" where
  "mali_pp_job_is_protected_job job \<longleftrightarrow>
     pu_flags (pp_uargs job) AND PP_JOB_FLAG_PROTECTED \<noteq> 0"

definition mali_pp_job_check :: "pp_job \<Rightarrow> osk_err" where
  "mali_pp_job_check job =
     (if mali_pp_job_is_virtual job \<and> pp_sub_jobs_num job \<noteq> 1 then ERR_FAULT else ERR_OK)"

definition mali_pp_job_is_large_and_unstarted :: "pp_job \<Rightarrow> bool" where
  "mali_pp_job_is_large_and_unstarted job \<longleftrightarrow>
     0 = pp_sub_jobs_started job \<and> 2 < pp_sub_jobs_num job"

section \<open>Sub job accounting\<close>

text \<open>A job with between one and eight sub jobs, of which no more are completed than started,
  no more started than there are, and no more failed than completed.\<close>

definition pp_job_ok :: "pp_job \<Rightarrow> bool" where
  "pp_job_ok job \<longleftrightarrow> 0 < pp_sub_jobs_num job \<and> pp_sub_jobs_num job \<le> PP_MAX_SUB_JOBS \<and>
     pp_sub_jobs_started job \<le> pp_sub_jobs_num job \<and>
     pp_sub_jobs_completed job \<le> pp_sub_jobs_started job \<and>
     pp_sub_job_errors job \<le> pp_sub_jobs_completed job"

lemma fail_sub_jobs_eq:
  "fail_sub_jobs n job =
     job\<lparr>pp_sub_jobs_completed := pp_sub_jobs_completed job + of_nat n,
         pp_sub_job_errors := pp_sub_job_errors job + of_nat n\<rparr>"
  by (induction n arbitrary: job) (simp_all add: algebra_simps)

lemma mark_unstarted_failed_eq:
  "mali_pp_job_mark_unstarted_failed job =
     (let k = pp_sub_jobs_num job - pp_sub_jobs_started job in
      job\<lparr>pp_sub_jobs_started := pp_sub_jobs_num job,
          pp_sub_jobs_completed := pp_sub_jobs_completed job + k,
          pp_sub_job_errors := pp_sub_job_errors job + k\<rparr>)"
  by (simp add: mali_pp_job_mark_unstarted_failed_def fail_sub_jobs_eq Let_def)

lemma pp_job_ok_unat:
  "pp_job_ok job \<longleftrightarrow> 0 < unat (pp_sub_jobs_num job) \<and> unat (pp_sub_jobs_num job) \<le> 8 \<and>
     unat (pp_sub_jobs_started job) \<le> unat (pp_sub_jobs_num job) \<and>
     unat (pp_sub_jobs_completed job) \<le> unat (pp_sub_jobs_started job) \<and>
     unat (pp_sub_job_errors job) \<le> unat (pp_sub_jobs_completed job)"
  by (simp add: pp_job_ok_def PP_MAX_SUB_JOBS_def word_le_nat_alt word_less_nat_alt)

lemma mark_started_ok:
  "pp_job_ok job \<Longrightarrow> mali_pp_job_has_unstarted_sub_jobs job \<Longrightarrow>
     pp_job_ok (mali_pp_job_mark_sub_job_started i job)"
  by (auto simp: pp_job_ok_unat mali_pp_job_has_unstarted_sub_jobs_def unat_plus_u32
      mali_pp_job_mark_sub_job_started_def word_less_nat_alt)

lemma mark_completed_ok:
  "pp_job_ok job \<Longrightarrow> pp_sub_jobs_completed job < pp_sub_jobs_started job \<Longrightarrow>
     pp_job_ok (mali_pp_job_mark_sub_job_completed b job)"
  by (auto simp: pp_job_ok_unat mali_pp_job_mark_sub_job_completed_def unat_plus_u32
      word_less_nat_alt Let_def)

lemma unstarted_count_unat:
  "pp_job_ok job \<Longrightarrow> unat (mali_pp_job_unstarted_sub_job_count job) =
     unat (pp_sub_jobs_num job) - unat (pp_sub_jobs_started job)"
  by (simp add: pp_job_ok_unat mali_pp_job_unstarted_sub_job_count_def unat_minus_u32)

lemma has_unstarted_iff:
  "pp_job_ok job \<Longrightarrow>
     mali_pp_job_has_unstarted_sub_jobs job \<longleftrightarrow> 0 < unat (mali_pp_job_unstarted_sub_job_count job)"
  by (auto simp: unstarted_count_unat mali_pp_job_has_unstarted_sub_jobs_def word_less_nat_alt)

lemma mark_failed_unats:
  assumes "pp_job_ok job" and "job' = mali_pp_job_mark_unstarted_failed job"
    and "k = unat (pp_sub_jobs_num job) - unat (pp_sub_jobs_started job)"
  shows "pp_sub_jobs_num job' = pp_sub_jobs_num job" "pp_sub_jobs_started job' = pp_sub_jobs_num job"
    and "unat (pp_sub_jobs_completed job') = unat (pp_sub_jobs_completed job) + k"
    and "unat (pp_sub_job_errors job') = unat (pp_sub_job_errors job) + k"
  using assms
  by (auto simp: mark_unstarted_failed_eq Let_def pp_job_ok_unat unat_plus_u32 unat_minus_u32)

lemma mark_failed_ok:
  assumes "pp_job_ok job"
  shows "pp_job_ok (mali_pp_job_mark_unstarted_failed job)"
proof -
  note u = mark_failed_unats [OF assms refl refl]
  show ?thesis
    using assms unfolding pp_job_ok_unat u by (elim conjE, intro conjI) linarith+
qed

text \<open>giving up on the sub jobs of a job that have not started keeps its accounting
  consistent: nothing is left to start, the job is complete exactly when every sub job that had
  started had also completed, and a job that had anything left is reported as failed.\<close>

theorem mark_unstarted_failed_accounting:
  assumes "pp_job_ok job"
  shows "pp_job_ok (mali_pp_job_mark_unstarted_failed job) \<and>
         \<not> mali_pp_job_has_unstarted_sub_jobs (mali_pp_job_mark_unstarted_failed job) \<and>
         (mali_pp_job_is_complete (mali_pp_job_mark_unstarted_failed job) \<longleftrightarrow>
            pp_sub_jobs_completed job = pp_sub_jobs_started job) \<and>
         (mali_pp_job_has_unstarted_sub_jobs job \<longrightarrow>
            \<not> mali_pp_job_was_success (mali_pp_job_mark_unstarted_failed job))"
proof -
  define job' where "job' = mali_pp_job_mark_unstarted_failed job"
  note u = mark_failed_unats [OF assms job'_def refl]
  have "mali_pp_job_is_complete job' \<longleftrightarrow> pp_sub_jobs_completed job = pp_sub_jobs_started job"
    using assms u(1,3) by (auto simp: mali_pp_job_is_complete_def word_unat_eq_iff pp_job_ok_unat)
  moreover have "mali_pp_job_has_unstarted_sub_jobs job \<longrightarrow> \<not> mali_pp_job_was_success job'"
    using u(4) by (auto simp: mali_pp_job_was_success_def mali_pp_job_has_unstarted_sub_jobs_def
        word_less_nat_alt)
  ultimately show ?thesis
    using mark_failed_ok [OF assms] u(1,2)
    unfolding job'_def [symmetric] by (simp add: mali_pp_job_has_unstarted_sub_jobs_def)
qed

section \<open>Performance counter sources\<close>

text \<open>The static variables of mali_pp_job.c.\<close>

record pp_counters =
  pc_src0 :: u32
  pc_src1 :: u32
  pc_per_sub_count :: u32
  pc_per_sub_src0 :: "u32 list"
  pc_per_sub_src1 :: "u32 list"

definition mali_pp_job_get_perf_counter_src0 :: "pp_job \<Rightarrow> u32 \<Rightarrow> u32" where
  "mali_pp_job_get_perf_counter_src0 job sub_job =
     (if mali_pp_job_is_virtual job \<or> 0 = pp_per_sub_count job
      then pu_perf_counter_src0 (pp_uargs job)
      else if HW_CORE_NO_COUNTER \<noteq> pp_per_sub_src0 job ! unat sub_job
      then pp_per_sub_src0 job ! unat sub_job
      else pu_perf_counter_src0 (pp_uargs job))"

definition mali_pp_job_get_perf_counter_src1 :: "pp_job \<Rightarrow> u32 \<Rightarrow> u32" where
  "mali_pp_job_get_perf_counter_src1 job sub_job =
     (if mali_pp_job_is_virtual job \<or> 0 = pp_per_sub_count job
      then pu_perf_counter_src1 (pp_uargs job)
      else if HW_CORE_NO_COUNTER \<noteq> pp_per_sub_src1 job ! unat sub_job
      then pp_per_sub_src1 job ! unat sub_job
      else pu_perf_counter_src1 (pp_uargs job))"

definition mali_pp_job_set_pp_counter_sub_job_src0 :: "u32 \<Rightarrow> u32 \<Rightarrow> pp_counters \<Rightarrow> pp_counters" where
  "mali_pp_job_set_pp_counter_sub_job_src0 sub_job counter c =
     (let c1 = (if HW_CORE_NO_COUNTER = pc_per_sub_src0 c ! unat sub_job
                then c\<lparr>pc_per_sub_count := pc_per_sub_count c + 1\<rparr> else c);
          c2 = (if HW_CORE_NO_COUNTER = counter
                then c1\<lparr>pc_per_sub_count := pc_per_sub_count c1 - 1\<rparr> else c1)
      in c2\<lparr>pc_per_sub_src0 := (pc_per_sub_src0 c2)[unat sub_job := counter]\<rparr>)"

definition mali_pp_job_set_pp_counter_sub_job_src1 :: "u32 \<Rightarrow> u32 \<Rightarrow> pp_counters \<Rightarrow> pp_counters" where
  "mali_pp_job_set_pp_counter_sub_job_src1 sub_job counter c =
     (let c1 = (if HW_CORE_NO_COUNTER = pc_per_sub_src1 c ! unat sub_job
                then c\<lparr>pc_per_sub_count := pc_per_sub_count c + 1\<rparr> else c);
          c2 = (if HW_CORE_NO_COUNTER = counter
                then c1\<lparr>pc_per_sub_count := pc_per_sub_count c1 - 1\<rparr> else c1)
      in c2\<lparr>pc_per_sub_src1 := (pc_per_sub_src1 c2)[unat sub_job := counter]\<rparr>)"

definition enabled_counters :: "u32 list \<Rightarrow> u32" where
  "enabled_counters cs = of_nat (length (filter (\<lambda>x. x \<noteq> HW_CORE_NO_COUNTER) cs))"

definition pp_counters_ok :: "pp_counters \<Rightarrow> bool" where
  "pp_counters_ok c \<longleftrightarrow> length (pc_per_sub_src0 c) = 8 \<and> length (pc_per_sub_src1 c) = 8 \<and>
     pc_per_sub_count c = enabled_counters (pc_per_sub_src0 c) + enabled_counters (pc_per_sub_src1 c)"

definition initial_pp_counters :: pp_counters where
  "initial_pp_counters =
     \<lparr>pc_src0 = HW_CORE_NO_COUNTER, pc_src1 = HW_CORE_NO_COUNTER, pc_per_sub_count = 0,
      pc_per_sub_src0 = replicate 8 HW_CORE_NO_COUNTER,
      pc_per_sub_src1 = replicate 8 HW_CORE_NO_COUNTER\<rparr>"

lemma enabled_counters_update:
  "i < length cs \<Longrightarrow> enabled_counters (cs[i := x]) =
     enabled_counters cs + (if cs ! i = HW_CORE_NO_COUNTER then 1 else 0)
                         - (if x = HW_CORE_NO_COUNTER then 1 else 0)"
proof (induction cs arbitrary: i)
  case (Cons y ys)
  then show ?case by (cases i) (auto simp: enabled_counters_def)
qed simp

lemma set_sub_job_src0_ok:
  assumes "sub_job < PP_MAX_SUB_JOBS" and "pp_counters_ok c"
  shows "pp_counters_ok (mali_pp_job_set_pp_counter_sub_job_src0 sub_job counter c)"
proof -
  have "mali_pp_job_set_pp_counter_sub_job_src0 sub_job counter c =
      c\<lparr>pc_per_sub_count := pc_per_sub_count c
           + (if pc_per_sub_src0 c ! unat sub_job = HW_CORE_NO_COUNTER then 1 else 0)
           - (if counter = HW_CORE_NO_COUNTER then 1 else 0),
        pc_per_sub_src0 := (pc_per_sub_src0 c)[unat sub_job := counter]\<rparr>"
    by (simp add: mali_pp_job_set_pp_counter_sub_job_src0_def Let_def)
  moreover have "unat sub_job < 8"
    using assms(1) by (simp add: PP_MAX_SUB_JOBS_def word_less_nat_alt)
  ultimately show ?thesis
    using assms(2) by (simp add: pp_counters_ok_def enabled_counters_update)
qed

lemma set_sub_job_src1_ok:
  assumes "sub_job < PP_MAX_SUB_JOBS" and "pp_counters_ok c"
  shows "pp_counters_ok (mali_pp_job_set_pp_counter_sub_job_src1 sub_job counter c)"
proof -
  have "mali_pp_job_set_pp_counter_sub_job_src1 sub_job counter c =
      c\<lparr>pc_per_sub_count := pc_per_sub_count c
           + (if pc_per_sub_src1 c ! unat sub_job = HW_CORE_NO_COUNTER then 1 else 0)
           - (if counter = HW_CORE_NO_COUNTER then 1 else 0),
        pc_per_sub_src1 := (pc_per_sub_src1 c)[unat sub_job := counter]\<rparr>"
    by (simp add: mali_pp_job_set_pp_counter_sub_job_src1_def Let_def)
  moreover have "unat sub_job < 8"
    using assms(1) by (simp add: PP_MAX_SUB_JOBS_def word_less_nat_alt)
  ultimately show ?thesis
    using assms(2) by (simp add: pp_counters_ok_def enabled_counters_update)
qed

lemma initial_pp_counters_ok: "pp_counters_ok initial_pp_counters"
  by (simp add: pp_counters_ok_def initial_pp_counters_def enabled_counters_def)

text \<open>The number of enabled per-sub-job counters the driver keeps is at all times the
  number of entries of the two arrays that are not MALI_HW_CORE_NO_COUNTER, so a job copies the
  arrays exactly when one of them is in use.\<close>

theorem per_sub_job_count_exact:
  "pp_counters_ok initial_pp_counters \<and>
   (sub_job < PP_MAX_SUB_JOBS \<longrightarrow> pp_counters_ok c \<longrightarrow>
      pp_counters_ok (mali_pp_job_set_pp_counter_sub_job_src0 sub_job counter c) \<and>
      pp_counters_ok (mali_pp_job_set_pp_counter_sub_job_src1 sub_job counter c))"
  using set_sub_job_src0_ok [of sub_job c counter] set_sub_job_src1_ok [of sub_job c counter]
    initial_pp_counters_ok by blast

theorem per_sub_job_count_exact_witness:
  "pp_counters_ok (mali_pp_job_set_pp_counter_sub_job_src1 3 17 initial_pp_counters)"
  using per_sub_job_count_exact [of 3 initial_pp_counters 17] by (simp add: PP_MAX_SUB_JOBS_def)

section \<open>Insertion into a queue\<close>

text \<open>
  The reverse loop stops at the last job of the queue that must run before the new one: one in
  progress, or one with a smaller identifier up to wrapping. The new job is linked behind it,
  or in front when the loop runs through (the iterator is then the list head).
\<close>

definition pp_job_goes_after :: "(jid \<Rightarrow> pp_job) \<Rightarrow> jid \<Rightarrow> jid \<Rightarrow> bool" where
  "pp_job_goes_after J job it \<longleftrightarrow>
     0 < pp_sub_jobs_started (J it) \<or> pp_id (J job) - pp_id (J it) < SCHEDULER_JOB_ID_SPAN"

fun add_after_last :: "('a \<Rightarrow> bool) \<Rightarrow> 'a \<Rightarrow> 'a list \<Rightarrow> 'a list" where
  "add_after_last stop x [] = [x]"
| "add_after_last stop x (y # rev_rest) =
     (if stop y then x # y # rev_rest else y # add_after_last stop x rev_rest)"

definition mali_pp_job_list_add :: "(jid \<Rightarrow> pp_job) \<Rightarrow> jid \<Rightarrow> jid list \<Rightarrow> jid list" where
  "mali_pp_job_list_add J job queue = rev (add_after_last (pp_job_goes_after J job) job (rev queue))"

lemma set_add_after_last [simp]: "set (add_after_last P x ys) = insert x (set ys)"
  by (induction ys) auto

lemma mset_add_after_last: "length (add_after_last P x ys) = Suc (length ys)"
  by (induction ys) auto

lemma distinct_add_after_last:
  "distinct ys \<Longrightarrow> x \<notin> set ys \<Longrightarrow> distinct (add_after_last P x ys)"
  by (induction ys) auto

lemma add_after_last_skip:
  "(\<And>y. y \<in> set ys \<Longrightarrow> \<not> P y) \<Longrightarrow> add_after_last P x (ys @ zs) = ys @ add_after_last P x zs"
  by (induction ys) auto

lemma add_after_last_stop: "(zs = [] \<or> P (hd zs)) \<Longrightarrow> add_after_last P x zs = x # zs"
  by (cases zs) auto

lemma filter_add_after_last:
  "\<not> Q x \<Longrightarrow> filter Q (add_after_last P x ys) = filter Q ys"
  by (induction ys) auto

text \<open>Where the keys ascend, the loop finds the place behind every element with a smaller or
  equal key.\<close>

lemma add_after_last_sorted:
  assumes "\<And>y. y \<in> set u \<Longrightarrow> P y \<longleftrightarrow> key y \<le> (k::nat)" and "sorted (map key u)"
    and "s = [] \<or> P (last s)"
  shows "rev (add_after_last P x (rev (s @ u))) =
           s @ takeWhile (\<lambda>y. key y \<le> k) u @ x # dropWhile (\<lambda>y. key y \<le> k) u"
proof -
  define a where "a = takeWhile (\<lambda>y. key y \<le> k) u"
  define b where "b = dropWhile (\<lambda>y. key y \<le> k) u"
  have u: "u = a @ b" by (simp add: a_def b_def)
  have nb: "\<not> P y" if "y \<in> set (rev b)" for y
  proof -
    from that have "b \<noteq> []" by auto
    then have "\<not> key (hd b) \<le> k" unfolding b_def by (rule hd_dropWhile)
    moreover have "key (hd b) \<le> key y"
      using assms(2) that \<open>b \<noteq> []\<close> u by (cases b) (auto simp: sorted_append)
    ultimately show ?thesis using assms(1) [of y] that u by simp
  qed
  have "rev a @ rev s = [] \<or> P (hd (rev a @ rev s))"
  proof (cases a rule: rev_cases)
    case (snoc a' y)
    then have "y \<in> set a" by simp
    then have "key y \<le> k" and "y \<in> set u"
      using set_takeWhileD unfolding a_def by fastforce+
    with snoc assms(1) show ?thesis by simp
  next
    case Nil
    with assms(3) show ?thesis by (cases s rule: rev_cases) auto
  qed
  then have "add_after_last P x (rev b @ rev a @ rev s) = rev b @ x # rev a @ rev s"
    using add_after_last_skip [of "rev b" P x "rev a @ rev s"] nb add_after_last_stop by metis
  then show ?thesis unfolding a_def [symmetric] b_def [symmetric] by (simp add: u)
qed

lemma sorted_insert_at:
  "sorted (map (key :: 'a \<Rightarrow> nat) u) \<Longrightarrow>
     sorted (map key (takeWhile (\<lambda>y. key y \<le> key x) u @ x # dropWhile (\<lambda>y. key y \<le> key x) u))"
  by (induction u) (fastforce dest: set_takeWhileD set_dropWhileD)+

lemma set_insert_at: "set (takeWhile P u @ x # dropWhile P u) = insert x (set u)"
  by (induction u) auto

lemma filter_insert_at: "x \<notin> set u \<Longrightarrow> filter (\<lambda>i. i \<noteq> x) (takeWhile P u @ x # dropWhile P u) = u"
  by (induction u) (auto simp: filter_id_conv)

text \<open>Job identifiers less than a span apart, counted from the oldest one.\<close>

definition job_offset :: "u32 \<Rightarrow> u32 \<Rightarrow> nat" where
  "job_offset base i = unat (i - base)"

lemma job_id_order:
  assumes "job_offset base a < 65535" and "job_offset base b < 65535"
  shows "a - b < SCHEDULER_JOB_ID_SPAN \<longleftrightarrow> job_offset base b \<le> job_offset base a"
proof -
  have "a - b = (a - base) - (b - base)" by simp
  then have "unat (a - b) = (if job_offset base b \<le> job_offset base a
      then job_offset base a - job_offset base b
      else job_offset base a + 4294967296 - job_offset base b)"
    unfolding job_offset_def by (simp only: unat_minus_u32)
  moreover have "a - b < SCHEDULER_JOB_ID_SPAN \<longleftrightarrow> unat (a - b) < 65535"
    by (simp add: SCHEDULER_JOB_ID_SPAN_def word_less_nat_alt)
  ultimately show ?thesis using assms by auto
qed

text \<open>a queue is kept in the order of the jobs' identifiers across a wrap of the 32-bit
  numbering, as long as the identifiers in it span less than 65535: behind the jobs in
  progress, the new job goes after every job that was numbered before it, and the others keep
  their order.\<close>

theorem pp_job_list_add_ordered:
  assumes "\<forall>i \<in> set s. 0 < pp_sub_jobs_started (J i)"
    and "\<forall>i \<in> set u. pp_sub_jobs_started (J i) = 0"
    and "\<forall>i \<in> insert job (set u). job_offset base (pp_id (J i)) < 65535"
    and "sorted (map (\<lambda>i. job_offset base (pp_id (J i))) u)"
  shows "\<exists>v. mali_pp_job_list_add J job (s @ u) = s @ v \<and> set v = insert job (set u) \<and>
             sorted (map (\<lambda>i. job_offset base (pp_id (J i))) v) \<and>
             (job \<notin> set u \<longrightarrow> filter (\<lambda>i. i \<noteq> job) v = u)"
proof -
  let ?key = "\<lambda>i. job_offset base (pp_id (J i))"
  let ?k = "?key job"
  let ?v = "takeWhile (\<lambda>y. ?key y \<le> ?k) u @ job # dropWhile (\<lambda>y. ?key y \<le> ?k) u"
  have "pp_job_goes_after J job y \<longleftrightarrow> ?key y \<le> ?k" if "y \<in> set u" for y
    using assms(2,3) that job_id_order [of base "pp_id (J job)" "pp_id (J y)"]
    by (simp add: pp_job_goes_after_def)
  moreover have "s = [] \<or> pp_job_goes_after J job (last s)"
    using assms(1) by (auto simp: pp_job_goes_after_def)
  ultimately have e: "mali_pp_job_list_add J job (s @ u) = s @ ?v"
    unfolding mali_pp_job_list_add_def by (intro add_after_last_sorted assms(4)) auto
  have "sorted (map ?key ?v)" using assms(4) by (rule sorted_insert_at)
  moreover have "set ?v = insert job (set u)" by (rule set_insert_at)
  moreover have "job \<notin> set u \<longrightarrow> filter (\<lambda>i. i \<noteq> job) ?v = u"
    by (intro impI filter_insert_at)
  ultimately show ?thesis using e by blast
qed

section \<open>Creation, result and deletion\<close>

text \<open>
  \<open>buf\<close> below is the result buffer of the notification as it was allocated: the kernel's
  allocator does not clear it.
  What the job takes from and gives back to the kernel is recorded as a list of events.
  \<open>Notify\<close> is the finished notification sent to user space, which the receiver frees.
\<close>

record pp_job_finished =
  pf_user_job_ptr :: "64 word"
  pf_success :: bool
  pf_counter0 :: "u32 list"
  pf_counter1 :: "u32 list"
  pf_src0 :: u32
  pf_src1 :: u32

datatype pp_event =
    AllocJob | AllocNotification | AllocCookies
  | FreeJob | FreeNotification | FreeCookies
  | SwapOut
  | Notify pp_job_finished

definition copy_counter :: "pp_counters \<Rightarrow> pp_job \<Rightarrow> nat \<Rightarrow> pp_job_finished \<Rightarrow> pp_job_finished" where
  "copy_counter c job i r =
     r\<lparr>pf_counter0 := (pf_counter0 r)[i := pp_value0 job ! i],
       pf_counter1 := (pf_counter1 r)[i := pp_value1 job ! i],
       pf_src0 := pc_src0 c, pf_src1 := pc_src1 c\<rparr>"

definition mali_scheduler_return_pp_job_to_user ::
    "pp_counters \<Rightarrow> pp_job_finished \<Rightarrow> pp_job \<Rightarrow> u32 \<Rightarrow> pp_event list \<times> pp_job" where
  "mali_scheduler_return_pp_job_to_user c buf job num_cores_in_virtual =
     (if mali_pp_job_use_no_notification job then ([], job)
      else let job1 = job\<lparr>pp_finished_notification := False\<rparr>;
               r = buf\<lparr>pf_user_job_ptr := pu_user_job_ptr (pp_uargs job),
                                    pf_success := mali_pp_job_was_success job\<rparr>;
               num_counters_to_copy =
                 (if mali_pp_job_is_virtual job then num_cores_in_virtual
                  else mali_pp_job_get_sub_job_count job)
           in ([Notify (fold (copy_counter c job) [0 ..< unat num_counters_to_copy] r)], job1))"

definition mali_pp_job_delete :: "pp_counters \<Rightarrow> pp_job_finished \<Rightarrow> pp_job \<Rightarrow> pp_event list" where
  "mali_pp_job_delete c buf job =
     (let ev1 = (if pp_memory_cookies job \<noteq> None
                 then (if NO_SWAP_IN \<noteq> pp_swap_status job then [SwapOut] else []) @ [FreeCookies]
                 else []);
          (ev2, job2) = (if pp_user_notification job
                         then mali_scheduler_return_pp_job_to_user c buf job (pp_num_cores_in_virtual job)
                         else ([], job));
          ev3 = (if pp_finished_notification job2 then [FreeNotification] else [])
      in ev1 @ ev2 @ ev3 @ [FreeJob])"

text \<open>
  The environment of \<open>mali_pp_job_create\<close>: which allocations succeed, what is copied from user
  space (None when the copy faults), the caller, the session's number of allocations, and
  the swap status \<open>mali_mem_swap_in_pages\<close> leaves.
\<close>

record pp_create_env =
  pe_calloc :: bool
  pe_uargs :: "pp_uargs option"
  pe_notification :: bool
  pe_cookies_malloc :: bool
  pe_cookies :: "u32 list option"
  pe_pid :: u32
  pe_tid :: u32
  pe_allocation_num :: u32
  pe_swap :: pp_job_status

definition zeroed_fence :: timeline_fence where
  "zeroed_fence = \<lparr>f_points = (\<lambda>_. NO_POINT), f_sync_fd = 0\<rparr>"

definition zeroed_pp_uargs :: pp_uargs where
  "zeroed_pp_uargs =
     \<lparr>pu_user_job_ptr = 0, pu_frame_registers = replicate 23 0, pu_addr_frame = replicate 7 0,
      pu_addr_stack = replicate 7 0, pu_wb0 = replicate 12 0, pu_wb1 = replicate 12 0,
      pu_wb2 = replicate 12 0, pu_num_cores = 0, pu_perf_counter_flag = 0,
      pu_perf_counter_src0 = 0, pu_perf_counter_src1 = 0, pu_frame_builder_id = 0, pu_flags = 0,
      pu_num_memory_cookies = 0, pu_fence = zeroed_fence\<rparr>"

definition zeroed_pp_job :: pp_job where
  "zeroed_pp_job =
     \<lparr>pp_uargs = zeroed_pp_uargs, pp_session = 0, pp_pid = 0, pp_tid = 0, pp_id = 0,
      pp_cache_order = 0, pp_finished_notification = False, pp_per_sub_count = 0,
      pp_per_sub_src0 = replicate 8 0, pp_per_sub_src1 = replicate 8 0, pp_sub_jobs_num = 0,
      pp_swap_status = NO_SWAP_IN, pp_user_notification = False, pp_num_cores_in_virtual = 0,
      pp_sub_jobs_completed = 0, pp_sub_job_errors = 0, pp_memory_cookies = None,
      pp_sub_jobs_started = 0, pp_value0 = replicate 8 0, pp_value1 = replicate 8 0\<rparr>"

text \<open>The global counters are taken over when user space enabled none.\<close>

definition pp_job_take_counters :: "pp_counters \<Rightarrow> pp_job \<Rightarrow> pp_job" where
  "pp_job_take_counters c job =
     (let flag = pu_perf_counter_flag (pp_uargs job) in
      if flag AND FLAG_SRC0_ENABLE \<noteq> 0 \<or> flag AND FLAG_SRC1_ENABLE \<noteq> 0 then job
      else let job1 = job\<lparr>pp_uargs := (pp_uargs job)\<lparr>pu_perf_counter_src0 := pc_src0 c,
                                                     pu_perf_counter_src1 := pc_src1 c\<rparr>\<rparr>
           in if 0 < pc_per_sub_count c
              then job1\<lparr>pp_per_sub_count := pc_per_sub_count c,
                        pp_per_sub_src0 := pc_per_sub_src0 c, pp_per_sub_src1 := pc_per_sub_src1 c\<rparr>
              else job1)"

definition pp_job_set_up :: "pp_create_env \<Rightarrow> session_id \<Rightarrow> u32 \<Rightarrow> pp_job \<Rightarrow> pp_job" where
  "pp_job_set_up e session i job =
     job\<lparr>pp_session := session, pp_id := i,
         pp_sub_jobs_num := (if pu_num_cores (pp_uargs job) \<noteq> 0 then pu_num_cores (pp_uargs job) else 1),
         pp_pid := pe_pid e, pp_tid := pe_tid e, pp_sub_jobs_completed := 0, pp_sub_job_errors := 0,
         pp_swap_status := NO_SWAP_IN, pp_user_notification := False, pp_num_cores_in_virtual := 0\<rparr>"

text \<open>The body of the creation, as the job so far, the events, and whether a step failed
  (the \<open>goto fail\<close> of the C). The tracker's initialisation is
  \<open>mali_timeline_tracker_init\<close>, in the theory of the timelines.\<close>

definition pp_job_copy_cookies :: "pp_create_env \<Rightarrow> pp_job \<Rightarrow> pp_event list \<times> pp_job \<times> bool" where
  "pp_job_copy_cookies e job =
     (if pu_num_memory_cookies (pp_uargs job) > pe_allocation_num e then ([], job, False)
      else if pu_num_memory_cookies (pp_uargs job) > 0
      then if \<not> pe_cookies_malloc e then ([], job, False)
           else (case pe_cookies e of
                   None \<Rightarrow> ([AllocCookies], job\<lparr>pp_memory_cookies := Some []\<rparr>, False)
                 | Some cookies \<Rightarrow>
                     ([AllocCookies], job\<lparr>pp_memory_cookies := Some cookies\<rparr>, True))
      else ([], job, True))"

text \<open>The job once its notification is allocated, up to the copy of the cookies.\<close>

definition pp_job_prepared ::
    "pp_counters \<Rightarrow> pp_create_env \<Rightarrow> session_id \<Rightarrow> u32 \<Rightarrow> pp_job \<Rightarrow> pp_job" where
  "pp_job_prepared c e session i job =
     pp_job_set_up e session i (pp_job_take_counters c
       (job\<lparr>pp_finished_notification := \<not> mali_pp_job_use_no_notification job\<rparr>))"

definition pp_job_create_body ::
    "pp_counters \<Rightarrow> pp_create_env \<Rightarrow> session_id \<Rightarrow> u32 \<Rightarrow> pp_event list \<times> pp_job \<times> bool" where
  "pp_job_create_body c e session i =
     (case pe_uargs e of
        None \<Rightarrow> ([], zeroed_pp_job, False)
      | Some ua \<Rightarrow>
          let job = zeroed_pp_job\<lparr>pp_uargs := ua\<rparr> in
          if pu_num_cores ua > PP_MAX_SUB_JOBS then ([], job, False)
          else if \<not> mali_pp_job_use_no_notification job \<and> \<not> pe_notification e
          then ([], job, False)
          else let ev = (if mali_pp_job_use_no_notification job then [] else [AllocNotification]);
                   job2 = pp_job_prepared c e session i job;
                   (ev', job3, copied) = pp_job_copy_cookies e job2
               in if \<not> copied then (ev @ ev', job3, False)
                  else if mali_pp_job_check job3 \<noteq> ERR_OK then (ev @ ev', job3, False)
                  else (ev @ ev', job3\<lparr>pp_swap_status := pe_swap e\<rparr>, True))"

definition mali_pp_job_create ::
    "pp_counters \<Rightarrow> pp_job_finished \<Rightarrow> pp_create_env \<Rightarrow> session_id \<Rightarrow> u32 \<Rightarrow> pp_event list \<times> pp_job option" where
  "mali_pp_job_create c buf e session i =
     (if \<not> pe_calloc e then ([], None)
      else let (ev, job, created) = pp_job_create_body c e session i
           in if created then (AllocJob # ev, Some job)
              else (AllocJob # ev @ mali_pp_job_delete c buf job, None))"

text \<open>Every allocation is given back, the notification either freed or sent.\<close>

definition is_notify :: "pp_event \<Rightarrow> bool" where
  "is_notify e \<longleftrightarrow> (case e of Notify _ \<Rightarrow> True | _ \<Rightarrow> False)"

definition balanced :: "pp_event list \<Rightarrow> bool" where
  "balanced ev \<longleftrightarrow> count_list ev AllocJob = count_list ev FreeJob \<and>
     count_list ev AllocCookies = count_list ev FreeCookies \<and>
     count_list ev AllocNotification =
       count_list ev FreeNotification + length (filter is_notify ev)"

definition pp_resources :: "pp_job \<Rightarrow> pp_event list" where
  "pp_resources job = (if pp_finished_notification job then [AllocNotification] else []) @
     (if pp_memory_cookies job \<noteq> None then [AllocCookies] else [])"

lemma return_to_user_events:
  "mali_scheduler_return_pp_job_to_user c buf job n = (ev, job') \<Longrightarrow>
     (if mali_pp_job_use_no_notification job then ev = [] \<and> job' = job
      else \<exists>r. ev = [Notify r] \<and> job' = job\<lparr>pp_finished_notification := False\<rparr>)"
  by (auto simp: mali_scheduler_return_pp_job_to_user_def Let_def split: if_splits)

lemma delete_balanced:
  assumes "\<not> mali_pp_job_use_no_notification job \<longrightarrow>
             pp_user_notification job \<longrightarrow> pp_finished_notification job"
  shows "balanced (AllocJob # pp_resources job @ mali_pp_job_delete c buf job)"
proof -
  obtain ev2 job2 where r: "mali_scheduler_return_pp_job_to_user c buf job
      (pp_num_cores_in_virtual job) = (ev2, job2)" by fastforce
  note r' = return_to_user_events [OF r]
  show ?thesis
    using assms r r'
    by (auto simp: balanced_def pp_resources_def mali_pp_job_delete_def is_notify_def Let_def
        split: if_splits)
qed

lemma balanced_append_comm: "balanced (a @ b) \<longleftrightarrow> balanced (b @ a)"
  by (auto simp: balanced_def)

lemma copy_cookies_resources:
  assumes "pp_job_copy_cookies e job = (ev, job', ok)" and "pp_memory_cookies job = None"
  shows "ev = (if pp_memory_cookies job' \<noteq> None then [AllocCookies] else []) \<and>
         job'\<lparr>pp_memory_cookies := None\<rparr> = job"
  using assms by (auto simp: pp_job_copy_cookies_def split: if_splits option.splits)

lemma pp_job_ext: "job'\<lparr>pp_memory_cookies := None\<rparr> = job \<Longrightarrow>
    job' = job\<lparr>pp_memory_cookies := pp_memory_cookies job'\<rparr>"
  by (cases job'; cases job) auto

lemma take_counters_keeps:
  "pp_finished_notification (pp_job_take_counters c job) = pp_finished_notification job"
  "pp_memory_cookies (pp_job_take_counters c job) = pp_memory_cookies job"
  "pu_num_cores (pp_uargs (pp_job_take_counters c job)) = pu_num_cores (pp_uargs job)"
  "pu_flags (pp_uargs (pp_job_take_counters c job)) = pu_flags (pp_uargs job)"
  "pp_sub_jobs_started (pp_job_take_counters c job) = pp_sub_jobs_started job"
  "pp_user_notification (pp_job_take_counters c job) = pp_user_notification job"
  by (simp_all add: pp_job_take_counters_def Let_def)

lemma prepared_fields:
  assumes "p = pp_job_prepared c e session i (zeroed_pp_job\<lparr>pp_uargs := ua\<rparr>)"
  shows "pp_finished_notification p \<longleftrightarrow> \<not> mali_pp_job_use_no_notification (zeroed_pp_job\<lparr>pp_uargs := ua\<rparr>)"
    "pp_memory_cookies p = None" "\<not> pp_user_notification p" "pp_sub_jobs_started p = 0"
    "pp_id p = i" "pp_session p = session" "pp_sub_jobs_completed p = 0" "pp_sub_job_errors p = 0"
    "pp_sub_jobs_num p = (if pu_num_cores ua \<noteq> 0 then pu_num_cores ua else 1)"
    "pu_num_cores (pp_uargs p) = pu_num_cores ua" "pu_flags (pp_uargs p) = pu_flags ua"
  unfolding assms pp_job_prepared_def pp_job_set_up_def
  by (simp_all add: take_counters_keeps zeroed_pp_job_def mali_pp_job_use_no_notification_def)

text \<open>What every outcome of the body is made of.\<close>

lemma create_body_cases:
  assumes "pp_job_create_body c e session i = (ev, job, created)"
  obtains (early) ua where "ev = []" "job = zeroed_pp_job\<lparr>pp_uargs := ua\<rparr>" "\<not> created"
  | (late) ua cookies st where "pu_num_cores ua \<le> PP_MAX_SUB_JOBS"
      "job = (pp_job_prepared c e session i (zeroed_pp_job\<lparr>pp_uargs := ua\<rparr>))
               \<lparr>pp_memory_cookies := cookies, pp_swap_status := st\<rparr>"
      "ev = (if mali_pp_job_use_no_notification (zeroed_pp_job\<lparr>pp_uargs := ua\<rparr>) then []
             else [AllocNotification]) @ (if cookies \<noteq> None then [AllocCookies] else [])"
      "created \<longrightarrow> mali_pp_job_check job = ERR_OK"
proof (cases "pe_uargs e")
  case None
  with assms have "ev = []" "job = zeroed_pp_job\<lparr>pp_uargs := zeroed_pp_uargs\<rparr>" "\<not> created"
    by (auto simp: pp_job_create_body_def zeroed_pp_job_def)
  then show ?thesis by (rule early)
next
  case (Some ua)
  let ?job = "zeroed_pp_job\<lparr>pp_uargs := ua\<rparr>"
  let ?p = "pp_job_prepared c e session i ?job"
  obtain ev' job3 copied where k: "pp_job_copy_cookies e ?p = (ev', job3, copied)"
    by (metis prod_cases3)
  have j3: "ev' = (if pp_memory_cookies job3 \<noteq> None then [AllocCookies] else [])"
    "job3 = ?p\<lparr>pp_memory_cookies := pp_memory_cookies job3\<rparr>"
    using copy_cookies_resources [OF k prepared_fields(2) [OF refl]] pp_job_ext by blast+
  show ?thesis
  proof (cases "pu_num_cores ua > PP_MAX_SUB_JOBS \<or>
      (\<not> mali_pp_job_use_no_notification ?job \<and> \<not> pe_notification e)")
    case True
    then have "pp_job_create_body c e session i = ([], ?job, False)"
      using Some by (auto simp: pp_job_create_body_def Let_def)
    with assms show ?thesis by (intro early [of ua]) simp_all
  next
    case False
    have "job3 = ?p\<lparr>pp_memory_cookies := pp_memory_cookies job3, pp_swap_status := pp_swap_status job3\<rparr>"
      using j3(2) by (cases job3) simp
    moreover have "mali_pp_job_check (job3\<lparr>pp_swap_status := st\<rparr>) = mali_pp_job_check job3" for st
      by (simp add: mali_pp_job_check_def mali_pp_job_is_virtual_def)
    ultimately show ?thesis
      using False assms Some k j3
      by (intro late [of ua "pp_swap_status job" "pp_memory_cookies job3"])
        (auto simp: pp_job_create_body_def Let_def not_less split: if_splits)
  qed
qed

lemma create_body_resources:
  assumes "pp_job_create_body c e session i = (ev, job, created)"
  shows "ev = pp_resources job \<and> \<not> pp_user_notification job"
  using assms
proof (cases rule: create_body_cases)
  case early
  then show ?thesis by (simp add: pp_resources_def zeroed_pp_job_def)
next
  case (late ua cookies st)
  then show ?thesis by (simp add: pp_resources_def prepared_fields [OF refl])
qed

lemma create_body_job:
  assumes "pp_job_create_body c e session i = (ev, job, True)"
  shows "pp_job_ok job \<and> pp_sub_jobs_started job = 0 \<and> pp_id job = i \<and> pp_session job = session \<and>
     (mali_pp_job_is_virtual job \<longrightarrow> pp_sub_jobs_num job = 1) \<and>
     (\<not> mali_pp_job_is_virtual job \<longrightarrow> pp_sub_jobs_num job = pu_num_cores (pp_uargs job)) \<and>
     (pp_finished_notification job \<longleftrightarrow> \<not> mali_pp_job_use_no_notification job)"
  using assms
proof (cases rule: create_body_cases)
  case (late ua cookies st)
  have "pp_job_ok job"
    using late(1,2) by (auto simp: pp_job_ok_def prepared_fields [OF refl] word_gt_0 PP_MAX_SUB_JOBS_def)
  moreover have "pp_finished_notification job \<longleftrightarrow> \<not> mali_pp_job_use_no_notification job"
    using late(2) by (simp add: prepared_fields [OF refl] mali_pp_job_use_no_notification_def)
  ultimately show ?thesis
    using late(2) by (simp add: prepared_fields [OF refl] mali_pp_job_is_virtual_def)
qed simp

text \<open>creating a PP job either returns a job with one to eight sub jobs, none started,
  with a finished notification exactly when user space asked to be notified, or it returns
  NULL; in both cases whatever was allocated is given back exactly once, on the failing path at
  once and otherwise by \<open>mali_pp_job_delete\<close>, whether or not the deletion still has to notify
  user space.\<close>

theorem pp_job_create_delete_balanced:
  "case mali_pp_job_create c buf e session i of
     (ev, None) \<Rightarrow> balanced ev
   | (ev, Some job) \<Rightarrow>
       pp_job_ok job \<and> \<not> mali_pp_job_has_started_sub_jobs job \<and> pp_id job = i \<and>
       (pp_finished_notification job \<longleftrightarrow> \<not> mali_pp_job_use_no_notification job) \<and>
       (mali_pp_job_is_virtual job \<longrightarrow> mali_pp_job_get_sub_job_count job = 1) \<and>
       (\<forall>notify st. balanced (ev @ mali_pp_job_delete c buf'
                    (job\<lparr>pp_user_notification := notify, pp_swap_status := st\<rparr>)))"
proof (cases "pe_calloc e")
  case False
  then show ?thesis by (simp add: mali_pp_job_create_def balanced_def)
next
  case True
  obtain ev job created where b: "pp_job_create_body c e session i = (ev, job, created)"
    by (metis prod_cases3)
  note r = create_body_resources [OF b]
  show ?thesis
  proof (cases created)
    case False
    then show ?thesis
      using True b r delete_balanced [of job c buf] by (simp add: mali_pp_job_create_def)
  next
    case created: True
    then have j: "pp_job_create_body c e session i = (ev, job, True)" using b by simp
    have "balanced ((AllocJob # ev) @ mali_pp_job_delete c buf'
            (job\<lparr>pp_user_notification := notify, pp_swap_status := st\<rparr>))" for notify st
      using delete_balanced [of "job\<lparr>pp_user_notification := notify, pp_swap_status := st\<rparr>" c buf']
        create_body_job [OF j] r
      by (simp add: pp_resources_def mali_pp_job_use_no_notification_def)
    with True j show ?thesis
      using create_body_job [OF j]
      by (simp add: mali_pp_job_create_def mali_pp_job_has_started_sub_jobs_def
          mali_pp_job_get_sub_job_count_def)
  qed
qed

text \<open>The result sent to user space carries the counters of the sub jobs, and behind them
  whatever the notification's buffer held when it was allocated.\<close>

lemma copy_counters:
  assumes "n \<le> length (pf_counter0 r)"
  shows "pf_counter0 (fold (copy_counter c job) [0 ..< n] r) =
           map ((!) (pp_value0 job)) [0 ..< n] @ drop n (pf_counter0 r)"
  using assms
proof (induction n)
  case (Suc n)
  have "pf_counter0 (fold (copy_counter c job) [0 ..< Suc n] r) =
      (pf_counter0 (fold (copy_counter c job) [0 ..< n] r))[n := pp_value0 job ! n]"
    by (simp add: copy_counter_def)
  then show ?case
    using Suc by (simp add: list_update_append Cons_nth_drop_Suc [symmetric])
qed simp

text \<open>the finished notification of a job with \<open>n\<close> sub jobs carries the counter values of
  these sub jobs only; the other entries of the array that is copied to user space are what the
  uninitialised buffer held.\<close>

theorem pp_result_counters:
  assumes "\<not> mali_pp_job_use_no_notification job" and "\<not> mali_pp_job_is_virtual job"
    and "length (pf_counter0 buf) = 8" and "unat (pp_sub_jobs_num job) = n" and "n \<le> 8"
  shows "\<exists>r. fst (mali_scheduler_return_pp_job_to_user c buf job k) = [Notify r] \<and>
           (pf_success r \<longleftrightarrow> mali_pp_job_was_success job) \<and>
           take n (pf_counter0 r) = map ((!) (pp_value0 job)) [0 ..< n] \<and>
           drop n (pf_counter0 r) = drop n (pf_counter0 buf)"
proof -
  define r0 where "r0 = buf\<lparr>pf_user_job_ptr := pu_user_job_ptr (pp_uargs job),
                            pf_success := mali_pp_job_was_success job\<rparr>"
  have s: "pf_success (fold (copy_counter c job) is r0) = mali_pp_job_was_success job" for "is"
  proof -
    have "pf_success (fold (copy_counter c job) is r) = pf_success r" for r
      by (induction "is" arbitrary: r) (simp_all add: copy_counter_def)
    then show ?thesis by (simp add: r0_def)
  qed
  have "pf_counter0 (fold (copy_counter c job) [0 ..< n] r0) =
          map ((!) (pp_value0 job)) [0 ..< n] @ drop n (pf_counter0 buf)"
    using copy_counters [of n r0 c job] assms(3,5) by (simp add: r0_def)
  with s assms(1,2,4) show ?thesis
    by (auto simp: mali_scheduler_return_pp_job_to_user_def mali_pp_job_get_sub_job_count_def
        Let_def simp flip: r0_def)
qed

section \<open>Examples\<close>

definition pp_job_example :: pp_job where
  "pp_job_example = zeroed_pp_job\<lparr>pp_uargs := zeroed_pp_uargs\<lparr>pu_num_cores := 4\<rparr>,
     pp_sub_jobs_num := 4, pp_sub_jobs_started := 2, pp_sub_jobs_completed := 1,
     pp_finished_notification := True, pp_value0 := [11, 12, 13, 14, 15, 16, 17, 18]\<rparr>"

theorem mark_unstarted_failed_accounting_witness:
  "pp_job_ok pp_job_example \<and> \<not> mali_pp_job_was_success (mali_pp_job_mark_unstarted_failed pp_job_example)"
  using mark_unstarted_failed_accounting [of pp_job_example]
  by (simp add: pp_job_example_def pp_job_ok_def zeroed_pp_job_def PP_MAX_SUB_JOBS_def
      mali_pp_job_has_unstarted_sub_jobs_def)

definition pp_queue_example :: "jid \<Rightarrow> pp_job" where
  "pp_queue_example j = zeroed_pp_job\<lparr>pp_id := of_nat j - 2, pp_sub_jobs_started := if j = 0 then 1 else 0\<rparr>"

theorem pp_job_list_add_ordered_witness:
  "\<exists>v. mali_pp_job_list_add pp_queue_example 2 ([0] @ [1, 3]) = [0] @ v \<and> set v = insert 2 {1, 3} \<and>
       sorted (map (\<lambda>i. job_offset 4294967294 (pp_id (pp_queue_example i))) v) \<and>
       filter (\<lambda>i. i \<noteq> 2) v = [1, 3]"
  using pp_job_list_add_ordered [of "[0]" pp_queue_example "[1, 3]" 2 4294967294]
  by (simp add: pp_queue_example_def job_offset_def zeroed_pp_job_def)

definition pp_buffer_example :: pp_job_finished where
  "pp_buffer_example = \<lparr>pf_user_job_ptr = 0, pf_success = False, pf_counter0 = replicate 8 99,
     pf_counter1 = replicate 8 98, pf_src0 = 0, pf_src1 = 0\<rparr>"

theorem pp_result_counters_witness:
  "\<exists>r. fst (mali_scheduler_return_pp_job_to_user initial_pp_counters pp_buffer_example
               pp_job_example 0) = [Notify r] \<and> drop 4 (pf_counter0 r) = replicate 4 99"
proof -
  have "\<not> mali_pp_job_use_no_notification pp_job_example" "\<not> mali_pp_job_is_virtual pp_job_example"
    "length (pf_counter0 pp_buffer_example) = 8" "unat (pp_sub_jobs_num pp_job_example) = 4"
    by (simp_all add: pp_job_example_def zeroed_pp_job_def zeroed_pp_uargs_def
        mali_pp_job_use_no_notification_def mali_pp_job_is_virtual_def pp_buffer_example_def)
  from pp_result_counters [OF this, of initial_pp_counters 0]
  show ?thesis by (auto simp: pp_buffer_example_def)
qed

definition pp_env_example :: pp_create_env where
  "pp_env_example = \<lparr>pe_calloc = True,
     pe_uargs = Some (zeroed_pp_uargs\<lparr>pu_frame_registers := replicate 23 1\<rparr>), pe_notification = True,
     pe_cookies_malloc = True, pe_cookies = None, pe_pid = 10, pe_tid = 11, pe_allocation_num = 0,
     pe_swap = NO_SWAP_IN\<rparr>"

theorem pp_job_create_delete_balanced_witness:
  "\<exists>ev job. mali_pp_job_create initial_pp_counters pp_buffer_example pp_env_example 0 5 = (ev, Some job) \<and>
     mali_pp_job_is_virtual job \<and> mali_pp_job_get_sub_job_count job = 1"
proof -
  obtain ev job where c: "mali_pp_job_create initial_pp_counters pp_buffer_example pp_env_example 0 5 =
      (ev, Some job)" and v: "mali_pp_job_is_virtual job"
    by (simp add: mali_pp_job_create_def pp_job_create_body_def pp_env_example_def Let_def
        PP_MAX_SUB_JOBS_def pp_job_copy_cookies_def pp_job_prepared_def pp_job_set_up_def
        pp_job_take_counters_def mali_pp_job_check_def zeroed_pp_uargs_def zeroed_pp_job_def
        mali_pp_job_is_virtual_def initial_pp_counters_def mali_pp_job_use_no_notification_def
        mali_pp_job_get_sub_job_count_def)
  from pp_job_create_delete_balanced
    [where c = initial_pp_counters and buf = pp_buffer_example and e = pp_env_example
      and session = 0 and i = 5 and buf' = pp_buffer_example] c v
  show ?thesis by simp
qed

end
