(* ===== verification/GP_Job.thy ===== *)
theory GP_Job
  imports PP_Job
begin

text \<open>
  GP jobs (common/mali_gp_job.h and .c): the job object, its insertion into a scheduler queue,
  and its creation with the resources taken and given back on each of its paths. The memory
  binding of linux/mali_memory_defer_bind.c enters as the outcomes of its calls.
\<close>

definition UK_BIG_VARYING_SIZE :: u32 where "UK_BIG_VARYING_SIZE = 1024 * 1024 * 2"

record gp_uargs =
  gu_user_job_ptr :: "64 word"
  gu_frame_registers :: "u32 list"
  gu_perf_counter_flag :: u32
  gu_perf_counter_src0 :: u32
  gu_perf_counter_src1 :: u32
  gu_frame_builder_id :: u32
  gu_fence :: timeline_fence
  gu_varying_memsize :: u32
  gu_deferred_mem_num :: u32

text \<open>\<open>pp_tracker\<close> is only ever the tracker embedded in a PP job, named here by the job.\<close>

record gp_job =
  gp_uargs :: gp_uargs
  gp_session :: session_id
  gp_id :: u32
  gp_cache_order :: u32
  gp_pp_tracker :: "jid option"
  gp_finished_notification :: bool
  gp_oom_notification :: bool
  gp_heap_current_addr :: u32
  gp_value0 :: u32
  gp_value1 :: u32
  gp_varying_list :: bool
  gp_big_job :: u32

definition mali_gp_job_has_vs_job :: "gp_job \<Rightarrow> bool" where
  "mali_gp_job_has_vs_job job \<longleftrightarrow>
     gu_frame_registers (gp_uargs job) ! 0 \<noteq> gu_frame_registers (gp_uargs job) ! 1"

definition mali_gp_job_has_plbu_job :: "gp_job \<Rightarrow> bool" where
  "mali_gp_job_has_plbu_job job \<longleftrightarrow>
     gu_frame_registers (gp_uargs job) ! 2 \<noteq> gu_frame_registers (gp_uargs job) ! 3"

definition gp_job_goes_after :: "(jid \<Rightarrow> gp_job) \<Rightarrow> jid \<Rightarrow> jid \<Rightarrow> bool" where
  "gp_job_goes_after J job it \<longleftrightarrow> gp_id (J job) - gp_id (J it) < SCHEDULER_JOB_ID_SPAN"

definition mali_gp_job_list_add :: "(jid \<Rightarrow> gp_job) \<Rightarrow> jid \<Rightarrow> jid list \<Rightarrow> jid list" where
  "mali_gp_job_list_add J job queue = rev (add_after_last (gp_job_goes_after J job) job (rev queue))"

lemma set_mali_gp_job_list_add [simp]: "set (mali_gp_job_list_add J job q) = insert job (set q)"
  by (simp add: mali_gp_job_list_add_def)

lemma set_mali_pp_job_list_add [simp]: "set (mali_pp_job_list_add J job q) = insert job (set q)"
  by (simp add: mali_pp_job_list_add_def)

lemma distinct_mali_gp_job_list_add:
  "distinct q \<Longrightarrow> job \<notin> set q \<Longrightarrow> distinct (mali_gp_job_list_add J job q)"
  by (simp add: mali_gp_job_list_add_def distinct_add_after_last)

lemma distinct_mali_pp_job_list_add:
  "distinct q \<Longrightarrow> job \<notin> set q \<Longrightarrow> distinct (mali_pp_job_list_add J job q)"
  by (simp add: mali_pp_job_list_add_def distinct_add_after_last)

text \<open>GP jobs are queued in the order of their identifiers across a wrap of the numbering,
  later ones behind earlier ones, the order of the others unchanged.\<close>

theorem gp_job_list_add_ordered:
  assumes "\<forall>i \<in> insert job (set q). job_offset base (gp_id (J i)) < 65535"
    and "sorted (map (\<lambda>i. job_offset base (gp_id (J i))) q)"
  shows "sorted (map (\<lambda>i. job_offset base (gp_id (J i))) (mali_gp_job_list_add J job q)) \<and>
         (job \<notin> set q \<longrightarrow> filter (\<lambda>i. i \<noteq> job) (mali_gp_job_list_add J job q) = q)"
proof -
  let ?key = "\<lambda>i. job_offset base (gp_id (J i))"
  have "gp_job_goes_after J job y \<longleftrightarrow> ?key y \<le> ?key job" if "y \<in> set q" for y
    using assms(1) that job_id_order [of base "gp_id (J job)" "gp_id (J y)"]
    by (simp add: gp_job_goes_after_def)
  then have "mali_gp_job_list_add J job q =
      takeWhile (\<lambda>y. ?key y \<le> ?key job) q @ job # dropWhile (\<lambda>y. ?key y \<le> ?key job) q"
    using add_after_last_sorted [of q "gp_job_goes_after J job" ?key "?key job" "[]" job] assms(2)
    by (simp add: mali_gp_job_list_add_def)
  then show ?thesis using sorted_insert_at [OF assms(2), of job] filter_insert_at by metis
qed

section \<open>Creation\<close>

datatype gp_event =
    GAllocJob | GAllocFinished | GAllocOom | GAllocList | GAllocNode | GAllocPages | GAllocMem
  | GFreeJob | GFreeFinished | GFreeOom | GFreeList | GFreeNode | GBindPages | GFreeMem

text \<open>
  The outcomes of the calls of \<open>mali_gp_job_create\<close>: allocations, copies from user space, for
  each varying buffer whether its node was allocated and its address found, the preparation of
  the buffers (linking them to the job's list), the allocation of their pages (into a block
  local to the function), and the binding of the pages, which fails without a \<open>dmem\<close> object. \<open>ge_memsize_again\<close> is the varying size read a
  second time, through the pointer to the caller's arguments.
\<close>

record gp_create_env =
  ge_calloc :: bool
  ge_finished :: bool
  ge_oom :: bool
  ge_uargs :: "gp_uargs option"
  ge_allocation_num :: u32
  ge_list :: bool
  ge_list_copied :: bool
  ge_nodes :: "(bool \<times> bool) list"
  ge_prepare :: "bool list"
  ge_prepare_mem :: bool
  ge_bind :: bool
  ge_memsize_again :: u32

definition zeroed_gp_uargs :: gp_uargs where
  "zeroed_gp_uargs =
     \<lparr>gu_user_job_ptr = 0, gu_frame_registers = replicate 6 0, gu_perf_counter_flag = 0,
      gu_perf_counter_src0 = 0, gu_perf_counter_src1 = 0, gu_frame_builder_id = 0,
      gu_fence = zeroed_fence, gu_varying_memsize = 0, gu_deferred_mem_num = 0\<rparr>"

definition zeroed_gp_job :: gp_job where
  "zeroed_gp_job =
     \<lparr>gp_uargs = zeroed_gp_uargs, gp_session = 0, gp_id = 0, gp_cache_order = 0,
      gp_pp_tracker = None, gp_finished_notification = False, gp_oom_notification = False,
      gp_heap_current_addr = 0, gp_value0 = 0, gp_value1 = 0, gp_varying_list = False,
      gp_big_job = 0\<rparr>"

text \<open>\<open>_mali_gp_add_varying_allocations\<close>: the nodes on the job's list so far; on a failure all of
  them are freed (\<open>_mali_gp_del_varying_allocations\<close>), after the node whose lookup failed.\<close>

fun mali_gp_add_varying_allocations :: "(bool \<times> bool) list \<Rightarrow> nat \<Rightarrow> gp_event list \<times> nat option" where
  "mali_gp_add_varying_allocations [] k = ([], Some k)"
| "mali_gp_add_varying_allocations ((allocated, found) # rest) k =
     (if \<not> allocated then (replicate k GFreeNode, None)
      else if \<not> found then (GAllocNode # GFreeNode # replicate k GFreeNode, None)
      else let (ev, r) = mali_gp_add_varying_allocations rest (Suc k) in (GAllocNode # ev, r))"

definition gp_varying :: "gp_create_env \<Rightarrow> u32 \<Rightarrow> gp_event list \<times> bool" where
  "gp_varying e num =
     (if \<not> ge_list_copied e then ([], False)
      else case mali_gp_add_varying_allocations (take (unat num) (ge_nodes e)) 0 of
        (ev, None) \<Rightarrow> (ev, False)
      | (ev, Some k) \<Rightarrow>
          if \<not> list_all id (take k (ge_prepare e)) then (ev, False)
          else if \<not> ge_prepare_mem e then (ev @ replicate k GFreeNode, False)
          else if \<not> ge_bind e then (ev @ replicate k GFreeNode @ [GAllocPages], False)
          else (ev @ replicate k GFreeNode @ [GAllocPages, GAllocMem, GBindPages], True))"

definition gp_job_take_counters :: "u32 \<Rightarrow> u32 \<Rightarrow> gp_job \<Rightarrow> gp_job" where
  "gp_job_take_counters src0 src1 job =
     (let flag = gu_perf_counter_flag (gp_uargs job) in
      if flag AND FLAG_SRC0_ENABLE \<noteq> 0 \<or> flag AND FLAG_SRC1_ENABLE \<noteq> 0 then job
      else job\<lparr>gp_uargs := (gp_uargs job)\<lparr>gu_perf_counter_src0 := src0, gu_perf_counter_src1 := src1\<rparr>\<rparr>)"

text \<open>The labels fail, fail1, fail2 and fail3 of the C free ever fewer of the allocations.\<close>

definition fail3 :: "gp_event list" where "fail3 = [GFreeJob]"
definition fail2 :: "gp_event list" where "fail2 = GFreeFinished # fail3"
definition fail1 :: "gp_event list" where "fail1 = GFreeOom # fail2"
definition fail0 :: "gp_event list" where "fail0 = GFreeList # fail1"

definition mali_gp_job_create ::
    "u32 \<Rightarrow> u32 \<Rightarrow> gp_create_env \<Rightarrow> session_id \<Rightarrow> u32 \<Rightarrow> jid option \<Rightarrow> gp_event list \<times> gp_job option" where
  "mali_gp_job_create src0 src1 e session i pp_tracker =
     (if \<not> ge_calloc e then ([], None)
      else if \<not> ge_finished e then (GAllocJob # fail3, None)
      else if \<not> ge_oom e then (GAllocJob # GAllocFinished # fail2, None)
      else case ge_uargs e of
        None \<Rightarrow> (GAllocJob # GAllocFinished # GAllocOom # fail1, None)
      | Some ua \<Rightarrow>
         let job = gp_job_take_counters src0 src1 (zeroed_gp_job\<lparr>gp_uargs := ua\<rparr>);
             job1 = job\<lparr>gp_finished_notification := True, gp_oom_notification := True,
                        gp_session := session, gp_id := i,
                        gp_heap_current_addr := gu_frame_registers ua ! 4\<rparr>;
             num = gu_deferred_mem_num ua;
             ev = [GAllocJob, GAllocFinished, GAllocOom] in
         if num > ge_allocation_num e then (ev @ fail1, None)
         else if num > 0
         then if \<not> ge_list e then (ev @ fail1, None)
              else let (ev', bound) = gp_varying e num in
                   if \<not> bound then (ev @ GAllocList # ev' @ fail0, None)
                   else (ev @ GAllocList # ev',
                         Some (job1\<lparr>gp_varying_list := True, gp_pp_tracker := pp_tracker,
                                    gp_big_job := (if ge_memsize_again e > UK_BIG_VARYING_SIZE
                                                   then 1 else 0)\<rparr>))
         else (ev, Some (job1\<lparr>gp_pp_tracker := pp_tracker\<rparr>)))"

definition mali_gp_job_delete :: "gp_job \<Rightarrow> gp_event list" where
  "mali_gp_job_delete job =
     (if gp_varying_list job then [GFreeList, GFreeMem] else []) @
     (if gp_oom_notification job then [GFreeOom] else []) @
     (if gp_finished_notification job then [GFreeFinished] else []) @ [GFreeJob]"

definition gp_balanced :: "gp_event list \<Rightarrow> bool" where
  "gp_balanced ev \<longleftrightarrow> count_list ev GAllocJob = count_list ev GFreeJob \<and>
     count_list ev GAllocFinished = count_list ev GFreeFinished \<and>
     count_list ev GAllocOom = count_list ev GFreeOom \<and>
     count_list ev GAllocList = count_list ev GFreeList"

definition nodes_leaked :: "gp_event list \<Rightarrow> int" where
  "nodes_leaked ev = int (count_list ev GAllocNode) - int (count_list ev GFreeNode)"

definition pages_leaked :: "gp_event list \<Rightarrow> int" where
  "pages_leaked ev = int (count_list ev GAllocPages) - int (count_list ev GBindPages)"

lemma count_list_replicate: "count_list (replicate k x) y = (if x = y then k else 0)"
  by (induction k) auto

lemma add_varying_events:
  assumes "mali_gp_add_varying_allocations nodes k = (ev, r)"
  shows "set ev \<subseteq> {GAllocNode, GFreeNode} \<and>
         nodes_leaked ev = (case r of None \<Rightarrow> - int k | Some k' \<Rightarrow> int k' - int k)"
  using assms
proof (induction nodes arbitrary: k ev r)
  case Nil
  then show ?case by (auto simp: nodes_leaked_def)
next
  case (Cons n nodes)
  obtain a f where n: "n = (a, f)" by fastforce
  obtain ev' r' where e: "mali_gp_add_varying_allocations nodes (Suc k) = (ev', r')" by fastforce
  show ?case
    using Cons.prems Cons.IH [OF e] n e
    by (auto simp: nodes_leaked_def count_list_replicate split: if_splits option.splits)
qed

lemma count_list_notin_set: "set ev \<subseteq> A \<Longrightarrow> x \<notin> A \<Longrightarrow> count_list ev x = 0"
  by (metis count_list_0_iff subsetD)

lemma varying_events:
  assumes "gp_varying e num = (ev, bound)"
  shows "set ev \<subseteq> {GAllocNode, GFreeNode, GAllocPages, GAllocMem, GBindPages}"
    and "bound \<Longrightarrow> nodes_leaked ev = 0 \<and> pages_leaked ev = 0"
    and "\<not> bound \<Longrightarrow>
      (if ge_list_copied e \<and> list_all (\<lambda>(a, f). a \<and> f) (take (unat num) (ge_nodes e)) \<and>
          \<not> list_all id (take (length (take (unat num) (ge_nodes e))) (ge_prepare e))
       then nodes_leaked ev = int (length (take (unat num) (ge_nodes e))) \<and> pages_leaked ev = 0
       else nodes_leaked ev = 0)"
    and "\<not> bound \<Longrightarrow> pages_leaked ev \<noteq> 0 \<Longrightarrow> ge_prepare_mem e \<and> \<not> ge_bind e"
proof -
  let ?nodes = "take (unat num) (ge_nodes e)"
  obtain ev' r where a: "mali_gp_add_varying_allocations ?nodes 0 = (ev', r)" by fastforce
  note v = add_varying_events [OF a]
  have p: "pages_leaked ev' = 0"
    using v count_list_notin_set [of ev' "{GAllocNode, GFreeNode}"] by (simp add: pages_leaked_def)
  have r: "r = (if list_all (\<lambda>(a, f). a \<and> f) ?nodes then Some (length ?nodes) else None)"
  proof -
    have "mali_gp_add_varying_allocations ns k = (x, y) \<Longrightarrow>
        y = (if list_all (\<lambda>(a, f). a \<and> f) ns then Some (k + length ns) else None)" for ns k x y
    proof (induction ns arbitrary: k x y)
      case (Cons n ns)
      obtain x' y' where "mali_gp_add_varying_allocations ns (Suc k) = (x', y')" by fastforce
      with Cons.prems Cons.IH [OF this] show ?case by (cases n) (auto split: if_splits)
    qed simp
    from this [OF a] show ?thesis by simp
  qed
  note defs = gp_varying_def nodes_leaked_def pages_leaked_def count_list_replicate
  show "set ev \<subseteq> {GAllocNode, GFreeNode, GAllocPages, GAllocMem, GBindPages}"
    using assms a v by (auto simp: defs split: if_splits option.splits)
  show "bound \<Longrightarrow> nodes_leaked ev = 0 \<and> pages_leaked ev = 0"
    using assms a v p by (auto simp: defs split: if_splits option.splits)
  show "\<not> bound \<Longrightarrow>
      (if ge_list_copied e \<and> list_all (\<lambda>(a, f). a \<and> f) ?nodes \<and>
          \<not> list_all id (take (length ?nodes) (ge_prepare e))
       then nodes_leaked ev = int (length ?nodes) \<and> pages_leaked ev = 0
       else nodes_leaked ev = 0)"
    using assms a v p r by (auto simp: defs split: if_splits option.splits)
  show "\<not> bound \<Longrightarrow> pages_leaked ev \<noteq> 0 \<Longrightarrow> ge_prepare_mem e \<and> \<not> ge_bind e"
    using assms a v p by (auto simp: defs split: if_splits option.splits)
qed

lemmas fail_defs = fail0_def fail1_def fail2_def fail3_def

lemma take_gp_counters_keeps:
  "gp_varying_list (gp_job_take_counters a b job) = gp_varying_list job"
  by (simp add: gp_job_take_counters_def Let_def)

lemma varying_counts:
  assumes "gp_varying e num = (ev, bound)"
  shows "count_list ev GAllocJob = 0" "count_list ev GFreeJob = 0" "count_list ev GAllocFinished = 0"
    "count_list ev GFreeFinished = 0" "count_list ev GAllocOom = 0" "count_list ev GFreeOom = 0"
    "count_list ev GAllocList = 0" "count_list ev GFreeList = 0"
  using count_list_notin_set [OF varying_events(1) [OF assms]] by simp_all

text \<open>on every path, the job object, its two notifications and its list of varying buffers
  are freed exactly once: at once when the creation fails, by \<open>mali_gp_job_delete\<close> otherwise;
  and a successful creation leaves no helper node or unbound page behind.\<close>

theorem gp_job_create_delete_balanced:
  "case mali_gp_job_create src0 src1 e session i pp of
     (ev, None) \<Rightarrow> gp_balanced ev
   | (ev, Some job) \<Rightarrow> gp_balanced (ev @ mali_gp_job_delete job) \<and>
       nodes_leaked ev = 0 \<and> pages_leaked ev = 0 \<and>
       gp_id job = i \<and> gp_session job = session \<and> gp_pp_tracker job = pp"
proof (cases "ge_calloc e \<and> ge_finished e \<and> ge_oom e")
  case False
  then show ?thesis by (auto simp: mali_gp_job_create_def gp_balanced_def fail_defs)
next
  case True
  show ?thesis
  proof (cases "ge_uargs e")
    case None
    with True show ?thesis by (simp add: mali_gp_job_create_def gp_balanced_def fail_defs)
  next
    case (Some ua)
    obtain ev bound where v: "gp_varying e (gu_deferred_mem_num ua) = (ev, bound)" by fastforce
    show ?thesis
      using True Some v varying_counts [OF v] varying_events(2) [OF v]
      by (auto simp: mali_gp_job_create_def gp_balanced_def fail_defs mali_gp_job_delete_def
          nodes_leaked_def pages_leaked_def take_gp_counters_keeps zeroed_gp_job_def Let_def
          split: if_splits)
  qed
qed

text \<open>C40: when preparing a varying buffer fails, the creation fails without freeing the nodes it
  had allocated for the buffers: one is leaked for every buffer of the job.\<close>

theorem gp_job_create_leaks_nodes:
  assumes "ge_calloc e" "ge_finished e" "ge_oom e" "ge_uargs e = Some ua" "ge_list e" "ge_list_copied e"
    and "0 < gu_deferred_mem_num ua" "gu_deferred_mem_num ua \<le> ge_allocation_num e"
    and "ge_nodes e = replicate (unat (gu_deferred_mem_num ua)) (True, True)"
    and "\<not> list_all id (take (unat (gu_deferred_mem_num ua)) (ge_prepare e))"
  shows "\<exists>ev. mali_gp_job_create src0 src1 e session i pp = (ev, None) \<and>
              nodes_leaked ev = int (unat (gu_deferred_mem_num ua))"
proof -
  obtain ev bound where v: "gp_varying e (gu_deferred_mem_num ua) = (ev, bound)" by fastforce
  have g: "gp_varying e (gu_deferred_mem_num ua) =
      (fst (mali_gp_add_varying_allocations (ge_nodes e) 0), False)"
  proof -
    have "mali_gp_add_varying_allocations (replicate n (True, True)) k =
        (replicate n GAllocNode, Some (k + n))" for n k
      by (induction n arbitrary: k) auto
    then show ?thesis using assms(6,9,10) by (simp add: gp_varying_def)
  qed
  then have b: "\<not> bound" using v by simp
  have "nodes_leaked ev = int (unat (gu_deferred_mem_num ua))"
    using varying_events(3) [OF v b] assms(6,9,10) by (simp add: list_all_iff)
  then show ?thesis
    using assms(1-8) v b by (auto simp: mali_gp_job_create_def nodes_leaked_def fail_defs Let_def not_less)
qed

definition gp_env_example :: gp_create_env where
  "gp_env_example =
     \<lparr>ge_calloc = True, ge_finished = True, ge_oom = True,
      ge_uargs = Some (zeroed_gp_uargs\<lparr>gu_deferred_mem_num := 2\<rparr>), ge_allocation_num = 5,
      ge_list = True, ge_list_copied = True, ge_nodes = replicate 2 (True, True),
      ge_prepare = [True, False], ge_prepare_mem = True, ge_bind = True, ge_memsize_again = 0\<rparr>"

theorem gp_job_create_leaks_nodes_witness:
  "\<exists>ev. mali_gp_job_create 0 0 gp_env_example 0 7 None = (ev, None) \<and> nodes_leaked ev = 2"
  using gp_job_create_leaks_nodes
      [of gp_env_example "zeroed_gp_uargs\<lparr>gu_deferred_mem_num := 2\<rparr>" 0 0 0 7 None]
  by (simp add: gp_env_example_def)

definition gp_queue_example :: "jid \<Rightarrow> gp_job" where
  "gp_queue_example j = zeroed_gp_job\<lparr>gp_id := of_nat j - 2\<rparr>"

theorem gp_job_list_add_ordered_witness:
  "sorted (map (\<lambda>i. job_offset 4294967294 (gp_id (gp_queue_example i)))
             (mali_gp_job_list_add gp_queue_example 2 [1, 3])) \<and>
   filter (\<lambda>i. i \<noteq> 2) (mali_gp_job_list_add gp_queue_example 2 [1, 3]) = [1, 3]"
proof -
  have "sorted (map (\<lambda>i. job_offset 4294967294 (gp_id (gp_queue_example i)))
             (mali_gp_job_list_add gp_queue_example 2 [1, 3])) \<and>
      (2 \<notin> set [1, 3::nat] \<longrightarrow> filter (\<lambda>i. i \<noteq> 2) (mali_gp_job_list_add gp_queue_example 2 [1, 3]) = [1, 3])"
    by (rule gp_job_list_add_ordered [of 2 "[1, 3]" 4294967294 gp_queue_example])
      (simp_all add: gp_queue_example_def job_offset_def zeroed_gp_job_def)
  then show ?thesis by simp
qed

end
