(* ===== verification/GPU_State.thy ===== *)
theory GPU_State
  imports GP_Job
begin

text \<open>
  The state the timeline system, the scheduler and the soft job system share: the sessions with
  their timelines (common/mali_timeline.h, mali_session.h), the jobs and the trackers embedded
  in them, the two job queues (common/mali_scheduler.h), and a log of the calls that leave these
  components (notifications, power management, timers).

  A tracker is named by the object it is embedded in; \<open>tracker->job\<close> and \<open>tracker->type\<close> are
  that name. The doubly linked lists of a timeline are HOL lists with the oldest element first.
  Waiter objects are zeroed when they are taken from the list of unused waiters, so that list is
  its length, as is a tracker's own list of the waiters created for it.
\<close>

datatype tref = GPJob jid | PPJob jid | SoftJob jid | FenceWait jid

record tracker =
  t_point :: timeline_point
  t_timeline :: "timeline_id option"
  t_system :: session_id
  trigger_ref_count :: u32
  activation_error :: u32
  t_fence :: timeline_fence
  t_num_waiters :: nat
  os_tick_create :: u32
  os_tick_activate :: u32
  t_timer_active :: bool

record waiter =
  w_point :: timeline_point
  w_tracker :: tref

record timeline = timeline_window +
  tl_trackers :: "tref list"
  tl_waiters :: "waiter list"
  tl_timer_active :: bool

record tsystem =
  timelines :: "timeline_id \<Rightarrow> timeline"
  waiter_empty_list :: nat
  timer_enabled :: bool

datatype soft_job_type = SELF_SIGNALED | USER_SIGNALED

datatype soft_job_state = SOFT_ALLOCATED | SOFT_STARTED | SOFT_SIGNALED | SOFT_TIMED_OUT

record soft_job =
  sj_type :: soft_job_type
  sj_user_job :: "64 word"
  sj_refcount :: u32
  sj_activated :: bool
  sj_notification :: bool
  sj_id :: u32
  sj_state :: soft_job_state
  sj_session :: session_id

record session =
  is_aborting :: bool
  use_high_priority :: bool
  fb_lookup :: "nat \<Rightarrow> jid list"
  jobs_used :: "jid list"
  last_job_id :: u32

record fence_waiter =
  fw_activated :: bool
  fw_refcount :: u32

record job_queue =
  normal_pri :: "jid list"
  high_pri :: "jid list"
  depth :: u32
  big_job_num :: u32

text \<open>Calls into the rest of the driver and the kernel, in order.\<close>

datatype gpu_event =
    GPReturned jid bool | GPDeleted jid
  | PPDeleteScheduled jid
  | SoftNotified jid | SoftFreed jid
  | WaitFreed jid
  | WakeUp session_id
  | PendingWakeUp
  | PmRefGet | PmRefPut
  | GpuActive bool | GpuIdle bool
  | UtilGpStart | UtilGpEnd | UtilPpStart | UtilPpEnd
  | TimerScheduled session_id | TimerCancelled session_id
  | ExecutorSchedule u32

record gpu =
  g_trackers :: "tref \<Rightarrow> tracker"
  g_systems :: "session_id \<Rightarrow> tsystem"
  g_sessions :: "session_id \<Rightarrow> session"
  g_gp :: "jid \<Rightarrow> gp_job"
  g_pp :: "jid \<Rightarrow> pp_job"
  g_soft :: "jid \<Rightarrow> soft_job"
  g_wait :: "jid \<Rightarrow> fence_waiter"
  job_queue_gp :: job_queue
  job_queue_pp :: job_queue
  pp_deletion_queue :: "jid list"
  job_id_autonumber :: u32
  cache_order_autonumber :: u32
  gp_tracker_count :: u32
  phy_pp_tracker_count :: u32
  virt_pp_tracker_count :: u32
  utilization_enabled :: bool
  tickcount :: u32
  g_log :: "gpu_event list"

section \<open>Updates of one entry\<close>

definition upd_tracker :: "tref \<Rightarrow> (tracker \<Rightarrow> tracker) \<Rightarrow> gpu \<Rightarrow> gpu" where
  "upd_tracker t f \<sigma> = \<sigma>\<lparr>g_trackers := (g_trackers \<sigma>)(t := f (g_trackers \<sigma> t))\<rparr>"

definition upd_system :: "session_id \<Rightarrow> (tsystem \<Rightarrow> tsystem) \<Rightarrow> gpu \<Rightarrow> gpu" where
  "upd_system s f \<sigma> = \<sigma>\<lparr>g_systems := (g_systems \<sigma>)(s := f (g_systems \<sigma> s))\<rparr>"

definition the_timeline :: "gpu \<Rightarrow> session_id \<Rightarrow> timeline_id \<Rightarrow> timeline" where
  "the_timeline \<sigma> s i = timelines (g_systems \<sigma> s) i"

definition upd_timeline ::
    "session_id \<Rightarrow> timeline_id \<Rightarrow> (timeline \<Rightarrow> timeline) \<Rightarrow> gpu \<Rightarrow> gpu" where
  "upd_timeline s i f =
     upd_system s (\<lambda>y. y\<lparr>timelines := (timelines y)(i := f (timelines y i))\<rparr>)"

definition upd_session :: "session_id \<Rightarrow> (session \<Rightarrow> session) \<Rightarrow> gpu \<Rightarrow> gpu" where
  "upd_session s f \<sigma> = \<sigma>\<lparr>g_sessions := (g_sessions \<sigma>)(s := f (g_sessions \<sigma> s))\<rparr>"

definition upd_gp :: "jid \<Rightarrow> (gp_job \<Rightarrow> gp_job) \<Rightarrow> gpu \<Rightarrow> gpu" where
  "upd_gp j f \<sigma> = \<sigma>\<lparr>g_gp := (g_gp \<sigma>)(j := f (g_gp \<sigma> j))\<rparr>"

definition upd_pp :: "jid \<Rightarrow> (pp_job \<Rightarrow> pp_job) \<Rightarrow> gpu \<Rightarrow> gpu" where
  "upd_pp j f \<sigma> = \<sigma>\<lparr>g_pp := (g_pp \<sigma>)(j := f (g_pp \<sigma> j))\<rparr>"

definition upd_soft :: "jid \<Rightarrow> (soft_job \<Rightarrow> soft_job) \<Rightarrow> gpu \<Rightarrow> gpu" where
  "upd_soft j f \<sigma> = \<sigma>\<lparr>g_soft := (g_soft \<sigma>)(j := f (g_soft \<sigma> j))\<rparr>"

definition upd_wait :: "jid \<Rightarrow> (fence_waiter \<Rightarrow> fence_waiter) \<Rightarrow> gpu \<Rightarrow> gpu" where
  "upd_wait j f \<sigma> = \<sigma>\<lparr>g_wait := (g_wait \<sigma>)(j := f (g_wait \<sigma> j))\<rparr>"

definition log_event :: "gpu_event \<Rightarrow> gpu \<Rightarrow> gpu" where
  "log_event e \<sigma> = \<sigma>\<lparr>g_log := g_log \<sigma> @ [e]\<rparr>"

lemmas gpu_upd_defs = upd_tracker_def upd_system_def upd_timeline_def upd_session_def upd_gp_def
  upd_pp_def upd_soft_def upd_wait_def log_event_def the_timeline_def

section \<open>The scheduler's masks\<close>

type_synonym scheduler_mask = u32

definition MASK_EMPTY :: scheduler_mask where "MASK_EMPTY = 0"
definition MASK_GP :: scheduler_mask where "MASK_GP = 1"
definition MASK_PP :: scheduler_mask where "MASK_PP = 2"

section \<open>Outcomes\<close>

text \<open>The result of a call: it returns, it dereferences a NULL pointer, or the fuel given to
  the evaluation is used up.\<close>

datatype 'a outcome = Done 'a | Oops | OutOfFuel

fun bind_outcome :: "'a outcome \<Rightarrow> ('a \<Rightarrow> 'b outcome) \<Rightarrow> 'b outcome" where
  "bind_outcome (Done x) f = f x"
| "bind_outcome Oops f = Oops"
| "bind_outcome OutOfFuel f = OutOfFuel"

lemma bind_outcome_Done:
  "bind_outcome r f = Done y \<longleftrightarrow> (\<exists>x. r = Done x \<and> f x = Done y)"
  by (cases r) auto

lemma bind_outcome_no_fuel:
  "bind_outcome r f = OutOfFuel \<longleftrightarrow> r = OutOfFuel \<or> (\<exists>x. r = Done x \<and> f x = OutOfFuel)"
  by (cases r) auto

lemma bind_outcome_cong [fundef_cong]:
  "r = r' \<Longrightarrow> (\<And>x. r' = Done x \<Longrightarrow> f x = f' x) \<Longrightarrow> bind_outcome r f = bind_outcome r' f'"
  by (cases r') auto

end
