(* ===== verification/Scheduler.thy ===== *)
theory Scheduler
  imports GPU_State
begin

text \<open>
  The job queues of the scheduler (common/mali_scheduler.c): queueing, the executor's peek and
  get operations, the count of physical sub jobs at the head, and completion. All run under the
  scheduler lock. The operations that release trackers, and so may queue further jobs, are in
  the theory of the timelines.
\<close>

definition MAX_PHYSICAL_PP_GROUPS :: u32 where "MAX_PHYSICAL_PP_GROUPS = 8"
definition MAX_PENDING_BIG_JOB :: u32 where "MAX_PENDING_BIG_JOB = 2"

section \<open>Looking at the queues\<close>

definition mode_matches :: "bool \<Rightarrow> pp_job \<Rightarrow> bool" where
  "mode_matches gpu_mode_is_secure job \<longleftrightarrow>
     (\<not> gpu_mode_is_secure \<and> \<not> mali_pp_job_is_protected_job job) \<or>
     (gpu_mode_is_secure \<and> mali_pp_job_is_protected_job job)"

text \<open>One of the two counting loops: \<open>Inl\<close> is a return from the function, \<open>Inr\<close> the count when
  the loop ran through its queue.\<close>

fun head_count_loop ::
    "(pp_job \<Rightarrow> bool) \<Rightarrow> (jid \<Rightarrow> pp_job) \<Rightarrow> jid list \<Rightarrow> u32 \<Rightarrow> u32 + u32" where
  "head_count_loop counts J [] count = Inr count"
| "head_count_loop counts J (j # js) count =
     (if counts (J j)
      then let count1 = count + mali_pp_job_unstarted_sub_job_count (J j)
           in if MAX_PHYSICAL_PP_GROUPS \<le> count1 then Inl MAX_PHYSICAL_PP_GROUPS
              else head_count_loop counts J js count1
      else Inl count)"

definition head_count_partial :: "bool \<Rightarrow> (jid \<Rightarrow> pp_job) \<Rightarrow> jid list \<Rightarrow> u32" where
  "head_count_partial secure J normal =
     (case normal of [] \<Rightarrow> 0
      | j # _ \<Rightarrow> if mali_pp_job_has_started_sub_jobs (J j) \<and> mode_matches secure (J j)
                 then mali_pp_job_unstarted_sub_job_count (J j) else 0)"

definition mali_scheduler_job_physical_head_count :: "bool \<Rightarrow> gpu \<Rightarrow> u32" where
  "mali_scheduler_job_physical_head_count secure \<sigma> =
     (let J = g_pp \<sigma>; q = job_queue_pp \<sigma>;
          count = head_count_partial secure J (normal_pri q)
      in if MAX_PHYSICAL_PP_GROUPS \<le> count then MAX_PHYSICAL_PP_GROUPS
         else case head_count_loop
                (\<lambda>job. \<not> mali_pp_job_is_virtual job \<and> mode_matches secure job) J (high_pri q) count of
             Inl r \<Rightarrow> r
           | Inr count1 \<Rightarrow>
               (case head_count_loop (\<lambda>job. \<not> mali_pp_job_is_virtual job \<and>
                         \<not> mali_pp_job_has_started_sub_jobs job \<and> mode_matches secure job)
                       J (normal_pri q) count1 of
                  Inl r \<Rightarrow> r | Inr r \<Rightarrow> r))"

definition mali_scheduler_job_pp_next :: "gpu \<Rightarrow> jid option" where
  "mali_scheduler_job_pp_next \<sigma> =
     (let J = g_pp \<sigma>; q = job_queue_pp \<sigma>;
          rest = (case high_pri q of j # _ \<Rightarrow> Some j
                  | [] \<Rightarrow> (case normal_pri q of j # _ \<Rightarrow> Some j | [] \<Rightarrow> None))
      in case normal_pri q of
           j # _ \<Rightarrow> if mali_pp_job_has_started_sub_jobs (J j) then Some j else rest
         | [] \<Rightarrow> rest)"

definition mali_scheduler_job_pp_physical_peek :: "gpu \<Rightarrow> jid option" where
  "mali_scheduler_job_pp_physical_peek \<sigma> =
     (let J = g_pp \<sigma>; q = job_queue_pp \<sigma>;
          job = (case normal_pri q of [] \<Rightarrow> None
                 | j # _ \<Rightarrow> if \<not> mali_pp_job_is_virtual (J j) then Some j else None)
      in if (case job of None \<Rightarrow> True | Some j \<Rightarrow> \<not> mali_pp_job_has_started_sub_jobs (J j))
         then (case high_pri q of [] \<Rightarrow> job
               | j # _ \<Rightarrow> if \<not> mali_pp_job_is_virtual (J j) then Some j else job)
         else job)"

definition mali_scheduler_job_pp_virtual_peek :: "gpu \<Rightarrow> jid option" where
  "mali_scheduler_job_pp_virtual_peek \<sigma> =
     (let J = g_pp \<sigma>; q = job_queue_pp \<sigma>;
          job = (case high_pri q of [] \<Rightarrow> None
                 | j # _ \<Rightarrow> if mali_pp_job_is_virtual (J j) then Some j else None)
      in case job of Some j \<Rightarrow> Some j
         | None \<Rightarrow> (case normal_pri q of [] \<Rightarrow> None
                    | j # _ \<Rightarrow> if mali_pp_job_is_virtual (J j) then Some j else None))"

definition mali_scheduler_job_next_is_virtual :: "gpu \<Rightarrow> bool" where
  "mali_scheduler_job_next_is_virtual \<sigma> \<longleftrightarrow> mali_scheduler_job_pp_virtual_peek \<sigma> \<noteq> None"

section \<open>Taking jobs out\<close>

text \<open>Unlinking a job takes it out of whichever list it is linked into.\<close>

definition queue_unlink :: "jid \<Rightarrow> job_queue \<Rightarrow> job_queue" where
  "queue_unlink j q = q\<lparr>normal_pri := remove1 j (normal_pri q), high_pri := remove1 j (high_pri q)\<rparr>"

definition mali_gp_job_list_remove :: "jid \<Rightarrow> gpu \<Rightarrow> gpu" where
  "mali_gp_job_list_remove j \<sigma> = \<sigma>\<lparr>job_queue_gp := queue_unlink j (job_queue_gp \<sigma>)\<rparr>"

definition mali_pp_job_list_remove :: "jid \<Rightarrow> gpu \<Rightarrow> gpu" where
  "mali_pp_job_list_remove j \<sigma> = \<sigma>\<lparr>job_queue_pp := queue_unlink j (job_queue_pp \<sigma>)\<rparr>"

definition mali_pp_job_fb_lookup_add :: "jid \<Rightarrow> gpu \<Rightarrow> gpu" where
  "mali_pp_job_fb_lookup_add j \<sigma> =
     (let k = unat (15 AND pu_frame_builder_id (pp_uargs (g_pp \<sigma> j)))
      in upd_session (pp_session (g_pp \<sigma> j))
           (\<lambda>s. s\<lparr>fb_lookup := (fb_lookup s)(k := fb_lookup s k @ [j])\<rparr>) \<sigma>)"

definition mali_pp_job_fb_lookup_remove :: "jid \<Rightarrow> gpu \<Rightarrow> gpu" where
  "mali_pp_job_fb_lookup_remove j \<sigma> =
     upd_session (pp_session (g_pp \<sigma> j)) (\<lambda>s. s\<lparr>fb_lookup := (\<lambda>k. remove1 j (fb_lookup s k))\<rparr>) \<sigma>"

definition dec_depth :: "job_queue \<Rightarrow> job_queue" where
  "dec_depth q = q\<lparr>depth := depth q - 1\<rparr>"

definition mali_scheduler_job_gp_get :: "gpu \<Rightarrow> gpu \<times> jid option" where
  "mali_scheduler_job_gp_get \<sigma> =
     (let q = job_queue_gp \<sigma>;
          queue = (if high_pri q \<noteq> [] then high_pri q else normal_pri q)
      in case queue of [] \<Rightarrow> (\<sigma>, None)
         | j # _ \<Rightarrow>
           let \<sigma>1 = mali_gp_job_list_remove j \<sigma>;
               \<sigma>2 = \<sigma>1\<lparr>job_queue_gp := dec_depth (job_queue_gp \<sigma>1)\<rparr>;
               q2 = job_queue_gp \<sigma>2;
               \<sigma>3 = \<sigma>2\<lparr>job_queue_gp := q2\<lparr>big_job_num := big_job_num q2 - 1\<rparr>\<rparr>
           in if gp_big_job (g_gp \<sigma> j) \<noteq> 0
              then (if big_job_num (job_queue_gp \<sigma>3) < MAX_PENDING_BIG_JOB
                    then log_event PendingWakeUp \<sigma>3 else \<sigma>3, Some j)
              else (\<sigma>2, Some j))"

definition mali_scheduler_job_pp_physical_get :: "gpu \<Rightarrow> gpu \<times> (jid \<times> u32) option" where
  "mali_scheduler_job_pp_physical_get \<sigma> =
     (case mali_scheduler_job_pp_physical_peek \<sigma> of None \<Rightarrow> (\<sigma>, None)
      | Some j \<Rightarrow>
          let sub_job = mali_pp_job_get_first_unstarted_sub_job (g_pp \<sigma> j);
              \<sigma>1 = upd_pp j (mali_pp_job_mark_sub_job_started sub_job) \<sigma>;
              \<sigma>2 = (if \<not> mali_pp_job_has_unstarted_sub_jobs (g_pp \<sigma>1 j)
                    then mali_pp_job_list_remove j \<sigma>1 else \<sigma>1);
              \<sigma>3 = \<sigma>2\<lparr>job_queue_pp := dec_depth (job_queue_pp \<sigma>2)\<rparr>
          in (mali_pp_job_fb_lookup_remove j \<sigma>3, Some (j, sub_job)))"

definition mali_scheduler_job_pp_virtual_get :: "gpu \<Rightarrow> gpu \<times> jid option" where
  "mali_scheduler_job_pp_virtual_get \<sigma> =
     (case mali_scheduler_job_pp_virtual_peek \<sigma> of None \<Rightarrow> (\<sigma>, None)
      | Some j \<Rightarrow>
          let \<sigma>1 = upd_pp j (mali_pp_job_mark_sub_job_started 0) \<sigma>;
              \<sigma>2 = mali_pp_job_list_remove j \<sigma>1;
              \<sigma>3 = \<sigma>2\<lparr>job_queue_pp := dec_depth (job_queue_pp \<sigma>2)\<rparr>
          in (mali_pp_job_fb_lookup_remove j \<sigma>3, Some j))"

section \<open>Queueing\<close>

definition log_when :: "bool \<Rightarrow> gpu_event \<Rightarrow> gpu \<Rightarrow> gpu" where
  "log_when b e \<sigma> = (if b then log_event e \<sigma> else \<sigma>)"

definition mali_scheduler_get_new_cache_order :: "gpu \<Rightarrow> gpu \<times> u32" where
  "mali_scheduler_get_new_cache_order \<sigma> =
     (let n = cache_order_autonumber \<sigma> + 1 in (\<sigma>\<lparr>cache_order_autonumber := n\<rparr>, n))"

definition mali_scheduler_get_new_id :: "gpu \<Rightarrow> gpu \<times> u32" where
  "mali_scheduler_get_new_id \<sigma> =
     (let n = job_id_autonumber \<sigma> + 1 in (\<sigma>\<lparr>job_id_autonumber := n\<rparr>, n))"

definition mali_scheduler_queue_gp_job :: "jid \<Rightarrow> gpu \<Rightarrow> gpu \<times> bool" where
  "mali_scheduler_queue_gp_job j \<sigma> =
     (let session = g_sessions \<sigma> (gp_session (g_gp \<sigma> j)) in
      if is_aborting session then (\<sigma>, False)
      else let (\<sigma>1, order) = mali_scheduler_get_new_cache_order \<sigma>;
               \<sigma>2 = upd_gp j (\<lambda>job. job\<lparr>gp_cache_order := order\<rparr>) \<sigma>1;
               q = job_queue_gp \<sigma>2;
               q1 = q\<lparr>depth := depth q + 1,
                      big_job_num := big_job_num q + (if gp_big_job (g_gp \<sigma> j) \<noteq> 0 then 1 else 0)\<rparr>;
               q2 = (if use_high_priority session
                     then q1\<lparr>high_pri := mali_gp_job_list_add (g_gp \<sigma>2) j (high_pri q1)\<rparr>
                     else q1\<lparr>normal_pri := mali_gp_job_list_add (g_gp \<sigma>2) j (normal_pri q1)\<rparr>);
               \<sigma>3 = log_event PmRefGet (\<sigma>2\<lparr>job_queue_gp := q2\<rparr>);
               \<sigma>4 = log_when (utilization_enabled \<sigma>3) UtilGpStart \<sigma>3
           in (log_event (GpuActive True) \<sigma>4, True))"

definition mali_scheduler_queue_pp_job :: "jid \<Rightarrow> gpu \<Rightarrow> gpu \<times> bool" where
  "mali_scheduler_queue_pp_job j \<sigma> =
     (let session = g_sessions \<sigma> (pp_session (g_pp \<sigma> j)) in
      if is_aborting session then (\<sigma>, False)
      else if SWAP_IN_FAIL = pp_swap_status (g_pp \<sigma> j) then (\<sigma>, False)
      else let (\<sigma>1, order) = mali_scheduler_get_new_cache_order \<sigma>;
               \<sigma>2 = upd_pp j (\<lambda>job. job\<lparr>pp_cache_order := order\<rparr>) \<sigma>1;
               q = job_queue_pp \<sigma>2;
               q1 = q\<lparr>depth := depth q + mali_pp_job_get_sub_job_count (g_pp \<sigma>2 j)\<rparr>;
               q2 = (if use_high_priority session
                     then q1\<lparr>high_pri := mali_pp_job_list_add (g_pp \<sigma>2) j (high_pri q1)\<rparr>
                     else q1\<lparr>normal_pri := mali_pp_job_list_add (g_pp \<sigma>2) j (normal_pri q1)\<rparr>);
               \<sigma>3 = log_event PmRefGet (\<sigma>2\<lparr>job_queue_pp := q2\<rparr>);
               \<sigma>4 = log_when (utilization_enabled \<sigma>3) UtilPpStart \<sigma>3
           in (log_event (GpuActive False) \<sigma>4, True))"

section \<open>Completion\<close>

definition mali_scheduler_return_gp_job_to_user :: "jid \<Rightarrow> bool \<Rightarrow> gpu \<Rightarrow> gpu" where
  "mali_scheduler_return_gp_job_to_user j success \<sigma> =
     log_event (GPReturned j success) (upd_gp j (\<lambda>job. job\<lparr>gp_finished_notification := False\<rparr>) \<sigma>)"

definition mali_scheduler_complete_gp_job :: "jid \<Rightarrow> bool \<Rightarrow> bool \<Rightarrow> bool \<Rightarrow> gpu \<Rightarrow> gpu" where
  "mali_scheduler_complete_gp_job j success user_notification dequeued \<sigma> =
     (let \<sigma>1 = (if user_notification then mali_scheduler_return_gp_job_to_user j success \<sigma> else \<sigma>);
          \<sigma>2 = (if dequeued
                then log_event (GpuIdle True)
                       (log_when (utilization_enabled \<sigma>1) UtilGpEnd (log_event PmRefPut \<sigma>1))
                else \<sigma>1)
      in log_event (GPDeleted j) \<sigma>2)"

definition mali_scheduler_deferred_pp_job_delete :: "jid \<Rightarrow> gpu \<Rightarrow> gpu" where
  "mali_scheduler_deferred_pp_job_delete j \<sigma> =
     log_event (PPDeleteScheduled j) (\<sigma>\<lparr>pp_deletion_queue := pp_deletion_queue \<sigma> @ [j]\<rparr>)"

definition mali_scheduler_complete_pp_job :: "jid \<Rightarrow> u32 \<Rightarrow> bool \<Rightarrow> bool \<Rightarrow> gpu \<Rightarrow> gpu" where
  "mali_scheduler_complete_pp_job j num_cores_in_virtual user_notification dequeued \<sigma> =
     (let \<sigma>1 = upd_pp j (\<lambda>job. job\<lparr>pp_user_notification := user_notification,
                                  pp_num_cores_in_virtual := num_cores_in_virtual\<rparr>) \<sigma>;
          \<sigma>2 = (if dequeued
                then log_event (GpuIdle False)
                       (log_when (utilization_enabled \<sigma>1) UtilPpEnd (log_event PmRefPut \<sigma>1))
                else \<sigma>1)
      in mali_scheduler_deferred_pp_job_delete j \<sigma>2)"

text \<open>The work item that deletes the jobs completed since it last ran, oldest first.\<close>

definition mali_scheduler_do_pp_job_delete ::
    "pp_counters \<Rightarrow> (jid \<Rightarrow> pp_job_finished) \<Rightarrow> gpu \<Rightarrow> gpu \<times> (jid \<times> pp_event list) list" where
  "mali_scheduler_do_pp_job_delete c bufs \<sigma> =
     (\<sigma>\<lparr>pp_deletion_queue := []\<rparr>,
      map (\<lambda>j. (j, mali_pp_job_delete c (bufs j) (g_pp \<sigma> j))) (pp_deletion_queue \<sigma>))"

end
