(* ===== verification/Timeline.thy ===== *)
theory Timeline
  imports Scheduler
begin

text \<open>
  The timeline system (common/mali_timeline.c) together with what it activates: the scheduler
  (mali_scheduler.c), soft jobs (mali_soft_job.c) and fence waits (mali_timeline_fence_wait.c).
  Releasing a tracker moves a timeline's oldest point, which releases waiters, which activates
  other trackers, which may fail and release themselves at once: these functions call each
  other. They take fuel, one unit per call, and the theory of the cascade shows how much is
  enough. All of them run under the session's timeline system lock.
\<close>

section \<open>Trackers and waiters of a timeline\<close>

definition mali_timeline_create :: "timeline" where
  "mali_timeline_create = \<lparr>point_next = 1, point_oldest = 1, tl_trackers = [], tl_waiters = [],
     tl_timer_active = False\<rparr>"

definition mali_timeline_system_create :: tsystem where
  "mali_timeline_system_create =
     \<lparr>timelines = (\<lambda>_. mali_timeline_create), waiter_empty_list = 0, timer_enabled = True\<rparr>"

definition mali_timeline_tracker_init :: "tref \<Rightarrow> timeline_fence option \<Rightarrow> gpu \<Rightarrow> gpu" where
  "mali_timeline_tracker_init t fence \<sigma> =
     upd_tracker t (\<lambda>_. \<lparr>t_point = NO_POINT, t_timeline = None, t_system = 0, trigger_ref_count = 1,
       activation_error = 0,
       t_fence = (case fence of Some f \<Rightarrow> f | None \<Rightarrow> zeroed_fence),
       t_num_waiters = 0, os_tick_create = tickcount \<sigma>, os_tick_activate = 0,
       t_timer_active = False\<rparr>) \<sigma>"

definition count_tracker :: "tref \<Rightarrow> (u32 \<Rightarrow> u32) \<Rightarrow> gpu \<Rightarrow> gpu" where
  "count_tracker t f \<sigma> =
     (case t of
        GPJob j \<Rightarrow> \<sigma>\<lparr>gp_tracker_count := f (gp_tracker_count \<sigma>)\<rparr>
      | PPJob j \<Rightarrow> (if mali_pp_job_is_virtual (g_pp \<sigma> j)
                    then \<sigma>\<lparr>virt_pp_tracker_count := f (virt_pp_tracker_count \<sigma>)\<rparr>
                    else \<sigma>\<lparr>phy_pp_tracker_count := f (phy_pp_tracker_count \<sigma>)\<rparr>)
      | _ \<Rightarrow> \<sigma>)"

definition mali_timeline_insert_tracker :: "session_id \<Rightarrow> timeline_id \<Rightarrow> tref \<Rightarrow> gpu \<Rightarrow> gpu" where
  "mali_timeline_insert_tracker s i t \<sigma> =
     (let line = the_timeline \<sigma> s i in
      if mali_timeline_is_full line then upd_tracker t (\<lambda>r. r\<lparr>t_point := NO_POINT\<rparr>) \<sigma>
      else let \<sigma>1 = upd_tracker t (\<lambda>r. r\<lparr>t_timeline := Some i, t_point := point_next line\<rparr>) \<sigma>;
               \<sigma>2 = upd_timeline s i (\<lambda>l. l\<lparr>point_next := next_point (point_next l)\<rparr>) \<sigma>1;
               \<sigma>3 = count_tracker t (\<lambda>n. n + 1) \<sigma>2
           in upd_timeline s i (\<lambda>l. l\<lparr>tl_trackers := tl_trackers l @ [t]\<rparr>) \<sigma>3)"

text \<open>Waiters are searched from the newest (the head of the C list) to the oldest for the first
  one that is not after the new one.\<close>

definition mali_timeline_insert_waiter :: "waiter \<Rightarrow> waiter list \<Rightarrow> waiter list" where
  "mali_timeline_insert_waiter w ws =
     rev (add_after_last (\<lambda>v. \<not> mali_timeline_point_after (w_point v) (w_point w)) w (rev ws))"

definition mali_timeline_update_delayed_work :: "session_id \<Rightarrow> timeline_id \<Rightarrow> gpu \<Rightarrow> gpu" where
  "mali_timeline_update_delayed_work s i \<sigma> =
     (let line = the_timeline \<sigma> s i; oldest = (case tl_trackers line of [] \<Rightarrow> None | t # _ \<Rightarrow> Some t)
      in if \<not> timer_enabled (g_systems \<sigma> s) then \<sigma>
         else case oldest of
           Some t \<Rightarrow>
             if trigger_ref_count (g_trackers \<sigma> t) = 0
             then (if \<not> t_timer_active (g_trackers \<sigma> t)
                   then let \<sigma>1 = log_when (tl_timer_active line) (TimerCancelled s) \<sigma>;
                            \<sigma>2 = log_event (TimerScheduled s) \<sigma>1;
                            \<sigma>3 = upd_tracker t (\<lambda>r. r\<lparr>t_timer_active := True\<rparr>) \<sigma>2
                        in upd_timeline s i (\<lambda>l. l\<lparr>tl_timer_active := True\<rparr>) \<sigma>3
                   else \<sigma>)
             else (if tl_timer_active line
                   then upd_timeline s i (\<lambda>l. l\<lparr>tl_timer_active := False\<rparr>)
                          (log_event (TimerCancelled s) \<sigma>)
                   else \<sigma>)
         | None \<Rightarrow>
             (if tl_timer_active line
              then upd_timeline s i (\<lambda>l. l\<lparr>tl_timer_active := False\<rparr>)
                     (log_event (TimerCancelled s) \<sigma>)
              else \<sigma>))"

text \<open>The oldest point after the list of trackers has changed.\<close>

definition set_oldest_point :: "session_id \<Rightarrow> timeline_id \<Rightarrow> gpu \<Rightarrow> gpu" where
  "set_oldest_point s i \<sigma> =
     upd_timeline s i (\<lambda>l. l\<lparr>point_oldest :=
       (case tl_trackers l of t # _ \<Rightarrow> t_point (g_trackers \<sigma> t) | [] \<Rightarrow> point_next l)\<rparr>) \<sigma>"

text \<open>Unlinking a tracker. A tracker that is not linked has NULL neighbours, as the only tracker
  of a timeline does: taking it out overwrites both ends of the list with NULL.\<close>

definition unlink_tracker :: "tref \<Rightarrow> tref list \<Rightarrow> tref list" where
  "unlink_tracker t ts = (if t \<in> set ts then remove1 t ts else [])"

definition is_tail_tracker :: "tref \<Rightarrow> tref list \<Rightarrow> bool" where
  "is_tail_tracker t ts \<longleftrightarrow> t \<notin> set ts \<or> (case ts of [] \<Rightarrow> True | u # _ \<Rightarrow> u = t)"

definition mali_timeline_system_release_waiter_list :: "session_id \<Rightarrow> nat \<Rightarrow> gpu \<Rightarrow> gpu" where
  "mali_timeline_system_release_waiter_list s n =
     upd_system s (\<lambda>y. y\<lparr>waiter_empty_list := n + waiter_empty_list y\<rparr>)"

text \<open>What \<open>mali_timeline_tracker_activate\<close> does before the switch on the type.\<close>

definition begin_activation :: "tref \<Rightarrow> gpu \<Rightarrow> gpu" where
  "begin_activation t \<sigma> =
     (let \<sigma>1 = upd_tracker t (\<lambda>r. r\<lparr>os_tick_activate := tickcount \<sigma>\<rparr>) \<sigma>
      in upd_tracker t (\<lambda>r. r\<lparr>t_num_waiters := 0\<rparr>)
           (mali_timeline_system_release_waiter_list (t_system (g_trackers \<sigma>1 t))
              (t_num_waiters (g_trackers \<sigma>1 t)) \<sigma>1))"

section \<open>Soft jobs and fence waits, apart from their releases\<close>

definition mali_soft_job_destroy :: "jid \<Rightarrow> gpu \<Rightarrow> gpu" where
  "mali_soft_job_destroy j \<sigma> =
     (let \<sigma>1 = upd_soft j (\<lambda>job. job\<lparr>sj_refcount := sj_refcount job - 1\<rparr>) \<sigma> in
      if 0 < sint (sj_refcount (g_soft \<sigma>1 j)) then \<sigma>1
      else let \<sigma>2 = upd_soft j (\<lambda>job. job\<lparr>sj_notification := False\<rparr>) \<sigma>1
           in log_event (SoftFreed j)
                (upd_session (sj_session (g_soft \<sigma>2 j))
                   (\<lambda>s. s\<lparr>jobs_used := remove1 j (jobs_used s)\<rparr>) \<sigma>2))"

definition mali_soft_job_send_activated_notification :: "jid \<Rightarrow> gpu \<Rightarrow> gpu" where
  "mali_soft_job_send_activated_notification j \<sigma> =
     upd_soft j (\<lambda>job. job\<lparr>sj_notification := False\<rparr>)
       (log_when (sj_notification (g_soft \<sigma> j)) (SoftNotified j) \<sigma>)"

definition begin_fence_wait_activate :: "jid \<Rightarrow> gpu \<Rightarrow> gpu" where
  "begin_fence_wait_activate j \<sigma> =
     log_event (WakeUp (t_system (g_trackers \<sigma> (FenceWait j))))
       (upd_wait j (\<lambda>w. w\<lparr>fw_activated := True\<rparr>) \<sigma>)"

definition put_fence_waiter :: "jid \<Rightarrow> gpu \<Rightarrow> gpu" where
  "put_fence_waiter j \<sigma> =
     (let \<sigma>1 = upd_wait j (\<lambda>w. w\<lparr>fw_refcount := fw_refcount w - 1\<rparr>) \<sigma>
      in log_when (fw_refcount (g_wait \<sigma>1 j) = 0) (WaitFreed j) \<sigma>1)"

text \<open>Giving up on a PP job before it is queued.\<close>

definition fail_pp_job :: "jid \<Rightarrow> gpu \<Rightarrow> gpu" where
  "fail_pp_job j \<sigma> = upd_pp j mali_pp_job_mark_unstarted_failed (mali_pp_job_fb_lookup_remove j \<sigma>)"

definition dec_trigger :: "tref \<Rightarrow> gpu \<Rightarrow> gpu" where
  "dec_trigger t = upd_tracker t (\<lambda>r. r\<lparr>trigger_ref_count := trigger_ref_count r - 1\<rparr>)"

definition pop_waiter :: "session_id \<Rightarrow> timeline_id \<Rightarrow> gpu \<Rightarrow> gpu" where
  "pop_waiter s i = upd_timeline s i (\<lambda>l. l\<lparr>tl_waiters := tl (tl_waiters l)\<rparr>)"

definition remove_tracker :: "session_id \<Rightarrow> timeline_id \<Rightarrow> tref \<Rightarrow> gpu \<Rightarrow> gpu" where
  "remove_tracker s i t = upd_timeline s i (\<lambda>l. l\<lparr>tl_trackers := unlink_tracker t (tl_trackers l)\<rparr>)"

section \<open>The cascade\<close>

text \<open>
  The functions that call each other are named by a \<open>call\<close>; each is defined over the function
  \<open>rec\<close> that answers its calls, and \<open>cascade\<close> ties the knot, with one unit of fuel less for
  every nested call. \<open>ReleaseWaiters\<close> is the while loop of
  \<open>mali_timeline_update_oldest_point\<close>.
\<close>

datatype call =
    ReleaseWaiters session_id timeline_id
  | TrackerRelease tref
  | ActivatePPJob jid
  | TrackerPut tref u32
  | SignalPPTracker jid bool
  | ActivateGPJob jid
  | ActivateSoftJob jid
  | ActivateFenceWait jid
  | TrackerActivate tref
  | ReleaseWaiter tref

type_synonym effect = "gpu \<Rightarrow> (gpu \<times> scheduler_mask) outcome"

definition release_waiters :: "(call \<Rightarrow> effect) \<Rightarrow> session_id \<Rightarrow> timeline_id \<Rightarrow> effect" where
  "release_waiters rec s i \<sigma> =
     (case tl_waiters (the_timeline \<sigma> s i) of [] \<Rightarrow> Done (\<sigma>, MASK_EMPTY)
      | w # _ \<Rightarrow>
         let line = the_timeline \<sigma> s i;
             time_head_relative = point_next line - point_oldest line;
             waiter_time_relative = w_point w - point_oldest line
         in if waiter_time_relative < time_head_relative then Done (\<sigma>, MASK_EMPTY)
            else bind_outcome (rec (ReleaseWaiter (w_tracker w)) (pop_waiter s i \<sigma>))
                   (\<lambda>(\<sigma>1, m1). bind_outcome (rec (ReleaseWaiters s i) \<sigma>1)
                      (\<lambda>(\<sigma>2, m2). Done (\<sigma>2, m1 OR m2))))"

definition mali_timeline_update_oldest_point ::
    "(call \<Rightarrow> effect) \<Rightarrow> session_id \<Rightarrow> timeline_id \<Rightarrow> effect" where
  "mali_timeline_update_oldest_point rec s i \<sigma> = rec (ReleaseWaiters s i) (set_oldest_point s i \<sigma>)"

definition mali_timeline_tracker_release :: "(call \<Rightarrow> effect) \<Rightarrow> tref \<Rightarrow> effect" where
  "mali_timeline_tracker_release rec t \<sigma> =
     (case t_timeline (g_trackers \<sigma> t) of None \<Rightarrow> Done (\<sigma>, MASK_EMPTY)
      | Some i \<Rightarrow>
         let s = t_system (g_trackers \<sigma> t);
             ts = tl_trackers (the_timeline \<sigma> s i);
             \<sigma>1 = remove_tracker s i t \<sigma>
         in bind_outcome (if is_tail_tracker t ts then mali_timeline_update_oldest_point rec s i \<sigma>1
                          else Done (\<sigma>1, MASK_EMPTY))
              (\<lambda>(\<sigma>2, m). Done (if i = TIMELINE_SOFT
                                then mali_timeline_update_delayed_work s i \<sigma>2 else \<sigma>2, m)))"

definition mali_scheduler_activate_pp_job :: "(call \<Rightarrow> effect) \<Rightarrow> jid \<Rightarrow> effect" where
  "mali_scheduler_activate_pp_job rec j \<sigma> =
     (if activation_error (g_trackers \<sigma> (PPJob j)) \<noteq> 0
      then bind_outcome (rec (TrackerRelease (PPJob j)) (fail_pp_job j \<sigma>))
             (\<lambda>(\<sigma>1, _). Done (mali_scheduler_complete_pp_job j 0 True False \<sigma>1, MASK_EMPTY))
      else case mali_scheduler_queue_pp_job j \<sigma> of
        (\<sigma>1, False) \<Rightarrow>
          bind_outcome (rec (TrackerRelease (PPJob j)) (fail_pp_job j \<sigma>1))
            (\<lambda>(\<sigma>2, _). Done (mali_scheduler_complete_pp_job j 0 True False \<sigma>2, MASK_EMPTY))
      | (\<sigma>1, True) \<Rightarrow> Done (\<sigma>1, MASK_PP))"

definition mali_timeline_system_tracker_put :: "(call \<Rightarrow> effect) \<Rightarrow> tref \<Rightarrow> u32 \<Rightarrow> effect" where
  "mali_timeline_system_tracker_put rec t err \<sigma> =
     (let \<sigma>1 = upd_tracker t (\<lambda>r. r\<lparr>activation_error := activation_error r OR err\<rparr>) (dec_trigger t \<sigma>)
      in if trigger_ref_count (g_trackers \<sigma>1 t) = 0 then rec (TrackerActivate t) \<sigma>1
         else Done (\<sigma>1, MASK_EMPTY))"

definition mali_gp_job_signal_pp_tracker :: "(call \<Rightarrow> effect) \<Rightarrow> jid \<Rightarrow> bool \<Rightarrow> effect" where
  "mali_gp_job_signal_pp_tracker rec j success \<sigma> =
     (case gp_pp_tracker (g_gp \<sigma> j) of None \<Rightarrow> Done (\<sigma>, MASK_EMPTY)
      | Some p \<Rightarrow>
          bind_outcome (rec (TrackerPut (PPJob p) (if \<not> success then 1 else 0)) \<sigma>)
            (\<lambda>(\<sigma>1, m). Done (upd_gp j (\<lambda>job. job\<lparr>gp_pp_tracker := None\<rparr>) \<sigma>1, m)))"

definition mali_scheduler_activate_gp_job :: "(call \<Rightarrow> effect) \<Rightarrow> jid \<Rightarrow> effect" where
  "mali_scheduler_activate_gp_job rec j \<sigma> =
     (case mali_scheduler_queue_gp_job j \<sigma> of
        (\<sigma>1, False) \<Rightarrow>
          bind_outcome (rec (TrackerRelease (GPJob j)) \<sigma>1)
            (\<lambda>(\<sigma>2, _). bind_outcome (rec (SignalPPTracker j False) \<sigma>2)
               (\<lambda>(\<sigma>3, _). Done (mali_scheduler_complete_gp_job j False True False \<sigma>3, MASK_EMPTY)))
      | (\<sigma>1, True) \<Rightarrow> Done (\<sigma>1, MASK_GP))"

definition mali_soft_job_system_activate_job :: "(call \<Rightarrow> effect) \<Rightarrow> jid \<Rightarrow> effect" where
  "mali_soft_job_system_activate_job rec j \<sigma> =
     (if is_aborting (g_sessions \<sigma> (sj_session (g_soft \<sigma> j)))
      then bind_outcome (rec (TrackerRelease (SoftJob j)) \<sigma>)
             (\<lambda>(\<sigma>1, _). Done (mali_soft_job_destroy j \<sigma>1, MASK_EMPTY))
      else let \<sigma>1 = upd_soft j (\<lambda>job. job\<lparr>sj_activated := True\<rparr>)
                      (mali_soft_job_send_activated_notification j \<sigma>)
           in if sj_type (g_soft \<sigma>1 j) = SELF_SIGNALED
              then bind_outcome (rec (TrackerRelease (SoftJob j))
                                   (upd_soft j (\<lambda>job. job\<lparr>sj_state := SOFT_SIGNALED\<rparr>) \<sigma>1))
                     (\<lambda>(\<sigma>2, m). Done (mali_soft_job_destroy j \<sigma>2, m))
              else Done (log_event (WakeUp (t_system (g_trackers \<sigma>1 (SoftJob j)))) \<sigma>1, MASK_EMPTY))"

definition mali_timeline_fence_wait_activate :: "(call \<Rightarrow> effect) \<Rightarrow> jid \<Rightarrow> effect" where
  "mali_timeline_fence_wait_activate rec j \<sigma> =
     bind_outcome (rec (TrackerRelease (FenceWait j)) (begin_fence_wait_activate j \<sigma>))
       (\<lambda>(\<sigma>1, _). Done (put_fence_waiter j \<sigma>1, MASK_EMPTY))"

definition mali_timeline_tracker_activate :: "(call \<Rightarrow> effect) \<Rightarrow> tref \<Rightarrow> effect" where
  "mali_timeline_tracker_activate rec t \<sigma> =
     (let \<sigma>1 = begin_activation t \<sigma> in
      case t of
        GPJob j \<Rightarrow> bind_outcome (rec (ActivateGPJob j) \<sigma>1)
                     (\<lambda>(\<sigma>2, m). Done (count_tracker t (\<lambda>k. k - 1) \<sigma>2, m))
      | PPJob j \<Rightarrow> rec (ActivatePPJob j) (count_tracker t (\<lambda>k. k - 1) \<sigma>1)
      | SoftJob j \<Rightarrow>
          (let line = t_timeline (g_trackers \<sigma>1 t); s = t_system (g_trackers \<sigma>1 t) in
           bind_outcome (rec (ActivateSoftJob j) \<sigma>1)
             (\<lambda>(\<sigma>2, m). case line of None \<Rightarrow> Oops
                | Some i \<Rightarrow> Done (mali_timeline_update_delayed_work s i \<sigma>2, m)))
      | FenceWait j \<Rightarrow>
          bind_outcome (rec (ActivateFenceWait j) \<sigma>1) (\<lambda>(\<sigma>2, _). Done (\<sigma>2, MASK_EMPTY)))"

definition mali_timeline_system_release_waiter :: "(call \<Rightarrow> effect) \<Rightarrow> tref \<Rightarrow> effect" where
  "mali_timeline_system_release_waiter rec t \<sigma> =
     (let \<sigma>1 = dec_trigger t \<sigma>
      in if trigger_ref_count (g_trackers \<sigma>1 t) = 0 then rec (TrackerActivate t) \<sigma>1
         else Done (\<sigma>1, MASK_EMPTY))"

definition cascade_step :: "(call \<Rightarrow> effect) \<Rightarrow> call \<Rightarrow> effect" where
  "cascade_step rec c =
     (case c of
        ReleaseWaiters s i \<Rightarrow> release_waiters rec s i
      | TrackerRelease t \<Rightarrow> mali_timeline_tracker_release rec t
      | ActivatePPJob j \<Rightarrow> mali_scheduler_activate_pp_job rec j
      | TrackerPut t err \<Rightarrow> mali_timeline_system_tracker_put rec t err
      | SignalPPTracker j success \<Rightarrow> mali_gp_job_signal_pp_tracker rec j success
      | ActivateGPJob j \<Rightarrow> mali_scheduler_activate_gp_job rec j
      | ActivateSoftJob j \<Rightarrow> mali_soft_job_system_activate_job rec j
      | ActivateFenceWait j \<Rightarrow> mali_timeline_fence_wait_activate rec j
      | TrackerActivate t \<Rightarrow> mali_timeline_tracker_activate rec t
      | ReleaseWaiter t \<Rightarrow> mali_timeline_system_release_waiter rec t)"

primrec cascade :: "nat \<Rightarrow> call \<Rightarrow> effect" where
  "cascade 0 c \<sigma> = OutOfFuel"
| "cascade (Suc n) c \<sigma> = cascade_step (cascade n) c \<sigma>"

lemmas cascade_defs = release_waiters_def mali_timeline_update_oldest_point_def
  mali_timeline_tracker_release_def mali_scheduler_activate_pp_job_def
  mali_timeline_system_tracker_put_def mali_gp_job_signal_pp_tracker_def
  mali_scheduler_activate_gp_job_def mali_soft_job_system_activate_job_def
  mali_timeline_fence_wait_activate_def mali_timeline_tracker_activate_def
  mali_timeline_system_release_waiter_def

end
