(* ===== verification/Cascade.thy ===== *)
theory Cascade
  imports Timeline "HOL-Library.Sublist" "HOL-Library.Multiset"
begin

text \<open>
  The cascade of releases and activations of the timeline system: what it leaves alone, that
  it ends, with an explicit bound on the depth of the calls, and the invariant that ties the
  trigger reference counts to the waiters and the GP jobs that hold them.
\<close>

section \<open>What the steps of the cascade do to the parts of the state\<close>

definition waiters_of :: "gpu \<Rightarrow> session_id \<Rightarrow> timeline_id \<Rightarrow> waiter list" where
  "waiters_of \<sigma> s i = tl_waiters (the_timeline \<sigma> s i)"

definition trackers_of :: "gpu \<Rightarrow> session_id \<Rightarrow> timeline_id \<Rightarrow> tref list" where
  "trackers_of \<sigma> s i = tl_trackers (the_timeline \<sigma> s i)"

definition next_of :: "gpu \<Rightarrow> session_id \<Rightarrow> timeline_id \<Rightarrow> timeline_point" where
  "next_of \<sigma> s i = point_next (the_timeline \<sigma> s i)"

definition oldest_of :: "gpu \<Rightarrow> session_id \<Rightarrow> timeline_id \<Rightarrow> timeline_point" where
  "oldest_of \<sigma> s i = point_oldest (the_timeline \<sigma> s i)"

definition refs :: "gpu \<Rightarrow> tref \<Rightarrow> u32" where
  "refs \<sigma> t = trigger_ref_count (g_trackers \<sigma> t)"

text \<open>The fields of a tracker that are set when it is added and stay.\<close>

definition identity :: "gpu \<Rightarrow> tref \<Rightarrow> session_id \<times> timeline_id option \<times> timeline_point \<times> timeline_fence" where
  "identity \<sigma> t = (let r = g_trackers \<sigma> t in (t_system r, t_timeline r, t_point r, t_fence r))"

definition pp_tracker_of :: "gpu \<Rightarrow> jid \<Rightarrow> jid option" where
  "pp_tracker_of \<sigma> j = gp_pp_tracker (g_gp \<sigma> j)"

text \<open>The steps that touch none of these.\<close>

definition same_view :: "gpu \<Rightarrow> gpu \<Rightarrow> bool" where
  "same_view \<sigma> \<sigma>' \<longleftrightarrow> waiters_of \<sigma>' = waiters_of \<sigma> \<and> trackers_of \<sigma>' = trackers_of \<sigma> \<and>
     next_of \<sigma>' = next_of \<sigma> \<and> oldest_of \<sigma>' = oldest_of \<sigma> \<and> refs \<sigma>' = refs \<sigma> \<and>
     identity \<sigma>' = identity \<sigma> \<and> pp_tracker_of \<sigma>' = pp_tracker_of \<sigma>"

lemmas view_defs = same_view_def waiters_of_def trackers_of_def next_of_def oldest_of_def
  refs_def identity_def pp_tracker_of_def fun_eq_iff Let_def gpu_upd_defs

lemma same_view_refl [simp]: "same_view \<sigma> \<sigma>"
  by (simp add: same_view_def)

lemma same_view_trans: "same_view \<sigma> \<sigma>1 \<Longrightarrow> same_view \<sigma>1 \<sigma>2 \<Longrightarrow> same_view \<sigma> \<sigma>2"
  by (simp add: same_view_def)

named_theorems same_view \<open>steps that keep the view\<close>

lemma view_log_event [same_view]: "same_view \<sigma> (log_event e \<sigma>)"
  by (simp add: view_defs)

lemma view_log_when [same_view]: "same_view \<sigma> (log_when b e \<sigma>)"
  by (simp add: log_when_def view_log_event)

lemma view_upd_pp [same_view]: "same_view \<sigma> (upd_pp j f \<sigma>)"
  by (simp add: view_defs)

lemma view_upd_soft [same_view]: "same_view \<sigma> (upd_soft j f \<sigma>)"
  by (simp add: view_defs)

lemma view_upd_wait [same_view]: "same_view \<sigma> (upd_wait j f \<sigma>)"
  by (simp add: view_defs)

lemma view_upd_session [same_view]: "same_view \<sigma> (upd_session s f \<sigma>)"
  by (simp add: view_defs)

lemma view_upd_gp [same_view]:
  "(\<And>job. gp_pp_tracker (f job) = gp_pp_tracker job) \<Longrightarrow> same_view \<sigma> (upd_gp j f \<sigma>)"
  by (simp add: view_defs)

lemma view_count_tracker [same_view]: "same_view \<sigma> (count_tracker t f \<sigma>)"
  by (cases t) (simp_all add: view_defs count_tracker_def)

lemma view_fields [same_view]:
  "same_view \<sigma> (\<sigma>\<lparr>job_queue_gp := q\<rparr>)" "same_view \<sigma> (\<sigma>\<lparr>job_queue_pp := q\<rparr>)"
  "same_view \<sigma> (\<sigma>\<lparr>cache_order_autonumber := n\<rparr>)" "same_view \<sigma> (\<sigma>\<lparr>pp_deletion_queue := d\<rparr>)"
  by (simp_all add: view_defs)

lemma view_fail_pp_job [same_view]: "same_view \<sigma> (fail_pp_job j \<sigma>)"
  unfolding fail_pp_job_def mali_pp_job_fb_lookup_remove_def
  by (meson same_view same_view_trans)

lemma view_queue_gp [same_view]: "same_view \<sigma> (fst (mali_scheduler_queue_gp_job j \<sigma>))"
  unfolding mali_scheduler_queue_gp_job_def mali_scheduler_get_new_cache_order_def log_when_def
  by (simp add: view_defs)

lemma view_queue_pp [same_view]: "same_view \<sigma> (fst (mali_scheduler_queue_pp_job j \<sigma>))"
  unfolding mali_scheduler_queue_pp_job_def mali_scheduler_get_new_cache_order_def log_when_def
  by (simp add: view_defs)

lemma view_complete_gp [same_view]: "same_view \<sigma> (mali_scheduler_complete_gp_job j a b c \<sigma>)"
  by (simp add: mali_scheduler_complete_gp_job_def mali_scheduler_return_gp_job_to_user_def
      log_when_def view_defs)

lemma view_complete_pp [same_view]: "same_view \<sigma> (mali_scheduler_complete_pp_job j a b c \<sigma>)"
  by (simp add: mali_scheduler_complete_pp_job_def mali_scheduler_deferred_pp_job_delete_def
      log_when_def view_defs)

lemma view_soft_destroy [same_view]: "same_view \<sigma> (mali_soft_job_destroy j \<sigma>)"
  by (simp add: mali_soft_job_destroy_def view_defs)

lemma view_soft_notify [same_view]: "same_view \<sigma> (mali_soft_job_send_activated_notification j \<sigma>)"
  by (simp add: mali_soft_job_send_activated_notification_def log_when_def view_defs)

lemma view_begin_fence_wait [same_view]: "same_view \<sigma> (begin_fence_wait_activate j \<sigma>)"
  by (simp add: begin_fence_wait_activate_def view_defs)

lemma view_put_fence_waiter [same_view]: "same_view \<sigma> (put_fence_waiter j \<sigma>)"
  by (simp add: put_fence_waiter_def log_when_def view_defs)

lemma view_begin_activation [same_view]: "same_view \<sigma> (begin_activation t \<sigma>)"
  by (simp add: begin_activation_def mali_timeline_system_release_waiter_list_def view_defs)

lemma view_delayed_work [same_view]: "same_view \<sigma> (mali_timeline_update_delayed_work s i \<sigma>)"
  by (simp add: mali_timeline_update_delayed_work_def log_when_def view_defs split: list.split)

lemma view_or_error [same_view]:
  "same_view \<sigma> (upd_tracker t (\<lambda>r. r\<lparr>activation_error := f r\<rparr>) \<sigma>)"
  by (simp add: view_defs)

section \<open>Relations every step of the cascade respects\<close>

text \<open>The loop over the waiters stops at the first one whose point is on the timeline.\<close>

definition loop_exit :: "gpu \<Rightarrow> session_id \<Rightarrow> timeline_id \<Rightarrow> bool" where
  "loop_exit \<sigma> s i \<longleftrightarrow> (case waiters_of \<sigma> s i of [] \<Rightarrow> True
     | w # _ \<Rightarrow> mali_timeline_is_point_on (the_timeline \<sigma> s i) (w_point w))"

lemma cascade_loop_exit: "cascade n (ReleaseWaiters s i) \<sigma> = Done (\<sigma>', m) \<Longrightarrow> loop_exit \<sigma>' s i"
proof (induction n arbitrary: \<sigma> m)
  case (Suc n)
  then show ?case
    by (auto simp: cascade_step_def release_waiters_def bind_outcome_Done Let_def waiters_of_def
        loop_exit_def mali_timeline_is_point_on_def split: list.splits if_splits)
qed simp

text \<open>A relation between the state before and after that is transitive and holds for every step
  of the cascade holds between the states before and after the whole of it.\<close>

locale cascade_steps =
  fixes R :: "gpu \<Rightarrow> gpu \<Rightarrow> bool"
  assumes R_refl: "R \<sigma> \<sigma>"
    and R_trans: "R \<sigma> \<sigma>1 \<Longrightarrow> R \<sigma>1 \<sigma>2 \<Longrightarrow> R \<sigma> \<sigma>2"
    and R_dec: "R \<sigma> (dec_trigger t \<sigma>)"
    and R_pop: "waiters_of \<sigma> s i = w # ws \<Longrightarrow>
           \<not> mali_timeline_is_point_on (the_timeline \<sigma> s i) (w_point w) \<Longrightarrow> R \<sigma> (pop_waiter s i \<sigma>)"
    and R_remove_tail: "is_tail_tracker t (trackers_of \<sigma> s i) \<Longrightarrow>
           R (set_oldest_point s i (remove_tracker s i t \<sigma>)) \<sigma>1 \<Longrightarrow> loop_exit \<sigma>1 s i \<Longrightarrow> R \<sigma> \<sigma>1"
    and R_remove: "\<not> is_tail_tracker t (trackers_of \<sigma> s i) \<Longrightarrow> R \<sigma> (remove_tracker s i t \<sigma>)"
    and R_clear: "R \<sigma> (upd_gp j (\<lambda>job. job\<lparr>gp_pp_tracker := None\<rparr>) \<sigma>)"
    and R_error: "R \<sigma> (upd_tracker t (\<lambda>r. r\<lparr>activation_error := activation_error r OR err\<rparr>) \<sigma>)"
    and R_begin: "R \<sigma> (begin_activation t \<sigma>)"
    and R_count: "R \<sigma> (count_tracker t f \<sigma>)"
    and R_timer: "R \<sigma> (mali_timeline_update_delayed_work s i \<sigma>)"
    and R_fail_pp: "R \<sigma> (fail_pp_job j \<sigma>)"
    and R_queue_pp: "mali_scheduler_queue_pp_job j \<sigma> = (\<sigma>1, q) \<Longrightarrow> R \<sigma> \<sigma>1"
    and R_queue_gp: "mali_scheduler_queue_gp_job j \<sigma> = (\<sigma>1, q) \<Longrightarrow> R \<sigma> \<sigma>1"
    and R_complete_pp: "R \<sigma> (mali_scheduler_complete_pp_job j 0 True False \<sigma>)"
    and R_complete_gp: "R \<sigma> (mali_scheduler_complete_gp_job j False True False \<sigma>)"
    and R_soft_activated: "R \<sigma> (upd_soft j (\<lambda>job. job\<lparr>sj_activated := True\<rparr>)
           (mali_soft_job_send_activated_notification j \<sigma>))"
    and R_soft_signaled: "R \<sigma> (upd_soft j (\<lambda>job. job\<lparr>sj_state := SOFT_SIGNALED\<rparr>) \<sigma>)"
    and R_soft_destroy: "R \<sigma> (mali_soft_job_destroy j \<sigma>)"
    and R_wake_up: "R \<sigma> (log_event (WakeUp s) \<sigma>)"
    and R_fence_wait: "R \<sigma> (begin_fence_wait_activate j \<sigma>)"
    and R_put_waiter: "R \<sigma> (put_fence_waiter j \<sigma>)"
begin

text \<open>One call, given that the calls it makes respect the relation.\<close>

lemma R_cascade_step:
  assumes rec: "\<And>c \<sigma> \<sigma>' m. rec c \<sigma> = Done (\<sigma>', m) \<Longrightarrow> R \<sigma> \<sigma>'"
    and ex: "\<And>s i \<sigma> \<sigma>' m. rec (ReleaseWaiters s i) \<sigma> = Done (\<sigma>', m) \<Longrightarrow> loop_exit \<sigma>' s i"
    and d: "cascade_step rec c \<sigma> = Done (\<sigma>', m)"
  shows "R \<sigma> \<sigma>'"
proof (cases c)
  case (ReleaseWaiters s i)
  with d show ?thesis
    by (auto simp: cascade_step_def release_waiters_def bind_outcome_Done Let_def R_refl
        waiters_of_def mali_timeline_is_point_on_def
        split: list.splits if_splits dest!: rec intro: R_trans [OF R_pop] R_trans)
next
  case (TrackerRelease t)
  have upd: "R \<sigma> \<sigma>'"
    if "mali_timeline_update_oldest_point rec s i (remove_tracker s i t \<sigma>) = Done (\<sigma>', m)"
      and "is_tail_tracker t (trackers_of \<sigma> s i)" for s i \<sigma>' m
    using that rec ex R_remove_tail unfolding mali_timeline_update_oldest_point_def by blast
  from TrackerRelease d show ?thesis
    by (auto simp: cascade_step_def mali_timeline_tracker_release_def bind_outcome_Done Let_def R_refl
        trackers_of_def [symmetric]
        split: option.splits if_splits dest!: upd
        intro: R_remove R_trans [OF _ R_timer])
next
  case (ActivatePPJob j)
  obtain \<sigma>1 q where q: "mali_scheduler_queue_pp_job j \<sigma> = (\<sigma>1, q)" by fastforce
  note r = R_queue_pp [OF q]
  from ActivatePPJob d q r show ?thesis
    by (cases q)
      (auto simp: cascade_step_def mali_scheduler_activate_pp_job_def bind_outcome_Done
        split: if_splits dest!: rec
        intro: R_trans [OF R_trans [OF R_fail_pp] R_complete_pp]
          R_trans [OF r R_trans [OF R_trans [OF R_fail_pp] R_complete_pp]])
next
  case (TrackerPut t err)
  with d show ?thesis
    by (auto simp: cascade_step_def mali_timeline_system_tracker_put_def Let_def
        split: if_splits dest!: rec intro: R_trans [OF R_dec R_error] R_trans [OF R_dec R_trans [OF R_error]])
next
  case (SignalPPTracker j success)
  with d show ?thesis
    by (auto simp: cascade_step_def mali_gp_job_signal_pp_tracker_def bind_outcome_Done R_refl
        split: option.splits dest!: rec intro: R_trans [OF _ R_clear])
next
  case (ActivateGPJob j)
  obtain \<sigma>1 q where q: "mali_scheduler_queue_gp_job j \<sigma> = (\<sigma>1, q)" by fastforce
  note r = R_queue_gp [OF q]
  from ActivateGPJob d q r show ?thesis
    by (cases q)
      (auto simp: cascade_step_def mali_scheduler_activate_gp_job_def bind_outcome_Done
        dest!: rec intro: R_trans [OF R_trans [OF R_trans [OF r]] R_complete_gp])
next
  case (ActivateSoftJob j)
  show ?thesis
  proof (cases "is_aborting (g_sessions \<sigma> (sj_session (g_soft \<sigma> j)))")
    case True
    with ActivateSoftJob d obtain \<sigma>1 m1 where "rec (TrackerRelease (SoftJob j)) \<sigma> = Done (\<sigma>1, m1)"
      and "\<sigma>' = mali_soft_job_destroy j \<sigma>1"
      by (auto simp: cascade_step_def mali_soft_job_system_activate_job_def bind_outcome_Done)
    then show ?thesis using R_trans [OF rec R_soft_destroy] by simp
  next
    case False
    let ?\<sigma>1 = "upd_soft j (\<lambda>job. job\<lparr>sj_activated := True\<rparr>)
                 (mali_soft_job_send_activated_notification j \<sigma>)"
    show ?thesis
    proof (cases "sj_type (g_soft ?\<sigma>1 j) = SELF_SIGNALED")
      case True
      with ActivateSoftJob d False obtain \<sigma>2 m2 where
        "rec (TrackerRelease (SoftJob j)) (upd_soft j (\<lambda>job. job\<lparr>sj_state := SOFT_SIGNALED\<rparr>) ?\<sigma>1) = Done (\<sigma>2, m2)"
        and "\<sigma>' = mali_soft_job_destroy j \<sigma>2"
        by (auto simp: cascade_step_def mali_soft_job_system_activate_job_def bind_outcome_Done Let_def)
      then show ?thesis
        using R_trans [OF R_soft_activated R_trans [OF R_soft_signaled R_trans [OF rec R_soft_destroy]]]
        by simp
    next
      case self: False
      with ActivateSoftJob d False show ?thesis
        using R_trans [OF R_soft_activated R_wake_up]
        by (auto simp: cascade_step_def mali_soft_job_system_activate_job_def Let_def)
    qed
  qed
next
  case (ActivateFenceWait j)
  with d show ?thesis
    by (auto simp: cascade_step_def mali_timeline_fence_wait_activate_def bind_outcome_Done
        dest!: rec intro: R_trans [OF R_trans [OF R_fence_wait] R_put_waiter])
next
  case (TrackerActivate t)
  let ?\<sigma>1 = "begin_activation t \<sigma>"
  show ?thesis
  proof (cases t)
    case (GPJob j)
    then obtain \<sigma>2 m2 where "rec (ActivateGPJob j) ?\<sigma>1 = Done (\<sigma>2, m2)"
      and "\<sigma>' = count_tracker t (\<lambda>k. k - 1) \<sigma>2"
      using d TrackerActivate
      by (auto simp: cascade_step_def mali_timeline_tracker_activate_def bind_outcome_Done Let_def)
    then show ?thesis using R_trans [OF R_begin R_trans [OF rec R_count]] by simp
  next
    case (PPJob j)
    then have "rec (ActivatePPJob j) (count_tracker t (\<lambda>k. k - 1) ?\<sigma>1) = Done (\<sigma>', m)"
      using d TrackerActivate by (simp add: cascade_step_def mali_timeline_tracker_activate_def Let_def)
    from R_trans [OF R_begin R_trans [OF R_count rec [OF this]]] show ?thesis .
  next
    case (SoftJob j)
    then obtain \<sigma>2 m2 i s where "rec (ActivateSoftJob j) ?\<sigma>1 = Done (\<sigma>2, m2)"
      and "\<sigma>' = mali_timeline_update_delayed_work s i \<sigma>2"
      using d TrackerActivate
      by (auto simp: cascade_step_def mali_timeline_tracker_activate_def bind_outcome_Done Let_def
          split: option.splits)
    then show ?thesis using R_trans [OF R_begin R_trans [OF rec R_timer]] by simp
  next
    case (FenceWait j)
    then obtain m2 where "rec (ActivateFenceWait j) ?\<sigma>1 = Done (\<sigma>', m2)"
      using d TrackerActivate
      by (auto simp: cascade_step_def mali_timeline_tracker_activate_def bind_outcome_Done Let_def)
    then show ?thesis using R_trans [OF R_begin rec] by blast
  qed
next
  case (ReleaseWaiter t)
  with d show ?thesis
    by (auto simp: cascade_step_def mali_timeline_system_release_waiter_def Let_def
        split: if_splits dest!: rec intro: R_dec R_trans)
qed

lemma R_cascade: "cascade n c \<sigma> = Done (\<sigma>', m) \<Longrightarrow> R \<sigma> \<sigma>'"
proof (induction n arbitrary: c \<sigma> \<sigma>' m)
  case (Suc n)
  show ?case by (rule R_cascade_step [OF Suc.IH cascade_loop_exit]) (use Suc.prems in simp_all)
qed simp

end

text \<open>A relation that only speaks of the view has fewer steps to respect.\<close>

locale cascade_relation =
  fixes R :: "gpu \<Rightarrow> gpu \<Rightarrow> bool"
  assumes V_trans: "R \<sigma> \<sigma>1 \<Longrightarrow> R \<sigma>1 \<sigma>2 \<Longrightarrow> R \<sigma> \<sigma>2"
    and V_view: "same_view \<sigma> \<sigma>' \<Longrightarrow> R \<sigma> \<sigma>'"
    and V_dec: "R \<sigma> (dec_trigger t \<sigma>)"
    and V_pop: "waiters_of \<sigma> s i = w # ws \<Longrightarrow>
           \<not> mali_timeline_is_point_on (the_timeline \<sigma> s i) (w_point w) \<Longrightarrow> R \<sigma> (pop_waiter s i \<sigma>)"
    and V_remove_tail: "is_tail_tracker t (trackers_of \<sigma> s i) \<Longrightarrow>
           R \<sigma> (set_oldest_point s i (remove_tracker s i t \<sigma>))"
    and V_remove: "\<not> is_tail_tracker t (trackers_of \<sigma> s i) \<Longrightarrow> R \<sigma> (remove_tracker s i t \<sigma>)"
    and V_clear: "R \<sigma> (upd_gp j (\<lambda>job. job\<lparr>gp_pp_tracker := None\<rparr>) \<sigma>)"

lemma view_queues:
  "mali_scheduler_queue_pp_job j \<sigma> = (\<sigma>1, q) \<Longrightarrow> same_view \<sigma> \<sigma>1"
  "mali_scheduler_queue_gp_job j \<sigma> = (\<sigma>1, q) \<Longrightarrow> same_view \<sigma> \<sigma>1"
  using view_queue_pp [of \<sigma> j] view_queue_gp [of \<sigma> j] by simp_all

lemma view_soft_activated:
  "same_view \<sigma> (upd_soft j f (mali_soft_job_send_activated_notification j \<sigma>))"
  by (rule same_view_trans [OF view_soft_notify view_upd_soft])

sublocale cascade_relation \<subseteq> cascade_steps R
proof
  show "R \<sigma> \<sigma>" for \<sigma> by (rule V_view [OF same_view_refl])
  show "R \<sigma> \<sigma>1 \<Longrightarrow> R \<sigma>1 \<sigma>2 \<Longrightarrow> R \<sigma> \<sigma>2" for \<sigma> \<sigma>1 \<sigma>2 by (rule V_trans)
  show "is_tail_tracker t (trackers_of \<sigma> s i) \<Longrightarrow>
      R (set_oldest_point s i (remove_tracker s i t \<sigma>)) \<sigma>1 \<Longrightarrow> loop_exit \<sigma>1 s i \<Longrightarrow> R \<sigma> \<sigma>1" for t \<sigma> s i \<sigma>1
    by (rule V_trans [OF V_remove_tail])
qed (assumption | rule V_dec V_pop V_remove V_clear V_view [OF view_or_error]
      V_view [OF view_begin_activation] V_view [OF view_count_tracker]
      V_view [OF view_delayed_work] V_view [OF view_fail_pp_job] V_view [OF view_queues(1)]
      V_view [OF view_queues(2)] V_view [OF view_complete_pp] V_view [OF view_complete_gp]
      V_view [OF view_soft_activated] V_view [OF view_upd_soft] V_view [OF view_soft_destroy]
      V_view [OF view_log_event] V_view [OF view_begin_fence_wait] V_view [OF view_put_fence_waiter])+

section \<open>What the whole cascade leaves alone\<close>

text \<open>Waiters only leave a timeline's list, from its oldest end; trackers only leave; the next
  points and what identifies a tracker stay; a GP job keeps its PP tracker or drops it.\<close>

definition shrinks :: "gpu \<Rightarrow> gpu \<Rightarrow> bool" where
  "shrinks \<sigma> \<sigma>' \<longleftrightarrow> (\<forall>s i. suffix (waiters_of \<sigma>' s i) (waiters_of \<sigma> s i)) \<and>
     (\<forall>s i. subseq (trackers_of \<sigma>' s i) (trackers_of \<sigma> s i)) \<and>
     next_of \<sigma>' = next_of \<sigma> \<and> identity \<sigma>' = identity \<sigma> \<and>
     (\<forall>j. pp_tracker_of \<sigma>' j \<in> {pp_tracker_of \<sigma> j, None})"

lemma shrinks_trans: "shrinks \<sigma> \<sigma>1 \<Longrightarrow> shrinks \<sigma>1 \<sigma>2 \<Longrightarrow> shrinks \<sigma> \<sigma>2"
  unfolding shrinks_def
  by (metis (no_types, lifting) insert_iff singletonD subseq_order.trans suffix_order.trans)

lemma shrinks_dec: "shrinks \<sigma> (dec_trigger t \<sigma>)"
  by (simp add: shrinks_def view_defs dec_trigger_def)

lemma shrinks_pop: "shrinks \<sigma> (pop_waiter s i \<sigma>)"
  by (simp add: shrinks_def view_defs pop_waiter_def suffix_tl)

lemma shrinks_oldest: "shrinks \<sigma> (set_oldest_point s i \<sigma>)"
  by (simp add: shrinks_def view_defs set_oldest_point_def)

lemma subseq_remove1: "subseq (remove1 x xs) xs"
  by (induction xs) auto

lemma shrinks_remove: "shrinks \<sigma> (remove_tracker s i t \<sigma>)"
  by (simp add: shrinks_def view_defs remove_tracker_def unlink_tracker_def subseq_remove1)

lemma shrinks_clear: "shrinks \<sigma> (upd_gp j (\<lambda>job. job\<lparr>gp_pp_tracker := None\<rparr>) \<sigma>)"
  by (simp add: shrinks_def view_defs)

interpretation shrink: cascade_relation shrinks
proof unfold_locales
  show "shrinks \<sigma> \<sigma>'" if "same_view \<sigma> \<sigma>'" for \<sigma> \<sigma>'
    using that by (simp add: shrinks_def same_view_def)
qed (blast intro: shrinks_trans shrinks_dec shrinks_pop shrinks_oldest shrinks_remove shrinks_clear)+

section \<open>The cascade ends\<close>

definition waiting :: "session_id set \<Rightarrow> gpu \<Rightarrow> nat" where
  "waiting S \<sigma> = (\<Sum>s\<in>S. \<Sum>i\<in>{TIMELINE_GP, TIMELINE_PP, TIMELINE_SOFT}. length (waiters_of \<sigma> s i))"

text \<open>The sessions with waiters.\<close>

definition covers :: "session_id set \<Rightarrow> gpu \<Rightarrow> bool" where
  "covers S \<sigma> \<longleftrightarrow> finite S \<and> (\<forall>s i. waiters_of \<sigma> s i \<noteq> [] \<longrightarrow> s \<in> S)"

lemma shrinks_waiting: "shrinks \<sigma> \<sigma>' \<Longrightarrow> waiting S \<sigma>' \<le> waiting S \<sigma>"
  unfolding waiting_def by (intro sum_mono) (simp add: shrinks_def suffix_length_le)

lemma shrinks_covers: "shrinks \<sigma> \<sigma>' \<Longrightarrow> covers S \<sigma> \<Longrightarrow> covers S \<sigma>'"
  unfolding shrinks_def covers_def by (metis suffix_bot.extremum_uniqueI)

lemma view_covers: "same_view \<sigma> \<sigma>' \<Longrightarrow> covers S \<sigma>' = covers S \<sigma>"
  by (simp add: same_view_def covers_def)

lemma view_waiting: "same_view \<sigma> \<sigma>' \<Longrightarrow> waiting S \<sigma>' = waiting S \<sigma>"
  by (simp add: same_view_def waiting_def)

lemma pop_waiters_of:
  "waiters_of (pop_waiter s i \<sigma>) s' i' =
     (if s' = s \<and> i' = i then tl (waiters_of \<sigma> s i) else waiters_of \<sigma> s' i')"
  by (simp add: view_defs pop_waiter_def)

lemma waiting_pop:
  assumes "covers S \<sigma>" and "waiters_of \<sigma> s i \<noteq> []"
  shows "Suc (waiting S (pop_waiter s i \<sigma>)) = waiting S \<sigma>"
proof -
  let ?I = "{TIMELINE_GP, TIMELINE_PP, TIMELINE_SOFT}"
  have s: "s \<in> S" "finite S" and i: "i \<in> ?I" using assms by (cases i; auto simp: covers_def)+
  have l: "length (waiters_of \<sigma> s i) = Suc (length (tl (waiters_of \<sigma> s i)))"
    using assms(2) by (cases "waiters_of \<sigma> s i") auto
  have row: "(\<Sum>i'\<in>?I. length (waiters_of \<sigma> s i')) =
      Suc (\<Sum>i'\<in>?I. length (waiters_of (pop_waiter s i \<sigma>) s i'))"
    using i l by (cases i) (simp_all add: pop_waiters_of)
  have rest: "(\<Sum>s'\<in>S - {s}. \<Sum>i'\<in>?I. length (waiters_of (pop_waiter s i \<sigma>) s' i')) =
      (\<Sum>s'\<in>S - {s}. \<Sum>i'\<in>?I. length (waiters_of \<sigma> s' i'))"
    by (intro sum.cong refl) (simp add: pop_waiters_of)
  show ?thesis
    unfolding waiting_def sum.remove [OF s(2,1)] row rest by simp
qed

text \<open>The depth of the calls below each function when no waiter is left, and nine more calls for
  every waiter.\<close>

fun call_depth :: "call \<Rightarrow> nat" where
  "call_depth (ReleaseWaiters _ _) = 1"
| "call_depth (TrackerRelease _) = 2"
| "call_depth (ActivatePPJob _) = 3"
| "call_depth (ActivateSoftJob _) = 3"
| "call_depth (ActivateFenceWait _) = 3"
| "call_depth (TrackerActivate (GPJob _)) = 8"
| "call_depth (TrackerActivate _) = 4"
| "call_depth (TrackerPut (PPJob _) _) = 5"
| "call_depth (TrackerPut _ _) = 9"
| "call_depth (SignalPPTracker _ _) = 6"
| "call_depth (ActivateGPJob _) = 7"
| "call_depth (ReleaseWaiter _) = 9"

definition fuel_for :: "session_id set \<Rightarrow> call \<Rightarrow> gpu \<Rightarrow> nat" where
  "fuel_for S c \<sigma> = 9 * waiting S \<sigma> + call_depth c"

lemma smaller_call:
  assumes IH: "\<forall>c \<sigma>. covers S \<sigma> \<longrightarrow> fuel_for S c \<sigma> \<le> n \<longrightarrow> cascade n c \<sigma> \<noteq> OutOfFuel"
    and "covers S \<sigma>" "fuel_for S c \<sigma> \<le> Suc n" "shrinks \<sigma> \<sigma>'" "call_depth c' < call_depth c"
  shows "cascade n c' \<sigma>' \<noteq> OutOfFuel"
  using shrinks_waiting [OF assms(4), of S] assms(3,5) shrinks_covers [OF assms(4,2)]
  by (intro IH [rule_format]) (auto simp: fuel_for_def)

lemma pop_call:
  assumes IH: "\<forall>c \<sigma>. covers S \<sigma> \<longrightarrow> fuel_for S c \<sigma> \<le> n \<longrightarrow> cascade n c \<sigma> \<noteq> OutOfFuel"
    and "covers S \<sigma>" "fuel_for S (ReleaseWaiters s i) \<sigma> \<le> Suc n"
    and "waiters_of \<sigma> s i \<noteq> []" "shrinks (pop_waiter s i \<sigma>) \<sigma>'" "call_depth c' \<le> 9"
  shows "cascade n c' \<sigma>' \<noteq> OutOfFuel"
proof -
  have "9 * waiting S \<sigma>' + 9 \<le> 9 * waiting S \<sigma>"
    using waiting_pop [OF assms(2,4)] shrinks_waiting [OF assms(5), of S] by linarith
  with assms(3,6) shrinks_covers [OF shrinks_trans [OF shrinks_pop assms(5)] assms(2)]
  show ?thesis by (intro IH [rule_format]) (auto simp: fuel_for_def)
qed

lemmas shrinks_view = shrink.V_view
lemmas shrinks_refl = shrink.R_refl

lemma shrinks_queue:
  "mali_scheduler_queue_pp_job j \<sigma> = (\<sigma>1, q) \<Longrightarrow> shrinks \<sigma> \<sigma>1"
  "mali_scheduler_queue_gp_job j \<sigma> = (\<sigma>1, q) \<Longrightarrow> shrinks \<sigma> \<sigma>1"
  using shrinks_view [OF view_queue_pp, of \<sigma> j] shrinks_view [OF view_queue_gp, of \<sigma> j] by simp_all

lemma enough_fuel:
  "covers S \<sigma> \<Longrightarrow> fuel_for S c \<sigma> \<le> n \<Longrightarrow> cascade n c \<sigma> \<noteq> OutOfFuel"
proof (induction n arbitrary: c \<sigma>)
  case 0
  have "0 < call_depth c" by (cases c rule: call_depth.cases) auto
  with 0 show ?case by (simp add: fuel_for_def)
next
  case (Suc n)
  have IH: "\<forall>c \<sigma>. covers S \<sigma> \<longrightarrow> fuel_for S c \<sigma> \<le> n \<longrightarrow> cascade n c \<sigma> \<noteq> OutOfFuel"
    using Suc.IH by blast
  note small = smaller_call [OF IH Suc.prems]
  show ?case
  proof (cases c)
    case (ReleaseWaiters s i)
    note pop = pop_call [OF IH Suc.prems(1) Suc.prems(2) [unfolded ReleaseWaiters]]
    show ?thesis
    proof (cases "waiters_of \<sigma> s i")
      case Nil
      then show ?thesis
        by (simp add: ReleaseWaiters cascade_step_def release_waiters_def waiters_of_def)
    next
      case (Cons w ws)
      have ne: "waiters_of \<sigma> s i \<noteq> []" using Cons by simp
      have "cascade n (ReleaseWaiter (w_tracker w)) (pop_waiter s i \<sigma>) \<noteq> OutOfFuel"
        by (rule pop [OF ne shrinks_refl]) simp
      moreover have "cascade n (ReleaseWaiters s i) \<sigma>1 \<noteq> OutOfFuel"
        if "cascade n (ReleaseWaiter (w_tracker w)) (pop_waiter s i \<sigma>) = Done (\<sigma>1, m)" for \<sigma>1 m
        by (rule pop [OF ne shrink.R_cascade [OF that]]) simp
      ultimately show ?thesis
        using Cons by (auto simp: ReleaseWaiters cascade_step_def release_waiters_def
            waiters_of_def bind_outcome_no_fuel Let_def)
    qed
  next
    case (TrackerRelease t)
    then show ?thesis
      by (auto simp: small [OF shrinks_trans [OF shrinks_remove shrinks_oldest]]
          cascade_step_def mali_timeline_tracker_release_def mali_timeline_update_oldest_point_def
          bind_outcome_no_fuel Let_def
          split: option.splits if_splits)
  next
    case (ActivatePPJob j)
    obtain \<sigma>1 q where q: "mali_scheduler_queue_pp_job j \<sigma> = (\<sigma>1, q)" by fastforce
    show ?thesis
      by (cases q)
        (auto simp: small [OF shrinks_view [OF view_fail_pp_job]] small [OF shrinks_trans [OF shrinks_queue(1) [OF q] shrinks_view [OF view_fail_pp_job]]] ActivatePPJob q cascade_step_def mali_scheduler_activate_pp_job_def
          bind_outcome_no_fuel)
  next
    case (TrackerPut t err)
    show ?thesis
      by (cases t)
        (auto simp: small [OF shrinks_trans [OF shrinks_dec shrinks_view [OF view_or_error]]] TrackerPut cascade_step_def mali_timeline_system_tracker_put_def Let_def)
  next
    case (SignalPPTracker j success)
    then show ?thesis
      by (auto simp: small [OF shrinks_refl] cascade_step_def mali_gp_job_signal_pp_tracker_def bind_outcome_no_fuel
          split: option.splits)
  next
    case (ActivateGPJob j)
    obtain \<sigma>1 q where q: "mali_scheduler_queue_gp_job j \<sigma> = (\<sigma>1, q)" by fastforce
    show ?thesis
      by (cases q)
        (auto simp: small [OF shrinks_queue(2) [OF q]] small [OF shrinks_trans [OF shrinks_queue(2) [OF q] shrink.R_cascade]] ActivateGPJob q cascade_step_def mali_scheduler_activate_gp_job_def
          bind_outcome_no_fuel)
  next
    case (ActivateSoftJob j)
    then show ?thesis
      by (auto simp: small [OF shrinks_refl] small [OF shrinks_view [OF same_view_trans [OF same_view_trans [OF view_soft_notify view_upd_soft] view_upd_soft]]] cascade_step_def mali_soft_job_system_activate_job_def bind_outcome_no_fuel Let_def)
  next
    case (ActivateFenceWait j)
    then show ?thesis
      by (auto simp: small [OF shrinks_view [OF view_begin_fence_wait]] cascade_step_def mali_timeline_fence_wait_activate_def bind_outcome_no_fuel)
  next
    case (TrackerActivate t)
    show ?thesis
      by (cases t)
        (auto simp: small [OF shrinks_view [OF view_begin_activation]] small [OF shrinks_view [OF same_view_trans [OF view_begin_activation view_count_tracker]]] TrackerActivate cascade_step_def mali_timeline_tracker_activate_def
          bind_outcome_no_fuel Let_def split: option.splits)
  next
    case (ReleaseWaiter t)
    show ?thesis
      by (cases t)
        (auto simp: small [OF shrinks_dec] ReleaseWaiter cascade_step_def mali_timeline_system_release_waiter_def Let_def)
  qed
qed

end
