(* ===== verification/Trigger_Counts.thy ===== *)
theory Trigger_Counts
  imports Cascade
begin

text \<open>
  Consequences of the structure of the cascade: it returns with the fuel the bound gives, more
  fuel changes nothing, and the trigger reference count of every tracker is at all times the
  number of waiters on the timelines that name it plus the number of GP jobs that hold it. A
  tracker is therefore activated when the last of these is gone, and never again.
\<close>

section \<open>More fuel gives the same result\<close>

definition refines_fuel :: "'a outcome \<Rightarrow> 'a outcome \<Rightarrow> bool" where
  "refines_fuel r r' \<longleftrightarrow> r = OutOfFuel \<or> r = r'"

lemma refines_bind:
  "refines_fuel r r' \<Longrightarrow> (\<And>x. refines_fuel (f x) (f' x)) \<Longrightarrow>
     refines_fuel (bind_outcome r f) (bind_outcome r' f')"
  by (cases r; cases r') (auto simp: refines_fuel_def)

lemma refines_refl [simp]: "refines_fuel r r"
  by (simp add: refines_fuel_def)

lemma refines_step:
  assumes "\<And>c \<sigma>. refines_fuel (rec c \<sigma>) (rec' c \<sigma>)"
  shows "refines_fuel (cascade_step rec c \<sigma>) (cascade_step rec' c \<sigma>)"
proof -
  note b = refines_bind [OF assms]
  have "refines_fuel (release_waiters rec s i \<sigma>) (release_waiters rec' s i \<sigma>)" for s i
    by (auto simp: release_waiters_def Let_def assms intro!: b split: list.split)
  moreover have "refines_fuel (mali_timeline_tracker_release rec t \<sigma>)
      (mali_timeline_tracker_release rec' t \<sigma>)" for t
    by (auto simp: mali_timeline_tracker_release_def mali_timeline_update_oldest_point_def
        Let_def assms intro!: b split: option.split)
  moreover have "refines_fuel (mali_scheduler_activate_pp_job rec j \<sigma>)
      (mali_scheduler_activate_pp_job rec' j \<sigma>)" for j
    by (auto simp: mali_scheduler_activate_pp_job_def intro!: b split: prod.split bool.split)
  moreover have "refines_fuel (mali_gp_job_signal_pp_tracker rec j k \<sigma>)
      (mali_gp_job_signal_pp_tracker rec' j k \<sigma>)" for j k
    by (auto simp: mali_gp_job_signal_pp_tracker_def intro!: b split: option.split)
  moreover have "refines_fuel (mali_scheduler_activate_gp_job rec j \<sigma>)
      (mali_scheduler_activate_gp_job rec' j \<sigma>)" for j
    by (auto simp: mali_scheduler_activate_gp_job_def intro!: b split: prod.split bool.split)
  moreover have "refines_fuel (mali_soft_job_system_activate_job rec j \<sigma>)
      (mali_soft_job_system_activate_job rec' j \<sigma>)" for j
    by (auto simp: mali_soft_job_system_activate_job_def Let_def intro!: b)
  moreover have "refines_fuel (mali_timeline_fence_wait_activate rec j \<sigma>)
      (mali_timeline_fence_wait_activate rec' j \<sigma>)" for j
    by (auto simp: mali_timeline_fence_wait_activate_def intro!: b)
  moreover have "refines_fuel (mali_timeline_tracker_activate rec t \<sigma>)
      (mali_timeline_tracker_activate rec' t \<sigma>)" for t
    by (cases t) (auto simp: mali_timeline_tracker_activate_def Let_def assms intro!: b
        split: option.split)
  ultimately show ?thesis
    by (cases c) (auto simp: cascade_step_def assms
        mali_timeline_system_tracker_put_def mali_timeline_system_release_waiter_def Let_def)
qed

lemma cascade_mono: "n \<le> n' \<Longrightarrow> refines_fuel (cascade n c \<sigma>) (cascade n' c \<sigma>)"
proof (induction n arbitrary: c \<sigma> n')
  case (Suc n)
  then obtain k where "n' = Suc k" "n \<le> k" by (cases n') auto
  with Suc.IH show ?case by (auto intro: refines_step)
qed (simp add: refines_fuel_def)

text \<open>The one NULL dereference: a soft job that is activated while it has no timeline.\<close>

definition has_line :: "gpu \<Rightarrow> tref \<Rightarrow> bool" where
  "has_line \<sigma> t \<longleftrightarrow> (case t of SoftJob j \<Rightarrow> t_timeline (g_trackers \<sigma> t) \<noteq> None | _ \<Rightarrow> True)"

definition waiters_have_lines :: "gpu \<Rightarrow> bool" where
  "waiters_have_lines \<sigma> \<longleftrightarrow> (\<forall>s i. \<forall>w\<in>set (waiters_of \<sigma> s i). has_line \<sigma> (w_tracker w))"

fun call_has_line :: "call \<Rightarrow> gpu \<Rightarrow> bool" where
  "call_has_line (TrackerActivate t) \<sigma> = has_line \<sigma> t"
| "call_has_line (ReleaseWaiter t) \<sigma> = has_line \<sigma> t"
| "call_has_line (TrackerPut t err) \<sigma> = has_line \<sigma> t"
| "call_has_line _ \<sigma> = True"

lemma shrinks_has_line: "shrinks \<sigma> \<sigma>' \<Longrightarrow> has_line \<sigma>' t = has_line \<sigma> t"
proof -
  assume "shrinks \<sigma> \<sigma>'"
  then have "identity \<sigma>' t = identity \<sigma> t" by (simp add: shrinks_def)
  then show ?thesis by (cases t) (auto simp: has_line_def identity_def Let_def)
qed

lemma shrinks_waiters_have_lines:
  "shrinks \<sigma> \<sigma>' \<Longrightarrow> waiters_have_lines \<sigma> \<Longrightarrow> waiters_have_lines \<sigma>'"
proof -
  assume s: "shrinks \<sigma> \<sigma>'" and w: "waiters_have_lines \<sigma>"
  have "set (waiters_of \<sigma>' x i) \<subseteq> set (waiters_of \<sigma> x i)" for x i
    using s by (simp add: shrinks_def set_mono_suffix)
  with w show ?thesis unfolding waiters_have_lines_def shrinks_has_line [OF s] by blast
qed

lemma shrinks_call_has_line: "shrinks \<sigma> \<sigma>' \<Longrightarrow> call_has_line c \<sigma>' = call_has_line c \<sigma>"
  by (cases c) (simp_all add: shrinks_has_line)

lemma bind_outcome_Oops:
  "bind_outcome r f = Oops \<longleftrightarrow> r = Oops \<or> (\<exists>x. r = Done x \<and> f x = Oops)"
  by (cases r) auto

lemma no_oops:
  "waiters_have_lines \<sigma> \<Longrightarrow> call_has_line c \<sigma> \<Longrightarrow> cascade n c \<sigma> \<noteq> Oops"
proof (induction n arbitrary: c \<sigma>)
  case (Suc n)
  have IH: "cascade n c' \<sigma>' \<noteq> Oops" if "shrinks \<sigma> \<sigma>'" "call_has_line c' \<sigma>" for c' \<sigma>'
    using Suc.IH [OF shrinks_waiters_have_lines [OF that(1) Suc.prems(1)]]
      that(2) shrinks_call_has_line [OF that(1)] by simp
  note after = IH [OF shrinks_trans]
  note cas = shrink.R_cascade
  note chain = shrinks_trans
  show ?case
  proof (cases c)
    case (ReleaseWaiters s i)
    have p: "shrinks \<sigma> (pop_waiter s i \<sigma>)" by (rule shrinks_pop)
    show ?thesis
    proof (cases "waiters_of \<sigma> s i")
      case (Cons w ws)
      then have "w \<in> set (waiters_of \<sigma> s i)" by simp
      then have "has_line \<sigma> (w_tracker w)" using Suc.prems(1) unfolding waiters_have_lines_def by blast
      then show ?thesis
        using Cons IH [OF p, where c' = "ReleaseWaiter (w_tracker w)"]
          IH [OF chain [OF p cas], where c' = "ReleaseWaiters s i"]
        by (auto simp: ReleaseWaiters cascade_step_def release_waiters_def waiters_of_def
            bind_outcome_Oops Let_def)
    qed (simp add: ReleaseWaiters cascade_step_def release_waiters_def waiters_of_def)
  next
    case (TrackerRelease t)
    then show ?thesis
      using IH [OF chain [OF shrinks_remove shrinks_oldest]]
      by (auto simp: cascade_step_def mali_timeline_tracker_release_def bind_outcome_Oops
          mali_timeline_update_oldest_point_def Let_def split: option.splits if_splits)
  next
    case (ActivatePPJob j)
    obtain \<sigma>1 q where q: "mali_scheduler_queue_pp_job j \<sigma> = (\<sigma>1, q)" by fastforce
    show ?thesis
      using IH [OF shrinks_view [OF view_fail_pp_job]]
        IH [OF chain [OF shrinks_queue(1) [OF q] shrinks_view [OF view_fail_pp_job]]]
      by (cases q) (auto simp: ActivatePPJob q cascade_step_def mali_scheduler_activate_pp_job_def
          bind_outcome_Oops)
  next
    case (TrackerPut t err)
    then show ?thesis
      using Suc.prems(2) IH [OF chain [OF shrinks_dec shrinks_view [OF view_or_error]]]
      by (auto simp: cascade_step_def mali_timeline_system_tracker_put_def Let_def)
  next
    case (SignalPPTracker j success)
    then show ?thesis
      using IH [OF shrinks_refl]
      by (auto simp: cascade_step_def mali_gp_job_signal_pp_tracker_def bind_outcome_Oops has_line_def
          split: option.splits)
  next
    case (ActivateGPJob j)
    obtain \<sigma>1 q where q: "mali_scheduler_queue_gp_job j \<sigma> = (\<sigma>1, q)" by fastforce
    show ?thesis
      using IH [OF shrinks_queue(2) [OF q]] IH [OF chain [OF shrinks_queue(2) [OF q] cas]]
      by (cases q) (auto simp: ActivateGPJob q cascade_step_def mali_scheduler_activate_gp_job_def
          bind_outcome_Oops)
  next
    case (ActivateSoftJob j)
    then show ?thesis
      using IH [OF shrinks_refl]
        IH [OF shrinks_view [OF same_view_trans [OF view_soft_activated view_upd_soft]]]
      by (auto simp: cascade_step_def mali_soft_job_system_activate_job_def bind_outcome_Oops Let_def)
  next
    case (ActivateFenceWait j)
    then show ?thesis
      using IH [OF shrinks_view [OF view_begin_fence_wait]]
      by (auto simp: cascade_step_def mali_timeline_fence_wait_activate_def bind_outcome_Oops)
  next
    case (TrackerActivate t)
    have l: "has_line (begin_activation t \<sigma>) t"
      using shrinks_has_line [OF shrinks_view [OF view_begin_activation], of t \<sigma> t] Suc.prems(2)
      by (simp add: TrackerActivate)
    show ?thesis
      using l IH [OF shrinks_view [OF view_begin_activation]]
        IH [OF shrinks_view [OF same_view_trans [OF view_begin_activation view_count_tracker]]]
      by (cases t) (auto simp: TrackerActivate cascade_step_def mali_timeline_tracker_activate_def
          bind_outcome_Oops Let_def has_line_def split: option.splits)
  next
    case (ReleaseWaiter t)
    then show ?thesis
      using Suc.prems(2) IH [OF shrinks_dec]
      by (auto simp: cascade_step_def mali_timeline_system_release_waiter_def Let_def)
  qed
qed simp

lemma cascade_returns:
  assumes "covers S \<sigma>" "waiters_have_lines \<sigma>" "call_has_line c \<sigma>" "fuel_for S c \<sigma> \<le> n"
  shows "\<exists>\<sigma>' m. cascade n c \<sigma> = Done (\<sigma>', m) \<and> cascade (fuel_for S c \<sigma>) c \<sigma> = Done (\<sigma>', m)"
proof -
  obtain r where r: "cascade n c \<sigma> = Done r"
    using enough_fuel [OF assms(1,4)] no_oops [OF assms(2,3), of n] by (cases "cascade n c \<sigma>") auto
  have "cascade (fuel_for S c \<sigma>) c \<sigma> = cascade n c \<sigma>"
    using enough_fuel [OF assms(1) order.refl, of c] cascade_mono [OF assms(4), of c \<sigma>]
    by (auto simp: refines_fuel_def)
  with r show ?thesis by (cases r) simp
qed

text \<open>C26: the cascade started by any call ends and returns a mask. With nine units of fuel for
  every waiter on the timelines of the sessions and the depth of the call itself, the evaluation
  neither runs out of fuel nor dereferences NULL, provided the soft jobs that wait have a timeline,
  and more fuel gives the same result.\<close>

theorem cascade_terminates:
  assumes "covers S \<sigma>" and "waiters_have_lines \<sigma>" and "call_has_line c \<sigma>"
    and "fuel_for S c \<sigma> \<le> n"
  shows "\<exists>\<sigma>' m. cascade n c \<sigma> = Done (\<sigma>', m) \<and> cascade (fuel_for S c \<sigma>) c \<sigma> = Done (\<sigma>', m)"
  by (rule cascade_returns [OF assms])

section \<open>The invariant of the trigger reference counts\<close>

definition system_of :: "gpu \<Rightarrow> tref \<Rightarrow> session_id" where
  "system_of \<sigma> t = fst (identity \<sigma> t)"

definition waits :: "gpu \<Rightarrow> tref \<Rightarrow> nat" where
  "waits \<sigma> t = (\<Sum>i\<in>{TIMELINE_GP, TIMELINE_PP, TIMELINE_SOFT}.
     length (filter (\<lambda>w. w_tracker w = t) (waiters_of \<sigma> (system_of \<sigma> t) i)))"

text \<open>\<open>D\<close> are the GP jobs that are giving back their hold, \<open>H\<close> the references that are not (or
  not any more) represented in the state: those of trackers being added and those about to be
  put.\<close>

definition holds :: "gpu \<Rightarrow> jid set \<Rightarrow> tref \<Rightarrow> nat" where
  "holds \<sigma> D t = (case t of PPJob p \<Rightarrow> card {j. j \<notin> D \<and> pp_tracker_of \<sigma> j = Some p} | _ \<Rightarrow> 0)"

definition trigger_inv :: "tref multiset \<Rightarrow> jid set \<Rightarrow> gpu \<Rightarrow> bool" where
  "trigger_inv H D \<sigma> \<longleftrightarrow>
     (\<forall>t. unat (refs \<sigma> t) = waits \<sigma> t + holds \<sigma> D t + count H t) \<and>
     (\<forall>s i. \<forall>w\<in>set (waiters_of \<sigma> s i). system_of \<sigma> (w_tracker w) = s) \<and>
     finite {j. pp_tracker_of \<sigma> j \<noteq> None} \<and> (\<forall>j\<in>D. refs \<sigma> (GPJob j) = 0)"

text \<open>The steps that change none of what the invariant speaks of.\<close>

definition same_counts :: "gpu \<Rightarrow> gpu \<Rightarrow> bool" where
  "same_counts \<sigma> \<sigma>' \<longleftrightarrow> waiters_of \<sigma>' = waiters_of \<sigma> \<and> refs \<sigma>' = refs \<sigma> \<and>
     identity \<sigma>' = identity \<sigma> \<and> pp_tracker_of \<sigma>' = pp_tracker_of \<sigma>"

lemma same_counts_inv: "same_counts \<sigma> \<sigma>' \<Longrightarrow> trigger_inv H D \<sigma>' = trigger_inv H D \<sigma>"
  unfolding same_counts_def trigger_inv_def waits_def holds_def system_of_def
  by (elim conjE) (simp only:)

lemma same_counts_refs: "same_counts \<sigma> \<sigma>' \<Longrightarrow> refs \<sigma>' = refs \<sigma>"
  by (simp add: same_counts_def)

lemma view_counts: "same_view \<sigma> \<sigma>' \<Longrightarrow> same_counts \<sigma> \<sigma>'"
  by (simp add: same_view_def same_counts_def)

lemma counts_oldest: "same_counts \<sigma> (set_oldest_point s i \<sigma>)"
  by (simp add: same_counts_def view_defs set_oldest_point_def)

lemma counts_remove: "same_counts \<sigma> (remove_tracker s i t \<sigma>)"
  by (simp add: same_counts_def view_defs remove_tracker_def)

lemma refs_dec: "refs (dec_trigger t \<sigma>) u = (if u = t then refs \<sigma> t - 1 else refs \<sigma> u)"
  by (simp add: view_defs dec_trigger_def)

lemma others_dec:
  "waiters_of (dec_trigger t \<sigma>) = waiters_of \<sigma>" "identity (dec_trigger t \<sigma>) = identity \<sigma>"
  "pp_tracker_of (dec_trigger t \<sigma>) = pp_tracker_of \<sigma>"
  by (simp_all add: view_defs dec_trigger_def)

lemma inv_dec:
  assumes "trigger_inv (add_mset t H) D \<sigma>"
  shows "trigger_inv H D (dec_trigger t \<sigma>)" and "t \<notin> GPJob ` D"
proof -
  have r: "unat (refs \<sigma> t) = waits \<sigma> t + holds \<sigma> D t + count H t + 1"
    using assms by (simp add: trigger_inv_def)
  then have "refs \<sigma> t \<noteq> 0" by auto
  then show t: "t \<notin> GPJob ` D" using assms by (auto simp: trigger_inv_def)
  have "unat (refs \<sigma> t - 1) = waits \<sigma> t + holds \<sigma> D t + count H t"
    using r by (simp add: unat_minus_u32)
  moreover have "waits (dec_trigger t \<sigma>) = waits \<sigma>" "holds (dec_trigger t \<sigma>) = holds \<sigma>"
    "system_of (dec_trigger t \<sigma>) = system_of \<sigma>"
    by (simp_all add: fun_eq_iff waits_def holds_def system_of_def others_dec split: tref.split)
  moreover have "\<forall>j\<in>D. refs (dec_trigger t \<sigma>) (GPJob j) = 0"
    using t assms by (auto simp: refs_dec trigger_inv_def)
  ultimately show "trigger_inv H D (dec_trigger t \<sigma>)"
    using assms by (auto simp: trigger_inv_def refs_dec others_dec)
qed

lemma inv_pop:
  assumes "trigger_inv H D \<sigma>" and w: "waiters_of \<sigma> s i = w # ws"
  shows "trigger_inv (add_mset (w_tracker w) H) D (pop_waiter s i \<sigma>)"
proof -
  have o: "identity (pop_waiter s i \<sigma>) = identity \<sigma>" "refs (pop_waiter s i \<sigma>) = refs \<sigma>"
    "pp_tracker_of (pop_waiter s i \<sigma>) = pp_tracker_of \<sigma>"
    by (simp_all add: view_defs pop_waiter_def)
  have "w \<in> set (waiters_of \<sigma> s i)" using w by simp
  then have sys: "system_of \<sigma> (w_tracker w) = s" using assms(1) unfolding trigger_inv_def by blast
  have so: "system_of (pop_waiter s i \<sigma>) = system_of \<sigma>"
    by (simp add: fun_eq_iff system_of_def o)
  have "waits \<sigma> t = waits (pop_waiter s i \<sigma>) t + (if t = w_tracker w then 1 else 0)" for t
    using w sys so by (cases i; cases "system_of \<sigma> t = s") (auto simp: waits_def pop_waiters_of)
  moreover have "holds (pop_waiter s i \<sigma>) = holds \<sigma>"
    by (simp add: fun_eq_iff holds_def o split: tref.split)
  moreover have "\<forall>s' i'. \<forall>v\<in>set (waiters_of (pop_waiter s i \<sigma>) s' i'). system_of \<sigma> (w_tracker v) = s'"
  proof (intro allI ballI)
    fix s' i' v assume "v \<in> set (waiters_of (pop_waiter s i \<sigma>) s' i')"
    then have "v \<in> set (waiters_of \<sigma> s' i')" using w by (auto simp: pop_waiters_of split: if_splits)
    then show "system_of \<sigma> (w_tracker v) = s'" using assms(1) unfolding trigger_inv_def by blast
  qed
  ultimately show ?thesis using assms(1) by (auto simp: trigger_inv_def o so)
qed

lemma inv_hold:
  assumes "trigger_inv H D \<sigma>" and "pp_tracker_of \<sigma> j = Some p" and "j \<notin> D"
    and "refs \<sigma> (GPJob j) = 0"
  shows "trigger_inv (add_mset (PPJob p) H) (insert j D) \<sigma>"
proof -
  have f: "finite {j. pp_tracker_of \<sigma> j \<noteq> None}" using assms(1) by (simp add: trigger_inv_def)
  have "holds \<sigma> D t = holds \<sigma> (insert j D) t + (if t = PPJob p then 1 else 0)" for t
  proof (cases t)
    case (PPJob q)
    have fin: "finite {k. k \<notin> D \<and> pp_tracker_of \<sigma> k = Some q}"
      by (rule finite_subset [OF _ f]) auto
    show ?thesis
    proof (cases "q = p")
      case True
      have "{k. k \<notin> D \<and> pp_tracker_of \<sigma> k = Some p} =
          insert j {k. k \<notin> insert j D \<and> pp_tracker_of \<sigma> k = Some p}"
        using assms(2,3) by auto
      moreover have "finite {k. k \<notin> insert j D \<and> pp_tracker_of \<sigma> k = Some p}"
        by (rule finite_subset [OF _ f]) auto
      ultimately show ?thesis using True PPJob by (simp add: holds_def)
    next
      case False
      then have "{k. k \<notin> D \<and> pp_tracker_of \<sigma> k = Some q} =
          {k. k \<notin> insert j D \<and> pp_tracker_of \<sigma> k = Some q}"
        using assms(2) by auto
      then show ?thesis using False PPJob by (simp add: holds_def)
    qed
  qed (simp_all add: holds_def)
  then show ?thesis using assms by (auto simp: trigger_inv_def)
qed

lemma inv_clear:
  assumes "trigger_inv H (insert j D) \<sigma>"
  shows "trigger_inv H D (upd_gp j (\<lambda>job. job\<lparr>gp_pp_tracker := None\<rparr>) \<sigma>)"
proof -
  let ?\<sigma> = "upd_gp j (\<lambda>job. job\<lparr>gp_pp_tracker := None\<rparr>) \<sigma>"
  have o: "identity ?\<sigma> = identity \<sigma>" "refs ?\<sigma> = refs \<sigma>" "waiters_of ?\<sigma> = waiters_of \<sigma>"
    by (simp_all add: view_defs)
  have p: "pp_tracker_of ?\<sigma> k = (if k = j then None else pp_tracker_of \<sigma> k)" for k
    by (simp add: view_defs)
  have "{k. k \<notin> D \<and> pp_tracker_of ?\<sigma> k = Some q} =
      {k. k \<notin> insert j D \<and> pp_tracker_of \<sigma> k = Some q}" for q
    by (auto simp: p)
  then have "holds ?\<sigma> D t = holds \<sigma> (insert j D) t" for t
    by (cases t) (simp_all add: holds_def)
  moreover have "{k. pp_tracker_of ?\<sigma> k \<noteq> None} \<subseteq> {k. pp_tracker_of \<sigma> k \<noteq> None}"
    by (auto simp: p)
  ultimately show ?thesis
    using assms by (auto simp: trigger_inv_def o waits_def system_of_def dest: finite_subset)
qed

text \<open>A tracker nothing refers to stays so.\<close>

lemma refs_zero_stays:
  assumes "trigger_inv H D \<sigma>" "trigger_inv H D \<sigma>'" "shrinks \<sigma> \<sigma>'" "refs \<sigma> (GPJob j) = 0"
  shows "refs \<sigma>' (GPJob j) = 0"
proof -
  have z: "unat (refs \<sigma> (GPJob j)) = waits \<sigma> (GPJob j) + holds \<sigma> D (GPJob j) + count H (GPJob j)"
    and z': "unat (refs \<sigma>' (GPJob j)) = waits \<sigma>' (GPJob j) + holds \<sigma>' D (GPJob j) + count H (GPJob j)"
    using assms(1,2) by (simp_all add: trigger_inv_def)
  have sys: "system_of \<sigma>' = system_of \<sigma>" using assms(3) by (simp add: shrinks_def system_of_def fun_eq_iff)
  have "length (filter P (waiters_of \<sigma>' s i)) \<le> length (filter P (waiters_of \<sigma> s i))" for P s i
  proof -
    obtain zs where "waiters_of \<sigma> s i = zs @ waiters_of \<sigma>' s i"
      using assms(3) unfolding shrinks_def suffix_def by blast
    then show ?thesis by simp
  qed
  then have "waits \<sigma>' (GPJob j) \<le> waits \<sigma> (GPJob j)"
    unfolding waits_def sys by (intro sum_mono) blast
  with z z' assms(4) show ?thesis by (simp add: holds_def unat_eq_0)
qed

text \<open>What holds when a call starts: the reference the call is about to drop is in \<open>H\<close>; a
  tracker is activated with its count at 0, and a GP job gives back its hold once.\<close>

fun call_pre :: "tref multiset \<Rightarrow> jid set \<Rightarrow> call \<Rightarrow> gpu \<Rightarrow> bool" where
  "call_pre H D (ReleaseWaiter t) \<sigma> = trigger_inv (add_mset t H) D \<sigma>"
| "call_pre H D (TrackerPut t err) \<sigma> = trigger_inv (add_mset t H) D \<sigma>"
| "call_pre H D (TrackerActivate t) \<sigma> = (trigger_inv H D \<sigma> \<and> refs \<sigma> t = 0 \<and> t \<notin> GPJob ` D)"
| "call_pre H D (ActivateGPJob j) \<sigma> = (trigger_inv H D \<sigma> \<and> refs \<sigma> (GPJob j) = 0 \<and> j \<notin> D)"
| "call_pre H D (SignalPPTracker j b) \<sigma> = (trigger_inv H D \<sigma> \<and> refs \<sigma> (GPJob j) = 0 \<and> j \<notin> D)"
| "call_pre H D _ \<sigma> = trigger_inv H D \<sigma>"

lemma inv_view: "same_view \<sigma> \<sigma>' \<Longrightarrow> trigger_inv H D \<sigma> \<Longrightarrow> trigger_inv H D \<sigma>'"
  using same_counts_inv view_counts by blast

lemma refs_view: "same_view \<sigma> \<sigma>' \<Longrightarrow> refs \<sigma>' = refs \<sigma>"
  by (simp add: same_view_def)

lemmas inv_oldest = same_counts_inv [OF counts_oldest, THEN iffD2]
lemmas inv_remove = same_counts_inv [OF counts_remove, THEN iffD2]

text \<open>The calls that only pass the invariant on.\<close>

lemma passing_calls:
  assumes rec: "\<And>c \<sigma> \<sigma>' m. rec c \<sigma> = Done (\<sigma>', m) \<Longrightarrow> call_pre H D c \<sigma> \<Longrightarrow> trigger_inv H D \<sigma>'"
    and pre: "trigger_inv H D \<sigma>"
  shows "mali_timeline_tracker_release rec t \<sigma> = Done (\<sigma>', m) \<Longrightarrow> trigger_inv H D \<sigma>'"
    and "mali_scheduler_activate_pp_job rec j \<sigma> = Done (\<sigma>', m) \<Longrightarrow> trigger_inv H D \<sigma>'"
    and "mali_soft_job_system_activate_job rec j \<sigma> = Done (\<sigma>', m) \<Longrightarrow> trigger_inv H D \<sigma>'"
    and "mali_timeline_fence_wait_activate rec j \<sigma> = Done (\<sigma>', m) \<Longrightarrow> trigger_inv H D \<sigma>'"
proof -
  have rel: "trigger_inv H D \<sigma>'" if "rec (TrackerRelease t) \<sigma>1 = Done (\<sigma>', m)" "trigger_inv H D \<sigma>1"
    for t \<sigma>1 \<sigma>' m using rec [OF that(1)] that(2) by simp
  have upd: "trigger_inv H D \<sigma>'"
    if "mali_timeline_update_oldest_point rec s i \<sigma>1 = Done (\<sigma>', m)" "trigger_inv H D \<sigma>1"
    for s i \<sigma>1 \<sigma>' m
    using that rec inv_oldest unfolding mali_timeline_update_oldest_point_def by fastforce
  show "mali_timeline_tracker_release rec t \<sigma> = Done (\<sigma>', m) \<Longrightarrow> trigger_inv H D \<sigma>'"
    using pre inv_remove [OF pre]
    by (auto simp: mali_timeline_tracker_release_def bind_outcome_Done Let_def
        split: option.splits if_splits dest!: upd intro: inv_view [OF view_delayed_work])
  show "mali_scheduler_activate_pp_job rec j \<sigma> = Done (\<sigma>', m) \<Longrightarrow> trigger_inv H D \<sigma>'"
  proof -
    obtain \<sigma>1 q where q: "mali_scheduler_queue_pp_job j \<sigma> = (\<sigma>1, q)" by fastforce
    then have "trigger_inv H D \<sigma>1" using inv_view [OF view_queue_pp [of \<sigma> j] pre] by simp
    then show "mali_scheduler_activate_pp_job rec j \<sigma> = Done (\<sigma>', m) \<Longrightarrow> trigger_inv H D \<sigma>'"
      using q inv_view [OF view_fail_pp_job [of \<sigma> j] pre]
      by (cases q) (auto simp: mali_scheduler_activate_pp_job_def bind_outcome_Done
          split: if_splits dest!: rel intro: inv_view [OF view_complete_pp] inv_view [OF view_fail_pp_job])
  qed
  show "mali_soft_job_system_activate_job rec j \<sigma> = Done (\<sigma>', m) \<Longrightarrow> trigger_inv H D \<sigma>'"
    using pre inv_view [OF view_soft_activated [of \<sigma> j "\<lambda>job. job\<lparr>sj_activated := True\<rparr>"] pre]
    by (auto simp: mali_soft_job_system_activate_job_def bind_outcome_Done Let_def
        split: if_splits dest!: rel
        intro: inv_view [OF view_soft_destroy] inv_view [OF view_upd_soft] inv_view [OF view_log_event])
  show "mali_timeline_fence_wait_activate rec j \<sigma> = Done (\<sigma>', m) \<Longrightarrow> trigger_inv H D \<sigma>'"
    using inv_view [OF view_begin_fence_wait [of \<sigma> j] pre]
    by (auto simp: mali_timeline_fence_wait_activate_def bind_outcome_Done
        dest!: rel intro: inv_view [OF view_put_fence_waiter])
qed

text \<open>The calls that drop references.\<close>

lemma dropping_calls:
  assumes rec: "\<And>H D c \<sigma> \<sigma>' m. rec c \<sigma> = Done (\<sigma>', m) \<Longrightarrow> call_pre H D c \<sigma> \<Longrightarrow> trigger_inv H D \<sigma>'"
    and shr: "\<And>c \<sigma> \<sigma>' m. rec c \<sigma> = Done (\<sigma>', m) \<Longrightarrow> shrinks \<sigma> \<sigma>'"
  shows "release_waiters rec s i \<sigma> = Done (\<sigma>', m) \<Longrightarrow> trigger_inv H D \<sigma> \<Longrightarrow> trigger_inv H D \<sigma>'"
    and "mali_timeline_system_release_waiter rec t \<sigma> = Done (\<sigma>', m) \<Longrightarrow>
           trigger_inv (add_mset t H) D \<sigma> \<Longrightarrow> trigger_inv H D \<sigma>'"
    and "mali_timeline_system_tracker_put rec t err \<sigma> = Done (\<sigma>', m) \<Longrightarrow>
           trigger_inv (add_mset t H) D \<sigma> \<Longrightarrow> trigger_inv H D \<sigma>'"
    and "mali_gp_job_signal_pp_tracker rec j b \<sigma> = Done (\<sigma>', m) \<Longrightarrow>
           trigger_inv H D \<sigma> \<Longrightarrow> refs \<sigma> (GPJob j) = 0 \<Longrightarrow> j \<notin> D \<Longrightarrow> trigger_inv H D \<sigma>'"
    and "mali_scheduler_activate_gp_job rec j \<sigma> = Done (\<sigma>', m) \<Longrightarrow>
           trigger_inv H D \<sigma> \<Longrightarrow> refs \<sigma> (GPJob j) = 0 \<Longrightarrow> j \<notin> D \<Longrightarrow> trigger_inv H D \<sigma>'"
    and "mali_timeline_tracker_activate rec t \<sigma> = Done (\<sigma>', m) \<Longrightarrow>
           trigger_inv H D \<sigma> \<Longrightarrow> refs \<sigma> t = 0 \<Longrightarrow> t \<notin> GPJob ` D \<Longrightarrow> trigger_inv H D \<sigma>'"
proof -
  show "trigger_inv H D \<sigma>'" if d: "release_waiters rec s i \<sigma> = Done (\<sigma>', m)" and i: "trigger_inv H D \<sigma>"
  proof (cases "waiters_of \<sigma> s i")
    case Nil
    with d i show ?thesis by (simp add: release_waiters_def waiters_of_def)
  next
    case (Cons w ws)
    show ?thesis
    proof (cases "\<sigma>' = \<sigma>")
      case False
      then obtain \<sigma>1 m1 m2 where "rec (ReleaseWaiter (w_tracker w)) (pop_waiter s i \<sigma>) = Done (\<sigma>1, m1)"
        and r: "rec (ReleaseWaiters s i) \<sigma>1 = Done (\<sigma>', m2)"
        using d Cons by (auto simp: release_waiters_def waiters_of_def bind_outcome_Done Let_def
            split: if_splits)
      then have "trigger_inv H D \<sigma>1" using rec inv_pop [OF i Cons] by fastforce
      with rec [OF r] show ?thesis by simp
    qed (use i in simp)
  qed
  show "trigger_inv H D \<sigma>'" if d: "mali_timeline_system_release_waiter rec t \<sigma> = Done (\<sigma>', m)"
    and i: "trigger_inv (add_mset t H) D \<sigma>"
    using d inv_dec [OF i] rec [of "TrackerActivate t" "dec_trigger t \<sigma>" \<sigma>' m H D]
    by (auto simp: mali_timeline_system_release_waiter_def Let_def refs_def split: if_splits)
  show "trigger_inv H D \<sigma>'" if d: "mali_timeline_system_tracker_put rec t err \<sigma> = Done (\<sigma>', m)"
    and i: "trigger_inv (add_mset t H) D \<sigma>"
  proof -
    let ?\<sigma>1 = "upd_tracker t (\<lambda>r. r\<lparr>activation_error := activation_error r OR err\<rparr>) (dec_trigger t \<sigma>)"
    have "trigger_inv H D ?\<sigma>1" by (rule inv_view [OF view_or_error inv_dec(1) [OF i]])
    then show ?thesis
      using d inv_dec(2) [OF i] rec [of "TrackerActivate t" ?\<sigma>1 \<sigma>' m H D]
      by (auto simp: mali_timeline_system_tracker_put_def Let_def refs_def split: if_splits)
  qed
  have signal: "trigger_inv H D \<sigma>'" if d: "mali_gp_job_signal_pp_tracker rec j b \<sigma> = Done (\<sigma>', m)"
    and i: "trigger_inv H D \<sigma>" "refs \<sigma> (GPJob j) = 0" "j \<notin> D" for H D \<sigma> \<sigma>' m
  proof (cases "pp_tracker_of \<sigma> j")
    case None
    with d i show ?thesis by (simp add: mali_gp_job_signal_pp_tracker_def pp_tracker_of_def)
  next
    case (Some p)
    then obtain \<sigma>1 m1 where r: "rec (TrackerPut (PPJob p) (if \<not> b then 1 else 0)) \<sigma> = Done (\<sigma>1, m1)"
      and e: "\<sigma>' = upd_gp j (\<lambda>job. job\<lparr>gp_pp_tracker := None\<rparr>) \<sigma>1"
      using d by (auto simp: mali_gp_job_signal_pp_tracker_def pp_tracker_of_def bind_outcome_Done)
    have "trigger_inv H (insert j D) \<sigma>1"
      using rec [OF r, of H "insert j D"] inv_hold [OF i(1) Some i(3,2)] by simp
    then show ?thesis unfolding e by (rule inv_clear)
  qed
  show "trigger_inv H D \<sigma>'" if "mali_gp_job_signal_pp_tracker rec j b \<sigma> = Done (\<sigma>', m)"
    and "trigger_inv H D \<sigma>" "refs \<sigma> (GPJob j) = 0" "j \<notin> D"
    using signal that by blast
  show "trigger_inv H D \<sigma>'" if d: "mali_scheduler_activate_gp_job rec j \<sigma> = Done (\<sigma>', m)"
    and i: "trigger_inv H D \<sigma>" "refs \<sigma> (GPJob j) = 0" "j \<notin> D"
  proof -
    obtain \<sigma>1 q where q: "mali_scheduler_queue_gp_job j \<sigma> = (\<sigma>1, q)" by fastforce
    then have v: "same_view \<sigma> \<sigma>1" using view_queue_gp [of \<sigma> j] by simp
    have i1: "trigger_inv H D \<sigma>1" and r1: "refs \<sigma>1 (GPJob j) = 0"
      using inv_view [OF v i(1)] refs_view [OF v] i(2) by simp_all
    show ?thesis
    proof (cases q)
      case True
      with d q i1 show ?thesis by (simp add: mali_scheduler_activate_gp_job_def)
    next
      case False
      then obtain \<sigma>2 m2 \<sigma>3 m3 where a: "rec (TrackerRelease (GPJob j)) \<sigma>1 = Done (\<sigma>2, m2)"
        and b: "rec (SignalPPTracker j False) \<sigma>2 = Done (\<sigma>3, m3)"
        and e: "\<sigma>' = mali_scheduler_complete_gp_job j False True False \<sigma>3"
        using d q by (auto simp: mali_scheduler_activate_gp_job_def bind_outcome_Done)
      have i2: "trigger_inv H D \<sigma>2" using rec [OF a] i1 by simp
      have "refs \<sigma>2 (GPJob j) = 0" by (rule refs_zero_stays [OF i1 i2 shr [OF a] r1])
      then have "trigger_inv H D \<sigma>3" using rec [OF b] i2 i(3) by simp
      then show ?thesis unfolding e by (rule inv_view [OF view_complete_gp])
    qed
  qed
  show "trigger_inv H D \<sigma>'" if d: "mali_timeline_tracker_activate rec t \<sigma> = Done (\<sigma>', m)"
    and i: "trigger_inv H D \<sigma>" "refs \<sigma> t = 0" "t \<notin> GPJob ` D"
  proof -
    let ?\<sigma>1 = "begin_activation t \<sigma>"
    have b: "trigger_inv H D ?\<sigma>1" "refs ?\<sigma>1 t = 0"
      using inv_view [OF view_begin_activation i(1)] refs_view [OF view_begin_activation] i(2) by simp_all
    show ?thesis
    proof (cases t)
      case (GPJob j)
      then obtain \<sigma>2 m2 where r: "rec (ActivateGPJob j) ?\<sigma>1 = Done (\<sigma>2, m2)"
        and e: "\<sigma>' = count_tracker t (\<lambda>k. k - 1) \<sigma>2"
        using d by (auto simp: mali_timeline_tracker_activate_def bind_outcome_Done Let_def)
      have "trigger_inv H D \<sigma>2" using rec [OF r] b i(3) GPJob by auto
      then show ?thesis unfolding e by (rule inv_view [OF view_count_tracker])
    next
      case (PPJob j)
      then show ?thesis
        using d rec [of "ActivatePPJob j"] inv_view [OF view_count_tracker b(1)]
        by (fastforce simp: mali_timeline_tracker_activate_def Let_def)
    next
      case (SoftJob j)
      then obtain \<sigma>2 m2 i' s where r: "rec (ActivateSoftJob j) ?\<sigma>1 = Done (\<sigma>2, m2)"
        and e: "\<sigma>' = mali_timeline_update_delayed_work s i' \<sigma>2"
        using d by (auto simp: mali_timeline_tracker_activate_def bind_outcome_Done Let_def
            split: option.splits)
      have "trigger_inv H D \<sigma>2" using rec [OF r] b by simp
      then show ?thesis unfolding e by (rule inv_view [OF view_delayed_work])
    next
      case (FenceWait j)
      then obtain m2 where r: "rec (ActivateFenceWait j) ?\<sigma>1 = Done (\<sigma>', m2)"
        using d by (auto simp: mali_timeline_tracker_activate_def bind_outcome_Done Let_def)
      with rec [OF r] b show ?thesis by simp
    qed
  qed
qed

lemma cascade_inv:
  "cascade n c \<sigma> = Done (\<sigma>', m) \<Longrightarrow> call_pre H D c \<sigma> \<Longrightarrow> trigger_inv H D \<sigma>'"
proof (induction n arbitrary: H D c \<sigma> \<sigma>' m)
  case (Suc n)
  note p = passing_calls [of "cascade n" H D, OF Suc.IH]
  note d = dropping_calls [of "cascade n", OF Suc.IH shrink.R_cascade]
  from Suc.prems show ?case
    by (cases c) (auto simp: cascade_step_def intro: p d)
qed simp

end
