(* ===== verification/Timeline_Windows.thy ===== *)
theory Timeline_Windows
  imports Trigger_Counts
begin

text \<open>
  The windows of the timelines through a cascade: the oldest point is always that of the oldest
  tracker, the points of the trackers ascend within the window, waiters are kept in the order of
  their points, none is released while its point is on the timeline, and none is left behind
  when its point has been released.
\<close>

section \<open>Offsets from a base point\<close>

definition off :: "timeline_point \<Rightarrow> timeline_point \<Rightarrow> nat" where
  "off base p = unat (p - base)"

lemma off_rebase: "off b q \<le> off b p \<Longrightarrow> off q p = off b p - off b q"
proof -
  assume l: "off b q \<le> off b p"
  have "p - q = (p - b) - (q - b)" by simp
  with l show ?thesis unfolding off_def by (simp only: unat_minus_u32 if_True)
qed

lemma off_rebase_far: "off b p < off b q \<Longrightarrow> off q p = off b p + 4294967296 - off b q"
proof -
  assume l: "off b p < off b q"
  then have n: "\<not> off b q \<le> off b p" by simp
  have "p - q = (p - b) - (q - b)" by simp
  with n show ?thesis unfolding off_def by (simp only: unat_minus_u32 if_False)
qed

lemma off_self [simp]: "off b b = 0"
  by (simp add: off_def)

text \<open>Less than a window from the base, a point is on a timeline when it is not before the
  oldest point.\<close>

lemma on_iff_off:
  assumes "off b o' \<le> off b nx" "off b nx \<le> 65537" "off b p < off b nx"
  shows "p - o' < nx - o' \<longleftrightarrow> off b o' \<le> off b p"
proof -
  have n: "off o' nx = off b nx - off b o'" using assms(1) by (rule off_rebase)
  have "p - o' < nx - o' \<longleftrightarrow> off o' p < off o' nx" by (simp add: off_def word_less_nat_alt)
  also have "\<dots> \<longleftrightarrow> off b o' \<le> off b p"
  proof (cases "off b o' \<le> off b p")
    case True
    then show ?thesis using off_rebase [OF True] n assms by simp
  next
    case False
    then have "off o' p = off b p + 4294967296 - off b o'" by (intro off_rebase_far) simp
    then show ?thesis using n assms False by simp
  qed
  finally show ?thesis .
qed

section \<open>The invariant of the timelines\<close>

definition point_of :: "gpu \<Rightarrow> tref \<Rightarrow> timeline_point" where
  "point_of \<sigma> t = t_point (g_trackers \<sigma> t)"

text \<open>The points \<open>ps\<close> of the trackers of a timeline, oldest first, in a window.\<close>

definition fits :: "timeline_point \<Rightarrow> timeline_point \<Rightarrow> timeline_point list \<Rightarrow> bool" where
  "fits o1 nx ps \<longleftrightarrow> nx \<noteq> NO_POINT \<and> off o1 nx \<le> 65537 \<and>
     o1 = (if ps = [] then nx else hd ps) \<and>
     sorted_wrt (<) (map (off o1) ps) \<and> (\<forall>p\<in>set ps. off o1 p < off o1 nx)"

lemma fits_none: "nx \<noteq> NO_POINT \<Longrightarrow> fits nx nx []"
  by (simp add: fits_def)

lemma fits_tail:
  assumes "fits o1 nx (p # q # ps)"
  shows "fits q nx (q # ps)" and "off o1 q \<le> off o1 nx"
proof -
  have r: "off q r = off o1 r - off o1 q" if "r \<in> {nx, q} \<union> set ps" for r
    using assms that by (intro off_rebase) (auto simp: fits_def)
  have "sorted_wrt (<) (map (\<lambda>r. off o1 r - off o1 q) (q # ps))"
  proof -
    have "sorted_wrt (\<lambda>x y. off o1 x < off o1 y) (q # ps)" and "\<forall>r\<in>set (q # ps). off o1 q \<le> off o1 r"
      using assms by (auto simp: fits_def sorted_wrt_map)
    then show ?thesis
      unfolding sorted_wrt_map by (auto elim!: sorted_wrt_mono_rel [rotated])
  qed
  then have "sorted_wrt (<) (map (off q) (q # ps))" using r by (simp cong: map_cong)
  moreover have "off q r < off q nx" if "r \<in> set (q # ps)" for r
    using assms that r by (auto simp: fits_def)
  ultimately show "fits q nx (q # ps)" using assms r [of nx] by (auto simp: fits_def)
  show "off o1 q \<le> off o1 nx" using assms by (auto simp: fits_def)
qed

lemma subseq_subset: "subseq xs ys \<Longrightarrow> set xs \<subseteq> set ys"
  by (induction rule: list_emb.induct) auto

lemma subseq_sorted_wrt: "subseq xs ys \<Longrightarrow> sorted_wrt P ys \<Longrightarrow> sorted_wrt P xs"
proof (induction rule: list_emb.induct)
  case (list_emb_Cons2 x y xs ys)
  then show ?case by (auto dest: subseq_subset)
qed auto

lemma fits_inner:
  assumes "fits o1 nx (p # ps)" and "subseq qs ps"
  shows "fits o1 nx (p # qs)"
proof -
  have "subseq (map (off o1) (p # qs)) (map (off o1) (p # ps))"
    using assms(2) by (intro subseq_map) simp
  then have "sorted_wrt (<) (map (off o1) (p # qs))"
    using assms(1) unfolding fits_def by (blast intro: subseq_sorted_wrt)
  moreover have "set qs \<subseteq> set ps" using assms(2) by (rule subseq_subset)
  ultimately show ?thesis using assms(1) by (auto simp: fits_def)
qed

definition trackers_ok :: "gpu \<Rightarrow> session_id \<Rightarrow> timeline_id \<Rightarrow> bool" where
  "trackers_ok \<sigma> s i \<longleftrightarrow>
     fits (oldest_of \<sigma> s i) (next_of \<sigma> s i) (map (point_of \<sigma>) (trackers_of \<sigma> s i)) \<and>
     (\<forall>t\<in>set (trackers_of \<sigma> s i).
        t_system (g_trackers \<sigma> t) = s \<and> t_timeline (g_trackers \<sigma> t) = Some i)"

text \<open>Seen from a base at most a window before the next point, the waiters ascend.\<close>

definition waiters_from :: "timeline_point \<Rightarrow> gpu \<Rightarrow> session_id \<Rightarrow> timeline_id \<Rightarrow> bool" where
  "waiters_from b \<sigma> s i \<longleftrightarrow>
     off b (next_of \<sigma> s i) \<le> 65537 \<and> off b (oldest_of \<sigma> s i) \<le> off b (next_of \<sigma> s i) \<and>
     sorted (map (\<lambda>w. off b (w_point w)) (waiters_of \<sigma> s i)) \<and>
     (\<forall>w\<in>set (waiters_of \<sigma> s i). off b (w_point w) < off b (next_of \<sigma> s i))"

definition on_line :: "gpu \<Rightarrow> session_id \<Rightarrow> timeline_id \<Rightarrow> timeline_point \<Rightarrow> bool" where
  "on_line \<sigma> s i p \<longleftrightarrow> mali_timeline_is_point_on (the_timeline \<sigma> s i) p"

lemma on_line_iff: "on_line \<sigma> s i p \<longleftrightarrow> p - oldest_of \<sigma> s i < next_of \<sigma> s i - oldest_of \<sigma> s i"
  by (simp add: on_line_def mali_timeline_is_point_on_def oldest_of_def next_of_def)

lemma on_line_off:
  "waiters_from b \<sigma> s i \<Longrightarrow> off b p < off b (next_of \<sigma> s i) \<Longrightarrow>
     on_line \<sigma> s i p \<longleftrightarrow> off b (oldest_of \<sigma> s i) \<le> off b p"
  unfolding on_line_iff waiters_from_def by (intro on_iff_off) auto

text \<open>The relation of a cascade: the invariant of the trackers is kept; the oldest points move
  on; the waiters gone are those of points before the oldest.\<close>

definition moves_on :: "gpu \<Rightarrow> gpu \<Rightarrow> bool" where
  "moves_on \<sigma> \<sigma>' \<longleftrightarrow> (\<forall>s i. trackers_ok \<sigma> s i) \<longrightarrow> (\<forall>s i. trackers_ok \<sigma>' s i) \<and>
     (\<forall>s i b. waiters_from b \<sigma> s i \<longrightarrow> waiters_from b \<sigma>' s i \<and>
        next_of \<sigma>' s i = next_of \<sigma> s i \<and> off b (oldest_of \<sigma> s i) \<le> off b (oldest_of \<sigma>' s i) \<and>
        (\<exists>gone. waiters_of \<sigma> s i = gone @ waiters_of \<sigma>' s i \<and>
           (\<forall>w\<in>set gone. off b (w_point w) < off b (oldest_of \<sigma>' s i))))"

lemma moves_on_trans: "moves_on \<sigma> \<sigma>1 \<Longrightarrow> moves_on \<sigma>1 \<sigma>2 \<Longrightarrow> moves_on \<sigma> \<sigma>2"
proof -
  assume a: "moves_on \<sigma> \<sigma>1" and b: "moves_on \<sigma>1 \<sigma>2"
  show "moves_on \<sigma> \<sigma>2"
    unfolding moves_on_def
  proof (intro impI conjI allI)
    assume t: "\<forall>s i. trackers_ok \<sigma> s i"
    then have t1: "\<forall>s i. trackers_ok \<sigma>1 s i" using a unfolding moves_on_def by blast
    then show "trackers_ok \<sigma>2 s i" for s i using b unfolding moves_on_def by blast
    fix s i base
    assume w: "waiters_from base \<sigma> s i"
    have "waiters_from base \<sigma>1 s i \<and> next_of \<sigma>1 s i = next_of \<sigma> s i \<and>
        off base (oldest_of \<sigma> s i) \<le> off base (oldest_of \<sigma>1 s i) \<and>
        (\<exists>gone. waiters_of \<sigma> s i = gone @ waiters_of \<sigma>1 s i \<and>
           (\<forall>w\<in>set gone. off base (w_point w) < off base (oldest_of \<sigma>1 s i)))"
      using a t w unfolding moves_on_def by blast
    then obtain g1 where w1: "waiters_from base \<sigma>1 s i" and n1: "next_of \<sigma>1 s i = next_of \<sigma> s i"
      and o1: "off base (oldest_of \<sigma> s i) \<le> off base (oldest_of \<sigma>1 s i)"
      and g1: "waiters_of \<sigma> s i = g1 @ waiters_of \<sigma>1 s i"
        "\<forall>w\<in>set g1. off base (w_point w) < off base (oldest_of \<sigma>1 s i)" by blast
    have "waiters_from base \<sigma>2 s i \<and> next_of \<sigma>2 s i = next_of \<sigma>1 s i \<and>
        off base (oldest_of \<sigma>1 s i) \<le> off base (oldest_of \<sigma>2 s i) \<and>
        (\<exists>gone. waiters_of \<sigma>1 s i = gone @ waiters_of \<sigma>2 s i \<and>
           (\<forall>w\<in>set gone. off base (w_point w) < off base (oldest_of \<sigma>2 s i)))"
      using b t1 w1 unfolding moves_on_def by blast
    then obtain g2 where w2: "waiters_from base \<sigma>2 s i" and n2: "next_of \<sigma>2 s i = next_of \<sigma>1 s i"
      and o2: "off base (oldest_of \<sigma>1 s i) \<le> off base (oldest_of \<sigma>2 s i)"
      and g2: "waiters_of \<sigma>1 s i = g2 @ waiters_of \<sigma>2 s i"
        "\<forall>w\<in>set g2. off base (w_point w) < off base (oldest_of \<sigma>2 s i)" by blast
    show "waiters_from base \<sigma>2 s i" by (rule w2)
    show "next_of \<sigma>2 s i = next_of \<sigma> s i" using n1 n2 by simp
    show "off base (oldest_of \<sigma> s i) \<le> off base (oldest_of \<sigma>2 s i)" using o1 o2 by linarith
    show "\<exists>gone. waiters_of \<sigma> s i = gone @ waiters_of \<sigma>2 s i \<and>
        (\<forall>w\<in>set gone. off base (w_point w) < off base (oldest_of \<sigma>2 s i))"
      using g1 g2 o2 by (intro exI [of _ "g1 @ g2"]) force
  qed
qed

text \<open>Steps that leave windows, trackers and waiters as they are.\<close>

definition same_lines :: "gpu \<Rightarrow> gpu \<Rightarrow> bool" where
  "same_lines \<sigma> \<sigma>' \<longleftrightarrow> waiters_of \<sigma>' = waiters_of \<sigma> \<and> trackers_of \<sigma>' = trackers_of \<sigma> \<and>
     next_of \<sigma>' = next_of \<sigma> \<and> oldest_of \<sigma>' = oldest_of \<sigma> \<and> identity \<sigma>' = identity \<sigma>"

lemma identity_fields:
  "t_system (g_trackers \<sigma> t) = fst (identity \<sigma> t)"
  "t_timeline (g_trackers \<sigma> t) = fst (snd (identity \<sigma> t))"
  "point_of \<sigma> t = fst (snd (snd (identity \<sigma> t)))"
  by (simp_all add: identity_def Let_def point_of_def)

lemma same_lines_moves_on: "same_lines \<sigma> \<sigma>' \<Longrightarrow> moves_on \<sigma> \<sigma>'"
proof -
  assume s: "same_lines \<sigma> \<sigma>'"
  have p: "point_of \<sigma>' = point_of \<sigma>" using s by (simp add: fun_eq_iff same_lines_def identity_fields)
  have "trackers_ok \<sigma>' = trackers_ok \<sigma>"
    using s by (simp add: fun_eq_iff trackers_ok_def p same_lines_def identity_fields)
  moreover have "waiters_from b \<sigma>' = waiters_from b \<sigma>" for b
    using s by (simp add: fun_eq_iff waiters_from_def same_lines_def)
  ultimately show ?thesis using s by (simp add: moves_on_def same_lines_def)
qed

lemma lines_view: "same_view \<sigma> \<sigma>' \<Longrightarrow> same_lines \<sigma> \<sigma>'"
  by (simp add: same_view_def same_lines_def)

lemma lines_dec: "same_lines \<sigma> (dec_trigger t \<sigma>)"
  by (simp add: same_lines_def view_defs dec_trigger_def)

lemma lines_clear: "same_lines \<sigma> (upd_gp j (\<lambda>job. job\<lparr>gp_pp_tracker := None\<rparr>) \<sigma>)"
  by (simp add: same_lines_def view_defs)

section \<open>The steps that move windows\<close>

lemma pop_lines:
  "trackers_of (pop_waiter s i \<sigma>) = trackers_of \<sigma>" "next_of (pop_waiter s i \<sigma>) = next_of \<sigma>"
  "oldest_of (pop_waiter s i \<sigma>) = oldest_of \<sigma>" "g_trackers (pop_waiter s i \<sigma>) = g_trackers \<sigma>"
  by (simp_all add: view_defs pop_waiter_def)

lemma moves_on_pop:
  assumes w: "waiters_of \<sigma> s i = w # ws"
    and off: "\<not> mali_timeline_is_point_on (the_timeline \<sigma> s i) (w_point w)"
  shows "moves_on \<sigma> (pop_waiter s i \<sigma>)"
proof -
  let ?\<sigma> = "pop_waiter s i \<sigma>"
  have "point_of ?\<sigma> = point_of \<sigma>" by (intro ext) (simp add: point_of_def pop_lines)
  then have t: "trackers_ok ?\<sigma> = trackers_ok \<sigma>"
    by (intro ext) (simp add: trackers_ok_def pop_lines)
  have "waiters_from b ?\<sigma> s' i' \<and> (\<exists>gone. waiters_of \<sigma> s' i' = gone @ waiters_of ?\<sigma> s' i' \<and>
      (\<forall>v\<in>set gone. off b (w_point v) < off b (oldest_of \<sigma> s' i')))"
    if b: "waiters_from b \<sigma> s' i'" for b s' i'
  proof (cases "s' = s \<and> i' = i")
    case True
    have "\<not> on_line \<sigma> s i (w_point w)" using off by (simp add: on_line_def)
    moreover have "off b (w_point w) < off b (next_of \<sigma> s i)"
      using b w True by (auto simp: waiters_from_def)
    ultimately have "off b (w_point w) < off b (oldest_of \<sigma> s i)"
      using on_line_off [of b \<sigma> s i "w_point w"] b True by auto
    moreover have "waiters_from b ?\<sigma> s i"
      using b w True by (auto simp: waiters_from_def pop_lines pop_waiters_of)
    ultimately show ?thesis using True w by (intro conjI exI [of _ "[w]"]) (auto simp: pop_waiters_of)
  next
    case False
    then show ?thesis using b by (auto simp: waiters_from_def pop_lines pop_waiters_of)
  qed
  then show ?thesis unfolding moves_on_def by (simp add: t pop_lines)
qed

lemma remove_lines:
  "trackers_of (remove_tracker s i t \<sigma>) s' i' =
     (if s' = s \<and> i' = i then unlink_tracker t (trackers_of \<sigma> s i) else trackers_of \<sigma> s' i')"
  "waiters_of (remove_tracker s i t \<sigma>) = waiters_of \<sigma>"
  "next_of (remove_tracker s i t \<sigma>) = next_of \<sigma>" "oldest_of (remove_tracker s i t \<sigma>) = oldest_of \<sigma>"
  "g_trackers (remove_tracker s i t \<sigma>) = g_trackers \<sigma>"
  by (simp_all add: view_defs remove_tracker_def)

lemma oldest_lines:
  "trackers_of (set_oldest_point s i \<sigma>) = trackers_of \<sigma>"
  "waiters_of (set_oldest_point s i \<sigma>) = waiters_of \<sigma>"
  "next_of (set_oldest_point s i \<sigma>) = next_of \<sigma>"
  "g_trackers (set_oldest_point s i \<sigma>) = g_trackers \<sigma>"
  "oldest_of (set_oldest_point s i \<sigma>) s' i' =
     (if s' = s \<and> i' = i
      then (case trackers_of \<sigma> s i of t # _ \<Rightarrow> point_of \<sigma> t | [] \<Rightarrow> next_of \<sigma> s i)
      else oldest_of \<sigma> s' i')"
  by (simp_all add: view_defs set_oldest_point_def point_of_def split: list.split)

lemma fits_next_nonzero: "fits o1 nx ps \<Longrightarrow> nx \<noteq> NO_POINT"
  by (simp add: fits_def)

text \<open>Moving the oldest point of one timeline on within its window.\<close>

lemma waiters_from_advance:
  assumes "waiters_from b \<sigma> s i" and "off (oldest_of \<sigma> s i) o2 \<le> off (oldest_of \<sigma> s i) (next_of \<sigma> s i)"
  shows "off b (oldest_of \<sigma> s i) \<le> off b o2" and "off b o2 \<le> off b (next_of \<sigma> s i)"
proof -
  let ?o = "oldest_of \<sigma> s i"
  let ?n = "next_of \<sigma> s i"
  have b: "off b ?o \<le> off b ?n" "off b ?n \<le> 65537" using assms(1) by (simp_all add: waiters_from_def)
  have n: "off ?o ?n = off b ?n - off b ?o" by (rule off_rebase [OF b(1)])
  have "off b o2 = off b ?o + off ?o o2"
  proof -
    have "o2 - b = (?o - b) + (o2 - ?o)" by simp
    moreover have "unat (?o - b) + unat (o2 - ?o) < 4294967296"
      using b n assms(2) unfolding off_def by linarith
    ultimately show ?thesis unfolding off_def by (simp only: unat_plus_u32 if_True)
  qed
  then show "off b ?o \<le> off b o2" "off b o2 \<le> off b ?n" using b n assms(2) by linarith+
qed

lemma moves_on_remove_tail:
  assumes tail: "is_tail_tracker t (trackers_of \<sigma> s i)"
  shows "moves_on \<sigma> (set_oldest_point s i (remove_tracker s i t \<sigma>))"
proof -
  let ?\<sigma> = "set_oldest_point s i (remove_tracker s i t \<sigma>)"
  define ts where "ts = unlink_tracker t (trackers_of \<sigma> s i)"
  have ts: "trackers_of ?\<sigma> s' i' = (if s' = s \<and> i' = i then ts else trackers_of \<sigma> s' i')" for s' i'
    by (simp add: oldest_lines remove_lines ts_def)
  have pt: "point_of ?\<sigma> = point_of \<sigma>" "g_trackers ?\<sigma> = g_trackers \<sigma>"
    by (simp_all add: fun_eq_iff point_of_def oldest_lines remove_lines)
  define o2 where "o2 = (case ts of u # _ \<Rightarrow> point_of \<sigma> u | [] \<Rightarrow> next_of \<sigma> s i)"
  have o2: "oldest_of ?\<sigma> s' i' = (if s' = s \<and> i' = i then o2 else oldest_of \<sigma> s' i')" for s' i'
    by (simp add: oldest_lines remove_lines o2_def ts_def point_of_def split: list.split)
  have other: "next_of ?\<sigma> = next_of \<sigma>" "waiters_of ?\<sigma> = waiters_of \<sigma>"
    by (simp_all add: oldest_lines remove_lines)
  show ?thesis
    unfolding moves_on_def
  proof (intro impI)
    assume ok: "\<forall>s i. trackers_ok \<sigma> s i"
    then have f: "fits (oldest_of \<sigma> s i) (next_of \<sigma> s i) (map (point_of \<sigma>) (trackers_of \<sigma> s i))"
      by (simp add: trackers_ok_def)
    consider (empty) "ts = []" | (more) v rest where "trackers_of \<sigma> s i = v # ts" "ts = rest" "rest \<noteq> []"
    proof (cases "t \<in> set (trackers_of \<sigma> s i)")
      case True
      with tail obtain rest where "trackers_of \<sigma> s i = t # rest"
        by (auto simp: is_tail_tracker_def split: list.splits)
      moreover from this have "ts = rest" by (simp add: ts_def unlink_tracker_def)
      ultimately show ?thesis using empty more by blast
    next
      case False
      then show ?thesis using empty by (simp add: ts_def unlink_tracker_def)
    qed
    then have new: "fits o2 (next_of \<sigma> s i) (map (point_of \<sigma>) ts) \<and>
        off (oldest_of \<sigma> s i) o2 \<le> off (oldest_of \<sigma> s i) (next_of \<sigma> s i)"
    proof cases
      case empty
      then show ?thesis using fits_none fits_next_nonzero [OF f] by (simp add: o2_def)
    next
      case more
      then obtain u us where u: "ts = u # us" by (cases ts) auto
      with more(1) f have "fits (oldest_of \<sigma> s i) (next_of \<sigma> s i)
          (point_of \<sigma> v # point_of \<sigma> u # map (point_of \<sigma>) us)" by simp
      from fits_tail [OF this] u show ?thesis by (simp add: o2_def)
    qed
    have sub: "set ts \<subseteq> set (trackers_of \<sigma> s i)"
      unfolding ts_def unlink_tracker_def using set_remove1_subset by fastforce
    have "trackers_ok ?\<sigma> s' i'" for s' i'
      using ok new sub by (auto simp: trackers_ok_def ts pt o2 other)
    moreover have "waiters_from b ?\<sigma> s' i' \<and> off b (oldest_of \<sigma> s' i') \<le> off b (oldest_of ?\<sigma> s' i')"
      if "waiters_from b \<sigma> s' i'" for b s' i'
      using that waiters_from_advance [of b \<sigma> s i o2] new
      by (auto simp: waiters_from_def o2 other)
    ultimately show "(\<forall>s i. trackers_ok ?\<sigma> s i) \<and>
        (\<forall>s i b. waiters_from b \<sigma> s i \<longrightarrow> waiters_from b ?\<sigma> s i \<and> next_of ?\<sigma> s i = next_of \<sigma> s i \<and>
          off b (oldest_of \<sigma> s i) \<le> off b (oldest_of ?\<sigma> s i) \<and>
          (\<exists>gone. waiters_of \<sigma> s i = gone @ waiters_of ?\<sigma> s i \<and>
             (\<forall>w\<in>set gone. off b (w_point w) < off b (oldest_of ?\<sigma> s i))))"
      by (auto simp: other)
  qed
qed

lemma moves_on_remove:
  assumes inner: "\<not> is_tail_tracker t (trackers_of \<sigma> s i)"
  shows "moves_on \<sigma> (remove_tracker s i t \<sigma>)"
proof -
  let ?\<sigma> = "remove_tracker s i t \<sigma>"
  obtain u us where ts: "trackers_of \<sigma> s i = u # us" "u \<noteq> t" "t \<in> set us"
    using inner by (auto simp: is_tail_tracker_def split: list.splits)
  then have ts': "unlink_tracker t (trackers_of \<sigma> s i) = u # remove1 t us"
    by (simp add: unlink_tracker_def)
  have pt: "point_of ?\<sigma> = point_of \<sigma>" by (simp add: fun_eq_iff point_of_def remove_lines)
  have "trackers_ok ?\<sigma> s' i'" if ok: "\<forall>s i. trackers_ok \<sigma> s i" for s' i'
  proof (cases "s' = s \<and> i' = i")
    case True
    have f: "fits (oldest_of \<sigma> s i) (next_of \<sigma> s i) (point_of \<sigma> u # map (point_of \<sigma>) us)"
      using ok ts(1) by (metis list.simps(9) trackers_ok_def)
    have "subseq (map (point_of \<sigma>) (remove1 t us)) (map (point_of \<sigma>) us)"
      by (intro subseq_map subseq_remove1)
    with f have "fits (oldest_of \<sigma> s i) (next_of \<sigma> s i) (point_of \<sigma> u # map (point_of \<sigma>) (remove1 t us))"
      by (rule fits_inner)
    moreover have "set (remove1 t us) \<subseteq> set us" by (rule set_remove1_subset)
    ultimately show ?thesis
      using ok [rule_format, of s i] True ts(1) ts' by (auto simp: trackers_ok_def remove_lines pt)
  qed (use ok in \<open>auto simp: trackers_ok_def remove_lines pt\<close>)
  then show ?thesis
    unfolding moves_on_def by (auto simp: waiters_from_def remove_lines)
qed

interpretation windows: cascade_relation moves_on
  by unfold_locales
    (blast intro: moves_on_trans same_lines_moves_on lines_view lines_dec lines_clear
      moves_on_pop moves_on_remove_tail moves_on_remove)+

section \<open>What a cascade does to the timelines\<close>

lemma waiters_from_oldest:
  assumes "\<forall>w\<in>set (waiters_of \<sigma> s i). on_line \<sigma> s i (w_point w)"
    and "sorted (map (\<lambda>w. off (oldest_of \<sigma> s i) (w_point w)) (waiters_of \<sigma> s i))"
    and "trackers_ok \<sigma> s i"
  shows "waiters_from (oldest_of \<sigma> s i) \<sigma> s i"
  using assms
  by (auto simp: waiters_from_def trackers_ok_def fits_def on_line_iff off_def word_less_nat_alt)

text \<open>Whatever the call, the cascade keeps every timeline consistent: its oldest point is the
  point of its oldest tracker (its next point when it has none), and the points of its trackers
  ascend inside the window.\<close>

theorem cascade_keeps_timelines:
  assumes "\<forall>s i. trackers_ok \<sigma> s i" and "cascade n c \<sigma> = Done (\<sigma>', m)"
  shows "(\<forall>s i. trackers_ok \<sigma>' s i) \<and>
         (\<forall>s i. oldest_of \<sigma>' s i =
            (case trackers_of \<sigma>' s i of t # _ \<Rightarrow> point_of \<sigma>' t | [] \<Rightarrow> next_of \<sigma>' s i))"
proof -
  have ok: "\<forall>s i. trackers_ok \<sigma>' s i"
    using windows.R_cascade [OF assms(2)] assms(1) unfolding moves_on_def by blast
  have "oldest_of \<sigma>' s i = (case trackers_of \<sigma>' s i of t # _ \<Rightarrow> point_of \<sigma>' t | [] \<Rightarrow> next_of \<sigma>' s i)"
    for s i
    using ok [rule_format, of s i] by (cases "trackers_of \<sigma>' s i") (auto simp: trackers_ok_def fits_def)
  with ok show ?thesis by blast
qed

text \<open>C27: a cascade releases waiters in the order of their points and never too early: those it
  has taken off a timeline are the first ones, and their points are no longer on the timeline.\<close>

theorem cascade_releases_in_order:
  assumes "\<forall>s i. trackers_ok \<sigma> s i" and "waiters_from b \<sigma> s i" and "cascade n c \<sigma> = Done (\<sigma>', m)"
  shows "\<exists>gone. waiters_of \<sigma> s i = gone @ waiters_of \<sigma>' s i \<and>
           (\<forall>w\<in>set gone. \<not> on_line \<sigma>' s i (w_point w))"
proof -
  have m: "moves_on \<sigma> \<sigma>'" by (rule windows.R_cascade [OF assms(3)])
  have "waiters_from b \<sigma>' s i \<and> next_of \<sigma>' s i = next_of \<sigma> s i \<and>
      (\<exists>gone. waiters_of \<sigma> s i = gone @ waiters_of \<sigma>' s i \<and>
         (\<forall>w\<in>set gone. off b (w_point w) < off b (oldest_of \<sigma>' s i)))"
    using m assms(1,2) unfolding moves_on_def by blast
  then obtain gone where w: "waiters_from b \<sigma>' s i" and g: "waiters_of \<sigma> s i = gone @ waiters_of \<sigma>' s i"
    and o: "\<forall>w\<in>set gone. off b (w_point w) < off b (oldest_of \<sigma>' s i)" by blast
  have "\<not> on_line \<sigma>' s i (w_point v)" if "v \<in> set gone" for v
  proof -
    have l: "off b (w_point v) < off b (oldest_of \<sigma>' s i)" using o that by blast
    moreover have "off b (oldest_of \<sigma>' s i) \<le> off b (next_of \<sigma>' s i)" using w by (simp add: waiters_from_def)
    ultimately show ?thesis using on_line_off [OF w, of "w_point v"] by simp
  qed
  with g show ?thesis by blast
qed

lemma all_on_line:
  assumes w: "waiters_from b \<sigma> s i" and hd: "on_line \<sigma> s i (w_point (hd (waiters_of \<sigma> s i)))"
    and v: "v \<in> set (waiters_of \<sigma> s i)"
  shows "on_line \<sigma> s i (w_point v)"
proof -
  have ne: "waiters_of \<sigma> s i \<noteq> []" using v by auto
  have lt: "off b (w_point u) < off b (next_of \<sigma> s i)" if "u \<in> set (waiters_of \<sigma> s i)" for u
    using w that by (simp add: waiters_from_def)
  have "off b (oldest_of \<sigma> s i) \<le> off b (w_point (hd (waiters_of \<sigma> s i)))"
    using on_line_off [OF w lt] hd ne by simp
  also have "\<dots> \<le> off b (w_point v)"
    using w v ne by (cases "waiters_of \<sigma> s i") (auto simp: waiters_from_def)
  finally show ?thesis using on_line_off [OF w lt [OF v]] by simp
qed

lemma loop_exit_all_on_line:
  assumes "waiters_from b \<sigma> s i" and "loop_exit \<sigma> s i"
  shows "\<forall>w\<in>set (waiters_of \<sigma> s i). on_line \<sigma> s i (w_point w)"
  using assms(2) all_on_line [OF assms(1)]
  by (cases "waiters_of \<sigma> s i") (auto simp: loop_exit_def on_line_def)

text \<open>C28: releasing the oldest tracker of a timeline leaves no waiter behind: every waiter still
  on the timeline afterwards waits for a point that is still on it.\<close>

theorem release_leaves_no_waiter_behind:
  assumes "\<forall>s i. trackers_ok \<sigma> s i" and "waiters_from b \<sigma> s i" and "trackers_of \<sigma> s i = t # ts"
    and "cascade n (TrackerRelease t) \<sigma> = Done (\<sigma>', m)"
  shows "\<forall>w\<in>set (waiters_of \<sigma>' s i). on_line \<sigma>' s i (w_point w)"
proof -
  have tl: "t_system (g_trackers \<sigma> t) = s" "t_timeline (g_trackers \<sigma> t) = Some i"
    using assms(1,3) unfolding trackers_ok_def by (metis list.set_intros(1))+
  have tail: "is_tail_tracker t (trackers_of \<sigma> s i)" using assms(3) by (simp add: is_tail_tracker_def)
  obtain k where k: "n = Suc k" using assms(4) by (cases n) auto
  obtain \<sigma>2 where r: "cascade k (ReleaseWaiters s i) (set_oldest_point s i (remove_tracker s i t \<sigma>)) = Done (\<sigma>2, m)"
    and e: "\<sigma>' = (if i = TIMELINE_SOFT then mali_timeline_update_delayed_work s i \<sigma>2 else \<sigma>2)"
    using assms(4) tl tail
    by (auto simp: k cascade_step_def mali_timeline_tracker_release_def Let_def bind_outcome_Done
        mali_timeline_update_oldest_point_def trackers_of_def)
  have v: "same_view \<sigma>2 \<sigma>'" by (simp add: e view_delayed_work)
  have "moves_on \<sigma> \<sigma>2"
    by (rule moves_on_trans [OF moves_on_remove_tail [OF tail] windows.R_cascade [OF r]])
  then have w: "waiters_from b \<sigma>2 s i" using assms(1,2) unfolding moves_on_def by blast
  have "\<forall>w\<in>set (waiters_of \<sigma>2 s i). on_line \<sigma>2 s i (w_point w)"
    by (rule loop_exit_all_on_line [OF w cascade_loop_exit [OF r]])
  then show ?thesis using v by (simp add: on_line_iff same_view_def)
qed

section \<open>Between operations\<close>

text \<open>Between operations every waiter of a timeline waits for a point that is on it, and the
  waiters ascend from the oldest point. This is what the operations of the timeline system keep.\<close>

definition waiters_ok :: "gpu \<Rightarrow> session_id \<Rightarrow> timeline_id \<Rightarrow> bool" where
  "waiters_ok \<sigma> s i \<longleftrightarrow> (\<forall>w\<in>set (waiters_of \<sigma> s i). on_line \<sigma> s i (w_point w)) \<and>
     sorted (map (\<lambda>w. off (oldest_of \<sigma> s i) (w_point w)) (waiters_of \<sigma> s i))"

lemma waiters_ok_iff:
  assumes "trackers_ok \<sigma> s i"
  shows "waiters_ok \<sigma> s i \<longleftrightarrow> waiters_from (oldest_of \<sigma> s i) \<sigma> s i"
  using assms waiters_from_oldest [of \<sigma> s i]
  by (auto simp: waiters_ok_def waiters_from_def on_line_iff off_def word_less_nat_alt)

lemma waiters_from_rebase:
  assumes "waiters_from b \<sigma> s i" and "\<forall>w\<in>set (waiters_of \<sigma> s i). on_line \<sigma> s i (w_point w)"
  shows "waiters_ok \<sigma> s i"
proof -
  let ?o = "oldest_of \<sigma> s i"
  have le: "off b ?o \<le> off b (w_point w)" if "w \<in> set (waiters_of \<sigma> s i)" for w
    using assms that on_line_off [OF assms(1), of "w_point w"] by (auto simp: waiters_from_def)
  have "sorted (map (\<lambda>w. off b (w_point w) - off b ?o) (waiters_of \<sigma> s i))"
    using assms(1) by (auto simp: waiters_from_def sorted_wrt_map
        elim!: sorted_wrt_mono_rel [rotated])
  moreover have "off ?o (w_point w) = off b (w_point w) - off b ?o" if "w \<in> set (waiters_of \<sigma> s i)" for w
    by (rule off_rebase [OF le [OF that]])
  ultimately have "sorted (map (\<lambda>w. off ?o (w_point w)) (waiters_of \<sigma> s i))"
    by (simp cong: map_cong)
  with assms(2) show ?thesis by (simp add: waiters_ok_def)
qed

definition lines_ok :: "gpu \<Rightarrow> bool" where
  "lines_ok \<sigma> \<longleftrightarrow> (\<forall>s i. trackers_ok \<sigma> s i \<and> waiters_ok \<sigma> s i)"

text \<open>A relation that also tells that timelines without stale waiters stay so.\<close>

definition settles :: "gpu \<Rightarrow> gpu \<Rightarrow> bool" where
  "settles \<sigma> \<sigma>' \<longleftrightarrow> moves_on \<sigma> \<sigma>' \<and>
     ((\<forall>s i. trackers_ok \<sigma> s i) \<longrightarrow> (\<forall>s i. \<exists>b. waiters_from b \<sigma> s i) \<longrightarrow>
        (\<forall>s i. waiters_ok \<sigma> s i \<longrightarrow> waiters_ok \<sigma>' s i))"

lemma moves_on_pre:
  assumes "moves_on \<sigma> \<sigma>'" "\<forall>s i. trackers_ok \<sigma> s i"
  shows "\<forall>s i. trackers_ok \<sigma>' s i"
    and "\<forall>s i. \<exists>b. waiters_from b \<sigma> s i \<Longrightarrow> \<forall>s i. \<exists>b. waiters_from b \<sigma>' s i"
  using assms unfolding moves_on_def by blast+

lemma settles_trans: "settles \<sigma> \<sigma>1 \<Longrightarrow> settles \<sigma>1 \<sigma>2 \<Longrightarrow> settles \<sigma> \<sigma>2"
  unfolding settles_def using moves_on_trans moves_on_pre by blast

lemma settles_lines: "same_lines \<sigma> \<sigma>' \<Longrightarrow> settles \<sigma> \<sigma>'"
  using same_lines_moves_on [of \<sigma> \<sigma>']
  by (simp add: settles_def waiters_ok_def on_line_iff same_lines_def)

lemma settles_pop:
  assumes "waiters_of \<sigma> s i = w # ws" "\<not> mali_timeline_is_point_on (the_timeline \<sigma> s i) (w_point w)"
  shows "settles \<sigma> (pop_waiter s i \<sigma>)"
proof -
  have "waiters_ok (pop_waiter s i \<sigma>) s' i'" if "waiters_ok \<sigma> s' i'" for s' i'
  proof (cases "s' = s \<and> i' = i")
    case True
    then show ?thesis using that assms by (auto simp: waiters_ok_def on_line_def)
  next
    case False
    then show ?thesis using that by (auto simp: waiters_ok_def on_line_iff pop_waiters_of pop_lines)
  qed
  with moves_on_pop [OF assms] show ?thesis by (simp add: settles_def)
qed

lemma settles_remove:
  assumes "\<not> is_tail_tracker t (trackers_of \<sigma> s i)"
  shows "settles \<sigma> (remove_tracker s i t \<sigma>)"
  using moves_on_remove [OF assms] by (simp add: settles_def waiters_ok_def on_line_iff remove_lines)

lemma settles_remove_tail:
  assumes tail: "is_tail_tracker t (trackers_of \<sigma> s i)"
    and r: "settles (set_oldest_point s i (remove_tracker s i t \<sigma>)) \<sigma>1" and ex: "loop_exit \<sigma>1 s i"
  shows "settles \<sigma> \<sigma>1"
proof -
  let ?\<sigma> = "set_oldest_point s i (remove_tracker s i t \<sigma>)"
  have m: "moves_on \<sigma> ?\<sigma>" by (rule moves_on_remove_tail [OF tail])
  have m1: "moves_on \<sigma> \<sigma>1" using moves_on_trans [OF m] r unfolding settles_def by blast
  have "waiters_ok \<sigma>1 s' i'"
    if pre: "\<forall>s i. trackers_ok \<sigma> s i" "\<forall>s i. \<exists>b. waiters_from b \<sigma> s i" and q: "waiters_ok \<sigma> s' i'"
    for s' i'
  proof (cases "s' = s \<and> i' = i")
    case True
    obtain b where b: "waiters_from b \<sigma>1 s i" using moves_on_pre(2) [OF m1 pre] by blast
    show ?thesis
      using True waiters_from_rebase [OF b loop_exit_all_on_line [OF b ex]] by simp
  next
    case False
    then have "waiters_ok ?\<sigma> s' i'"
      using q by (auto simp: waiters_ok_def on_line_iff oldest_lines remove_lines)
    then show ?thesis
      using r moves_on_pre(1) [OF m pre(1)] moves_on_pre(2) [OF m pre] unfolding settles_def by blast
  qed
  with m1 show ?thesis unfolding settles_def by blast
qed

lemma settles_view: "same_view \<sigma> \<sigma>' \<Longrightarrow> settles \<sigma> \<sigma>'"
  by (rule settles_lines [OF lines_view])

interpretation settle: cascade_steps settles
proof
  show "settles \<sigma> \<sigma>" for \<sigma> by (rule settles_view [OF same_view_refl])
  show "settles \<sigma> \<sigma>1 \<Longrightarrow> settles \<sigma>1 \<sigma>2 \<Longrightarrow> settles \<sigma> \<sigma>2" for \<sigma> \<sigma>1 \<sigma>2 by (rule settles_trans)
  show "is_tail_tracker t (trackers_of \<sigma> s i) \<Longrightarrow>
      settles (set_oldest_point s i (remove_tracker s i t \<sigma>)) \<sigma>1 \<Longrightarrow> loop_exit \<sigma>1 s i \<Longrightarrow> settles \<sigma> \<sigma>1"
    for t \<sigma> s i \<sigma>1 by (rule settles_remove_tail)
qed (assumption | rule settles_lines [OF lines_dec] settles_pop settles_remove
      settles_lines [OF lines_clear] settles_view [OF view_or_error]
      settles_view [OF view_begin_activation] settles_view [OF view_count_tracker]
      settles_view [OF view_delayed_work] settles_view [OF view_fail_pp_job]
      settles_view [OF view_queues(1)] settles_view [OF view_queues(2)]
      settles_view [OF view_complete_pp] settles_view [OF view_complete_gp]
      settles_view [OF view_soft_activated] settles_view [OF view_upd_soft]
      settles_view [OF view_soft_destroy] settles_view [OF view_log_event]
      settles_view [OF view_begin_fence_wait] settles_view [OF view_put_fence_waiter])+

lemma lines_ok_from: "lines_ok \<sigma> \<Longrightarrow> \<forall>s i. \<exists>b. waiters_from b \<sigma> s i"
  unfolding lines_ok_def using waiters_ok_iff by blast

text \<open>any call of the cascade, started between operations, ends in a state between
  operations: no timeline is left with a waiter whose point has been released.\<close>

theorem cascade_keeps_lines_ok:
  assumes "lines_ok \<sigma>" and "cascade n c \<sigma> = Done (\<sigma>', m)"
  shows "lines_ok \<sigma>'"
  using settle.R_cascade [OF assms(2)] assms(1) lines_ok_from [OF assms(1)] moves_on_pre(1)
  unfolding settles_def lines_ok_def by blast

end
