(* ===== verification/Timeline_Ops.thy ===== *)
theory Timeline_Ops
  imports Timeline_Windows
begin

text \<open>
  The operations that enter the timeline system: adding a tracker with the waiters of its
  fence, submitting jobs, soft jobs with their timeouts, waiting for a fence, and aborting a
  session. The operations that release trackers take the fuel of the cascade they start.
\<close>

section \<open>Adding a tracker\<close>

definition timeline_ids :: "timeline_id list" where
  "timeline_ids = [TIMELINE_GP, TIMELINE_PP, TIMELINE_SOFT]"

definition mali_timeline_fence_num_waiters :: "timeline_fence \<Rightarrow> nat" where
  "mali_timeline_fence_num_waiters fence =
     length (filter (\<lambda>i. NO_POINT \<noteq> f_points fence i) timeline_ids)"

text \<open>Waiters come from the list of unused ones and, once that is empty, from the allocator, of
  which \<open>callocs\<close> calls succeed before one fails.\<close>

definition mali_timeline_system_allocate_waiters ::
    "session_id \<Rightarrow> nat \<Rightarrow> nat \<Rightarrow> gpu \<Rightarrow> gpu \<times> nat" where
  "mali_timeline_system_allocate_waiters s max_num callocs \<sigma> =
     (let from_list = min max_num (waiter_empty_list (g_systems \<sigma> s));
          fresh = min (max_num - from_list) callocs
      in (upd_system s (\<lambda>y. y\<lparr>waiter_empty_list := waiter_empty_list y - from_list\<rparr>) \<sigma>,
          from_list + fresh))"

text \<open>One round of the loop over the timelines; \<open>left\<close> counts the allocated waiters.\<close>

definition create_waiter :: "session_id \<Rightarrow> tref \<Rightarrow> timeline_id \<Rightarrow> gpu \<times> nat \<Rightarrow> gpu \<times> nat" where
  "create_waiter s t i st =
     (case st of (\<sigma>, left) \<Rightarrow>
        let point = f_points (t_fence (g_trackers \<sigma> t)) i; line = the_timeline \<sigma> s i in
        if NO_POINT = point then st
        else if \<not> mali_timeline_is_point_valid line point then st
        else if mali_timeline_is_point_released line point then st
        else if left = 0 then st
        else let \<sigma>1 = upd_tracker t (\<lambda>r. r\<lparr>trigger_ref_count := trigger_ref_count r + 1,
                                              t_num_waiters := t_num_waiters r + 1\<rparr>) \<sigma>
             in (upd_timeline s i (\<lambda>l. l\<lparr>tl_waiters := mali_timeline_insert_waiter
                    \<lparr>w_point = point, w_tracker = t\<rparr> (tl_waiters l)\<rparr>) \<sigma>1, left - 1))"

definition create_waiters :: "session_id \<Rightarrow> tref \<Rightarrow> gpu \<times> nat \<Rightarrow> gpu \<times> nat" where
  "create_waiters s t st = fold (create_waiter s t) timeline_ids st"

definition mali_executor_schedule_from_mask :: "scheduler_mask \<Rightarrow> gpu \<Rightarrow> gpu" where
  "mali_executor_schedule_from_mask sched = log_event (ExecutorSchedule sched)"

definition mali_timeline_system_create_waiters_and_unlock ::
    "nat \<Rightarrow> session_id \<Rightarrow> tref \<Rightarrow> nat \<Rightarrow> gpu \<Rightarrow> gpu outcome" where
  "mali_timeline_system_create_waiters_and_unlock n s t allocated \<sigma> =
     (let (\<sigma>1, left) = create_waiters s t (\<sigma>, allocated);
          \<sigma>2 = (if left \<noteq> 0 then mali_timeline_system_release_waiter_list s left \<sigma>1 else \<sigma>1);
          \<sigma>3 = dec_trigger t \<sigma>2
      in bind_outcome (if trigger_ref_count (g_trackers \<sigma>3 t) = 0 then cascade n (TrackerActivate t) \<sigma>3
                       else Done (\<sigma>3, MASK_EMPTY))
           (\<lambda>(\<sigma>4, sched). Done (mali_executor_schedule_from_mask sched \<sigma>4)))"

text \<open>\<open>line\<close> is None for MALI_TIMELINE_NONE.\<close>

definition mali_timeline_system_add_tracker ::
    "nat \<Rightarrow> nat \<Rightarrow> session_id \<Rightarrow> tref \<Rightarrow> timeline_id option \<Rightarrow> gpu \<Rightarrow> (gpu \<times> timeline_point) outcome" where
  "mali_timeline_system_add_tracker n callocs s t line \<sigma> =
     (let \<sigma>1 = upd_tracker t (\<lambda>r. r\<lparr>t_system := s\<rparr>) \<sigma>;
          num_waiters = mali_timeline_fence_num_waiters (t_fence (g_trackers \<sigma>1 t));
          (\<sigma>2, allocated) = mali_timeline_system_allocate_waiters s num_waiters callocs \<sigma>1;
          \<sigma>3 = (case line of Some i \<Rightarrow> mali_timeline_insert_tracker s i t \<sigma>2 | None \<Rightarrow> \<sigma>2);
          point = t_point (g_trackers \<sigma>3 t)
      in bind_outcome (mali_timeline_system_create_waiters_and_unlock n s t allocated \<sigma>3)
           (\<lambda>\<sigma>4. Done (\<sigma>4, point)))"

definition mali_timeline_system_tracker_get :: "tref \<Rightarrow> gpu \<Rightarrow> gpu" where
  "mali_timeline_system_tracker_get t =
     upd_tracker t (\<lambda>r. r\<lparr>trigger_ref_count := trigger_ref_count r + 1\<rparr>)"

definition mali_timeline_fence_copy_uk_fence :: "tref \<Rightarrow> timeline_fence \<Rightarrow> gpu \<Rightarrow> gpu" where
  "mali_timeline_fence_copy_uk_fence t uk_fence = upd_tracker t (\<lambda>r. r\<lparr>t_fence := uk_fence\<rparr>)"

definition mali_timeline_system_get_latest_point :: "session_id \<Rightarrow> timeline_id \<Rightarrow> gpu \<Rightarrow> timeline_point" where
  "mali_timeline_system_get_latest_point s i \<sigma> =
     (let line = the_timeline \<sigma> s i in
      if point_oldest line \<noteq> point_next line
      then let point = point_next line - 1 in if NO_POINT = point then point - 1 else point
      else NO_POINT)"

definition mali_timeline_system_stop_timer :: "session_id \<Rightarrow> gpu \<Rightarrow> gpu" where
  "mali_timeline_system_stop_timer s \<sigma> =
     fold (\<lambda>i. upd_timeline s i (\<lambda>l. l\<lparr>tl_timer_active := False\<rparr>)) timeline_ids
       (upd_system s (\<lambda>y. y\<lparr>timer_enabled := False\<rparr>) \<sigma>)"

section \<open>Submitting jobs\<close>

definition mali_scheduler_submit_gp_job ::
    "nat \<Rightarrow> nat \<Rightarrow> session_id \<Rightarrow> jid \<Rightarrow> gpu \<Rightarrow> (gpu \<times> timeline_point) outcome" where
  "mali_scheduler_submit_gp_job n callocs s j \<sigma> =
     mali_timeline_system_add_tracker n callocs s (GPJob j) (Some TIMELINE_GP) \<sigma>"

definition mali_scheduler_submit_pp_job ::
    "nat \<Rightarrow> nat \<Rightarrow> session_id \<Rightarrow> jid \<Rightarrow> gpu \<Rightarrow> (gpu \<times> timeline_point) outcome" where
  "mali_scheduler_submit_pp_job n callocs s j \<sigma> =
     mali_timeline_system_add_tracker n callocs s (PPJob j) (Some TIMELINE_PP)
       (mali_pp_job_fb_lookup_add j \<sigma>)"

text \<open>The start ioctls, given the job their \<open>create\<close> function made (None when it failed), the
  identifier of the new job, and whether the point could be written back to user space.\<close>

definition mali_ukk_gp_start_job ::
    "nat \<Rightarrow> nat \<Rightarrow> session_id \<Rightarrow> jid \<Rightarrow> (u32 \<Rightarrow> gp_job option) \<Rightarrow> bool \<Rightarrow> gpu \<Rightarrow> (gpu \<times> osk_err) outcome" where
  "mali_ukk_gp_start_job n callocs s j create put_ok \<sigma> =
     (let (\<sigma>1, new_id) = mali_scheduler_get_new_id \<sigma> in
      case create new_id of None \<Rightarrow> Done (\<sigma>1, ERR_NOMEM)
      | Some job \<Rightarrow>
          let \<sigma>2 = mali_timeline_tracker_init (GPJob j) None (\<sigma>1\<lparr>g_gp := (g_gp \<sigma>1)(j := job)\<rparr>);
              \<sigma>3 = mali_timeline_fence_copy_uk_fence (GPJob j) (gu_fence (gp_uargs job)) \<sigma>2
          in bind_outcome (mali_scheduler_submit_gp_job n callocs s j \<sigma>3)
               (\<lambda>(\<sigma>4, point). Done (\<sigma>4, if \<not> put_ok then ERR_ITEM_NOT_FOUND else ERR_OK)))"

definition mali_ukk_pp_start_job ::
    "nat \<Rightarrow> nat \<Rightarrow> session_id \<Rightarrow> jid \<Rightarrow> (u32 \<Rightarrow> pp_job option) \<Rightarrow> bool \<Rightarrow> gpu \<Rightarrow> (gpu \<times> osk_err) outcome" where
  "mali_ukk_pp_start_job n callocs s j create put_ok \<sigma> =
     (let (\<sigma>1, new_id) = mali_scheduler_get_new_id \<sigma> in
      case create new_id of None \<Rightarrow> Done (\<sigma>1, ERR_NOMEM)
      | Some job \<Rightarrow>
          let \<sigma>2 = mali_timeline_tracker_init (PPJob j) None (\<sigma>1\<lparr>g_pp := (g_pp \<sigma>1)(j := job)\<rparr>);
              \<sigma>3 = mali_timeline_fence_copy_uk_fence (PPJob j) (pu_fence (pp_uargs job)) \<sigma>2
          in bind_outcome (mali_scheduler_submit_pp_job n callocs s j \<sigma>3)
               (\<lambda>(\<sigma>4, point). Done (\<sigma>4, if \<not> put_ok then ERR_ITEM_NOT_FOUND else ERR_OK)))"

text \<open>A PP job with the GP job it depends on: the GP job holds a reference to the PP job's tracker,
  taken when it is created.\<close>

definition mali_ukk_pp_and_gp_start_job ::
    "nat \<Rightarrow> nat \<Rightarrow> session_id \<Rightarrow> jid \<Rightarrow> jid \<Rightarrow> (u32 \<Rightarrow> pp_job option) \<Rightarrow>
     (u32 \<Rightarrow> jid option \<Rightarrow> gp_job option) \<Rightarrow> bool \<Rightarrow> gpu \<Rightarrow> (gpu \<times> osk_err) outcome" where
  "mali_ukk_pp_and_gp_start_job n callocs s p j create_pp create_gp put_ok \<sigma> =
     (let (\<sigma>1, pp_id) = mali_scheduler_get_new_id \<sigma> in
      case create_pp pp_id of None \<Rightarrow> Done (\<sigma>1, ERR_NOMEM)
      | Some pp_job \<Rightarrow>
          let \<sigma>2 = mali_timeline_tracker_init (PPJob p) None (\<sigma>1\<lparr>g_pp := (g_pp \<sigma>1)(p := pp_job)\<rparr>);
              \<sigma>3 = mali_timeline_fence_copy_uk_fence (PPJob p) (pu_fence (pp_uargs pp_job)) \<sigma>2;
              (\<sigma>4, gp_id) = mali_scheduler_get_new_id \<sigma>3
          in case create_gp gp_id (Some p) of None \<Rightarrow> Done (\<sigma>4, ERR_NOMEM)
             | Some gp_job \<Rightarrow>
                 let \<sigma>5 = mali_timeline_system_tracker_get (PPJob p) (\<sigma>4\<lparr>g_gp := (g_gp \<sigma>4)(j := gp_job)\<rparr>);
                     \<sigma>6 = mali_timeline_tracker_init (GPJob j) None \<sigma>5;
                     \<sigma>7 = mali_timeline_fence_copy_uk_fence (GPJob j) (gu_fence (gp_uargs gp_job)) \<sigma>6
                 in bind_outcome (mali_scheduler_submit_gp_job n callocs s j \<sigma>7)
                      (\<lambda>(\<sigma>8, _). bind_outcome (mali_scheduler_submit_pp_job n callocs s p \<sigma>8)
                         (\<lambda>(\<sigma>9, point). Done (\<sigma>9, if \<not> put_ok then ERR_ITEM_NOT_FOUND else ERR_OK))))"

text \<open>Disabling writebacks of the queued jobs of a frame builder.\<close>

definition disable_wb_of_job :: "u32 \<times> u32 \<times> u32 \<Rightarrow> pp_job \<Rightarrow> pp_job" where
  "disable_wb_of_job wb job =
     (let job1 = (if mali_pp_job_get_wb0_source_addr job = fst wb
                  then mali_pp_job_disable_wb0 job else job);
          job2 = (if mali_pp_job_get_wb1_source_addr job1 = fst (snd wb)
                  then mali_pp_job_disable_wb1 job1 else job1)
      in if mali_pp_job_get_wb2_source_addr job2 = snd (snd wb)
         then mali_pp_job_disable_wb2 job2 else job2)"

definition mali_ukk_pp_job_disable_wb :: "session_id \<Rightarrow> u32 \<Rightarrow> u32 \<times> u32 \<times> u32 \<Rightarrow> gpu \<Rightarrow> gpu" where
  "mali_ukk_pp_job_disable_wb s fb_id wb \<sigma> =
     fold (\<lambda>j \<sigma>. if pu_frame_builder_id (pp_uargs (g_pp \<sigma> j)) \<noteq> fb_id then \<sigma>
                  else upd_pp j (disable_wb_of_job wb) \<sigma>)
       (fb_lookup (g_sessions \<sigma> s) (unat (fb_id AND 15))) \<sigma>"

section \<open>Soft jobs\<close>

text \<open>The outcomes of the two allocations of a creation are parameters.\<close>

definition mali_soft_job_create ::
    "bool \<Rightarrow> bool \<Rightarrow> session_id \<Rightarrow> soft_job_type \<Rightarrow> 64 word \<Rightarrow> jid \<Rightarrow> gpu \<Rightarrow> gpu \<times> bool" where
  "mali_soft_job_create notification_ok malloc_ok s type user_job j \<sigma> =
     (if \<not> notification_ok then (\<sigma>, False)
      else if \<not> malloc_ok then (\<sigma>, False)
      else let new_id = last_job_id (g_sessions \<sigma> s);
               \<sigma>1 = upd_session s (\<lambda>y. y\<lparr>last_job_id := new_id + 1, jobs_used := j # jobs_used y\<rparr>) \<sigma>
           in (upd_soft j (\<lambda>_. \<lparr>sj_type = type, sj_user_job = user_job, sj_refcount = 1,
                 sj_activated = False, sj_notification = True, sj_id = new_id,
                 sj_state = SOFT_ALLOCATED, sj_session = s\<rparr>) \<sigma>1, True))"

definition mali_soft_job_start ::
    "nat \<Rightarrow> nat \<Rightarrow> jid \<Rightarrow> timeline_fence \<Rightarrow> gpu \<Rightarrow> (gpu \<times> timeline_point) outcome" where
  "mali_soft_job_start n callocs j fence \<sigma> =
     (let \<sigma>1 = upd_soft j (\<lambda>job. job\<lparr>sj_state := SOFT_STARTED\<rparr>) \<sigma>;
          \<sigma>2 = mali_timeline_tracker_init (SoftJob j) (Some fence) \<sigma>1
      in mali_timeline_system_add_tracker n callocs (sj_session (g_soft \<sigma> j)) (SoftJob j)
           (Some TIMELINE_SOFT) \<sigma>2)"

definition mali_soft_job_system_lookup_job :: "session_id \<Rightarrow> u32 \<Rightarrow> gpu \<Rightarrow> jid option" where
  "mali_soft_job_system_lookup_job s job_id \<sigma> =
     find (\<lambda>j. sj_id (g_soft \<sigma> j) = job_id) (jobs_used (g_sessions \<sigma> s))"

text \<open>Signalling goes to sleep until the job is activated: the part before and the part after.\<close>

definition signal_job_begin :: "session_id \<Rightarrow> u32 \<Rightarrow> gpu \<Rightarrow> gpu \<times> (osk_err + jid)" where
  "signal_job_begin s job_id \<sigma> =
     (case mali_soft_job_system_lookup_job s job_id \<sigma> of
        None \<Rightarrow> (\<sigma>, Inl ERR_ITEM_NOT_FOUND)
      | Some j \<Rightarrow>
          if USER_SIGNALED \<noteq> sj_type (g_soft \<sigma> j) \<or>
             \<not> (sj_state (g_soft \<sigma> j) = SOFT_STARTED \<or> sj_state (g_soft \<sigma> j) = SOFT_TIMED_OUT)
          then (\<sigma>, Inl ERR_ITEM_NOT_FOUND)
          else let \<sigma>1 = upd_soft j (\<lambda>job. job\<lparr>sj_state := SOFT_SIGNALED\<rparr>) \<sigma> in
               if sj_state (g_soft \<sigma> j) = SOFT_TIMED_OUT
               then (mali_soft_job_destroy j \<sigma>1, Inl ERR_TIMEOUT)
               else (\<sigma>1, Inr j))"

definition signal_job_finish :: "nat \<Rightarrow> jid \<Rightarrow> gpu \<Rightarrow> gpu outcome" where
  "signal_job_finish n j \<sigma> =
     bind_outcome (cascade n (TrackerRelease (SoftJob j)) \<sigma>)
       (\<lambda>(\<sigma>1, sched). Done (mali_soft_job_destroy j (mali_executor_schedule_from_mask sched \<sigma>1)))"

definition mali_soft_job_system_timeout_job :: "nat \<Rightarrow> jid \<Rightarrow> effect" where
  "mali_soft_job_system_timeout_job n j \<sigma> =
     (if is_aborting (g_sessions \<sigma> (sj_session (g_soft \<sigma> j))) then Done (\<sigma>, MASK_EMPTY)
      else if sj_state (g_soft \<sigma> j) \<noteq> SOFT_STARTED then Done (\<sigma>, MASK_EMPTY)
      else let \<sigma>1 = upd_soft j (\<lambda>job. job\<lparr>sj_state := SOFT_TIMED_OUT,
                                         sj_refcount := sj_refcount job + 1\<rparr>) \<sigma>
           in bind_outcome (cascade n (TrackerRelease (SoftJob j)) \<sigma>1)
                (\<lambda>(\<sigma>2, sched). Done (mali_soft_job_destroy j \<sigma>2, sched)))"

text \<open>The delayed work item of a timeline; \<open>timeout_hz\<close> is MALI_TIMELINE_TIMEOUT_HZ, which
  depends on the tick rate of the kernel. Only the soft timeline schedules it.\<close>

definition mali_timeline_timer_callback ::
    "nat \<Rightarrow> u32 \<Rightarrow> session_id \<Rightarrow> timeline_id \<Rightarrow> gpu \<Rightarrow> gpu outcome" where
  "mali_timeline_timer_callback n timeout_hz s i \<sigma> =
     (if \<not> timer_enabled (g_systems \<sigma> s) then Done \<sigma>
      else let \<sigma>1 = upd_timeline s i (\<lambda>l. l\<lparr>tl_timer_active := False\<rparr>) \<sigma> in
           case tl_trackers (the_timeline \<sigma> s i) of
             SoftJob j # _ \<Rightarrow>
               (let r = g_trackers \<sigma>1 (SoftJob j) in
                if t_timer_active r
                then if timeout_hz > tickcount \<sigma>1 - os_tick_activate r then Done \<sigma>1
                     else bind_outcome (mali_soft_job_system_timeout_job n j \<sigma>1)
                            (\<lambda>(\<sigma>2, sched). Done (mali_executor_schedule_from_mask sched
                               (upd_tracker (SoftJob j) (\<lambda>r. r\<lparr>t_timer_active := False\<rparr>) \<sigma>2)))
                else Done (mali_executor_schedule_from_mask MASK_EMPTY \<sigma>1))
           | _ \<Rightarrow> Done (mali_executor_schedule_from_mask MASK_EMPTY \<sigma>1))"

text \<open>Aborting: the jobs to destroy are moved, one by one, to the front of a list of their own.\<close>

fun abort_collect :: "jid list \<Rightarrow> jid list \<Rightarrow> gpu \<Rightarrow> gpu \<times> jid list" where
  "abort_collect [] jobs \<sigma> = (\<sigma>, jobs)"
| "abort_collect (j # js) jobs \<sigma> =
     (let unlink = upd_session (sj_session (g_soft \<sigma> j)) (\<lambda>y. y\<lparr>jobs_used := remove1 j (jobs_used y)\<rparr>) in
      if sj_state (g_soft \<sigma> j) = SOFT_STARTED
      then if sj_activated (g_soft \<sigma> j)
           then abort_collect js (j # jobs)
                  (unlink (upd_soft j (\<lambda>job. job\<lparr>sj_state := SOFT_SIGNALED\<rparr>) \<sigma>))
           else abort_collect js jobs \<sigma>
      else if sj_state (g_soft \<sigma> j) = SOFT_TIMED_OUT
      then abort_collect js (j # jobs) (unlink \<sigma>)
      else abort_collect js jobs \<sigma>)"

fun abort_release :: "nat \<Rightarrow> session_id \<Rightarrow> jid list \<Rightarrow> gpu \<Rightarrow> gpu outcome" where
  "abort_release n s [] \<sigma> = Done \<sigma>"
| "abort_release n s (j # js) \<sigma> =
     bind_outcome (if sj_state (g_soft \<sigma> j) = SOFT_SIGNALED
                   then bind_outcome (cascade n (TrackerRelease (SoftJob j)) \<sigma>) (\<lambda>(\<sigma>1, _). Done \<sigma>1)
                   else Done \<sigma>)
       (\<lambda>\<sigma>1. abort_release n s js (mali_soft_job_destroy j
                (upd_session s (\<lambda>y. y\<lparr>jobs_used := j # jobs_used y\<rparr>) \<sigma>1)))"

definition mali_soft_job_system_abort :: "nat \<Rightarrow> session_id \<Rightarrow> gpu \<Rightarrow> gpu outcome" where
  "mali_soft_job_system_abort n s \<sigma> =
     (let (\<sigma>1, jobs) = abort_collect (jobs_used (g_sessions \<sigma> s)) [] \<sigma>
      in abort_release n s jobs \<sigma>1)"

section \<open>Waiting for a fence\<close>

definition mali_timeline_fence_wait_check_status :: "session_id \<Rightarrow> timeline_fence \<Rightarrow> gpu \<Rightarrow> bool" where
  "mali_timeline_fence_wait_check_status s fence \<sigma> \<longleftrightarrow>
     list_all (\<lambda>i. NO_POINT = f_points fence i \<or>
       mali_timeline_is_point_released (the_timeline \<sigma> s i) (f_points fence i)) timeline_ids"

text \<open>The part of \<open>mali_timeline_fence_wait\<close> before it sleeps, with the result of an immediate
  check, and the part after it wakes.\<close>

definition fence_wait_begin ::
    "nat \<Rightarrow> nat \<Rightarrow> bool \<Rightarrow> session_id \<Rightarrow> jid \<Rightarrow> timeline_fence \<Rightarrow> u32 \<Rightarrow> gpu \<Rightarrow> (gpu \<times> bool option) outcome" where
  "fence_wait_begin n callocs alloc_ok s j fence timeout \<sigma> =
     (if timeout = 0 then Done (\<sigma>, Some (mali_timeline_fence_wait_check_status s fence \<sigma>))
      else if \<not> alloc_ok then Done (\<sigma>, Some False)
      else let \<sigma>1 = upd_wait j (\<lambda>_. \<lparr>fw_activated = False, fw_refcount = 2\<rparr>) \<sigma>;
               \<sigma>2 = mali_timeline_tracker_init (FenceWait j) (Some fence) \<sigma>1
           in bind_outcome (mali_timeline_system_add_tracker n callocs s (FenceWait j) None \<sigma>2)
                (\<lambda>(\<sigma>3, _). Done (\<sigma>3, None)))"

definition fence_wait_end :: "jid \<Rightarrow> gpu \<Rightarrow> gpu \<times> bool" where
  "fence_wait_end j \<sigma> = (put_fence_waiter j \<sigma>, fw_activated (g_wait \<sigma> j))"

end
