(* ===== verification/Timeline_Examples.thy ===== *)
theory Timeline_Examples
  imports Timeline_Ops
begin

text \<open>
  A concrete state of one session, with a GP job on its timeline and a PP job that waits for it,
  and the theorems of the timeline system applied there.
\<close>

section \<open>The state\<close>

definition idle_tracker :: tracker where
  "idle_tracker = \<lparr>t_point = NO_POINT, t_timeline = None, t_system = 0, trigger_ref_count = 0,
     activation_error = 0, t_fence = zeroed_fence, t_num_waiters = 0, os_tick_create = 0,
     os_tick_activate = 0, t_timer_active = False\<rparr>"

definition empty_queue :: job_queue where
  "empty_queue = \<lparr>normal_pri = [], high_pri = [], depth = 0, big_job_num = 0\<rparr>"

definition new_session :: session where
  "new_session = \<lparr>is_aborting = False, use_high_priority = False, fb_lookup = (\<lambda>_. []),
     jobs_used = [], last_job_id = 0\<rparr>"

definition idle_gpu :: gpu where
  "idle_gpu = \<lparr>g_trackers = (\<lambda>_. idle_tracker), g_systems = (\<lambda>_. mali_timeline_system_create),
     g_sessions = (\<lambda>_. new_session), g_gp = (\<lambda>_. zeroed_gp_job), g_pp = (\<lambda>_. zeroed_pp_job),
     g_soft = (\<lambda>_. \<lparr>sj_type = USER_SIGNALED, sj_user_job = 0, sj_refcount = 0,
       sj_activated = False, sj_notification = False, sj_id = 0, sj_state = SOFT_ALLOCATED,
       sj_session = 0\<rparr>),
     g_wait = (\<lambda>_. \<lparr>fw_activated = False, fw_refcount = 0\<rparr>),
     job_queue_gp = empty_queue, job_queue_pp = empty_queue, pp_deletion_queue = [],
     job_id_autonumber = 0, cache_order_autonumber = 0, gp_tracker_count = 0,
     phy_pp_tracker_count = 0, virt_pp_tracker_count = 0, utilization_enabled = False,
     tickcount = 0, g_log = []\<rparr>"

text \<open>GP job 0 has point 1 of the GP timeline; PP job 0 has point 1 of the PP timeline and waits
  for the GP job.\<close>

definition two_jobs :: gpu where
  "two_jobs = idle_gpu\<lparr>
     g_trackers := (\<lambda>_. idle_tracker)
       (GPJob 0 := idle_tracker\<lparr>t_point := 1, t_timeline := Some TIMELINE_GP\<rparr>,
        PPJob 0 := idle_tracker\<lparr>t_point := 1, t_timeline := Some TIMELINE_PP,
                      trigger_ref_count := 1, t_num_waiters := 1\<rparr>),
     g_systems := (\<lambda>_. mali_timeline_system_create)
       (0 := mali_timeline_system_create\<lparr>timelines := (\<lambda>_. mali_timeline_create)
          (TIMELINE_GP := mali_timeline_create\<lparr>point_next := 2, tl_trackers := [GPJob 0],
                            tl_waiters := [\<lparr>w_point = 1, w_tracker = PPJob 0\<rparr>]\<rparr>,
           TIMELINE_PP := mali_timeline_create\<lparr>point_next := 2, tl_trackers := [PPJob 0]\<rparr>)\<rparr>)\<rparr>"

lemmas state_examples = idle_tracker_def empty_queue_def new_session_def idle_gpu_def
  mali_timeline_create_def mali_timeline_system_create_def two_jobs_def

lemma two_jobs_view:
  "waiters_of two_jobs s i =
     (if s = 0 \<and> i = TIMELINE_GP then [\<lparr>w_point = 1, w_tracker = PPJob 0\<rparr>] else [])"
  "trackers_of two_jobs s i =
     (if s = 0 then (case i of TIMELINE_GP \<Rightarrow> [GPJob 0] | TIMELINE_PP \<Rightarrow> [PPJob 0] | _ \<Rightarrow> []) else [])"
  "next_of two_jobs s i = (if s = 0 \<and> i \<noteq> TIMELINE_SOFT then 2 else 1)"
  "oldest_of two_jobs s i = 1"
  by (cases i; simp add: state_examples waiters_of_def trackers_of_def next_of_def oldest_of_def
      the_timeline_def)+

lemma two_jobs_trackers:
  "point_of two_jobs t = (if t = GPJob 0 \<or> t = PPJob 0 then 1 else NO_POINT)"
  "t_system (g_trackers two_jobs t) = 0"
  "t_timeline (g_trackers two_jobs t) =
     (if t = GPJob 0 then Some TIMELINE_GP else if t = PPJob 0 then Some TIMELINE_PP else None)"
  by (auto simp: point_of_def state_examples)

lemma two_jobs_covers: "covers {0} two_jobs"
  by (simp add: covers_def two_jobs_view)

lemma two_jobs_fuel: "fuel_for {0} (TrackerRelease (GPJob 0)) two_jobs = 11"
  by (simp add: fuel_for_def waiting_def two_jobs_view)

lemma two_jobs_lines_ok: "lines_ok two_jobs"
proof -
  have "trackers_ok two_jobs s i" for s i
    by (cases i) (auto simp: trackers_ok_def two_jobs_view two_jobs_trackers fits_def off_def
        NO_POINT_def)
  moreover have "waiters_ok two_jobs s i" for s i
    by (simp add: waiters_ok_def two_jobs_view on_line_iff)
  ultimately show ?thesis by (simp add: lines_ok_def)
qed

lemma two_jobs_counts: "trigger_inv {#} {} two_jobs"
proof -
  have "system_of two_jobs t = 0" for t
    by (simp add: system_of_def identity_def Let_def two_jobs_def idle_tracker_def)
  moreover have "pp_tracker_of two_jobs = (\<lambda>_. None)"
    by (simp add: fun_eq_iff pp_tracker_of_def two_jobs_def idle_gpu_def zeroed_gp_job_def)
  moreover have "unat (refs two_jobs t) = (if t = PPJob 0 then 1 else 0)" for t
    by (simp add: refs_def two_jobs_def idle_tracker_def)
  ultimately show ?thesis
    by (auto simp: trigger_inv_def waits_def holds_def two_jobs_view split: tref.split)
qed

lemma two_jobs_have_lines: "waiters_have_lines two_jobs"
  by (simp add: waiters_have_lines_def two_jobs_view has_line_def)

text \<open>Releasing the GP job: the PP job is activated and queued.\<close>

lemma two_jobs_release: "\<exists>\<sigma>' m. cascade 11 (TrackerRelease (GPJob 0)) two_jobs = Done (\<sigma>', m)"
  using cascade_returns [OF two_jobs_covers two_jobs_have_lines, of "TrackerRelease (GPJob 0)" 11]
  by (auto simp: two_jobs_fuel)

section \<open>The theorems on cascades at this state\<close>

theorem cascade_terminates_witness:
  "\<exists>\<sigma>' m. cascade 20 (TrackerRelease (GPJob 0)) two_jobs = Done (\<sigma>', m) \<and>
     cascade 11 (TrackerRelease (GPJob 0)) two_jobs = Done (\<sigma>', m)"
  using cascade_terminates [OF two_jobs_covers two_jobs_have_lines, of "TrackerRelease (GPJob 0)" 20]
  by (simp add: two_jobs_fuel)

theorem cascade_keeps_timelines_witness:
  "\<exists>\<sigma>' m. cascade 11 (TrackerRelease (GPJob 0)) two_jobs = Done (\<sigma>', m) \<and>
     (\<forall>s i. trackers_ok \<sigma>' s i)"
proof -
  have "\<forall>s i. trackers_ok two_jobs s i" using two_jobs_lines_ok by (simp add: lines_ok_def)
  from cascade_keeps_timelines [OF this] two_jobs_release show ?thesis by blast
qed

lemma two_jobs_waiters_from: "waiters_from 1 two_jobs 0 TIMELINE_GP"
  by (simp add: waiters_from_def two_jobs_view off_def)

theorem cascade_releases_in_order_witness:
  "\<exists>\<sigma>' m. cascade 11 (TrackerRelease (GPJob 0)) two_jobs = Done (\<sigma>', m) \<and>
     (\<exists>gone. [\<lparr>w_point = 1, w_tracker = PPJob 0\<rparr>] = gone @ waiters_of \<sigma>' 0 TIMELINE_GP \<and>
       set gone \<inter> {w. on_line \<sigma>' 0 TIMELINE_GP (w_point w)} = {})"
proof -
  have "\<forall>s i. trackers_ok two_jobs s i" using two_jobs_lines_ok by (simp add: lines_ok_def)
  from cascade_releases_in_order [OF this two_jobs_waiters_from] two_jobs_release
  obtain \<sigma>' m gone where "cascade 11 (TrackerRelease (GPJob 0)) two_jobs = Done (\<sigma>', m)"
    "waiters_of two_jobs 0 TIMELINE_GP = gone @ waiters_of \<sigma>' 0 TIMELINE_GP"
    "\<forall>w\<in>set gone. \<not> on_line \<sigma>' 0 TIMELINE_GP (w_point w)" by blast
  then show ?thesis by (fastforce simp: two_jobs_view)
qed

theorem release_leaves_no_waiter_behind_witness:
  "\<exists>\<sigma>' m. cascade 11 (TrackerRelease (GPJob 0)) two_jobs = Done (\<sigma>', m) \<and>
     set (waiters_of \<sigma>' 0 TIMELINE_GP) \<subseteq> {w. on_line \<sigma>' 0 TIMELINE_GP (w_point w)}"
proof -
  have "\<forall>s i. trackers_ok two_jobs s i" using two_jobs_lines_ok by (simp add: lines_ok_def)
  moreover have "trackers_of two_jobs 0 TIMELINE_GP = [GPJob 0]" by (simp add: two_jobs_view)
  ultimately show ?thesis
    using release_leaves_no_waiter_behind [OF _ two_jobs_waiters_from] two_jobs_release by blast
qed

theorem cascade_keeps_lines_ok_witness:
  "\<exists>\<sigma>' m. cascade 11 (TrackerRelease (GPJob 0)) two_jobs = Done (\<sigma>', m) \<and> lines_ok \<sigma>'"
  using cascade_keeps_lines_ok [OF two_jobs_lines_ok] two_jobs_release by blast

end
