(* ===== verification/Timeline_Invariant.thy ===== *)
theory Timeline_Invariant
  imports Timeline_Examples
begin

text \<open>
  The invariant of the timeline system between operations, and that the operations entering it
  keep it: the timelines are consistent, the trigger counts are exact, and nothing waits that
  could not be activated.
\<close>

definition timeline_inv :: "session_id set \<Rightarrow> tref multiset \<Rightarrow> gpu \<Rightarrow> bool" where
  "timeline_inv S H \<sigma> \<longleftrightarrow>
     lines_ok \<sigma> \<and> trigger_inv H {} \<sigma> \<and> waiters_have_lines \<sigma> \<and> covers S \<sigma>"

text \<open>A tracker that is on no timeline and waits for nothing.\<close>

definition unlisted :: "gpu \<Rightarrow> tref \<Rightarrow> bool" where
  "unlisted \<sigma> t \<longleftrightarrow> (\<forall>s i. t \<notin> set (trackers_of \<sigma> s i) \<and> t \<notin> w_tracker ` set (waiters_of \<sigma> s i))"

section \<open>Steps that leave the invariant alone\<close>

lemma lines_ok_settles: "settles \<sigma> \<sigma>' \<Longrightarrow> lines_ok \<sigma> \<Longrightarrow> lines_ok \<sigma>'"
  using lines_ok_from [of \<sigma>] moves_on_pre(1) unfolding settles_def lines_ok_def by blast

lemma trigger_inv_cong:
  assumes "waiters_of \<sigma>' = waiters_of \<sigma>" "refs \<sigma>' = refs \<sigma>" "system_of \<sigma>' = system_of \<sigma>"
    and "pp_tracker_of \<sigma>' = pp_tracker_of \<sigma>"
  shows "trigger_inv H D \<sigma>' = trigger_inv H D \<sigma>"
  using assms unfolding trigger_inv_def waits_def holds_def by (simp only:)

lemma has_line_identity: "identity \<sigma>' = identity \<sigma> \<Longrightarrow> has_line \<sigma>' = has_line \<sigma>"
proof
  fix t assume "identity \<sigma>' = identity \<sigma>"
  then have "identity \<sigma>' t = identity \<sigma> t" by simp
  then show "has_line \<sigma>' t = has_line \<sigma> t" by (cases t) (auto simp: has_line_def identity_def Let_def)
qed

lemma inv_same_view: "same_view \<sigma> \<sigma>' \<Longrightarrow> timeline_inv S H \<sigma> \<Longrightarrow> timeline_inv S H \<sigma>'"
proof -
  assume v: "same_view \<sigma> \<sigma>'" and i: "timeline_inv S H \<sigma>"
  have "has_line \<sigma>' = has_line \<sigma>" using v by (intro has_line_identity) (simp add: same_view_def)
  then have "waiters_have_lines \<sigma>' = waiters_have_lines \<sigma>"
    using v by (simp add: waiters_have_lines_def same_view_def)
  then show ?thesis
    using i lines_ok_settles [OF settles_view [OF v]] inv_view [OF v] view_covers [OF v]
    by (simp add: timeline_inv_def)
qed

lemma view_release_list: "same_view \<sigma> (mali_timeline_system_release_waiter_list s n \<sigma>)"
  by (simp add: view_defs mali_timeline_system_release_waiter_list_def)

lemma view_allocate: "mali_timeline_system_allocate_waiters s n c \<sigma> = (\<sigma>', k) \<Longrightarrow> same_view \<sigma> \<sigma>'"
  by (auto simp: mali_timeline_system_allocate_waiters_def view_defs)

lemma view_executor: "same_view \<sigma> (mali_executor_schedule_from_mask m \<sigma>)"
  by (simp add: mali_executor_schedule_from_mask_def view_log_event)

section \<open>Changing a tracker that is not listed\<close>

lemma lines_upd_tracker:
  assumes "\<forall>s i. t \<notin> set (trackers_of \<sigma> s i)" and "lines_ok \<sigma>"
  shows "lines_ok (upd_tracker t f \<sigma>)"
proof -
  let ?\<sigma> = "upd_tracker t f \<sigma>"
  have o: "trackers_of ?\<sigma> = trackers_of \<sigma>" "waiters_of ?\<sigma> = waiters_of \<sigma>"
    "oldest_of ?\<sigma> = oldest_of \<sigma>" "next_of ?\<sigma> = next_of \<sigma>"
    by (simp_all add: view_defs)
  have g: "g_trackers ?\<sigma> u = g_trackers \<sigma> u" if "u \<in> set (trackers_of \<sigma> s i)" for u s i
    using assms(1) that by (auto simp: upd_tracker_def)
  have m: "map (point_of ?\<sigma>) (trackers_of \<sigma> s i) = map (point_of \<sigma>) (trackers_of \<sigma> s i)" for s i
    using g by (intro map_cong refl) (simp add: point_of_def)
  have "trackers_ok ?\<sigma> s i = trackers_ok \<sigma> s i" for s i
    unfolding trackers_ok_def o m using g by simp
  moreover have "waiters_ok ?\<sigma> s i = waiters_ok \<sigma> s i" for s i
    by (simp add: waiters_ok_def on_line_iff o)
  ultimately show ?thesis using assms(2) by (simp add: lines_ok_def)
qed

lemma system_of_upd: "system_of (upd_tracker t f \<sigma>) u = (if u = t then t_system (f (g_trackers \<sigma> t)) else system_of \<sigma> u)"
  by (simp add: system_of_def identity_def Let_def upd_tracker_def)

lemma refs_upd: "refs (upd_tracker t f \<sigma>) u =
    (if u = t then trigger_ref_count (f (g_trackers \<sigma> t)) else refs \<sigma> u)"
  by (simp add: refs_def upd_tracker_def)

lemma upd_tracker_lists:
  "waiters_of (upd_tracker t f \<sigma>) = waiters_of \<sigma>" "trackers_of (upd_tracker t f \<sigma>) = trackers_of \<sigma>"
  "pp_tracker_of (upd_tracker t f \<sigma>) = pp_tracker_of \<sigma>" "next_of (upd_tracker t f \<sigma>) = next_of \<sigma>"
  "oldest_of (upd_tracker t f \<sigma>) = oldest_of \<sigma>"
  by (simp_all add: view_defs)

lemma unlisted_no_waits: "unlisted \<sigma> t \<Longrightarrow> waits \<sigma> t = 0"
  unfolding waits_def unlisted_def by (auto simp: filter_empty_conv)

text \<open>Setting fields other than the count, of a tracker that does not wait.\<close>

lemma inv_upd_unlisted:
  assumes i: "timeline_inv S H \<sigma>" and u: "unlisted \<sigma> t"
    and keep: "trigger_ref_count (f (g_trackers \<sigma> t)) = trigger_ref_count (g_trackers \<sigma> t)"
  shows "timeline_inv S H (upd_tracker t f \<sigma>)" and "unlisted (upd_tracker t f \<sigma>) t"
proof -
  let ?\<sigma> = "upd_tracker t f \<sigma>"
  show u': "unlisted ?\<sigma> t" using u by (simp add: unlisted_def upd_tracker_lists)
  have r: "refs ?\<sigma> = refs \<sigma>" using keep by (simp add: fun_eq_iff refs_def upd_tracker_def)
  have sys: "system_of ?\<sigma> (w_tracker w) = system_of \<sigma> (w_tracker w)"
    if "w \<in> set (waiters_of \<sigma> s i)" for w s i
    using that u by (auto simp: unlisted_def system_of_upd)
  have "waits ?\<sigma> v = waits \<sigma> v" for v
    using unlisted_no_waits [OF u] unlisted_no_waits [OF u']
    by (cases "v = t") (simp_all add: waits_def upd_tracker_lists system_of_upd)
  moreover have "holds ?\<sigma> = holds \<sigma>"
    by (simp add: fun_eq_iff holds_def upd_tracker_lists split: tref.split)
  ultimately have "trigger_inv H {} ?\<sigma>"
    using i sys r by (simp add: timeline_inv_def trigger_inv_def upd_tracker_lists)
  moreover have "has_line ?\<sigma> (w_tracker w) = has_line \<sigma> (w_tracker w)"
    if "w \<in> set (waiters_of \<sigma> s i)" for w s i
  proof -
    have "w_tracker w \<noteq> t" using that u by (auto simp: unlisted_def)
    then show ?thesis by (simp add: has_line_def upd_tracker_def split: tref.split)
  qed
  then have "waiters_have_lines ?\<sigma>"
    using i by (simp add: timeline_inv_def waiters_have_lines_def upd_tracker_lists)
  ultimately show "timeline_inv S H ?\<sigma>"
    using i u lines_upd_tracker [of t \<sigma> f]
    by (simp add: timeline_inv_def unlisted_def covers_def upd_tracker_lists)
qed

section \<open>Inserting a tracker\<close>

lemma fits_snoc:
  assumes f: "fits o1 nx ps" and room: "off o1 nx < 65536"
  shows "fits o1 (next_point nx) (ps @ [nx])" and "off o1 nx < off o1 (next_point nx)"
    and "off o1 (next_point nx) \<le> 65537"
proof -
  have d: "off o1 (next_point nx) = off o1 nx + (if nx + 1 = 0 then 2 else 1)"
    using room unfolding off_def by (intro next_point_dist) simp
  then show l: "off o1 nx < off o1 (next_point nx)" and b: "off o1 (next_point nx) \<le> 65537"
    using room by (auto split: if_splits)
  have "sorted_wrt (<) (map (off o1) (ps @ [nx]))"
    using f by (auto simp: fits_def sorted_wrt_append)
  moreover have "o1 = (if ps @ [nx] = [] then next_point nx else hd (ps @ [nx]))"
    using f by (cases ps) (auto simp: fits_def)
  moreover have "\<forall>p\<in>set (ps @ [nx]). off o1 p < off o1 (next_point nx)"
    using f l unfolding fits_def by fastforce
  ultimately show "fits o1 (next_point nx) (ps @ [nx])"
    using b by (simp add: fits_def)
qed

text \<open>The part of the insertion that changes the timeline, once the tracker has its point.\<close>

definition append_tracker :: "session_id \<Rightarrow> timeline_id \<Rightarrow> tref \<Rightarrow> gpu \<Rightarrow> gpu" where
  "append_tracker s i t \<sigma> = upd_timeline s i
     (\<lambda>l. l\<lparr>point_next := next_point (point_next l), tl_trackers := tl_trackers l @ [t]\<rparr>) \<sigma>"

lemma append_lines:
  "trackers_of (append_tracker s i t \<sigma>) s' i' =
     (if s' = s \<and> i' = i then trackers_of \<sigma> s i @ [t] else trackers_of \<sigma> s' i')"
  "next_of (append_tracker s i t \<sigma>) s' i' =
     (if s' = s \<and> i' = i then next_point (next_of \<sigma> s i) else next_of \<sigma> s' i')"
  "waiters_of (append_tracker s i t \<sigma>) = waiters_of \<sigma>"
  "oldest_of (append_tracker s i t \<sigma>) = oldest_of \<sigma>"
  "g_trackers (append_tracker s i t \<sigma>) = g_trackers \<sigma>"
  "pp_tracker_of (append_tracker s i t \<sigma>) = pp_tracker_of \<sigma>"
  by (simp_all add: view_defs append_tracker_def)

lemma room_iff: "\<not> mali_timeline_is_full (the_timeline \<sigma> s i) \<longleftrightarrow> off (oldest_of \<sigma> s i) (next_of \<sigma> s i) < 65536"
  by (simp add: is_full_iff tspan_def off_def oldest_of_def next_of_def not_le)

lemma lines_append:
  assumes ok: "lines_ok \<sigma>" and room: "\<not> mali_timeline_is_full (the_timeline \<sigma> s i)"
    and t: "point_of \<sigma> t = next_of \<sigma> s i" "t_system (g_trackers \<sigma> t) = s"
      "t_timeline (g_trackers \<sigma> t) = Some i"
  shows "lines_ok (append_tracker s i t \<sigma>)"
proof -
  let ?\<sigma> = "append_tracker s i t \<sigma>"
  have r: "off (oldest_of \<sigma> s i) (next_of \<sigma> s i) < 65536" using room by (simp add: room_iff)
  have f: "fits (oldest_of \<sigma> s i) (next_of \<sigma> s i) (map (point_of \<sigma>) (trackers_of \<sigma> s i))"
    using ok by (simp add: lines_ok_def trackers_ok_def)
  have p: "point_of ?\<sigma> = point_of \<sigma>" by (simp add: fun_eq_iff point_of_def append_lines)
  have "trackers_ok ?\<sigma> s' i'" for s' i'
    using ok [unfolded lines_ok_def] fits_snoc(1) [OF f r] t
    by (auto simp: trackers_ok_def append_lines p)
  moreover have "waiters_ok ?\<sigma> s' i'" for s' i'
  proof -
    have l: "off (oldest_of \<sigma> s i) (next_of \<sigma> s i) < off (oldest_of \<sigma> s i) (next_point (next_of \<sigma> s i))"
      by (rule fits_snoc(2) [OF f r])
    have w: "waiters_ok \<sigma> s' i'" using ok by (simp add: lines_ok_def)
    have "on_line ?\<sigma> s' i' q" if "on_line \<sigma> s' i' q" for q
      using that l by (auto simp: on_line_iff append_lines off_def word_less_nat_alt)
    with w show ?thesis by (auto simp: waiters_ok_def append_lines)
  qed
  ultimately show ?thesis by (simp add: lines_ok_def)
qed

lemma inv_append:
  assumes i: "timeline_inv S H \<sigma>" and room: "\<not> mali_timeline_is_full (the_timeline \<sigma> s i)"
    and t: "point_of \<sigma> t = next_of \<sigma> s i" "t_system (g_trackers \<sigma> t) = s"
      "t_timeline (g_trackers \<sigma> t) = Some i"
  shows "timeline_inv S H (append_tracker s i t \<sigma>)"
proof -
  let ?\<sigma> = "append_tracker s i t \<sigma>"
  have "refs ?\<sigma> = refs \<sigma>" "identity ?\<sigma> = identity \<sigma>"
    by (simp_all add: fun_eq_iff refs_def identity_def append_lines)
  moreover from this have "system_of ?\<sigma> = system_of \<sigma>" by (simp add: fun_eq_iff system_of_def)
  moreover have "has_line ?\<sigma> = has_line \<sigma>"
    by (rule has_line_identity) (simp add: fun_eq_iff identity_def append_lines)
  ultimately show ?thesis
    using i lines_append [OF _ room t] trigger_inv_cong [of ?\<sigma> \<sigma>]
    by (simp add: timeline_inv_def waiters_have_lines_def covers_def append_lines)
qed

lemma insert_tracker_steps:
  "\<not> mali_timeline_is_full (the_timeline \<sigma> s i) \<Longrightarrow>
     mali_timeline_insert_tracker s i t \<sigma> =
       append_tracker s i t (count_tracker t (\<lambda>n. n + 1)
         (upd_tracker t (\<lambda>r. r\<lparr>t_timeline := Some i, t_point := next_of \<sigma> s i\<rparr>) \<sigma>))"
  by (cases t) (simp_all add: mali_timeline_insert_tracker_def append_tracker_def count_tracker_def
      gpu_upd_defs Let_def fun_eq_iff next_of_def)

lemma count_tracker_fields:
  "g_trackers (count_tracker t f \<sigma>) = g_trackers \<sigma>" "g_systems (count_tracker t f \<sigma>) = g_systems \<sigma>"
  by (cases t; simp add: count_tracker_def)+

lemma upd_tracker_systems: "g_systems (upd_tracker t f \<sigma>) = g_systems \<sigma>"
  by (simp add: upd_tracker_def)

lemma inv_insert_tracker:
  assumes i: "timeline_inv S H \<sigma>" and u: "unlisted \<sigma> t" and s: "t_system (g_trackers \<sigma> t) = s"
  shows "timeline_inv S H (mali_timeline_insert_tracker s i t \<sigma>)"
proof (cases "mali_timeline_is_full (the_timeline \<sigma> s i)")
  case True
  then show ?thesis
    using inv_upd_unlisted(1) [OF i u] by (simp add: mali_timeline_insert_tracker_def Let_def)
next
  case False
  let ?f = "\<lambda>r. r\<lparr>t_timeline := Some i, t_point := next_of \<sigma> s i\<rparr>"
  let ?\<sigma> = "count_tracker t (\<lambda>n. n + 1) (upd_tracker t ?f \<sigma>)"
  have "timeline_inv S H (upd_tracker t ?f \<sigma>)" by (rule inv_upd_unlisted(1) [OF i u]) simp
  then have i1: "timeline_inv S H ?\<sigma>" by (rule inv_same_view [OF view_count_tracker])
  have "next_of ?\<sigma> = next_of \<sigma>" "the_timeline ?\<sigma> = the_timeline \<sigma>"
    by (simp_all add: fun_eq_iff next_of_def the_timeline_def count_tracker_fields upd_tracker_systems)
  then show ?thesis
    unfolding insert_tracker_steps [OF False] using False s
    by (intro inv_append [OF i1]) (simp_all add: point_of_def count_tracker_fields upd_tracker_def)
qed

section \<open>Creating waiters\<close>

lemma point_after_offsets:
  assumes "off b p \<le> 65537" "off b q \<le> 65537"
  shows "mali_timeline_point_after p q \<longleftrightarrow> off b q < off b p"
proof -
  have e: "p - q = (p - b) - (q - b)" by simp
  have "unat (p - q) = (if off b q \<le> off b p then off b p - off b q else off b p + 4294967296 - off b q)"
    unfolding e off_def by (rule unat_minus_u32)
  with assms show ?thesis by (auto simp: point_after_iff)
qed

text \<open>The new waiter goes behind those whose points are not after its own.\<close>

lemma insert_waiter_sorted:
  assumes s: "sorted (map (\<lambda>v. off b (w_point v)) ws)"
    and b: "\<forall>v\<in>set ws. off b (w_point v) \<le> 65537" "off b (w_point w) \<le> 65537"
  shows "sorted (map (\<lambda>v. off b (w_point v)) (mali_timeline_insert_waiter w ws))"
proof -
  let ?key = "\<lambda>v. off b (w_point v)"
  have "mali_timeline_insert_waiter w ws =
      [] @ takeWhile (\<lambda>v. ?key v \<le> ?key w) ws @ w # dropWhile (\<lambda>v. ?key v \<le> ?key w) ws"
    unfolding mali_timeline_insert_waiter_def
    using add_after_last_sorted [of ws "\<lambda>v. \<not> mali_timeline_point_after (w_point v) (w_point w)" ?key "?key w" "[]" w]
      s b point_after_offsets [of b _ "w_point w"] by (simp add: not_less)
  with sorted_insert_at [OF s, of w] show ?thesis by simp
qed

lemma insert_waiter_filter:
  "length (filter P (mali_timeline_insert_waiter w ws)) = (if P w then 1 else 0) + length (filter P ws)"
proof -
  have "length (filter P (add_after_last Q w vs)) = (if P w then 1 else 0) + length (filter P vs)" for Q vs
    by (induction vs) auto
  then show ?thesis by (simp add: mali_timeline_insert_waiter_def rev_filter [symmetric])
qed

lemma insert_waiter_set [simp]: "set (mali_timeline_insert_waiter w ws) = insert w (set ws)"
  by (simp add: mali_timeline_insert_waiter_def)

definition new_waiter :: "session_id \<Rightarrow> tref \<Rightarrow> timeline_id \<Rightarrow> timeline_point \<Rightarrow> gpu \<Rightarrow> gpu" where
  "new_waiter s t i p \<sigma> = upd_timeline s i
     (\<lambda>l. l\<lparr>tl_waiters := mali_timeline_insert_waiter \<lparr>w_point = p, w_tracker = t\<rparr> (tl_waiters l)\<rparr>)
     (upd_tracker t (\<lambda>r. r\<lparr>trigger_ref_count := trigger_ref_count r + 1,
                            t_num_waiters := t_num_waiters r + 1\<rparr>) \<sigma>)"

lemma new_waiter_lines:
  "waiters_of (new_waiter s t i p \<sigma>) s' i' =
     (if s' = s \<and> i' = i then mali_timeline_insert_waiter \<lparr>w_point = p, w_tracker = t\<rparr> (waiters_of \<sigma> s i)
      else waiters_of \<sigma> s' i')"
  "trackers_of (new_waiter s t i p \<sigma>) = trackers_of \<sigma>"
  "next_of (new_waiter s t i p \<sigma>) = next_of \<sigma>" "oldest_of (new_waiter s t i p \<sigma>) = oldest_of \<sigma>"
  "identity (new_waiter s t i p \<sigma>) = identity \<sigma>" "pp_tracker_of (new_waiter s t i p \<sigma>) = pp_tracker_of \<sigma>"
  "refs (new_waiter s t i p \<sigma>) u = (if u = t then refs \<sigma> t + 1 else refs \<sigma> u)"
  by (simp_all add: view_defs new_waiter_def)

lemma create_waiter_step:
  assumes i: "timeline_inv S H \<sigma>" and on: "on_line \<sigma> s i p" and s: "system_of \<sigma> t = s" "s \<in> S"
    and small: "unat (refs \<sigma> t) + 1 < 4294967296" and l: "has_line \<sigma> t"
  shows "timeline_inv S H (new_waiter s t i p \<sigma>)"
proof -
  let ?\<sigma> = "new_waiter s t i p \<sigma>"
  have sys: "system_of ?\<sigma> = system_of \<sigma>" by (simp add: fun_eq_iff system_of_def new_waiter_lines)
  have hl: "has_line ?\<sigma> = has_line \<sigma>" by (rule has_line_identity) (simp add: new_waiter_lines)
  have ok: "trackers_ok \<sigma> s' i'" "waiters_ok \<sigma> s' i'" for s' i'
    using i by (simp_all add: timeline_inv_def lines_ok_def)
  have pt: "point_of ?\<sigma> = point_of \<sigma>" by (simp add: fun_eq_iff identity_fields new_waiter_lines)
  have same: "trackers_ok ?\<sigma> = trackers_ok \<sigma>"
    by (simp add: fun_eq_iff trackers_ok_def new_waiter_lines identity_fields(1,2) pt)
  have near: "off (oldest_of \<sigma> s i) q \<le> 65537" if "on_line \<sigma> s i q" for q
    using that ok(1) [of s i] by (auto simp: on_line_iff off_def word_less_nat_alt trackers_ok_def fits_def)
  have line: "on_line ?\<sigma> = on_line \<sigma>" by (simp add: fun_eq_iff on_line_iff new_waiter_lines)
  have w: "\<forall>w\<in>set (waiters_of \<sigma> s i). on_line \<sigma> s i (w_point w)"
    "sorted (map (\<lambda>w. off (oldest_of \<sigma> s i) (w_point w)) (waiters_of \<sigma> s i))"
    using ok(2) [of s i] by (simp_all add: waiters_ok_def)
  have "sorted (map (\<lambda>w. off (oldest_of \<sigma> s i) (w_point w))
      (mali_timeline_insert_waiter \<lparr>w_point = p, w_tracker = t\<rparr> (waiters_of \<sigma> s i)))"
    using w near [OF on] near by (intro insert_waiter_sorted) simp_all
  then have "waiters_ok ?\<sigma> s i"
    using w(1) on by (simp add: waiters_ok_def new_waiter_lines line)
  moreover have "waiters_ok ?\<sigma> s' i'" if "\<not> (s' = s \<and> i' = i)" for s' i'
    using ok(2) [of s' i'] that unfolding waiters_ok_def line by (auto simp: new_waiter_lines)
  ultimately have lines: "lines_ok ?\<sigma>" using ok(1) by (metis lines_ok_def same)
  have tinv: "trigger_inv H {} \<sigma>" using i by (simp add: timeline_inv_def)
  have "waits ?\<sigma> u = waits \<sigma> u + (if u = t then 1 else 0)" for u
    unfolding waits_def sys new_waiter_lines using s(1)
    by (cases i; cases "system_of \<sigma> u = s") (auto simp: insert_waiter_filter)
  moreover have "unat (refs ?\<sigma> u) = unat (refs \<sigma> u) + (if u = t then 1 else 0)" for u
    using small unat_plus_u32 [of "refs \<sigma> t" 1] by (simp add: new_waiter_lines)
  moreover have "holds ?\<sigma> = holds \<sigma>"
    by (simp add: fun_eq_iff holds_def new_waiter_lines split: tref.split)
  ultimately have "trigger_inv H {} ?\<sigma>"
    using tinv s(1) by (auto simp: trigger_inv_def sys new_waiter_lines split: if_splits)
  moreover have "waiters_have_lines ?\<sigma>"
    using i l by (auto simp: timeline_inv_def waiters_have_lines_def new_waiter_lines hl split: if_splits)
  moreover have "covers S ?\<sigma>"
    using i s(2) by (auto simp: timeline_inv_def covers_def new_waiter_lines split: if_splits)
  ultimately show ?thesis using lines by (simp add: timeline_inv_def)
qed

text \<open>One round of the loop: it creates a waiter or changes nothing.\<close>

lemma create_waiter_cases:
  assumes "create_waiter s t i (\<sigma>, left) = (\<sigma>', left')"
  obtains "\<sigma>' = \<sigma>" "left' = left"
  | p where "\<sigma>' = new_waiter s t i p \<sigma>" "on_line \<sigma> s i p" "0 < left" "left' = left - 1"
      "p = f_points (t_fence (g_trackers \<sigma> t)) i" "p \<noteq> NO_POINT"
proof -
  define p where "p = f_points (t_fence (g_trackers \<sigma> t)) i"
  let ?skip = "p = NO_POINT \<or> \<not> mali_timeline_is_point_valid (the_timeline \<sigma> s i) p \<or>
    mali_timeline_is_point_released (the_timeline \<sigma> s i) p \<or> left = 0"
  have "create_waiter s t i (\<sigma>, left) = (if ?skip then (\<sigma>, left) else (new_waiter s t i p \<sigma>, left - 1))"
    by (auto simp: create_waiter_def new_waiter_def Let_def p_def)
  with assms have e: "(\<sigma>', left') = (if ?skip then (\<sigma>, left) else (new_waiter s t i p \<sigma>, left - 1))"
    by simp
  show ?thesis
  proof (cases ?skip)
    case True
    with e that(1) show ?thesis by simp
  next
    case False
    then have on: "on_line \<sigma> s i p" "0 < left" "p \<noteq> NO_POINT"
      by (auto simp: on_line_def mali_timeline_is_point_valid_def)
    from e have "\<sigma>' = new_waiter s t i p \<sigma>" "left' = left - 1"
      unfolding if_not_P [OF False] by simp_all
    with on that(2) [of p] show ?thesis by (simp add: p_def)
  qed
qed

text \<open>What the rounds keep, with room for the references still to be taken.\<close>

definition waiter_round_ok :: "session_id set \<Rightarrow> tref multiset \<Rightarrow> session_id \<Rightarrow> tref \<Rightarrow> nat \<Rightarrow> gpu \<Rightarrow> bool" where
  "waiter_round_ok S H s t k \<sigma> \<longleftrightarrow> timeline_inv S H \<sigma> \<and> system_of \<sigma> t = s \<and> has_line \<sigma> t \<and>
     unat (refs \<sigma> t) + k < 4294967296"

lemma round_ok:
  assumes ok: "waiter_round_ok S H s t (Suc k) \<sigma>" and s: "s \<in> S"
    and c: "create_waiter s t i (\<sigma>, left) = (\<sigma>', left')"
  shows "waiter_round_ok S H s t k \<sigma>'" and "next_of \<sigma>' = next_of \<sigma>" "identity \<sigma>' = identity \<sigma>"
    and "waiting S \<sigma>' \<le> Suc (waiting S \<sigma>)"
proof -
  have o: "timeline_inv S H \<sigma>" "system_of \<sigma> t = s" "has_line \<sigma> t" "unat (refs \<sigma> t) + Suc k < 4294967296"
    using ok by (simp_all add: waiter_round_ok_def)
  have f: "finite S" using o(1) by (simp add: timeline_inv_def covers_def)
  show "waiter_round_ok S H s t k \<sigma>'" using c
  proof (cases rule: create_waiter_cases)
    case (2 p)
    have "timeline_inv S H \<sigma>'" unfolding 2(1)
      by (rule create_waiter_step [OF o(1) 2(2) o(2) s _ o(3)]) (use o(4) in simp)
    moreover have "system_of \<sigma>' t = s" using o(2) by (simp add: 2(1) system_of_def new_waiter_lines)
    moreover have "has_line \<sigma>' t"
      using o(3) has_line_identity [of \<sigma>' \<sigma>] by (simp add: 2(1) new_waiter_lines)
    moreover have "unat (refs \<sigma>' t) = unat (refs \<sigma> t) + 1"
      using o(4) unat_plus_u32 [of "refs \<sigma> t" 1] by (simp add: 2(1) new_waiter_lines)
    ultimately show ?thesis using o(4) by (simp add: waiter_round_ok_def)
  qed (use o in \<open>simp add: waiter_round_ok_def\<close>)
  show "next_of \<sigma>' = next_of \<sigma>" "identity \<sigma>' = identity \<sigma>"
    using c by (cases rule: create_waiter_cases; simp add: new_waiter_lines)+
  show "waiting S \<sigma>' \<le> Suc (waiting S \<sigma>)" using c
  proof (cases rule: create_waiter_cases)
    case (2 p)
    let ?I = "{TIMELINE_GP, TIMELINE_PP, TIMELINE_SOFT}"
    have l: "length (mali_timeline_insert_waiter w ws) = Suc (length ws)" for w ws
      using insert_waiter_filter [of "\<lambda>_. True" w ws] by simp
    have "(\<Sum>i'\<in>?I. length (waiters_of \<sigma>' s' i')) \<le>
        (\<Sum>i'\<in>?I. length (waiters_of \<sigma> s' i')) + (if s' = s then 1 else 0)" for s'
      by (cases i) (auto simp: 2(1) new_waiter_lines l)
    then have "waiting S \<sigma>' \<le> (\<Sum>s'\<in>S. (\<Sum>i'\<in>?I. length (waiters_of \<sigma> s' i')) + (if s' = s then 1 else 0))"
      unfolding waiting_def by (intro sum_mono)
    also have "\<dots> = waiting S \<sigma> + 1"
      unfolding sum.distrib waiting_def using f s by simp
    finally show ?thesis by simp
  qed simp
qed

lemma create_waiters_ok:
  assumes "waiter_round_ok S H s t 3 \<sigma>" and "s \<in> S" and "create_waiters s t (\<sigma>, n) = (\<sigma>', n')"
  shows "waiter_round_ok S H s t 0 \<sigma>'" and "next_of \<sigma>' = next_of \<sigma>" and "identity \<sigma>' = identity \<sigma>"
    and "waiting S \<sigma>' \<le> waiting S \<sigma> + 3"
proof -
  obtain \<sigma>1 n1 where 1: "create_waiter s t TIMELINE_GP (\<sigma>, n) = (\<sigma>1, n1)" by fastforce
  obtain \<sigma>2 n2 where 2: "create_waiter s t TIMELINE_PP (\<sigma>1, n1) = (\<sigma>2, n2)" by fastforce
  have 3: "create_waiter s t TIMELINE_SOFT (\<sigma>2, n2) = (\<sigma>', n')"
    using assms(3) 1 2 by (simp add: create_waiters_def timeline_ids_def)
  have k: "waiter_round_ok S H s t (Suc (Suc (Suc 0))) \<sigma>" using assms(1) by (simp add: numeral_3_eq_3)
  note r1 = round_ok [OF k assms(2) 1]
  note r2 = round_ok [OF r1(1) assms(2) 2]
  note r3 = round_ok [OF r2(1) assms(2) 3]
  from r1 r2 r3 show "waiter_round_ok S H s t 0 \<sigma>'" "next_of \<sigma>' = next_of \<sigma>"
    "identity \<sigma>' = identity \<sigma>" "waiting S \<sigma>' \<le> waiting S \<sigma> + 3" by simp_all
qed

section \<open>Adding a tracker\<close>

lemma inv_dec_trigger:
  assumes "timeline_inv S (add_mset t H) \<sigma>"
  shows "timeline_inv S H (dec_trigger t \<sigma>)"
proof -
  let ?\<sigma> = "dec_trigger t \<sigma>"
  have "lines_ok ?\<sigma>"
    using lines_ok_settles [OF settles_lines [OF lines_dec]] assms by (simp add: timeline_inv_def)
  moreover have "has_line ?\<sigma> = has_line \<sigma>" by (rule has_line_identity [OF others_dec(2)])
  ultimately show ?thesis
    using assms inv_dec(1) [of t H "{}" \<sigma>]
    by (simp add: timeline_inv_def waiters_have_lines_def covers_def others_dec)
qed

lemma inv_cascade:
  assumes "timeline_inv S H \<sigma>" and "call_pre H {} c \<sigma>" and "cascade n c \<sigma> = Done (\<sigma>', m)"
  shows "timeline_inv S H \<sigma>'"
proof -
  note sh = shrink.R_cascade [OF assms(3)]
  show ?thesis
    using assms(1) lines_ok_settles [OF settle.R_cascade [OF assms(3)]]
      cascade_inv [OF assms(3,2)] shrinks_waiters_have_lines [OF sh] shrinks_covers [OF sh]
    by (simp add: timeline_inv_def)
qed

definition fuel_ok :: "session_id set \<Rightarrow> gpu \<Rightarrow> nat \<Rightarrow> bool" where
  "fuel_ok S \<sigma> n \<longleftrightarrow> 9 * waiting S \<sigma> + 36 \<le> n"

lemma activation_returns:
  assumes "timeline_inv S H \<sigma>" and "refs \<sigma> t = 0" and "has_line \<sigma> t" and "9 * waiting S \<sigma> + 8 \<le> n"
  shows "\<exists>\<sigma>' m. cascade n (TrackerActivate t) \<sigma> = Done (\<sigma>', m) \<and> timeline_inv S H \<sigma>' \<and>
           shrinks \<sigma> \<sigma>'"
proof -
  have "fuel_for S (TrackerActivate t) \<sigma> \<le> n" using assms(4) by (cases t) (simp_all add: fuel_for_def)
  then obtain \<sigma>' m where d: "cascade n (TrackerActivate t) \<sigma> = Done (\<sigma>', m)"
    using cascade_returns [of S \<sigma> "TrackerActivate t" n] assms(1,3) by (auto simp: timeline_inv_def)
  moreover have "timeline_inv S H \<sigma>'"
    by (rule inv_cascade [OF assms(1) _ d]) (use assms(1,2) in \<open>simp add: timeline_inv_def\<close>)
  ultimately show ?thesis using shrink.R_cascade by blast
qed

lemma create_and_unlock:
  assumes ok: "timeline_inv S (add_mset t H) \<sigma>" and s: "system_of \<sigma> t = s" "s \<in> S" and l: "has_line \<sigma> t"
    and small: "unat (refs \<sigma> t) + 3 < 4294967296" and n: "fuel_ok S \<sigma> n"
  shows "\<exists>\<sigma>'. mali_timeline_system_create_waiters_and_unlock n s t k \<sigma> = Done \<sigma>' \<and>
           timeline_inv S H \<sigma>' \<and> next_of \<sigma>' = next_of \<sigma> \<and> identity \<sigma>' = identity \<sigma>"
proof -
  obtain \<sigma>1 left where c: "create_waiters s t (\<sigma>, k) = (\<sigma>1, left)" by fastforce
  have r: "waiter_round_ok S (add_mset t H) s t 3 \<sigma>" using assms by (simp add: waiter_round_ok_def)
  note c1 = create_waiters_ok [OF r s(2) c]
  define \<sigma>2 where "\<sigma>2 = (if left \<noteq> 0 then mali_timeline_system_release_waiter_list s left \<sigma>1 else \<sigma>1)"
  have v: "same_view \<sigma>1 \<sigma>2" by (simp add: \<sigma>2_def view_release_list)
  have i2: "timeline_inv S (add_mset t H) \<sigma>2"
    using inv_same_view [OF v] c1(1) by (simp add: waiter_round_ok_def)
  define \<sigma>3 where "\<sigma>3 = dec_trigger t \<sigma>2"
  have i3: "timeline_inv S H \<sigma>3" unfolding \<sigma>3_def by (rule inv_dec_trigger [OF i2])
  have v3: "next_of \<sigma>3 = next_of \<sigma>" "identity \<sigma>3 = identity \<sigma>" "waiting S \<sigma>3 \<le> waiting S \<sigma> + 3"
    using v c1(2,3,4) lines_dec [of \<sigma>2 t]
    by (simp_all add: \<sigma>3_def same_lines_def same_view_def waiting_def)
  have l3: "has_line \<sigma>3 t" using has_line_identity [OF v3(2)] l by simp
  have body: "mali_timeline_system_create_waiters_and_unlock n s t k \<sigma> =
      bind_outcome (if refs \<sigma>3 t = 0 then cascade n (TrackerActivate t) \<sigma>3 else Done (\<sigma>3, MASK_EMPTY))
        (\<lambda>(\<sigma>4, sched). Done (mali_executor_schedule_from_mask sched \<sigma>4))"
    by (simp add: mali_timeline_system_create_waiters_and_unlock_def c Let_def \<sigma>3_def \<sigma>2_def refs_def)
  obtain \<sigma>4 m where r4: "(if refs \<sigma>3 t = 0 then cascade n (TrackerActivate t) \<sigma>3 else Done (\<sigma>3, MASK_EMPTY)) = Done (\<sigma>4, m)"
    and i4: "timeline_inv S H \<sigma>4" and s4: "shrinks \<sigma>3 \<sigma>4"
  proof (cases "refs \<sigma>3 t = 0")
    case True
    have "9 * waiting S \<sigma>3 + 8 \<le> n" using n v3(3) unfolding fuel_ok_def by linarith
    from activation_returns [OF i3 True l3 this] True that show ?thesis by auto
  next
    case False
    with that i3 shrinks_refl show ?thesis by simp
  qed
  have "timeline_inv S H (mali_executor_schedule_from_mask m \<sigma>4)"
    by (rule inv_same_view [OF view_executor i4])
  then show ?thesis
    using body r4 s4 v3 view_executor [of \<sigma>4 m] by (simp add: same_view_def shrinks_def)
qed

text \<open>The point a tracker gets: none when it goes on no timeline or on a full one.\<close>

definition point_given :: "gpu \<Rightarrow> session_id \<Rightarrow> tref \<Rightarrow> timeline_id option \<Rightarrow> timeline_point" where
  "point_given \<sigma> s t line = (case line of None \<Rightarrow> point_of \<sigma> t
     | Some i \<Rightarrow> if mali_timeline_is_full (the_timeline \<sigma> s i) then NO_POINT else next_of \<sigma> s i)"

text \<open>A soft job goes on a timeline that has room.\<close>

definition soft_has_room :: "gpu \<Rightarrow> session_id \<Rightarrow> tref \<Rightarrow> timeline_id option \<Rightarrow> bool" where
  "soft_has_room \<sigma> s t line \<longleftrightarrow> (case t of SoftJob j \<Rightarrow>
     (case line of None \<Rightarrow> False | Some i \<Rightarrow> \<not> mali_timeline_is_full (the_timeline \<sigma> s i)) | _ \<Rightarrow> True)"

lemma full_view: "same_view \<sigma> \<sigma>' \<Longrightarrow>
    mali_timeline_is_full (the_timeline \<sigma>' s i) = mali_timeline_is_full (the_timeline \<sigma> s i)"
  using room_iff [of \<sigma> s i] room_iff [of \<sigma>' s i] by (auto simp: same_view_def)

lemma insert_tracker_fields:
  assumes "mali_timeline_insert_tracker s i t \<sigma> = \<sigma>'"
  shows "t_point (g_trackers \<sigma>' t) =
           (if mali_timeline_is_full (the_timeline \<sigma> s i) then NO_POINT else next_of \<sigma> s i)"
    and "system_of \<sigma>' = system_of \<sigma>" and "refs \<sigma>' = refs \<sigma>"
    and "waiters_of \<sigma>' = waiters_of \<sigma>"
    and "\<not> mali_timeline_is_full (the_timeline \<sigma> s i) \<Longrightarrow> t_timeline (g_trackers \<sigma>' t) = Some i"
  by (cases "mali_timeline_is_full (the_timeline \<sigma> s i)";
      simp add: assms [symmetric] insert_tracker_steps append_lines count_tracker_fields fun_eq_iff
        refs_def system_of_def identity_def Let_def;
      simp add: mali_timeline_insert_tracker_def Let_def gpu_upd_defs waiters_of_def)+

lemma add_tracker_returns:
  assumes i: "timeline_inv S (add_mset t H) \<sigma>" and u: "unlisted \<sigma> t" and s: "s \<in> S"
    and small: "unat (refs \<sigma> t) + 3 < 4294967296" and room: "soft_has_room \<sigma> s t line"
    and n: "fuel_ok S \<sigma> n"
  shows "\<exists>\<sigma>'. mali_timeline_system_add_tracker n k s t line \<sigma> = Done (\<sigma>', point_given \<sigma> s t line) \<and>
           timeline_inv S H \<sigma>'"
proof -
  define \<sigma>1 where "\<sigma>1 = upd_tracker t (\<lambda>r. r\<lparr>t_system := s\<rparr>) \<sigma>"
  have i1: "timeline_inv S (add_mset t H) \<sigma>1" and u1: "unlisted \<sigma>1 t"
    unfolding \<sigma>1_def by (rule inv_upd_unlisted [OF i u]; simp)+
  obtain \<sigma>2 a where a: "mali_timeline_system_allocate_waiters s
      (mali_timeline_fence_num_waiters (t_fence (g_trackers \<sigma>1 t))) k \<sigma>1 = (\<sigma>2, a)" by fastforce
  note v = view_allocate [OF a]
  have i2: "timeline_inv S (add_mset t H) \<sigma>2" by (rule inv_same_view [OF v i1])
  have f1: "next_of \<sigma>1 = next_of \<sigma>" "oldest_of \<sigma>1 = oldest_of \<sigma>" "refs \<sigma>1 = refs \<sigma>"
      "waiters_of \<sigma>1 = waiters_of \<sigma>" "system_of \<sigma>1 t = s" "point_of \<sigma>1 t = point_of \<sigma> t"
    by (simp_all add: \<sigma>1_def upd_tracker_lists system_of_upd)
      (simp_all add: fun_eq_iff refs_def point_of_def upd_tracker_def)
  have f2: "next_of \<sigma>2 = next_of \<sigma>" "oldest_of \<sigma>2 = oldest_of \<sigma>" "refs \<sigma>2 = refs \<sigma>"
      "waiters_of \<sigma>2 = waiters_of \<sigma>" "system_of \<sigma>2 t = s" "point_of \<sigma>2 t = point_of \<sigma> t"
      "unlisted \<sigma>2 t"
    using v f1 u1 by (simp_all add: same_view_def system_of_def identity_fields unlisted_def)
  have full: "mali_timeline_is_full (the_timeline \<sigma>2 s j) = mali_timeline_is_full (the_timeline \<sigma> s j)" for j
    using room_iff [of \<sigma> s j] room_iff [of \<sigma>2 s j] f2(1,2) by auto
  define \<sigma>3 where "\<sigma>3 = (case line of Some i \<Rightarrow> mali_timeline_insert_tracker s i t \<sigma>2 | None \<Rightarrow> \<sigma>2)"
  have sys2: "t_system (g_trackers \<sigma>2 t) = s"
    using f2(5) by (simp add: system_of_def identity_fields)
  have i3: "timeline_inv S (add_mset t H) \<sigma>3"
    using i2 inv_insert_tracker [OF i2 f2(7) sys2] by (simp add: \<sigma>3_def split: option.split)
  have p: "t_point (g_trackers \<sigma>3 t) = point_given \<sigma> s t line"
    using insert_tracker_fields(1) [OF refl] f2(1,6) full
    by (auto simp: \<sigma>3_def point_given_def point_of_def split: option.split)
  have f3: "refs \<sigma>3 = refs \<sigma>" "waiters_of \<sigma>3 = waiters_of \<sigma>" "system_of \<sigma>3 t = s"
    using insert_tracker_fields(2,3,4) [OF refl] f2 by (simp_all add: \<sigma>3_def split: option.split)
  have l: "has_line \<sigma>3 t"
    using room insert_tracker_fields(5) [OF refl] full
    by (auto simp: has_line_def soft_has_room_def \<sigma>3_def split: tref.splits option.splits)
  have "fuel_ok S \<sigma>3 n" using n f3(2) by (simp add: fuel_ok_def waiting_def)
  then obtain \<sigma>4 where "mali_timeline_system_create_waiters_and_unlock n s t a \<sigma>3 = Done \<sigma>4"
    and "timeline_inv S H \<sigma>4"
    using create_and_unlock [OF i3 f3(3) s l] small f3(1) by auto
  moreover have "mali_timeline_system_add_tracker n k s t line \<sigma> =
      bind_outcome (mali_timeline_system_create_waiters_and_unlock n s t a \<sigma>3)
        (\<lambda>\<sigma>4. Done (\<sigma>4, t_point (g_trackers \<sigma>3 t)))"
    by (simp add: mali_timeline_system_add_tracker_def \<sigma>1_def [symmetric] a \<sigma>3_def Let_def)
  ultimately show ?thesis using p by simp
qed

end
