(* ===== verification/Timeline_Order.thy ===== *)
theory Timeline_Order
  imports Timeline_Invariant
begin

text \<open>
  Who waits for whom: a rank on trackers that grows along every wait and every hold, kept by
  everything that adds a tracker or releases one. The tracker of least rank on a session's
  timelines waits for nothing, which is the absence of deadlock.
\<close>

section \<open>Who waits for whom\<close>

text \<open>A rank that grows from what is waited for to what waits.\<close>

definition ranks :: "gpu \<Rightarrow> (tref \<Rightarrow> nat) \<Rightarrow> bool" where
  "ranks \<sigma> r \<longleftrightarrow>
     (\<forall>s i. \<forall>w\<in>set (waiters_of \<sigma> s i). \<forall>t\<in>set (trackers_of \<sigma> s i).
        \<not> mali_timeline_point_after (point_of \<sigma> t) (w_point w) \<longrightarrow> r t < r (w_tracker w)) \<and>
     (\<forall>j p. pp_tracker_of \<sigma> j = Some p \<longrightarrow> r (GPJob j) < r (PPJob p))"

definition acyclic_waits :: "gpu \<Rightarrow> bool" where
  "acyclic_waits \<sigma> \<longleftrightarrow> (\<exists>r B. ranks \<sigma> r \<and> (\<forall>t. r t < B))"

lemma acyclic_shrinks: "shrinks \<sigma> \<sigma>' \<Longrightarrow> acyclic_waits \<sigma> \<Longrightarrow> acyclic_waits \<sigma>'"
proof -
  assume s: "shrinks \<sigma> \<sigma>'" and a: "acyclic_waits \<sigma>"
  have sub: "set (waiters_of \<sigma>' x i) \<subseteq> set (waiters_of \<sigma> x i)"
    "set (trackers_of \<sigma>' x i) \<subseteq> set (trackers_of \<sigma> x i)" for x i
    using s set_mono_suffix subseq_subset unfolding shrinks_def by metis+
  have p: "point_of \<sigma>' = point_of \<sigma>"
    using s by (simp add: fun_eq_iff identity_fields shrinks_def)
  have h: "pp_tracker_of \<sigma>' j = Some q \<Longrightarrow> pp_tracker_of \<sigma> j = Some q" for j q
    using s unfolding shrinks_def by (metis insertE option.distinct(1) singletonD)
  from a obtain r B where "ranks \<sigma> r" "\<forall>t. r t < B" by (auto simp: acyclic_waits_def)
  moreover from this(1) have "ranks \<sigma>' r"
    using sub h unfolding ranks_def p by (meson subsetD)
  ultimately show ?thesis by (auto simp: acyclic_waits_def)
qed

lemma acyclic_view: "same_view \<sigma> \<sigma>' \<Longrightarrow> acyclic_waits \<sigma> \<Longrightarrow> acyclic_waits \<sigma>'"
  by (rule acyclic_shrinks [OF shrinks_view])

text \<open>Liveness: the tracker of least rank on the timelines of a session waits for nothing but a
  GP job that is on no timeline.\<close>

lemma some_runnable:
  assumes i: "timeline_inv S {#} \<sigma>" and a: "acyclic_waits \<sigma>" and ne: "trackers_of \<sigma> s k \<noteq> []"
  shows "\<exists>i t. t \<in> set (trackers_of \<sigma> s i) \<and>
           (refs \<sigma> t = 0 \<or> (\<exists>p j. t = PPJob p \<and> pp_tracker_of \<sigma> j = Some p \<and>
              (\<forall>i'. GPJob j \<notin> set (trackers_of \<sigma> s i'))))"
proof -
  obtain r B where r: "ranks \<sigma> r" using a by (auto simp: acyclic_waits_def)
  have "\<exists>t i. t \<in> set (trackers_of \<sigma> s i)" using ne by (meson list.set_sel(1))
  then obtain t0 where "\<exists>i. t0 \<in> set (trackers_of \<sigma> s i)" by blast
  then obtain t where t: "\<exists>i. t \<in> set (trackers_of \<sigma> s i)"
    and least: "\<And>u. \<exists>i. u \<in> set (trackers_of \<sigma> s i) \<Longrightarrow> r t \<le> r u"
    using ex_has_least_nat [of "\<lambda>t. \<exists>i. t \<in> set (trackers_of \<sigma> s i)" t0 r] by blast
  then obtain i where ti: "t \<in> set (trackers_of \<sigma> s i)" by blast
  have ok: "trackers_ok \<sigma> s' i'" "waiters_ok \<sigma> s' i'" for s' i'
    using assms(1) by (simp_all add: timeline_inv_def lines_ok_def)
  have inv: "trigger_inv {#} {} \<sigma>" using assms(1) by (simp add: timeline_inv_def)
  have sys: "system_of \<sigma> t = s" using ok(1) [of s i] ti by (simp add: trackers_ok_def system_of_def identity_fields)
  have no_wait: "w_tracker w \<noteq> t" if w: "w \<in> set (waiters_of \<sigma> s i')" for w i'
  proof
    assume e: "w_tracker w = t"
    have on: "on_line \<sigma> s i' (w_point w)" using ok(2) w by (simp add: waiters_ok_def)
    have f: "fits (oldest_of \<sigma> s i') (next_of \<sigma> s i') (map (point_of \<sigma>) (trackers_of \<sigma> s i'))"
      using ok(1) by (simp add: trackers_ok_def)
    obtain u us where u: "trackers_of \<sigma> s i' = u # us"
    proof (cases "trackers_of \<sigma> s i'")
      case Nil
      then have "oldest_of \<sigma> s i' = next_of \<sigma> s i'" using f by (simp add: fits_def)
      with on show ?thesis by (simp add: on_line_iff)
    qed
    have "point_of \<sigma> u = oldest_of \<sigma> s i'" using f u by (simp add: fits_def)
    moreover have "off (oldest_of \<sigma> s i') (w_point w) \<le> 65537"
      using on f by (auto simp: on_line_iff fits_def off_def word_less_nat_alt)
    ultimately have "\<not> mali_timeline_point_after (point_of \<sigma> u) (w_point w)"
      using point_after_offsets [of "oldest_of \<sigma> s i'" "point_of \<sigma> u" "w_point w"] by simp
    then have "r u < r t" using r w e u unfolding ranks_def by (metis list.set_intros(1))
    moreover have "r t \<le> r u" using least u by (metis list.set_intros(1))
    ultimately show False by simp
  qed
  have "waits \<sigma> t = 0" unfolding waits_def sys using no_wait by (simp add: filter_empty_conv)
  then have cnt: "unat (refs \<sigma> t) = holds \<sigma> {} t" using inv by (simp add: trigger_inv_def)
  show ?thesis
  proof (cases "refs \<sigma> t = 0")
    case False
    then have "unat (refs \<sigma> t) \<noteq> 0" by (simp add: unat_eq_0)
    then have "holds \<sigma> {} t \<noteq> 0" using cnt by simp
    then obtain p where p: "t = PPJob p" and "card {j. pp_tracker_of \<sigma> j = Some p} \<noteq> 0"
      by (auto simp: holds_def split: tref.splits)
    then obtain j where j: "pp_tracker_of \<sigma> j = Some p" by (metis (mono_tags) card_eq_0_iff empty_Collect_eq)
    have "r (GPJob j) < r t" using r j p by (simp add: ranks_def)
    then have "\<forall>i'. GPJob j \<notin> set (trackers_of \<sigma> s i')" using least by (metis not_le)
    with ti p j show ?thesis by blast
  qed (use ti in blast)
qed

section \<open>Adding a tracker keeps the order\<close>

text \<open>What the part of \<open>add_tracker\<close> before the activation adds to the timelines.\<close>

definition adds :: "session_id \<Rightarrow> tref \<Rightarrow> timeline_id option \<Rightarrow> gpu \<Rightarrow> gpu \<Rightarrow> bool" where
  "adds s t line \<sigma> \<sigma>' \<longleftrightarrow> pp_tracker_of \<sigma>' = pp_tracker_of \<sigma> \<and>
     (\<forall>u. u \<noteq> t \<longrightarrow> identity \<sigma>' u = identity \<sigma> u) \<and>
     (\<forall>s' i. line \<noteq> Some i \<longrightarrow> next_of \<sigma>' s' i = next_of \<sigma> s' i) \<and>
     (\<forall>s' i. set (trackers_of \<sigma>' s' i) \<subseteq> insert t (set (trackers_of \<sigma> s' i)) \<and>
        (t \<in> set (trackers_of \<sigma>' s' i) \<longrightarrow>
           s' = s \<and> line = Some i \<and> point_of \<sigma>' t = next_of \<sigma> s i)) \<and>
     (\<forall>s' i. \<forall>w\<in>set (waiters_of \<sigma>' s' i). w \<in> set (waiters_of \<sigma> s' i) \<or>
        (w_tracker w = t \<and> (line = Some i \<longrightarrow> s' = s \<longrightarrow>
           mali_timeline_point_after (next_of \<sigma> s i) (w_point w))))"

lemma acyclic_adds:
  assumes ok: "lines_ok \<sigma>" and r: "ranks \<sigma> r" "\<forall>u. r u < B"
    and u: "\<And>s i. t \<notin> w_tracker ` set (waiters_of \<sigma> s i)"
    and top: "\<And>u s i. u \<in> set (trackers_of \<sigma> s i) \<Longrightarrow> u \<noteq> t \<Longrightarrow> r u < r t"
    and a: "adds s t line \<sigma> \<sigma>'"
  shows "ranks \<sigma>' r"
  unfolding ranks_def
proof (intro conjI allI ballI impI)
  fix j p assume "pp_tracker_of \<sigma>' j = Some p"
  then show "r (GPJob j) < r (PPJob p)" using r(1) a by (simp add: ranks_def adds_def)
next
  fix s' i w v
  assume w: "w \<in> set (waiters_of \<sigma>' s' i)" and v: "v \<in> set (trackers_of \<sigma>' s' i)"
    and after: "\<not> mali_timeline_point_after (point_of \<sigma>' v) (w_point w)"
  show "r v < r (w_tracker w)"
  proof (cases "v = t")
    case True
    then have new: "s' = s" "line = Some i" "point_of \<sigma>' t = next_of \<sigma> s i"
      using a v by (auto simp: adds_def)
    have "mali_timeline_point_after (next_of \<sigma> s i) (w_point w)"
    proof (cases "w \<in> set (waiters_of \<sigma> s i)")
      case old: True
      have f: "off (oldest_of \<sigma> s i) (next_of \<sigma> s i) \<le> 65537"
        using ok unfolding lines_ok_def trackers_ok_def fits_def by blast
      have "on_line \<sigma> s i (w_point w)" using ok old by (auto simp: lines_ok_def waiters_ok_def)
      then have l: "off (oldest_of \<sigma> s i) (w_point w) < off (oldest_of \<sigma> s i) (next_of \<sigma> s i)"
        by (simp add: on_line_iff off_def word_less_nat_alt)
      with f show ?thesis by (subst point_after_offsets [of "oldest_of \<sigma> s i"]) simp_all
    next
      case False
      then show ?thesis using a w new unfolding adds_def by blast
    qed
    with after True new(3) show ?thesis by simp
  next
    case False
    then have v': "v \<in> set (trackers_of \<sigma> s' i)" and "identity \<sigma>' v = identity \<sigma> v"
      using a v unfolding adds_def by blast+
    then have p: "point_of \<sigma>' v = point_of \<sigma> v" by (simp add: identity_fields)
    show ?thesis
    proof (cases "w \<in> set (waiters_of \<sigma> s' i)")
      case True
      with r(1) v' after p show ?thesis by (simp add: ranks_def)
    next
      case new: False
      then have "w_tracker w = t" using a w unfolding adds_def by blast
      with top [OF v' False] show ?thesis by simp
    qed
  qed
qed

text \<open>A new tracker can be put on top; a GP job together with the PP job it holds.\<close>

definition fresh_for :: "gpu \<Rightarrow> tref \<Rightarrow> bool" where
  "fresh_for \<sigma> t \<longleftrightarrow> unlisted \<sigma> t \<and> (\<forall>j p. t = GPJob j \<longrightarrow> pp_tracker_of \<sigma> j = Some p \<longrightarrow>
     unlisted \<sigma> (PPJob p))"

lemma raise_rank:
  assumes a: "acyclic_waits \<sigma>" and f: "fresh_for \<sigma> t"
  shows "\<exists>r B. ranks \<sigma> r \<and> (\<forall>u. r u < B) \<and> (\<forall>u s i. u \<in> set (trackers_of \<sigma> s i) \<longrightarrow> u \<noteq> t \<longrightarrow> r u < r t)"
proof -
  obtain r B where r: "ranks \<sigma> r" "\<And>u. r u < B" using a by (auto simp: acyclic_waits_def)
  define q where "q = (case t of GPJob j \<Rightarrow> pp_tracker_of \<sigma> j | _ \<Rightarrow> None)"
  define r' where "r' = (\<lambda>u. if u = t then B else if \<exists>p. q = Some p \<and> u = PPJob p then B + 1 else r u)"
  have up: "r u \<le> r' u" for u using r(2) [of u] by (auto simp: r'_def)
  have low: "r' u = r u" if "u \<in> set (trackers_of \<sigma> s i)" for u s i
    using that f by (auto simp: r'_def q_def fresh_for_def unlisted_def split: tref.splits)
  have "ranks \<sigma> r'"
    unfolding ranks_def
  proof (intro conjI allI ballI impI)
    fix s i w v
    assume "w \<in> set (waiters_of \<sigma> s i)" "v \<in> set (trackers_of \<sigma> s i)"
      "\<not> mali_timeline_point_after (point_of \<sigma> v) (w_point w)"
    then have "r v < r (w_tracker w)" "r' v = r v" using r(1) low by (auto simp: ranks_def)
    with up [of "w_tracker w"] show "r' v < r' (w_tracker w)" by linarith
  next
    fix j p assume h: "pp_tracker_of \<sigma> j = Some p"
    have l: "r (GPJob j) < r (PPJob p)" using r(1) h by (simp add: ranks_def)
    show "r' (GPJob j) < r' (PPJob p)"
    proof (cases "t = GPJob j")
      case True
      then show ?thesis using h by (simp add: r'_def q_def)
    next
      case False
      then have "r' (GPJob j) = r (GPJob j)" by (simp add: r'_def)
      with l up [of "PPJob p"] show ?thesis by linarith
    qed
  qed
  moreover have "\<forall>u. r' u < B + 2" using r(2) by (simp add: r'_def less_Suc_eq less_SucI)
  moreover have "r' u < r' t" if "u \<in> set (trackers_of \<sigma> s i)" "u \<noteq> t" for u s i
    using low [OF that(1)] r(2) [of u] by (simp add: r'_def)
  ultimately show ?thesis by blast
qed

section \<open>The waiters of a new tracker\<close>

definition fence_point :: "gpu \<Rightarrow> tref \<Rightarrow> timeline_id \<Rightarrow> timeline_point" where
  "fence_point \<sigma> t i = f_points (t_fence (g_trackers \<sigma> t)) i"

definition waiters_added :: "session_id \<Rightarrow> tref \<Rightarrow> gpu \<Rightarrow> gpu \<Rightarrow> bool" where
  "waiters_added s t \<sigma> \<sigma>' \<longleftrightarrow> trackers_of \<sigma>' = trackers_of \<sigma> \<and> next_of \<sigma>' = next_of \<sigma> \<and>
     oldest_of \<sigma>' = oldest_of \<sigma> \<and> identity \<sigma>' = identity \<sigma> \<and> pp_tracker_of \<sigma>' = pp_tracker_of \<sigma> \<and>
     (\<forall>s' i. \<forall>w\<in>set (waiters_of \<sigma>' s' i). w \<in> set (waiters_of \<sigma> s' i) \<or>
        (s' = s \<and> w_tracker w = t \<and> w_point w = fence_point \<sigma> t i \<and> w_point w \<noteq> NO_POINT \<and>
         on_line \<sigma> s i (w_point w)))"

lemma fence_identity: "identity \<sigma>' = identity \<sigma> \<Longrightarrow> fence_point \<sigma>' = fence_point \<sigma>"
proof (intro ext)
  fix t i assume "identity \<sigma>' = identity \<sigma>"
  then have "identity \<sigma>' t = identity \<sigma> t" by simp
  then show "fence_point \<sigma>' t i = fence_point \<sigma> t i" by (simp add: fence_point_def identity_def Let_def)
qed

lemma waiters_added_refl: "waiters_added s t \<sigma> \<sigma>"
  by (simp add: waiters_added_def)

lemma waiters_added_trans:
  assumes "waiters_added s t \<sigma> \<sigma>1" and "waiters_added s t \<sigma>1 \<sigma>2"
  shows "waiters_added s t \<sigma> \<sigma>2"
proof -
  have "fence_point \<sigma>1 = fence_point \<sigma>" using assms(1) by (intro fence_identity) (simp add: waiters_added_def)
  moreover have "on_line \<sigma>1 = on_line \<sigma>" using assms(1) by (simp add: fun_eq_iff on_line_iff waiters_added_def)
  ultimately show ?thesis using assms unfolding waiters_added_def by simp blast
qed

lemma create_waiter_adds:
  assumes "create_waiter s t i (\<sigma>, left) = (\<sigma>', left')"
  shows "waiters_added s t \<sigma> \<sigma>'"
  using assms
proof (cases rule: create_waiter_cases)
  case 1
  then show ?thesis by (simp add: waiters_added_refl)
next
  case (2 p)
  then show ?thesis by (auto simp: waiters_added_def new_waiter_lines fence_point_def)
qed

lemma create_waiters_adds:
  assumes "create_waiters s t (\<sigma>, n) = (\<sigma>', n')"
  shows "waiters_added s t \<sigma> \<sigma>'"
proof -
  obtain \<sigma>1 n1 where 1: "create_waiter s t TIMELINE_GP (\<sigma>, n) = (\<sigma>1, n1)" by fastforce
  obtain \<sigma>2 n2 where 2: "create_waiter s t TIMELINE_PP (\<sigma>1, n1) = (\<sigma>2, n2)" by fastforce
  have 3: "create_waiter s t TIMELINE_SOFT (\<sigma>2, n2) = (\<sigma>', n')"
    using assms 1 2 by (simp add: create_waiters_def timeline_ids_def)
  show ?thesis
    by (rule waiters_added_trans [OF create_waiter_adds [OF 1]
          waiters_added_trans [OF create_waiter_adds [OF 2] create_waiter_adds [OF 3]]])
qed

text \<open>A point on the timeline that has grown by one point was on it before, or is the new one.\<close>

lemma before_next:
  assumes "off b p < off b (next_point nx)" "off b nx < 65536" "p \<noteq> nx" "p \<noteq> NO_POINT"
  shows "off b p < off b nx"
proof -
  have d: "off b (next_point nx) = off b nx + (if nx + 1 = 0 then 2 else 1)"
    using assms(2) unfolding off_def by (intro next_point_dist) simp
  have inj: "p = q" if "off b p = off b q" for q
  proof -
    from that have "p - b = q - b" unfolding off_def by (simp only: word_unat_eq_iff)
    then show ?thesis by simp
  qed
  have "off b p \<noteq> off b nx" using inj assms(3) by blast
  moreover have "off b p \<noteq> off b nx + 1" if "nx + 1 = 0"
  proof
    assume e: "off b p = off b nx + 1"
    have "off b (nx + 1) = off b nx + 1"
    proof -
      have "nx + 1 - b = (nx - b) + 1" by simp
      with assms(2) show ?thesis unfolding off_def by (simp only: unat_plus_u32) simp
    qed
    with e inj [of "nx + 1"] that assms(4) show False by (simp add: NO_POINT_def)
  qed
  ultimately show ?thesis using assms(1) d by (auto split: if_splits)
qed

lemma insert_tracker_lists:
  assumes "mali_timeline_insert_tracker s i t \<sigma> = \<sigma>'"
  shows "trackers_of \<sigma>' s' i' = (if s' = s \<and> i' = i \<and> \<not> mali_timeline_is_full (the_timeline \<sigma> s i)
           then trackers_of \<sigma> s i @ [t] else trackers_of \<sigma> s' i')"
    and "next_of \<sigma>' s' i' = (if s' = s \<and> i' = i \<and> \<not> mali_timeline_is_full (the_timeline \<sigma> s i)
           then next_point (next_of \<sigma> s i) else next_of \<sigma> s' i')"
    and "oldest_of \<sigma>' = oldest_of \<sigma>" and "pp_tracker_of \<sigma>' = pp_tracker_of \<sigma>"
    and "u \<noteq> t \<Longrightarrow> identity \<sigma>' u = identity \<sigma> u"
    and "t_fence (g_trackers \<sigma>' t) = t_fence (g_trackers \<sigma> t)"
  by (cases "mali_timeline_is_full (the_timeline \<sigma> s i)"; cases t;
      simp add: assms [symmetric] mali_timeline_insert_tracker_def count_tracker_def view_defs
        point_of_def)+

lemma unlock_adds:
  assumes "mali_timeline_system_create_waiters_and_unlock n s t k \<sigma> = Done \<sigma>'"
  shows "\<exists>\<tau>. waiters_added s t \<sigma> \<tau> \<and> shrinks \<tau> \<sigma>'"
proof -
  obtain \<sigma>1 left where c: "create_waiters s t (\<sigma>, k) = (\<sigma>1, left)" by fastforce
  define \<sigma>2 where "\<sigma>2 = (if left \<noteq> 0 then mali_timeline_system_release_waiter_list s left \<sigma>1 else \<sigma>1)"
  have v: "shrinks \<sigma>1 \<sigma>2" by (simp add: \<sigma>2_def shrinks_view [OF view_release_list] shrinks_refl)
  obtain \<sigma>4 m where r: "(if refs (dec_trigger t \<sigma>2) t = 0 then cascade n (TrackerActivate t) (dec_trigger t \<sigma>2)
        else Done (dec_trigger t \<sigma>2, MASK_EMPTY)) = Done (\<sigma>4, m)"
    and e: "\<sigma>' = mali_executor_schedule_from_mask m \<sigma>4"
    using assms
    by (auto simp: mali_timeline_system_create_waiters_and_unlock_def c Let_def \<sigma>2_def refs_def
        bind_outcome_Done split: if_splits)
  have "shrinks (dec_trigger t \<sigma>2) \<sigma>4"
    using r shrink.R_cascade shrinks_refl by (auto split: if_splits)
  then have "shrinks \<sigma>1 \<sigma>'"
    unfolding e using v shrinks_trans shrinks_dec shrinks_view [OF view_executor] by meson
  with create_waiters_adds [OF c] show ?thesis by blast
qed

text \<open>A fence is fine when it does not name the point the new tracker is about to get.\<close>

definition fence_ok :: "gpu \<Rightarrow> session_id \<Rightarrow> tref \<Rightarrow> timeline_id option \<Rightarrow> bool" where
  "fence_ok \<sigma> s t line \<longleftrightarrow> (case line of None \<Rightarrow> True | Some i \<Rightarrow> fence_point \<sigma> t i \<noteq> next_of \<sigma> s i)"

lemma add_tracker_adds:
  assumes ok: "lines_ok \<sigma>" and u: "unlisted \<sigma> t" and f: "fence_ok \<sigma> s t line"
    and d: "mali_timeline_system_add_tracker n k s t line \<sigma> = Done (\<sigma>', p)"
  shows "\<exists>\<tau>. adds s t line \<sigma> \<tau> \<and> shrinks \<tau> \<sigma>'"
proof -
  define \<sigma>1 where "\<sigma>1 = upd_tracker t (\<lambda>r. r\<lparr>t_system := s\<rparr>) \<sigma>"
  obtain \<sigma>2 a where a: "mali_timeline_system_allocate_waiters s
      (mali_timeline_fence_num_waiters (t_fence (g_trackers \<sigma>1 t))) k \<sigma>1 = (\<sigma>2, a)" by fastforce
  note v = view_allocate [OF a]
  have f1: "next_of \<sigma>1 = next_of \<sigma>" "oldest_of \<sigma>1 = oldest_of \<sigma>" "waiters_of \<sigma>1 = waiters_of \<sigma>"
      "trackers_of \<sigma>1 = trackers_of \<sigma>" "pp_tracker_of \<sigma>1 = pp_tracker_of \<sigma>"
    by (simp_all add: \<sigma>1_def upd_tracker_lists)
  have g1: "point_of \<sigma>1 = point_of \<sigma>" "fence_point \<sigma>1 = fence_point \<sigma>"
    by (simp_all add: \<sigma>1_def fun_eq_iff point_of_def fence_point_def upd_tracker_def)
  have f2: "next_of \<sigma>2 = next_of \<sigma>" "oldest_of \<sigma>2 = oldest_of \<sigma>" "waiters_of \<sigma>2 = waiters_of \<sigma>"
      "trackers_of \<sigma>2 = trackers_of \<sigma>" "pp_tracker_of \<sigma>2 = pp_tracker_of \<sigma>"
      "point_of \<sigma>2 = point_of \<sigma>" "fence_point \<sigma>2 = fence_point \<sigma>"
      "\<And>u. u \<noteq> t \<Longrightarrow> identity \<sigma>2 u = identity \<sigma> u"
    using v f1 g1 fence_identity [of \<sigma>2 \<sigma>1] by (simp_all add: same_view_def identity_fields fun_eq_iff)
      (simp add: \<sigma>1_def identity_def upd_tracker_def)
  define \<sigma>3 where "\<sigma>3 = (case line of Some i \<Rightarrow> mali_timeline_insert_tracker s i t \<sigma>2 | None \<Rightarrow> \<sigma>2)"
  define full where "full i = mali_timeline_is_full (the_timeline \<sigma>2 s i)" for i
  note ins = insert_tracker_lists [OF refl, where s = s and t = t and \<sigma> = \<sigma>2, folded full_def]
  note fields = insert_tracker_fields [OF refl, where s = s and t = t and \<sigma> = \<sigma>2, folded full_def]
  have room: "\<not> full i \<longleftrightarrow> off (oldest_of \<sigma> s i) (next_of \<sigma> s i) < 65536" for i
    unfolding full_def room_iff f2 by (rule refl)
  have small: "off (oldest_of \<sigma> s i) (next_of \<sigma> s i) \<le> 65537" for i
    using ok unfolding lines_ok_def trackers_ok_def fits_def by blast
  have f3: "oldest_of \<sigma>3 = oldest_of \<sigma>" "pp_tracker_of \<sigma>3 = pp_tracker_of \<sigma>"
    "waiters_of \<sigma>3 = waiters_of \<sigma>" "fence_point \<sigma>3 t = fence_point \<sigma> t"
    "\<And>u. u \<noteq> t \<Longrightarrow> identity \<sigma>3 u = identity \<sigma> u"
    "\<And>s' i. trackers_of \<sigma>3 s' i = (if s' = s \<and> line = Some i \<and> \<not> full i then trackers_of \<sigma> s i @ [t] else trackers_of \<sigma> s' i)"
    "\<And>s' i. next_of \<sigma>3 s' i = (if s' = s \<and> line = Some i \<and> \<not> full i then next_point (next_of \<sigma> s i) else next_of \<sigma> s' i)"
    "\<And>i. line = Some i \<Longrightarrow> \<not> full i \<Longrightarrow> point_of \<sigma>3 t = next_of \<sigma> s i"
    using ins fields(1,4) f2
    by (simp_all add: \<sigma>3_def fence_point_def fun_eq_iff point_of_def split: option.split)
  obtain \<tau> where w: "waiters_added s t \<sigma>3 \<tau>" and sh: "shrinks \<tau> \<sigma>'"
    using d unlock_adds [of n s t a \<sigma>3 \<sigma>']
    by (auto simp: mali_timeline_system_add_tracker_def \<sigma>1_def [symmetric] a \<sigma>3_def Let_def bind_outcome_Done)
  have pt: "point_of \<tau> = point_of \<sigma>3"
    using w by (simp add: fun_eq_iff waiters_added_def identity_fields)
  have new_after: "mali_timeline_point_after (next_of \<sigma> s i) q"
    if l: "line = Some i" and q: "q = fence_point \<sigma> t i" "q \<noteq> NO_POINT" "on_line \<sigma>3 s i q" for i q
  proof -
    have on: "off (oldest_of \<sigma> s i) q < off (oldest_of \<sigma> s i) (next_of \<sigma>3 s i)"
      using q(3) f3(1) by (simp add: on_line_iff off_def word_less_nat_alt)
    have "q \<noteq> next_of \<sigma> s i" using f l q(1) by (simp add: fence_ok_def)
    then have "off (oldest_of \<sigma> s i) q < off (oldest_of \<sigma> s i) (next_of \<sigma> s i)"
      using on l q(2) room [of i] before_next [of "oldest_of \<sigma> s i" q "next_of \<sigma> s i"]
      by (cases "full i") (simp_all add: f3(7))
    with small [of i] show ?thesis by (subst point_after_offsets [of "oldest_of \<sigma> s i"]) simp_all
  qed
  have "adds s t line \<sigma> \<tau>"
    unfolding adds_def pt
  proof (intro conjI allI ballI impI)
    show "pp_tracker_of \<tau> = pp_tracker_of \<sigma>" using w f3(2) by (simp add: waiters_added_def)
    show "identity \<tau> v = identity \<sigma> v" if "v \<noteq> t" for v
      using w f3(5) [OF that] by (simp add: waiters_added_def)
    show "next_of \<tau> s' i = next_of \<sigma> s' i" if "line \<noteq> Some i" for s' i
      using w that by (simp add: waiters_added_def f3(7))
    fix s' i
    have tr: "trackers_of \<tau> s' i = trackers_of \<sigma>3 s' i" using w by (simp add: waiters_added_def)
    then show "set (trackers_of \<tau> s' i) \<subseteq> insert t (set (trackers_of \<sigma> s' i))"
      by (auto simp: f3(6) split: if_splits)
    assume "t \<in> set (trackers_of \<tau> s' i)"
    then have n: "s' = s" "line = Some i" "\<not> full i"
      using tr u by (auto simp: f3(6) unlisted_def split: if_splits)
    then show "s' = s" "line = Some i" "point_of \<sigma>3 t = next_of \<sigma> s i" using f3(8) by simp_all
  next
    fix s' i w'
    assume "w' \<in> set (waiters_of \<tau> s' i)"
    then have "w' \<in> set (waiters_of \<sigma> s' i) \<or> (s' = s \<and> w_tracker w' = t \<and>
        w_point w' = fence_point \<sigma> t i \<and> w_point w' \<noteq> NO_POINT \<and> on_line \<sigma>3 s i (w_point w'))"
      using w f3(3,4) unfolding waiters_added_def by auto
    with new_after show "w' \<in> set (waiters_of \<sigma> s' i) \<or> (w_tracker w' = t \<and> (line = Some i \<longrightarrow>
        s' = s \<longrightarrow> mali_timeline_point_after (next_of \<sigma> s i) (w_point w')))" by blast
  qed
  with sh show ?thesis by blast
qed

lemma add_tracker_acyclic:
  assumes "lines_ok \<sigma>" "acyclic_waits \<sigma>" and f: "fresh_for \<sigma> t" and "fence_ok \<sigma> s t line"
    and "mali_timeline_system_add_tracker n k s t line \<sigma> = Done (\<sigma>', p)"
  shows "acyclic_waits \<sigma>'"
proof -
  have u: "unlisted \<sigma> t" using f by (simp add: fresh_for_def)
  obtain r B where r: "ranks \<sigma> r" "\<forall>u. r u < B"
    "\<And>u s i. u \<in> set (trackers_of \<sigma> s i) \<Longrightarrow> u \<noteq> t \<Longrightarrow> r u < r t"
    using raise_rank [OF assms(2) f] by blast
  obtain \<tau> where a: "adds s t line \<sigma> \<tau>" and s: "shrinks \<tau> \<sigma>'"
    using add_tracker_adds [OF assms(1) u assms(4,5)] by blast
  have "t \<notin> w_tracker ` set (waiters_of \<sigma> s i)" for s i using u by (simp add: unlisted_def)
  then have "ranks \<tau> r" by (rule acyclic_adds [OF assms(1) r(1,2) _ _ a]) (rule r(3))
  with r(2) have "acyclic_waits \<tau>" by (auto simp: acyclic_waits_def)
  with s show ?thesis by (rule acyclic_shrinks)
qed

end
