(* ===== verification/Timeline_Reach.thy ===== *)
theory Timeline_Reach
  imports Timeline_Order
begin

text \<open>
  The timeline system as a transition system: starting jobs, soft jobs and fence waits, and
  releasing trackers. Every reachable state satisfies the invariant of the timelines, its trigger
  counts are exact and its waits are acyclic.
\<close>

section \<open>Making new trackers\<close>

text \<open>An object whose tracker is in no list and is not held.\<close>

definition idle :: "gpu \<Rightarrow> tref \<Rightarrow> bool" where
  "idle \<sigma> t \<longleftrightarrow> unlisted \<sigma> t \<and> holds \<sigma> {} t = 0"

lemma inv_set_tracker:
  assumes i: "timeline_inv S H \<sigma>" and u: "unlisted \<sigma> t"
    and c: "unat (trigger_ref_count (f (g_trackers \<sigma> t))) = holds \<sigma> {} t + count H' t"
    and o: "\<forall>v. v \<noteq> t \<longrightarrow> count H' v = count H v"
  shows "timeline_inv S H' (upd_tracker t f \<sigma>)" and "unlisted (upd_tracker t f \<sigma>) t"
proof -
  let ?\<sigma> = "upd_tracker t f \<sigma>"
  let ?g = "\<lambda>r. f r\<lparr>trigger_ref_count := trigger_ref_count r\<rparr>"
  show u': "unlisted ?\<sigma> t" using u by (simp add: unlisted_def upd_tracker_lists)
  have j: "timeline_inv S H (upd_tracker t ?g \<sigma>)" by (rule inv_upd_unlisted(1) [OF i u]) simp
  have sys: "system_of (upd_tracker t ?g \<sigma>) = system_of ?\<sigma>" by (simp add: fun_eq_iff system_of_upd)
  have w0: "waits ?\<sigma> t = 0" by (rule unlisted_no_waits [OF u'])
  have w: "waits (upd_tracker t ?g \<sigma>) = waits ?\<sigma>"
    by (simp add: fun_eq_iff waits_def sys upd_tracker_lists)
  have h: "holds ?\<sigma> = holds \<sigma>" "holds (upd_tracker t ?g \<sigma>) = holds \<sigma>"
    by (simp_all add: fun_eq_iff holds_def upd_tracker_lists split: tref.split)
  have before: "unat (refs (upd_tracker t ?g \<sigma>) v) = waits ?\<sigma> v + holds \<sigma> {} v + count H v" for v
  proof -
    have "trigger_inv H {} (upd_tracker t ?g \<sigma>)" using j by (simp add: timeline_inv_def)
    then have "unat (refs (upd_tracker t ?g \<sigma>) v) =
        waits (upd_tracker t ?g \<sigma>) v + holds (upd_tracker t ?g \<sigma>) {} v + count H v"
      unfolding trigger_inv_def by blast
    then show ?thesis unfolding w h .
  qed
  have "unat (refs ?\<sigma> v) = waits ?\<sigma> v + holds ?\<sigma> {} v + count H' v" for v
  proof (cases "v = t")
    case True
    then show ?thesis using c w0 by (simp add: refs_upd h)
  next
    case False
    then have "refs ?\<sigma> v = refs (upd_tracker t ?g \<sigma>) v" by (simp add: refs_upd)
    then show ?thesis using before [of v] o False by (simp add: h)
  qed
  then have "trigger_inv H' {} ?\<sigma>"
    using j by (simp add: timeline_inv_def trigger_inv_def upd_tracker_lists sys)
  moreover have "lines_ok ?\<sigma>"
    using i u lines_upd_tracker [of t \<sigma> f] by (simp add: timeline_inv_def unlisted_def)
  moreover have "has_line (upd_tracker t ?g \<sigma>) = has_line ?\<sigma>"
    by (simp add: fun_eq_iff has_line_def upd_tracker_def split: tref.split)
  then have "waiters_have_lines ?\<sigma>"
    using j by (simp add: timeline_inv_def waiters_have_lines_def upd_tracker_lists)
  ultimately show "timeline_inv S H' ?\<sigma>"
    using i by (simp add: timeline_inv_def covers_def upd_tracker_lists)
qed

lemma inv_tracker_init:
  assumes i: "timeline_inv S H \<sigma>" and u: "idle \<sigma> t" and h: "t \<notin># H"
  shows "timeline_inv S (add_mset t H) (mali_timeline_tracker_init t fence \<sigma>)"
    and "unlisted (mali_timeline_tracker_init t fence \<sigma>) t"
    and "refs (mali_timeline_tracker_init t fence \<sigma>) t = 1"
proof -
  have "unlisted \<sigma> t" "holds \<sigma> {} t = 0" using u by (simp_all add: idle_def)
  moreover have "count (add_mset t H) t = 1" using h by (simp add: not_in_iff)
  ultimately show "timeline_inv S (add_mset t H) (mali_timeline_tracker_init t fence \<sigma>)"
    "unlisted (mali_timeline_tracker_init t fence \<sigma>) t"
    unfolding mali_timeline_tracker_init_def
    using inv_set_tracker [OF i, where H' = "add_mset t H" and t = t] by simp_all
  show "refs (mali_timeline_tracker_init t fence \<sigma>) t = 1"
    by (simp add: mali_timeline_tracker_init_def refs_upd)
qed

text \<open>A tracker update of an unlisted tracker changes nobody's rank.\<close>

lemma acyclic_upd_tracker:
  assumes "acyclic_waits \<sigma>" and "\<forall>s i. t \<notin> set (trackers_of \<sigma> s i)"
  shows "acyclic_waits (upd_tracker t f \<sigma>)"
proof -
  have p: "point_of (upd_tracker t f \<sigma>) v = point_of \<sigma> v" if "v \<in> set (trackers_of \<sigma> s i)" for v s i
  proof -
    have "v \<noteq> t" using that assms(2) by blast
    then show ?thesis by (simp add: point_of_def upd_tracker_def)
  qed
  obtain r B where r: "ranks \<sigma> r" "\<forall>t. r t < B" using assms(1) by (auto simp: acyclic_waits_def)
  have "ranks (upd_tracker t f \<sigma>) r"
    using r(1) p unfolding ranks_def upd_tracker_lists by metis
  with r(2) show ?thesis by (auto simp: acyclic_waits_def)
qed

lemma unlisted_upd_tracker [simp]: "unlisted (upd_tracker t f \<sigma>) u = unlisted \<sigma> u"
  by (simp add: unlisted_def upd_tracker_lists)

lemma unlisted_view: "same_view \<sigma> \<sigma>' \<Longrightarrow> unlisted \<sigma>' = unlisted \<sigma>"
  by (simp add: fun_eq_iff unlisted_def same_view_def)

lemma idle_view: "same_view \<sigma> \<sigma>' \<Longrightarrow> idle \<sigma>' = idle \<sigma>"
proof -
  assume v: "same_view \<sigma> \<sigma>'"
  then have "holds \<sigma>' = holds \<sigma>" by (simp add: fun_eq_iff holds_def same_view_def split: tref.split)
  then show ?thesis by (simp add: fun_eq_iff idle_def unlisted_view [OF v])
qed

lemma init_lists:
  "pp_tracker_of (mali_timeline_tracker_init t fence \<sigma>) = pp_tracker_of \<sigma>"
  "unlisted (mali_timeline_tracker_init t fence \<sigma>) u = unlisted \<sigma> u"
  "next_of (mali_timeline_tracker_init t fence \<sigma>) = next_of \<sigma>"
  "waiters_of (mali_timeline_tracker_init t fence \<sigma>) = waiters_of \<sigma>"
  "oldest_of (mali_timeline_tracker_init t fence \<sigma>) = oldest_of \<sigma>"
  "acyclic_waits \<sigma> \<Longrightarrow> unlisted \<sigma> t \<Longrightarrow> acyclic_waits (mali_timeline_tracker_init t fence \<sigma>)"
  "refs (mali_timeline_tracker_init t fence \<sigma>) u = (if u = t then 1 else refs \<sigma> u)"
  by (simp_all add: mali_timeline_tracker_init_def upd_tracker_lists acyclic_upd_tracker
      unlisted_def refs_upd)

section \<open>Starting a job\<close>

definition good :: "session_id set \<Rightarrow> tref multiset \<Rightarrow> gpu \<Rightarrow> bool" where
  "good S H \<sigma> \<longleftrightarrow> timeline_inv S H \<sigma> \<and> acyclic_waits \<sigma>"

lemma good_view: "same_view \<sigma> \<sigma>' \<Longrightarrow> good S H \<sigma> \<Longrightarrow> good S H \<sigma>'"
  by (simp add: good_def inv_same_view acyclic_view)

lemma good_cascade:
  "good S H \<sigma> \<Longrightarrow> call_pre H {} c \<sigma> \<Longrightarrow> cascade n c \<sigma> = Done (\<sigma>', m) \<Longrightarrow> good S H \<sigma>'"
  using inv_cascade acyclic_shrinks [OF shrink.R_cascade] by (auto simp: good_def)

text \<open>More fuel gives the same result, so a result bounds no fuel.\<close>

lemma add_tracker_more_fuel:
  assumes "mali_timeline_system_add_tracker n k s t line \<sigma> = Done r" and "n \<le> n'"
  shows "mali_timeline_system_add_tracker n' k s t line \<sigma> = Done r"
proof -
  note b = refines_bind [OF cascade_mono [OF assms(2)]]
  have c: "refines_fuel (mali_timeline_system_create_waiters_and_unlock n s t a \<tau>)
      (mali_timeline_system_create_waiters_and_unlock n' s t a \<tau>)" for a \<tau>
    by (auto simp: mali_timeline_system_create_waiters_and_unlock_def Let_def intro!: b split: prod.split)
  have "refines_fuel (mali_timeline_system_add_tracker n k s t line \<sigma>)
      (mali_timeline_system_add_tracker n' k s t line \<sigma>)"
    by (auto simp: mali_timeline_system_add_tracker_def Let_def intro!: refines_bind [OF c] split: prod.split)
  with assms(1) show ?thesis by (auto simp: refines_fuel_def)
qed

text \<open>A tracker that has been initialised and given its fence is added.\<close>

lemma good_add_tracker:
  assumes g: "good S (add_mset t H) \<sigma>" and f: "fresh_for \<sigma> t" and s: "s \<in> S"
    and small: "unat (refs \<sigma> t) + 3 < 4294967296" and room: "soft_has_room \<sigma> s t line"
    and fence: "fence_ok \<sigma> s t line"
    and d: "mali_timeline_system_add_tracker n k s t line \<sigma> = Done (\<sigma>', p)"
  shows "good S H \<sigma>' \<and> p = point_given \<sigma> s t line"
proof -
  have i: "timeline_inv S (add_mset t H) \<sigma>" and a: "acyclic_waits \<sigma>" and u: "unlisted \<sigma> t"
    using g f by (simp_all add: good_def fresh_for_def)
  have l: "lines_ok \<sigma>" using i by (simp add: timeline_inv_def)
  have n: "fuel_ok S \<sigma> (n + 9 * waiting S \<sigma> + 36)" by (simp add: fuel_ok_def)
  from add_tracker_returns [OF i u s small room n, of k] add_tracker_more_fuel [OF d]
  have "timeline_inv S H \<sigma>'" "p = point_given \<sigma> s t line" by auto
  with add_tracker_acyclic [OF l a f fence d] show ?thesis by (simp add: good_def)
qed

text \<open>A tracker initialised in state \<open>\<sigma>\<close>, with its fence in place.\<close>

definition prepared :: "session_id set \<Rightarrow> tref multiset \<Rightarrow> tref \<Rightarrow> timeline_fence \<Rightarrow> gpu \<Rightarrow> gpu \<Rightarrow> bool" where
  "prepared S H t fence \<sigma> \<rho> \<longleftrightarrow> good S (add_mset t H) \<rho> \<and> refs \<rho> t = 1 \<and> unlisted \<rho> = unlisted \<sigma> \<and>
     unlisted \<sigma> t \<and> pp_tracker_of \<rho> = pp_tracker_of \<sigma> \<and> next_of \<rho> = next_of \<sigma> \<and>
     oldest_of \<rho> = oldest_of \<sigma> \<and> waiters_of \<rho> = waiters_of \<sigma> \<and>
     fence_point \<rho> t = f_points fence \<and> (\<forall>u. u \<noteq> t \<longrightarrow> refs \<rho> u = refs \<sigma> u)"

lemma prepared_init:
  assumes g: "good S H \<sigma>" and u: "idle \<sigma> t" and h: "t \<notin># H"
  shows "prepared S H t fence \<sigma> (mali_timeline_tracker_init t (Some fence) \<sigma>)"
proof -
  have i: "timeline_inv S H \<sigma>" "acyclic_waits \<sigma>" "unlisted \<sigma> t"
    using g u by (simp_all add: good_def idle_def)
  have "unlisted (mali_timeline_tracker_init t (Some fence) \<sigma>) = unlisted \<sigma>"
    by (simp add: fun_eq_iff init_lists)
  moreover have "fence_point (mali_timeline_tracker_init t (Some fence) \<sigma>) t = f_points fence"
    by (simp add: fun_eq_iff fence_point_def mali_timeline_tracker_init_def upd_tracker_def)
  ultimately show ?thesis
    using inv_tracker_init(1) [OF i(1) u h] i by (simp add: prepared_def good_def init_lists)
qed

lemma prepared_copy:
  assumes g: "good S H \<sigma>" and u: "idle \<sigma> t" and h: "t \<notin># H"
  shows "prepared S H t fence \<sigma>
           (mali_timeline_fence_copy_uk_fence t fence (mali_timeline_tracker_init t None \<sigma>))"
proof -
  have "mali_timeline_fence_copy_uk_fence t fence (mali_timeline_tracker_init t None \<sigma>) =
      mali_timeline_tracker_init t (Some fence) \<sigma>"
    by (simp add: mali_timeline_fence_copy_uk_fence_def mali_timeline_tracker_init_def upd_tracker_def)
  with prepared_init [OF assms] show ?thesis by simp
qed

lemma prepared_view: "prepared S H t fence \<sigma> \<rho> \<Longrightarrow> same_view \<rho> \<rho>' \<Longrightarrow> prepared S H t fence \<sigma> \<rho>'"
proof -
  assume p: "prepared S H t fence \<sigma> \<rho>" and v: "same_view \<rho> \<rho>'"
  have "fence_point \<rho>' = fence_point \<rho>" using v by (intro fence_identity) (simp add: same_view_def)
  then show ?thesis
    using p good_view [OF v] unlisted_view [OF v] v by (simp add: prepared_def same_view_def)
qed

definition own_point_free :: "gpu \<Rightarrow> session_id \<Rightarrow> timeline_id option \<Rightarrow> timeline_fence \<Rightarrow> bool" where
  "own_point_free \<sigma> s line fence \<longleftrightarrow>
     (case line of None \<Rightarrow> True | Some i \<Rightarrow> f_points fence i \<noteq> next_of \<sigma> s i)"

lemma good_start:
  assumes p: "prepared S H t fence \<sigma> \<rho>" and s: "s \<in> S"
    and held: "\<forall>j p. t = GPJob j \<longrightarrow> pp_tracker_of \<sigma> j = Some p \<longrightarrow> unlisted \<sigma> (PPJob p)"
    and fence: "own_point_free \<sigma> s line fence" and room: "soft_has_room \<sigma> s t line"
    and d: "mali_timeline_system_add_tracker n k s t line \<rho> = Done (\<sigma>', q)"
  shows "good S H \<sigma>'"
proof (rule conjunct1 [OF good_add_tracker [OF _ _ s _ _ _ d]])
  show "good S (add_mset t H) \<rho>" using p by (simp add: prepared_def)
  show "fresh_for \<rho> t" using p held by (simp add: prepared_def fresh_for_def)
  show "unat (refs \<rho> t) + 3 < 4294967296" using p by (simp add: prepared_def)
  have "mali_timeline_is_full (the_timeline \<rho> s i) = mali_timeline_is_full (the_timeline \<sigma> s i)" for i
    using p room_iff [of \<sigma> s i] room_iff [of \<rho> s i] by (auto simp: prepared_def)
  then show "soft_has_room \<rho> s t line"
    using room by (auto simp: soft_has_room_def split: tref.split option.split)
  show "fence_ok \<rho> s t line"
    using p fence by (auto simp: fence_ok_def own_point_free_def prepared_def split: option.split)
qed

text \<open>A new job object that holds nothing.\<close>

lemma view_new_gp:
  "pp_tracker_of \<sigma> j = None \<Longrightarrow> gp_pp_tracker job = None \<Longrightarrow> same_view \<sigma> (\<sigma>\<lparr>g_gp := (g_gp \<sigma>)(j := job)\<rparr>)"
  by (simp add: view_defs)

lemma view_new_pp: "same_view \<sigma> (\<sigma>\<lparr>g_pp := (g_pp \<sigma>)(j := job)\<rparr>)"
  by (simp add: view_defs)

lemma view_new_id: "mali_scheduler_get_new_id \<sigma> = (\<sigma>', i) \<Longrightarrow> same_view \<sigma> \<sigma>'"
  by (auto simp: mali_scheduler_get_new_id_def Let_def view_defs)

lemma view_fb_lookup_add: "same_view \<sigma> (mali_pp_job_fb_lookup_add j \<sigma>)"
  by (simp add: mali_pp_job_fb_lookup_add_def Let_def view_upd_session)

lemma own_point_view: "same_view \<sigma> \<sigma>' \<Longrightarrow> own_point_free \<sigma>' s line f = own_point_free \<sigma> s line f"
  by (simp add: own_point_free_def same_view_def split: option.split)

lemma gp_start_good:
  assumes g: "good S {#} \<sigma>" and u: "idle \<sigma> (GPJob j)" "pp_tracker_of \<sigma> j = None" and s: "s \<in> S"
    and c: "\<And>i job. create i = Some job \<Longrightarrow> gp_pp_tracker job = None \<and>
              own_point_free \<sigma> s (Some TIMELINE_GP) (gu_fence (gp_uargs job))"
    and d: "mali_ukk_gp_start_job n k s j create put_ok \<sigma> = Done (\<sigma>', e)"
  shows "good S {#} \<sigma>'"
proof -
  obtain \<sigma>1 i where i: "mali_scheduler_get_new_id \<sigma> = (\<sigma>1, i)" by fastforce
  note v = view_new_id [OF i]
  show ?thesis
  proof (cases "create i")
    case None
    with d i good_view [OF v g] show ?thesis by (simp add: mali_ukk_gp_start_job_def)
  next
    case (Some job)
    let ?\<sigma> = "\<sigma>1\<lparr>g_gp := (g_gp \<sigma>1)(j := job)\<rparr>"
    have "pp_tracker_of \<sigma>1 j = None" using u(2) v by (simp add: same_view_def)
    then have v2: "same_view \<sigma> ?\<sigma>"
      using c [OF Some] by (intro same_view_trans [OF v] view_new_gp) simp_all
    have "prepared S {#} (GPJob j) (gu_fence (gp_uargs job)) ?\<sigma>
        (mali_timeline_fence_copy_uk_fence (GPJob j) (gu_fence (gp_uargs job))
          (mali_timeline_tracker_init (GPJob j) None ?\<sigma>))"
      using good_view [OF v2 g] u(1) by (intro prepared_copy) (simp_all add: idle_view [OF v2])
    note start = good_start [OF this s]
    have "pp_tracker_of ?\<sigma> j = None" using u(2) v2 by (simp add: same_view_def)
    then show ?thesis
      using start [where line = "Some TIMELINE_GP"] d i Some c [OF Some]
      by (auto simp: mali_ukk_gp_start_job_def mali_scheduler_submit_gp_job_def bind_outcome_Done Let_def
          own_point_view [OF v2] soft_has_room_def)
  qed
qed

lemma pp_start_good:
  assumes g: "good S {#} \<sigma>" and u: "idle \<sigma> (PPJob j)" and s: "s \<in> S"
    and c: "\<And>i job. create i = Some job \<Longrightarrow>
              own_point_free \<sigma> s (Some TIMELINE_PP) (pu_fence (pp_uargs job))"
    and d: "mali_ukk_pp_start_job n k s j create put_ok \<sigma> = Done (\<sigma>', e)"
  shows "good S {#} \<sigma>'"
proof -
  obtain \<sigma>1 i where i: "mali_scheduler_get_new_id \<sigma> = (\<sigma>1, i)" by fastforce
  note v = view_new_id [OF i]
  show ?thesis
  proof (cases "create i")
    case None
    with d i good_view [OF v g] show ?thesis by (simp add: mali_ukk_pp_start_job_def)
  next
    case (Some job)
    let ?\<sigma> = "\<sigma>1\<lparr>g_pp := (g_pp \<sigma>1)(j := job)\<rparr>"
    have v2: "same_view \<sigma> ?\<sigma>" by (rule same_view_trans [OF v view_new_pp])
    have "prepared S {#} (PPJob j) (pu_fence (pp_uargs job)) ?\<sigma>
        (mali_pp_job_fb_lookup_add j
          (mali_timeline_fence_copy_uk_fence (PPJob j) (pu_fence (pp_uargs job))
            (mali_timeline_tracker_init (PPJob j) None ?\<sigma>)))"
      using good_view [OF v2 g] u
      by (intro prepared_view [OF prepared_copy view_fb_lookup_add]) (simp_all add: idle_view [OF v2])
    note start = good_start [OF this s]
    show ?thesis
      using start [where line = "Some TIMELINE_PP"] d i Some c [OF Some]
      by (auto simp: mali_ukk_pp_start_job_def mali_scheduler_submit_pp_job_def bind_outcome_Done Let_def
          own_point_view [OF v2] soft_has_room_def)
  qed
qed

lemma soft_start_good:
  assumes g: "good S {#} \<sigma>" and u: "idle \<sigma> (SoftJob j)" and s: "sj_session (g_soft \<sigma> j) = s" "s \<in> S"
    and fence: "own_point_free \<sigma> s (Some TIMELINE_SOFT) fence"
    and room: "\<not> mali_timeline_is_full (the_timeline \<sigma> s TIMELINE_SOFT)"
    and d: "mali_soft_job_start n k j fence \<sigma> = Done (\<sigma>', q)"
  shows "good S {#} \<sigma>'"
proof -
  let ?\<sigma> = "upd_soft j (\<lambda>job. job\<lparr>sj_state := SOFT_STARTED\<rparr>) \<sigma>"
  have v: "same_view \<sigma> ?\<sigma>" by (rule view_upd_soft)
  have "prepared S {#} (SoftJob j) fence ?\<sigma> (mali_timeline_tracker_init (SoftJob j) (Some fence) ?\<sigma>)"
    using good_view [OF v g] u by (intro prepared_init) (simp_all add: idle_view [OF v])
  from good_start [OF this s(2), where line = "Some TIMELINE_SOFT"] show ?thesis
    using d fence room s(1) full_view [OF v]
    by (simp add: mali_soft_job_start_def Let_def own_point_view [OF v] soft_has_room_def)
qed

lemma fence_wait_good:
  assumes g: "good S {#} \<sigma>" and u: "idle \<sigma> (FenceWait j)" and s: "s \<in> S"
    and d: "fence_wait_begin n k alloc_ok s j fence timeout \<sigma> = Done (\<sigma>', q)"
  shows "good S {#} \<sigma>'"
proof (cases "timeout = 0 \<or> \<not> alloc_ok")
  case True
  with d g show ?thesis by (auto simp: fence_wait_begin_def split: if_splits)
next
  case False
  let ?\<sigma> = "upd_wait j (\<lambda>_. \<lparr>fw_activated = False, fw_refcount = 2\<rparr>) \<sigma>"
  have v: "same_view \<sigma> ?\<sigma>" by (rule view_upd_wait)
  have "prepared S {#} (FenceWait j) fence ?\<sigma> (mali_timeline_tracker_init (FenceWait j) (Some fence) ?\<sigma>)"
    using good_view [OF v g] u by (intro prepared_init) (simp_all add: idle_view [OF v])
  from good_start [OF this s, where line = None] show ?thesis
    using d False
    by (auto simp: fence_wait_begin_def Let_def bind_outcome_Done own_point_free_def soft_has_room_def)
qed

section \<open>A PP job with its GP job\<close>

lemma good_take_hold:
  assumes g: "good S H \<sigma>" and h: "pp_tracker_of \<sigma> j = None" and u: "unlisted \<sigma> (PPJob p)"
    and small: "unat (refs \<sigma> (PPJob p)) + 1 < 4294967296" and job: "gp_pp_tracker job = Some p"
  shows "good S H (mali_timeline_system_tracker_get (PPJob p) (\<sigma>\<lparr>g_gp := (g_gp \<sigma>)(j := job)\<rparr>))"
proof -
  let ?\<sigma> = "mali_timeline_system_tracker_get (PPJob p) (\<sigma>\<lparr>g_gp := (g_gp \<sigma>)(j := job)\<rparr>)"
  have o: "waiters_of ?\<sigma> = waiters_of \<sigma>" "trackers_of ?\<sigma> = trackers_of \<sigma>" "next_of ?\<sigma> = next_of \<sigma>"
    "oldest_of ?\<sigma> = oldest_of \<sigma>" "identity ?\<sigma> = identity \<sigma>"
    and pt: "pp_tracker_of ?\<sigma> = (pp_tracker_of \<sigma>)(j := Some p)"
    and rf: "refs ?\<sigma> = (refs \<sigma>)(PPJob p := refs \<sigma> (PPJob p) + 1)"
    using job by (simp_all add: view_defs mali_timeline_system_tracker_get_def)
  have i: "timeline_inv S H \<sigma>" using g by (simp add: good_def)
  have tinv: "trigger_inv H {} \<sigma>" using i by (simp add: timeline_inv_def)
  have sl: "same_lines \<sigma> ?\<sigma>" using o by (simp add: same_lines_def)
  have hl: "has_line ?\<sigma> = has_line \<sigma>" by (rule has_line_identity [OF o(5)])
  have fin: "finite {k. pp_tracker_of \<sigma> k \<noteq> None}" using tinv by (simp add: trigger_inv_def)
  have hold: "holds ?\<sigma> {} t = holds \<sigma> {} t + (if t = PPJob p then 1 else 0)" for t
  proof (cases t)
    case (PPJob q)
    have "{k. pp_tracker_of ?\<sigma> k = Some p} = insert j {k. pp_tracker_of \<sigma> k = Some p}" by (auto simp: pt)
    moreover have "finite {k. pp_tracker_of \<sigma> k = Some p}" by (rule finite_subset [OF _ fin]) auto
    moreover have "{k. pp_tracker_of ?\<sigma> k = Some q} = {k. pp_tracker_of \<sigma> k = Some q}" if "q \<noteq> p"
      using that h by (auto simp: pt)
    ultimately show ?thesis using PPJob h by (auto simp: holds_def)
  qed (simp_all add: holds_def)
  have w: "waits ?\<sigma> = waits \<sigma>" and sys: "system_of ?\<sigma> = system_of \<sigma>"
    by (simp_all add: fun_eq_iff waits_def system_of_def o)
  have "unat (refs ?\<sigma> t) = unat (refs \<sigma> t) + (if t = PPJob p then 1 else 0)" for t
    using small unat_plus_u32 [of "refs \<sigma> (PPJob p)" 1] by (simp add: rf)
  moreover have "{k. pp_tracker_of ?\<sigma> k \<noteq> None} = insert j {k. pp_tracker_of \<sigma> k \<noteq> None}"
    by (auto simp: pt)
  ultimately have "trigger_inv H {} ?\<sigma>"
    using tinv fin by (auto simp: trigger_inv_def hold w sys o)
  then have "timeline_inv S H ?\<sigma>"
    using i lines_ok_settles [OF settles_lines [OF sl]]
    by (simp add: timeline_inv_def waiters_have_lines_def covers_def hl o)
  moreover have "acyclic_waits ?\<sigma>"
  proof -
    obtain r B where r: "ranks \<sigma> r" "\<And>u. r u < B" using g by (auto simp: good_def acyclic_waits_def)
    define r' where "r' = r(PPJob p := B)"
    have r': "r' v = r v" if "v \<in> set (trackers_of \<sigma> s i) \<or> v \<in> w_tracker ` set (waiters_of \<sigma> s i)" for v s i
      using that u by (auto simp: r'_def unlisted_def)
    have q: "point_of ?\<sigma> = point_of \<sigma>" by (simp add: fun_eq_iff identity_fields o)
    have "ranks ?\<sigma> r'"
      unfolding ranks_def o q
    proof (intro conjI allI ballI impI)
      fix s i w v
      assume a: "w \<in> set (waiters_of \<sigma> s i)" "v \<in> set (trackers_of \<sigma> s i)"
        "\<not> mali_timeline_point_after (point_of \<sigma> v) (w_point w)"
      then have "r v < r (w_tracker w)" using r(1) by (simp add: ranks_def)
      moreover have "r' v = r v" "r' (w_tracker w) = r (w_tracker w)" using r' a(1,2) by blast+
      ultimately show "r' v < r' (w_tracker w)" by simp
    next
      fix k q assume k: "pp_tracker_of ?\<sigma> k = Some q"
      show "r' (GPJob k) < r' (PPJob q)"
        using k r by (cases "k = j") (auto simp: pt r'_def ranks_def)
    qed
    moreover have "\<forall>u. r' u < Suc B" using r(2) by (simp add: r'_def less_SucI)
    ultimately show ?thesis by (auto simp: acyclic_waits_def)
  qed
  ultimately show ?thesis by (simp add: good_def)
qed

lemma adds_others:
  assumes a: "adds s t line \<sigma> \<tau>" and sh: "shrinks \<tau> \<sigma>'"
  shows "unlisted \<sigma> u \<Longrightarrow> u \<noteq> t \<Longrightarrow> unlisted \<sigma>' u"
    and "pp_tracker_of \<sigma>' j = Some p \<Longrightarrow> pp_tracker_of \<sigma> j = Some p"
proof -
  have sub: "set (waiters_of \<sigma>' x i) \<subseteq> set (waiters_of \<tau> x i)"
    "set (trackers_of \<sigma>' x i) \<subseteq> set (trackers_of \<tau> x i)" for x i
    using sh set_mono_suffix subseq_subset unfolding shrinks_def by metis+
  show "unlisted \<sigma>' u" if u: "unlisted \<sigma> u" "u \<noteq> t"
    unfolding unlisted_def
  proof (intro allI conjI)
    fix x i
    have "set (trackers_of \<tau> x i) \<subseteq> insert t (set (trackers_of \<sigma> x i))" using a unfolding adds_def by blast
    then show "u \<notin> set (trackers_of \<sigma>' x i)" using sub(2) u unfolding unlisted_def by blast
    have "\<forall>w\<in>set (waiters_of \<tau> x i). w \<in> set (waiters_of \<sigma> x i) \<or> w_tracker w = t"
      using a unfolding adds_def by blast
    then show "u \<notin> w_tracker ` set (waiters_of \<sigma>' x i)" using sub(1) u unfolding unlisted_def by blast
  qed
  show "pp_tracker_of \<sigma> j = Some p" if "pp_tracker_of \<sigma>' j = Some p"
  proof -
    have "pp_tracker_of \<sigma>' j \<in> {pp_tracker_of \<tau> j, None}" using sh unfolding shrinks_def by blast
    then show ?thesis using that a by (auto simp: adds_def)
  qed
qed

lemma adds_keeps_fence:
  assumes "adds s t line \<sigma> \<tau>" and "shrinks \<tau> \<sigma>'" and "u \<noteq> t"
  shows "fence_point \<sigma>' u = fence_point \<sigma> u"
    and "line \<noteq> Some i \<Longrightarrow> next_of \<sigma>' s' i = next_of \<sigma> s' i"
proof -
  have "identity \<sigma>' u = identity \<sigma> u" using assms by (simp add: adds_def shrinks_def)
  then show "fence_point \<sigma>' u = fence_point \<sigma> u"
    by (simp add: fun_eq_iff fence_point_def identity_def Let_def)
  show "next_of \<sigma>' s' i = next_of \<sigma> s' i" if "line \<noteq> Some i"
    using assms that by (simp add: adds_def shrinks_def)
qed

text \<open>The GP job is added while the reference of the PP job's own initialisation is still out.\<close>

lemma pp_gp_tail:
  assumes p4: "prepared S {#} (PPJob p) f \<sigma>0 \<sigma>4" and s: "s \<in> S"
    and u: "idle \<sigma>0 (PPJob p)" "idle \<sigma>0 (GPJob j)" "pp_tracker_of \<sigma>0 j = None"
    and fin: "finite {k. pp_tracker_of \<sigma>0 k \<noteq> None}"
    and gpj: "gp_pp_tracker gpj = Some p" and fence: "own_point_free \<sigma>0 s (Some TIMELINE_PP) f"
      "own_point_free \<sigma>0 s (Some TIMELINE_GP) (gu_fence (gp_uargs gpj))"
    and \<sigma>5: "\<sigma>5 = mali_timeline_system_tracker_get (PPJob p) (\<sigma>4\<lparr>g_gp := (g_gp \<sigma>4)(j := gpj)\<rparr>)"
    and \<sigma>7: "\<sigma>7 = mali_timeline_fence_copy_uk_fence (GPJob j) (gu_fence (gp_uargs gpj))
                  (mali_timeline_tracker_init (GPJob j) None \<sigma>5)"
    and a8: "mali_timeline_system_add_tracker n k s (GPJob j) (Some TIMELINE_GP) \<sigma>7 = Done (\<sigma>8, q8)"
    and a9: "mali_timeline_system_add_tracker n k s (PPJob p) (Some TIMELINE_PP)
               (mali_pp_job_fb_lookup_add p \<sigma>8) = Done (\<sigma>', q9)"
  shows "good S {#} \<sigma>'"
proof -
  let ?G = "GPJob j" and ?P = "PPJob p"
  have x4: "good S {#?P#} \<sigma>4" "refs \<sigma>4 ?P = 1" "unlisted \<sigma>4 = unlisted \<sigma>0" "pp_tracker_of \<sigma>4 = pp_tracker_of \<sigma>0"
    "next_of \<sigma>4 = next_of \<sigma>0" "fence_point \<sigma>4 ?P = f_points f"
    using p4 by (simp_all add: prepared_def)
  have g5: "good S {#?P#} \<sigma>5"
    unfolding \<sigma>5 using x4 u gpj by (intro good_take_hold) (simp_all add: idle_def)
  have x5: "unlisted \<sigma>5 = unlisted \<sigma>0" "pp_tracker_of \<sigma>5 = (pp_tracker_of \<sigma>0)(j := Some p)"
    "next_of \<sigma>5 = next_of \<sigma>0" "fence_point \<sigma>5 ?P = f_points f"
  proof -
    let ?\<sigma> = "\<sigma>4\<lparr>g_gp := (g_gp \<sigma>4)(j := gpj)\<rparr>"
    have "waiters_of ?\<sigma> = waiters_of \<sigma>4" "trackers_of ?\<sigma> = trackers_of \<sigma>4" "next_of ?\<sigma> = next_of \<sigma>4"
      "pp_tracker_of ?\<sigma> = (pp_tracker_of \<sigma>4)(j := Some p)"
      using gpj by (simp_all add: view_defs)
    then show "unlisted \<sigma>5 = unlisted \<sigma>0" "pp_tracker_of \<sigma>5 = (pp_tracker_of \<sigma>0)(j := Some p)"
      "next_of \<sigma>5 = next_of \<sigma>0"
      using x4(3,4,5) by (simp_all add: \<sigma>5 mali_timeline_system_tracker_get_def fun_eq_iff
          unlisted_def upd_tracker_lists)
    show "fence_point \<sigma>5 ?P = f_points f"
      using x4(6) by (simp add: \<sigma>5 mali_timeline_system_tracker_get_def fence_point_def upd_tracker_def fun_eq_iff)
  qed
  have p7: "prepared S {#?P#} ?G (gu_fence (gp_uargs gpj)) \<sigma>5 \<sigma>7"
    unfolding \<sigma>7 using g5 u(2) by (intro prepared_copy) (simp_all add: idle_def x5 holds_def)
  have own5: "own_point_free \<sigma>5 s line fc = own_point_free \<sigma>0 s line fc" for line fc
    by (simp add: own_point_free_def x5 split: option.split)
  have g8: "good S {#?P#} \<sigma>8"
    using u(1) fence(2) by (intro good_start [OF p7 s _ _ _ a8])
      (simp_all add: x5 own5 idle_def soft_has_room_def)
  have "lines_ok \<sigma>7" "unlisted \<sigma>7 ?G" "fence_ok \<sigma>7 s ?G (Some TIMELINE_GP)"
    using p7 fence(2) by (simp_all add: prepared_def good_def timeline_inv_def fence_ok_def x5 own_point_free_def)
  from add_tracker_adds [OF this a8] obtain \<tau>
    where t: "adds s ?G (Some TIMELINE_GP) \<sigma>7 \<tau>" "shrinks \<tau> \<sigma>8" by blast
  have x7: "unlisted \<sigma>7 = unlisted \<sigma>0" "pp_tracker_of \<sigma>7 = (pp_tracker_of \<sigma>0)(j := Some p)"
    "next_of \<sigma>7 = next_of \<sigma>0" "fence_point \<sigma>7 ?P = f_points f"
    using p7 x5
    by (simp_all add: prepared_def \<sigma>7 mali_timeline_fence_copy_uk_fence_def mali_timeline_tracker_init_def
        fence_point_def upd_tracker_def fun_eq_iff)
  define \<sigma>f where "\<sigma>f = mali_pp_job_fb_lookup_add p \<sigma>8"
  have v: "same_view \<sigma>8 \<sigma>f" unfolding \<sigma>f_def by (rule view_fb_lookup_add)
  have gf: "good S (add_mset ?P {#}) \<sigma>f" by (rule good_view [OF v g8])
  have uf: "unlisted \<sigma>f ?P"
    using adds_others(1) [OF t, of ?P] u(1) by (simp add: unlisted_view [OF v] x7 idle_def)
  have ff: "fence_ok \<sigma>f s ?P (Some TIMELINE_PP)"
    using adds_keeps_fence [OF t, of ?P] fence(1) v fence_identity [of \<sigma>f \<sigma>8]
    by (simp add: fence_ok_def own_point_free_def same_view_def x7)
  have "k = j" if "pp_tracker_of \<sigma>f k = Some p" for k
  proof -
    have "pp_tracker_of \<sigma>8 k = Some p" using that v by (simp add: same_view_def)
    then have "((pp_tracker_of \<sigma>0)(j := Some p)) k = Some p" using adds_others(2) [OF t] by (simp add: x7)
    moreover have "finite {k. pp_tracker_of \<sigma>0 k = Some p}" by (rule finite_subset [OF _ fin]) auto
    then have "pp_tracker_of \<sigma>0 k \<noteq> Some p" using u(1) by (auto simp: idle_def holds_def)
    ultimately show ?thesis by (auto split: if_splits)
  qed
  then have "card {k. pp_tracker_of \<sigma>f k = Some p} \<le> card {j}" by (intro card_mono) auto
  moreover have "trigger_inv {#?P#} {} \<sigma>f" using gf by (simp add: good_def timeline_inv_def)
  then have "unat (refs \<sigma>f ?P) = waits \<sigma>f ?P + holds \<sigma>f {} ?P + count {#?P#} ?P"
    unfolding trigger_inv_def by blast
  ultimately have small: "unat (refs \<sigma>f ?P) + 3 < 4294967296"
    using unlisted_no_waits [OF uf] by (simp add: holds_def)
  show ?thesis
    using uf by (intro conjunct1 [OF good_add_tracker [OF gf _ s small _ ff a9 [folded \<sigma>f_def]]])
      (simp_all add: fresh_for_def soft_has_room_def)
qed

lemma pp_gp_start_good:
  assumes g: "good S {#} \<sigma>" and u: "idle \<sigma> (PPJob p)" "idle \<sigma> (GPJob j)" "pp_tracker_of \<sigma> j = None"
    and s: "s \<in> S"
    and cp: "\<And>i job. create_pp i = Some job \<Longrightarrow>
              own_point_free \<sigma> s (Some TIMELINE_PP) (pu_fence (pp_uargs job))"
    and cg: "\<And>i q job. create_gp i q = Some job \<Longrightarrow> gp_pp_tracker job = q \<and>
              own_point_free \<sigma> s (Some TIMELINE_GP) (gu_fence (gp_uargs job))"
    and d: "mali_ukk_pp_and_gp_start_job n k s p j create_pp create_gp put_ok \<sigma> = Done (\<sigma>', e)"
    and ok: "e \<noteq> ERR_NOMEM"
  shows "good S {#} \<sigma>'"
proof -
  obtain \<sigma>1 i1 where 1: "mali_scheduler_get_new_id \<sigma> = (\<sigma>1, i1)" by fastforce
  note v1 = view_new_id [OF 1]
  obtain ppj where ppj: "create_pp i1 = Some ppj"
    using d 1 ok by (cases "create_pp i1") (auto simp: mali_ukk_pp_and_gp_start_job_def)
  define f where "f = pu_fence (pp_uargs ppj)"
  define \<sigma>0 where "\<sigma>0 = \<sigma>1\<lparr>g_pp := (g_pp \<sigma>1)(p := ppj)\<rparr>"
  have v0: "same_view \<sigma> \<sigma>0" unfolding \<sigma>0_def by (rule same_view_trans [OF v1 view_new_pp])
  define \<sigma>3 where "\<sigma>3 = mali_timeline_fence_copy_uk_fence (PPJob p) f (mali_timeline_tracker_init (PPJob p) None \<sigma>0)"
  have p3: "prepared S {#} (PPJob p) f \<sigma>0 \<sigma>3"
    unfolding \<sigma>3_def using good_view [OF v0 g] u(1) by (intro prepared_copy) (simp_all add: idle_view [OF v0])
  obtain \<sigma>4 i4 where 4: "mali_scheduler_get_new_id \<sigma>3 = (\<sigma>4, i4)" by fastforce
  have p4: "prepared S {#} (PPJob p) f \<sigma>0 \<sigma>4" by (rule prepared_view [OF p3 view_new_id [OF 4]])
  have body: "mali_ukk_pp_and_gp_start_job n k s p j create_pp create_gp put_ok \<sigma> =
      (case create_gp i4 (Some p) of None \<Rightarrow> Done (\<sigma>4, ERR_NOMEM)
       | Some gpj \<Rightarrow> bind_outcome (mali_scheduler_submit_gp_job n k s j
           (mali_timeline_fence_copy_uk_fence (GPJob j) (gu_fence (gp_uargs gpj))
             (mali_timeline_tracker_init (GPJob j) None
               (mali_timeline_system_tracker_get (PPJob p) (\<sigma>4\<lparr>g_gp := (g_gp \<sigma>4)(j := gpj)\<rparr>)))))
           (\<lambda>(\<sigma>8, _). bind_outcome (mali_scheduler_submit_pp_job n k s p \<sigma>8)
              (\<lambda>(\<sigma>9, point). Done (\<sigma>9, if \<not> put_ok then ERR_ITEM_NOT_FOUND else ERR_OK))))"
    by (simp add: mali_ukk_pp_and_gp_start_job_def 1 ppj \<sigma>0_def [symmetric] f_def [symmetric]
        \<sigma>3_def [symmetric] 4 split: option.split)
  obtain gpj where gpj: "create_gp i4 (Some p) = Some gpj"
    using d body ok by (cases "create_gp i4 (Some p)") auto
  define \<sigma>5 where "\<sigma>5 = mali_timeline_system_tracker_get (PPJob p) (\<sigma>4\<lparr>g_gp := (g_gp \<sigma>4)(j := gpj)\<rparr>)"
  define \<sigma>7 where "\<sigma>7 = mali_timeline_fence_copy_uk_fence (GPJob j) (gu_fence (gp_uargs gpj))
      (mali_timeline_tracker_init (GPJob j) None \<sigma>5)"
  obtain \<sigma>8 q8 \<sigma>9 where a8: "mali_timeline_system_add_tracker n k s (GPJob j) (Some TIMELINE_GP) \<sigma>7 = Done (\<sigma>8, q8)"
    and a9: "mali_timeline_system_add_tracker n k s (PPJob p) (Some TIMELINE_PP) (mali_pp_job_fb_lookup_add p \<sigma>8) = Done (\<sigma>', \<sigma>9)"
    using d unfolding body gpj
    by (auto simp: \<sigma>5_def [symmetric] \<sigma>7_def [symmetric] bind_outcome_Done
        mali_scheduler_submit_gp_job_def mali_scheduler_submit_pp_job_def)
  have fin: "finite {k. pp_tracker_of \<sigma>0 k \<noteq> None}"
    using good_view [OF v0 g] by (simp add: good_def timeline_inv_def trigger_inv_def)
  have n: "pp_tracker_of \<sigma>0 j = None" using u(3) v0 by (simp add: same_view_def)
  show ?thesis
    using u cp [OF ppj] cg [OF gpj]
    by (intro pp_gp_tail [OF p4 s _ _ n fin _ _ _ \<sigma>5_def \<sigma>7_def a8 a9])
      (simp_all add: idle_view [OF v0] own_point_view [OF v0] f_def)
qed

section \<open>The operations that release trackers\<close>

lemma good_release:
  "good S H \<sigma> \<Longrightarrow> cascade n (TrackerRelease t) \<sigma> = Done (\<sigma>', m) \<Longrightarrow> good S H \<sigma>'"
  by (rule good_cascade) (simp_all add: good_def timeline_inv_def)

lemma good_signal:
  "good S H \<sigma> \<Longrightarrow> refs \<sigma> (GPJob j) = 0 \<Longrightarrow> cascade n (SignalPPTracker j b) \<sigma> = Done (\<sigma>', m) \<Longrightarrow> good S H \<sigma>'"
  by (rule good_cascade) (simp_all add: good_def timeline_inv_def)

lemma view_timer_flag: "same_view \<sigma> (upd_timeline s i (\<lambda>l. l\<lparr>tl_timer_active := b\<rparr>) \<sigma>)"
  by (simp add: view_defs)

lemma view_tracker_timer: "same_view \<sigma> (upd_tracker t (\<lambda>r. r\<lparr>t_timer_active := b\<rparr>) \<sigma>)"
  by (simp add: view_defs)

lemma signal_finish_good:
  "good S H \<sigma> \<Longrightarrow> signal_job_finish n j \<sigma> = Done \<sigma>' \<Longrightarrow> good S H \<sigma>'"
  by (auto simp: signal_job_finish_def bind_outcome_Done
      intro: good_view [OF view_soft_destroy] good_view [OF view_executor] good_release)

lemma timeout_good:
  "good S H \<sigma> \<Longrightarrow> mali_soft_job_system_timeout_job n j \<sigma> = Done (\<sigma>', m) \<Longrightarrow> good S H \<sigma>'"
  by (auto simp: mali_soft_job_system_timeout_job_def bind_outcome_Done Let_def split: if_splits
      intro: good_view [OF view_soft_destroy] good_release good_view [OF view_upd_soft])

lemma timer_good:
  assumes g: "good S H \<sigma>" and d: "mali_timeline_timer_callback n hz s i \<sigma> = Done \<sigma>'"
  shows "good S H \<sigma>'"
proof -
  let ?\<sigma> = "upd_timeline s i (\<lambda>l. l\<lparr>tl_timer_active := False\<rparr>) \<sigma>"
  have g1: "good S H ?\<sigma>" by (rule good_view [OF view_timer_flag g])
  have x: "good S H (mali_executor_schedule_from_mask m ?\<sigma>)" for m by (rule good_view [OF view_executor g1])
  have y: "good S H (mali_executor_schedule_from_mask m (upd_tracker t (\<lambda>r. r\<lparr>t_timer_active := False\<rparr>) \<tau>))"
    if "mali_soft_job_system_timeout_job n j ?\<sigma> = Done (\<tau>, m)" for j t \<tau> m
    by (rule good_view [OF same_view_trans [OF view_tracker_timer view_executor] timeout_good [OF g1 that]])
  show ?thesis
    using d g g1 x y
    by (auto simp: mali_timeline_timer_callback_def bind_outcome_Done Let_def
        split: if_splits list.splits tref.splits)
qed

lemma abort_collect_view: "abort_collect js jobs \<sigma> = (\<sigma>', jobs') \<Longrightarrow> same_view \<sigma> \<sigma>'"
proof (induction js jobs \<sigma> rule: abort_collect.induct)
  case (2 j js jobs \<sigma>)
  then show ?case
    by (auto simp: Let_def split: if_splits intro: same_view_trans [OF view_upd_session]
        same_view_trans [OF view_upd_soft same_view_trans [OF view_upd_session]])
qed simp

lemma abort_release_good: "abort_release n s js \<sigma> = Done \<sigma>' \<Longrightarrow> good S H \<sigma> \<Longrightarrow> good S H \<sigma>'"
proof (induction n s js \<sigma> rule: abort_release.induct)
  case (2 n s j js \<sigma>)
  let ?next = "\<lambda>\<tau>. mali_soft_job_destroy j (upd_session s (\<lambda>y. y\<lparr>jobs_used := j # jobs_used y\<rparr>) \<tau>)"
  from 2(2) obtain \<tau> where t: "(if sj_state (g_soft \<sigma> j) = SOFT_SIGNALED
      then bind_outcome (cascade n (TrackerRelease (SoftJob j)) \<sigma>) (\<lambda>(\<sigma>1, _). Done \<sigma>1) else Done \<sigma>) = Done \<tau>"
    and r: "abort_release n s js (?next \<tau>) = Done \<sigma>'" by (auto simp: bind_outcome_Done)
  have "good S H \<tau>" using t 2(3) good_release by (auto simp: bind_outcome_Done split: if_splits)
  then have "good S H (?next \<tau>)"
    by (rule good_view [OF same_view_trans [OF view_upd_session view_soft_destroy]])
  then show ?case by (rule 2(1) [OF t r])
qed simp

lemma soft_abort_good:
  "good S H \<sigma> \<Longrightarrow> mali_soft_job_system_abort n s \<sigma> = Done \<sigma>' \<Longrightarrow> good S H \<sigma>'"
  using abort_release_good good_view [OF abort_collect_view]
  by (fastforce simp: mali_soft_job_system_abort_def split: prod.splits)

section \<open>The transition system\<close>

text \<open>One rule for each entry to the timeline system. A job being started is a new object: it
  is in no list and nobody holds it. \<open>rest\<close> stands for everything the driver does between these
  that leaves timelines, trigger counts and trackers alone: taking jobs from the queues,
  completing them, changing soft jobs and sessions.\<close>

inductive timeline_step :: "session_id set \<Rightarrow> gpu \<Rightarrow> gpu \<Rightarrow> bool" for S where
  start_gp: "mali_ukk_gp_start_job n k s j create put_ok \<sigma> = Done (\<sigma>', e) \<Longrightarrow> s \<in> S \<Longrightarrow>
      idle \<sigma> (GPJob j) \<Longrightarrow> pp_tracker_of \<sigma> j = None \<Longrightarrow>
      (\<forall>i job. create i = Some job \<longrightarrow> gp_pp_tracker job = None \<and>
         own_point_free \<sigma> s (Some TIMELINE_GP) (gu_fence (gp_uargs job))) \<Longrightarrow> timeline_step S \<sigma> \<sigma>'"
| start_pp: "mali_ukk_pp_start_job n k s j create put_ok \<sigma> = Done (\<sigma>', e) \<Longrightarrow> s \<in> S \<Longrightarrow>
      idle \<sigma> (PPJob j) \<Longrightarrow>
      (\<forall>i job. create i = Some job \<longrightarrow>
         own_point_free \<sigma> s (Some TIMELINE_PP) (pu_fence (pp_uargs job))) \<Longrightarrow> timeline_step S \<sigma> \<sigma>'"
| start_pp_gp: "mali_ukk_pp_and_gp_start_job n k s p j create_pp create_gp put_ok \<sigma> = Done (\<sigma>', e) \<Longrightarrow>
      s \<in> S \<Longrightarrow> e \<noteq> ERR_NOMEM \<Longrightarrow> idle \<sigma> (PPJob p) \<Longrightarrow> idle \<sigma> (GPJob j) \<Longrightarrow> pp_tracker_of \<sigma> j = None \<Longrightarrow>
      (\<forall>i job. create_pp i = Some job \<longrightarrow>
         own_point_free \<sigma> s (Some TIMELINE_PP) (pu_fence (pp_uargs job))) \<Longrightarrow>
      (\<forall>i q job. create_gp i q = Some job \<longrightarrow> gp_pp_tracker job = q \<and>
         own_point_free \<sigma> s (Some TIMELINE_GP) (gu_fence (gp_uargs job))) \<Longrightarrow> timeline_step S \<sigma> \<sigma>'"
| start_soft: "mali_soft_job_start n k j fence \<sigma> = Done (\<sigma>', q) \<Longrightarrow> sj_session (g_soft \<sigma> j) \<in> S \<Longrightarrow>
      idle \<sigma> (SoftJob j) \<Longrightarrow>
      own_point_free \<sigma> (sj_session (g_soft \<sigma> j)) (Some TIMELINE_SOFT) fence \<Longrightarrow>
      \<not> mali_timeline_is_full (the_timeline \<sigma> (sj_session (g_soft \<sigma> j)) TIMELINE_SOFT) \<Longrightarrow>
      timeline_step S \<sigma> \<sigma>'"
| fence_wait: "fence_wait_begin n k alloc_ok s j fence timeout \<sigma> = Done (\<sigma>', res) \<Longrightarrow> s \<in> S \<Longrightarrow>
      idle \<sigma> (FenceWait j) \<Longrightarrow> timeline_step S \<sigma> \<sigma>'"
| release: "cascade n (TrackerRelease t) \<sigma> = Done (\<sigma>', m) \<Longrightarrow> timeline_step S \<sigma> \<sigma>'"
| signal_pp: "cascade n (SignalPPTracker j success) \<sigma> = Done (\<sigma>', m) \<Longrightarrow> refs \<sigma> (GPJob j) = 0 \<Longrightarrow>
      timeline_step S \<sigma> \<sigma>'"
| signal_soft: "signal_job_finish n j \<sigma> = Done \<sigma>' \<Longrightarrow> timeline_step S \<sigma> \<sigma>'"
| timer: "mali_timeline_timer_callback n hz s i \<sigma> = Done \<sigma>' \<Longrightarrow> timeline_step S \<sigma> \<sigma>'"
| abort_soft: "mali_soft_job_system_abort n s \<sigma> = Done \<sigma>' \<Longrightarrow> timeline_step S \<sigma> \<sigma>'"
| rest: "same_view \<sigma> \<sigma>' \<Longrightarrow> timeline_step S \<sigma> \<sigma>'"

lemma timeline_step_good: "timeline_step S \<sigma> \<sigma>' \<Longrightarrow> good S {#} \<sigma> \<Longrightarrow> good S {#} \<sigma>'"
proof (induction rule: timeline_step.induct)
  case start_gp
  show ?case by (rule gp_start_good [OF start_gp(6,3,4,2) _ start_gp(1)]) (use start_gp(5) in blast)
next
  case start_pp
  show ?case by (rule pp_start_good [OF start_pp(5,3,2) _ start_pp(1)]) (use start_pp(4) in blast)
next
  case start_pp_gp
  show ?case
    by (rule pp_gp_start_good [OF start_pp_gp(9,4,5,6,2) _ _ start_pp_gp(1,3)])
      (use start_pp_gp(7,8) in blast)+
next
  case start_soft
  show ?case by (rule soft_start_good [OF start_soft(6,3) refl start_soft(2,4,5,1)])
next
  case fence_wait
  show ?case by (rule fence_wait_good [OF fence_wait(4,3,2,1)])
next
  case release
  show ?case by (rule good_release [OF release(2,1)])
next
  case signal_pp
  show ?case by (rule good_signal [OF signal_pp(3,2,1)])
next
  case signal_soft
  show ?case by (rule signal_finish_good [OF signal_soft(2,1)])
next
  case timer
  show ?case by (rule timer_good [OF timer(2,1)])
next
  case abort_soft
  show ?case by (rule soft_abort_good [OF abort_soft(2,1)])
next
  case rest
  show ?case by (rule good_view [OF rest(1,2)])
qed

text \<open>The start: every timeline is as \<open>mali_timeline_create\<close> leaves it, no tracker is in use.\<close>

definition initial :: "gpu \<Rightarrow> bool" where
  "initial \<sigma> \<longleftrightarrow> (\<forall>s. timelines (g_systems \<sigma> s) = (\<lambda>_. mali_timeline_create)) \<and>
     (\<forall>t. trigger_ref_count (g_trackers \<sigma> t) = 0) \<and> (\<forall>j. gp_pp_tracker (g_gp \<sigma> j) = None)"

inductive reachable :: "session_id set \<Rightarrow> gpu \<Rightarrow> bool" for S where
  start: "initial \<sigma> \<Longrightarrow> reachable S \<sigma>"
| step: "reachable S \<sigma> \<Longrightarrow> timeline_step S \<sigma> \<sigma>' \<Longrightarrow> reachable S \<sigma>'"

lemma initial_good:
  assumes "initial \<sigma>" and "finite S"
  shows "good S {#} \<sigma>"
proof -
  have v: "waiters_of \<sigma> s i = []" "trackers_of \<sigma> s i = []" "next_of \<sigma> s i = 1" "oldest_of \<sigma> s i = 1"
    "refs \<sigma> t = 0" "pp_tracker_of \<sigma> j = None" for s i t j
    using assms(1) by (simp_all add: initial_def waiters_of_def trackers_of_def next_of_def oldest_of_def
        the_timeline_def mali_timeline_create_def refs_def pp_tracker_of_def)
  have "lines_ok \<sigma>"
    by (simp add: lines_ok_def trackers_ok_def waiters_ok_def v fits_def NO_POINT_def)
  moreover have "trigger_inv {#} {} \<sigma>"
    by (simp add: trigger_inv_def waits_def holds_def v split: tref.split)
  moreover have "acyclic_waits \<sigma>"
    unfolding acyclic_waits_def by (rule exI [of _ "\<lambda>_. 0"]) (auto simp: ranks_def v)
  ultimately show ?thesis
    using assms(2) by (simp add: good_def timeline_inv_def waiters_have_lines_def covers_def v)
qed

lemma reachable_good: "reachable S \<sigma> \<Longrightarrow> finite S \<Longrightarrow> good S {#} \<sigma>"
  by (induction rule: reachable.induct) (auto intro: initial_good timeline_step_good)

end
