(* ===== verification/Timeline_Properties.thy ===== *)
theory Timeline_Properties
  imports Timeline_Reach Timeline_Examples
begin

text \<open>What the reachable states of the timeline system promise, with concrete runs.\<close>

section \<open>A user-signalled soft job stays on its timeline until it is signalled\<close>

lemma activate_user_soft:
  assumes "sj_type (g_soft \<sigma> j) = USER_SIGNALED"
    and "\<not> is_aborting (g_sessions \<sigma> (sj_session (g_soft \<sigma> j)))"
    and d: "cascade n (TrackerActivate (SoftJob j)) \<sigma> = Done (\<sigma>', m)"
  shows "same_view \<sigma> \<sigma>' \<and> m = MASK_EMPTY"
proof -
  obtain k where n: "n = Suc (Suc k)"
    using d by (cases n rule: nat.exhaust; cases "n - 1")
      (auto simp: cascade_step_def mali_timeline_tracker_activate_def Let_def)
  define \<sigma>1 where "\<sigma>1 = begin_activation (SoftJob j) \<sigma>"
  define \<sigma>2 where "\<sigma>2 = upd_soft j (\<lambda>job. job\<lparr>sj_activated := True\<rparr>) (mali_soft_job_send_activated_notification j \<sigma>1)"
  define \<sigma>3 where "\<sigma>3 = log_event (WakeUp (t_system (g_trackers \<sigma>2 (SoftJob j)))) \<sigma>2"
  have g1: "g_soft \<sigma>1 = g_soft \<sigma>" "g_sessions \<sigma>1 = g_sessions \<sigma>"
    by (simp_all add: \<sigma>1_def begin_activation_def mali_timeline_system_release_waiter_list_def
        gpu_upd_defs Let_def)
  have t2: "sj_type (g_soft \<sigma>2 j) = USER_SIGNALED"
    using assms(1) g1 by (simp add: \<sigma>2_def mali_soft_job_send_activated_notification_def gpu_upd_defs log_when_def)
  have a: "cascade (Suc k) (ActivateSoftJob j) \<sigma>1 = Done (\<sigma>3, MASK_EMPTY)"
    using assms(2) g1 t2
    by (simp add: cascade_step_def mali_soft_job_system_activate_job_def Let_def \<sigma>2_def [symmetric] \<sigma>3_def)
  have v: "same_view \<sigma> \<sigma>3"
    unfolding \<sigma>3_def \<sigma>2_def \<sigma>1_def
    by (rule same_view_trans [OF view_begin_activation same_view_trans [OF view_soft_activated view_log_event]])
  have "mali_timeline_tracker_activate (cascade (Suc k)) (SoftJob j) \<sigma> = Done (\<sigma>', m)"
    using d unfolding n cascade.simps(2) [of "Suc k"] by (simp add: cascade_step_def del: cascade.simps)
  then have "m = MASK_EMPTY \<and> (\<exists>s i. \<sigma>' = mali_timeline_update_delayed_work s i \<sigma>3)"
    using a by (auto simp: mali_timeline_tracker_activate_def Let_def \<sigma>1_def [symmetric]
        simp del: cascade.simps split: option.splits)
  with v view_delayed_work show ?thesis by (auto intro: same_view_trans)
qed

definition same_soft :: "gpu \<Rightarrow> gpu \<Rightarrow> bool" where
  "same_soft \<sigma> \<sigma>' \<longleftrightarrow> g_soft \<sigma>' = g_soft \<sigma> \<and> g_sessions \<sigma>' = g_sessions \<sigma>"

lemma create_waiters_soft:
  assumes "create_waiters s t (\<sigma>, n) = (\<sigma>', n')"
  shows "same_soft \<sigma> \<sigma>'"
proof -
  have one: "same_soft \<sigma> \<sigma>'" if "create_waiter s t i (\<sigma>, n) = (\<sigma>', n')" for i \<sigma> n \<sigma>' n'
    using that by (cases rule: create_waiter_cases) (simp_all add: same_soft_def new_waiter_def gpu_upd_defs)
  obtain \<sigma>1 n1 where 1: "create_waiter s t TIMELINE_GP (\<sigma>, n) = (\<sigma>1, n1)" by fastforce
  obtain \<sigma>2 n2 where 2: "create_waiter s t TIMELINE_PP (\<sigma>1, n1) = (\<sigma>2, n2)" by fastforce
  have 3: "create_waiter s t TIMELINE_SOFT (\<sigma>2, n2) = (\<sigma>', n')"
    using assms 1 2 by (simp add: create_waiters_def timeline_ids_def)
  show ?thesis using one [OF 1] one [OF 2] one [OF 3] by (simp add: same_soft_def)
qed

lemma unlock_user_soft:
  assumes t: "sj_type (g_soft \<sigma> j) = USER_SIGNALED"
    "\<not> is_aborting (g_sessions \<sigma> (sj_session (g_soft \<sigma> j)))"
    and d: "mali_timeline_system_create_waiters_and_unlock n s (SoftJob j) k \<sigma> = Done \<sigma>'"
  shows "trackers_of \<sigma>' = trackers_of \<sigma>"
proof -
  obtain \<sigma>1 left where c: "create_waiters s (SoftJob j) (\<sigma>, k) = (\<sigma>1, left)" by fastforce
  define \<sigma>2 where "\<sigma>2 = dec_trigger (SoftJob j)
    (if left \<noteq> 0 then mali_timeline_system_release_waiter_list s left \<sigma>1 else \<sigma>1)"
  have tr: "trackers_of \<sigma>2 = trackers_of \<sigma>"
    using create_waiters_adds [OF c]
    by (simp add: waiters_added_def \<sigma>2_def dec_trigger_def upd_tracker_lists view_defs
        mali_timeline_system_release_waiter_list_def)
  have so: "same_soft \<sigma> \<sigma>2"
    using create_waiters_soft [OF c]
    by (simp add: same_soft_def \<sigma>2_def dec_trigger_def gpu_upd_defs mali_timeline_system_release_waiter_list_def)
  obtain \<sigma>4 m where r: "(if refs \<sigma>2 (SoftJob j) = 0 then cascade n (TrackerActivate (SoftJob j)) \<sigma>2
        else Done (\<sigma>2, MASK_EMPTY)) = Done (\<sigma>4, m)"
    and e: "\<sigma>' = mali_executor_schedule_from_mask m \<sigma>4"
    using d
    by (auto simp: mali_timeline_system_create_waiters_and_unlock_def c Let_def \<sigma>2_def refs_def
        bind_outcome_Done split: if_splits)
  have "same_view \<sigma>2 \<sigma>4"
    using r activate_user_soft [of \<sigma>2 j n \<sigma>4 m] t so by (auto simp: same_soft_def split: if_splits)
  then show ?thesis
    using tr view_executor [of \<sigma>4 m] by (simp add: e same_view_def)
qed

lemma soft_start_on_line:
  assumes t: "sj_type (g_soft \<sigma> j) = USER_SIGNALED"
    "\<not> is_aborting (g_sessions \<sigma> (sj_session (g_soft \<sigma> j)))"
    and s: "sj_session (g_soft \<sigma> j) = s"
    and room: "\<not> mali_timeline_is_full (the_timeline \<sigma> s TIMELINE_SOFT)"
    and d: "mali_soft_job_start n k j fence \<sigma> = Done (\<sigma>', q)"
  shows "trackers_of \<sigma>' s TIMELINE_SOFT = trackers_of \<sigma> s TIMELINE_SOFT @ [SoftJob j]"
proof -
  define \<sigma>1 where "\<sigma>1 = upd_tracker (SoftJob j) (\<lambda>r. r\<lparr>t_system := s\<rparr>)
    (mali_timeline_tracker_init (SoftJob j) (Some fence) (upd_soft j (\<lambda>job. job\<lparr>sj_state := SOFT_STARTED\<rparr>) \<sigma>))"
  obtain \<sigma>2 a where a: "mali_timeline_system_allocate_waiters s
      (mali_timeline_fence_num_waiters (t_fence (g_trackers \<sigma>1 (SoftJob j)))) k \<sigma>1 = (\<sigma>2, a)" by fastforce
  define \<sigma>3 where "\<sigma>3 = mali_timeline_insert_tracker s TIMELINE_SOFT (SoftJob j) \<sigma>2"
  have v: "same_view \<sigma>1 \<sigma>2" by (rule view_allocate [OF a])
  have f: "trackers_of \<sigma>2 = trackers_of \<sigma>" "next_of \<sigma>2 = next_of \<sigma>" "oldest_of \<sigma>2 = oldest_of \<sigma>"
    using v view_upd_soft [of \<sigma> j "\<lambda>job. job\<lparr>sj_state := SOFT_STARTED\<rparr>"]
    by (simp_all add: same_view_def \<sigma>1_def upd_tracker_lists mali_timeline_tracker_init_def)
  have "\<not> mali_timeline_is_full (the_timeline \<sigma>2 s TIMELINE_SOFT)" using room room_iff f by metis
  then have l: "trackers_of \<sigma>3 s TIMELINE_SOFT = trackers_of \<sigma> s TIMELINE_SOFT @ [SoftJob j]"
    using insert_tracker_lists(1) [OF refl] f(1) by (simp add: \<sigma>3_def)
  have g2: "g_soft \<sigma>2 = (g_soft \<sigma>)(j := g_soft \<sigma> j\<lparr>sj_state := SOFT_STARTED\<rparr>)" "g_sessions \<sigma>2 = g_sessions \<sigma>"
    using a by (auto simp: mali_timeline_system_allocate_waiters_def \<sigma>1_def gpu_upd_defs
        mali_timeline_tracker_init_def Let_def)
  then have g3: "sj_type (g_soft \<sigma>3 j) = USER_SIGNALED"
      "\<not> is_aborting (g_sessions \<sigma>3 (sj_session (g_soft \<sigma>3 j)))"
    using t by (simp_all add: \<sigma>3_def mali_timeline_insert_tracker_def count_tracker_def Let_def gpu_upd_defs)
  from d obtain \<sigma>4 where "mali_timeline_system_create_waiters_and_unlock n s (SoftJob j) a \<sigma>3 = Done \<sigma>4"
    and "\<sigma>' = \<sigma>4"
    using s by (auto simp: mali_soft_job_start_def mali_timeline_system_add_tracker_def \<sigma>1_def [symmetric]
        a \<sigma>3_def [symmetric] Let_def bind_outcome_Done)
  with unlock_user_soft [OF g3] l show ?thesis by simp
qed

section \<open>A tracker that waits for itself\<close>

lemma create_waiter_left:
  assumes "create_waiter s t i (\<sigma>, left) = (\<sigma>', left')"
  shows "left \<le> left' + (if fence_point \<sigma> t i = NO_POINT then 0 else 1)"
  using assms by (cases rule: create_waiter_cases) (auto simp: fence_point_def)

lemma create_waiter_makes:
  assumes "create_waiter s t i (\<sigma>, left) = (\<sigma>', left')" and "0 < left"
    and "fence_point \<sigma> t i = p" "p \<noteq> NO_POINT" "on_line \<sigma> s i p"
    and "off (oldest_of \<sigma> s i) (next_of \<sigma> s i) \<le> 65537"
  shows "\<sigma>' = new_waiter s t i p \<sigma>"
proof -
  have "tspan (the_timeline \<sigma> s i) \<le> 65537" using assms(6) by (simp add: tspan_def off_def oldest_of_def next_of_def)
  then have "\<not> mali_timeline_is_point_released (the_timeline \<sigma> s i) p"
    using released_not_on [of "the_timeline \<sigma> s i" p] assms(5) by (auto simp: on_line_def)
  then show ?thesis
    using assms(1-5) by (auto simp: create_waiter_def new_waiter_def Let_def fence_point_def
        mali_timeline_is_point_valid_def on_line_def split: if_splits)
qed

lemma waiters_added_keeps: "waiters_added s t \<sigma> \<sigma>' \<Longrightarrow> fence_point \<sigma>' = fence_point \<sigma>"
  by (rule fence_identity) (simp add: waiters_added_def)

lemma create_waiter_set:
  "create_waiter s t i (\<sigma>, left) = (\<sigma>', left') \<Longrightarrow> set (waiters_of \<sigma> s' i') \<subseteq> set (waiters_of \<sigma>' s' i')"
  by (erule create_waiter_cases) (auto simp: new_waiter_lines)

text \<open>With enough waiters every point of the fence that is on its timeline gets one.\<close>

lemma create_waiters_makes:
  assumes c: "create_waiters s t (\<sigma>, n) = (\<sigma>', n')"
    and n: "mali_timeline_fence_num_waiters (t_fence (g_trackers \<sigma> t)) \<le> n"
    and p: "fence_point \<sigma> t i = p" "p \<noteq> NO_POINT" "on_line \<sigma> s i p"
    and w: "off (oldest_of \<sigma> s i) (next_of \<sigma> s i) \<le> 65537"
  shows "\<lparr>w_point = p, w_tracker = t\<rparr> \<in> set (waiters_of \<sigma>' s i)"
proof -
  obtain \<sigma>1 n1 where 1: "create_waiter s t TIMELINE_GP (\<sigma>, n) = (\<sigma>1, n1)" by fastforce
  obtain \<sigma>2 n2 where 2: "create_waiter s t TIMELINE_PP (\<sigma>1, n1) = (\<sigma>2, n2)" by fastforce
  have 3: "create_waiter s t TIMELINE_SOFT (\<sigma>2, n2) = (\<sigma>', n')"
    using c 1 2 by (simp add: create_waiters_def timeline_ids_def)
  note a1 = create_waiter_adds [OF 1] and a2 = waiters_added_trans [OF create_waiter_adds [OF 1] create_waiter_adds [OF 2]]
  have f: "fence_point \<sigma>1 = fence_point \<sigma>" "fence_point \<sigma>2 = fence_point \<sigma>"
    by (rule waiters_added_keeps [OF a1], rule waiters_added_keeps [OF a2])
  have o: "oldest_of \<sigma>1 = oldest_of \<sigma>" "next_of \<sigma>1 = next_of \<sigma>" "oldest_of \<sigma>2 = oldest_of \<sigma>" "next_of \<sigma>2 = next_of \<sigma>"
    using a1 a2 by (simp_all add: waiters_added_def)
  then have l: "on_line \<sigma>1 = on_line \<sigma>" "on_line \<sigma>2 = on_line \<sigma>" by (simp_all add: fun_eq_iff on_line_iff)
  have k: "mali_timeline_fence_num_waiters (t_fence (g_trackers \<sigma> t)) =
      (if fence_point \<sigma> t TIMELINE_GP = NO_POINT then 0 else 1) +
      (if fence_point \<sigma> t TIMELINE_PP = NO_POINT then 0 else 1) +
      (if fence_point \<sigma> t TIMELINE_SOFT = NO_POINT then 0 else 1)"
    by (simp add: mali_timeline_fence_num_waiters_def timeline_ids_def fence_point_def NO_POINT_def)
  note left = create_waiter_left [OF 1] create_waiter_left [OF 2, unfolded f]
  have "\<lparr>w_point = p, w_tracker = t\<rparr> \<in> set (waiters_of (new_waiter s t i p \<tau>) s i)" for \<tau>
    by (simp add: new_waiter_lines)
  moreover have "i = TIMELINE_GP \<Longrightarrow> \<sigma>1 = new_waiter s t i p \<sigma>"
    using create_waiter_makes [OF 1] n k p w by (auto split: if_splits)
  moreover have "i = TIMELINE_PP \<Longrightarrow> \<sigma>2 = new_waiter s t i p \<sigma>1"
    using create_waiter_makes [OF 2] n k p w left by (auto simp: f l o split: if_splits)
  moreover have "i = TIMELINE_SOFT \<Longrightarrow> \<sigma>' = new_waiter s t i p \<sigma>2"
    using create_waiter_makes [OF 3] n k p w left by (auto simp: f l o split: if_splits)
  ultimately show ?thesis
    using create_waiter_set [OF 2] create_waiter_set [OF 3] by (cases i) blast+
qed

text \<open>A waiter for the point of its own tracker outlives every cascade that leaves the tracker on
  its timeline.\<close>

lemma own_waiter_stays:
  assumes ok: "\<forall>s i. trackers_ok \<sigma> s i" "waiters_from b \<sigma> s i"
    and d: "cascade n c \<sigma> = Done (\<sigma>', m)"
    and w: "w \<in> set (waiters_of \<sigma> s i)" "w_point w = point_of \<sigma> t" and t: "t \<in> set (trackers_of \<sigma>' s i)"
  shows "w \<in> set (waiters_of \<sigma>' s i)"
proof -
  have mv: "moves_on \<sigma> \<sigma>'" by (rule windows.R_cascade [OF d])
  then have ok': "trackers_ok \<sigma>' s i" and
    g: "\<exists>gone. waiters_of \<sigma> s i = gone @ waiters_of \<sigma>' s i \<and> waiters_from b \<sigma>' s i \<and>
       (\<forall>w\<in>set gone. off b (w_point w) < off b (oldest_of \<sigma>' s i))"
    using ok unfolding moves_on_def by blast+
  have "point_of \<sigma>' t = point_of \<sigma> t"
    using shrink.R_cascade [OF d] by (simp add: shrinks_def identity_fields)
  then have "on_line \<sigma>' s i (w_point w)"
    using ok' t w(2) by (auto simp: trackers_ok_def fits_def on_line_iff off_def word_less_nat_alt)
  moreover obtain gone where gn: "waiters_of \<sigma> s i = gone @ waiters_of \<sigma>' s i" "waiters_from b \<sigma>' s i"
    "\<forall>w\<in>set gone. off b (w_point w) < off b (oldest_of \<sigma>' s i)" using g by blast
  have "w \<notin> set gone"
  proof
    assume "w \<in> set gone"
    then have lt: "off b (w_point w) < off b (oldest_of \<sigma>' s i)" using gn(3) by blast
    moreover have "off b (oldest_of \<sigma>' s i) \<le> off b (next_of \<sigma>' s i)" using gn(2) by (simp add: waiters_from_def)
    ultimately show False
      using on_line_off [OF gn(2), of "w_point w"] \<open>on_line \<sigma>' s i (w_point w)\<close> by simp
  qed
  with w(1) gn(1) show ?thesis by auto
qed

lemma waits_pos:
  assumes "w \<in> set (waiters_of \<sigma> s i)" "w_tracker w = t" "system_of \<sigma> t = s"
  shows "0 < waits \<sigma> t"
proof -
  have "filter (\<lambda>v. w_tracker v = t) (waiters_of \<sigma> s i) \<noteq> []" using assms by (auto simp: filter_empty_conv)
  then show ?thesis using assms(3) by (cases i) (auto simp: waits_def)
qed

lemma unlock_waits:
  assumes ok: "timeline_inv S (add_mset t H) \<sigma>" and s: "system_of \<sigma> t = s" "s \<in> S" and l: "has_line \<sigma> t"
    and small: "unat (refs \<sigma> t) + 3 < 4294967296"
    and k: "mali_timeline_fence_num_waiters (t_fence (g_trackers \<sigma> t)) \<le> k"
    and p: "fence_point \<sigma> t i = p" "p \<noteq> NO_POINT" "on_line \<sigma> s i p"
  shows "\<exists>\<sigma>'. mali_timeline_system_create_waiters_and_unlock n s t k \<sigma> = Done \<sigma>' \<and> refs \<sigma>' t \<noteq> 0 \<and>
           \<lparr>w_point = p, w_tracker = t\<rparr> \<in> set (waiters_of \<sigma>' s i) \<and>
           trackers_of \<sigma>' = trackers_of \<sigma> \<and> point_of \<sigma>' = point_of \<sigma>"
proof -
  let ?w = "\<lparr>w_point = p, w_tracker = t\<rparr>"
  obtain \<sigma>1 left where c: "create_waiters s t (\<sigma>, k) = (\<sigma>1, left)" by fastforce
  have "waiter_round_ok S (add_mset t H) s t 3 \<sigma>" using ok s l small by (simp add: waiter_round_ok_def)
  note c1 = create_waiters_ok [OF this s(2) c]
  have "off (oldest_of \<sigma> s i) (next_of \<sigma> s i) \<le> 65537"
    using ok unfolding timeline_inv_def lines_ok_def trackers_ok_def fits_def by blast
  note w1 = create_waiters_makes [OF c k p this]
  define \<sigma>2 where "\<sigma>2 = (if left \<noteq> 0 then mali_timeline_system_release_waiter_list s left \<sigma>1 else \<sigma>1)"
  have v: "same_view \<sigma>1 \<sigma>2" by (simp add: \<sigma>2_def view_release_list)
  define \<sigma>3 where "\<sigma>3 = dec_trigger t \<sigma>2"
  have "timeline_inv S (add_mset t H) \<sigma>2"
    using inv_same_view [OF v] c1(1) by (simp add: waiter_round_ok_def)
  from inv_dec_trigger [OF this] have tinv: "trigger_inv H {} \<sigma>3" by (simp add: timeline_inv_def \<sigma>3_def)
  have same: "waiters_of \<sigma>3 = waiters_of \<sigma>1" "identity \<sigma>3 = identity \<sigma>" "trackers_of \<sigma>3 = trackers_of \<sigma>"
    using v c1(3) create_waiters_adds [OF c] lines_dec [of \<sigma>2 t]
    by (simp_all add: \<sigma>3_def same_view_def same_lines_def waiters_added_def)
  have "0 < waits \<sigma>3 t" using w1 s(1) same(1,2) by (intro waits_pos [of ?w]) (simp_all add: system_of_def)
  moreover have "unat (refs \<sigma>3 t) = waits \<sigma>3 t + holds \<sigma>3 {} t + count H t"
    using tinv unfolding trigger_inv_def by blast
  ultimately have r: "refs \<sigma>3 t \<noteq> 0" by auto
  then have "mali_timeline_system_create_waiters_and_unlock n s t k \<sigma> =
      Done (mali_executor_schedule_from_mask MASK_EMPTY \<sigma>3)"
    by (simp add: mali_timeline_system_create_waiters_and_unlock_def c Let_def \<sigma>3_def \<sigma>2_def refs_def)
  then show ?thesis
    using r w1 same view_executor [of \<sigma>3 MASK_EMPTY]
    by (simp add: same_view_def fun_eq_iff identity_fields)
qed

lemma allocates_enough:
  assumes "mali_timeline_system_allocate_waiters s m k \<sigma> = (\<sigma>', a)" and "m \<le> k"
  shows "a = m"
  using assms by (auto simp: mali_timeline_system_allocate_waiters_def Let_def)

lemma num_waiters_le: "mali_timeline_fence_num_waiters f \<le> 3"
  by (simp add: mali_timeline_fence_num_waiters_def timeline_ids_def)

lemma add_tracker_own_point:
  assumes i: "timeline_inv S (add_mset t H) \<sigma>" and u: "unlisted \<sigma> t" and s: "s \<in> S"
    and small: "unat (refs \<sigma> t) + 3 < 4294967296" and k: "3 \<le> k"
    and room: "\<not> mali_timeline_is_full (the_timeline \<sigma> s l)"
    and own: "fence_point \<sigma> t l = next_of \<sigma> s l"
  shows "\<exists>\<sigma>'. mali_timeline_system_add_tracker n k s t (Some l) \<sigma> = Done (\<sigma>', next_of \<sigma> s l) \<and>
           refs \<sigma>' t \<noteq> 0 \<and> point_of \<sigma>' t = next_of \<sigma> s l \<and> t \<in> set (trackers_of \<sigma>' s l) \<and>
           \<lparr>w_point = next_of \<sigma> s l, w_tracker = t\<rparr> \<in> set (waiters_of \<sigma>' s l)"
proof -
  let ?p = "next_of \<sigma> s l"
  define \<sigma>1 where "\<sigma>1 = upd_tracker t (\<lambda>r. r\<lparr>t_system := s\<rparr>) \<sigma>"
  have i1: "timeline_inv S (add_mset t H) \<sigma>1" and u1: "unlisted \<sigma>1 t"
    unfolding \<sigma>1_def by (rule inv_upd_unlisted [OF i u]; simp)+
  obtain \<sigma>2 a where a: "mali_timeline_system_allocate_waiters s
      (mali_timeline_fence_num_waiters (t_fence (g_trackers \<sigma>1 t))) k \<sigma>1 = (\<sigma>2, a)" by fastforce
  have n: "a = mali_timeline_fence_num_waiters (t_fence (g_trackers \<sigma>1 t))"
    by (rule allocates_enough [OF a order.trans [OF num_waiters_le k]])
  note v = view_allocate [OF a]
  have i2: "timeline_inv S (add_mset t H) \<sigma>2" by (rule inv_same_view [OF v i1])
  have f1: "next_of \<sigma>1 = next_of \<sigma>" "oldest_of \<sigma>1 = oldest_of \<sigma>" "refs \<sigma>1 = refs \<sigma>" "system_of \<sigma>1 t = s"
    "fence_point \<sigma>1 t = fence_point \<sigma> t"
    by (simp_all add: \<sigma>1_def upd_tracker_lists system_of_upd)
      (simp_all add: fun_eq_iff refs_def fence_point_def upd_tracker_def)
  have f2: "next_of \<sigma>2 = next_of \<sigma>" "oldest_of \<sigma>2 = oldest_of \<sigma>" "refs \<sigma>2 = refs \<sigma>" "system_of \<sigma>2 t = s"
    "unlisted \<sigma>2 t" "t_fence (g_trackers \<sigma>2 t) = t_fence (g_trackers \<sigma>1 t)"
    using v f1 u1 a by (simp_all add: same_view_def system_of_def unlisted_def)
      (auto simp: mali_timeline_system_allocate_waiters_def Let_def gpu_upd_defs)
  have room2: "\<not> mali_timeline_is_full (the_timeline \<sigma>2 s l)" using room room_iff f2(1,2) by metis
  define \<sigma>3 where "\<sigma>3 = mali_timeline_insert_tracker s l t \<sigma>2"
  have "t_system (g_trackers \<sigma>2 t) = s" using f2(4) by (simp add: system_of_def identity_fields)
  then have i3: "timeline_inv S (add_mset t H) \<sigma>3"
    unfolding \<sigma>3_def by (rule inv_insert_tracker [OF i2 f2(5)])
  note x = insert_tracker_fields [OF refl, where s = s and i = l and t = t and \<sigma> = \<sigma>2, folded \<sigma>3_def]
  note y = insert_tracker_lists [OF refl, where s = s and i = l and t = t and \<sigma> = \<sigma>2, folded \<sigma>3_def]
  have pt: "t_point (g_trackers \<sigma>3 t) = ?p" "point_of \<sigma>3 t = ?p"
    using x(1) room2 f2(1) by (simp_all add: point_of_def)
  have f3: "system_of \<sigma>3 t = s" "unat (refs \<sigma>3 t) + 3 < 4294967296" "has_line \<sigma>3 t"
    using x(2,3,5) f2 room2 small by (auto simp: has_line_def split: tref.split)
  have fence: "fence_point \<sigma>3 t l = ?p"
    using y(6) f2(6) f1(5) own by (simp add: fence_point_def fun_eq_iff)
  have tr: "t \<in> set (trackers_of \<sigma>3 s l)" using y(1) room2 by simp
  have "on_line \<sigma>3 s l ?p" "?p \<noteq> NO_POINT"
  proof -
    have "trackers_ok \<sigma>3 s l" "trackers_ok \<sigma> s l" using i3 i by (simp_all add: timeline_inv_def lines_ok_def)
    then show "on_line \<sigma>3 s l ?p" "?p \<noteq> NO_POINT"
      using tr pt(2) by (auto simp: trackers_ok_def fits_def on_line_iff off_def word_less_nat_alt)
  qed
  moreover have "mali_timeline_fence_num_waiters (t_fence (g_trackers \<sigma>3 t)) \<le> a"
    using y(6) f2(6) n by simp
  ultimately obtain \<sigma>' where "mali_timeline_system_create_waiters_and_unlock n s t a \<sigma>3 = Done \<sigma>'"
    "refs \<sigma>' t \<noteq> 0" "\<lparr>w_point = ?p, w_tracker = t\<rparr> \<in> set (waiters_of \<sigma>' s l)"
    "trackers_of \<sigma>' = trackers_of \<sigma>3" "point_of \<sigma>' = point_of \<sigma>3"
    using unlock_waits [OF i3 f3(1) s f3(3,2) _ fence] by blast
  then show ?thesis
    using pt tr by (simp add: mali_timeline_system_add_tracker_def \<sigma>1_def [symmetric] a \<sigma>3_def [symmetric] Let_def)
qed

section \<open>What holds whatever the system does\<close>

text \<open>C29: adding a tracker returns: it is given the next point of its timeline, or no point when
  the timeline is full, and the invariant of the timelines, the exact trigger counts included,
  holds afterwards without the reference the tracker started with. Nine units of fuel for every
  waiter, and 36 for the activation itself, are enough.\<close>

theorem add_tracker_gives_point:
  assumes "timeline_inv S (add_mset t H) \<sigma>" and "unlisted \<sigma> t" and "s \<in> S"
    and "unat (refs \<sigma> t) + 3 < 4294967296" and "soft_has_room \<sigma> s t line" and "fuel_ok S \<sigma> n"
  shows "\<exists>\<sigma>'. mali_timeline_system_add_tracker n k s t line \<sigma> = Done (\<sigma>', point_given \<sigma> s t line) \<and>
           timeline_inv S H \<sigma>'"
  by (rule add_tracker_returns [OF assms])

text \<open>C2: in every reachable state the trigger count of every tracker is exactly the number of
  waiters in its name plus, for a PP job, the number of GP jobs that hold it; so no count has
  wrapped and nothing is waited for twice.\<close>

theorem reachable_counts_exact:
  assumes "reachable S \<sigma>" and "finite S"
  shows "unat (refs \<sigma> t) = waits \<sigma> t + holds \<sigma> {} t"
  using reachable_good [OF assms] by (simp add: good_def timeline_inv_def trigger_inv_def)

text \<open>C3: in every reachable state every timeline is in order: its trackers carry ascending points
  inside the window from the oldest to the next point, and its waiters are sorted and wait for
  points that are still on it.\<close>

theorem reachable_lines_ok:
  assumes "reachable S \<sigma>" and "finite S"
  shows "lines_ok \<sigma>"
  using reachable_good [OF assms] by (simp add: good_def timeline_inv_def)


text \<open>A user-signalled soft job of a session that is not aborting stays where it was put: it
  is last on the soft timeline of its session when it has been started, even when it waits for
  nothing and is activated at once.\<close>

theorem soft_job_waits_for_signal:
  assumes "sj_type (g_soft \<sigma> j) = USER_SIGNALED"
    and "\<not> is_aborting (g_sessions \<sigma> (sj_session (g_soft \<sigma> j)))" and "sj_session (g_soft \<sigma> j) = s"
    and "\<not> mali_timeline_is_full (the_timeline \<sigma> s TIMELINE_SOFT)"
    and "mali_soft_job_start n k j fence \<sigma> = Done (\<sigma>', q)"
  shows "trackers_of \<sigma>' s TIMELINE_SOFT = trackers_of \<sigma> s TIMELINE_SOFT @ [SoftJob j]"
  by (rule soft_start_on_line [OF assms])

text \<open>C30: a fence that names the point its own tracker is about to be given makes the tracker wait
  for itself: it is on its timeline with a trigger count that is not zero, a waiter for its own
  point, and no cascade removes that waiter while the tracker is on its timeline.\<close>

theorem own_point_waits_forever:
  assumes "timeline_inv S (add_mset t H) \<sigma>" and "unlisted \<sigma> t" and "s \<in> S"
    and "unat (refs \<sigma> t) + 3 < 4294967296" and "3 \<le> k"
    and "\<not> mali_timeline_is_full (the_timeline \<sigma> s l)" and "fence_point \<sigma> t l = next_of \<sigma> s l"
    and "fuel_ok S \<sigma> n" and "soft_has_room \<sigma> s t (Some l)"
  shows "\<exists>\<sigma>'. mali_timeline_system_add_tracker n k s t (Some l) \<sigma> = Done (\<sigma>', next_of \<sigma> s l) \<and>
           refs \<sigma>' t \<noteq> 0 \<and> t \<in> set (trackers_of \<sigma>' s l) \<and>
           (\<forall>c n' \<sigma>'' m. cascade n' c \<sigma>' = Done (\<sigma>'', m) \<longrightarrow> t \<in> set (trackers_of \<sigma>'' s l) \<longrightarrow>
              \<lparr>w_point = next_of \<sigma> s l, w_tracker = t\<rparr> \<in> set (waiters_of \<sigma>'' s l))"
proof -
  obtain \<sigma>' where a: "mali_timeline_system_add_tracker n k s t (Some l) \<sigma> = Done (\<sigma>', next_of \<sigma> s l)"
    "refs \<sigma>' t \<noteq> 0" "point_of \<sigma>' t = next_of \<sigma> s l" "t \<in> set (trackers_of \<sigma>' s l)"
    and w: "\<lparr>w_point = next_of \<sigma> s l, w_tracker = t\<rparr> \<in> set (waiters_of \<sigma>' s l)"
    using add_tracker_own_point [OF assms(1-7)] by blast
  have "timeline_inv S H \<sigma>'"
    using add_tracker_returns [OF assms(1-4,9,8), of k] a(1) by auto
  then have ok: "\<forall>s i. trackers_ok \<sigma>' s i" and "waiters_ok \<sigma>' s l"
    by (simp_all add: timeline_inv_def lines_ok_def)
  then have "waiters_from (oldest_of \<sigma>' s l) \<sigma>' s l" using waiters_ok_iff by blast
  then have from': "waiters_from (oldest_of \<sigma>' s l) \<sigma>' s l" .
  have "\<lparr>w_point = next_of \<sigma> s l, w_tracker = t\<rparr> \<in> set (waiters_of \<sigma>'' s l)"
    if "cascade n' c \<sigma>' = Done (\<sigma>'', m)" "t \<in> set (trackers_of \<sigma>'' s l)" for c n' \<sigma>'' m
    using own_waiter_stays [OF ok from' that(1) w _ that(2)] a(3) by simp
  with a show ?thesis by blast
qed

text \<open>A cascade keeps the trigger counts exact whatever it is called for: each count stays the
  number of waiters, holds and pending references of its tracker.\<close>

theorem cascade_keeps_counts:
  assumes "call_pre H D c \<sigma>" and "cascade n c \<sigma> = Done (\<sigma>', m)"
  shows "unat (refs \<sigma>' t) = waits \<sigma>' t + holds \<sigma>' D t + count H t"
  using cascade_inv [OF assms(2,1)] by (simp add: trigger_inv_def)

section \<open>Runs\<close>

text \<open>The state \<open>idle_gpu\<close> is initial; a soft job is started there.\<close>

lemma idle_gpu_initial: "initial idle_gpu"
  by (simp add: initial_def state_examples zeroed_gp_job_def)

lemma idle_gpu_good: "good {0} {#} idle_gpu"
  using initial_good [OF idle_gpu_initial] by simp

lemma idle_gpu_view:
  "waiters_of idle_gpu s i = []" "trackers_of idle_gpu s i = []" "next_of idle_gpu s i = 1"
  "oldest_of idle_gpu s i = 1"
  "\<not> mali_timeline_is_full (the_timeline idle_gpu s i)"
  by (simp_all add: state_examples waiters_of_def trackers_of_def next_of_def oldest_of_def
      the_timeline_def mali_timeline_is_full_def MAX_POINT_SPAN_def)

lemma idle_gpu_idle: "idle idle_gpu t"
proof -
  have "pp_tracker_of idle_gpu j = None" for j by (simp add: pp_tracker_of_def idle_gpu_def zeroed_gp_job_def)
  then show ?thesis by (simp add: idle_def unlisted_def idle_gpu_view holds_def split: tref.split)
qed

text \<open>The tracker of soft job 0, initialised with a fence.\<close>

definition soft_init :: "timeline_fence \<Rightarrow> gpu" where
  "soft_init fence = mali_timeline_tracker_init (SoftJob 0) (Some fence) idle_gpu"

lemma soft_init_prepared: "prepared {0} {#} (SoftJob 0) fence idle_gpu (soft_init fence)"
  unfolding soft_init_def by (rule prepared_init [OF idle_gpu_good idle_gpu_idle]) simp

lemma soft_init_ready:
  "timeline_inv {0} (add_mset (SoftJob 0) {#}) (soft_init fence)" "unlisted (soft_init fence) (SoftJob 0)"
  "unat (refs (soft_init fence) (SoftJob 0)) + 3 < 4294967296"
  "soft_has_room (soft_init fence) 0 (SoftJob 0) (Some TIMELINE_SOFT)"
  "\<not> mali_timeline_is_full (the_timeline (soft_init fence) 0 TIMELINE_SOFT)"
  "fence_point (soft_init fence) (SoftJob 0) TIMELINE_SOFT = f_points fence TIMELINE_SOFT"
  "next_of (soft_init fence) 0 TIMELINE_SOFT = 1" "fuel_ok {0} (soft_init fence) 36"
proof -
  have p: "good {0} (add_mset (SoftJob 0) {#}) (soft_init fence)" "refs (soft_init fence) (SoftJob 0) = 1"
    "unlisted (soft_init fence) = unlisted idle_gpu" "next_of (soft_init fence) = next_of idle_gpu"
    "oldest_of (soft_init fence) = oldest_of idle_gpu" "waiters_of (soft_init fence) = waiters_of idle_gpu"
    "fence_point (soft_init fence) (SoftJob 0) = f_points fence"
    using soft_init_prepared [of fence] unfolding prepared_def by simp_all
  have room: "\<not> mali_timeline_is_full (the_timeline (soft_init fence) 0 TIMELINE_SOFT)"
    using idle_gpu_view(5) room_iff p(4,5) by metis
  show "timeline_inv {0} (add_mset (SoftJob 0) {#}) (soft_init fence)"
    "unlisted (soft_init fence) (SoftJob 0)"
    "unat (refs (soft_init fence) (SoftJob 0)) + 3 < 4294967296"
    "soft_has_room (soft_init fence) 0 (SoftJob 0) (Some TIMELINE_SOFT)"
    "\<not> mali_timeline_is_full (the_timeline (soft_init fence) 0 TIMELINE_SOFT)"
    "fence_point (soft_init fence) (SoftJob 0) TIMELINE_SOFT = f_points fence TIMELINE_SOFT"
    "next_of (soft_init fence) 0 TIMELINE_SOFT = 1" "fuel_ok {0} (soft_init fence) 36"
    using p idle_gpu_idle [of "SoftJob 0"] room
    by (simp_all add: good_def idle_def idle_gpu_view soft_has_room_def fuel_ok_def waiting_def)
qed

text \<open>Starting the soft job with an empty fence.\<close>

definition started :: gpu where
  "started = upd_soft 0 (\<lambda>job. job\<lparr>sj_state := SOFT_STARTED\<rparr>) idle_gpu"

lemma soft_start_returns:
  "\<exists>\<sigma>' q. mali_soft_job_start 36 3 0 zeroed_fence idle_gpu = Done (\<sigma>', q)"
proof -
  let ?\<rho> = "mali_timeline_tracker_init (SoftJob 0) (Some zeroed_fence) started"
  have v: "same_view idle_gpu started" unfolding started_def by (rule view_upd_soft)
  have "prepared {0} {#} (SoftJob 0) zeroed_fence started ?\<rho>"
    by (rule prepared_init [OF good_view [OF v idle_gpu_good]]) (simp_all add: idle_view [OF v] idle_gpu_idle)
  then have p: "timeline_inv {0} (add_mset (SoftJob 0) {#}) ?\<rho>" "unlisted ?\<rho> (SoftJob 0)"
    "unat (refs ?\<rho> (SoftJob 0)) + 3 < 4294967296" "fuel_ok {0} ?\<rho> 36"
    "next_of ?\<rho> = next_of idle_gpu" "oldest_of ?\<rho> = oldest_of idle_gpu"
    using v by (simp_all add: prepared_def good_def same_view_def fuel_ok_def waiting_def idle_gpu_view)
  then have "soft_has_room ?\<rho> 0 (SoftJob 0) (Some TIMELINE_SOFT)"
    using idle_gpu_view(5) room_iff unfolding soft_has_room_def by (metis option.simps(5) tref.simps(19))
  from add_tracker_returns [OF p(1,2) _ p(3) this p(4), of 3] show ?thesis
    by (auto simp: mali_soft_job_start_def Let_def started_def idle_gpu_def)
qed

lemma some_reachable: "\<exists>\<sigma>. reachable {0} \<sigma> \<and> trackers_of \<sigma> 0 TIMELINE_SOFT = [SoftJob 0]"
proof -
  obtain \<sigma>' q where d: "mali_soft_job_start 36 3 0 zeroed_fence idle_gpu = Done (\<sigma>', q)"
    using soft_start_returns by blast
  have s: "sj_session (g_soft idle_gpu 0) = 0" "sj_type (g_soft idle_gpu 0) = USER_SIGNALED"
    "\<not> is_aborting (g_sessions idle_gpu (sj_session (g_soft idle_gpu 0)))"
    by (simp_all add: idle_gpu_def new_session_def)
  have "timeline_step {0} idle_gpu \<sigma>'"
    by (rule timeline_step.start_soft [OF d])
      (simp_all add: s idle_gpu_idle idle_gpu_view own_point_free_def zeroed_fence_def NO_POINT_def)
  then have "reachable {0} \<sigma>'" using reachable.intros idle_gpu_initial by blast
  moreover have "trackers_of \<sigma>' 0 TIMELINE_SOFT = [SoftJob 0]"
    using soft_start_on_line [OF s(2,3,1) idle_gpu_view(5) d] by (simp add: idle_gpu_view)
  ultimately show ?thesis by blast
qed

theorem add_tracker_gives_point_witness:
  "\<exists>\<sigma>'. mali_timeline_system_add_tracker 36 3 0 (SoftJob 0) (Some TIMELINE_SOFT) (soft_init zeroed_fence) =
     Done (\<sigma>', point_given (soft_init zeroed_fence) 0 (SoftJob 0) (Some TIMELINE_SOFT)) \<and>
     timeline_inv {0} {#} \<sigma>'"
  by (rule add_tracker_gives_point [OF soft_init_ready(1,2) _ soft_init_ready(3,4,8)]) simp

theorem reachable_counts_exact_witness:
  "\<exists>\<sigma>. trackers_of \<sigma> 0 TIMELINE_SOFT = [SoftJob 0] \<and>
     unat (refs \<sigma> (SoftJob 0)) = waits \<sigma> (SoftJob 0) + holds \<sigma> {} (SoftJob 0)"
  using some_reachable reachable_counts_exact [of "{0}"] by blast

theorem reachable_lines_ok_witness:
  "\<exists>\<sigma>. trackers_of \<sigma> 0 TIMELINE_SOFT = [SoftJob 0] \<and> lines_ok \<sigma>"
  using some_reachable reachable_lines_ok [of "{0}"] by blast


theorem soft_job_waits_for_signal_witness:
  "\<exists>\<sigma>' q. mali_soft_job_start 36 3 0 zeroed_fence idle_gpu = Done (\<sigma>', q) \<and>
     trackers_of \<sigma>' 0 TIMELINE_SOFT = [SoftJob 0]"
proof -
  obtain \<sigma>' q where d: "mali_soft_job_start 36 3 0 zeroed_fence idle_gpu = Done (\<sigma>', q)"
    using soft_start_returns by blast
  from soft_job_waits_for_signal [OF _ _ _ idle_gpu_view(5) this] d show ?thesis
    by (auto simp: idle_gpu_view(2)) (simp_all add: idle_gpu_def new_session_def)
qed

definition own_fence :: timeline_fence where
  "own_fence = zeroed_fence\<lparr>f_points := (\<lambda>_. 0)(TIMELINE_SOFT := 1)\<rparr>"

theorem own_point_waits_forever_witness:
  "\<exists>\<sigma>'. mali_timeline_system_add_tracker 36 3 0 (SoftJob 0) (Some TIMELINE_SOFT) (soft_init own_fence) =
     Done (\<sigma>', 1) \<and> refs \<sigma>' (SoftJob 0) \<noteq> 0 \<and> SoftJob 0 \<in> set (trackers_of \<sigma>' 0 TIMELINE_SOFT)"
  using own_point_waits_forever [OF soft_init_ready(1,2) _ soft_init_ready(3) _ soft_init_ready(5) _
      soft_init_ready(8,4), of 3 own_fence]
  by (auto simp: soft_init_ready(6,7) own_fence_def)

lemma two_jobs_pre: "call_pre {#} {} (TrackerRelease (GPJob 0)) two_jobs"
  using two_jobs_counts by simp

theorem cascade_keeps_counts_witness:
  "\<exists>\<sigma>' m. cascade 11 (TrackerRelease (GPJob 0)) two_jobs = Done (\<sigma>', m) \<and>
     unat (refs \<sigma>' (PPJob 0)) = waits \<sigma>' (PPJob 0) + holds \<sigma>' {} (PPJob 0)"
  using cascade_keeps_counts [OF two_jobs_pre] two_jobs_release by (metis add.right_neutral count_empty)

end
