(* ===== verification/Sched_Queues.thy ===== *)
theory Sched_Queues
  imports Timeline_Ops
begin

text \<open>
  What the scheduler's queues (common/mali_scheduler.c) promise the executor: the depths and the
  number of big jobs agree with the queues after every operation, and the number of physical sub
  jobs \<open>mali_scheduler_job_physical_head_count\<close> reports can be taken out one after the other.
  The abort of a session is modelled here as well, since it releases trackers.
\<close>

section \<open>Well-formed queues\<close>

abbreviation pp_queued :: "gpu \<Rightarrow> jid list" where
  "pp_queued \<sigma> \<equiv> normal_pri (job_queue_pp \<sigma>) @ high_pri (job_queue_pp \<sigma>)"

abbreviation gp_queued :: "gpu \<Rightarrow> jid list" where
  "gp_queued \<sigma> \<equiv> normal_pri (job_queue_gp \<sigma>) @ high_pri (job_queue_gp \<sigma>)"

abbreviation left :: "(jid \<Rightarrow> pp_job) \<Rightarrow> jid \<Rightarrow> nat" where
  "left J j \<equiv> unat (mali_pp_job_unstarted_sub_job_count (J j))"

definition queued_pp_ok :: "pp_job \<Rightarrow> bool" where
  "queued_pp_ok job \<longleftrightarrow> pp_job_ok job \<and> mali_pp_job_has_unstarted_sub_jobs job \<and>
     (mali_pp_job_is_virtual job \<longrightarrow> pp_sub_jobs_num job = 1)"

definition only_head_started :: "(jid \<Rightarrow> pp_job) \<Rightarrow> jid list \<Rightarrow> bool" where
  "only_head_started J js \<longleftrightarrow> (\<forall>j \<in> set (tl js). \<not> mali_pp_job_has_started_sub_jobs (J j))"

text \<open>The 32-bit depth of the PP queue is the sum of the sub jobs still to be started.\<close>

definition pp_queue_ok :: "gpu \<Rightarrow> bool" where
  "pp_queue_ok \<sigma> \<longleftrightarrow> distinct (pp_queued \<sigma>) \<and> (\<forall>j \<in> set (pp_queued \<sigma>). queued_pp_ok (g_pp \<sigma> j)) \<and>
     only_head_started (g_pp \<sigma>) (normal_pri (job_queue_pp \<sigma>)) \<and>
     only_head_started (g_pp \<sigma>) (high_pri (job_queue_pp \<sigma>)) \<and>
     depth (job_queue_pp \<sigma>) =
       sum_list (map (\<lambda>j. mali_pp_job_unstarted_sub_job_count (g_pp \<sigma> j)) (pp_queued \<sigma>))"

definition gp_queue_ok :: "gpu \<Rightarrow> bool" where
  "gp_queue_ok \<sigma> \<longleftrightarrow> distinct (gp_queued \<sigma>) \<and>
     depth (job_queue_gp \<sigma>) = of_nat (length (gp_queued \<sigma>)) \<and>
     big_job_num (job_queue_gp \<sigma>) =
       of_nat (length (filter (\<lambda>j. gp_big_job (g_gp \<sigma> j) \<noteq> 0) (gp_queued \<sigma>)))"

lemma virtual_not_started:
  "queued_pp_ok job \<Longrightarrow> mali_pp_job_is_virtual job \<Longrightarrow> \<not> mali_pp_job_has_started_sub_jobs job"
  by (auto simp: queued_pp_ok_def mali_pp_job_has_unstarted_sub_jobs_def
      mali_pp_job_has_started_sub_jobs_def word_less_nat_alt)

lemma left_pos: "queued_pp_ok (J j) \<Longrightarrow> 0 < left J j"
  using has_unstarted_iff [of "J j"] by (simp add: queued_pp_ok_def)

lemma left_mark_started:
  "queued_pp_ok (J j) \<Longrightarrow>
     left (J(j := mali_pp_job_mark_sub_job_started i (J j))) j = left J j - 1"
  using mark_started_ok [of "J j" i]
  by (simp add: unstarted_count_unat queued_pp_ok_def)
    (simp add: mali_pp_job_mark_sub_job_started_def pp_job_ok_unat unat_plus_u32
      mali_pp_job_has_unstarted_sub_jobs_def word_less_nat_alt)

lemma count_mark_started:
  "mali_pp_job_unstarted_sub_job_count (mali_pp_job_mark_sub_job_started i job) =
     mali_pp_job_unstarted_sub_job_count job - 1"
  by (simp add: mali_pp_job_unstarted_sub_job_count_def mali_pp_job_mark_sub_job_started_def)

section \<open>The count at the head of the queues\<close>

text \<open>The reference: the sub jobs of the leading run of physical jobs of the GPU's mode.\<close>

abbreviation phys :: "bool \<Rightarrow> (jid \<Rightarrow> pp_job) \<Rightarrow> jid \<Rightarrow> bool" where
  "phys secure J j \<equiv> \<not> mali_pp_job_is_virtual (J j) \<and> mode_matches secure (J j)"

definition run_count :: "(jid \<Rightarrow> pp_job) \<Rightarrow> (jid \<Rightarrow> bool) \<Rightarrow> jid list \<Rightarrow> nat" where
  "run_count J P js = sum_list (map (left J) (takeWhile P js))"

definition head_sub_jobs :: "bool \<Rightarrow> gpu \<Rightarrow> nat" where
  "head_sub_jobs secure \<sigma> =
     (let J = g_pp \<sigma>; q = job_queue_pp \<sigma> in
      unat (head_count_partial secure J (normal_pri q)) + run_count J (phys secure J) (high_pri q) +
      (if list_all (phys secure J) (high_pri q)
       then run_count J (\<lambda>j. \<not> mali_pp_job_is_virtual (J j) \<and>
              \<not> mali_pp_job_has_started_sub_jobs (J j) \<and> mode_matches secure (J j)) (normal_pri q)
       else 0))"

lemma head_count_loop_run:
  assumes "unat k < 8" and "\<And>j. j \<in> set js \<Longrightarrow> left J j \<le> 8"
  shows "case head_count_loop P J js k of
           Inl r \<Rightarrow> unat r = min 8 (unat k + run_count J (\<lambda>j. P (J j)) js) \<and>
                    (8 \<le> unat k + run_count J (\<lambda>j. P (J j)) js \<or> \<not> list_all (\<lambda>j. P (J j)) js)
         | Inr r \<Rightarrow> list_all (\<lambda>j. P (J j)) js \<and> unat r < 8 \<and>
                    unat r = unat k + run_count J (\<lambda>j. P (J j)) js"
  using assms
proof (induction js arbitrary: k)
  case (Cons j js)
  have u: "unat (k + mali_pp_job_unstarted_sub_job_count (J j)) = unat k + left J j"
    using Cons.prems(1) Cons.prems(2) [of j] by (simp add: unat_plus_u32)
  have m: "MAX_PHYSICAL_PP_GROUPS \<le> k + mali_pp_job_unstarted_sub_job_count (J j) \<longleftrightarrow>
      8 \<le> unat k + left J j"
    by (simp add: word_le_nat_alt MAX_PHYSICAL_PP_GROUPS_def u)
  show ?case
  proof (cases "P (J j) \<and> \<not> 8 \<le> unat k + left J j")
    case True
    then have "unat (k + mali_pp_job_unstarted_sub_job_count (J j)) < 8" by (simp add: u)
    from Cons.IH [OF this] Cons.prems(2) True m show ?thesis
      by (simp add: run_count_def u add.assoc split: sum.splits)
  next
    case False
    then show ?thesis
      using m Cons.prems(1) by (auto simp: run_count_def MAX_PHYSICAL_PP_GROUPS_def)
  qed
qed (simp add: run_count_def)

lemma left_le_8:
  assumes "queued_pp_ok (J j)" shows "left J j \<le> 8"
  using assms unstarted_count_unat [of "J j"] pp_job_ok_unat [of "J j"]
  unfolding queued_pp_ok_def by linarith

lemma head_count_capped:
  assumes "pp_queue_ok \<sigma>"
  shows "unat (mali_scheduler_job_physical_head_count secure \<sigma>) = min 8 (head_sub_jobs secure \<sigma>)"
proof -
  let ?J = "g_pp \<sigma>" and ?q = "job_queue_pp \<sigma>"
  let ?c = "head_count_partial secure ?J (normal_pri ?q)"
  let ?P = "\<lambda>job. \<not> mali_pp_job_is_virtual job \<and> mode_matches secure job"
  let ?N = "\<lambda>job. \<not> mali_pp_job_is_virtual job \<and> \<not> mali_pp_job_has_started_sub_jobs job \<and>
              mode_matches secure job"
  have ok: "queued_pp_ok (?J j)" if "j \<in> set (normal_pri ?q) \<union> set (high_pri ?q)" for j
    using assms that by (auto simp: pp_queue_ok_def)
  have m: "MAX_PHYSICAL_PP_GROUPS \<le> ?c \<longleftrightarrow> 8 \<le> unat ?c"
    by (simp add: word_le_nat_alt MAX_PHYSICAL_PP_GROUPS_def)
  show ?thesis
  proof (cases "8 \<le> unat ?c")
    case True
    then show ?thesis
      using m by (simp add: mali_scheduler_job_physical_head_count_def head_sub_jobs_def
          MAX_PHYSICAL_PP_GROUPS_def Let_def)
  next
    case False
    then have c: "unat ?c < 8" by simp
    note H = head_count_loop_run [OF c, of "high_pri ?q" ?J ?P]
    show ?thesis
    proof (cases "head_count_loop ?P ?J (high_pri ?q) ?c")
      case (Inl r)
      with H ok left_le_8 [of ?J] m c show ?thesis
        by (auto simp: mali_scheduler_job_physical_head_count_def head_sub_jobs_def Let_def)
    next
      case (Inr count1)
      with H ok left_le_8 [of ?J] have c1: "unat count1 < 8" "list_all (\<lambda>j. ?P (?J j)) (high_pri ?q)"
        "unat count1 = unat ?c + run_count ?J (\<lambda>j. ?P (?J j)) (high_pri ?q)"
        by auto
      have "left ?J j \<le> 8" if "j \<in> set (normal_pri ?q)" for j
        using ok [of j] left_le_8 [of ?J j] that by simp
      note n = head_count_loop_run [OF c1(1), of "normal_pri ?q" ?J ?N, OF this]
      have h: "mali_scheduler_job_physical_head_count secure \<sigma> =
          (case head_count_loop ?N ?J (normal_pri ?q) count1 of Inl r \<Rightarrow> r | Inr r \<Rightarrow> r)"
        using Inr m False by (simp add: mali_scheduler_job_physical_head_count_def Let_def)
      have r: "head_sub_jobs secure \<sigma> = unat count1 + run_count ?J (\<lambda>j. ?N (?J j)) (normal_pri ?q)"
        using c1(2,3) by (simp add: head_sub_jobs_def Let_def)
      show ?thesis
        unfolding h r using n
        by (cases "head_count_loop ?N ?J (normal_pri ?q) count1") auto
    qed
  qed
qed

section \<open>Taking a sub job out\<close>

abbreviation qsum :: "(jid \<Rightarrow> pp_job) \<Rightarrow> jid list \<Rightarrow> u32" where
  "qsum J js \<equiv> sum_list (map (\<lambda>j. mali_pp_job_unstarted_sub_job_count (J j)) js)"

definition started_in :: "(jid \<Rightarrow> pp_job) \<Rightarrow> jid \<Rightarrow> jid \<Rightarrow> pp_job" where
  "started_in J j = J(j := mali_pp_job_mark_sub_job_started (pp_sub_jobs_started (J j)) (J j))"

text \<open>What is left of a queue when a sub job of \<open>j\<close> has been taken.\<close>

definition take_from :: "(jid \<Rightarrow> pp_job) \<Rightarrow> jid \<Rightarrow> jid list \<Rightarrow> jid list" where
  "take_from J j js = (if left J j = 1 then remove1 j js else js)"

lemma physical_get_eq:
  assumes "mali_scheduler_job_pp_physical_peek \<sigma> = Some j" and "queued_pp_ok (g_pp \<sigma> j)"
    and "mali_scheduler_job_pp_physical_get \<sigma> = (\<sigma>', r)"
  shows "r = Some (j, pp_sub_jobs_started (g_pp \<sigma> j))" "g_pp \<sigma>' = started_in (g_pp \<sigma>) j"
    and "normal_pri (job_queue_pp \<sigma>') = take_from (g_pp \<sigma>) j (normal_pri (job_queue_pp \<sigma>))"
    and "high_pri (job_queue_pp \<sigma>') = take_from (g_pp \<sigma>) j (high_pri (job_queue_pp \<sigma>))"
    and "depth (job_queue_pp \<sigma>') = depth (job_queue_pp \<sigma>) - 1"
    and "job_queue_gp \<sigma>' = job_queue_gp \<sigma>" "g_gp \<sigma>' = g_gp \<sigma>"
proof -
  have "mali_pp_job_has_unstarted_sub_jobs (mali_pp_job_mark_sub_job_started i (g_pp \<sigma> j)) \<longleftrightarrow>
      left (g_pp \<sigma>) j \<noteq> 1" for i
    using assms(2) mark_started_ok [of "g_pp \<sigma> j" i] left_mark_started [of "g_pp \<sigma>" j i]
      left_pos [of "g_pp \<sigma>" j]
    by (auto simp: has_unstarted_iff queued_pp_ok_def)
  then show "r = Some (j, pp_sub_jobs_started (g_pp \<sigma> j))" "g_pp \<sigma>' = started_in (g_pp \<sigma>) j"
    "normal_pri (job_queue_pp \<sigma>') = take_from (g_pp \<sigma>) j (normal_pri (job_queue_pp \<sigma>))"
    "high_pri (job_queue_pp \<sigma>') = take_from (g_pp \<sigma>) j (high_pri (job_queue_pp \<sigma>))"
    "depth (job_queue_pp \<sigma>') = depth (job_queue_pp \<sigma>) - 1"
    "job_queue_gp \<sigma>' = job_queue_gp \<sigma>" "g_gp \<sigma>' = g_gp \<sigma>"
    using assms(1,3)
    by (auto simp: mali_scheduler_job_pp_physical_get_def Let_def mali_pp_job_fb_lookup_remove_def
        upd_session_def upd_pp_def started_in_def take_from_def mali_pp_job_list_remove_def
        queue_unlink_def dec_depth_def mali_pp_job_get_first_unstarted_sub_job_def
        split: if_splits)
qed

lemma other_queue:
  assumes "j \<notin> set js"
  shows "take_from J j js = js" "qsum (started_in J j) js = qsum J js"
    and "only_head_started (started_in J j) js = only_head_started J js"
proof -
  show "take_from J j js = js" using assms by (simp add: take_from_def remove1_idem)
  show "qsum (started_in J j) js = qsum J js"
    using assms by (intro arg_cong [where f = sum_list] map_cong refl) (auto simp: started_in_def)
  show "only_head_started (started_in J j) js = only_head_started J js"
    using assms by (cases js) (auto simp: only_head_started_def started_in_def)
qed

lemma own_queue:
  assumes "distinct (j # js)" and "queued_pp_ok (J j)" and "only_head_started J (j # js)"
  shows "qsum (started_in J j) (take_from J j (j # js)) = qsum J (j # js) - 1"
    and "only_head_started (started_in J j) (take_from J j (j # js))"
proof -
  have j: "j \<notin> set js" using assms(1) by simp
  have "mali_pp_job_unstarted_sub_job_count (J j) = 1" if "left J j = 1"
    using that by (metis unat_1 word_unat_eq_iff)
  then show "qsum (started_in J j) (take_from J j (j # js)) = qsum J (j # js) - 1"
    using other_queue(2) [OF j, of J]
    by (simp add: take_from_def started_in_def count_mark_started)
  show "only_head_started (started_in J j) (take_from J j (j # js))"
    using assms(3) j by (cases js) (auto simp: only_head_started_def take_from_def started_in_def)
qed

lemma started_in_ok:
  assumes "queued_pp_ok (J k)" and "queued_pp_ok (J j)" and "k \<noteq> j \<or> left J j \<noteq> 1"
  shows "queued_pp_ok (started_in J j k)"
proof (cases "k = j")
  case True
  let ?i = "pp_sub_jobs_started (J j)"
  have "pp_job_ok (mali_pp_job_mark_sub_job_started ?i (J j))"
    using assms(2) mark_started_ok [of "J j" ?i] by (simp add: queued_pp_ok_def)
  moreover from this have "mali_pp_job_has_unstarted_sub_jobs (mali_pp_job_mark_sub_job_started ?i (J j))"
    using assms(2,3) True left_mark_started [of J j ?i] left_pos [of J j] by (simp add: has_unstarted_iff)
  ultimately show ?thesis
    using assms(2) True
    by (simp add: queued_pp_ok_def started_in_def mali_pp_job_is_virtual_def mali_pp_job_mark_sub_job_started_def)
qed (use assms(1) in \<open>simp add: started_in_def\<close>)

lemma peek_is_head:
  "mali_scheduler_job_pp_physical_peek \<sigma> = Some j \<Longrightarrow>
     (\<exists>js. normal_pri (job_queue_pp \<sigma>) = j # js) \<or> (\<exists>js. high_pri (job_queue_pp \<sigma>) = j # js)"
  by (auto simp: mali_scheduler_job_pp_physical_peek_def Let_def split: list.splits if_splits option.splits)

lemma set_take_from: "distinct js \<Longrightarrow> set (take_from J j js) = (if left J j = 1 then set js - {j} else set js)"
  by (simp add: take_from_def)

lemma physical_get_queue_ok:
  assumes "pp_queue_ok \<sigma>" and "mali_scheduler_job_pp_physical_peek \<sigma> = Some j"
    and "mali_scheduler_job_pp_physical_get \<sigma> = (\<sigma>', r)"
  shows "pp_queue_ok \<sigma>'"
proof -
  let ?J = "g_pp \<sigma>" and ?n = "normal_pri (job_queue_pp \<sigma>)" and ?h = "high_pri (job_queue_pp \<sigma>)"
  have d: "distinct ?n" "distinct ?h" "set ?n \<inter> set ?h = {}"
    and ok: "\<And>k. k \<in> set ?n \<union> set ?h \<Longrightarrow> queued_pp_ok (?J k)"
    and s: "only_head_started ?J ?n" "only_head_started ?J ?h"
    and dep: "depth (job_queue_pp \<sigma>) = qsum ?J ?n + qsum ?J ?h"
    using assms(1) by (auto simp: pp_queue_ok_def)
  have "j \<in> set ?n \<union> set ?h" using peek_is_head [OF assms(2)] by auto
  then have okj: "queued_pp_ok (?J j)" by (rule ok)
  note g = physical_get_eq [OF assms(2) okj assms(3)]
  have t: "qsum (started_in ?J j) (take_from ?J j ?n) + qsum (started_in ?J j) (take_from ?J j ?h)
        = qsum ?J ?n + qsum ?J ?h - 1 \<and> only_head_started (started_in ?J j) (take_from ?J j ?n) \<and>
      only_head_started (started_in ?J j) (take_from ?J j ?h)"
  proof (cases "\<exists>js. ?n = j # js")
    case True
    then obtain js where n: "?n = j # js" by blast
    then have "j \<notin> set ?h" using d(3) by auto
    from other_queue [OF this, of ?J] own_queue [of j js ?J] n d(1) okj s show ?thesis
      by (simp add: algebra_simps)
  next
    case False
    with peek_is_head [OF assms(2)] obtain js where h: "?h = j # js" by blast
    then have "j \<notin> set ?n" using d(3) by auto
    from other_queue [OF this, of ?J] own_queue [of j js ?J] h d(2) okj s show ?thesis
      by (simp add: algebra_simps)
  qed
  have "queued_pp_ok (started_in ?J j k)"
    if "k \<in> set (take_from ?J j ?n) \<union> set (take_from ?J j ?h)" for k
    using that d(1,2) ok [of k] okj
    by (intro started_in_ok) (auto simp: set_take_from split: if_splits)
  moreover have "distinct (take_from ?J j ?n @ take_from ?J j ?h)"
    using d by (auto simp: take_from_def)
  ultimately show ?thesis
    using t dep by (simp add: pp_queue_ok_def g)
qed

section \<open>The reported sub jobs can be taken\<close>

text \<open>The executor asks with the mode the GPU is in, which is the mode of a job in progress.\<close>

definition mode_of_started :: "bool \<Rightarrow> gpu \<Rightarrow> bool" where
  "mode_of_started secure \<sigma> \<longleftrightarrow>
     (\<forall>j \<in> set (pp_queued \<sigma>). mali_pp_job_has_started_sub_jobs (g_pp \<sigma> j) \<longrightarrow> mode_matches secure (g_pp \<sigma> j))"

definition fresh_jobs :: "(jid \<Rightarrow> pp_job) \<Rightarrow> jid list \<Rightarrow> jid list" where
  "fresh_jobs J js = (case js of [] \<Rightarrow> []
     | j # rest \<Rightarrow> if mali_pp_job_has_started_sub_jobs (J j) then rest else js)"

definition available :: "bool \<Rightarrow> gpu \<Rightarrow> nat" where
  "available secure \<sigma> =
     (let J = g_pp \<sigma>; q = job_queue_pp \<sigma> in
      unat (head_count_partial secure J (normal_pri q)) + run_count J (phys secure J) (high_pri q) +
      (if list_all (phys secure J) (high_pri q)
       then run_count J (phys secure J) (fresh_jobs J (normal_pri q)) else 0))"

lemma head_le_available:
  assumes "pp_queue_ok \<sigma>"
  shows "head_sub_jobs secure \<sigma> \<le> available secure \<sigma>"
proof -
  let ?J = "g_pp \<sigma>" and ?n = "normal_pri (job_queue_pp \<sigma>)"
  have "run_count ?J (\<lambda>j. \<not> mali_pp_job_is_virtual (?J j) \<and> \<not> mali_pp_job_has_started_sub_jobs (?J j) \<and>
      mode_matches secure (?J j)) ?n \<le> run_count ?J (phys secure ?J) (fresh_jobs ?J ?n)"
  proof (cases "fresh_jobs ?J ?n = ?n")
    case True
    have "\<not> mali_pp_job_has_started_sub_jobs (?J j)" if "j \<in> set ?n" for j
      using assms True that by (cases ?n) (auto simp: fresh_jobs_def pp_queue_ok_def only_head_started_def
        split: if_splits)
    then show ?thesis
      unfolding run_count_def True by (simp cong: takeWhile_cong)
  qed (auto simp: run_count_def fresh_jobs_def split: list.splits if_splits)
  then show ?thesis by (simp add: head_sub_jobs_def available_def Let_def)
qed

lemma mode_started_in [simp]:
  "mode_matches secure (started_in J j k) = mode_matches secure (J k)"
  "mali_pp_job_is_virtual (started_in J j k) = mali_pp_job_is_virtual (J k)"
  by (simp_all add: started_in_def mode_matches_def mali_pp_job_is_protected_job_def
      mali_pp_job_mark_sub_job_started_def mali_pp_job_is_virtual_def)

lemma run_other: "j \<notin> set js \<Longrightarrow> run_count (started_in J j) P js = run_count J P js"
  unfolding run_count_def
  by (intro arg_cong [where f = sum_list] map_cong refl) (auto simp: started_in_def dest: set_takeWhileD)

lemma left_started_in: "queued_pp_ok (J j) \<Longrightarrow> left (started_in J j) j = left J j - 1"
  using left_mark_started [of J j] by (simp add: started_in_def)

lemma is_started_in [simp]:
  "queued_pp_ok (J j) \<Longrightarrow> mali_pp_job_has_started_sub_jobs (started_in J j j)"
  by (auto simp: started_in_def mali_pp_job_has_started_sub_jobs_def queued_pp_ok_def
      mali_pp_job_mark_sub_job_started_def pp_job_ok_unat mali_pp_job_has_unstarted_sub_jobs_def
      word_less_nat_alt unat_plus_u32)

lemma not_own_started: "k \<noteq> j \<Longrightarrow> started_in J j k = J k"
  by (simp add: started_in_def)

text \<open>Taking the first sub job of a queue's head.\<close>

lemma run_own:
  assumes "distinct (j # js)" and "queued_pp_ok (J j)" and "P j"
  shows "run_count (started_in J j) P (take_from J j (j # js)) = run_count J P (j # js) - 1"
  using assms left_pos [of J j] run_other [of j js J P] left_started_in [of J j]
  by (auto simp: take_from_def run_count_def)

lemma run_pos: "queued_pp_ok (J j) \<Longrightarrow> P j \<Longrightarrow> 0 < run_count J P (j # js)"
  using left_pos [of J j] by (simp add: run_count_def)

lemma partial_unstarted:
  "only_head_started J (j # js) \<Longrightarrow> head_count_partial secure J js = 0 \<and> fresh_jobs J js = js"
  by (auto simp: only_head_started_def head_count_partial_def fresh_jobs_def split: list.splits)

lemma available_after_normal:
  assumes s: "only_head_started J (j # js)" and d: "distinct (j # js)"
    and ok: "queued_pp_ok (J j)" and p: "phys secure J j"
  shows "unat (head_count_partial secure (started_in J j) (take_from J j (j # js))) = left J j - 1 \<and>
         fresh_jobs (started_in J j) (take_from J j (j # js)) = js"
proof -
  note u = partial_unstarted [OF s, of secure]
  have "\<forall>k \<in> set js. started_in J j k = J k" using d not_own_started by (metis distinct.simps(2))
  then have e: "head_count_partial secure (started_in J j) js = head_count_partial secure J js"
    "fresh_jobs (started_in J j) js = fresh_jobs J js"
    by (auto simp: head_count_partial_def fresh_jobs_def split: list.splits)
  show ?thesis
  proof (cases "left J j = 1")
    case True
    then show ?thesis using e u by (simp add: take_from_def)
  next
    case False
    then show ?thesis
      using ok p left_started_in [of J j] by (simp add: take_from_def head_count_partial_def fresh_jobs_def)
  qed
qed

lemma available_step:
  assumes "pp_queue_ok \<sigma>" and "mode_of_started secure \<sigma>" and "0 < available secure \<sigma>"
    and g: "mali_scheduler_job_pp_physical_get \<sigma> = (\<sigma>', r)"
  shows "\<exists>j. mali_scheduler_job_pp_physical_peek \<sigma> = Some j \<and> phys secure (g_pp \<sigma>) j \<and>
             available secure \<sigma>' = available secure \<sigma> - 1"
proof -
  let ?J = "g_pp \<sigma>" and ?n = "normal_pri (job_queue_pp \<sigma>)" and ?h = "high_pri (job_queue_pp \<sigma>)"
  have d: "distinct ?n" "distinct ?h" "set ?n \<inter> set ?h = {}"
    and ok: "\<And>k. k \<in> set ?n \<union> set ?h \<Longrightarrow> queued_pp_ok (?J k)"
    and s: "only_head_started ?J ?n" "only_head_started ?J ?h"
    using assms(1) by (auto simp: pp_queue_ok_def)
  have av: "available secure \<sigma>' =
      unat (head_count_partial secure (started_in ?J j) (take_from ?J j ?n)) +
      run_count (started_in ?J j) (phys secure ?J) (take_from ?J j ?h) +
      (if list_all (phys secure ?J) (take_from ?J j ?h)
       then run_count (started_in ?J j) (phys secure ?J)
              (fresh_jobs (started_in ?J j) (take_from ?J j ?n)) else 0)"
    if "mali_scheduler_job_pp_physical_peek \<sigma> = Some j" and "queued_pp_ok (?J j)" for j
    using physical_get_eq(2-4) [OF that g] by (simp add: available_def Let_def)
  have "fresh_jobs ?J ?n = ?n \<or> (\<exists>n ns. ?n = n # ns \<and> mali_pp_job_has_started_sub_jobs (?J n))"
    by (auto simp: fresh_jobs_def split: list.splits)
  then consider (started) n ns where "?n = n # ns" "mali_pp_job_has_started_sub_jobs (?J n)"
    | (high) h hs where "fresh_jobs ?J ?n = ?n" "?h = h # hs"
    | (normal) "fresh_jobs ?J ?n = ?n" "?h = []"
    by (cases ?h) blast+
  then show ?thesis
  proof cases
    case started
    have okn: "queued_pp_ok (?J n)" using started(1) by (intro ok) simp
    have ph: "phys secure ?J n"
      using assms(2) started okn virtual_not_started by (auto simp: mode_of_started_def)
    have pk: "mali_scheduler_job_pp_physical_peek \<sigma> = Some n"
      using started ph by (simp add: mali_scheduler_job_pp_physical_peek_def Let_def)
    have nh: "n \<notin> set ?h" "n \<notin> set ns" using d started(1) by auto
    have a: "unat (head_count_partial secure (started_in ?J n) (take_from ?J n ?n)) = left ?J n - 1 \<and>
        fresh_jobs (started_in ?J n) (take_from ?J n ?n) = ns"
      using s(1) d(1) okn ph unfolding started(1) by (intro available_after_normal)
    show ?thesis
      using av [OF pk okn] a s(1) d(1) started ph nh pk left_pos [of ?J n] okn
      by (simp add: other_queue run_other available_def Let_def head_count_partial_def fresh_jobs_def)
  next
    case high
    have okh: "queued_pp_ok (?J h)" using high(2) by (intro ok) simp
    have p0: "head_count_partial secure ?J ?n = 0"
      using high(1) by (auto simp: head_count_partial_def fresh_jobs_def split: list.splits if_splits)
    have ph: "phys secure ?J h"
      using assms(3) high p0 by (auto simp: available_def Let_def run_count_def split: if_splits)
    have un: "?n \<noteq> [] \<Longrightarrow> \<not> mali_pp_job_has_started_sub_jobs (?J (hd ?n))"
      using high(1) by (cases ?n) (auto simp: fresh_jobs_def split: if_splits)
    have pk: "mali_scheduler_job_pp_physical_peek \<sigma> = Some h"
      using high ph un by (auto simp: mali_scheduler_job_pp_physical_peek_def Let_def split: list.splits)
    have nh: "h \<notin> set ?n" using d high(2) by auto
    then have same: "started_in ?J h k = ?J k" if "k \<in> set ?n" for k
      using that nh not_own_started by metis
    have e: "head_count_partial secure (started_in ?J h) ?n = 0" "fresh_jobs (started_in ?J h) ?n = ?n"
      using p0 high(1) same by (auto simp: head_count_partial_def fresh_jobs_def split: list.splits)
    have l: "list_all (phys secure ?J) (take_from ?J h ?h) = list_all (phys secure ?J) ?h"
      using high ph by (simp add: take_from_def)
    have "run_count (started_in ?J h) (phys secure ?J) (take_from ?J h ?h) = run_count ?J (phys secure ?J) ?h - 1"
      "0 < run_count ?J (phys secure ?J) ?h"
      using run_own [of h hs ?J "phys secure ?J"] run_pos [of ?J h "phys secure ?J" hs] d(2) okh ph
      unfolding high(2) by blast+
    then show ?thesis
      using av [OF pk okh] e l pk ph nh p0 high(1)
      by (simp add: other_queue run_other available_def Let_def)
  next
    case normal
    have p0: "head_count_partial secure ?J ?n = 0"
      using normal(1) by (auto simp: head_count_partial_def fresh_jobs_def split: list.splits if_splits)
    have pos: "0 < run_count ?J (phys secure ?J) ?n"
      using assms(3) normal p0 by (simp add: available_def Let_def run_count_def)
    then obtain n ns where n: "?n = n # ns" "phys secure ?J n"
      by (cases ?n) (auto simp: run_count_def split: if_splits)
    have okn: "queued_pp_ok (?J n)" using n(1) by (intro ok) simp
    have pk: "mali_scheduler_job_pp_physical_peek \<sigma> = Some n"
      using n normal by (simp add: mali_scheduler_job_pp_physical_peek_def Let_def)
    have a: "unat (head_count_partial secure (started_in ?J n) (take_from ?J n ?n)) = left ?J n - 1 \<and>
        fresh_jobs (started_in ?J n) (take_from ?J n ?n) = ns"
      using s(1) d(1) okn n(2) unfolding n(1) by (intro available_after_normal)
    have "n \<notin> set ns" using d(1) n(1) by simp
    then have o: "run_count (started_in ?J n) (phys secure ?J) ns = run_count ?J (phys secure ?J) ns"
      by (rule run_other)
    have t: "run_count ?J (phys secure ?J) ?n = left ?J n + run_count ?J (phys secure ?J) ns"
      "take_from ?J n [] = []" "run_count (started_in ?J n) (phys secure ?J) [] = 0"
      "run_count ?J (phys secure ?J) [] = 0"
      using n by (simp_all add: run_count_def take_from_def)
    have "available secure \<sigma> = run_count ?J (phys secure ?J) ?n"
      unfolding available_def Let_def normal p0 t by simp
    moreover have "available secure \<sigma>' = left ?J n - 1 + run_count ?J (phys secure ?J) ns"
      unfolding av [OF pk okn] normal(2) t using a o by simp
    ultimately show ?thesis
      using pk n left_pos [of ?J n] okn t(1) by simp
  qed
qed

text \<open>Taking \<open>n\<close> sub jobs one after the other, as the executor does when it fills its idle groups.\<close>

fun physical_gets :: "nat \<Rightarrow> gpu \<Rightarrow> gpu \<times> (jid \<times> u32) option list" where
  "physical_gets 0 \<sigma> = (\<sigma>, [])"
| "physical_gets (Suc n) \<sigma> =
     (let (\<sigma>1, r) = mali_scheduler_job_pp_physical_get \<sigma>; (\<sigma>2, rs) = physical_gets n \<sigma>1
      in (\<sigma>2, r # rs))"

lemma get_queued_mono:
  assumes "queued_pp_ok (g_pp \<sigma> j)" and "mali_scheduler_job_pp_physical_peek \<sigma> = Some j"
    and "mali_scheduler_job_pp_physical_get \<sigma> = (\<sigma>', r)"
  shows "set (pp_queued \<sigma>') \<subseteq> set (pp_queued \<sigma>)"
  using physical_get_eq(3,4) [OF assms(2,1,3)] set_remove1_subset [of j]
  by (auto simp: take_from_def split: if_splits dest: notin_set_remove1)

lemma gets_succeed:
  assumes "pp_queue_ok \<sigma>" and "mode_of_started secure \<sigma>" and "n \<le> available secure \<sigma>"
  shows "\<exists>l. snd (physical_gets n \<sigma>) = map Some l \<and> length l = n \<and> distinct l \<and>
    (\<forall>(j, i) \<in> set l. j \<in> set (pp_queued \<sigma>) \<and> phys secure (g_pp \<sigma>) j \<and>
        pp_sub_jobs_started (g_pp \<sigma> j) \<le> i \<and> i < pp_sub_jobs_num (g_pp \<sigma> j))"
  using assms
proof (induction n arbitrary: \<sigma>)
  case (Suc n)
  let ?J = "g_pp \<sigma>"
  obtain \<sigma>1 r where g: "mali_scheduler_job_pp_physical_get \<sigma> = (\<sigma>1, r)" by fastforce
  have "0 < available secure \<sigma>" using Suc.prems(3) by simp
  from available_step [OF Suc.prems(1,2) this g] obtain j where
    pk: "mali_scheduler_job_pp_physical_peek \<sigma> = Some j" and ph: "phys secure ?J j"
    and av: "available secure \<sigma>1 = available secure \<sigma> - 1" by blast
  have jq: "j \<in> set (pp_queued \<sigma>)" using peek_is_head [OF pk] by auto
  then have ok: "queued_pp_ok (?J j)" using Suc.prems(1) by (simp add: pp_queue_ok_def)
  note e = physical_get_eq [OF pk ok g] and sub = get_queued_mono [OF ok pk g]
  have "mode_of_started secure \<sigma>1"
    using Suc.prems(2) sub ph unfolding mode_of_started_def e(2)
    by (metis mode_started_in(1) not_own_started subsetD)
  moreover have "n \<le> available secure \<sigma>1" using av Suc.prems(3) by simp
  ultimately obtain l where l: "snd (physical_gets n \<sigma>1) = map Some l" "length l = n" "distinct l"
    and p: "\<And>k i. (k, i) \<in> set l \<Longrightarrow> k \<in> set (pp_queued \<sigma>1) \<and> phys secure (g_pp \<sigma>1) k \<and>
        pp_sub_jobs_started (g_pp \<sigma>1 k) \<le> i \<and> i < pp_sub_jobs_num (g_pp \<sigma>1 k)"
    using Suc.IH [OF physical_get_queue_ok [OF Suc.prems(1) pk g]] by blast
  let ?i = "pp_sub_jobs_started (?J j)"
  have lt: "?i < pp_sub_jobs_num (?J j)"
    using ok by (simp add: queued_pp_ok_def mali_pp_job_has_unstarted_sub_jobs_def)
  have "unat ?i < 4294967295"
    using lt unat_lt_u32 [of "pp_sub_jobs_num (?J j)"] by (simp add: word_less_nat_alt)
  then have up: "?i < ?i + 1" by (simp add: word_less_nat_alt unat_plus_u32)
  have st: "pp_sub_jobs_num (g_pp \<sigma>1 k) = pp_sub_jobs_num (?J k)"
    "pp_sub_jobs_started (g_pp \<sigma>1 k) = (if k = j then ?i + 1 else pp_sub_jobs_started (?J k))" for k
    by (simp_all add: e(2) started_in_def mali_pp_job_mark_sub_job_started_def)
  have new: "(j, ?i) \<notin> set l" using p [of j ?i] up st by auto
  have each: "k \<in> set (pp_queued \<sigma>) \<and> phys secure ?J k \<and> pp_sub_jobs_started (?J k) \<le> i \<and>
      i < pp_sub_jobs_num (?J k)" if "(k, i) \<in> set ((j, ?i) # l)" for k i
  proof (cases "(k, i) = (j, ?i)")
    case True
    then show ?thesis using jq ph lt by simp
  next
    case False
    then have "(k, i) \<in> set l" using that by auto
    note q = p [OF this, unfolded st]
    then have "k \<in> set (pp_queued \<sigma>)" using sub by blast
    moreover have "phys secure ?J k" using q by (simp add: e(2))
    moreover have "pp_sub_jobs_started (?J k) \<le> i" using q up by (auto split: if_splits)
    ultimately show ?thesis using q by blast
  qed
  have "snd (physical_gets (Suc n) \<sigma>) = map Some ((j, ?i) # l)" using l(1) g e(1) by (simp add: case_prod_beta)
  moreover have "length ((j, ?i) # l) = Suc n" "distinct ((j, ?i) # l)" using l(2,3) new by simp_all
  ultimately show ?case using each by blast
qed simp

end
