(* ===== verification/Sched_Steps.thy ===== *)
theory Sched_Steps
  imports Sched_Queues
begin

text \<open>
  The scheduler (common/mali_scheduler.c) as a transition system on its queues: initialisation,
  the abort of a session, and the invariant of the queues along every sequence of operations.
\<close>

section \<open>Initialisation\<close>

text \<open>The objects the scheduler owns; False is a NULL pointer. The three parameters of
  \<open>mali_scheduler_initialize\<close> tell which allocations succeed.\<close>

record scheduler_objects =
  scheduler_lock_obj :: bool
  wq_pp_job_delete :: bool
  pp_job_delete_lock :: bool

definition mali_scheduler_terminate :: "scheduler_objects \<Rightarrow> scheduler_objects" where
  "mali_scheduler_terminate r =
     (let r1 = (if pp_job_delete_lock r then r\<lparr>pp_job_delete_lock := False\<rparr> else r);
          r2 = (if wq_pp_job_delete r1 then r1\<lparr>wq_pp_job_delete := False\<rparr> else r1)
      in if scheduler_lock_obj r2 then r2\<lparr>scheduler_lock_obj := False\<rparr> else r2)"

definition init_queue :: "job_queue \<Rightarrow> job_queue" where
  "init_queue q = q\<lparr>normal_pri := [], high_pri := [], depth := 0, big_job_num := 0\<rparr>"

definition mali_scheduler_initialize ::
    "bool \<Rightarrow> bool \<Rightarrow> bool \<Rightarrow> gpu \<Rightarrow> scheduler_objects \<Rightarrow> gpu \<times> scheduler_objects \<times> osk_err" where
  "mali_scheduler_initialize lock_ok work_ok delete_lock_ok \<sigma> r =
     (let \<sigma>1 = \<sigma>\<lparr>job_id_autonumber := 0, cache_order_autonumber := 0,
                 job_queue_gp := init_queue (job_queue_gp \<sigma>),
                 job_queue_pp := init_queue (job_queue_pp \<sigma>)\<rparr>;
          r1 = r\<lparr>scheduler_lock_obj := lock_ok\<rparr>;
          r2 = (if \<not> scheduler_lock_obj r1 then mali_scheduler_terminate r1 else r1);
          r3 = r2\<lparr>wq_pp_job_delete := work_ok\<rparr>
      in if \<not> wq_pp_job_delete r3 then (\<sigma>1, mali_scheduler_terminate r3, ERR_FAULT)
         else let r4 = r3\<lparr>pp_job_delete_lock := delete_lock_ok\<rparr>
              in if \<not> pp_job_delete_lock r4 then (\<sigma>1, mali_scheduler_terminate r4, ERR_FAULT)
                 else (\<sigma>1, r4, ERR_OK))"

section \<open>Aborting a session\<close>

text \<open>The loops over the queues: each walks a copy of one list and moves the session's jobs to the
  front of a list of removed jobs.\<close>

fun abort_gp_jobs :: "session_id \<Rightarrow> jid list \<Rightarrow> jid list \<Rightarrow> gpu \<Rightarrow> gpu \<times> jid list" where
  "abort_gp_jobs s [] removed \<sigma> = (\<sigma>, removed)"
| "abort_gp_jobs s (j # js) removed \<sigma> =
     (if gp_session (g_gp \<sigma> j) = s
      then let \<sigma>1 = mali_gp_job_list_remove j \<sigma>;
               q = job_queue_gp \<sigma>1;
               \<sigma>2 = \<sigma>1\<lparr>job_queue_gp := q\<lparr>depth := depth q - 1,
                        big_job_num := big_job_num q - (if gp_big_job (g_gp \<sigma>1 j) \<noteq> 0 then 1 else 0)\<rparr>\<rparr>
           in abort_gp_jobs s js (j # removed) \<sigma>2
      else abort_gp_jobs s js removed \<sigma>)"

fun abort_pp_jobs :: "session_id \<Rightarrow> jid list \<Rightarrow> jid list \<Rightarrow> gpu \<Rightarrow> gpu \<times> jid list" where
  "abort_pp_jobs s [] removed \<sigma> = (\<sigma>, removed)"
| "abort_pp_jobs s (j # js) removed \<sigma> =
     (if pp_session (g_pp \<sigma> j) = s
      then let \<sigma>1 = mali_pp_job_fb_lookup_remove j \<sigma>;
               q = job_queue_pp \<sigma>1;
               \<sigma>2 = \<sigma>1\<lparr>job_queue_pp :=
                        q\<lparr>depth := depth q - mali_pp_job_unstarted_sub_job_count (g_pp \<sigma>1 j)\<rparr>\<rparr>;
               \<sigma>3 = upd_pp j mali_pp_job_mark_unstarted_failed \<sigma>2
           in if \<not> mali_pp_job_has_unstarted_sub_jobs (g_pp \<sigma>3 j)
              then if mali_pp_job_is_complete (g_pp \<sigma>3 j)
                   then abort_pp_jobs s js (j # removed) (mali_pp_job_list_remove j \<sigma>3)
                   else abort_pp_jobs s js removed (mali_pp_job_list_remove j \<sigma>3)
              else abort_pp_jobs s js removed \<sigma>3
      else abort_pp_jobs s js removed \<sigma>)"

definition abort_queues :: "session_id \<Rightarrow> gpu \<Rightarrow> gpu \<times> jid list \<times> jid list" where
  "abort_queues s \<sigma> =
     (let (\<sigma>1, gp1) = abort_gp_jobs s (normal_pri (job_queue_gp \<sigma>)) [] \<sigma>;
          (\<sigma>2, gp2) = abort_gp_jobs s (high_pri (job_queue_gp \<sigma>1)) gp1 \<sigma>1;
          (\<sigma>3, pp1) = abort_pp_jobs s (normal_pri (job_queue_pp \<sigma>2)) [] \<sigma>2;
          (\<sigma>4, pp2) = abort_pp_jobs s (high_pri (job_queue_pp \<sigma>3)) pp1 \<sigma>3
      in (\<sigma>4, gp2, pp2))"

fun release_gp_jobs :: "nat \<Rightarrow> jid list \<Rightarrow> gpu \<Rightarrow> gpu outcome" where
  "release_gp_jobs n [] \<sigma> = Done \<sigma>"
| "release_gp_jobs n (j # js) \<sigma> =
     bind_outcome (cascade n (TrackerRelease (GPJob j)) \<sigma>)
       (\<lambda>(\<sigma>1, _). bind_outcome (cascade n (SignalPPTracker j False) \<sigma>1)
          (\<lambda>(\<sigma>2, _). release_gp_jobs n js (mali_scheduler_complete_gp_job j False False True \<sigma>2)))"

fun release_pp_jobs :: "nat \<Rightarrow> jid list \<Rightarrow> gpu \<Rightarrow> gpu outcome" where
  "release_pp_jobs n [] \<sigma> = Done \<sigma>"
| "release_pp_jobs n (j # js) \<sigma> =
     bind_outcome (cascade n (TrackerRelease (PPJob j)) \<sigma>)
       (\<lambda>(\<sigma>1, _). release_pp_jobs n js (mali_scheduler_complete_pp_job j 0 False True \<sigma>1))"

definition mali_scheduler_abort_session :: "nat \<Rightarrow> session_id \<Rightarrow> gpu \<Rightarrow> gpu outcome" where
  "mali_scheduler_abort_session n s \<sigma> =
     (let (\<sigma>1, gp_jobs, pp_jobs) = abort_queues s \<sigma>
      in bind_outcome (release_gp_jobs n gp_jobs \<sigma>1) (release_pp_jobs n pp_jobs))"

section \<open>What the abort does to the queues\<close>

lemma queue_unlink_lists:
  "normal_pri (queue_unlink j q) = remove1 j (normal_pri q)"
  "high_pri (queue_unlink j q) = remove1 j (high_pri q)"
  "depth (queue_unlink j q) = depth q" "big_job_num (queue_unlink j q) = big_job_num q"
  by (simp_all add: queue_unlink_def)

text \<open>Removing a sublist from both lists of a queue.\<close>

abbreviation minus :: "jid list \<Rightarrow> jid set \<Rightarrow> jid list" where
  "minus xs A \<equiv> filter (\<lambda>j. j \<notin> A) xs"

lemma remove1_minus: "distinct xs \<Longrightarrow> remove1 j xs = minus xs {j}"
  by (simp add: distinct_remove1_removeAll removeAll_filter_not_eq eq_commute)

lemma length_remove1_in: "j \<in> set xs \<Longrightarrow> length xs = Suc (length (remove1 j xs))"
  by (induction xs) auto

lemma filter_remove1_in:
  "j \<in> set xs \<Longrightarrow> length (filter P xs) = length (filter P (remove1 j xs)) + (if P j then 1 else 0)"
  by (induction xs) auto

lemma sum_remove1_in:
  "j \<in> set xs \<Longrightarrow> sum_list (map f (remove1 j xs)) = sum_list (map f xs) - (f j :: u32)"
  by (induction xs) auto

lemma tl_remove1_subset: "set (tl (remove1 j xs)) \<subseteq> set (tl xs)"
proof (cases xs)
  case (Cons a list)
  then show ?thesis
    using set_remove1_subset [of j list] by (cases list) auto
qed simp

lemma in_set_tl: "x \<in> set (tl xs) \<Longrightarrow> x \<in> set xs"
  by (cases xs) auto

text \<open>Taking one GP job out of the queues.\<close>

lemma gp_unlink_ok:
  assumes ok: "gp_queue_ok \<sigma>" and j: "j \<in> set (gp_queued \<sigma>)" and g: "g_gp \<tau> = g_gp \<sigma>"
    and q: "job_queue_gp \<tau> = (queue_unlink j (job_queue_gp \<sigma>))\<lparr>depth := depth (job_queue_gp \<sigma>) - 1,
        big_job_num := big_job_num (job_queue_gp \<sigma>) - (if gp_big_job (g_gp \<sigma> j) \<noteq> 0 then 1 else 0)\<rparr>"
  shows "gp_queue_ok \<tau>" and "normal_pri (job_queue_gp \<tau>) = minus (normal_pri (job_queue_gp \<sigma>)) {j}"
    and "high_pri (job_queue_gp \<tau>) = minus (high_pri (job_queue_gp \<sigma>)) {j}"
proof -
  have d: "distinct (normal_pri (job_queue_gp \<sigma>))" "distinct (high_pri (job_queue_gp \<sigma>))"
    "set (normal_pri (job_queue_gp \<sigma>)) \<inter> set (high_pri (job_queue_gp \<sigma>)) = {}"
    using ok by (auto simp: gp_queue_ok_def)
  show l: "normal_pri (job_queue_gp \<tau>) = minus (normal_pri (job_queue_gp \<sigma>)) {j}"
    "high_pri (job_queue_gp \<tau>) = minus (high_pri (job_queue_gp \<sigma>)) {j}"
    using d by (simp_all add: q queue_unlink_lists remove1_minus)
  have e: "gp_queued \<tau> = remove1 j (gp_queued \<sigma>)" using d l by (simp add: remove1_minus)
  have "depth (job_queue_gp \<tau>) = of_nat (length (gp_queued \<tau>))"
    using ok unfolding gp_queue_ok_def length_remove1_in [OF j] e by (simp add: q)
  moreover have "big_job_num (job_queue_gp \<tau>) =
      of_nat (length (filter (\<lambda>j. gp_big_job (g_gp \<tau> j) \<noteq> 0) (gp_queued \<tau>)))"
    using ok unfolding gp_queue_ok_def filter_remove1_in [OF j] e g by (simp add: q)
  moreover have "distinct (gp_queued \<tau>)"
    using ok unfolding e by (simp add: gp_queue_ok_def)
  ultimately show "gp_queue_ok \<tau>" unfolding gp_queue_ok_def by blast
qed

text \<open>Taking one PP job out of the queues with all its sub jobs that were left.\<close>

lemma pp_unlink_ok:
  assumes ok: "pp_queue_ok \<sigma>" and j: "j \<in> set (pp_queued \<sigma>)" and g: "\<And>k. k \<noteq> j \<Longrightarrow> g_pp \<tau> k = g_pp \<sigma> k"
    and q: "job_queue_pp \<tau> = (queue_unlink j (job_queue_pp \<sigma>))\<lparr>depth :=
        depth (job_queue_pp \<sigma>) - mali_pp_job_unstarted_sub_job_count (g_pp \<sigma> j)\<rparr>"
  shows "pp_queue_ok \<tau>" and "normal_pri (job_queue_pp \<tau>) = minus (normal_pri (job_queue_pp \<sigma>)) {j}"
    and "high_pri (job_queue_pp \<tau>) = minus (high_pri (job_queue_pp \<sigma>)) {j}"
proof -
  have d: "distinct (normal_pri (job_queue_pp \<sigma>))" "distinct (high_pri (job_queue_pp \<sigma>))"
    "set (normal_pri (job_queue_pp \<sigma>)) \<inter> set (high_pri (job_queue_pp \<sigma>)) = {}"
    using ok by (auto simp: pp_queue_ok_def)
  show l: "normal_pri (job_queue_pp \<tau>) = minus (normal_pri (job_queue_pp \<sigma>)) {j}"
    "high_pri (job_queue_pp \<tau>) = minus (high_pri (job_queue_pp \<sigma>)) {j}"
    using d by (simp_all add: q queue_unlink_lists remove1_minus)
  have e: "pp_queued \<tau> = remove1 j (pp_queued \<sigma>)" using d l by (simp add: remove1_minus)
  have nj: "j \<notin> set (remove1 j (pp_queued \<sigma>))" using d by (auto simp: remove1_append)
  have "only_head_started (g_pp \<tau>) (remove1 j xs)" if "only_head_started (g_pp \<sigma>) xs" "distinct xs" for xs
  proof -
    have "g_pp \<tau> k = g_pp \<sigma> k" if "k \<in> set (tl (remove1 j xs))" for k
      using that g [of k] \<open>distinct xs\<close> in_set_tl [of k "remove1 j xs"]
      by (metis set_remove1_eq Diff_iff singletonI)
    with that(1) tl_remove1_subset [of j xs] show ?thesis by (auto simp: only_head_started_def)
  qed
  then have "only_head_started (g_pp \<tau>) (normal_pri (job_queue_pp \<tau>))"
    "only_head_started (g_pp \<tau>) (high_pri (job_queue_pp \<tau>))"
    using ok d unfolding q by (simp_all add: pp_queue_ok_def queue_unlink_lists)
  moreover have "distinct (pp_queued \<tau>)" using ok unfolding e by (simp add: pp_queue_ok_def)
  moreover have "queued_pp_ok (g_pp \<tau> k)" if "k \<in> set (pp_queued \<tau>)" for k
    using that nj g [of k] ok notin_set_remove1 unfolding e pp_queue_ok_def by metis
  moreover have "qsum (g_pp \<tau>) (pp_queued \<tau>) = qsum (g_pp \<sigma>) (remove1 j (pp_queued \<sigma>))"
    unfolding e using g nj by (intro arg_cong [where f = sum_list] map_cong refl) metis
  then have "depth (job_queue_pp \<tau>) = qsum (g_pp \<tau>) (pp_queued \<tau>)"
    using ok sum_remove1_in [OF j] by (simp add: q pp_queue_ok_def)
  ultimately show "pp_queue_ok \<tau>" unfolding pp_queue_ok_def by blast
qed

section \<open>The abort\<close>

lemma minus_minus [simp]: "minus (minus xs A) B = minus xs (A \<union> B)"
  by (induction xs) auto

text \<open>The jobs of a session.\<close>

definition gp_jobs_of :: "session_id \<Rightarrow> gpu \<Rightarrow> jid set" where
  "gp_jobs_of s \<sigma> = {j. gp_session (g_gp \<sigma> j) = s}"

definition pp_jobs_of :: "session_id \<Rightarrow> gpu \<Rightarrow> jid set" where
  "pp_jobs_of s \<sigma> = {j. pp_session (g_pp \<sigma> j) = s}"

lemma minus_other: "set xs \<inter> set ys = {} \<Longrightarrow> minus xs (set ys \<inter> S) = xs"
  by (auto simp: filter_id_conv)

lemma minus_self: "minus xs (set xs \<inter> S) = minus xs S"
  by (auto intro: filter_cong)

lemma abort_gp_jobs_effect:
  assumes "abort_gp_jobs s js removed \<sigma> = (\<sigma>', removed')" and "distinct js"
    and "set js \<subseteq> set (gp_queued \<sigma>)" and "gp_queue_ok \<sigma>"
  shows "g_gp \<sigma>' = g_gp \<sigma> \<and> g_pp \<sigma>' = g_pp \<sigma> \<and> job_queue_pp \<sigma>' = job_queue_pp \<sigma> \<and>
         normal_pri (job_queue_gp \<sigma>') = minus (normal_pri (job_queue_gp \<sigma>)) (set js \<inter> gp_jobs_of s \<sigma>) \<and>
         high_pri (job_queue_gp \<sigma>') = minus (high_pri (job_queue_gp \<sigma>)) (set js \<inter> gp_jobs_of s \<sigma>) \<and>
         gp_queue_ok \<sigma>' \<and> same_view \<sigma> \<sigma>' \<and> set removed' = set removed \<union> (set js \<inter> gp_jobs_of s \<sigma>)"
  using assms
proof (induction js arbitrary: removed \<sigma>)
  case (Cons j js)
  show ?case
  proof (cases "gp_session (g_gp \<sigma> j) = s")
    case False
    then have "set (j # js) \<inter> gp_jobs_of s \<sigma> = set js \<inter> gp_jobs_of s \<sigma>" by (auto simp: gp_jobs_of_def)
    with Cons.IH [of removed \<sigma>] False Cons.prems show ?thesis by simp
  next
    case True
    define q where "q = queue_unlink j (job_queue_gp \<sigma>)"
    define \<sigma>2 where "\<sigma>2 = \<sigma>\<lparr>job_queue_gp := q\<lparr>depth := depth q - 1,
        big_job_num := big_job_num q - (if gp_big_job (g_gp \<sigma> j) \<noteq> 0 then 1 else 0)\<rparr>\<rparr>"
    have s2: "g_gp \<sigma>2 = g_gp \<sigma>" "g_pp \<sigma>2 = g_pp \<sigma>" "job_queue_pp \<sigma>2 = job_queue_pp \<sigma>"
      "same_view \<sigma> \<sigma>2" by (simp_all add: \<sigma>2_def same_view)
    have S: "gp_jobs_of s \<sigma>2 = gp_jobs_of s \<sigma>" by (simp add: gp_jobs_of_def s2)
    have "j \<in> set (gp_queued \<sigma>)" using Cons.prems(3) by simp
    note u = gp_unlink_ok [OF Cons.prems(4) this s2(1)]
    have l: "gp_queue_ok \<sigma>2" "normal_pri (job_queue_gp \<sigma>2) = minus (normal_pri (job_queue_gp \<sigma>)) {j}"
      "high_pri (job_queue_gp \<sigma>2) = minus (high_pri (job_queue_gp \<sigma>)) {j}"
      by (intro u; simp add: \<sigma>2_def q_def queue_unlink_lists)+
    have A: "set (j # js) \<inter> gp_jobs_of s \<sigma> = {j} \<union> (set js \<inter> gp_jobs_of s \<sigma>)"
      using True by (auto simp: gp_jobs_of_def)
    have r: "abort_gp_jobs s js (j # removed) \<sigma>2 = (\<sigma>', removed')"
      using Cons.prems(1) True
      by (simp add: mali_gp_job_list_remove_def \<sigma>2_def q_def Let_def queue_unlink_lists)
    have sub: "set js \<subseteq> set (gp_queued \<sigma>2)" using Cons.prems(2,3) l(2,3) by auto
    have "distinct js" using Cons.prems(2) by simp
    note ih = Cons.IH [OF r this sub l(1), unfolded S l(2,3) minus_minus s2(1-3)]
    have "same_view \<sigma> \<sigma>'" using ih same_view_trans [OF s2(4)] by blast
    then show ?thesis using ih unfolding A by simp
  qed
qed auto

text \<open>The fields of a PP job that giving up on its sub jobs leaves alone.\<close>

lemma mark_failed_fields [simp]:
  "pp_session (mali_pp_job_mark_unstarted_failed job) = pp_session job"
  by (simp add: mark_unstarted_failed_eq Let_def)

lemma mark_failed_done:
  assumes "queued_pp_ok job"
  shows "\<not> mali_pp_job_has_unstarted_sub_jobs (mali_pp_job_mark_unstarted_failed job)"
    and "mali_pp_job_is_complete (mali_pp_job_mark_unstarted_failed job) \<longleftrightarrow>
           pp_sub_jobs_completed job = pp_sub_jobs_started job"
proof -
  have ok: "pp_job_ok job" using assms by (simp add: queued_pp_ok_def)
  note u = mark_failed_unats [OF ok refl refl]
  show "\<not> mali_pp_job_has_unstarted_sub_jobs (mali_pp_job_mark_unstarted_failed job)"
    by (simp add: mali_pp_job_has_unstarted_sub_jobs_def u(1,2))
  show "mali_pp_job_is_complete (mali_pp_job_mark_unstarted_failed job) \<longleftrightarrow>
           pp_sub_jobs_completed job = pp_sub_jobs_started job"
    using ok u(1,3) by (auto simp: mali_pp_job_is_complete_def word_unat_eq_iff pp_job_ok_unat)
qed

definition idle_pp :: "gpu \<Rightarrow> jid \<Rightarrow> bool" where
  "idle_pp \<sigma> j \<longleftrightarrow> pp_sub_jobs_completed (g_pp \<sigma> j) = pp_sub_jobs_started (g_pp \<sigma> j)"

lemma abort_pp_jobs_effect:
  assumes "abort_pp_jobs s js removed \<sigma> = (\<sigma>', removed')" and "distinct js"
    and "set js \<subseteq> set (pp_queued \<sigma>)" and "pp_queue_ok \<sigma>"
  shows "g_gp \<sigma>' = g_gp \<sigma> \<and> job_queue_gp \<sigma>' = job_queue_gp \<sigma> \<and>
         (\<forall>k. g_pp \<sigma>' k = (if k \<in> set js \<inter> pp_jobs_of s \<sigma>
            then mali_pp_job_mark_unstarted_failed (g_pp \<sigma> k) else g_pp \<sigma> k)) \<and>
         normal_pri (job_queue_pp \<sigma>') = minus (normal_pri (job_queue_pp \<sigma>)) (set js \<inter> pp_jobs_of s \<sigma>) \<and>
         high_pri (job_queue_pp \<sigma>') = minus (high_pri (job_queue_pp \<sigma>)) (set js \<inter> pp_jobs_of s \<sigma>) \<and>
         pp_queue_ok \<sigma>' \<and> same_view \<sigma> \<sigma>' \<and>
         set removed' = set removed \<union> {j \<in> set js \<inter> pp_jobs_of s \<sigma>. idle_pp \<sigma> j}"
  using assms
proof (induction js arbitrary: removed \<sigma>)
  case (Cons j js)
  show ?case
  proof (cases "pp_session (g_pp \<sigma> j) = s")
    case False
    then have "set (j # js) \<inter> pp_jobs_of s \<sigma> = set js \<inter> pp_jobs_of s \<sigma>" by (auto simp: pp_jobs_of_def)
    with Cons.IH [of removed \<sigma>] False Cons.prems show ?thesis by simp
  next
    case True
    define \<sigma>3 where "\<sigma>3 = upd_pp j mali_pp_job_mark_unstarted_failed
        ((mali_pp_job_fb_lookup_remove j \<sigma>)\<lparr>job_queue_pp := (job_queue_pp \<sigma>)\<lparr>depth :=
           depth (job_queue_pp \<sigma>) - mali_pp_job_unstarted_sub_job_count (g_pp \<sigma> j)\<rparr>\<rparr>)"
    define \<sigma>4 where "\<sigma>4 = mali_pp_job_list_remove j \<sigma>3"
    have f: "g_pp (mali_pp_job_fb_lookup_remove j \<sigma>) = g_pp \<sigma>"
      "job_queue_pp (mali_pp_job_fb_lookup_remove j \<sigma>) = job_queue_pp \<sigma>"
      by (simp_all add: mali_pp_job_fb_lookup_remove_def upd_session_def)
    have v: "same_view \<sigma> \<sigma>4"
      by (simp add: \<sigma>4_def \<sigma>3_def mali_pp_job_list_remove_def mali_pp_job_fb_lookup_remove_def view_defs)
    have s4: "g_gp \<sigma>4 = g_gp \<sigma>" "job_queue_gp \<sigma>4 = job_queue_gp \<sigma>"
      "g_pp \<sigma>4 k = (if k = j then mali_pp_job_mark_unstarted_failed (g_pp \<sigma> j) else g_pp \<sigma> k)" for k
      by (simp_all add: \<sigma>4_def \<sigma>3_def mali_pp_job_list_remove_def mali_pp_job_fb_lookup_remove_def
          upd_session_def upd_pp_def)
    have S: "pp_jobs_of s \<sigma>4 = pp_jobs_of s \<sigma>" by (auto simp: pp_jobs_of_def s4(3))
    have jq: "j \<in> set (pp_queued \<sigma>)" using Cons.prems(3) by simp
    then have ok: "queued_pp_ok (g_pp \<sigma> j)" using Cons.prems(4) by (simp add: pp_queue_ok_def)
    have "job_queue_pp \<sigma>4 = (queue_unlink j (job_queue_pp \<sigma>))\<lparr>depth :=
        depth (job_queue_pp \<sigma>) - mali_pp_job_unstarted_sub_job_count (g_pp \<sigma> j)\<rparr>"
      by (simp add: \<sigma>4_def \<sigma>3_def mali_pp_job_list_remove_def upd_pp_def queue_unlink_def)
    moreover have "\<And>k. k \<noteq> j \<Longrightarrow> g_pp \<sigma>4 k = g_pp \<sigma> k" by (simp add: s4(3))
    ultimately have l: "pp_queue_ok \<sigma>4"
      "normal_pri (job_queue_pp \<sigma>4) = minus (normal_pri (job_queue_pp \<sigma>)) {j}"
      "high_pri (job_queue_pp \<sigma>4) = minus (high_pri (job_queue_pp \<sigma>)) {j}"
      using pp_unlink_ok [OF Cons.prems(4) jq, of \<sigma>4] by blast+
    let ?B = "set js \<inter> pp_jobs_of s \<sigma>"
    have A: "set (j # js) \<inter> pp_jobs_of s \<sigma> = {j} \<union> ?B"
      using True by (auto simp: pp_jobs_of_def)
    have j3: "g_pp \<sigma>3 j = mali_pp_job_mark_unstarted_failed (g_pp \<sigma> j)"
      by (simp add: \<sigma>3_def upd_pp_def f)
    have r: "abort_pp_jobs s js (if idle_pp \<sigma> j then j # removed else removed) \<sigma>4 = (\<sigma>', removed')"
      using Cons.prems(1) True mark_failed_done [OF ok]
      by (simp add: Let_def f j3 idle_pp_def \<sigma>4_def flip: \<sigma>3_def split: if_splits)
    have sub: "set js \<subseteq> set (pp_queued \<sigma>4)" using Cons.prems(2,3) l(2,3) by auto
    have "distinct js" and nj: "j \<notin> ?B" using Cons.prems(2) by simp_all
    note ih = Cons.IH [OF r this(1) sub l(1), unfolded S l(2,3) minus_minus s4(1,2)]
    have same: "idle_pp \<sigma>4 k = idle_pp \<sigma> k" if "k \<in> ?B" for k
      using that nj by (auto simp: idle_pp_def s4(3))
    have "set removed' = set removed \<union> (if idle_pp \<sigma> j then {j} else {}) \<union> {k \<in> ?B. idle_pp \<sigma>4 k}"
      using ih by (auto split: if_splits)
    also have "{k \<in> ?B. idle_pp \<sigma>4 k} = {k \<in> ?B. idle_pp \<sigma> k}" using same by blast
    also have "set removed \<union> (if idle_pp \<sigma> j then {j} else {}) \<union> {k \<in> ?B. idle_pp \<sigma> k} =
        set removed \<union> {k \<in> set (j # js) \<inter> pp_jobs_of s \<sigma>. idle_pp \<sigma> k}"
      unfolding A by auto
    finally have R: "set removed' = set removed \<union> {k \<in> set (j # js) \<inter> pp_jobs_of s \<sigma>. idle_pp \<sigma> k}" .
    have J: "g_pp \<sigma>' k = (if k \<in> set (j # js) \<inter> pp_jobs_of s \<sigma>
        then mali_pp_job_mark_unstarted_failed (g_pp \<sigma> k) else g_pp \<sigma> k)" for k
    proof -
      have "g_pp \<sigma>' k = (if k \<in> ?B then mali_pp_job_mark_unstarted_failed (g_pp \<sigma>4 k) else g_pp \<sigma>4 k)"
        using ih by blast
      moreover have "g_pp \<sigma>4 j = mali_pp_job_mark_unstarted_failed (g_pp \<sigma> j)"
        "k \<noteq> j \<Longrightarrow> g_pp \<sigma>4 k = g_pp \<sigma> k" by (simp_all add: s4(3))
      ultimately show ?thesis using nj unfolding A by (cases "k = j") auto
    qed
    have "same_view \<sigma> \<sigma>'" using ih same_view_trans [OF v] by blast
    then show ?thesis using ih R J unfolding A by blast
  qed
qed auto

lemma abort_queues_effect:
  assumes e: "abort_queues s \<sigma> = (\<sigma>', gp_jobs, pp_jobs)" and g: "gp_queue_ok \<sigma>" and p: "pp_queue_ok \<sigma>"
  shows "gp_queue_ok \<sigma>'" "pp_queue_ok \<sigma>'" "same_view \<sigma> \<sigma>'" "g_gp \<sigma>' = g_gp \<sigma>"
    "normal_pri (job_queue_gp \<sigma>') = minus (normal_pri (job_queue_gp \<sigma>)) (gp_jobs_of s \<sigma>)"
    "high_pri (job_queue_gp \<sigma>') = minus (high_pri (job_queue_gp \<sigma>)) (gp_jobs_of s \<sigma>)"
    "normal_pri (job_queue_pp \<sigma>') = minus (normal_pri (job_queue_pp \<sigma>)) (pp_jobs_of s \<sigma>)"
    "high_pri (job_queue_pp \<sigma>') = minus (high_pri (job_queue_pp \<sigma>)) (pp_jobs_of s \<sigma>)"
    "set gp_jobs = set (gp_queued \<sigma>) \<inter> gp_jobs_of s \<sigma>"
    "set pp_jobs = {j \<in> set (pp_queued \<sigma>) \<inter> pp_jobs_of s \<sigma>. idle_pp \<sigma> j}"
    "\<And>k. g_pp \<sigma>' k = (if k \<in> set (pp_queued \<sigma>) \<inter> pp_jobs_of s \<sigma>
            then mali_pp_job_mark_unstarted_failed (g_pp \<sigma> k) else g_pp \<sigma> k)"
proof -
  let ?gn = "normal_pri (job_queue_gp \<sigma>)" and ?pn = "normal_pri (job_queue_pp \<sigma>)"
  let ?gh = "high_pri (job_queue_gp \<sigma>)" and ?ph = "high_pri (job_queue_pp \<sigma>)"
  obtain \<sigma>1 gp1 where e1: "abort_gp_jobs s ?gn [] \<sigma> = (\<sigma>1, gp1)" by fastforce
  obtain \<sigma>2 gp2 where e2: "abort_gp_jobs s (high_pri (job_queue_gp \<sigma>1)) gp1 \<sigma>1 = (\<sigma>2, gp2)" by fastforce
  obtain \<sigma>3 pp1 where e3: "abort_pp_jobs s (normal_pri (job_queue_pp \<sigma>2)) [] \<sigma>2 = (\<sigma>3, pp1)" by fastforce
  obtain \<sigma>4 pp2 where e4: "abort_pp_jobs s (high_pri (job_queue_pp \<sigma>3)) pp1 \<sigma>3 = (\<sigma>4, pp2)" by fastforce
  have out: "\<sigma>' = \<sigma>4" "gp_jobs = gp2" "pp_jobs = pp2" using e e1 e2 e3 e4 by (simp_all add: abort_queues_def)
  have dg: "distinct ?gn" "distinct ?gh" "set ?gn \<inter> set ?gh = {}" "set ?gh \<inter> set ?gn = {}"
    using g by (auto simp: gp_queue_ok_def)
  have dp: "distinct ?pn" "distinct ?ph" "set ?pn \<inter> set ?ph = {}" "set ?ph \<inter> set ?pn = {}"
    using p by (auto simp: pp_queue_ok_def)
  have "set ?gn \<subseteq> set (gp_queued \<sigma>)" by simp
  note a1 = abort_gp_jobs_effect [OF e1 dg(1) this g, unfolded minus_self minus_other [OF dg(4)]]
  have h1: "high_pri (job_queue_gp \<sigma>1) = ?gh" "g_gp \<sigma>1 = g_gp \<sigma>" "gp_queue_ok \<sigma>1" using a1 by blast+
  have S1: "gp_jobs_of s \<sigma>1 = gp_jobs_of s \<sigma>" by (simp add: gp_jobs_of_def h1)
  have "distinct (high_pri (job_queue_gp \<sigma>1))" "set (high_pri (job_queue_gp \<sigma>1)) \<subseteq> set (gp_queued \<sigma>1)"
    using dg(2) h1 by simp_all
  note a2 = abort_gp_jobs_effect [OF e2 this h1(3), unfolded h1(1,2) S1 minus_self]
  have h2: "job_queue_pp \<sigma>2 = job_queue_pp \<sigma>" "g_pp \<sigma>2 = g_pp \<sigma>" "g_gp \<sigma>2 = g_gp \<sigma>" "gp_queue_ok \<sigma>2"
    using a1 a2 by simp_all
  have "minus (minus ?gn (gp_jobs_of s \<sigma>)) (set ?gh \<inter> gp_jobs_of s \<sigma>) = minus ?gn (gp_jobs_of s \<sigma>)"
    unfolding minus_minus by (simp add: Un_absorb2 Int_commute)
  then have l2: "normal_pri (job_queue_gp \<sigma>2) = minus ?gn (gp_jobs_of s \<sigma>)"
    "high_pri (job_queue_gp \<sigma>2) = minus ?gh (gp_jobs_of s \<sigma>)"
    using a1 a2 by simp_all
  have p2: "pp_queue_ok \<sigma>2" using p by (simp add: pp_queue_ok_def h2)
  have S2: "pp_jobs_of s \<sigma>2 = pp_jobs_of s \<sigma>" "idle_pp \<sigma>2 = idle_pp \<sigma>"
    by (simp_all add: pp_jobs_of_def idle_pp_def h2 fun_eq_iff)
  have "distinct (normal_pri (job_queue_pp \<sigma>2))" "set (normal_pri (job_queue_pp \<sigma>2)) \<subseteq> set (pp_queued \<sigma>2)"
    using dp(1) h2 by simp_all
  note a3 = abort_pp_jobs_effect [OF e3 this p2, unfolded h2(1-3) S2 minus_self minus_other [OF dp(4)]]
  have h3: "high_pri (job_queue_pp \<sigma>3) = ?ph" "pp_queue_ok \<sigma>3" using a3 by blast+
  have J3: "g_pp \<sigma>3 k = (if k \<in> set ?pn \<inter> pp_jobs_of s \<sigma>
      then mali_pp_job_mark_unstarted_failed (g_pp \<sigma> k) else g_pp \<sigma> k)" for k using a3 by blast
  have S3: "pp_jobs_of s \<sigma>3 = pp_jobs_of s \<sigma>" by (auto simp: pp_jobs_of_def J3)
  have "distinct (high_pri (job_queue_pp \<sigma>3))" "set (high_pri (job_queue_pp \<sigma>3)) \<subseteq> set (pp_queued \<sigma>3)"
    using dp(2) h3 by simp_all
  note a4 = abort_pp_jobs_effect [OF e4 this h3(2), unfolded h3(1) S3 minus_self]
  have "minus (minus ?pn (pp_jobs_of s \<sigma>)) (set ?ph \<inter> pp_jobs_of s \<sigma>) = minus ?pn (pp_jobs_of s \<sigma>)"
    unfolding minus_minus by (simp add: Un_absorb2 Int_commute)
  then show "normal_pri (job_queue_pp \<sigma>') = minus ?pn (pp_jobs_of s \<sigma>)"
    "high_pri (job_queue_pp \<sigma>') = minus ?ph (pp_jobs_of s \<sigma>)"
    using a3 a4 by (simp_all add: out)
  show "normal_pri (job_queue_gp \<sigma>') = minus ?gn (gp_jobs_of s \<sigma>)"
    "high_pri (job_queue_gp \<sigma>') = minus ?gh (gp_jobs_of s \<sigma>)" "g_gp \<sigma>' = g_gp \<sigma>"
    using l2 a3 a4 h2(3) by (simp_all add: out)
  have "gp_queue_ok \<sigma>4 = gp_queue_ok \<sigma>2" using a3 a4 h2(3) by (simp add: gp_queue_ok_def)
  then show "gp_queue_ok \<sigma>'" "pp_queue_ok \<sigma>'" using h2(4) a4 by (simp_all add: out)
  show "same_view \<sigma> \<sigma>'" unfolding out using a1 a2 a3 a4 by (meson same_view_trans)
  show "set gp_jobs = set (gp_queued \<sigma>) \<inter> gp_jobs_of s \<sigma>" using a1 a2 by (auto simp: out)
  have i3: "idle_pp \<sigma>3 k = idle_pp \<sigma> k" if "k \<in> set ?ph" for k
    using that dp(3) by (auto simp: idle_pp_def J3)
  have "set pp_jobs = {k \<in> set ?pn \<inter> pp_jobs_of s \<sigma>. idle_pp \<sigma> k} \<union> {k \<in> set ?ph \<inter> pp_jobs_of s \<sigma>. idle_pp \<sigma>3 k}"
    using a3 a4 by (simp add: out)
  then show "set pp_jobs = {j \<in> set (pp_queued \<sigma>) \<inter> pp_jobs_of s \<sigma>. idle_pp \<sigma> j}" using i3 by auto
  show "g_pp \<sigma>' k = (if k \<in> set (pp_queued \<sigma>) \<inter> pp_jobs_of s \<sigma>
            then mali_pp_job_mark_unstarted_failed (g_pp \<sigma> k) else g_pp \<sigma> k)" for k
  proof -
    have "g_pp \<sigma>' k = (if k \<in> set ?ph \<inter> pp_jobs_of s \<sigma>
        then mali_pp_job_mark_unstarted_failed (g_pp \<sigma>3 k) else g_pp \<sigma>3 k)" using a4 by (simp add: out)
    then show ?thesis using dp(3) by (cases "k \<in> set ?ph") (auto simp: J3)
  qed
qed

section \<open>Queueing\<close>

lemma filter_add_after_last_length:
  "length (filter P (add_after_last Q x ys)) = length (filter P ys) + (if P x then 1 else 0)"
  by (induction ys) auto

lemma sum_add_after_last: "sum_list (map f (add_after_last Q x ys)) = (f x :: u32) + sum_list (map f ys)"
  by (induction ys) (auto simp: algebra_simps)

lemma rev_sums:
  "length (filter P (rev xs)) = length (filter P xs)" "sum_list (map f (rev xs)) = (sum_list (map f xs) :: u32)"
  by (simp_all flip: rev_filter rev_map)

text \<open>The new job goes behind a job in progress at the head.\<close>

lemma add_after_last_snoc:
  "add_after_last P x (ys @ [h]) =
     (if \<exists>y \<in> set (ys @ [h]). P y then add_after_last P x ys @ [h] else ys @ [h, x])"
  by (induction ys) auto

lemma only_head_started_add:
  assumes "only_head_started J js" and "\<not> mali_pp_job_has_started_sub_jobs (J j)"
  shows "only_head_started J (mali_pp_job_list_add J j js)"
proof (cases js)
  case (Cons h r)
  have s: "mali_pp_job_has_started_sub_jobs (J k) \<longrightarrow> pp_job_goes_after J j k" for k
    by (simp add: mali_pp_job_has_started_sub_jobs_def pp_job_goes_after_def)
  have r: "\<forall>k \<in> set r. \<not> mali_pp_job_has_started_sub_jobs (J k)"
    using assms(1) Cons by (simp add: only_head_started_def)
  show ?thesis
    using r s assms(2) Cons
    by (auto simp: only_head_started_def mali_pp_job_list_add_def add_after_last_snoc)
qed (simp add: only_head_started_def mali_pp_job_list_add_def)

lemma queue_gp_eq:
  assumes "mali_scheduler_queue_gp_job j \<sigma> = (\<sigma>', b)"
    and "h = use_high_priority (g_sessions \<sigma> (gp_session (g_gp \<sigma> j)))"
  shows "g_pp \<sigma>' = g_pp \<sigma>" "job_queue_pp \<sigma>' = job_queue_pp \<sigma>" "gp_big_job (g_gp \<sigma>' k) = gp_big_job (g_gp \<sigma> k)"
    and "\<not> b \<Longrightarrow> job_queue_gp \<sigma>' = job_queue_gp \<sigma>"
    and "b \<Longrightarrow> \<exists>J. job_queue_gp \<sigma>' = (job_queue_gp \<sigma>)\<lparr>depth := depth (job_queue_gp \<sigma>) + 1,
      big_job_num := big_job_num (job_queue_gp \<sigma>) + (if gp_big_job (g_gp \<sigma> j) \<noteq> 0 then 1 else 0),
      high_pri := (if h then mali_gp_job_list_add J j (high_pri (job_queue_gp \<sigma>))
                   else high_pri (job_queue_gp \<sigma>)),
      normal_pri := (if h then normal_pri (job_queue_gp \<sigma>)
                     else mali_gp_job_list_add J j (normal_pri (job_queue_gp \<sigma>)))\<rparr>"
  using assms
  by (auto simp: mali_scheduler_queue_gp_job_def mali_scheduler_get_new_cache_order_def Let_def
      upd_gp_def log_when_def log_event_def split: if_splits)

lemma queue_gp_ok:
  assumes ok: "gp_queue_ok \<sigma>" and j: "j \<notin> set (gp_queued \<sigma>)"
    and q: "mali_scheduler_queue_gp_job j \<sigma> = (\<sigma>', b)"
  shows "gp_queue_ok \<sigma>'"
proof (cases b)
  case False
  then show ?thesis using ok queue_gp_eq(3,4) [OF q refl] by (simp add: gp_queue_ok_def)
next
  case True
  let ?h = "use_high_priority (g_sessions \<sigma> (gp_session (g_gp \<sigma> j)))"
  from queue_gp_eq(5) [OF q refl True] obtain J where e: "job_queue_gp \<sigma>' =
      (job_queue_gp \<sigma>)\<lparr>depth := depth (job_queue_gp \<sigma>) + 1,
      big_job_num := big_job_num (job_queue_gp \<sigma>) + (if gp_big_job (g_gp \<sigma> j) \<noteq> 0 then 1 else 0),
      high_pri := (if ?h then mali_gp_job_list_add J j (high_pri (job_queue_gp \<sigma>))
                   else high_pri (job_queue_gp \<sigma>)),
      normal_pri := (if ?h then normal_pri (job_queue_gp \<sigma>)
                     else mali_gp_job_list_add J j (normal_pri (job_queue_gp \<sigma>)))\<rparr>" by blast
  have len: "length (filter P (mali_gp_job_list_add J j xs)) = length (filter P xs) + (if P j then 1 else 0)" for P xs
    by (simp add: mali_gp_job_list_add_def filter_add_after_last_length rev_sums)
  have n: "length (filter P (gp_queued \<sigma>')) = length (filter P (gp_queued \<sigma>)) + (if P j then 1 else 0)" for P
    by (simp add: e len)
  have d: "distinct (gp_queued \<sigma>')"
    using ok j by (auto simp: gp_queue_ok_def e distinct_mali_gp_job_list_add)
  have "depth (job_queue_gp \<sigma>') = of_nat (length (gp_queued \<sigma>'))"
    using ok n [of "\<lambda>_. True"] by (simp add: gp_queue_ok_def e)
  moreover have "big_job_num (job_queue_gp \<sigma>') =
      of_nat (length (filter (\<lambda>j. gp_big_job (g_gp \<sigma>' j) \<noteq> 0) (gp_queued \<sigma>')))"
    using ok unfolding n queue_gp_eq(3) [OF q refl] by (simp add: gp_queue_ok_def e)
  ultimately show ?thesis using d unfolding gp_queue_ok_def by blast
qed

lemma queue_pp_eq:
  assumes "mali_scheduler_queue_pp_job j \<sigma> = (\<sigma>', b)"
    and "h = use_high_priority (g_sessions \<sigma> (pp_session (g_pp \<sigma> j)))"
  shows "g_gp \<sigma>' = g_gp \<sigma>" "job_queue_gp \<sigma>' = job_queue_gp \<sigma>"
    and "b \<Longrightarrow> \<exists>n. g_pp \<sigma>' = (g_pp \<sigma>)(j := (g_pp \<sigma> j)\<lparr>pp_cache_order := n\<rparr>)"
    and "\<not> b \<Longrightarrow> job_queue_pp \<sigma>' = job_queue_pp \<sigma> \<and> g_pp \<sigma>' = g_pp \<sigma>"
    and "b \<Longrightarrow> job_queue_pp \<sigma>' = (job_queue_pp \<sigma>)\<lparr>
      depth := depth (job_queue_pp \<sigma>) + pp_sub_jobs_num (g_pp \<sigma> j),
      high_pri := (if h then mali_pp_job_list_add (g_pp \<sigma>') j (high_pri (job_queue_pp \<sigma>))
                   else high_pri (job_queue_pp \<sigma>)),
      normal_pri := (if h then normal_pri (job_queue_pp \<sigma>)
                     else mali_pp_job_list_add (g_pp \<sigma>') j (normal_pri (job_queue_pp \<sigma>)))\<rparr>"
  using assms
  by (auto simp: mali_scheduler_queue_pp_job_def mali_scheduler_get_new_cache_order_def Let_def
      upd_pp_def log_when_def log_event_def mali_pp_job_get_sub_job_count_def split: if_splits)

lemma cache_order_irrelevant [simp]:
  "queued_pp_ok (job\<lparr>pp_cache_order := n\<rparr>) = queued_pp_ok job"
  "mali_pp_job_has_started_sub_jobs (job\<lparr>pp_cache_order := n\<rparr>) = mali_pp_job_has_started_sub_jobs job"
  "mali_pp_job_unstarted_sub_job_count (job\<lparr>pp_cache_order := n\<rparr>) = mali_pp_job_unstarted_sub_job_count job"
  by (simp_all add: queued_pp_ok_def pp_job_ok_def mali_pp_job_has_unstarted_sub_jobs_def
      mali_pp_job_is_virtual_def mali_pp_job_has_started_sub_jobs_def mali_pp_job_unstarted_sub_job_count_def)

lemma queue_pp_ok:
  assumes ok: "pp_queue_ok \<sigma>" and j: "j \<notin> set (pp_queued \<sigma>)"
    and f: "queued_pp_ok (g_pp \<sigma> j)" "\<not> mali_pp_job_has_started_sub_jobs (g_pp \<sigma> j)"
    and q: "mali_scheduler_queue_pp_job j \<sigma> = (\<sigma>', b)"
  shows "pp_queue_ok \<sigma>'"
proof (cases b)
  case False
  then show ?thesis using ok queue_pp_eq(4) [OF q refl] by (simp add: pp_queue_ok_def)
next
  case True
  let ?h = "use_high_priority (g_sessions \<sigma> (pp_session (g_pp \<sigma> j)))"
  let ?J = "g_pp \<sigma>'"
  note e = queue_pp_eq(5) [OF q refl True]
  obtain n where "?J = (g_pp \<sigma>)(j := (g_pp \<sigma> j)\<lparr>pp_cache_order := n\<rparr>)" using queue_pp_eq(3) [OF q refl True] by blast
  then have J: "queued_pp_ok (?J k) = queued_pp_ok (g_pp \<sigma> k)"
    "mali_pp_job_has_started_sub_jobs (?J k) = mali_pp_job_has_started_sub_jobs (g_pp \<sigma> k)"
    "mali_pp_job_unstarted_sub_job_count (?J k) = mali_pp_job_unstarted_sub_job_count (g_pp \<sigma> k)" for k
    by simp_all
  have st: "only_head_started ?J js = only_head_started (g_pp \<sigma>) js" for js
    by (simp add: only_head_started_def J)
  have c: "mali_pp_job_unstarted_sub_job_count (g_pp \<sigma> j) = pp_sub_jobs_num (g_pp \<sigma> j)"
    using f(2) by (simp add: mali_pp_job_unstarted_sub_job_count_def mali_pp_job_has_started_sub_jobs_def word_gt_0)
  have "qsum (g_pp \<sigma>) (mali_pp_job_list_add ?J j xs) = pp_sub_jobs_num (g_pp \<sigma> j) + qsum (g_pp \<sigma>) xs" for xs
    by (simp add: mali_pp_job_list_add_def rev_sums sum_add_after_last c)
  then have "depth (job_queue_pp \<sigma>') = qsum ?J (pp_queued \<sigma>')"
    using ok by (simp add: pp_queue_ok_def e J)
  moreover have "distinct (pp_queued \<sigma>')"
    using ok j by (auto simp: pp_queue_ok_def e distinct_mali_pp_job_list_add)
  moreover have "queued_pp_ok (?J k)" if "k \<in> set (pp_queued \<sigma>')" for k
    using that ok f(1) by (auto simp: pp_queue_ok_def e J split: if_splits)
  moreover have "only_head_started ?J (normal_pri (job_queue_pp \<sigma>'))"
    "only_head_started ?J (high_pri (job_queue_pp \<sigma>'))"
    using ok f(2) only_head_started_add [of ?J _ j] by (simp_all add: pp_queue_ok_def e st J)
  ultimately show ?thesis unfolding pp_queue_ok_def by blast
qed

section \<open>Taking jobs\<close>

lemma gp_get_ok:
  assumes ok: "gp_queue_ok \<sigma>" and g: "mali_scheduler_job_gp_get \<sigma> = (\<sigma>', r)"
  shows "gp_queue_ok \<sigma>'" "g_pp \<sigma>' = g_pp \<sigma>" "job_queue_pp \<sigma>' = job_queue_pp \<sigma>"
proof -
  let ?q = "if high_pri (job_queue_gp \<sigma>) \<noteq> [] then high_pri (job_queue_gp \<sigma>) else normal_pri (job_queue_gp \<sigma>)"
  show "gp_queue_ok \<sigma>'"
  proof (cases ?q)
    case Nil
    then show ?thesis using ok g by (simp add: mali_scheduler_job_gp_get_def Let_def)
  next
    case (Cons j js)
    then have j: "j \<in> set (gp_queued \<sigma>)" by (auto split: if_splits)
    have "g_gp \<sigma>' = g_gp \<sigma>"
      using g Cons by (auto simp: mali_scheduler_job_gp_get_def Let_def mali_gp_job_list_remove_def
          log_event_def split: if_splits)
    moreover have "job_queue_gp \<sigma>' = (queue_unlink j (job_queue_gp \<sigma>))\<lparr>depth := depth (job_queue_gp \<sigma>) - 1,
        big_job_num := big_job_num (job_queue_gp \<sigma>) - (if gp_big_job (g_gp \<sigma> j) \<noteq> 0 then 1 else 0)\<rparr>"
      using g Cons by (auto simp: mali_scheduler_job_gp_get_def Let_def mali_gp_job_list_remove_def
          log_event_def dec_depth_def queue_unlink_def split: if_splits)
    ultimately show ?thesis by (rule gp_unlink_ok(1) [OF ok j])
  qed
  show "g_pp \<sigma>' = g_pp \<sigma>" "job_queue_pp \<sigma>' = job_queue_pp \<sigma>"
    using g by (auto simp: mali_scheduler_job_gp_get_def Let_def mali_gp_job_list_remove_def
        log_event_def split: list.splits if_splits)
qed

lemma virtual_get_ok:
  assumes ok: "pp_queue_ok \<sigma>" and p: "mali_scheduler_job_pp_virtual_peek \<sigma> = Some j"
    and g: "mali_scheduler_job_pp_virtual_get \<sigma> = (\<sigma>', r)"
  shows "pp_queue_ok \<sigma>'" "g_gp \<sigma>' = g_gp \<sigma>" "job_queue_gp \<sigma>' = job_queue_gp \<sigma>"
proof -
  have e: "g_pp \<sigma>' = (g_pp \<sigma>)(j := mali_pp_job_mark_sub_job_started 0 (g_pp \<sigma> j))"
    "job_queue_pp \<sigma>' = (queue_unlink j (job_queue_pp \<sigma>))\<lparr>depth := depth (job_queue_pp \<sigma>) - 1\<rparr>"
    "g_gp \<sigma>' = g_gp \<sigma>" "job_queue_gp \<sigma>' = job_queue_gp \<sigma>"
    using p g by (auto simp: mali_scheduler_job_pp_virtual_get_def Let_def mali_pp_job_fb_lookup_remove_def
        upd_session_def upd_pp_def mali_pp_job_list_remove_def dec_depth_def queue_unlink_def)
  show "g_gp \<sigma>' = g_gp \<sigma>" "job_queue_gp \<sigma>' = job_queue_gp \<sigma>" by (rule e(3), rule e(4))
  have v: "j \<in> set (pp_queued \<sigma>)" "mali_pp_job_is_virtual (g_pp \<sigma> j)"
    using p by (auto simp: mali_scheduler_job_pp_virtual_peek_def Let_def split: list.splits if_splits)
  then have q: "queued_pp_ok (g_pp \<sigma> j)" using ok by (simp add: pp_queue_ok_def)
  have "mali_pp_job_unstarted_sub_job_count (g_pp \<sigma> j) = 1"
    using q v(2) virtual_not_started [OF q v(2)]
    by (simp add: queued_pp_ok_def mali_pp_job_unstarted_sub_job_count_def
        mali_pp_job_has_started_sub_jobs_def word_gt_0)
  then show "pp_queue_ok \<sigma>'" using pp_unlink_ok(1) [OF ok v(1), of \<sigma>'] by (simp add: e)
qed

section \<open>The scheduler as a transition system\<close>

text \<open>One rule for each operation on the queues; a job that is queued is new to the queue, and a PP
  job has been checked when it was created. \<open>sub_job_done\<close> is the executor's report on a running sub
  job, \<open>elsewhere\<close> everything that leaves the queued jobs and the queues alone.\<close>

inductive queue_step :: "gpu \<Rightarrow> gpu \<Rightarrow> bool" where
  queue_gp: "mali_scheduler_queue_gp_job j \<sigma> = (\<sigma>', b) \<Longrightarrow> j \<notin> set (gp_queued \<sigma>) \<Longrightarrow> queue_step \<sigma> \<sigma>'"
| queue_pp: "mali_scheduler_queue_pp_job j \<sigma> = (\<sigma>', b) \<Longrightarrow> j \<notin> set (pp_queued \<sigma>) \<Longrightarrow>
     queued_pp_ok (g_pp \<sigma> j) \<Longrightarrow> \<not> mali_pp_job_has_started_sub_jobs (g_pp \<sigma> j) \<Longrightarrow> queue_step \<sigma> \<sigma>'"
| take_gp: "mali_scheduler_job_gp_get \<sigma> = (\<sigma>', r) \<Longrightarrow> queue_step \<sigma> \<sigma>'"
| take_physical: "mali_scheduler_job_pp_physical_get \<sigma> = (\<sigma>', r) \<Longrightarrow> queue_step \<sigma> \<sigma>'"
| take_virtual: "mali_scheduler_job_pp_virtual_get \<sigma> = (\<sigma>', r) \<Longrightarrow> queue_step \<sigma> \<sigma>'"
| sub_job_done: "pp_sub_jobs_completed (g_pp \<sigma> j) < pp_sub_jobs_started (g_pp \<sigma> j) \<Longrightarrow>
     queue_step \<sigma> (upd_pp j (mali_pp_job_mark_sub_job_completed success) \<sigma>)"
| abort: "abort_queues s \<sigma> = (\<sigma>', gp_jobs, pp_jobs) \<Longrightarrow> queue_step \<sigma> \<sigma>'"
| elsewhere: "job_queue_gp \<sigma>' = job_queue_gp \<sigma> \<Longrightarrow> job_queue_pp \<sigma>' = job_queue_pp \<sigma> \<Longrightarrow>
     (\<forall>j \<in> set (pp_queued \<sigma>). g_pp \<sigma>' j = g_pp \<sigma> j) \<Longrightarrow>
     (\<forall>j \<in> set (gp_queued \<sigma>). g_gp \<sigma>' j = g_gp \<sigma> j) \<Longrightarrow> queue_step \<sigma> \<sigma>'"

inductive queue_reachable :: "gpu \<Rightarrow> bool" where
  init: "mali_scheduler_initialize lock_ok work_ok delete_lock_ok \<sigma> r = (\<sigma>', r', e) \<Longrightarrow> queue_reachable \<sigma>'"
| step: "queue_reachable \<sigma> \<Longrightarrow> queue_step \<sigma> \<sigma>' \<Longrightarrow> queue_reachable \<sigma>'"

inductive_cases queue_stepE: "queue_step \<sigma> \<sigma>'"

abbreviation queues_ok :: "gpu \<Rightarrow> bool" where
  "queues_ok \<sigma> \<equiv> gp_queue_ok \<sigma> \<and> pp_queue_ok \<sigma>"

lemma pp_queue_ok_cong:
  assumes "job_queue_pp \<sigma>' = job_queue_pp \<sigma>" and "\<And>j. j \<in> set (pp_queued \<sigma>) \<Longrightarrow>
      queued_pp_ok (g_pp \<sigma> j) \<longrightarrow> queued_pp_ok (g_pp \<sigma>' j) \<and>
        pp_sub_jobs_started (g_pp \<sigma>' j) = pp_sub_jobs_started (g_pp \<sigma> j) \<and>
        pp_sub_jobs_num (g_pp \<sigma>' j) = pp_sub_jobs_num (g_pp \<sigma> j)"
    and "pp_queue_ok \<sigma>"
  shows "pp_queue_ok \<sigma>'"
proof -
  have j: "queued_pp_ok (g_pp \<sigma>' j) \<and> mali_pp_job_has_started_sub_jobs (g_pp \<sigma>' j) =
      mali_pp_job_has_started_sub_jobs (g_pp \<sigma> j) \<and> mali_pp_job_unstarted_sub_job_count (g_pp \<sigma>' j) =
      mali_pp_job_unstarted_sub_job_count (g_pp \<sigma> j)" if "j \<in> set (pp_queued \<sigma>)" for j
    using assms(2) [OF that] assms(3) that
    by (auto simp: pp_queue_ok_def mali_pp_job_has_started_sub_jobs_def mali_pp_job_unstarted_sub_job_count_def)
  have "qsum (g_pp \<sigma>') (pp_queued \<sigma>) = qsum (g_pp \<sigma>) (pp_queued \<sigma>)"
    using j by (intro arg_cong [where f = sum_list] map_cong refl) blast
  moreover have "only_head_started (g_pp \<sigma>') js" if "only_head_started (g_pp \<sigma>) js" "set js \<subseteq> set (pp_queued \<sigma>)" for js
    using that j in_set_tl [of _ js] by (fastforce simp: only_head_started_def)
  ultimately show ?thesis using assms(3) j by (simp add: pp_queue_ok_def assms(1))
qed

lemma gp_queue_ok_cong:
  assumes "job_queue_gp \<sigma>' = job_queue_gp \<sigma>" and "\<And>j. j \<in> set (gp_queued \<sigma>) \<Longrightarrow> g_gp \<sigma>' j = g_gp \<sigma> j"
    and "gp_queue_ok \<sigma>"
  shows "gp_queue_ok \<sigma>'"
proof -
  have "filter (\<lambda>j. gp_big_job (g_gp \<sigma>' j) \<noteq> 0) js = filter (\<lambda>j. gp_big_job (g_gp \<sigma> j) \<noteq> 0) js"
    if "set js \<subseteq> set (gp_queued \<sigma>)" for js
    using that assms(2) by (intro filter_cong refl) auto
  from this [of "gp_queued \<sigma>"] show ?thesis using assms(1,3) unfolding gp_queue_ok_def by simp
qed

lemma queue_step_ok: "queue_step \<sigma> \<sigma>' \<Longrightarrow> queues_ok \<sigma> \<Longrightarrow> queues_ok \<sigma>'"
proof (induction rule: queue_step.induct)
  case (queue_gp j \<sigma> \<sigma>' b)
  then show ?case
    using queue_gp_ok [of \<sigma> j \<sigma>' b] queue_gp_eq(1,2) [OF queue_gp(1) refl] by (simp add: pp_queue_ok_def)
next
  case (queue_pp j \<sigma> \<sigma>' b)
  then show ?case
    using queue_pp_ok [of \<sigma> j \<sigma>' b] queue_pp_eq(1,2) [OF queue_pp(1) refl] by (simp add: gp_queue_ok_def)
next
  case (take_gp \<sigma> \<sigma>' r)
  then show ?case using gp_get_ok [of \<sigma> \<sigma>' r] by (simp add: pp_queue_ok_def)
next
  case (take_physical \<sigma> \<sigma>' r)
  show ?case
  proof (cases "mali_scheduler_job_pp_physical_peek \<sigma>")
    case None
    then show ?thesis using take_physical by (simp add: mali_scheduler_job_pp_physical_get_def)
  next
    case (Some j)
    have "queued_pp_ok (g_pp \<sigma> j)"
      using peek_is_head [OF Some] take_physical(2) by (auto simp: pp_queue_ok_def)
    with physical_get_queue_ok [OF _ Some take_physical(1)] physical_get_eq(6,7) [OF Some _ take_physical(1)]
      take_physical(2) show ?thesis by (simp add: gp_queue_ok_def)
  qed
next
  case (take_virtual \<sigma> \<sigma>' r)
  show ?case
  proof (cases "mali_scheduler_job_pp_virtual_peek \<sigma>")
    case None
    then show ?thesis using take_virtual by (simp add: mali_scheduler_job_pp_virtual_get_def)
  next
    case (Some j)
    with virtual_get_ok [OF _ Some take_virtual(1)] take_virtual(2) show ?thesis by (simp add: gp_queue_ok_def)
  qed
next
  case (sub_job_done \<sigma> j success)
  let ?\<sigma> = "upd_pp j (mali_pp_job_mark_sub_job_completed success) \<sigma>"
  have "pp_queue_ok ?\<sigma>"
    using sub_job_done mark_completed_ok [of "g_pp \<sigma> j" success]
    by (intro pp_queue_ok_cong [of ?\<sigma> \<sigma>])
      (auto simp: upd_pp_def queued_pp_ok_def mali_pp_job_mark_sub_job_completed_def
        mali_pp_job_has_unstarted_sub_jobs_def mali_pp_job_is_virtual_def Let_def)
  with sub_job_done show ?case by (simp add: gp_queue_ok_def upd_pp_def)
next
  case (abort s \<sigma> \<sigma>' gp_jobs pp_jobs)
  then show ?case using abort_queues_effect(1,2) [OF abort(1)] by blast
next
  case (elsewhere \<sigma>' \<sigma>)
  then show ?case using pp_queue_ok_cong [of \<sigma>' \<sigma>] gp_queue_ok_cong [of \<sigma>' \<sigma>] by simp
qed

lemma queue_reachable_ok: "queue_reachable \<sigma> \<Longrightarrow> queues_ok \<sigma>"
proof (induction rule: queue_reachable.induct)
  case init
  then show ?case
    by (auto simp: mali_scheduler_initialize_def Let_def init_queue_def gp_queue_ok_def pp_queue_ok_def
        only_head_started_def split: if_splits)
qed (use queue_step_ok in blast)

end
