(* ===== verification/Sched_Properties.thy ===== *)
theory Sched_Properties
  imports Sched_Steps Timeline_Examples
begin

text \<open>The properties of the scheduler's queues, with a concrete state they apply to.\<close>

section \<open>The count at the head of the queues\<close>


text \<open>C31: if the scheduler reports at least \<open>n\<close> physical sub jobs for the mode of the GPU, then
  \<open>n\<close> sub jobs can be taken one after the other: none of the calls returns NULL, no sub job is
  handed out twice, and each belongs to a queued physical job of that mode and is one of the
  job's sub jobs.\<close>

theorem reported_sub_jobs_available:
  assumes "pp_queue_ok \<sigma>" and "mode_of_started secure \<sigma>"
    and "n \<le> unat (mali_scheduler_job_physical_head_count secure \<sigma>)"
  shows "\<exists>l. snd (physical_gets n \<sigma>) = map Some l \<and> length l = n \<and> distinct l \<and>
    (\<forall>(j, i) \<in> set l. j \<in> set (pp_queued \<sigma>) \<and> \<not> mali_pp_job_is_virtual (g_pp \<sigma> j) \<and>
        mode_matches secure (g_pp \<sigma> j) \<and> i < mali_pp_job_get_sub_job_count (g_pp \<sigma> j))"
proof -
  have "unat (mali_scheduler_job_physical_head_count secure \<sigma>) \<le> head_sub_jobs secure \<sigma>"
    using head_count_capped [OF assms(1), of secure] by simp
  with head_le_available [OF assms(1), of secure] assms(3) have "n \<le> available secure \<sigma>" by linarith
  from gets_succeed [OF assms(1,2) this] show ?thesis
    unfolding mali_pp_job_get_sub_job_count_def by fastforce
qed

section \<open>The queues along every sequence of operations\<close>

lemma sum_of_unats:
  "(\<forall>x \<in> set xs. unat (f x) \<le> 8) \<Longrightarrow> length xs < 2 ^ 28 \<Longrightarrow>
     unat (sum_list (map f xs) :: u32) = sum_list (map (\<lambda>x. unat (f x)) xs) \<and>
     sum_list (map (\<lambda>x. unat (f x)) xs) \<le> 8 * length xs"
  by (induction xs) (auto simp: unat_plus_u32)

text \<open>C32: in every state the scheduler reaches from its initialisation, the depth of the PP queue is
  the number of sub jobs that queued jobs have left to start, no matter in which order jobs are
  queued, taken, completed and aborted; so it is zero exactly when no job is queued, and the
  numbers of GP jobs and of big GP jobs are exact too. The queues hold less than 2^28 jobs.\<close>

theorem queue_depths_exact:
  assumes "queue_reachable \<sigma>" and "length (pp_queued \<sigma>) < 2 ^ 28" and "length (gp_queued \<sigma>) < 2 ^ 28"
  shows "unat (depth (job_queue_pp \<sigma>)) =
           sum_list (map (\<lambda>j. unat (mali_pp_job_unstarted_sub_job_count (g_pp \<sigma> j))) (pp_queued \<sigma>)) \<and>
         (depth (job_queue_pp \<sigma>) = 0 \<longleftrightarrow> pp_queued \<sigma> = []) \<and>
         unat (depth (job_queue_gp \<sigma>)) = length (gp_queued \<sigma>) \<and>
         unat (big_job_num (job_queue_gp \<sigma>)) =
           length (filter (\<lambda>j. gp_big_job (g_gp \<sigma> j) \<noteq> 0) (gp_queued \<sigma>)) \<and>
         big_job_num (job_queue_gp \<sigma>) \<le> depth (job_queue_gp \<sigma>)"
proof -
  have g: "gp_queue_ok \<sigma>" and p: "pp_queue_ok \<sigma>" using queue_reachable_ok [OF assms(1)] by simp_all
  have q: "queued_pp_ok (g_pp \<sigma> j)" if "j \<in> set (pp_queued \<sigma>)" for j
    using p that by (simp add: pp_queue_ok_def)
  have d: "depth (job_queue_pp \<sigma>) = qsum (g_pp \<sigma>) (pp_queued \<sigma>)"
    using p by (simp add: pp_queue_ok_def)
  have 1: "unat (depth (job_queue_pp \<sigma>)) = sum_list (map (left (g_pp \<sigma>)) (pp_queued \<sigma>))"
  proof -
    have "\<forall>j \<in> set (pp_queued \<sigma>). left (g_pp \<sigma>) j \<le> 8"
      using q left_le_8 [of "g_pp \<sigma>"] by blast
    from sum_of_unats [OF this assms(2)] show ?thesis unfolding d by (rule conjunct1)
  qed
  have 2: "depth (job_queue_pp \<sigma>) = 0 \<longleftrightarrow> pp_queued \<sigma> = []"
  proof
    assume z: "depth (job_queue_pp \<sigma>) = 0"
    show "pp_queued \<sigma> = []"
    proof (cases "pp_queued \<sigma>")
      case (Cons j js)
      then have "0 < left (g_pp \<sigma>) j" using q [of j] by (intro left_pos) simp
      then show ?thesis using 1 z Cons by simp
    qed simp
  qed (simp add: d)
  have w: "unat (of_nat n :: u32) = n" if "n < 2 ^ 28" for n
  proof -
    have "n < 2 ^ LENGTH(32)" using that by simp
    then show ?thesis unfolding unat_of_nat by (rule mod_less)
  qed
  let ?big = "filter (\<lambda>j. gp_big_job (g_gp \<sigma> j) \<noteq> 0) (gp_queued \<sigma>)"
  have "length ?big \<le> length (gp_queued \<sigma>)" by (rule length_filter_le)
  then have 3: "unat (depth (job_queue_gp \<sigma>)) = length (gp_queued \<sigma>)"
    "unat (big_job_num (job_queue_gp \<sigma>)) = length ?big"
    using g assms(3) w by (simp_all only: gp_queue_ok_def)
  moreover have "big_job_num (job_queue_gp \<sigma>) \<le> depth (job_queue_gp \<sigma>)"
    unfolding word_le_nat_alt 3 by (rule length_filter_le)
  ultimately show ?thesis using 1 2 by (intro conjI)
qed

text \<open>aborting a session takes every queued job of the session out of the queues and leaves the
  other jobs queued in their order. All GP jobs it takes out are completed; of the PP jobs,
  which have nothing left to start, those without a running sub job are completed, and the others
  are left to the executor.\<close>

theorem abort_unqueues_session:
  assumes "queue_reachable \<sigma>" and "abort_queues s \<sigma> = (\<sigma>', gp_jobs, pp_jobs)"
  shows "gp_queued \<sigma>' = filter (\<lambda>j. gp_session (g_gp \<sigma> j) \<noteq> s) (gp_queued \<sigma>) \<and>
         pp_queued \<sigma>' = filter (\<lambda>j. pp_session (g_pp \<sigma> j) \<noteq> s) (pp_queued \<sigma>) \<and>
         set gp_jobs = {j \<in> set (gp_queued \<sigma>). gp_session (g_gp \<sigma> j) = s} \<and>
         set pp_jobs = {j \<in> set (pp_queued \<sigma>). pp_session (g_pp \<sigma> j) = s \<and>
                            mali_pp_job_is_complete (g_pp \<sigma>' j)} \<and>
         (\<forall>j \<in> set (pp_queued \<sigma>). pp_session (g_pp \<sigma> j) = s \<longrightarrow>
            \<not> mali_pp_job_has_unstarted_sub_jobs (g_pp \<sigma>' j) \<and> \<not> mali_pp_job_was_success (g_pp \<sigma>' j))"
proof -
  have g: "gp_queue_ok \<sigma>" and p: "pp_queue_ok \<sigma>" using queue_reachable_ok [OF assms(1)] by simp_all
  note a = abort_queues_effect [OF assms(2) g p]
  have q: "queued_pp_ok (g_pp \<sigma> j)" if "j \<in> set (pp_queued \<sigma>)" for j
    using p that by (simp add: pp_queue_ok_def)
  have own: "g_pp \<sigma>' j = mali_pp_job_mark_unstarted_failed (g_pp \<sigma> j)"
    if "j \<in> set (pp_queued \<sigma>)" "pp_session (g_pp \<sigma> j) = s" for j
    using a(11) [of j] that by (simp add: pp_jobs_of_def)
  have "set pp_jobs = {j \<in> set (pp_queued \<sigma>). pp_session (g_pp \<sigma> j) = s \<and> mali_pp_job_is_complete (g_pp \<sigma>' j)}"
    unfolding a(10) using own mark_failed_done(2) [OF q] by (auto simp: pp_jobs_of_def idle_pp_def)
  moreover have "\<not> mali_pp_job_has_unstarted_sub_jobs (g_pp \<sigma>' j) \<and> \<not> mali_pp_job_was_success (g_pp \<sigma>' j)"
    if "j \<in> set (pp_queued \<sigma>)" "pp_session (g_pp \<sigma> j) = s" for j
  proof -
    have "pp_job_ok (g_pp \<sigma> j)" "mali_pp_job_has_unstarted_sub_jobs (g_pp \<sigma> j)"
      using q [OF that(1)] by (simp_all add: queued_pp_ok_def)
    with mark_failed_unats [OF this(1) refl refl] mark_failed_done(1) [OF q [OF that(1)]] own [OF that]
    show ?thesis
      by (auto simp: mali_pp_job_was_success_def mali_pp_job_has_unstarted_sub_jobs_def word_less_nat_alt)
  qed
  moreover have "set gp_jobs = {j \<in> set (gp_queued \<sigma>). gp_session (g_gp \<sigma> j) = s}"
    using a(9) by (auto simp: gp_jobs_of_def)
  ultimately show ?thesis using a(5-8) by (simp add: gp_jobs_of_def pp_jobs_of_def)
qed

section \<open>Initialisation\<close>


section \<open>Examples\<close>

text \<open>Job 1 with two of its four sub jobs started, one of them completed, in front of job 2 with
  six sub jobs.\<close>

definition physical_job :: "u32 \<Rightarrow> pp_job" where
  "physical_job n = zeroed_pp_job\<lparr>pp_uargs := zeroed_pp_uargs\<lparr>pu_num_cores := n\<rparr>, pp_sub_jobs_num := n\<rparr>"

definition two_queued :: gpu where
  "two_queued = idle_gpu\<lparr>
     g_pp := (\<lambda>_. zeroed_pp_job)
       (1 := (physical_job 4)\<lparr>pp_sub_jobs_started := 2, pp_sub_jobs_completed := 1\<rparr>, 2 := physical_job 6),
     job_queue_pp := \<lparr>normal_pri = [1, 2], high_pri = [], depth = 8, big_job_num = 0\<rparr>\<rparr>"

lemmas queue_examples = two_queued_def physical_job_def zeroed_pp_job_def zeroed_pp_uargs_def

lemma two_queued_ok: "pp_queue_ok two_queued" "mode_of_started False two_queued"
  by (auto simp: pp_queue_ok_def queue_examples queued_pp_ok_def pp_job_ok_def PP_MAX_SUB_JOBS_def
      mali_pp_job_has_unstarted_sub_jobs_def mali_pp_job_is_virtual_def only_head_started_def
      mali_pp_job_has_started_sub_jobs_def mali_pp_job_unstarted_sub_job_count_def
      mode_of_started_def mode_matches_def mali_pp_job_is_protected_job_def)

lemma two_queued_count: "mali_scheduler_job_physical_head_count False two_queued = 2"
  by (simp add: mali_scheduler_job_physical_head_count_def head_count_partial_def queue_examples Let_def
      mali_pp_job_has_started_sub_jobs_def mode_matches_def mali_pp_job_is_protected_job_def
      mali_pp_job_unstarted_sub_job_count_def MAX_PHYSICAL_PP_GROUPS_def)


theorem reported_sub_jobs_available_witness:
  "\<exists>l. snd (physical_gets 2 two_queued) = map Some l \<and> length l = 2 \<and> distinct l"
  using reported_sub_jobs_available [OF two_queued_ok, of 2] two_queued_count by auto

text \<open>The loop over the normal priority queue also stops at the job in progress at its head, so the six
  sub jobs of the second job are not counted although they can be taken.\<close>

lemma head_count_stops_at_job_in_progress:
  "mali_scheduler_job_physical_head_count False two_queued = 2" "available False two_queued = 8"
  by (rule two_queued_count)
    (simp add: available_def run_count_def fresh_jobs_def head_count_partial_def queue_examples Let_def
      mali_pp_job_has_started_sub_jobs_def mode_matches_def mali_pp_job_is_protected_job_def
      mali_pp_job_unstarted_sub_job_count_def mali_pp_job_is_virtual_def)

text \<open>A GPU that has just been initialised, and the same with job 2 queued.\<close>

definition booted :: gpu where
  "booted = fst (mali_scheduler_initialize True True True
     (idle_gpu\<lparr>g_pp := (\<lambda>_. zeroed_pp_job)(2 := physical_job 6)\<rparr>)
     \<lparr>scheduler_lock_obj = False, wq_pp_job_delete = False, pp_job_delete_lock = False\<rparr>)"

definition one_queued :: gpu where
  "one_queued = fst (mali_scheduler_queue_pp_job 2 booted)"

lemma booted_reachable: "queue_reachable booted"
proof -
  obtain \<sigma>' r' e where i: "mali_scheduler_initialize True True True
     (idle_gpu\<lparr>g_pp := (\<lambda>_. zeroed_pp_job)(2 := physical_job 6)\<rparr>)
     \<lparr>scheduler_lock_obj = False, wq_pp_job_delete = False, pp_job_delete_lock = False\<rparr> = (\<sigma>', r', e)"
    by (metis prod_cases3)
  then show ?thesis using queue_reachable.init [OF i] by (simp add: booted_def)
qed

lemma booted_view: "g_pp booted 2 = physical_job 6" "normal_pri (job_queue_pp booted) = []"
  "high_pri (job_queue_pp booted) = []"
  by (simp_all add: booted_def mali_scheduler_initialize_def init_queue_def Let_def idle_gpu_def)

lemma one_queued_reachable: "queue_reachable one_queued"
proof -
  obtain \<sigma>' b where q: "mali_scheduler_queue_pp_job 2 booted = (\<sigma>', b)" by fastforce
  have "queued_pp_ok (g_pp booted 2)" "\<not> mali_pp_job_has_started_sub_jobs (g_pp booted 2)"
    by (simp_all add: booted_view queue_examples queued_pp_ok_def pp_job_ok_def PP_MAX_SUB_JOBS_def
        mali_pp_job_has_unstarted_sub_jobs_def mali_pp_job_is_virtual_def mali_pp_job_has_started_sub_jobs_def)
  then have "queue_step booted \<sigma>'" by (intro queue_step.queue_pp [OF q]) (simp_all add: booted_view)
  then show ?thesis using queue_reachable.step [OF booted_reachable] q by (simp add: one_queued_def)
qed

lemma one_queued_view:
  "normal_pri (job_queue_pp one_queued) = [2]" "high_pri (job_queue_pp one_queued) = []"
  "normal_pri (job_queue_gp one_queued) = []" "high_pri (job_queue_gp one_queued) = []" "pp_session (g_pp one_queued 2) = 0"
  "mali_pp_job_unstarted_sub_job_count (g_pp one_queued 2) = 6"
  by (simp_all add: one_queued_def mali_scheduler_queue_pp_job_def booted_def mali_scheduler_initialize_def
      init_queue_def Let_def state_examples mali_scheduler_get_new_cache_order_def upd_pp_def log_when_def
      log_event_def queue_examples mali_pp_job_list_add_def mali_pp_job_unstarted_sub_job_count_def)

theorem queue_depths_exact_witness: "unat (depth (job_queue_pp one_queued)) = 6"
  using queue_depths_exact [OF one_queued_reachable] one_queued_view by simp

theorem abort_unqueues_session_witness:
  "pp_queued (fst (abort_queues 0 one_queued)) = []"
proof -
  obtain \<sigma>' g p where a: "abort_queues 0 one_queued = (\<sigma>', g, p)" by (metis prod_cases3)
  show ?thesis using abort_unqueues_session [OF one_queued_reachable a] a one_queued_view by simp
qed


end
