(* ===== verification/PM_Domains.thy ===== *)
theory PM_Domains
  imports Mali_Prelude
begin

text \<open>
  Power management (common/mali_pm.c and mali_pm_domain.c): the power domains with their
  reference counts, the masks of the domains that are wanted and powered, and the update that
  makes the second follow the first. Domains are named by their index in \<open>mali_pm_domains\<close>;
  groups and L2 caches by numbers. What the update tells the PMU, the L2 caches and the executor
  is recorded in a log, with the device references that runtime PM counts.
\<close>

type_synonym gid = nat
type_synonym l2id = nat

section \<open>Bits\<close>

definition mali_osk_fls :: "u32 \<Rightarrow> nat" where
  "mali_osk_fls x = (case filter (bit x) (rev [0 ..< 32]) of [] \<Rightarrow> 0 | i # _ \<Rightarrow> i + 1)"

text \<open>\<open>1 << d\<close>.\<close>

definition domain_bit :: "nat \<Rightarrow> u32" where "domain_bit d = push_bit d 1"

lemma bit_domain_bit [simp]: "bit (domain_bit d) i \<longleftrightarrow> i = d \<and> d < 32"
  unfolding domain_bit_def bit_push_bit_iff by (auto simp: bit_1_iff dest: bit_imp_le_length)

definition MAX_DOMAINS :: nat where "MAX_DOMAINS = 13"
definition DOMAIN_DUMMY :: nat where "DOMAIN_DUMMY = 12"
definition DUMMY_MASK :: u32 where "DUMMY_MASK = domain_bit DOMAIN_DUMMY"

section \<open>Data\<close>

text \<open>The use count is a signed 32-bit integer of which only the comparison with zero matters.\<close>

type_synonym s32 = "32 word"

record pm_domain =
  power_is_on :: bool
  use_count :: s32
  pmu_mask :: u32
  group_list :: "gid list"
  l2_cache_list :: "l2id list"

datatype pm_event =
    PmuUp u32 | PmuDown u32 | PmuReset
  | L2Up l2id | L2Down l2id
  | GroupsUp "gid list" | GroupsDown "gid list"
  | ExecutorResume

record pm =
  domain_config :: "16 word list"
  pm_domains :: "nat \<Rightarrow> pm_domain option"
  pd_mask_wanted :: u32
  pd_mask_current :: u32
  pmu_mask_current :: u32
  runtime_active :: bool
  dev_refs :: int
  pm_log :: "pm_event list"

definition domain :: "pm \<Rightarrow> nat \<Rightarrow> pm_domain" where
  "domain s d = the (pm_domains s d)"

lemma domain_fields [simp]:
  "domain (s\<lparr>pd_mask_current := m\<rparr>) = domain s" "domain (s\<lparr>pmu_mask_current := m\<rparr>) = domain s"
  "domain (s\<lparr>pd_mask_wanted := m\<rparr>) = domain s" "domain (s\<lparr>pm_log := l\<rparr>) = domain s"
  "domain (s\<lparr>runtime_active := b\<rparr>) = domain s" "domain (s\<lparr>domain_config := c\<rparr>) = domain s" "domain (s\<lparr>dev_refs := n\<rparr>) = domain s"
  by (simp_all add: domain_def fun_eq_iff)

definition upd_domain :: "nat \<Rightarrow> (pm_domain \<Rightarrow> pm_domain) \<Rightarrow> pm \<Rightarrow> pm" where
  "upd_domain d f s = s\<lparr>pm_domains := (pm_domains s)(d \<mapsto> f (domain s d))\<rparr>"

definition pm_event :: "pm_event \<Rightarrow> pm \<Rightarrow> pm" where
  "pm_event e s = s\<lparr>pm_log := pm_log s @ [e]\<rparr>"

section \<open>Domains and their references\<close>

definition mali_pm_domain_get_from_mask :: "u32 \<Rightarrow> pm \<Rightarrow> pm_domain option" where
  "mali_pm_domain_get_from_mask msk s =
     (if 0 = msk then None else pm_domains s (mali_osk_fls msk - 1))"

text \<open>The two lists of the domain are those it is given when groups and L2 caches register. The
  first argument tells whether the allocation succeeds.\<close>

definition mali_pm_domain_create :: "bool \<Rightarrow> u32 \<Rightarrow> pm \<Rightarrow> pm \<times> bool" where
  "mali_pm_domain_create malloc_ok msk s =
     (if mali_pm_domain_get_from_mask msk s \<noteq> None then (s, True)
      else if malloc_ok
      then (s\<lparr>pm_domains := (pm_domains s)(mali_osk_fls msk - 1 \<mapsto>
              \<lparr>power_is_on = False, use_count = 0, pmu_mask = msk, group_list = [], l2_cache_list = []\<rparr>)\<rparr>,
            True)
      else (s, False))"

definition mali_pm_domain_terminate :: "pm \<Rightarrow> pm" where
  "mali_pm_domain_terminate s = fold (\<lambda>i s. s\<lparr>pm_domains := (pm_domains s)(i := None)\<rparr>) [0 ..< MAX_DOMAINS] s"

definition mali_pm_domain_add_group :: "nat \<Rightarrow> gid \<Rightarrow> pm \<Rightarrow> pm" where
  "mali_pm_domain_add_group d g = upd_domain d (\<lambda>x. x\<lparr>group_list := group_list x @ [g]\<rparr>)"

definition mali_pm_domain_add_l2_cache :: "nat \<Rightarrow> l2id \<Rightarrow> pm \<Rightarrow> pm" where
  "mali_pm_domain_add_l2_cache d l = upd_domain d (\<lambda>x. x\<lparr>l2_cache_list := l # l2_cache_list x\<rparr>)"

definition mali_pm_domain_ref_get :: "nat \<Rightarrow> pm \<Rightarrow> pm \<times> u32" where
  "mali_pm_domain_ref_get d s =
     (let s1 = (if 0 = use_count (domain s d) then s\<lparr>dev_refs := dev_refs s + 1\<rparr> else s);
          s2 = upd_domain d (\<lambda>x. x\<lparr>use_count := use_count x + 1\<rparr>) s1
      in (s2, pmu_mask (domain s2 d)))"

definition mali_pm_domain_ref_put :: "nat \<Rightarrow> pm \<Rightarrow> pm \<times> u32" where
  "mali_pm_domain_ref_put d s =
     (let s1 = upd_domain d (\<lambda>x. x\<lparr>use_count := use_count x - 1\<rparr>) s;
          s2 = (if 0 = use_count (domain s1 d) then s1\<lparr>dev_refs := dev_refs s1 - 1\<rparr> else s1)
      in (s2, if 0 = use_count (domain s2 d) then pmu_mask (domain s2 d) else 0))"

definition mali_pm_domain_all_unused :: "pm \<Rightarrow> bool" where
  "mali_pm_domain_all_unused s \<longleftrightarrow>
     list_all (\<lambda>i. case pm_domains s i of None \<Rightarrow> True
                 | Some x \<Rightarrow> \<not> power_is_on x \<and> 0 = use_count x) [0 ..< MAX_DOMAINS]"

text \<open>Registering returns the index of the domain; what has no domain of its own goes to the dummy.\<close>

definition mali_pm_register_l2_cache :: "nat \<Rightarrow> l2id \<Rightarrow> pm \<Rightarrow> pm \<times> nat" where
  "mali_pm_register_l2_cache domain_index l s =
     (let m = ucast (domain_config s ! domain_index) in
      case mali_pm_domain_get_from_mask m s of
        None \<Rightarrow> (mali_pm_domain_add_l2_cache DOMAIN_DUMMY l
                   (s\<lparr>domain_config := (domain_config s)[domain_index := ucast DUMMY_MASK]\<rparr>), DOMAIN_DUMMY)
      | Some _ \<Rightarrow> (mali_pm_domain_add_l2_cache (mali_osk_fls m - 1) l s, mali_osk_fls m - 1))"

definition mali_pm_register_group :: "nat \<Rightarrow> gid \<Rightarrow> pm \<Rightarrow> pm \<times> nat" where
  "mali_pm_register_group domain_index g s =
     (let m = ucast (domain_config s ! domain_index) in
      case mali_pm_domain_get_from_mask m s of
        None \<Rightarrow> (mali_pm_domain_add_group DOMAIN_DUMMY g
                   (s\<lparr>domain_config := (domain_config s)[domain_index := ucast DUMMY_MASK]\<rparr>), DOMAIN_DUMMY)
      | Some _ \<Rightarrow> (mali_pm_domain_add_group (mali_osk_fls m - 1) g s, mali_osk_fls m - 1))"

text \<open>\<open>ok\<close> tells which allocations succeed.\<close>

fun create_domains :: "(nat \<Rightarrow> bool) \<Rightarrow> nat list \<Rightarrow> pm \<Rightarrow> pm \<times> osk_err" where
  "create_domains ok [] s = (s, ERR_OK)"
| "create_domains ok (i # is) s =
     (if 0 = domain_config s ! i then create_domains ok is s
      else case mali_pm_domain_create (ok i) (ucast (domain_config s ! i)) s of
        (s1, True) \<Rightarrow> create_domains ok is s1
      | (s1, False) \<Rightarrow> (s1, ERR_NOMEM))"

definition mali_pm_create_pm_domains :: "(nat \<Rightarrow> bool) \<Rightarrow> pm \<Rightarrow> pm \<times> osk_err" where
  "mali_pm_create_pm_domains ok s = create_domains ok [0 ..< MAX_DOMAINS] s"

text \<open>\<open>groups_on\<close> is the power state of the groups. A domain comes with the group it was taken for,
  if any.\<close>

fun get_refs_loop :: "(gid \<Rightarrow> bool) \<Rightarrow> (nat \<times> gid option) list \<Rightarrow> bool \<Rightarrow> pm \<Rightarrow> pm \<times> bool" where
  "get_refs_loop groups_on [] ret s = (s, ret)"
| "get_refs_loop groups_on ((d, g) # rest) ret s =
     (let (s1, m) = mali_pm_domain_ref_get d s;
          s2 = s1\<lparr>pd_mask_wanted := pd_mask_wanted s1 OR m\<rparr>;
          ret1 = (if \<not> power_is_on (domain s2 d) then False
                  else if (case g of Some k \<Rightarrow> \<not> groups_on k | None \<Rightarrow> False) then False
                  else ret)
      in get_refs_loop groups_on rest ret1 s2)"

definition mali_pm_get_domain_refs :: "(gid \<Rightarrow> bool) \<Rightarrow> (nat \<times> gid option) list \<Rightarrow> pm \<Rightarrow> pm \<times> bool" where
  "mali_pm_get_domain_refs groups_on ds s = get_refs_loop groups_on ds True s"

fun put_refs_loop :: "nat list \<Rightarrow> u32 \<Rightarrow> pm \<Rightarrow> pm \<times> u32" where
  "put_refs_loop [] msk s = (s, msk)"
| "put_refs_loop (d # ds) msk s =
     (let (s1, m) = mali_pm_domain_ref_put d s in put_refs_loop ds (msk OR m) s1)"

definition mali_pm_put_domain_refs :: "nat list \<Rightarrow> pm \<Rightarrow> pm \<times> bool" where
  "mali_pm_put_domain_refs ds s =
     (let (s1, msk) = put_refs_loop ds 0 s
      in if 0 = msk then (s1, False)
         else (s1\<lparr>pd_mask_wanted := pd_mask_wanted s1 AND NOT msk\<rparr>, True))"

section \<open>Powering domains up and down\<close>

lemma fls_bits:
  "mali_osk_fls x = 0 \<longleftrightarrow> x = 0"
  "x \<noteq> 0 \<Longrightarrow> bit x (mali_osk_fls x - 1) \<and> mali_osk_fls x \<le> 32 \<and> (\<forall>i. mali_osk_fls x \<le> i \<longrightarrow> \<not> bit x i)"
proof -
  have none: "filter (bit x) (rev [0 ..< 32]) = [] \<longleftrightarrow> x = 0"
  proof
    assume "filter (bit x) (rev [0 ..< 32]) = []"
    then have "\<not> bit x i" for i
      using bit_imp_le_length [of x i] by (auto simp: filter_empty_conv)
    then show "x = 0" by (simp add: bit_eq_iff)
  qed simp
  show "mali_osk_fls x = 0 \<longleftrightarrow> x = 0"
    using none by (auto simp: mali_osk_fls_def split: list.splits)
  assume "x \<noteq> 0"
  then obtain i r where f: "filter (bit x) (rev [0 ..< 32]) = i # r"
    using none by (cases "filter (bit x) (rev [0 ..< 32])") auto
  then obtain us vs where s: "rev [0 ..< 32] = us @ i # vs" "\<forall>u \<in> set us. \<not> bit x u" "bit x i"
    by (auto simp: filter_eq_Cons_iff)
  have "sorted_wrt (>) (rev [0 ..< 32 :: nat])" by (simp add: sorted_wrt_rev)
  then have lt: "\<forall>v \<in> set vs. v < i" unfolding s(1) by (simp add: sorted_wrt_append)
  have m: "set us \<union> {i} \<union> set vs = {0 ..< 32}"
    using s(1) by (metis Un_insert_right list.set(2) set_append set_rev set_upt sup_bot.right_neutral Un_assoc insert_is_Un)
  have "\<not> bit x k" if "i < k" for k
  proof (cases "k < 32")
    case True
    then have "k \<in> set us" using m lt that by force
    then show ?thesis using s(2) by blast
  next
    case False
    then show ?thesis using bit_imp_le_length [of x k] by auto
  qed
  moreover have "i < 32" using m by auto
  ultimately show "bit x (mali_osk_fls x - 1) \<and> mali_osk_fls x \<le> 32 \<and> (\<forall>i. mali_osk_fls x \<le> i \<longrightarrow> \<not> bit x i)"
    using s(3) by (simp add: mali_osk_fls_def f)
qed

lemma clear_bit_less:
  assumes "bit (x :: u32) d"
  shows "unat (x AND NOT (domain_bit d)) < unat x"
proof -
  have "x AND NOT (domain_bit d) \<noteq> x"
  proof
    assume "x AND NOT (domain_bit d) = x"
    then have "bit (x AND NOT (domain_bit d)) d" using assms by simp
    then show False by (simp add: bit_simps)
  qed
  moreover have "x AND NOT (domain_bit d) \<le> x" by (rule word_and_le2)
  ultimately show ?thesis by (simp add: word_less_nat_alt [symmetric] order.not_eq_order_implies_strict)
qed

text \<open>The loop of \<open>mali_pm_domain_power_up\<close> (\<open>on\<close>) and \<open>mali_pm_domain_power_down\<close>.\<close>

function power_loop :: "bool \<Rightarrow> u32 \<Rightarrow> pm \<Rightarrow> gid list \<Rightarrow> l2id list \<Rightarrow> pm \<times> gid list \<times> l2id list" where
  "power_loop on notify_mask s groups l2s =
     (if 0 = mali_osk_fls notify_mask then (s, groups, l2s)
      else let domain_id = mali_osk_fls notify_mask - 1;
               s1 = upd_domain domain_id (\<lambda>x. x\<lparr>power_is_on := on\<rparr>) s
           in power_loop on (notify_mask AND NOT (domain_bit domain_id)) s1
                (groups @ group_list (domain s1 domain_id)) (l2s @ l2_cache_list (domain s1 domain_id)))"
  by pat_completeness auto
termination
proof (relation "measure (\<lambda>(on, m, s, g, l). unat m)")
  fix on and m :: u32 and s :: pm and groups l2s :: "nat list" and d s1
  assume "0 \<noteq> mali_osk_fls m" and "d = mali_osk_fls m - 1"
  then show "((on, m AND NOT (domain_bit d), s1, groups @ group_list (domain s1 d),
      l2s @ l2_cache_list (domain s1 d)), on, m, s, groups, l2s) \<in> measure (\<lambda>(on, m, s, g, l). unat m)"
    using clear_bit_less [of m d] fls_bits [of m] by simp
qed simp

declare power_loop.simps [simp del]

definition mali_pm_domain_power_up :: "u32 \<Rightarrow> pm \<Rightarrow> pm \<times> gid list \<times> l2id list" where
  "mali_pm_domain_power_up power_up_mask s =
     power_loop True power_up_mask (s\<lparr>pd_mask_current := pd_mask_current s OR power_up_mask\<rparr>) [] []"

definition mali_pm_domain_power_down :: "u32 \<Rightarrow> pm \<Rightarrow> pm \<times> gid list \<times> l2id list" where
  "mali_pm_domain_power_down power_down_mask s =
     power_loop False power_down_mask (s\<lparr>pd_mask_current := pd_mask_current s AND NOT power_down_mask\<rparr>) [] []"

section \<open>The update\<close>

text \<open>The two halves of \<open>mali_pm_update_sync_internal\<close>, which gives up the state lock between them.\<close>

definition update_power_up :: "pm \<Rightarrow> pm" where
  "update_power_up s =
     (let power_up_mask = pd_mask_wanted s AND (pd_mask_wanted s XOR pd_mask_current s) in
      if 0 \<noteq> power_up_mask
      then let up = power_up_mask OR DUMMY_MASK;
               up_pmu = up AND NOT DUMMY_MASK;
               up_pmu1 = up_pmu AND ((up XOR pmu_mask_current s) AND up);
               s1 = (if 0 \<noteq> up_pmu1
                     then pm_event (PmuUp up_pmu1) (s\<lparr>pmu_mask_current := pmu_mask_current s OR up_pmu1\<rparr>)
                     else s);
               (s2, groups_up, l2_up) = mali_pm_domain_power_up up s1
           in pm_event (GroupsUp groups_up) (fold (\<lambda>l. pm_event (L2Up l)) l2_up s2)
      else s)"

definition pmu_follow :: "pm \<Rightarrow> pm" where
  "pmu_follow s =
     (let power_down_mask_pmu = pmu_mask_current s AND NOT (pd_mask_current s)
      in if 0 \<noteq> power_down_mask_pmu
         then pm_event (PmuDown power_down_mask_pmu)
                (s\<lparr>pmu_mask_current := pmu_mask_current s AND NOT power_down_mask_pmu\<rparr>)
         else s)"

definition update_power_down :: "pm \<Rightarrow> pm" where
  "update_power_down s =
     (let power_down_mask = pd_mask_current s AND (pd_mask_wanted s XOR pd_mask_current s) AND NOT DUMMY_MASK in
      if 0 \<noteq> power_down_mask
      then let (s1, groups_down, l2_down) = mali_pm_domain_power_down power_down_mask s;
               s2 = (if groups_down \<noteq> [] then pm_event (GroupsDown groups_down) s1 else s1)
           in pmu_follow (fold (\<lambda>l. pm_event (L2Down l)) l2_down s2)
      else pmu_follow s)"

definition mali_pm_update_sync_internal :: "pm \<Rightarrow> pm" where
  "mali_pm_update_sync_internal s = update_power_down (update_power_up s)"

definition mali_pm_update_sync :: "pm \<Rightarrow> pm" where
  "mali_pm_update_sync s = (if runtime_active s then mali_pm_update_sync_internal s else s)"

definition mali_pm_common_suspend :: "pm \<Rightarrow> pm \<times> bool" where
  "mali_pm_common_suspend s =
     (if 0 \<noteq> pd_mask_wanted s then (s, False)
      else if 0 \<noteq> pd_mask_current s
      then let (s1, groups_down, l2_down) = mali_pm_domain_power_down (pd_mask_current s) s;
               s2 = (if groups_down \<noteq> [] then pm_event (GroupsDown groups_down) s1 else s1)
           in ((fold (\<lambda>l. pm_event (L2Down l)) l2_down s2)\<lparr>pmu_mask_current := 0\<rparr>, True)
      else (s, True))"

definition mali_pm_runtime_suspend :: "pm \<Rightarrow> pm \<times> bool" where
  "mali_pm_runtime_suspend s =
     (case mali_pm_common_suspend s of
        (s1, True) \<Rightarrow> (s1\<lparr>runtime_active := False\<rparr>, True)
      | (s1, False) \<Rightarrow> (mali_pm_update_sync_internal s1, False))"

text \<open>\<open>pmu\<close> is the mask of powered domains the PMU reports after its reset, None without a PMU.\<close>

definition pmu_resume :: "u32 option \<Rightarrow> pm \<Rightarrow> pm" where
  "pmu_resume pmu s =
     (case pmu of Some m \<Rightarrow> (pm_event PmuReset s)\<lparr>pmu_mask_current := m\<rparr> | None \<Rightarrow> s)"

definition mali_pm_runtime_resume :: "u32 option \<Rightarrow> pm \<Rightarrow> pm" where
  "mali_pm_runtime_resume pmu s =
     mali_pm_update_sync_internal (pmu_resume pmu (s\<lparr>runtime_active := True\<rparr>))"

definition mali_pm_os_resume :: "u32 option \<Rightarrow> pm \<Rightarrow> pm" where
  "mali_pm_os_resume pmu s =
     pm_event ExecutorResume
       (if runtime_active s then mali_pm_update_sync_internal (pmu_resume pmu s) else s)"

section \<open>What the loops compute\<close>

definition bits_of :: "u32 \<Rightarrow> nat list" where
  "bits_of m = filter (bit m) (rev [0 ..< 32])"

lemma set_bits_of [simp]: "set (bits_of m) = {d. bit m d}"
  using bit_imp_le_length [of m] by (auto simp: bits_of_def)

lemma bits_of_fls:
  assumes "m \<noteq> 0"
  shows "bits_of m = (mali_osk_fls m - 1) # bits_of (m AND NOT (domain_bit (mali_osk_fls m - 1)))"
proof -
  obtain i r where f: "bits_of m = i # r"
    using assms fls_bits(1) [of m] by (auto simp: bits_of_def mali_osk_fls_def split: list.splits)
  then have i: "mali_osk_fls m - 1 = i" by (simp add: bits_of_def mali_osk_fls_def)
  have "distinct (bits_of m)" by (simp add: bits_of_def)
  have "bits_of (m AND NOT (domain_bit i)) = filter (\<lambda>j. j \<noteq> i) (bits_of m)"
    unfolding bits_of_def filter_filter by (rule filter_cong) (auto simp: bit_simps)
  also have "\<dots> = r" using \<open>distinct (bits_of m)\<close> by (auto simp: f filter_id_conv)
  finally show ?thesis unfolding i f by simp
qed

definition set_power :: "bool \<Rightarrow> u32 \<Rightarrow> pm \<Rightarrow> pm" where
  "set_power on m s = s\<lparr>pm_domains := (\<lambda>d. if bit m d
      then Some ((domain s d)\<lparr>power_is_on := on\<rparr>) else pm_domains s d)\<rparr>"

lemma power_loop_eq:
  "power_loop on m s groups l2s =
     (set_power on m s, groups @ concat (map (\<lambda>d. group_list (domain s d)) (bits_of m)),
      l2s @ concat (map (\<lambda>d. l2_cache_list (domain s d)) (bits_of m)))"
proof (induction on m s groups l2s rule: power_loop.induct)
  case (1 on m s groups l2s)
  show ?case
  proof (cases "m = 0")
    case True
    then have "mali_osk_fls m = 0" by (simp add: fls_bits(1))
    then show ?thesis
      using True by (subst power_loop.simps) (simp add: set_power_def bits_of_def)
  next
    case False
    define d where "d = mali_osk_fls m - 1"
    define s1 where "s1 = upd_domain d (\<lambda>x. x\<lparr>power_is_on := on\<rparr>) s"
    let ?m = "m AND NOT (domain_bit d)"
    have z: "0 \<noteq> mali_osk_fls m" using False fls_bits(1) [of m] by simp
    have b: "bit m d" using fls_bits(2) [OF False] by (simp add: d_def)
    have g: "group_list (domain s1 k) = group_list (domain s k)"
      "l2_cache_list (domain s1 k) = l2_cache_list (domain s k)" for k
      by (simp_all add: s1_def upd_domain_def domain_def)
    have "power_loop on m s groups l2s =
        power_loop on ?m s1 (groups @ group_list (domain s1 d)) (l2s @ l2_cache_list (domain s1 d))"
      using z by (subst power_loop.simps) (simp add: Let_def d_def s1_def)
    also have "\<dots> = (set_power on ?m s1,
        (groups @ group_list (domain s1 d)) @ concat (map (\<lambda>d. group_list (domain s1 d)) (bits_of ?m)),
        (l2s @ l2_cache_list (domain s1 d)) @ concat (map (\<lambda>d. l2_cache_list (domain s1 d)) (bits_of ?m)))"
      using 1 [OF _ d_def] z unfolding s1_def d_def [symmetric] by simp
    also have "set_power on ?m s1 = set_power on m s"
    proof -
      have "pm_domains (set_power on ?m s1) k = pm_domains (set_power on m s) k" for k
        using b bit_imp_le_length [of m k]
        by (cases "k = d") (auto simp: set_power_def s1_def upd_domain_def domain_def bit_simps)
      then have "pm_domains (set_power on ?m s1) = pm_domains (set_power on m s)" ..
      moreover have "set_power on ?m s1 = s\<lparr>pm_domains := pm_domains (set_power on ?m s1)\<rparr>"
        "set_power on m s = s\<lparr>pm_domains := pm_domains (set_power on m s)\<rparr>"
        by (simp_all add: set_power_def s1_def upd_domain_def)
      ultimately show ?thesis by metis
    qed
    finally show ?thesis
      using bits_of_fls [OF False, folded d_def] by (simp add: g)
  qed
qed

lemma fold_log: "fold (\<lambda>l. pm_event (f l)) ls s = s\<lparr>pm_log := pm_log s @ map f ls\<rparr>"
  by (induction ls arbitrary: s) (simp_all add: pm_event_def)

section \<open>The invariant\<close>

definition used :: "pm \<Rightarrow> nat \<Rightarrow> bool" where
  "used s d \<longleftrightarrow> pm_domains s d \<noteq> None \<and> use_count (domain s d) \<noteq> 0"

definition powered :: "pm \<Rightarrow> nat \<Rightarrow> bool" where
  "powered s d \<longleftrightarrow> pm_domains s d \<noteq> None \<and> power_is_on (domain s d)"

text \<open>The domains have their own bit as mask; the dummy domain always exists.\<close>

definition domains_ok :: "pm \<Rightarrow> bool" where
  "domains_ok s \<longleftrightarrow> (\<forall>d. pm_domains s d \<noteq> None \<longrightarrow> d < MAX_DOMAINS \<and> pmu_mask (domain s d) = domain_bit d) \<and>
     pm_domains s DOMAIN_DUMMY \<noteq> None"

text \<open>\<open>gone\<close> are the domains whose last reference has been given back in the running call.\<close>

definition refs_ok :: "u32 \<Rightarrow> pm \<Rightarrow> bool" where
  "refs_ok gone s \<longleftrightarrow> (\<forall>d. bit (pd_mask_wanted s) d \<longleftrightarrow> used s d \<or> bit gone d) \<and>
     (\<forall>d. bit gone d \<longrightarrow> \<not> used s d) \<and> dev_refs s = int (card {d. used s d})"

definition power_ok :: "pm \<Rightarrow> bool" where
  "power_ok s \<longleftrightarrow> (\<forall>d. bit (pd_mask_current s) d \<longleftrightarrow> powered s d) \<and>
     (\<forall>d. bit (pmu_mask_current s) d \<longrightarrow> d < DOMAIN_DUMMY) \<and>
     (\<forall>d. powered s d \<longrightarrow> d = DOMAIN_DUMMY \<or> bit (pmu_mask_current s) d)"

definition pm_ok :: "pm \<Rightarrow> bool" where
  "pm_ok s \<longleftrightarrow> domains_ok s \<and> refs_ok 0 s \<and> power_ok s"

text \<open>Between two updates the PMU has exactly the real domains on that are marked as powered.\<close>

definition settled :: "pm \<Rightarrow> bool" where
  "settled s \<longleftrightarrow> pmu_mask_current s = pd_mask_current s AND NOT DUMMY_MASK"

lemma dummy_bit [simp]: "bit DUMMY_MASK d \<longleftrightarrow> d = DOMAIN_DUMMY"
by (simp add: DUMMY_MASK_def DOMAIN_DUMMY_def)

lemma finite_used: "domains_ok s \<Longrightarrow> finite {d. used s d}"
  by (rule finite_subset [of _ "{..< MAX_DOMAINS}"]) (auto simp: domains_ok_def used_def)

lemma upd_domain_simps [simp]:
  "pm_domains s d \<noteq> None \<Longrightarrow> (pm_domains (upd_domain d f s) e \<noteq> None) = (pm_domains s e \<noteq> None)"
  "domain (upd_domain d f s) e = (if e = d then f (domain s d) else domain s e)"
  "pd_mask_wanted (upd_domain d f s) = pd_mask_wanted s" "pd_mask_current (upd_domain d f s) = pd_mask_current s"
  "pmu_mask_current (upd_domain d f s) = pmu_mask_current s" "dev_refs (upd_domain d f s) = dev_refs s"
  "runtime_active (upd_domain d f s) = runtime_active s" "pm_log (upd_domain d f s) = pm_log s"
  by (auto simp: upd_domain_def domain_def)

lemma upd_domain_at [simp]: "pm_domains (upd_domain d f s) d = Some (f (domain s d))"
  by (simp add: upd_domain_def)

text \<open>A change of use counts leaves the power state alone.\<close>

definition same_power :: "pm \<Rightarrow> pm \<Rightarrow> bool" where
  "same_power s s' \<longleftrightarrow> pd_mask_current s' = pd_mask_current s \<and> pmu_mask_current s' = pmu_mask_current s \<and>
     runtime_active s' = runtime_active s \<and> pm_log s' = pm_log s \<and>
     (\<forall>d. (pm_domains s' d \<noteq> None) = (pm_domains s d \<noteq> None) \<and>
        power_is_on (domain s' d) = power_is_on (domain s d) \<and> pmu_mask (domain s' d) = pmu_mask (domain s d))"

lemma same_power_trans: "same_power s s1 \<Longrightarrow> same_power s1 s2 \<Longrightarrow> same_power s s2"
  by (simp add: same_power_def)

lemma same_power_ok: "same_power s s' \<Longrightarrow> domains_ok s' = domains_ok s \<and> power_ok s' = power_ok s \<and> settled s' = settled s"
  by (simp add: same_power_def domains_ok_def power_ok_def powered_def settled_def)

lemma ref_get_ok:
  assumes "domains_ok s" and "refs_ok 0 s" and "pm_domains s d \<noteq> None" and "use_count (domain s d) + 1 \<noteq> 0"
    and "mali_pm_domain_ref_get d s = (s1, m)" and "s2 = s1\<lparr>pd_mask_wanted := pd_mask_wanted s1 OR m\<rparr>"
  shows "refs_ok 0 s2 \<and> same_power s s2 \<and>
    (\<forall>e. use_count (domain s2 e) = (if e = d then use_count (domain s d) + 1 else use_count (domain s e)))"
proof -
  have d: "pmu_mask (domain s d) = domain_bit d" "d < 32"
    using assms(1,3) by (auto simp: domains_ok_def MAX_DOMAINS_def)
  have e: "s2 = (upd_domain d (\<lambda>x. x\<lparr>use_count := use_count x + 1\<rparr>) s)\<lparr>
      pd_mask_wanted := pd_mask_wanted s OR domain_bit d,
      dev_refs := dev_refs s + (if use_count (domain s d) = 0 then 1 else 0)\<rparr>"
    using assms(5,6) d by (auto simp: mali_pm_domain_ref_get_def Let_def upd_domain_def domain_def split: if_splits)
  have dom: "(pm_domains s2 k \<noteq> None) = (pm_domains s k \<noteq> None)" for k
    using assms(3) by (simp add: e upd_domain_def)
  have at: "domain s2 k = (if k = d then (domain s d)\<lparr>use_count := use_count (domain s d) + 1\<rparr> else domain s k)" for k
    unfolding e by (simp add: upd_domain_def domain_def)
  have u: "used s2 k \<longleftrightarrow> used s k \<or> k = d" for k
    using assms(3,4) by (auto simp: used_def dom at simp del: not_None_eq)
  have "{k. used s2 k} = insert d {k. used s k}" using u by auto
  then have c: "card {k. used s2 k} = card {k. used s k} + (if use_count (domain s d) = 0 then 1 else 0)"
    using finite_used [OF assms(1)] assms(3) by (auto simp: card_insert_if used_def)
  have "refs_ok 0 s2"
    using assms(2) u c d(2) by (auto simp: refs_ok_def e bit_simps)
  moreover have "same_power s s2"
    using dom at by (simp add: same_power_def e)
  ultimately show ?thesis using at by simp
qed

lemma ref_put_ok:
  assumes "domains_ok s" and "refs_ok gone s" and "used s d" and "mali_pm_domain_ref_put d s = (s1, m)"
  shows "refs_ok (gone OR m) s1 \<and> same_power s s1 \<and>
    (\<forall>e. use_count (domain s1 e) = (if e = d then use_count (domain s d) - 1 else use_count (domain s e)))"
proof -
  let ?z = "use_count (domain s d) = 1"
  have d: "pmu_mask (domain s d) = domain_bit d" "d < 32" "pm_domains s d \<noteq> None" "use_count (domain s d) \<noteq> 0"
    using assms(1,3) by (auto simp: domains_ok_def MAX_DOMAINS_def used_def)
  have z: "use_count (domain s d) - 1 = 0 \<longleftrightarrow> ?z" by simp
  have e: "s1 = (upd_domain d (\<lambda>x. x\<lparr>use_count := use_count x - 1\<rparr>) s)\<lparr>dev_refs := dev_refs s - (if ?z then 1 else 0)\<rparr>"
    "m = (if ?z then domain_bit d else 0)"
    using assms(4) d by (auto simp: mali_pm_domain_ref_put_def Let_def upd_domain_def domain_def split: if_splits)
  have dom: "(pm_domains s1 k \<noteq> None) = (pm_domains s k \<noteq> None)" for k
    using d(3) by (simp add: e upd_domain_def)
  have at: "domain s1 k = (if k = d then (domain s d)\<lparr>use_count := use_count (domain s d) - 1\<rparr> else domain s k)" for k
    unfolding e by (simp add: upd_domain_def domain_def)
  have u: "used s1 k \<longleftrightarrow> used s k \<and> \<not> (k = d \<and> ?z)" for k
    using d(3,4) z by (auto simp: used_def dom at simp del: not_None_eq)
  have "{k. used s1 k} = {k. used s k} - (if ?z then {d} else {})" using u by auto
  then have c: "int (card {k. used s1 k}) = int (card {k. used s k}) - (if ?z then 1 else 0)"
    using finite_used [OF assms(1)] assms(3) card_gt_0_iff [of "{k. used s k}"]
    by (auto simp: card_Diff_singleton of_nat_diff Suc_le_eq)
  have "refs_ok (gone OR m) s1"
    using assms(2,3) u c d(2) by (auto simp: refs_ok_def e bit_simps)
  moreover have "same_power s s1"
    using dom at by (simp add: same_power_def e)
  ultimately show ?thesis using at by simp
qed

text \<open>Enough room for \<open>n d\<close> more references, and at least \<open>n d\<close> references held.\<close>

lemma get_loop_ok:
  assumes "get_refs_loop groups_on ds ret s = (s', r)" and "domains_ok s" and "refs_ok 0 s"
    and "\<And>d g. (d, g) \<in> set ds \<Longrightarrow> pm_domains s d \<noteq> None"
    and "\<And>d. unat (use_count (domain s d)) + count_list (map fst ds) d < 2 ^ 32"
  shows "refs_ok 0 s' \<and> same_power s s' \<and>
    (\<forall>d. unat (use_count (domain s' d)) = unat (use_count (domain s d)) + count_list (map fst ds) d) \<and>
    (r \<longleftrightarrow> ret \<and> (\<forall>(d, g) \<in> set ds. power_is_on (domain s d) \<and> (case g of Some k \<Rightarrow> groups_on k | None \<Rightarrow> True)))"
  using assms
proof (induction groups_on ds ret s arbitrary: s' r rule: get_refs_loop.induct)
  case (2 groups_on d g rest ret s)
  obtain s1 m where g: "mali_pm_domain_ref_get d s = (s1, m)" by fastforce
  define s2 where "s2 = s1\<lparr>pd_mask_wanted := pd_mask_wanted s1 OR m\<rparr>"
  define ret1 where "ret1 = (if \<not> power_is_on (domain s2 d) then False
    else if (case g of Some k \<Rightarrow> \<not> groups_on k | None \<Rightarrow> False) then False else ret)"
  have room: "unat (use_count (domain s d)) + 1 < 4294967296" using "2.prems"(5) [of d] by simp
  then have nz: "use_count (domain s d) + 1 \<noteq> 0"
    by (metis add_eq_0_iff_both_eq_0 unat_0 unat_1 unat_plus_u32 zero_neq_one)
  have dd: "pm_domains s d \<noteq> None" using "2.prems"(4) [of d g] by simp
  note k = ref_get_ok [OF "2.prems"(2,3) dd nz g s2_def]
  have u: "unat (use_count (domain s2 e)) = unat (use_count (domain s e)) + (if e = d then 1 else 0)" for e
    using k room by (simp add: unat_plus_u32)
  have rest: "get_refs_loop groups_on rest ret1 s2 = (s', r)"
    using "2.prems"(1) g unfolding get_refs_loop.simps by (simp add: Let_def s2_def ret1_def)
  have sp: "same_power s s2" using k by blast
  have "refs_ok 0 s' \<and> same_power s2 s' \<and>
    (\<forall>d. unat (use_count (domain s' d)) = unat (use_count (domain s2 d)) + count_list (map fst rest) d) \<and>
    (r \<longleftrightarrow> ret1 \<and> (\<forall>(d, g) \<in> set rest. power_is_on (domain s2 d) \<and> (case g of Some k \<Rightarrow> groups_on k | None \<Rightarrow> True)))"
  proof (rule "2.IH" [OF g [symmetric] refl s2_def [symmetric, THEN sym] ret1_def rest])
    show "domains_ok s2" using same_power_ok [OF sp] "2.prems"(2) by simp
    show "refs_ok 0 s2" using k by blast
    show "\<And>d g. (d, g) \<in> set rest \<Longrightarrow> pm_domains s2 d \<noteq> None"
      using sp "2.prems"(4) unfolding same_power_def by (metis list.set_intros(2))
    show "unat (use_count (domain s2 e)) + count_list (map fst rest) e < 2 ^ 32" for e
      using "2.prems"(5) [of e] by (cases "e = d") (simp_all add: u)
  qed
  moreover have "power_is_on (domain s2 e) = power_is_on (domain s e)" for e
    using sp by (simp add: same_power_def)
  ultimately show ?case
    using same_power_trans [OF sp, of s'] by (auto simp: u ret1_def split: option.splits if_splits)
qed (simp add: same_power_def)

lemma put_loop_ok:
  assumes "put_refs_loop ds gone s = (s', m)" and "domains_ok s" and "refs_ok gone s"
    and "\<And>d. d \<in> set ds \<Longrightarrow> pm_domains s d \<noteq> None"
    and "\<And>d. count_list ds d \<le> unat (use_count (domain s d))"
  shows "refs_ok m s' \<and> same_power s s' \<and>
    (\<forall>d. unat (use_count (domain s' d)) = unat (use_count (domain s d)) - count_list ds d)"
  using assms
proof (induction ds gone s arbitrary: s' m rule: put_refs_loop.induct)
  case (2 d ds gone s)
  obtain s1 m1 where g: "mali_pm_domain_ref_put d s = (s1, m1)" by fastforce
  have pos: "0 < unat (use_count (domain s d))" using "2.prems"(5) [of d] by simp
  then have ud: "used s d" using "2.prems"(4) [of d] by (auto simp: used_def)
  note k = ref_put_ok [OF "2.prems"(2,3) ud g]
  have u: "unat (use_count (domain s1 e)) = unat (use_count (domain s e)) - (if e = d then 1 else 0)" for e
    using k pos by (simp add: unat_minus_u32)
  have sp: "same_power s s1" using k by blast
  have "refs_ok m s' \<and> same_power s1 s' \<and>
    (\<forall>d. unat (use_count (domain s' d)) = unat (use_count (domain s1 d)) - count_list ds d)"
  proof (rule "2.IH" [OF g [symmetric] refl])
    show "put_refs_loop ds (gone OR m1) s1 = (s', m)" using "2.prems"(1) g by simp
    show "domains_ok s1" using same_power_ok [OF sp] "2.prems"(2) by simp
    show "refs_ok (gone OR m1) s1" using k by blast
    show "\<And>e. e \<in> set ds \<Longrightarrow> pm_domains s1 e \<noteq> None"
      using sp "2.prems"(4) unfolding same_power_def by (metis list.set_intros(2))
    show "count_list ds e \<le> unat (use_count (domain s1 e))" for e
      using "2.prems"(5) [of e] pos by (cases "e = d") (auto simp: u)
  qed
  then show ?case using same_power_trans [OF sp, of s'] by (auto simp: u)
qed (simp add: same_power_def)

lemma put_refs_ok:
  assumes p: "mali_pm_put_domain_refs ds s = (s', r)" and d: "domains_ok s" and o: "refs_ok 0 s"
    and e: "\<forall>d \<in> set ds. pm_domains s d \<noteq> None"
    and c: "\<forall>d. count_list ds d \<le> unat (use_count (domain s d))"
  shows "refs_ok 0 s' \<and> same_power s s' \<and>
    (\<forall>d. unat (use_count (domain s' d)) = unat (use_count (domain s d)) - count_list ds d) \<and>
    (r \<longleftrightarrow> (\<exists>d. used s d \<and> \<not> used s' d))"
proof -
  obtain s1 m where l: "put_refs_loop ds 0 s = (s1, m)" by fastforce
  have k: "refs_ok m s1 \<and> same_power s s1 \<and>
    (\<forall>d. unat (use_count (domain s1 d)) = unat (use_count (domain s d)) - count_list ds d)"
    using put_loop_ok [OF l d o] e c by blast
  have m: "bit m i \<longleftrightarrow> bit (pd_mask_wanted s1) i \<and> \<not> used s1 i" for i
    using k by (auto simp: refs_ok_def)
  have same_w: "pd_mask_wanted s1 = pd_mask_wanted s"
  proof -
    have "pd_mask_wanted (fst (put_refs_loop xs a t)) = pd_mask_wanted t" for xs a t
      by (induction xs a t rule: put_refs_loop.induct)
        (auto simp: mali_pm_domain_ref_put_def Let_def upd_domain_def split: prod.splits)
    from this [of ds 0 s] l show ?thesis by simp
  qed
  show ?thesis
  proof (cases "m = 0")
    case True
    then have s': "s' = s1" "\<not> r" using p l by (simp_all add: mali_pm_put_domain_refs_def)
    have "\<not> (\<exists>d. used s d \<and> \<not> used s' d)"
      using m True o same_w by (auto simp: refs_ok_def s')
    with k True s' show ?thesis by simp
  next
    case False
    then have s': "s' = s1\<lparr>pd_mask_wanted := pd_mask_wanted s1 AND NOT m\<rparr>" r
      using p l by (simp_all add: mali_pm_put_domain_refs_def)
    have us: "used s' = used s1" by (simp add: s' fun_eq_iff used_def domain_def)
    have ref: "refs_ok 0 s'"
      using k bit_imp_le_length [of m] bit_imp_le_length [of "pd_mask_wanted s1"]
      by (auto simp: refs_ok_def us) (auto simp: s' bit_simps)
    have sp: "same_power s s'" using k by (simp add: same_power_def s' domain_def)
    have cnt: "\<forall>d. unat (use_count (domain s' d)) = unat (use_count (domain s d)) - count_list ds d"
      using k by (simp add: s' domain_def)
    obtain i where i: "bit m i" using False by (auto simp: bit_eq_iff)
    then have "bit (pd_mask_wanted s) i" "\<not> used s' i" using m same_w us by simp_all
    moreover from this(1) have "used s i" using o by (simp add: refs_ok_def)
    ultimately have "\<exists>d. used s d \<and> \<not> used s' d" by blast
    then show ?thesis using ref sp cnt s'(2) by blast
  qed
qed

lemma get_refs_ok:
  assumes g: "mali_pm_get_domain_refs groups_on ds s = (s', r)" and ok: "domains_ok s" "refs_ok 0 s"
    and e: "\<forall>(d, g) \<in> set ds. pm_domains s d \<noteq> None"
    and c: "\<forall>d. unat (use_count (domain s d)) + count_list (map fst ds) d < 2 ^ 32"
  shows "refs_ok 0 s'" "same_power s s'"
    "unat (use_count (domain s' d)) = unat (use_count (domain s d)) + count_list (map fst ds) d"
    "r \<longleftrightarrow> (\<forall>(d, g) \<in> set ds. power_is_on (domain s d) \<and> (case g of Some k \<Rightarrow> groups_on k | None \<Rightarrow> True))"
proof -
  have "\<And>d g. (d, g) \<in> set ds \<Longrightarrow> pm_domains s d \<noteq> None" using e by blast
  note l = get_loop_ok [OF g [unfolded mali_pm_get_domain_refs_def] ok this]
  show "refs_ok 0 s'" "same_power s s'"
    "unat (use_count (domain s' d)) = unat (use_count (domain s d)) + count_list (map fst ds) d"
    "r \<longleftrightarrow> (\<forall>(d, g) \<in> set ds. power_is_on (domain s d) \<and> (case g of Some k \<Rightarrow> groups_on k | None \<Rightarrow> True))"
    using l c by simp_all
qed

section \<open>The updates keep the invariant\<close>

lemma set_power_simps [simp]:
  "pd_mask_wanted (set_power on m s) = pd_mask_wanted s" "pd_mask_current (set_power on m s) = pd_mask_current s"
  "pmu_mask_current (set_power on m s) = pmu_mask_current s" "dev_refs (set_power on m s) = dev_refs s"
  "runtime_active (set_power on m s) = runtime_active s"
  "pm_log (set_power on m s) = pm_log s"
  "domain (set_power on m s) d = (if bit m d then (domain s d)\<lparr>power_is_on := on\<rparr> else domain s d)"
  by (simp_all add: set_power_def domain_def)

lemma set_power_exists:
  "(\<And>d. bit m d \<Longrightarrow> pm_domains s d \<noteq> None) \<Longrightarrow> (pm_domains (set_power on m s) d \<noteq> None) = (pm_domains s d \<noteq> None)"
  by (auto simp: set_power_def)

lemma power_up_eq:
  "mali_pm_domain_power_up m s = (set_power True m (s\<lparr>pd_mask_current := pd_mask_current s OR m\<rparr>),
     concat (map (\<lambda>d. group_list (domain s d)) (bits_of m)), concat (map (\<lambda>d. l2_cache_list (domain s d)) (bits_of m)))"
  by (simp add: mali_pm_domain_power_up_def power_loop_eq domain_def)

lemma power_down_eq:
  "mali_pm_domain_power_down m s = (set_power False m (s\<lparr>pd_mask_current := pd_mask_current s AND NOT m\<rparr>),
     concat (map (\<lambda>d. group_list (domain s d)) (bits_of m)), concat (map (\<lambda>d. l2_cache_list (domain s d)) (bits_of m)))"
  by (simp add: mali_pm_domain_power_down_def power_loop_eq domain_def)

definition up_mask :: "pm \<Rightarrow> u32" where
  "up_mask s = (let m = pd_mask_wanted s AND NOT (pd_mask_current s) in if m = 0 then 0 else m OR DUMMY_MASK)"

definition down_mask :: "pm \<Rightarrow> u32" where
  "down_mask s = pd_mask_current s AND NOT (pd_mask_wanted s) AND NOT DUMMY_MASK"

definition up_log :: "pm \<Rightarrow> pm_event list" where
  "up_log s = (let m = up_mask s; p = m AND NOT DUMMY_MASK AND NOT (pmu_mask_current s) in
     if m = 0 then []
     else (if p = 0 then [] else [PmuUp p]) @
          map L2Up (concat (map (\<lambda>d. l2_cache_list (domain s d)) (bits_of m))) @
          [GroupsUp (concat (map (\<lambda>d. group_list (domain s d)) (bits_of m)))])"

lemma xor_masks: "(w :: u32) AND (w XOR c) = w AND NOT c" "c AND (w XOR c) AND NOT d = c AND NOT w AND NOT d"
  by (auto simp: bit_eq_iff bit_simps)

lemma pmu_up_mask:
  "((u :: u32) AND NOT d) AND ((u XOR p) AND u) = u AND NOT d AND NOT p"
  "p OR (u AND NOT d AND NOT p) = p OR (u AND NOT d)"
  by (auto simp: bit_eq_iff bit_simps)

lemma update_power_up_eq:
  "update_power_up s = (set_power True (up_mask s) (s\<lparr>pd_mask_current := pd_mask_current s OR up_mask s,
     pmu_mask_current := pmu_mask_current s OR (up_mask s AND NOT DUMMY_MASK)\<rparr>))\<lparr>pm_log := pm_log s @ up_log s\<rparr>"
proof (cases "pd_mask_wanted s AND NOT (pd_mask_current s) = 0")
  case True
  then show ?thesis by (simp add: update_power_up_def xor_masks up_mask_def up_log_def set_power_def)
next
  case False
  define u where "u = pd_mask_wanted s AND NOT (pd_mask_current s) OR DUMMY_MASK"
  have m: "up_mask s = u" using False by (simp add: up_mask_def u_def)
  have "u \<noteq> 0"
  proof
    assume "u = 0"
    then have "\<not> bit u DOMAIN_DUMMY" by simp
    then show False by (simp add: u_def bit_or_iff)
  qed
  define p where "p = u AND NOT DUMMY_MASK AND NOT (pmu_mask_current s)"
  have f: "(u AND NOT DUMMY_MASK) AND ((u XOR pmu_mask_current s) AND u) = p"
    unfolding p_def by (rule pmu_up_mask(1))
  have q: "pmu_mask_current s OR p = pmu_mask_current s OR (u AND NOT DUMMY_MASK)"
    unfolding p_def by (rule pmu_up_mask(2))
  show ?thesis
  proof (cases "p = 0")
    case True
    then have q': "pmu_mask_current s OR (u AND NOT DUMMY_MASK) = pmu_mask_current s" using q by simp
    show ?thesis
      using False True \<open>u \<noteq> 0\<close> unfolding update_power_up_def xor_masks
      by (simp add: m Let_def f power_up_eq fold_log pm_event_def up_log_def q' set_power_def
          cong: if_cong flip: u_def p_def)
  next
    case p: False
    show ?thesis
      using False p \<open>u \<noteq> 0\<close> unfolding update_power_up_def xor_masks
      by (simp add: m Let_def f power_up_eq fold_log pm_event_def up_log_def q set_power_def
          cong: if_cong flip: u_def p_def)
  qed
qed

definition down_log :: "pm \<Rightarrow> pm_event list" where
  "down_log s = (let m = down_mask s; g = concat (map (\<lambda>d. group_list (domain s d)) (bits_of m));
       p = pmu_mask_current s AND NOT (pd_mask_current s AND NOT m) in
     (if g = [] then [] else [GroupsDown g]) @
     map L2Down (concat (map (\<lambda>d. l2_cache_list (domain s d)) (bits_of m))) @
     (if p = 0 then [] else [PmuDown p]))"

lemma pmu_follow_eq:
  "pmu_follow s = s\<lparr>pmu_mask_current := pmu_mask_current s AND pd_mask_current s,
     pm_log := pm_log s @ (let p = pmu_mask_current s AND NOT (pd_mask_current s) in if p = 0 then [] else [PmuDown p])\<rparr>"
proof -
  have "pmu_mask_current s AND NOT (pmu_mask_current s AND NOT (pd_mask_current s)) =
      pmu_mask_current s AND pd_mask_current s"
    by (auto simp: bit_eq_iff bit_simps)
  moreover have "pmu_mask_current s AND pd_mask_current s = pmu_mask_current s"
    if "pmu_mask_current s AND NOT (pd_mask_current s) = 0"
    using that by (auto simp: bit_eq_iff bit_simps)
  ultimately show ?thesis by (auto simp: pmu_follow_def pm_event_def Let_def)
qed

lemma update_power_down_eq:
  "update_power_down s = (set_power False (down_mask s)
     (s\<lparr>pd_mask_current := pd_mask_current s AND NOT (down_mask s),
        pmu_mask_current := pmu_mask_current s AND (pd_mask_current s AND NOT (down_mask s))\<rparr>))
     \<lparr>pm_log := pm_log s @ down_log s\<rparr>"
proof (cases "down_mask s = 0")
  case True
  then have "pd_mask_current s AND (pd_mask_wanted s XOR pd_mask_current s) AND NOT DUMMY_MASK = 0"
    by (simp add: xor_masks down_mask_def)
  then show ?thesis
    using True by (simp add: update_power_down_def pmu_follow_eq down_log_def set_power_def Let_def bits_of_def)
next
  case False
  then show ?thesis
    unfolding update_power_down_def xor_masks down_mask_def [symmetric]
    by (simp add: Let_def power_down_eq fold_log pm_event_def pmu_follow_eq down_log_def set_power_def
        cong: if_cong)
qed

lemma refs_only:
  assumes "\<And>d. used s' d = used s d" and "pd_mask_wanted s' = pd_mask_wanted s" and "dev_refs s' = dev_refs s"
  shows "refs_ok g s' = refs_ok g s"
  by (simp add: refs_ok_def assms)

lemma used_set_power:
  assumes "\<forall>d. bit m d \<longrightarrow> pm_domains s d \<noteq> None"
  shows "used (set_power on m s) d = used s d"
    "powered (set_power on m s) d = (if bit m d then on else powered s d)"
    "domains_ok (set_power on m s) = domains_ok s"
  using assms set_power_exists [of m s on]
  by (auto simp: used_def powered_def domains_ok_def simp del: not_None_eq)

lemma state_fields [simp]:
  "used (s\<lparr>pd_mask_current := a\<rparr>) = used s" "used (s\<lparr>pmu_mask_current := a\<rparr>) = used s"
  "used (s\<lparr>pm_log := l\<rparr>) = used s" "used (s\<lparr>runtime_active := b\<rparr>) = used s"
  "powered (s\<lparr>pd_mask_current := a\<rparr>) = powered s" "powered (s\<lparr>pmu_mask_current := a\<rparr>) = powered s"
  "powered (s\<lparr>pm_log := l\<rparr>) = powered s" "powered (s\<lparr>runtime_active := b\<rparr>) = powered s"
  "domains_ok (s\<lparr>pd_mask_current := a\<rparr>) = domains_ok s" "domains_ok (s\<lparr>pmu_mask_current := a\<rparr>) = domains_ok s"
  "domains_ok (s\<lparr>pm_log := l\<rparr>) = domains_ok s" "domains_ok (s\<lparr>runtime_active := b\<rparr>) = domains_ok s"
  by (simp_all add: used_def powered_def domains_ok_def fun_eq_iff)

lemma exists_bits:
  assumes "pm_ok s"
  shows "bit (pd_mask_wanted s) d \<Longrightarrow> pm_domains s d \<noteq> None" "bit (pd_mask_current s) d \<Longrightarrow> pm_domains s d \<noteq> None"
    "bit (up_mask s) d \<Longrightarrow> pm_domains s d \<noteq> None" "bit (down_mask s) d \<Longrightarrow> pm_domains s d \<noteq> None"
  using assms
  by (auto simp: pm_ok_def refs_ok_def power_ok_def used_def powered_def domains_ok_def up_mask_def down_mask_def
      Let_def bit_simps split: if_splits simp del: not_None_eq)

lemma domain_lt: "domains_ok s \<Longrightarrow> pm_domains s d \<noteq> None \<Longrightarrow> d \<noteq> DOMAIN_DUMMY \<Longrightarrow> d < DOMAIN_DUMMY"
  by (auto simp: domains_ok_def DOMAIN_DUMMY_def MAX_DOMAINS_def)

lemma update_power_up_ok:
  assumes ok: "pm_ok s"
  shows "pm_ok (update_power_up s)" and "used (update_power_up s) d = used s d"
    and "powered (update_power_up s) d \<longleftrightarrow> powered s d \<or> bit (up_mask s) d"
proof -
  let ?s = "update_power_up s"
  note ex = exists_bits(3) [OF ok]
  let ?t = "s\<lparr>pd_mask_current := pd_mask_current s OR up_mask s,
     pmu_mask_current := pmu_mask_current s OR (up_mask s AND NOT DUMMY_MASK)\<rparr>"
  have ext: "\<forall>d. bit (up_mask s) d \<longrightarrow> pm_domains ?t d \<noteq> None" using ex by simp
  have u: "used ?s d = used s d" for d
    unfolding update_power_up_eq using used_set_power(1) [OF ext, of True] by simp
  have p: "powered ?s d \<longleftrightarrow> powered s d \<or> bit (up_mask s) d" for d
    unfolding update_power_up_eq using used_set_power(2) [OF ext, of True] by simp
  show "used ?s d = used s d" "powered ?s d \<longleftrightarrow> powered s d \<or> bit (up_mask s) d" by (rule u, rule p)
  have "domains_ok ?s"
    unfolding update_power_up_eq using used_set_power(3) [OF ext, of True] ok by (simp add: pm_ok_def)
  moreover have "refs_ok 0 ?s"
    using refs_only [OF u, of 0] ok by (simp add: update_power_up_eq pm_ok_def)
  moreover have "power_ok ?s"
  proof -
    have "d < DOMAIN_DUMMY" if "bit (up_mask s) d" "d \<noteq> DOMAIN_DUMMY" for d
      using domain_lt [OF _ ex [OF that(1)] that(2)] ok by (simp add: pm_ok_def)
    moreover have "power_ok s" using ok by (simp add: pm_ok_def)
    ultimately show ?thesis
      using bit_imp_le_length [of "up_mask s"]
      unfolding power_ok_def p by (auto simp: update_power_up_eq bit_simps)
  qed
  ultimately show "pm_ok ?s" by (simp add: pm_ok_def)
qed

lemma update_power_down_ok:
  assumes ok: "pm_ok s"
  shows "pm_ok (update_power_down s)" and "used (update_power_down s) d = used s d"
    and "powered (update_power_down s) d \<longleftrightarrow> powered s d \<and> \<not> bit (down_mask s) d"
    and "settled (update_power_down s)"
proof -
  let ?s = "update_power_down s"
  note ex = exists_bits(4) [OF ok]
  let ?t = "s\<lparr>pd_mask_current := pd_mask_current s AND NOT (down_mask s),
        pmu_mask_current := pmu_mask_current s AND (pd_mask_current s AND NOT (down_mask s))\<rparr>"
  have ext: "\<forall>d. bit (down_mask s) d \<longrightarrow> pm_domains ?t d \<noteq> None" using ex by simp
  have u: "used ?s d = used s d" for d
    unfolding update_power_down_eq using used_set_power(1) [OF ext, of False] by simp
  have p: "powered ?s d \<longleftrightarrow> powered s d \<and> \<not> bit (down_mask s) d" for d
    unfolding update_power_down_eq using used_set_power(2) [OF ext, of False] by simp
  show "used ?s d = used s d" "powered ?s d \<longleftrightarrow> powered s d \<and> \<not> bit (down_mask s) d" by (rule u, rule p)
  have "domains_ok ?s"
    unfolding update_power_down_eq using used_set_power(3) [OF ext, of False] ok by (simp add: pm_ok_def)
  moreover have "refs_ok 0 ?s"
    using refs_only [OF u, of 0] ok by (simp add: update_power_down_eq pm_ok_def)
  moreover have po: "power_ok s" using ok by (simp add: pm_ok_def)
  then have "power_ok ?s"
    using bit_imp_le_length [of "pd_mask_current s"]
    unfolding power_ok_def p by (auto simp: update_power_down_eq bit_simps)
  ultimately show "pm_ok ?s" by (simp add: pm_ok_def)
  have "bit (pmu_mask_current ?s) d \<longleftrightarrow> bit (pd_mask_current ?s) d \<and> d \<noteq> DOMAIN_DUMMY" for d
    using po bit_imp_le_length [of "pd_mask_current s" d]
    by (auto simp: update_power_down_eq power_ok_def bit_simps)
  then show "settled ?s"
    using bit_imp_le_length [of "pd_mask_current ?s"]
    by (auto simp: settled_def bit_eq_iff bit_simps)
qed

lemma common_suspend_eq:
  "mali_pm_common_suspend s =
     (if pd_mask_wanted s \<noteq> 0 then (s, False)
      else let m = pd_mask_current s; g = concat (map (\<lambda>d. group_list (domain s d)) (bits_of m)) in
        if m = 0 then (s, True)
        else ((set_power False m (s\<lparr>pd_mask_current := 0, pmu_mask_current := 0\<rparr>))\<lparr>pm_log := pm_log s @
               (if g = [] then [] else [GroupsDown g]) @
               map L2Down (concat (map (\<lambda>d. l2_cache_list (domain s d)) (bits_of m)))\<rparr>, True))"
  by (simp add: mali_pm_common_suspend_def power_down_eq fold_log pm_event_def Let_def set_power_def
      cong: if_cong)

lemma common_suspend_ok:
  assumes ok: "pm_ok s" and c: "mali_pm_common_suspend s = (s', True)" and t: "settled s"
  shows "pm_ok s'" "pd_mask_wanted s' = 0" "pd_mask_current s' = 0" "pmu_mask_current s' = 0"
    "mali_pm_domain_all_unused s'" "runtime_active s' = runtime_active s" "used s' d = used s d"
proof -
  have w: "pd_mask_wanted s = 0" using c by (auto simp: common_suspend_eq split: if_splits)
  let ?m = "pd_mask_current s"
  let ?t = "s\<lparr>pd_mask_current := 0, pmu_mask_current := 0\<rparr>"
  obtain l where s': "s' = (set_power False ?m ?t)\<lparr>pm_log := l\<rparr>"
  proof (cases "?m = 0")
    case True
    then have "pmu_mask_current s = 0" using t by (simp add: settled_def)
    then have "s' = (set_power False ?m ?t)\<lparr>pm_log := pm_log s\<rparr>"
      using c w True by (simp add: common_suspend_eq set_power_def)
    then show thesis by (rule that)
  qed (use c w in \<open>auto simp: common_suspend_eq Let_def intro: that\<close>)
  have ext: "\<forall>d. bit ?m d \<longrightarrow> pm_domains ?t d \<noteq> None" using exists_bits(2) [OF ok] by simp
  have u: "used s' d = used s d" for d unfolding s' using used_set_power(1) [OF ext, of False] by simp
  have p: "\<not> powered s' d" for d
    unfolding s' using used_set_power(2) [OF ext, of False d] ok by (auto simp: pm_ok_def power_ok_def)
  show "used s' d = used s d" by (rule u)
  show f: "pd_mask_wanted s' = 0" "pd_mask_current s' = 0" "pmu_mask_current s' = 0"
    "runtime_active s' = runtime_active s"
    by (simp_all add: s' w)
  have "domains_ok s'" unfolding s' using used_set_power(3) [OF ext, of False] ok by (simp add: pm_ok_def)
  moreover have r: "refs_ok 0 s'"
    using refs_only [of s' s 0] u ok by (simp add: s' pm_ok_def)
  ultimately show "pm_ok s'" using p by (simp add: pm_ok_def power_ok_def f)
  have "\<not> used s' d" for d using r f(1) by (simp add: refs_ok_def)
  then have "\<not> power_is_on x \<and> use_count x = 0" if "pm_domains s' i = Some x" for i x
    using p that unfolding used_def powered_def domain_def by (metis option.distinct(1) option.sel)
  then show "mali_pm_domain_all_unused s'"
    by (simp add: mali_pm_domain_all_unused_def list_all_iff split: option.split)
qed

end
