(* ===== verification/PM_Reach.thy ===== *)
theory PM_Reach
  imports PM_Domains
begin

text \<open>
  Power management as a transition system, and its properties: references are taken and given
  back at any time, also between the two halves of an update, which gives up the state lock
  there.
\<close>

section \<open>Power management as a transition system\<close>

text \<open>The state is paired with a flag that tells whether an update has given up the state lock
  between its halves: references can be taken and given back there, but only the thread that
  holds the execution lock goes on with the update. A caller gives back references that are held.\<close>

inductive pm_step :: "pm \<times> bool \<Rightarrow> pm \<times> bool \<Rightarrow> bool" where
  get: "mali_pm_get_domain_refs groups_on ds s = (s', r) \<Longrightarrow> (\<forall>(d, g) \<in> set ds. pm_domains s d \<noteq> None) \<Longrightarrow>
     (\<forall>d. unat (use_count (domain s d)) + count_list (map fst ds) d < 2 ^ 32) \<Longrightarrow> pm_step (s, u) (s', u)"
| put: "mali_pm_put_domain_refs ds s = (s', r) \<Longrightarrow> (\<forall>d \<in> set ds. pm_domains s d \<noteq> None) \<Longrightarrow>
     (\<forall>d. count_list ds d \<le> unat (use_count (domain s d))) \<Longrightarrow> pm_step (s, u) (s', u)"
| update: "runtime_active s \<Longrightarrow> pm_step (s, False) (update_power_up s, True)"
| finish: "pm_step (s, True) (update_power_down s, False)"
| runtime_suspend: "runtime_active s \<Longrightarrow> mali_pm_common_suspend s = (s', True) \<Longrightarrow>
     pm_step (s, False) (s'\<lparr>runtime_active := False\<rparr>, False)"
| os_suspend: "mali_pm_common_suspend s = (s', True) \<Longrightarrow> pm_step (s, False) (s', False)"
| resume: "pd_mask_current s = 0 \<Longrightarrow> (\<forall>m d. pmu = Some m \<longrightarrow> bit m d \<longrightarrow> d < DOMAIN_DUMMY) \<Longrightarrow>
     pm_step (s, False) (update_power_up (pmu_resume pmu (s\<lparr>runtime_active := True\<rparr>)), True)"
| register_group: "mali_pm_register_group i g s = (s', d) \<Longrightarrow> pm_step (s, u) (s', u)"
| register_l2: "mali_pm_register_l2_cache i l s = (s', d) \<Longrightarrow> pm_step (s, u) (s', u)"

text \<open>Nothing is powered and no domain exists before the domains are created.\<close>

definition pm_boot :: "16 word list \<Rightarrow> bool \<Rightarrow> pm" where
  "pm_boot config active = \<lparr>domain_config = config, pm_domains = (\<lambda>_. None), pd_mask_wanted = 0,
     pd_mask_current = 0, pmu_mask_current = 0, runtime_active = active, dev_refs = 0, pm_log = []\<rparr>"

text \<open>Every entry of a configuration is zero or the mask of one of the domains, the last one that of the
  dummy.\<close>

definition config_ok :: "16 word list \<Rightarrow> bool" where
  "config_ok c \<longleftrightarrow> length c = MAX_DOMAINS \<and> ucast (c ! DOMAIN_DUMMY) = DUMMY_MASK \<and>
     (\<forall>i < MAX_DOMAINS. c ! i = 0 \<or> (\<exists>d < MAX_DOMAINS. ucast (c ! i) = domain_bit d))"

inductive pm_reachable :: "pm \<times> bool \<Rightarrow> bool" where
  init: "config_ok config \<Longrightarrow> mali_pm_create_pm_domains ok (pm_boot config active) = (s, ERR_OK) \<Longrightarrow>
     pm_reachable (s, False)"
| step: "pm_reachable x \<Longrightarrow> pm_step x y \<Longrightarrow> pm_reachable y"

inductive_simps pm_step_simps: "pm_step (s, u) (s', u')"

lemma domain_bit_nonzero: "d < 32 \<Longrightarrow> domain_bit d \<noteq> 0"
  by (metis bit_0_eq bit_domain_bit bot_apply bot_bool_def)

lemma fls_bit: "d < 32 \<Longrightarrow> mali_osk_fls (domain_bit d) = d + 1"
  using fls_bits [of "domain_bit d"] domain_bit_nonzero [of d]
  by (metis Suc_diff_1 Suc_eq_plus1 bit_domain_bit not_gr_zero)

definition new_domain :: "nat \<Rightarrow> pm_domain" where
  "new_domain d = \<lparr>power_is_on = False, use_count = 0, pmu_mask = domain_bit d, group_list = [], l2_cache_list = []\<rparr>"

definition only_new :: "pm \<Rightarrow> bool" where
  "only_new s \<longleftrightarrow> (\<forall>d x. pm_domains s d = Some x \<longrightarrow> d < MAX_DOMAINS \<and> x = new_domain d)"

text \<open>Only domains are added.\<close>

definition adds_domains :: "pm \<Rightarrow> pm \<Rightarrow> bool" where
  "adds_domains s s' \<longleftrightarrow> domain_config s' = domain_config s \<and> pd_mask_wanted s' = pd_mask_wanted s \<and>
     pd_mask_current s' = pd_mask_current s \<and> pmu_mask_current s' = pmu_mask_current s \<and>
     dev_refs s' = dev_refs s \<and> (\<forall>d. pm_domains s d \<noteq> None \<longrightarrow> pm_domains s' d \<noteq> None)"

lemma adds_domains_trans: "adds_domains s s1 \<Longrightarrow> adds_domains s1 s2 \<Longrightarrow> adds_domains s s2"
  by (simp add: adds_domains_def)

lemma create_one:
  assumes d: "d < MAX_DOMAINS" and o: "only_new s" and m: "mali_pm_domain_create b0 (domain_bit d) s = (s1, b)"
  shows "only_new s1 \<and> adds_domains s s1 \<and> (b \<longrightarrow> pm_domains s1 d \<noteq> None)"
proof -
  have l: "mali_osk_fls (domain_bit d) - 1 = d" "domain_bit d \<noteq> 0"
    using fls_bit [of d] domain_bit_nonzero [of d] d by (simp_all add: MAX_DOMAINS_def)
  then have g: "mali_pm_domain_get_from_mask (domain_bit d) s = pm_domains s d"
    by (auto simp: mali_pm_domain_get_from_mask_def)
  have "s1 = (if pm_domains s d \<noteq> None \<or> \<not> b0 then s
      else s\<lparr>pm_domains := (pm_domains s)(d \<mapsto> new_domain d)\<rparr>)" "b \<longleftrightarrow> pm_domains s d \<noteq> None \<or> b0"
    using m l(1) unfolding mali_pm_domain_create_def g new_domain_def by (auto split: if_splits)
  then show ?thesis using o d by (simp add: only_new_def adds_domains_def)
qed

lemma created:
  assumes "config_ok (domain_config s)" and "create_domains ok is s = (s', e)" and "set is \<subseteq> {..< MAX_DOMAINS}"
    and "only_new s"
  shows "only_new s' \<and> adds_domains s s' \<and>
         (e = ERR_OK \<longrightarrow> (\<forall>i \<in> set is. \<forall>d < MAX_DOMAINS. ucast (domain_config s ! i) = domain_bit d \<longrightarrow>
            pm_domains s' d \<noteq> None))"
  using assms
proof (induction ok "is" s arbitrary: s' e rule: create_domains.induct)
  case (2 ok i "is" s)
  let ?c = "domain_config s"
  show ?case
  proof (cases "?c ! i = 0")
    case True
    have "ucast (?c ! i) \<noteq> domain_bit d" if "d < MAX_DOMAINS" for d
      using domain_bit_nonzero [of d] that True by (auto simp: MAX_DOMAINS_def)
    with "2.IH"(1) "2.prems" True show ?thesis by simp
  next
    case False
    then obtain d where d: "d < MAX_DOMAINS" "ucast (?c ! i) = domain_bit d"
      using "2.prems"(1,3) by (auto simp: config_ok_def)
    obtain s1 b where m: "mali_pm_domain_create (ok i) (domain_bit d) s = (s1, b)" by fastforce
    note s1 = create_one [OF d(1) "2.prems"(4) m]
    have other: "k = d" if "ucast (?c ! i) = domain_bit k" "k < MAX_DOMAINS" for k
    proof -
      have "domain_bit d = domain_bit k" using that(1) d(2) by simp
      moreover have "bit (domain_bit k) k" using that(2) by (simp add: MAX_DOMAINS_def)
      ultimately have "bit (domain_bit d) k" by metis
      then show ?thesis by simp
    qed
    show ?thesis
    proof (cases b)
      case True
      have c1: "domain_config s1 = ?c" using s1 by (simp add: adds_domains_def)
      have r: "create_domains ok is s1 = (s', e)" using "2.prems"(2) False m True d(2) by simp
      have "only_new s' \<and> adds_domains s1 s' \<and>
          (e = ERR_OK \<longrightarrow> (\<forall>i \<in> set is. \<forall>d < MAX_DOMAINS. ucast (?c ! i) = domain_bit d \<longrightarrow> pm_domains s' d \<noteq> None))"
        unfolding c1 [symmetric]
      proof (rule "2.IH"(2))
        show "0 \<noteq> ?c ! i" using False by simp
        show "(s1, True) = mali_pm_domain_create (ok i) (ucast (?c ! i)) s" using m True d(2) by simp
      qed (use r "2.prems"(1,3) s1 c1 in simp_all)
      then show ?thesis
        using s1 True other adds_domains_trans [of s s1 s'] by (auto simp: adds_domains_def)
    next
      case False
      then have "s' = s1" "e = ERR_NOMEM" using "2.prems"(2) m d(2) \<open>?c ! i \<noteq> 0\<close> by simp_all
      then show ?thesis using s1 by simp
    qed
  qed
qed (simp add: only_new_def adds_domains_def)

lemma boot_ok:
  assumes c: "config_ok config" and m: "mali_pm_create_pm_domains ok (pm_boot config active) = (s, ERR_OK)"
  shows "pm_ok s" "settled s" "domain_config s = config" "\<not> used s d" "\<not> powered s d"
    "i < MAX_DOMAINS \<Longrightarrow> d < MAX_DOMAINS \<Longrightarrow> ucast (config ! i) = domain_bit d \<Longrightarrow> pm_domains s d \<noteq> None"
proof -
  let ?b = "pm_boot config active"
  have "config_ok (domain_config ?b)" "only_new ?b" using c by (simp_all add: pm_boot_def only_new_def)
  moreover have "set [0 ..< MAX_DOMAINS] \<subseteq> {..< MAX_DOMAINS}" by auto
  ultimately have "only_new s \<and> adds_domains ?b s \<and> (ERR_OK = ERR_OK \<longrightarrow> (\<forall>i \<in> set [0 ..< MAX_DOMAINS].
      \<forall>d < MAX_DOMAINS. ucast (domain_config ?b ! i) = domain_bit d \<longrightarrow> pm_domains s d \<noteq> None))"
    using m unfolding mali_pm_create_pm_domains_def by (intro created)
  then
  have k: "only_new s" "adds_domains ?b s"
    "\<forall>i < MAX_DOMAINS. \<forall>d < MAX_DOMAINS. ucast (config ! i) = domain_bit d \<longrightarrow> pm_domains s d \<noteq> None"
    by (auto simp: pm_boot_def)
  have u: "\<not> used s d" "\<not> powered s d" for d
  proof -
    have "pm_domains s d = None \<or> domain s d = new_domain d"
      using k(1) by (cases "pm_domains s d") (auto simp: only_new_def domain_def)
    then show "\<not> used s d" "\<not> powered s d" by (auto simp: used_def powered_def new_domain_def)
  qed
  show "\<not> used s d" "\<not> powered s d" "domain_config s = config" using u k(2) by (simp_all add: adds_domains_def pm_boot_def)
  have "pm_domains s DOMAIN_DUMMY \<noteq> None"
  proof -
    have "DOMAIN_DUMMY < MAX_DOMAINS" by (simp add: DOMAIN_DUMMY_def MAX_DOMAINS_def)
    moreover have "ucast (config ! DOMAIN_DUMMY) = domain_bit DOMAIN_DUMMY"
      using c by (simp add: config_ok_def DUMMY_MASK_def)
    ultimately show ?thesis using k(3) by blast
  qed
  moreover have "pm_domains s d \<noteq> None \<longrightarrow> d < MAX_DOMAINS \<and> pmu_mask (domain s d) = domain_bit d" for d
  proof (cases "pm_domains s d")
    case (Some x)
    then have "d < MAX_DOMAINS" "x = new_domain d" using k(1) unfolding only_new_def by blast+
    with Some show ?thesis by (simp add: domain_def new_domain_def)
  qed simp
  ultimately have "domains_ok s" unfolding domains_ok_def by blast
  then show "pm_ok s" using u k(2) by (simp add: pm_ok_def refs_ok_def power_ok_def adds_domains_def pm_boot_def)
  show "settled s" using k(2) by (simp add: settled_def adds_domains_def pm_boot_def)
  show "pm_domains s d \<noteq> None" if "i < MAX_DOMAINS" "d < MAX_DOMAINS" "ucast (config ! i) = domain_bit d"
    using k(3) that by blast
qed

lemma add_to_domain_ok:
  assumes "pm_ok s" and "pm_domains s d \<noteq> None"
    and "\<And>x. use_count (f x) = use_count x \<and> power_is_on (f x) = power_is_on x \<and> pmu_mask (f x) = pmu_mask x"
  shows "pm_ok (upd_domain d f s)" "settled (upd_domain d f s) = settled s" "used (upd_domain d f s) = used s"
    "powered (upd_domain d f s) = powered s"
proof -
  let ?s = "upd_domain d f s"
  have x: "(pm_domains ?s k \<noteq> None) = (pm_domains s k \<noteq> None)" for k using assms(2) by (rule upd_domain_simps)
  have at: "use_count (domain ?s k) = use_count (domain s k)" "power_is_on (domain ?s k) = power_is_on (domain s k)"
    "pmu_mask (domain ?s k) = pmu_mask (domain s k)" for k by (simp_all add: assms(3))
  show u: "used ?s = used s" "powered ?s = powered s"
    unfolding fun_eq_iff used_def powered_def x at by simp_all
  have "domains_ok ?s = domains_ok s" unfolding domains_ok_def x at by simp
  then show "pm_ok ?s" using assms(1) by (simp add: pm_ok_def refs_ok_def power_ok_def u)
  show "settled ?s = settled s" by (simp add: settled_def)
qed

lemma registered_domain:
  assumes "mali_pm_domain_get_from_mask m s = Some x"
  shows "pm_domains s (mali_osk_fls m - 1) \<noteq> None"
  using assms by (auto simp: mali_pm_domain_get_from_mask_def split: if_splits)

lemma config_irrelevant [simp]:
  "pm_ok (s\<lparr>domain_config := c\<rparr>) = pm_ok s" "settled (s\<lparr>domain_config := c\<rparr>) = settled s"
  "used (s\<lparr>domain_config := c\<rparr>) = used s" "powered (s\<lparr>domain_config := c\<rparr>) = powered s"
proof -
  show u: "used (s\<lparr>domain_config := c\<rparr>) = used s" "powered (s\<lparr>domain_config := c\<rparr>) = powered s"
    by (simp_all add: fun_eq_iff used_def powered_def)
  show "pm_ok (s\<lparr>domain_config := c\<rparr>) = pm_ok s" "settled (s\<lparr>domain_config := c\<rparr>) = settled s"
    by (simp_all add: pm_ok_def domains_ok_def refs_ok_def power_ok_def u settled_def)
qed

lemma register_ok:
  assumes "pm_ok s" and "mali_pm_register_group i g s = (s', d) \<or> mali_pm_register_l2_cache i l s = (s', d)"
  shows "pm_ok s' \<and> settled s' = settled s \<and> used s' = used s \<and> powered s' = powered s \<and> pm_domains s' d \<noteq> None"
proof -
  have "pm_domains s DOMAIN_DUMMY \<noteq> None" using assms(1) by (simp add: pm_ok_def domains_ok_def)
  with assms registered_domain [of _ s] show ?thesis
    by (auto simp: mali_pm_register_group_def mali_pm_register_l2_cache_def mali_pm_domain_add_group_def
        mali_pm_domain_add_l2_cache_def Let_def add_to_domain_ok split: option.splits)
qed

lemma pm_step_ok:
  "pm_step x y \<Longrightarrow> pm_ok (fst x) \<Longrightarrow> (\<not> snd x \<longrightarrow> settled (fst x)) \<Longrightarrow>
     pm_ok (fst y) \<and> (\<not> snd y \<longrightarrow> settled (fst y))"
proof (induction rule: pm_step.induct)
  case (get groups_on ds s s' r u)
  have o: "domains_ok s" "refs_ok 0 s" using get(4) by (simp_all add: pm_ok_def)
  from get_refs_ok(1,2) [OF get(1) o get(2,3)]
  have "refs_ok 0 s'" "same_power s s'" .
  with same_power_ok [of s s'] get(4,5) show ?case by (simp add: pm_ok_def)
next
  case (put ds s s' r u)
  have o: "domains_ok s" "refs_ok 0 s" using put(4) by (simp_all add: pm_ok_def)
  from put_refs_ok [OF put(1) o put(2,3)] have "refs_ok 0 s'" "same_power s s'" by blast+
  with same_power_ok [of s s'] put(4,5) show ?case by (simp add: pm_ok_def)
next
  case (update s)
  then show ?case using update_power_up_ok(1) [of s] by simp
next
  case (finish s)
  then show ?case using update_power_down_ok(1,4) [of s] by simp
next
  case (runtime_suspend s s')
  then have c: "pm_ok s'" "pd_mask_current s' = 0" "pmu_mask_current s' = 0"
    using common_suspend_ok(1,3,4) [of s s'] by simp_all
  then show ?case by (simp add: pm_ok_def refs_ok_def power_ok_def settled_def)
next
  case (os_suspend s s')
  then have c: "pm_ok s'" "pd_mask_current s' = 0" "pmu_mask_current s' = 0"
    using common_suspend_ok(1,3,4) [of s s'] by simp_all
  then show ?case by (simp add: settled_def)
next
  case (resume s pmu)
  let ?s = "pmu_resume pmu (s\<lparr>runtime_active := True\<rparr>)"
  have f: "used ?s = used s" "powered ?s = powered s" "pm_domains ?s = pm_domains s" "domain ?s = domain s"
    "pd_mask_wanted ?s = pd_mask_wanted s" "pd_mask_current ?s = pd_mask_current s" "dev_refs ?s = dev_refs s"
    "pmu_mask_current ?s = (case pmu of Some m \<Rightarrow> m | None \<Rightarrow> pmu_mask_current s)"
    by (simp_all add: pmu_resume_def pm_event_def split: option.split)
  have "\<not> powered s d" for d using resume(1,3) by (auto simp: pm_ok_def power_ok_def)
  then have "pm_ok ?s"
    using resume(2,3) by (auto simp: pm_ok_def domains_ok_def refs_ok_def power_ok_def f split: option.split)
  then show ?case using update_power_up_ok(1) by simp
next
  case (register_group i g s s' d u)
  then show ?case using register_ok [of s i g s' d] by auto
next
  case (register_l2 i l s s' d u)
  then show ?case using register_ok [of s i _ s' d l] by auto
qed

lemma pm_reachable_ok: "pm_reachable x \<Longrightarrow> pm_ok (fst x) \<and> (\<not> snd x \<longrightarrow> settled (fst x))"
proof (induction rule: pm_reachable.induct)
  case (init config ok active s)
  then show ?case using boot_ok(1,2) [OF init] by simp
next
  case (step x y)
  then show ?case using pm_step_ok by blast
qed

section \<open>Properties\<close>

text \<open>C35: in every reachable state of the power management a domain is wanted exactly while
  somebody holds a reference to it, and the driver holds one device reference for every domain
  in use; a domain is marked as powered exactly if its bit is set in the mask of powered domains,
  and the PMU has then powered it, unless it is the dummy domain; between updates the PMU has no
  other domains on.\<close>

theorem pm_masks_exact:
  assumes "pm_reachable (s, updating)"
  shows "(\<forall>d. bit (pd_mask_wanted s) d \<longleftrightarrow> used s d) \<and> dev_refs s = int (card {d. used s d}) \<and>
         (\<forall>d. bit (pd_mask_current s) d \<longleftrightarrow> powered s d) \<and>
         (\<forall>d. powered s d \<longrightarrow> d = DOMAIN_DUMMY \<or> bit (pmu_mask_current s) d) \<and>
         (\<not> updating \<longrightarrow> pmu_mask_current s = pd_mask_current s AND NOT DUMMY_MASK)"
  using pm_reachable_ok [OF assms] by (simp add: pm_ok_def refs_ok_def power_ok_def settled_def)

text \<open>an update that is not interfered with powers exactly the domains that are in use, apart from
  the dummy domain, which stays powered and is powered together with any other domain; the PMU
  follows.\<close>

theorem pm_update_reaches_wanted:
  assumes "pm_reachable (s, False)"
  shows "(d \<noteq> DOMAIN_DUMMY \<longrightarrow> (powered (mali_pm_update_sync_internal s) d \<longleftrightarrow> used s d)) \<and>
         (powered s d \<and> used s d \<longrightarrow> powered (mali_pm_update_sync_internal s) d) \<and>
         (used s d \<and> \<not> powered s d \<longrightarrow> powered (mali_pm_update_sync_internal s) DOMAIN_DUMMY) \<and>
         (powered s DOMAIN_DUMMY \<longrightarrow> powered (mali_pm_update_sync_internal s) DOMAIN_DUMMY) \<and>
         pmu_mask_current (mali_pm_update_sync_internal s) =
           pd_mask_current (mali_pm_update_sync_internal s) AND NOT DUMMY_MASK"
proof -
  let ?u = "update_power_up s"
  have ok: "pm_ok s" using pm_reachable_ok [OF assms] by simp
  note up = update_power_up_ok [OF ok]
  note down = update_power_down_ok [OF up(1)]
  have w: "bit (pd_mask_wanted s) k \<longleftrightarrow> used s k" "bit (pd_mask_current s) k \<longleftrightarrow> powered s k" for k
    using ok by (simp_all add: pm_ok_def refs_ok_def power_ok_def)
  have wu: "bit (pd_mask_wanted ?u) k \<longleftrightarrow> used s k" "bit (pd_mask_current ?u) k \<longleftrightarrow> powered ?u k" for k
    using up(1) by (simp_all add: pm_ok_def refs_ok_def power_ok_def up(2))
  have um: "bit (up_mask s) k \<longleftrightarrow> (\<exists>e. used s e \<and> \<not> powered s e) \<and> (used s k \<and> \<not> powered s k \<or> k = DOMAIN_DUMMY)" for k
  proof -
    have "pd_mask_wanted s AND NOT (pd_mask_current s) = 0 \<longleftrightarrow> \<not> (\<exists>e. used s e \<and> \<not> powered s e)"
      using w bit_imp_le_length [of "pd_mask_wanted s"] by (auto simp: bit_eq_iff bit_simps)
    then show ?thesis
      using w bit_imp_le_length [of "pd_mask_wanted s" k] by (auto simp: up_mask_def Let_def bit_simps)
  qed
  have dm: "bit (down_mask ?u) k \<longleftrightarrow> powered ?u k \<and> \<not> used s k \<and> k \<noteq> DOMAIN_DUMMY" for k
    using wu bit_imp_le_length [of "pd_mask_current ?u" k] by (auto simp: down_mask_def bit_simps)
  have r: "powered (mali_pm_update_sync_internal s) k \<longleftrightarrow>
      (powered s k \<or> bit (up_mask s) k) \<and> (used s k \<or> k = DOMAIN_DUMMY)" for k
    unfolding mali_pm_update_sync_internal_def down(3) dm up(3) by blast
  have "pmu_mask_current (mali_pm_update_sync_internal s) =
      pd_mask_current (mali_pm_update_sync_internal s) AND NOT DUMMY_MASK"
    using down(4) by (simp add: mali_pm_update_sync_internal_def settled_def)
  then show ?thesis unfolding r um by blast
qed

text \<open>C36: whatever happens, a domain that is powered and in use stays powered: no update, also not one
  that overlaps with references being taken and given back, and no suspension powers it down.\<close>

theorem pm_used_domain_stays_powered:
  assumes "pm_reachable (s, u)" and "pm_step (s, u) (s', u')" and "powered s d" and "used s d"
  shows "powered s' d \<and> (d = DOMAIN_DUMMY \<or> bit (pmu_mask_current s') d)"
proof -
  have ok: "pm_ok s" and st: "\<not> u \<longrightarrow> settled s" using pm_reachable_ok [OF assms(1)] by simp_all
  have ok': "pm_ok s'" using pm_step_ok [OF assms(2)] ok st by simp
  have w: "bit (pd_mask_wanted s) d" using ok assms(4) by (simp add: pm_ok_def refs_ok_def)
  have same: "powered s' d" if "same_power s s'"
    using that assms(3) by (simp add: same_power_def powered_def)
  have o: "domains_ok s" "refs_ok 0 s" using ok by (simp_all add: pm_ok_def)
  from assms(2) have "powered s' d"
  proof (cases rule: pm_step.cases)
    case (get groups_on ds r)
    then show ?thesis using get_refs_ok(2) [OF get(2) o] same by blast
  next
    case (put ds r)
    then show ?thesis using put_refs_ok [OF put(2) o] same by blast
  next
    case update
    then show ?thesis using update_power_up_ok(3) [OF ok] assms(3) by simp
  next
    case finish
    have "\<not> bit (down_mask s) d" using w by (simp add: down_mask_def bit_simps)
    then show ?thesis using finish update_power_down_ok(3) [OF ok] assms(3) by simp
  next
    case (runtime_suspend s1)
    then show ?thesis using w by (auto simp: common_suspend_eq split: if_splits)
  next
    case os_suspend
    then show ?thesis using w by (auto simp: common_suspend_eq split: if_splits)
  next
    case (resume pmu)
    then show ?thesis using assms(3) ok by (simp add: pm_ok_def power_ok_def)
  next
    case (register_group i g e)
    then show ?thesis using register_ok [OF ok, of i g s' e] assms(3) by auto
  next
    case (register_l2 i l e)
    then show ?thesis using register_ok [OF ok, of i _ s' e l] assms(3) by auto
  qed
  then show ?thesis using ok' by (auto simp: pm_ok_def power_ok_def)
qed

text \<open>C37: taking references answers whether everything was powered already, giving them back whether a
  domain is left unused; what is taken and given back leaves every count and the wanted domains as they
  were.\<close>

theorem pm_refs_balanced:
  assumes "pm_reachable (s, u)"
    and "\<forall>(d, g) \<in> set ds. pm_domains s d \<noteq> None"
    and "\<forall>d. unat (use_count (domain s d)) + count_list (map fst ds) d < 2 ^ 32"
    and g: "mali_pm_get_domain_refs groups_on ds s = (s1, all_on)"
    and p: "mali_pm_put_domain_refs (map fst ds) s1 = (s2, now_unused)"
  shows "(all_on \<longleftrightarrow> (\<forall>(d, g) \<in> set ds. powered s d \<and> (\<forall>k. g = Some k \<longrightarrow> groups_on k))) \<and>
         (now_unused \<longleftrightarrow> (\<exists>d \<in> fst ` set ds. \<not> used s d)) \<and>
         used s1 d = (used s d \<or> d \<in> fst ` set ds) \<and>
         use_count (domain s2 d) = use_count (domain s d) \<and> pd_mask_wanted s2 = pd_mask_wanted s"
proof -
  have o: "domains_ok s" "refs_ok 0 s" using pm_reachable_ok [OF assms(1)] by (simp_all add: pm_ok_def)
  note get = get_refs_ok [OF g o assms(2,3)]
  have ex: "(pm_domains s1 k \<noteq> None) = (pm_domains s k \<noteq> None)" for k
    using get(2) by (simp add: same_power_def)
  have d1: "domains_ok s1" using same_power_ok [OF get(2)] o(1) by simp
  have e1: "\<forall>k \<in> set (map fst ds). pm_domains s1 k \<noteq> None" unfolding ex using assms(2) by auto
  have c1: "\<forall>k. count_list (map fst ds) k \<le> unat (use_count (domain s1 k))" using get(3) by simp
  note put = put_refs_ok [OF p d1 get(1) e1 c1]
  have ex2: "(pm_domains s2 k \<noteq> None) = (pm_domains s k \<noteq> None)" for k
    using put ex by (simp add: same_power_def)
  have n: "use_count (domain s2 k) = use_count (domain s k)" for k
    using put get(3) [of k] by (metis add_diff_cancel_right' word_unat_eq_iff)
  have us: "used s2 k = used s k" for k unfolding used_def n ex2 ..
  have "use_count (domain s1 k) = 0 \<longleftrightarrow> use_count (domain s k) = 0 \<and> k \<notin> fst ` set ds" for k
  proof -
    have "use_count (domain s1 k) = 0 \<longleftrightarrow> unat (use_count (domain s1 k)) = 0" by (simp only: unat_eq_zero)
    also have "\<dots> \<longleftrightarrow> unat (use_count (domain s k)) = 0 \<and> count_list (map fst ds) k = 0"
      unfolding get(3) [of k] by (rule add_is_0)
    finally show ?thesis by (simp only: unat_eq_zero count_list_0_iff set_map)
  qed
  then have u1: "used s1 k \<longleftrightarrow> used s k \<or> k \<in> fst ` set ds" for k
    unfolding used_def ex using assms(2) by fastforce
  have "pd_mask_wanted s2 = pd_mask_wanted s"
    using put o(2) us by (auto simp: refs_ok_def bit_eq_iff)
  moreover have "all_on \<longleftrightarrow> (\<forall>(d, g) \<in> set ds. powered s d \<and> (\<forall>k. g = Some k \<longrightarrow> groups_on k))"
    unfolding get(4) powered_def using assms(2) by (fastforce split: option.splits)
  moreover have "now_unused \<longleftrightarrow> (\<exists>d \<in> fst ` set ds. \<not> used s d)"
    using put u1 us by auto
  ultimately show ?thesis using n u1 by blast
qed

section \<open>An example\<close>

text \<open>Domain 0 and the dummy domain, and then with a reference to domain 0 and powered.\<close>

definition pm_example :: pm where
  "pm_example = fst (mali_pm_create_pm_domains (\<lambda>_. True) (pm_boot (1 # replicate 11 0 @ [4096]) True))"

definition pm_example_wanted :: pm where
  "pm_example_wanted = fst (mali_pm_get_domain_refs (\<lambda>_. True) [(0, None)] pm_example)"

definition pm_example_on :: pm where
  "pm_example_on = mali_pm_update_sync_internal pm_example_wanted"

lemma create_all: "(\<And>i. ok i) \<Longrightarrow> snd (create_domains ok is s) = ERR_OK"
  by (induction ok "is" s rule: create_domains.induct) (auto simp: mali_pm_domain_create_def split: if_splits)

lemma domain_bit_eq: "domain_bit 0 = 1" "DUMMY_MASK = 4096"
  by (simp_all add: domain_bit_def DUMMY_MASK_def DOMAIN_DUMMY_def)

lemma example_config: "config_ok (1 # replicate 11 0 @ [4096])" (is "config_ok ?c")
proof -
  have "?c ! i = 0 \<or> (\<exists>d < MAX_DOMAINS. ucast (?c ! i) = domain_bit d)" if "i < MAX_DOMAINS" for i
  proof -
    have "i = 0 \<or> 0 < i \<and> i < 12 \<or> i = 12" using that by (auto simp: MAX_DOMAINS_def)
    then consider "i = 0" | "0 < i" "i < 12" | "i = 12" by blast
    then show ?thesis
    proof cases
      case 1
      then show ?thesis by (auto simp: MAX_DOMAINS_def domain_bit_eq intro: exI [of _ 0])
    next
      case 2
      then have "i - Suc 0 < 11" by linarith
      with 2 show ?thesis by (simp add: nth_Cons' nth_append)
    next
      case 3
      then have "ucast (?c ! i) = domain_bit 12"
        using domain_bit_eq(2) by (simp add: nth_Cons' nth_append DUMMY_MASK_def DOMAIN_DUMMY_def)
      moreover have "12 < MAX_DOMAINS" by (simp add: MAX_DOMAINS_def)
      ultimately show ?thesis by blast
    qed
  qed
  then show ?thesis by (simp add: config_ok_def MAX_DOMAINS_def DOMAIN_DUMMY_def nth_Cons' nth_append domain_bit_eq)
qed

lemma example_created:
  "mali_pm_create_pm_domains (\<lambda>_. True) (pm_boot (1 # replicate 11 0 @ [4096]) True) = (pm_example, ERR_OK)"
  using create_all [of "\<lambda>_. True" "[0 ..< MAX_DOMAINS]"]
  by (simp add: pm_example_def mali_pm_create_pm_domains_def prod_eq_iff)

lemma example_reachable: "pm_reachable (pm_example, False)"
  by (rule pm_reachable.init [OF example_config example_created])

lemma example_domain: "pm_domains pm_example 0 \<noteq> None" "\<not> used pm_example d" "\<not> powered pm_example d"
  "pm_ok pm_example" "use_count (domain pm_example 0) = 0"
proof -
  note b = boot_ok [OF example_config example_created]
  show e: "pm_domains pm_example 0 \<noteq> None"
    by (rule b(6) [of 0]) (simp_all add: MAX_DOMAINS_def domain_bit_eq)
  show "\<not> used pm_example d" "\<not> powered pm_example d" "pm_ok pm_example" by (rule b)+
  show "use_count (domain pm_example 0) = 0" using b(4) [of 0] e by (simp add: used_def)
qed

lemma example_room:
  "\<forall>(d, g) \<in> set [(0, None)]. pm_domains pm_example d \<noteq> None"
  "\<forall>d. unat (use_count (domain pm_example d)) + count_list (map fst [(0, None :: gid option)]) d < 2 ^ 32"
proof -
  show "\<forall>(d, g) \<in> set [(0, None)]. pm_domains pm_example d \<noteq> None" using example_domain(1) by simp
  have "unat (use_count (domain pm_example d)) + 1 < 2 ^ 32" if "d = 0" for d
    using that example_domain(5) by simp
  moreover have "unat (use_count (domain pm_example d)) < 2 ^ 32" for d
    using unsigned_less [of "use_count (domain pm_example d)"] by simp
  ultimately show "\<forall>d. unat (use_count (domain pm_example d)) + count_list (map fst [(0, None :: gid option)]) d < 2 ^ 32"
    by simp
qed

lemma example_wanted:
  "pm_reachable (pm_example_wanted, False)" "used pm_example_wanted 0" "\<not> powered pm_example_wanted 0"
  "runtime_active pm_example_wanted"
proof -
  obtain r where g: "mali_pm_get_domain_refs (\<lambda>_. True) [(0, None)] pm_example = (pm_example_wanted, r)"
    by (metis pm_example_wanted_def prod.collapse)
  have o: "domains_ok pm_example" "refs_ok 0 pm_example" using example_domain(4) by (simp_all add: pm_ok_def)
  note k = get_refs_ok [OF g o example_room]
  show "pm_reachable (pm_example_wanted, False)"
    by (rule pm_reachable.step [OF example_reachable pm_step.get [OF g example_room]])
  have "unat (use_count (domain pm_example_wanted 0)) = 1" using k(3) [where d = 0] example_domain(5) by simp
  then have "use_count (domain pm_example_wanted 0) \<noteq> 0" by auto
  moreover have "pm_domains pm_example_wanted 0 \<noteq> None" using k(2) example_domain(1) by (simp add: same_power_def)
  ultimately show "used pm_example_wanted 0" by (simp add: used_def)
  show "\<not> powered pm_example_wanted 0" using k(2) example_domain(3) [of 0] by (simp add: same_power_def powered_def)
  have "runtime_active (fst (create_domains ok is s)) = runtime_active s" for ok "is" s
    by (induction ok "is" s rule: create_domains.induct) (auto simp: mali_pm_domain_create_def split: if_splits)
  then have "runtime_active pm_example"
    by (simp add: pm_example_def mali_pm_create_pm_domains_def pm_boot_def)
  then show "runtime_active pm_example_wanted" using k(2) by (simp add: same_power_def)
qed

theorem pm_masks_exact_witness:
  "bit (pd_mask_wanted pm_example_wanted) 0 \<and> \<not> bit (pd_mask_current pm_example_wanted) 0"
  using pm_masks_exact [OF example_wanted(1)] example_wanted(2,3) by simp

theorem pm_update_reaches_wanted_witness:
  "powered pm_example_on 0 \<and> powered pm_example_on DOMAIN_DUMMY \<and> \<not> powered pm_example_on 1"
proof -
  have "\<not> used pm_example_wanted 1"
  proof -
    obtain r where g: "mali_pm_get_domain_refs (\<lambda>_. True) [(0, None)] pm_example = (pm_example_wanted, r)"
      by (metis pm_example_wanted_def prod.collapse)
    have o: "domains_ok pm_example" "refs_ok 0 pm_example" using example_domain(4) by (simp_all add: pm_ok_def)
    note k = get_refs_ok [OF g o example_room]
    from k(3) [where d = 1] have "unat (use_count (domain pm_example_wanted 1)) = unat (use_count (domain pm_example 1))"
      by simp
    then have "use_count (domain pm_example_wanted 1) = use_count (domain pm_example 1)"
      by (rule word_unat_eq_iff [THEN iffD2])
    then show ?thesis
      using k(2) example_domain(2) [of 1] by (simp add: used_def same_power_def del: not_None_eq)
  qed
  then show ?thesis
    using pm_update_reaches_wanted [OF example_wanted(1), where d = 0]
      pm_update_reaches_wanted [OF example_wanted(1), where d = 1] example_wanted(2,3)
    by (simp add: pm_example_on_def DOMAIN_DUMMY_def)
qed

lemma example_on: "pm_reachable (pm_example_on, False)" "used pm_example_on 0" "powered pm_example_on 0"
proof -
  note ok = pm_reachable_ok [OF example_wanted(1), simplified]
  note up = update_power_up_ok [OF ok [THEN conjunct1]]
  note down = update_power_down_ok [OF up(1)]
  have on: "pm_example_on = update_power_down (update_power_up pm_example_wanted)"
    by (simp add: pm_example_on_def mali_pm_update_sync_internal_def)
  show "pm_reachable (pm_example_on, False)" unfolding on
    by (rule pm_reachable.step [OF pm_reachable.step [OF example_wanted(1) pm_step.update [OF example_wanted(4)]]
          pm_step.finish])
  show u: "used pm_example_on 0" unfolding on down(2) up(2) by (rule example_wanted(2))
  have w: "bit (pd_mask_wanted pm_example_wanted) 0" "\<not> bit (pd_mask_current pm_example_wanted) 0"
    using ok example_wanted(2,3) by (simp_all add: pm_ok_def refs_ok_def power_ok_def)
  then have "pd_mask_wanted pm_example_wanted AND NOT (pd_mask_current pm_example_wanted) \<noteq> 0"
    by (metis bit_and_iff bit_not_iff bit_0_eq bot_apply bot_bool_def bit_imp_possible_bit)
  with w have "bit (up_mask pm_example_wanted) 0" by (simp add: up_mask_def Let_def bit_simps)
  then have "powered (update_power_up pm_example_wanted) 0" using up(3) by blast
  moreover have "\<not> bit (down_mask (update_power_up pm_example_wanted)) 0"
    using up(1) up(2) [where d = 0] example_wanted(2) by (simp add: down_mask_def bit_simps pm_ok_def refs_ok_def)
  ultimately show "powered pm_example_on 0" unfolding on down(3) by blast
qed

theorem pm_used_domain_stays_powered_witness:
  "powered (update_power_up pm_example_on) 0 \<and> bit (pmu_mask_current (update_power_up pm_example_on)) 0"
proof -
  have "runtime_active (update_power_up s) = runtime_active s \<and> runtime_active (update_power_down s) = runtime_active s" for s
    by (simp add: update_power_up_eq update_power_down_eq)
  then have "runtime_active pm_example_on"
    using example_wanted(4) by (simp add: pm_example_on_def mali_pm_update_sync_internal_def)
  from pm_used_domain_stays_powered [OF example_on(1) pm_step.update [OF this] example_on(3,2)]
  show ?thesis by (simp add: DOMAIN_DUMMY_def)
qed

theorem pm_refs_balanced_witness:
  "\<exists>s2. mali_pm_put_domain_refs [0] pm_example_wanted = (s2, True) \<and> pd_mask_wanted s2 = pd_mask_wanted pm_example"
proof -
  obtain r where g: "mali_pm_get_domain_refs (\<lambda>_. True) [(0, None)] pm_example = (pm_example_wanted, r)"
    by (metis pm_example_wanted_def prod.collapse)
  obtain s2 r2 where p: "mali_pm_put_domain_refs (map fst [(0, None :: gid option)]) pm_example_wanted = (s2, r2)"
    by (metis prod.collapse)
  from pm_refs_balanced [OF example_reachable example_room g p, where d = 0] p example_domain(2) show ?thesis by auto
qed

end
