(* ===== verification/PM_Cost.thy ===== *)
theory PM_Cost
  imports PM_Reach
begin

text \<open>
  The configuration of the power domains (common/mali_pm.c, \<open>mali_pm_set_pmu_domain_config\<close>) and the
  table that tells for every number of pixel processors which domains to take them from
  (\<open>mali_pm_power_cost_setup\<close>). The search for the cheapest domains is shown optimal; the loop
  that fills the table is \<open>partial_function\<close>, as it need not end.
\<close>

section \<open>The configuration of the domains\<close>

datatype gpu_class = Mali400 | Mali450 | Mali470

definition DOMAIN_INDEX_GP :: nat where "DOMAIN_INDEX_GP = 0"
definition DOMAIN_INDEX_PP :: "nat \<Rightarrow> nat" where "DOMAIN_INDEX_PP n = n + 1"
definition DOMAIN_INDEX_L2 :: "nat \<Rightarrow> nat" where "DOMAIN_INDEX_L2 n = n + 9"

lemmas domain_index = DOMAIN_INDEX_GP_def DOMAIN_INDEX_PP_def DOMAIN_INDEX_L2_def

text \<open>Which address offset, if a resource is found there, gives which domain index which bit as mask;
  in the order of the code.\<close>

fun default_domains :: "gpu_class \<Rightarrow> (u32 \<times> nat \<times> nat) list" where
  "default_domains Mali400 =
     [(0x00000, DOMAIN_INDEX_GP, 0),
      (0x08000, DOMAIN_INDEX_PP 0, 2), (0x0A000, DOMAIN_INDEX_PP 1, 3),
      (0x0C000, DOMAIN_INDEX_PP 2, 4), (0x0E000, DOMAIN_INDEX_PP 3, 5),
      (0x28000, DOMAIN_INDEX_PP 4, 3), (0x2A000, DOMAIN_INDEX_PP 5, 3),
      (0x2C000, DOMAIN_INDEX_PP 6, 3), (0x2E000, DOMAIN_INDEX_PP 7, 3),
      (0x01000, DOMAIN_INDEX_L2 0, 1)]"
| "default_domains Mali450 =
     [(0x00000, DOMAIN_INDEX_GP, 0),
      (0x08000, DOMAIN_INDEX_PP 0, 1), (0x0A000, DOMAIN_INDEX_PP 1, 2),
      (0x0C000, DOMAIN_INDEX_PP 2, 2), (0x0E000, DOMAIN_INDEX_PP 3, 2),
      (0x28000, DOMAIN_INDEX_PP 4, 3), (0x2A000, DOMAIN_INDEX_PP 5, 3),
      (0x2C000, DOMAIN_INDEX_PP 6, 3), (0x2E000, DOMAIN_INDEX_PP 7, 3),
      (0x10000, DOMAIN_INDEX_L2 0, 0), (0x01000, DOMAIN_INDEX_L2 1, 1),
      (0x11000, DOMAIN_INDEX_L2 2, 3)]"
| "default_domains Mali470 =
     [(0x00000, DOMAIN_INDEX_GP, 0),
      (0x08000, DOMAIN_INDEX_PP 0, 0), (0x0A000, DOMAIN_INDEX_PP 1, 1),
      (0x0C000, DOMAIN_INDEX_PP 2, 1), (0x0E000, DOMAIN_INDEX_PP 3, 1),
      (0x28000, DOMAIN_INDEX_PP 4, 3), (0x2A000, DOMAIN_INDEX_PP 5, 3),
      (0x2C000, DOMAIN_INDEX_PP 6, 3), (0x2E000, DOMAIN_INDEX_PP 7, 3),
      (0x01000, DOMAIN_INDEX_L2 1, 0)]"

definition mali_pm_set_default_pm_domain_config ::
    "gpu_class \<Rightarrow> (u32 \<Rightarrow> bool) \<Rightarrow> 16 word list \<Rightarrow> 16 word list" where
  "mali_pm_set_default_pm_domain_config g found c =
     fold (\<lambda>(offset, i, k) c. if found offset then c[i := push_bit k 1] else c) (default_domains g) c"

text \<open>\<open>custom\<close> is what the platform says about the first twelve entries.\<close>

definition mali_pm_set_pmu_domain_config ::
    "gpu_class \<Rightarrow> (u32 \<Rightarrow> bool) \<Rightarrow> 16 word list option \<Rightarrow> 16 word list \<Rightarrow> 16 word list" where
  "mali_pm_set_pmu_domain_config g found custom c =
     (let c1 = (case custom of Some u \<Rightarrow> u @ drop (MAX_DOMAINS - 1) c | None \<Rightarrow> c);
          c2 = (if list_all (\<lambda>i. c1 ! i = 0) [0 ..< MAX_DOMAINS - 1]
                then mali_pm_set_default_pm_domain_config g found c1 else c1)
      in c2[DOMAIN_DUMMY := push_bit DOMAIN_DUMMY 1])"

definition mali_pm_get_registered_cores_mask :: "16 word list \<Rightarrow> u32" where
  "mali_pm_get_registered_cores_mask c = fold (\<lambda>i m. m OR ucast (c ! i)) [0 ..< DOMAIN_DUMMY] 0"

section \<open>Cores and cost of a set of domains\<close>

definition GP_COST :: int where "GP_COST = 3"
definition PP_COST :: int where "PP_COST = 6"
definition L2_COST :: int where "L2_COST = 1"

definition powers :: "u32 \<Rightarrow> 16 word \<Rightarrow> bool" where
  "powers m x \<longleftrightarrow> ucast x AND m \<noteq> 0"

definition l2_on :: "16 word list \<Rightarrow> u32 \<Rightarrow> nat \<Rightarrow> bool" where
  "l2_on c m l \<longleftrightarrow> powers m (c ! DOMAIN_INDEX_L2 l) \<or> c ! DOMAIN_DUMMY = c ! DOMAIN_INDEX_L2 l"

text \<open>Cores and cost are small numbers, see \<open>stat_bounds\<close>.\<close>

definition stat_step :: "gpu_class \<Rightarrow> 16 word list \<Rightarrow> u32 \<Rightarrow> nat \<Rightarrow> nat \<times> int \<Rightarrow> nat \<times> int" where
  "stat_step g c m i = (\<lambda>(num_pp, cost).
     if \<not> powers m (c ! i) then (num_pp, cost)
     else if i = DOMAIN_INDEX_GP then (num_pp, cost + GP_COST)
     else if DOMAIN_INDEX_PP 0 \<le> i \<and> i \<le> DOMAIN_INDEX_PP 3
     then (if l2_on c m (if g = Mali400 then 0 else 1) then num_pp + 1 else num_pp, cost + PP_COST)
     else if DOMAIN_INDEX_PP 4 \<le> i \<and> i \<le> DOMAIN_INDEX_PP 7
     then (if l2_on c m 2 then num_pp + 1 else num_pp, cost + PP_COST)
     else if DOMAIN_INDEX_L2 0 \<le> i \<and> i \<le> DOMAIN_INDEX_L2 2 then (num_pp, cost + L2_COST)
     else (num_pp, cost))"

definition mali_pm_stat_from_mask :: "gpu_class \<Rightarrow> 16 word list \<Rightarrow> u32 \<Rightarrow> nat \<times> int" where
  "mali_pm_stat_from_mask g c m = fold (stat_step g c m) [0 ..< MAX_DOMAINS] (0, 0)"

section \<open>The cheapest domains\<close>

definition PHYSICAL_PP_GROUPS :: nat where "PHYSICAL_PP_GROUPS = 8"

definition pp_indices :: "nat list" where
  "pp_indices = [DOMAIN_INDEX_PP 0 ..< DOMAIN_INDEX_PP 7 + 1]"

definition max_domain_mask :: "16 word list \<Rightarrow> 16 word" where
  "max_domain_mask c = fold (\<lambda>i m. if 0 < c ! i \<and> ucast (c ! i) \<noteq> DUMMY_MASK \<and> m < c ! i then c ! i else m)
     pp_indices 0"

definition max_domain_id :: "16 word list \<Rightarrow> nat" where
  "max_domain_id c = mali_osk_fls (ucast (max_domain_mask c))"

definition always_on_pp_cores :: "16 word list \<Rightarrow> nat" where
  "always_on_pp_cores c = fold (\<lambda>i n. if 0 < c ! i \<and> ucast (c ! i) = DUMMY_MASK then n + 1 else n) pp_indices 0"

text \<open>The best mask and its cost for \<open>i + 1\<close> cores.\<close>

type_synonym best = "(u32 \<times> int) list"

definition no_best :: best where
  "no_best = replicate PHYSICAL_PP_GROUPS (0, 0xFFFFFFFF)"

definition best_of_mask :: "gpu_class \<Rightarrow> 16 word list \<Rightarrow> u32 \<Rightarrow> best \<Rightarrow> best" where
  "best_of_mask g c m b =
     (let (num_pp, cost) = mali_pm_stat_from_mask g c m
      in fold (\<lambda>i b. if cost \<le> snd (b ! i) then b[i := (m, cost)] else b) [0 ..< num_pp] b)"

definition best_masks :: "gpu_class \<Rightarrow> 16 word list \<Rightarrow> best" where
  "best_masks g c = fold (best_of_mask g c) (map of_nat [0 ..< 2 ^ max_domain_id c]) no_best"

section \<open>The table\<close>

definition cores_in_domain :: "16 word list \<Rightarrow> nat \<Rightarrow> nat \<Rightarrow> nat" where
  "cores_in_domain c i =
     fold (\<lambda>j n. if 0 < c ! j \<and> ucast (c ! i) \<noteq> DUMMY_MASK
                 then n(mali_osk_fls (ucast (c ! j)) - 1 := n (mali_osk_fls (ucast (c ! j)) - 1) + 1) else n)
       pp_indices (\<lambda>_. 0)"

text \<open>The state of the loops: the cores left in each domain, the row of the table, and the cores taken.\<close>

type_synonym taking = "(nat \<Rightarrow> nat) \<times> (nat \<Rightarrow> nat) \<times> nat"

fun take_round :: "u32 \<Rightarrow> nat \<Rightarrow> nat list \<Rightarrow> taking \<Rightarrow> taking" where
  "take_round m i [] st = st"
| "take_round m i (k # ks) (left, row, j) =
     (if bit m k \<and> 0 < left k
      then let st = (left(k := left k - 1), row(k := row k + 1), j + 1)
           in if j + 1 > i then st else take_round m i ks st
      else take_round m i ks (left, row, j))"

partial_function (option) take_cores :: "u32 \<Rightarrow> nat \<Rightarrow> nat \<Rightarrow> taking \<Rightarrow> taking option" where
  "take_cores m domains i st =
     (if snd (snd st) \<le> i then take_cores m domains i (take_round m i [0 ..< domains] st) else Some st)"

declare take_cores.simps [code]

type_synonym cost_table = "nat \<Rightarrow> nat \<Rightarrow> nat"

definition always_on_rows :: "nat \<Rightarrow> nat \<Rightarrow> cost_table" where
  "always_on_rows cores always_on =
     fold (\<lambda>i t. t(i + 1 := (t (i + 1))(MAX_DOMAINS - 1 := if i < always_on then i + 1 else always_on)))
       [0 ..< cores] (\<lambda>_ _. 0)"

fun fill_rows :: "16 word list \<Rightarrow> best \<Rightarrow> nat \<Rightarrow> nat \<Rightarrow> nat list \<Rightarrow> cost_table \<Rightarrow> cost_table option" where
  "fill_rows c b domains always_on [] t = Some t"
| "fill_rows c b domains always_on (i # is) t =
     (if fst (b ! i) = 0 then fill_rows c b domains always_on is t
      else case take_cores (fst (b ! i)) domains i (cores_in_domain c i, t (always_on + i + 1), 0) of
        None \<Rightarrow> None
      | Some (_, row, _) \<Rightarrow> fill_rows c b domains always_on is (t(always_on + i + 1 := row)))"

text \<open>\<open>cores\<close> is \<open>mali_executor_get_num_cores_total\<close>; None if it does not return.\<close>

definition mali_pm_power_cost_setup :: "gpu_class \<Rightarrow> 16 word list \<Rightarrow> nat \<Rightarrow> cost_table option" where
  "mali_pm_power_cost_setup g c cores =
     (let always_on = always_on_pp_cores c
      in fill_rows c (best_masks g c) (max_domain_id c) always_on [0 ..< cores - always_on]
           (always_on_rows cores always_on))"


section \<open>The cheapest domains are cheapest\<close>

lemma stat_step_le:
  "stat_step g c m i (n, k) = (n', k') \<Longrightarrow> n' \<le> Suc n \<and> k' \<le> k + 6"
  by (auto simp: stat_step_def GP_COST_def PP_COST_def L2_COST_def split: if_splits)

lemma stat_steps_le:
  "fold (stat_step g c m) is (n, k) = (n', k') \<Longrightarrow> k' \<le> k + 6 * int (length is)"
proof (induction "is" arbitrary: n k)
  case (Cons i "is")
  obtain n1 k1 where s: "stat_step g c m i (n, k) = (n1, k1)" by fastforce
  with Cons.prems have "fold (stat_step g c m) is (n1, k1) = (n', k')" by simp
  from Cons.IH [OF this] stat_step_le [OF s] show ?case by simp
qed simp

text \<open>Only the pixel processors that the mask powers are counted.\<close>

definition pp_powered :: "16 word list \<Rightarrow> u32 \<Rightarrow> nat set" where
  "pp_powered c m = {i \<in> set pp_indices. powers m (c ! i)}"

lemma pp_indices: "set pp_indices = {1 .. 8}"
  by (auto simp: pp_indices_def domain_index)

lemma stat_steps_num:
  assumes "fold (stat_step g c m) is (n, k) = (n', k')" and "distinct is"
  shows "n' \<le> n + card (set is \<inter> pp_powered c m)"
  using assms
proof (induction "is" arbitrary: n k)
  case (Cons i "is")
  obtain n1 k1 where s: "stat_step g c m i (n, k) = (n1, k1)" by fastforce
  with Cons have le: "n' \<le> n1 + card (set is \<inter> pp_powered c m)" by simp
  have "n1 \<le> n \<or> i \<in> pp_powered c m \<and> n1 = Suc n"
    using s by (auto simp: stat_step_def pp_powered_def pp_indices domain_index split: if_splits)
  moreover have "card (set (i # is) \<inter> pp_powered c m) = Suc (card (set is \<inter> pp_powered c m))"
    if "i \<in> pp_powered c m"
    using that Cons.prems(2) by simp
  moreover have "card (set is \<inter> pp_powered c m) \<le> card (set (i # is) \<inter> pp_powered c m)"
    by (rule card_mono) auto
  ultimately show ?case using le by auto
qed simp

lemma stat_bounds:
  assumes "mali_pm_stat_from_mask g c m = (num_pp, cost)"
  shows "num_pp \<le> card (pp_powered c m)" "num_pp \<le> PHYSICAL_PP_GROUPS" "cost \<le> 78"
proof -
  note s = assms [unfolded mali_pm_stat_from_mask_def]
  from stat_steps_num [OF s] have "num_pp \<le> card (set [0 ..< MAX_DOMAINS] \<inter> pp_powered c m)" by simp
  also have "\<dots> \<le> card (pp_powered c m)" by (rule card_mono) (auto simp: pp_powered_def)
  finally show n: "num_pp \<le> card (pp_powered c m)" .
  also have "\<dots> \<le> card {1 .. 8 :: nat}" by (rule card_mono) (auto simp: pp_powered_def pp_indices)
  finally show "num_pp \<le> PHYSICAL_PP_GROUPS" by (simp add: PHYSICAL_PP_GROUPS_def)
  show "cost \<le> 78" using stat_steps_le [OF s] by (simp add: MAX_DOMAINS_def)
qed

text \<open>What the search has found after the masks \<open>ms\<close>.\<close>

definition cores_of :: "gpu_class \<Rightarrow> 16 word list \<Rightarrow> u32 \<Rightarrow> nat" where
  "cores_of g c m = fst (mali_pm_stat_from_mask g c m)"

definition cost_of :: "gpu_class \<Rightarrow> 16 word list \<Rightarrow> u32 \<Rightarrow> int" where
  "cost_of g c m = snd (mali_pm_stat_from_mask g c m)"

definition best_ok :: "gpu_class \<Rightarrow> 16 word list \<Rightarrow> u32 set \<Rightarrow> best \<Rightarrow> bool" where
  "best_ok g c ms b \<longleftrightarrow> length b = PHYSICAL_PP_GROUPS \<and>
     (\<forall>i < PHYSICAL_PP_GROUPS.
        (b ! i = (0, 0xFFFFFFFF) \<and> (\<forall>m \<in> ms. cores_of g c m \<le> i)) \<or>
        (fst (b ! i) \<in> ms \<and> i < cores_of g c (fst (b ! i)) \<and> snd (b ! i) = cost_of g c (fst (b ! i)) \<and>
         (\<forall>m \<in> ms. i < cores_of g c m \<longrightarrow> snd (b ! i) \<le> cost_of g c m)))"

lemma best_fold:
  assumes "n \<le> length b"
  shows "fold (\<lambda>i b. if cost \<le> snd (b ! i) then b[i := (m, cost)] else b) [0 ..< n] b =
    map (\<lambda>i. if i < n \<and> cost \<le> snd (b ! i) then (m, cost) else b ! i) [0 ..< length b]"
  using assms
proof (induction n)
  case 0
  then show ?case by (simp add: map_nth)
next
  case (Suc n)
  then have n: "n < length b" by simp
  with Suc have "fold (\<lambda>i b. if cost \<le> snd (b ! i) then b[i := (m, cost)] else b) [0 ..< n] b =
      map (\<lambda>i. if i < n \<and> cost \<le> snd (b ! i) then (m, cost) else b ! i) [0 ..< length b]" by simp
  then show ?case
    using n by (auto intro!: nth_equalityI simp: nth_list_update less_Suc_eq)
qed

lemma best_of_mask_ok:
  assumes "best_ok g c ms b"
  shows "best_ok g c (insert m ms) (best_of_mask g c m b)"
proof -
  obtain n k where s: "mali_pm_stat_from_mask g c m = (n, k)" by fastforce
  have l: "length b = PHYSICAL_PP_GROUPS" using assms by (simp add: best_ok_def)
  have n: "n \<le> length b" using stat_bounds(2) [OF s] l by simp
  have nk: "cores_of g c m = n" "cost_of g c m = k" by (simp_all add: cores_of_def cost_of_def s)
  have b': "best_of_mask g c m b = map (\<lambda>i. if i < n \<and> k \<le> snd (b ! i) then (m, k) else b ! i) [0 ..< length b]"
    unfolding best_of_mask_def s using best_fold [OF n] by simp
  have k: "k \<le> 0xFFFFFFFF" using stat_bounds(3) [OF s] by simp
  show ?thesis
    unfolding best_ok_def
  proof (intro conjI allI impI)
    show "length (best_of_mask g c m b) = PHYSICAL_PP_GROUPS" by (simp add: b' l)
    fix i assume i: "i < PHYSICAL_PP_GROUPS"
    have at: "best_of_mask g c m b ! i = (if i < n \<and> k \<le> snd (b ! i) then (m, k) else b ! i)"
      using i by (simp add: b' l)
    have "(b ! i = (0, 0xFFFFFFFF) \<and> (\<forall>m \<in> ms. cores_of g c m \<le> i)) \<or>
        (fst (b ! i) \<in> ms \<and> i < cores_of g c (fst (b ! i)) \<and> snd (b ! i) = cost_of g c (fst (b ! i)) \<and>
         (\<forall>m \<in> ms. i < cores_of g c m \<longrightarrow> snd (b ! i) \<le> cost_of g c m))"
      using assms i by (simp add: best_ok_def)
    then show "(best_of_mask g c m b ! i = (0, 0xFFFFFFFF) \<and> (\<forall>m \<in> insert m ms. cores_of g c m \<le> i)) \<or>
        (fst (best_of_mask g c m b ! i) \<in> insert m ms \<and> i < cores_of g c (fst (best_of_mask g c m b ! i)) \<and>
         snd (best_of_mask g c m b ! i) = cost_of g c (fst (best_of_mask g c m b ! i)) \<and>
         (\<forall>m' \<in> insert m ms. i < cores_of g c m' \<longrightarrow> snd (best_of_mask g c m b ! i) \<le> cost_of g c m'))"
    proof
      assume "b ! i = (0, 0xFFFFFFFF) \<and> (\<forall>m \<in> ms. cores_of g c m \<le> i)"
      then show ?thesis using k nk unfolding at by (cases "i < n") (auto simp: not_less)
    next
      assume "fst (b ! i) \<in> ms \<and> i < cores_of g c (fst (b ! i)) \<and> snd (b ! i) = cost_of g c (fst (b ! i)) \<and>
         (\<forall>m \<in> ms. i < cores_of g c m \<longrightarrow> snd (b ! i) \<le> cost_of g c m)"
      then show ?thesis using nk unfolding at by (cases "i < n \<and> k \<le> snd (b ! i)") auto
    qed
  qed
qed

lemma best_masks_ok: "best_ok g c (set (map of_nat [0 ..< 2 ^ max_domain_id c])) (best_masks g c)"
proof -
  have "best_ok g c (set ms \<union> us) (fold (best_of_mask g c) ms b)" if "best_ok g c us b" for ms us b
    using that
  proof (induction ms arbitrary: us b)
    case (Cons m ms)
    from Cons.IH [OF best_of_mask_ok [OF Cons.prems]] show ?case by simp
  qed simp
  moreover have "best_ok g c {} no_best" by (simp add: best_ok_def no_best_def)
  ultimately show ?thesis unfolding best_masks_def by (metis sup_bot.right_neutral)
qed

section \<open>Domains of a well-formed configuration\<close>

definition in_domain :: "16 word list \<Rightarrow> nat \<Rightarrow> nat set" where
  "in_domain c d = {p \<in> set pp_indices. ucast (c ! p) = domain_bit d}"

lemma finite_in_domain [simp]: "finite (in_domain c d)"
  by (simp add: in_domain_def)

lemma domain_bit_inject: "d < 32 \<Longrightarrow> domain_bit d = domain_bit e \<longleftrightarrow> d = e"
  by (metis bit_domain_bit)

lemma entry_cases:
  assumes "config_ok c" and "i < MAX_DOMAINS"
  obtains "c ! i = 0" | d where "d < MAX_DOMAINS" "ucast (c ! i) = domain_bit d" "c ! i \<noteq> 0"
    "mali_osk_fls (ucast (c ! i)) = Suc d" "\<And>m. powers m (c ! i) \<longleftrightarrow> bit m d"
proof (cases "c ! i = 0")
  case False
  then obtain d where d: "d < MAX_DOMAINS" "ucast (c ! i) = domain_bit d"
    using assms by (auto simp: config_ok_def)
  moreover have "mali_osk_fls (ucast (c ! i)) = Suc d"
    using fls_bit [of d] d by (simp add: MAX_DOMAINS_def)
  moreover have "powers m (c ! i) \<longleftrightarrow> bit m d" for m
  proof -
    have "domain_bit d AND m = (if bit m d then domain_bit d else 0)"
      using d(1) by (auto intro!: bit_word_eqI simp: bit_and_iff MAX_DOMAINS_def)
    then show ?thesis using domain_bit_nonzero [of d] d(1) by (simp add: powers_def d(2) MAX_DOMAINS_def)
  qed
  ultimately show thesis using that(2) False by blast
qed (rule that(1))


lemma pp_index_bounds: "i \<in> set pp_indices \<Longrightarrow> i < MAX_DOMAINS"
  by (simp add: pp_indices MAX_DOMAINS_def)


lemma max_domain_mask:
  "max_domain_mask c = 0 \<or> (\<exists>i \<in> set pp_indices. max_domain_mask c = c ! i \<and> ucast (c ! i) \<noteq> DUMMY_MASK)"
  "i \<in> set pp_indices \<Longrightarrow> ucast (c ! i) \<noteq> DUMMY_MASK \<Longrightarrow> c ! i \<le> max_domain_mask c"
proof -
  let ?f = "\<lambda>i m. if 0 < c ! i \<and> ucast (c ! i) \<noteq> DUMMY_MASK \<and> m < c ! i then c ! i else m"
  have "(fold ?f xs m = m \<or> (\<exists>i \<in> set xs. fold ?f xs m = c ! i \<and> ucast (c ! i) \<noteq> DUMMY_MASK)) \<and>
      m \<le> fold ?f xs m \<and> (\<forall>i \<in> set xs. ucast (c ! i) \<noteq> DUMMY_MASK \<longrightarrow> c ! i \<le> fold ?f xs m)" for xs m
  proof (induction xs arbitrary: m)
    case (Cons x xs)
    have x: "m \<le> ?f x m" "ucast (c ! x) \<noteq> DUMMY_MASK \<longrightarrow> c ! x \<le> ?f x m"
      by (auto simp: word_gt_0)
    have "?f x m \<le> fold ?f xs (?f x m)" using Cons [of "?f x m"] by blast
    with x have "m \<le> fold ?f xs (?f x m)" "ucast (c ! x) \<noteq> DUMMY_MASK \<longrightarrow> c ! x \<le> fold ?f xs (?f x m)"
      by (blast intro: order_trans)+
    with Cons [of "?f x m"] show ?case by auto
  qed simp
  from this [of pp_indices 0] show
    "max_domain_mask c = 0 \<or> (\<exists>i \<in> set pp_indices. max_domain_mask c = c ! i \<and> ucast (c ! i) \<noteq> DUMMY_MASK)"
    "i \<in> set pp_indices \<Longrightarrow> ucast (c ! i) \<noteq> DUMMY_MASK \<Longrightarrow> c ! i \<le> max_domain_mask c"
    unfolding max_domain_mask_def by auto
qed

lemma domain_bit_le: "d < 32 \<Longrightarrow> e < 32 \<Longrightarrow> domain_bit d \<le> domain_bit e \<longleftrightarrow> d \<le> e"
proof -
  have "unat (domain_bit k) = 2 ^ k" if "k < 32" for k
  proof -
    have "(2 :: nat) ^ k < 2 ^ 32" using that by (rule power_strict_increasing) simp
    then have "unat (of_nat (2 ^ k) :: u32) = 2 ^ k" by (simp only: unat_of_nat; subst mod_less; simp)
    moreover have "domain_bit k = of_nat (2 ^ k)" by (simp add: domain_bit_def push_bit_eq_mult)
    ultimately show ?thesis by metis
  qed
  then show "d < 32 \<Longrightarrow> e < 32 \<Longrightarrow> domain_bit d \<le> domain_bit e \<longleftrightarrow> d \<le> e"
    by (simp add: word_le_nat_alt)
qed

lemma unat_widen: "unat (ucast x :: u32) = unat x" for x :: "16 word"
proof -
  have "unat x < 2 ^ LENGTH(16)" by (rule unsigned_less)
  then have "unat x < 2 ^ 32" by simp
  then show ?thesis by (simp add: unsigned_ucast_eq take_bit_nat_eq_self_iff)
qed

lemma max_domain_id:
  assumes c: "config_ok c"
  shows "max_domain_id c \<le> DOMAIN_DUMMY"
    "i \<in> set pp_indices \<Longrightarrow> ucast (c ! i) = domain_bit d \<Longrightarrow> d < DOMAIN_DUMMY \<Longrightarrow> d < max_domain_id c"
proof -
  have "max_domain_mask c = 0 \<or> (\<exists>d. d < DOMAIN_DUMMY \<and> ucast (max_domain_mask c) = domain_bit d)"
  proof -
    have "\<exists>d. d < DOMAIN_DUMMY \<and> ucast (max_domain_mask c) = domain_bit d"
      if i: "i \<in> set pp_indices" "max_domain_mask c = c ! i" "ucast (c ! i) \<noteq> DUMMY_MASK" "c ! i \<noteq> 0" for i
      using c pp_index_bounds [OF i(1)]
    proof (cases rule: entry_cases)
      case (2 d)
      then have "d \<noteq> DOMAIN_DUMMY" using i(3) by (auto simp: DUMMY_MASK_def)
      then show ?thesis using 2(1,2) i(2) by (auto simp: MAX_DOMAINS_def DOMAIN_DUMMY_def intro!: exI [of _ d])
    qed (use i in simp)
    then show ?thesis using max_domain_mask(1) [of c] by metis
  qed
  then consider "max_domain_mask c = 0" "max_domain_id c = 0"
    | e where "e < DOMAIN_DUMMY" "ucast (max_domain_mask c) = domain_bit e" "max_domain_id c = Suc e"
  proof (elim disjE exE conjE)
    assume "max_domain_mask c = 0"
    then show thesis using that(1) by (simp add: max_domain_id_def fls_bits(1))
  next
    fix e assume "e < DOMAIN_DUMMY" "ucast (max_domain_mask c) = domain_bit e"
    then show thesis using that(2) fls_bit [of e] by (simp add: max_domain_id_def DOMAIN_DUMMY_def)
  qed
  note m = this
  show "max_domain_id c \<le> DOMAIN_DUMMY" by (rule m) auto
  assume i: "i \<in> set pp_indices" "ucast (c ! i) = domain_bit d" "d < DOMAIN_DUMMY"
  then have "ucast (c ! i) \<noteq> DUMMY_MASK"
    using domain_bit_inject [of d DOMAIN_DUMMY] by (auto simp: DUMMY_MASK_def DOMAIN_DUMMY_def)
  from max_domain_mask(2) [OF i(1) this] have le: "unat (c ! i) \<le> unat (max_domain_mask c)"
    by (simp add: word_le_nat_alt)
  then have le': "(ucast (c ! i) :: u32) \<le> ucast (max_domain_mask c)"
    by (simp add: word_le_nat_alt unat_widen)
  show "d < max_domain_id c"
  proof (rule m)
    assume "max_domain_mask c = 0"
    with le i(2,3) domain_bit_nonzero [of d] show ?thesis by (simp add: DOMAIN_DUMMY_def unat_eq_zero)
  next
    fix e assume "e < DOMAIN_DUMMY" "ucast (max_domain_mask c) = domain_bit e" "max_domain_id c = Suc e"
    then show ?thesis using le' i(2,3) domain_bit_le [of d e] by (simp add: DOMAIN_DUMMY_def)
  qed
qed



section \<open>Taking cores from the domains\<close>





text \<open>When the first round takes nothing no later one does, and the loop never ends.\<close>

lemma take_round_stuck: "(\<forall>k \<in> set ks. bit m k \<longrightarrow> fst st k = 0) \<Longrightarrow> take_round m i ks st = st"
  by (induction m i ks st rule: take_round.induct) auto

lemma take_cores_stuck:
  assumes "\<forall>k < domains. bit m k \<longrightarrow> fst st k = 0" and "snd (snd st) \<le> i"
  shows "take_cores m domains i st = None"
proof (rule ccontr)
  assume "\<not> ?thesis"
  then obtain r where r: "take_cores m domains i st = Some r" by blast
  have "(\<forall>k < domains. bit m k \<longrightarrow> fst st k = 0) \<longrightarrow> \<not> snd (snd st) \<le> i"
  proof (rule take_cores.raw_induct [where P = "\<lambda>m domains i st r.
      (\<forall>k < domains. bit m k \<longrightarrow> fst st k = 0) \<longrightarrow> \<not> snd (snd st) \<le> i", OF _ r])
    fix f m domains i st r
    assume IH: "\<And>m domains i st r. f m domains i st = Some r \<Longrightarrow>
        (\<forall>k < domains. bit m k \<longrightarrow> fst st k = 0) \<longrightarrow> \<not> snd (snd st) \<le> i"
      and "(if snd (snd st) \<le> i then f m domains i (take_round m i [0 ..< domains] st) else Some st) = Some r"
    then show "(\<forall>k < domains. bit m k \<longrightarrow> fst st k = 0) \<longrightarrow> \<not> snd (snd st) \<le> i"
      using take_round_stuck [of "[0 ..< domains]" m st i] IH [of m domains i st r]
      by (metis atLeastLessThan_iff set_upt)
  qed
  with assms show False by blast
qed

section \<open>The rows of the table\<close>






lemma fill_rows_stuck:
  assumes "i \<in> set is" and "ucast (c ! i) = DUMMY_MASK" and "fst (b ! i) \<noteq> 0"
  shows "fill_rows c b domains on is t = None"
  using assms(1)
proof (induction "is" arbitrary: t)
  case (Cons k "is")
  have z: "cores_in_domain c i = (\<lambda>_. 0)"
  proof -
    have "fold (\<lambda>_ n. n) xs n = n" for xs :: "nat list" and n :: "nat \<Rightarrow> nat" by (induction xs) simp_all
    then show ?thesis using assms(2) by (simp add: cores_in_domain_def)
  qed
  have "take_cores (fst (b ! i)) domains i (cores_in_domain c i, t (on + i + 1), 0) = None"
    by (rule take_cores_stuck) (simp_all add: z)
  then show ?case using Cons assms(3) by (cases "k = i") (auto split: option.splits)
qed simp

section \<open>Configurations are well formed\<close>

lemma one_bit: "k < 16 \<Longrightarrow> ucast (push_bit k (1 :: 16 word)) = domain_bit k"
  unfolding domain_bit_def by (rule bit_word_eqI) (auto simp: bit_simps)

text \<open>An entry below that of the dummy domain is zero or the mask of a real domain.\<close>

definition entries_ok :: "16 word list \<Rightarrow> bool" where
  "entries_ok c \<longleftrightarrow> length c = MAX_DOMAINS \<and>
     (\<forall>i < DOMAIN_DUMMY. c ! i = 0 \<or> (\<exists>d < DOMAIN_DUMMY. ucast (c ! i) = domain_bit d))"

lemma default_config_ok:
  assumes "entries_ok c"
  shows "entries_ok (mali_pm_set_default_pm_domain_config g found c)"
proof -
  have "entries_ok (fold (\<lambda>(offset, i, k) c. if found offset then c[i := push_bit k 1] else c) es c)"
    if "list_all (\<lambda>(_, _, k). k < 12) es" for es
    using that assms
  proof (induction es arbitrary: c)
    case (Cons e es)
    obtain offset i k where e: "e = (offset, i, k)" by (cases e)
    have k: "k < DOMAIN_DUMMY" "ucast (push_bit k (1 :: 16 word)) = domain_bit k"
      using Cons.prems one_bit [of k] by (simp_all add: e DOMAIN_DUMMY_def)
    have "c[i := push_bit k 1] ! x = 0 \<or> (\<exists>d < DOMAIN_DUMMY. ucast (c[i := push_bit k 1] ! x) = domain_bit d)"
      if "x < DOMAIN_DUMMY" for x
    proof (cases "x = i \<and> i < length c")
      case False
      then have "c[i := push_bit k 1] ! x = c ! x" by (cases "x = i") (simp_all add: list_update_beyond)
      then show ?thesis using that Cons.prems(2) by (simp add: entries_ok_def)
    qed (use k in auto)
    then have "entries_ok (c[i := push_bit k 1])" using Cons.prems(2) by (simp add: entries_ok_def)
    with Cons e show ?case by simp
  qed simp
  moreover have "list_all (\<lambda>(_, _, k). k < 12) (default_domains g)" by (cases g) simp_all
  ultimately show ?thesis unfolding mali_pm_set_default_pm_domain_config_def by blast
qed

lemma config_ok_last:
  assumes "entries_ok c"
  shows "config_ok (c[DOMAIN_DUMMY := push_bit DOMAIN_DUMMY 1])"
proof -
  let ?c = "c[DOMAIN_DUMMY := push_bit DOMAIN_DUMMY 1]"
  have l: "length c = MAX_DOMAINS" "DOMAIN_DUMMY < MAX_DOMAINS" "MAX_DOMAINS = Suc DOMAIN_DUMMY"
    using assms by (simp_all add: entries_ok_def MAX_DOMAINS_def DOMAIN_DUMMY_def)
  have last: "?c ! DOMAIN_DUMMY = push_bit DOMAIN_DUMMY 1" using l by simp
  have dummy: "ucast (?c ! DOMAIN_DUMMY) = DUMMY_MASK"
    unfolding last DUMMY_MASK_def by (rule one_bit) (simp add: DOMAIN_DUMMY_def)
  moreover have "?c ! i = 0 \<or> (\<exists>d < MAX_DOMAINS. ucast (?c ! i) = domain_bit d)" if "i < MAX_DOMAINS" for i
  proof (cases "i = DOMAIN_DUMMY")
    case True
    then show ?thesis using dummy l(2) by (metis DUMMY_MASK_def)
  next
    case False
    then have "i < DOMAIN_DUMMY" using that l(3) by simp
    then have "c ! i = 0 \<or> (\<exists>d < DOMAIN_DUMMY. ucast (c ! i) = domain_bit d)" using assms by (simp add: entries_ok_def)
    moreover have "?c ! i = c ! i" using False by simp
    ultimately show ?thesis using l(2) by (metis less_trans)
  qed
  ultimately show ?thesis using l by (simp add: config_ok_def)
qed

text \<open>A group or cache that has no domain of its own goes to the dummy domain; this keeps the
  configuration well formed.\<close>

lemma register_config:
  assumes "config_ok (domain_config s)" and "i < MAX_DOMAINS"
    and "mali_pm_register_group i x s = (s', d) \<or> mali_pm_register_l2_cache i x s = (s', d)"
  shows "config_ok (domain_config s')"
proof -
  have "config_ok ((domain_config s)[i := ucast DUMMY_MASK])"
  proof -
    have "(ucast (ucast DUMMY_MASK :: 16 word) :: u32) = DUMMY_MASK" by (simp add: domain_bit_eq)
    moreover have "DUMMY_MASK = domain_bit DOMAIN_DUMMY" "DOMAIN_DUMMY < MAX_DOMAINS"
      by (simp_all add: DUMMY_MASK_def DOMAIN_DUMMY_def MAX_DOMAINS_def)
    ultimately show ?thesis using assms(1,2) by (auto simp: config_ok_def nth_list_update)
  qed
  with assms show ?thesis
    by (auto simp: mali_pm_register_group_def mali_pm_register_l2_cache_def mali_pm_domain_add_group_def
        mali_pm_domain_add_l2_cache_def upd_domain_def Let_def split: option.splits)
qed

lemma set_config_entries:
  assumes "case custom of Some u \<Rightarrow> entries_ok (u @ [0]) | None \<Rightarrow> True"
  shows "\<exists>c2. entries_ok c2 \<and>
    mali_pm_set_pmu_domain_config g found custom (replicate DOMAIN_DUMMY 0 @ [push_bit DOMAIN_DUMMY 1]) =
      c2[DOMAIN_DUMMY := push_bit DOMAIN_DUMMY 1]"
proof -
  let ?c0 = "replicate DOMAIN_DUMMY 0 @ [push_bit DOMAIN_DUMMY 1] :: 16 word list"
  define c1 where "c1 = (case custom of Some u \<Rightarrow> u @ drop (MAX_DOMAINS - 1) ?c0 | None \<Rightarrow> ?c0)"
  have c1: "entries_ok c1"
    using assms by (auto simp: c1_def entries_ok_def nth_append DOMAIN_DUMMY_def MAX_DOMAINS_def split: option.splits)
  define c2 where "c2 = (if list_all (\<lambda>i. c1 ! i = 0) [0 ..< MAX_DOMAINS - 1]
      then mali_pm_set_default_pm_domain_config g found c1 else c1)"
  have c2: "entries_ok c2" using c1 default_config_ok by (simp add: c2_def)
  have "mali_pm_set_pmu_domain_config g found custom ?c0 = c2[DOMAIN_DUMMY := push_bit DOMAIN_DUMMY 1]"
    unfolding mali_pm_set_pmu_domain_config_def Let_def c2_def c1_def ..
  with c2 show ?thesis by blast
qed

section \<open>Properties\<close>

text \<open>whatever resources are found, and with any custom configuration that gives every core one
  domain or none, the configuration of the domains is well formed, and the mask of the
  registered cores holds the real domains of its entries and not the dummy one.\<close>

theorem pmu_config_ok:
  assumes "case custom of Some u \<Rightarrow> entries_ok (u @ [0]) | None \<Rightarrow> True"
    and "c = mali_pm_set_pmu_domain_config g found custom (replicate DOMAIN_DUMMY 0 @ [push_bit DOMAIN_DUMMY 1])"
  shows "config_ok c \<and>
    (\<forall>d. bit (mali_pm_get_registered_cores_mask c) d \<longleftrightarrow>
       d < DOMAIN_DUMMY \<and> (\<exists>i < DOMAIN_DUMMY. ucast (c ! i) = domain_bit d))"
proof -
  obtain c2 where c2: "entries_ok c2" "c = c2[DOMAIN_DUMMY := push_bit DOMAIN_DUMMY 1]"
    using set_config_entries [OF assms(1)] unfolding assms(2) by blast
  note c = c2(2)
  have "bit (fold (\<lambda>i m. m OR ucast (c ! i)) is m) d \<longleftrightarrow> bit m d \<or> (\<exists>i \<in> set is. bit (ucast (c ! i) :: u32) d)"
    for "is" and m :: u32 and d
    by (induction "is" arbitrary: m) (auto simp: bit_or_iff)
  then have "bit (mali_pm_get_registered_cores_mask c) d \<longleftrightarrow> (\<exists>i < DOMAIN_DUMMY. bit (ucast (c ! i) :: u32) d)" for d
    by (auto simp: mali_pm_get_registered_cores_mask_def)
  moreover have "bit (ucast (c ! i) :: u32) d \<longleftrightarrow> d < DOMAIN_DUMMY \<and> ucast (c ! i) = domain_bit d"
    if "i < DOMAIN_DUMMY" for i d
  proof -
    have "c ! i = 0 \<or> (\<exists>d < DOMAIN_DUMMY. ucast (c ! i) = domain_bit d)"
      using that c2(1) by (simp add: c entries_ok_def)
    then show ?thesis
    proof (elim disjE exE conjE)
      assume "c ! i = 0"
      then show ?thesis using domain_bit_nonzero [of d] by (auto simp: DOMAIN_DUMMY_def)
    next
      fix e assume "e < DOMAIN_DUMMY" "ucast (c ! i) = domain_bit e"
      then show ?thesis using domain_bit_inject [of e d] by (auto simp: DOMAIN_DUMMY_def)
    qed
  qed
  ultimately have "bit (mali_pm_get_registered_cores_mask c) d \<longleftrightarrow>
       d < DOMAIN_DUMMY \<and> (\<exists>i < DOMAIN_DUMMY. ucast (c ! i) = domain_bit d)" for d by blast
  then show ?thesis using config_ok_last [OF c2(1)] by (simp add: c)
qed

text \<open>the search over all sets of domains finds for every number of pixel processors a cheapest
  set that powers so many, or none if there is none.\<close>

theorem best_mask_is_cheapest:
  assumes "i < PHYSICAL_PP_GROUPS" and "best_masks g c ! i = (m, k)"
  shows "(m = 0 \<longleftrightarrow> (\<forall>n < 2 ^ max_domain_id c. cores_of g c (of_nat n) \<le> i)) \<and>
    (m \<noteq> 0 \<longrightarrow> i < cores_of g c m \<and> k = cost_of g c m \<and>
       (\<forall>n < 2 ^ max_domain_id c. i < cores_of g c (of_nat n) \<longrightarrow> k \<le> cost_of g c (of_nat n)))"
proof -
  have z: "cores_of g c 0 = 0"
    using stat_bounds(1) [of g c 0] by (simp add: cores_of_def pp_powered_def powers_def) (metis le_zero_eq prod.collapse)
  have "(m = 0 \<and> (\<forall>n < 2 ^ max_domain_id c. cores_of g c (of_nat n) \<le> i)) \<or>
      (m \<in> set (map of_nat [0 ..< 2 ^ max_domain_id c]) \<and> i < cores_of g c m \<and> k = cost_of g c m \<and>
       (\<forall>n < 2 ^ max_domain_id c. i < cores_of g c (of_nat n) \<longrightarrow> k \<le> cost_of g c (of_nat n)))"
    using best_masks_ok [of g c] assms by (fastforce simp: best_ok_def)
  then show ?thesis
  proof
    assume "m \<in> set (map of_nat [0 ..< 2 ^ max_domain_id c]) \<and> i < cores_of g c m \<and> k = cost_of g c m \<and>
       (\<forall>n < 2 ^ max_domain_id c. i < cores_of g c (of_nat n) \<longrightarrow> k \<le> cost_of g c (of_nat n))"
    moreover from this have "m \<noteq> 0" using z by (cases "m = 0") auto
    moreover from calculation obtain n where "n < 2 ^ max_domain_id c" "m = of_nat n" by auto
    ultimately show ?thesis by (auto simp: not_le)
  qed simp
qed


text \<open>C39: otherwise setting up the table does not end: the check for always-on cores looks at the entry of
  the loop counter of the outer loop, so that one such core hides the cores of all domains.\<close>

theorem power_cost_hangs:
  assumes "i < cores - always_on_pp_cores c" and "ucast (c ! i) = DUMMY_MASK" and "fst (best_masks g c ! i) \<noteq> 0"
  shows "mali_pm_power_cost_setup g c cores = None"
  using assms fill_rows_stuck [of i "[0 ..< cores - always_on_pp_cores c]" c "best_masks g c"]
  by (simp add: mali_pm_power_cost_setup_def Let_def)

section \<open>Examples\<close>

text \<open>A Mali-400 with two pixel processors in domains of their own, and one with a single pixel processor
  whose geometry processor and L2 cache are always on.\<close>

definition mali400_mp2 :: "16 word list" where
  "mali400_mp2 = [1, 4, 8, 0, 0, 0, 0, 0, 0, 2, 0, 0, 4096]"

definition mali400_gp_on :: "16 word list" where
  "mali400_gp_on = [4096, 4, 0, 0, 0, 0, 0, 0, 0, 4096, 0, 0, 4096]"

lemma mali400_mp2_detected:
  "mali400_mp2 = mali_pm_set_pmu_domain_config Mali400 (\<lambda>off. off \<in> {0, 0x8000, 0xA000, 0x1000}) None
     (replicate DOMAIN_DUMMY 0 @ [push_bit DOMAIN_DUMMY 1])"
  by code_simp

theorem pmu_config_ok_witness:
  "config_ok mali400_mp2 \<and> bit (mali_pm_get_registered_cores_mask mali400_mp2) 3"
proof -
  have "\<exists>i < DOMAIN_DUMMY. ucast (mali400_mp2 ! i) = domain_bit 3"
    by (rule exI [of _ 2]) code_simp
  then show ?thesis
    using pmu_config_ok [OF _ mali400_mp2_detected] by (simp add: DOMAIN_DUMMY_def)
qed

lemma mali400_mp2_best: "best_masks Mali400 mali400_mp2 ! 0 = (10, 7)"
  by code_simp

theorem best_mask_is_cheapest_witness:
  "cost_of Mali400 mali400_mp2 10 = 7 \<and> 0 < cores_of Mali400 mali400_mp2 10"
  using best_mask_is_cheapest [OF _ mali400_mp2_best] by (simp add: PHYSICAL_PP_GROUPS_def)



theorem power_cost_hangs_witness: "mali_pm_power_cost_setup Mali400 mali400_gp_on 1 = None"
proof (rule power_cost_hangs [of 0])
  show "0 < 1 - always_on_pp_cores mali400_gp_on" by code_simp
  show "ucast (mali400_gp_on ! 0) = DUMMY_MASK" by code_simp
  show "fst (best_masks Mali400 mali400_gp_on ! 0) \<noteq> 0" by code_simp
qed

end
