(* ===== verification/Core_Groups.thy ===== *)
theory Core_Groups
  imports PM_Reach Timeline
begin

text \<open>
  Groups of cores behind one MMU (common/mali_group.c, mali_group.h): activation, which takes
  references to power domains, the notifications of the power manager, virtual groups and their
  children, and starting and completing jobs on a group. \<open>exec\<close> is the state of the executor
  (common/mali_executor.c), which owns the groups; its operations are in the theory of the
  executor. Commands to the cores are recorded in a log.
\<close>

section \<open>Data\<close>

datatype group_state = GROUP_INACTIVE | GROUP_ACTIVATION_PENDING | GROUP_ACTIVE

record group =
  grp_session :: "session_id option"
  grp_state :: group_state
  grp_power_is_on :: bool
  grp_is_working :: bool
  grp_start_time :: u32
  gp_core :: bool
  gp_running_job :: "jid option"
  pp_core :: bool
  pp_core_id :: u32
  pp_running_job :: "jid option"
  pp_running_sub_job :: u32
  grp_pm_domain :: nat
  l2_cache_core :: "l2id option list"
  l2_cache_core_ref_count :: "u32 list"
  parent_group :: "gid option"
  dlbu_core :: bool
  bcast_core :: bool
  disable_requested :: bool
  child_groups :: "gid list"

datatype exec_state =
    EXEC_STATE_NOT_PRESENT | EXEC_STATE_DISABLED | EXEC_STATE_EMPTY
  | EXEC_STATE_INACTIVE | EXEC_STATE_IDLE | EXEC_STATE_WORKING

text \<open>Commands to the cores, the MMUs and caches, timers and deferred work.\<close>

datatype hw_event =
    DlbuReset gid | DlbuUpdateMask gid | DlbuConfigJob gid jid | DlbuAddGroup gid gid | DlbuRemoveGroup gid gid
  | BcastReset gid | BcastDisable gid | BcastEnable gid | BcastAddGroup gid gid | BcastRemoveGroup gid gid
  | MmuReset gid | MmuActivate gid session_id | MmuActivateEmpty gid | MmuZapTlb gid | MmuZapTlbNoStall gid
  | MmuFlushFault gid | MmuMaskInterrupts gid
  | GpReset gid | GpResetAsync gid | GpStart gid jid | GpResume gid u32 u32 | GpStopBus gid | GpHardReset gid
  | GpCounters gid jid | GpHeapAddr gid jid | GpMaskInterrupts gid | GpEnableInterrupts gid
  | PpResetAsync gid | PpResetWait gid | PpStart gid jid u32 bool | PpWriteStack gid jid | PpCounters gid gid jid u32
  | PpStopBus gid | PpHardReset gid | PpMaskInterrupts gid
  | L2InvalidateConditional l2id u32 | L2Invalidate l2id
  | SecureModeEnable | SecureModeDisable | PmuReset
  | TimerMod gid | TimerDel gid
  | PmUpdateAsync | ScheduleDeferred | NotifyCoreChange | WakeNotifyCoreChange | WakeWorkingQueue
  | BottomHalfGp gid | BottomHalfPp gid | BottomHalfMmu gid
  | GpStalled jid u32 | NotificationDeleted

record exec =
  e_gpu :: gpu
  e_pm :: pm
  groups :: "gid \<Rightarrow> group"
  glob_groups :: "gid list"
  l2_pm_domain :: "l2id \<Rightarrow> nat"
  group_list_disabled :: "gid list"
  group_list_disabled_count :: u32
  group_list_inactive :: "gid list"
  group_list_inactive_count :: u32
  group_list_idle :: "gid list"
  group_list_idle_count :: u32
  group_list_working :: "gid list"
  group_list_working_count :: u32
  virtual_group :: "gid option"
  virtual_group_state :: exec_state
  gp_group :: "gid option"
  gp_group_state :: exec_state
  gp_returned_cookie :: u32
  num_physical_pp_cores_total :: u32
  num_physical_pp_cores_enabled :: u32
  core_scaling_enabled :: bool
  pause_count :: u32
  core_scaling_delay_up_mask :: "nat \<Rightarrow> int"
  gp_bound_hint :: bool
  secure_mode_supported :: bool
  secure_mode_enabled :: bool
  pmu_present :: bool
  hw_log :: "hw_event list"

definition upd_group :: "gid \<Rightarrow> (group \<Rightarrow> group) \<Rightarrow> exec \<Rightarrow> exec" where
  "upd_group g f e = e\<lparr>groups := (groups e)(g := f (groups e g))\<rparr>"

definition hw :: "hw_event list \<Rightarrow> exec \<Rightarrow> exec" where
  "hw evs e = e\<lparr>hw_log := hw_log e @ evs\<rparr>"

definition MAX_NUMBER_OF_GROUPS :: nat where "MAX_NUMBER_OF_GROUPS = 10"

section \<open>Looking at groups\<close>

definition mali_group_is_virtual :: "group \<Rightarrow> bool" where
  "mali_group_is_virtual x \<longleftrightarrow> dlbu_core x"

definition mali_group_is_in_virtual :: "group \<Rightarrow> bool" where
  "mali_group_is_in_virtual x \<longleftrightarrow> parent_group x \<noteq> None"

definition mali_group_is_working :: "gid \<Rightarrow> exec \<Rightarrow> bool" where
  "mali_group_is_working g e \<longleftrightarrow>
     (if mali_group_is_in_virtual (groups e g) then grp_is_working (groups e (the (virtual_group e)))
      else grp_is_working (groups e g))"

text \<open>\<open>runtime\<close> is the longest run time of a job, in ticks.\<close>

definition mali_group_has_timed_out :: "u32 \<Rightarrow> gid \<Rightarrow> exec \<Rightarrow> bool" where
  "mali_group_has_timed_out runtime g e \<longleftrightarrow>
     (let t = (if mali_group_is_in_virtual (groups e g) then the (virtual_group e) else g)
      in runtime \<le> tickcount (e_gpu e) - grp_start_time (groups e t))"

definition mali_group_is_empty :: "group \<Rightarrow> bool" where
  "mali_group_is_empty x \<longleftrightarrow> child_groups x = []"

text \<open>All groups but the virtual one have a first L2 cache.\<close>

definition l2_domain :: "exec \<Rightarrow> gid \<Rightarrow> nat" where
  "l2_domain e g = l2_pm_domain e (the (l2_cache_core (groups e g) ! 0))"

section \<open>Sessions, reset\<close>

definition mali_group_clear_session :: "gid \<Rightarrow> exec \<Rightarrow> exec" where
  "mali_group_clear_session g e =
     (if grp_session (groups e g) \<noteq> None
      then upd_group g (\<lambda>x. x\<lparr>grp_session := None\<rparr>) (hw [MmuActivateEmpty g] e)
      else e)"

definition mali_group_set_disable_request :: "gid \<Rightarrow> bool \<Rightarrow> exec \<Rightarrow> exec" where
  "mali_group_set_disable_request g disable e =
     (let e1 = upd_group g (\<lambda>x. x\<lparr>disable_requested := disable\<rparr>) e
      in case parent_group (groups e g) of
           Some p \<Rightarrow> if disable then upd_group p (\<lambda>x. x\<lparr>disable_requested := disable\<rparr>) e1 else e1
         | None \<Rightarrow> e1)"

definition mali_group_reset_mmu :: "gid \<Rightarrow> exec \<Rightarrow> exec" where
  "mali_group_reset_mmu g e =
     (if \<not> mali_group_is_virtual (groups e g) then hw [MmuReset g] e
      else hw (map MmuReset (child_groups (groups e g))) e)"

definition mali_group_reset_pp :: "gid \<Rightarrow> exec \<Rightarrow> exec" where
  "mali_group_reset_pp g e =
     (let x = groups e g; e1 = hw [PpResetAsync g] e
      in if \<not> mali_group_is_virtual x \<or> pp_running_job x = None then hw [PpResetWait g] e1
         else hw (map PpResetWait (child_groups x)) e1)"

definition mali_group_reset :: "gid \<Rightarrow> exec \<Rightarrow> exec" where
  "mali_group_reset g e =
     (let x = groups e g;
          e1 = (if dlbu_core x then hw [DlbuReset g] e else e);
          e2 = (if bcast_core x then hw [BcastReset g] e1 else e1);
          e3 = mali_group_reset_mmu g e2
      in if gp_core x then hw [GpReset g] e3 else mali_group_reset_pp g e3)"

definition mali_group_activate_page_directory :: "gid \<Rightarrow> session_id \<Rightarrow> bool \<Rightarrow> exec \<Rightarrow> exec" where
  "mali_group_activate_page_directory g s is_reload e =
     (if grp_session (groups e g) \<noteq> Some s \<or> is_reload
      then upd_group g (\<lambda>x. x\<lparr>grp_session := Some s\<rparr>) (hw [MmuActivate g s] e)
      else hw [MmuZapTlbNoStall g] e)"

definition mali_group_recovery_reset :: "gid \<Rightarrow> exec \<Rightarrow> exec" where
  "mali_group_recovery_reset g e =
     (let x = groups e g;
          e1 = hw [if pp_core x then PpStopBus g else GpStopBus g, MmuFlushFault g] e;
          e2 = (if pp_core x
                then (if mali_group_is_virtual x
                      then hw ([BcastDisable g] @ map PpHardReset (child_groups x) @ [BcastEnable g]) e1
                      else hw [PpHardReset g] e1)
                else hw [GpHardReset g] e1)
      in upd_group g (\<lambda>x. x\<lparr>grp_session := None\<rparr>) (hw [MmuReset g] e2))"

section \<open>Activation\<close>

text \<open>A virtual group becomes active only with all its children; those before the first one without power
  are set active even then.\<close>

fun activate_children :: "gid list \<Rightarrow> exec \<Rightarrow> exec \<times> bool" where
  "activate_children [] e = (e, True)"
| "activate_children (c # cs) e =
     (if \<not> grp_power_is_on (groups e c) then (e, False)
      else activate_children cs (upd_group c (\<lambda>x. x\<lparr>grp_state := GROUP_ACTIVE\<rparr>) e))"

definition mali_group_set_active :: "gid \<Rightarrow> exec \<Rightarrow> exec \<times> bool" where
  "mali_group_set_active g e =
     (if mali_group_is_virtual (groups e g)
      then case activate_children (child_groups (groups e g)) e of
             (e1, False) \<Rightarrow> (e1, False)
           | (e1, True) \<Rightarrow>
               (upd_group g (\<lambda>x. x\<lparr>grp_state := GROUP_ACTIVE\<rparr>) (mali_group_reset g e1), True)
      else (upd_group g (\<lambda>x. x\<lparr>grp_state := GROUP_ACTIVE\<rparr>) e, True))"

text \<open>The domains a group takes references to, each with the group it is taken for.\<close>

definition activation_domains :: "gid \<Rightarrow> exec \<Rightarrow> (nat \<times> gid option) list" where
  "activation_domains g e =
     (if mali_group_is_virtual (groups e g)
      then concat (map (\<lambda>c. [(grp_pm_domain (groups e c), Some c), (l2_domain e c, None)]) (child_groups (groups e g)))
      else [(l2_domain e g, None)]) @ [(grp_pm_domain (groups e g), Some g)]"

definition set_pending :: "gid \<Rightarrow> exec \<Rightarrow> exec" where
  "set_pending g = upd_group g (\<lambda>x. x\<lparr>grp_state := GROUP_ACTIVATION_PENDING\<rparr>)"

definition mali_group_activate :: "gid \<Rightarrow> exec \<Rightarrow> exec \<times> group_state" where
  "mali_group_activate g e =
     (if grp_state (groups e g) = GROUP_INACTIVE
      then let e1 = set_pending g (if mali_group_is_virtual (groups e g)
                                   then fold set_pending (child_groups (groups e g)) e else e);
               (p, all_groups_on) = mali_pm_get_domain_refs (\<lambda>k. grp_power_is_on (groups e1 k))
                                      (activation_domains g e) (e_pm e);
               e2 = e1\<lparr>e_pm := p\<rparr>;
               e3 = (if all_groups_on then fst (mali_group_set_active g e2) else e2)
           in (e3, grp_state (groups e3 g))
      else (e, grp_state (groups e g)))"

definition deactivation_domains :: "gid \<Rightarrow> exec \<Rightarrow> nat list" where
  "deactivation_domains g e = grp_pm_domain (groups e g) #
     (if mali_group_is_virtual (groups e g)
      then concat (map (\<lambda>c. [grp_pm_domain (groups e c), l2_domain e c]) (child_groups (groups e g)))
      else [l2_domain e g])"

definition set_inactive :: "gid \<Rightarrow> exec \<Rightarrow> exec" where
  "set_inactive g = upd_group g (\<lambda>x. x\<lparr>grp_state := GROUP_INACTIVE\<rparr>)"

definition mali_group_deactivate :: "gid \<Rightarrow> exec \<Rightarrow> exec \<times> bool" where
  "mali_group_deactivate g e =
     (let e1 = set_inactive g e;
          e2 = (if mali_group_is_virtual (groups e g)
                then hw [BcastDisable g] (mali_group_clear_session g (fold set_inactive (child_groups (groups e g)) e1))
                else e1);
          (p, power_down) = mali_pm_put_domain_refs (deactivation_domains g e) (e_pm e2)
      in (e2\<lparr>e_pm := p\<rparr>, power_down))"

definition mali_group_power_up :: "gid \<Rightarrow> exec \<Rightarrow> exec" where
  "mali_group_power_up g e =
     (let e1 = upd_group g (\<lambda>x. x\<lparr>grp_power_is_on := True\<rparr>) e; x = groups e1 g;
          e2 = (if \<not> mali_group_is_virtual x \<and> \<not> mali_group_is_in_virtual x then mali_group_reset g e1 else e1)
      in if mali_group_is_virtual x then hw [BcastReset g, DlbuUpdateMask g] e2 else e2)"

definition mali_group_power_down :: "gid \<Rightarrow> exec \<Rightarrow> exec" where
  "mali_group_power_down g e =
     (let e1 = upd_group g (\<lambda>x. x\<lparr>grp_power_is_on := False\<rparr>) e
      in if mali_group_is_virtual (groups e1 g) then e1 else mali_group_clear_session g e1)"

section \<open>Virtual groups\<close>

text \<open>The two L2 cache slots of a virtual group count the children behind each cache.\<close>

definition count_l2_cache :: "l2id option \<Rightarrow> group \<Rightarrow> group" where
  "count_l2_cache l x =
     (let found = filter (\<lambda>i. l2_cache_core x ! i = l) [0 ..< 2]
      in if found \<noteq> []
         then fold (\<lambda>i x. x\<lparr>l2_cache_core_ref_count :=
                (l2_cache_core_ref_count x)[i := l2_cache_core_ref_count x ! i + 1]\<rparr>) found x
         else let i = (if l2_cache_core x ! 0 = None then 0 else 1)
              in x\<lparr>l2_cache_core := (l2_cache_core x)[i := l],
                   l2_cache_core_ref_count := (l2_cache_core_ref_count x)[i := l2_cache_core_ref_count x ! i + 1]\<rparr>)"

definition uncount_l2_cache :: "l2id option \<Rightarrow> group \<Rightarrow> group" where
  "uncount_l2_cache l x =
     (let i = (if l = l2_cache_core x ! 0 then 0 else 1);
          x1 = x\<lparr>l2_cache_core_ref_count := (l2_cache_core_ref_count x)[i := l2_cache_core_ref_count x ! i - 1]\<rparr>
      in if l2_cache_core_ref_count x1 ! i = 0 then x1\<lparr>l2_cache_core := (l2_cache_core x1)[i := None]\<rparr> else x1)"

definition virtual_units_changed :: "gid \<Rightarrow> exec \<Rightarrow> exec" where
  "virtual_units_changed p e =
     (if grp_power_is_on (groups e p) then hw [BcastReset p, DlbuUpdateMask p] e else e)"

text \<open>A child that has power takes over the session of its parent, and starts on its running job.\<close>

definition mali_group_add_group :: "gid \<Rightarrow> gid \<Rightarrow> exec \<Rightarrow> exec" where
  "mali_group_add_group p c e =
     (let e1 = upd_group p (\<lambda>x. x\<lparr>child_groups := child_groups x @ [c]\<rparr>) e;
          e2 = upd_group c (\<lambda>x. x\<lparr>parent_group := Some p\<rparr>) e1;
          e3 = upd_group p (count_l2_cache (l2_cache_core (groups e2 c) ! 0)) e2;
          e4 = virtual_units_changed p (hw [BcastAddGroup p c, DlbuAddGroup p c] e3);
          ps = grp_session (groups e4 p); cs = grp_session (groups e4 c);
          e5 = (if grp_power_is_on (groups e4 c)
                then (case ps of
                        None \<Rightarrow> if cs \<noteq> None then hw [MmuActivateEmpty c] e4 else e4
                      | Some s \<Rightarrow> upd_group c (\<lambda>x. x\<lparr>grp_session := None\<rparr>)
                                    (hw [if ps = cs then MmuZapTlb c else MmuActivate c s] e4))
                else e4)
      in case pp_running_job (groups e5 p) of
           Some j \<Rightarrow> hw [PpStart c j (pp_core_id (groups e5 c)) True] e5
         | None \<Rightarrow> e5)"

definition mali_group_remove_group :: "gid \<Rightarrow> gid \<Rightarrow> exec \<Rightarrow> exec" where
  "mali_group_remove_group p c e =
     (let e1 = virtual_units_changed p (hw [BcastRemoveGroup p c, DlbuRemoveGroup p c] e);
          e2 = upd_group c (\<lambda>x. x\<lparr>grp_session := grp_session (groups e1 p), parent_group := None\<rparr>) e1;
          e3 = upd_group p (\<lambda>x. x\<lparr>child_groups := remove1 c (child_groups x)\<rparr>) e2;
          e4 = (if child_groups (groups e3 p) = [] then upd_group p (\<lambda>x. x\<lparr>grp_session := None\<rparr>) e3 else e3)
      in upd_group p (uncount_l2_cache (l2_cache_core (groups e4 c) ! 0)) e4)"

text \<open>The last child is taken.\<close>

definition mali_group_acquire_group :: "gid \<Rightarrow> exec \<Rightarrow> exec \<times> gid option" where
  "mali_group_acquire_group p e =
     (case rev (child_groups (groups e p)) of
        [] \<Rightarrow> (e, None)
      | c # _ \<Rightarrow>
          let e1 = mali_group_remove_group p c e
          in (if grp_state (groups e1 p) \<noteq> GROUP_ACTIVE \<and> grp_power_is_on (groups e1 c)
              then mali_group_reset c e1 else e1, Some c))"

section \<open>Jobs on a group\<close>

definition start_timer :: "gid \<Rightarrow> exec \<Rightarrow> exec" where
  "start_timer g e = hw [TimerMod g] (upd_group g (\<lambda>x. x\<lparr>grp_start_time := tickcount (e_gpu e)\<rparr>) e)"

definition mali_group_start_gp_job :: "gid \<Rightarrow> jid \<Rightarrow> bool \<Rightarrow> exec \<Rightarrow> exec" where
  "mali_group_start_gp_job g j secure_pre e =
     (let job = g_gp (e_gpu e) j;
          e1 = hw [L2InvalidateConditional (the (l2_cache_core (groups e g) ! 0)) (gp_cache_order job)] e;
          e2 = (if secure_mode_enabled e1
                then hw (SecureModeDisable # (if pmu_present e1 then [PmuReset] else [])) (e1\<lparr>secure_mode_enabled := False\<rparr>)
                else e1);
          e3 = (if secure_pre
                then mali_group_activate_page_directory g (gp_session job) True (mali_group_reset g e2)
                else mali_group_activate_page_directory g (gp_session job) False e2)
      in start_timer g (upd_group g (\<lambda>x. x\<lparr>gp_running_job := Some j, grp_is_working := True\<rparr>) (hw [GpStart g j] e3)))"

definition switch_secure_mode :: "bool \<Rightarrow> exec \<Rightarrow> exec" where
  "switch_secure_mode protected e =
     (if protected \<and> \<not> secure_mode_enabled e
      then hw (SecureModeEnable # (if pmu_present e then [PmuReset] else [])) (e\<lparr>secure_mode_enabled := True\<rparr>)
      else if \<not> protected \<and> secure_mode_enabled e
      then hw (SecureModeDisable # (if pmu_present e then [PmuReset] else [])) (e\<lparr>secure_mode_enabled := False\<rparr>)
      else e)"

definition mali_group_start_pp_job :: "gid \<Rightarrow> jid \<Rightarrow> u32 \<Rightarrow> bool \<Rightarrow> exec \<Rightarrow> exec" where
  "mali_group_start_pp_job g j sub_job secure_pre e =
     (let job = g_pp (e_gpu e) j; x = groups e g; protected = mali_pp_job_is_protected_job job;
          e1 = hw (map (\<lambda>i. L2InvalidateConditional (the (l2_cache_core x ! i)) (pp_cache_order job))
                    (filter (\<lambda>i. l2_cache_core x ! i \<noteq> None) [0 ..< 2])) e;
          e2 = switch_secure_mode protected e1;
          e3 = (if (protected \<and> \<not> secure_pre) \<or> (\<not> protected \<and> secure_pre)
                then mali_group_activate_page_directory g (pp_session job) True (mali_group_reset g e2)
                else mali_group_activate_page_directory g (pp_session job) False e2);
          e4 = (if mali_group_is_virtual x
                then hw (DlbuConfigJob g j # map (\<lambda>c. PpWriteStack c j) (child_groups x)) e3 else e3)
      in start_timer g (upd_group g (\<lambda>x. x\<lparr>pp_running_job := Some j, pp_running_sub_job := sub_job,
           grp_is_working := True\<rparr>) (hw [PpStart g j sub_job False] e4)))"

definition mali_group_resume_gp_with_new_heap :: "gid \<Rightarrow> u32 \<Rightarrow> u32 \<Rightarrow> exec \<Rightarrow> exec" where
  "mali_group_resume_gp_with_new_heap g start_addr end_addr e =
     hw [L2Invalidate (the (l2_cache_core (groups e g) ! 0)), MmuZapTlbNoStall g, GpResume g start_addr end_addr] e"

text \<open>\<open>reset_ok\<close> is the answer of the core to the soft reset after a successful job.\<close>

definition mali_group_complete_pp :: "bool \<Rightarrow> gid \<Rightarrow> bool \<Rightarrow> exec \<Rightarrow> exec \<times> jid \<times> u32" where
  "mali_group_complete_pp reset_ok g success e =
     (let x = groups e g; j = the (pp_running_job x); sub_job = pp_running_sub_job x;
          e1 = hw [TimerDel g] e;
          e2 = (if mali_group_is_virtual x
                then hw (map (\<lambda>c. PpCounters g c j (pp_core_id (groups e c))) (child_groups x)) e1
                else hw [PpCounters g g j sub_job] e1);
          e3 = (if success then hw [PpResetAsync g] e2 else e2);
          e4 = upd_group g (\<lambda>x. x\<lparr>pp_running_job := None, grp_is_working := False\<rparr>) e3
      in (if success \<and> reset_ok then e4 else mali_group_recovery_reset g e4, j, sub_job))"

definition mali_group_complete_gp :: "bool \<Rightarrow> gid \<Rightarrow> bool \<Rightarrow> exec \<Rightarrow> exec \<times> jid" where
  "mali_group_complete_gp reset_ok g success e =
     (let x = groups e g; j = the (gp_running_job x);
          e1 = hw [TimerDel g, GpCounters g j, GpHeapAddr g j] e;
          e2 = (if success then hw [GpResetAsync g] e1 else e1);
          e3 = upd_group g (\<lambda>x. x\<lparr>gp_running_job := None, grp_is_working := False\<rparr>) e2
      in (if success \<and> reset_ok then e3 else mali_group_recovery_reset g e3, j))"

text \<open>\<open>zap_ok\<close> is the answer of the MMU; it fails when there is a page fault to be handled.\<close>

definition mali_group_zap_session :: "bool \<Rightarrow> gid \<Rightarrow> session_id \<Rightarrow> exec \<Rightarrow> exec \<times> bool" where
  "mali_group_zap_session zap_ok g s e =
     (if grp_session (groups e g) \<noteq> Some s then (e, True)
      else if grp_is_working (groups e g) then (hw [MmuZapTlb g] e, zap_ok)
      else (mali_group_clear_session g e, True))"

section \<open>Creating and deleting groups\<close>

text \<open>\<open>g\<close> names the new object; \<open>malloc_ok\<close> and \<open>timer_ok\<close> tell whether its allocations succeed.\<close>

definition mali_group_create ::
    "bool \<Rightarrow> bool \<Rightarrow> gid \<Rightarrow> l2id option \<Rightarrow> bool \<Rightarrow> bool \<Rightarrow> nat \<Rightarrow> exec \<Rightarrow> exec \<times> bool" where
  "mali_group_create malloc_ok timer_ok g core dlbu bcast domain_index e =
     (if MAX_NUMBER_OF_GROUPS \<le> length (glob_groups e) then (e, False)
      else if \<not> malloc_ok \<or> \<not> timer_ok then (e, False)
      else let x = \<lparr>grp_session = None, grp_state = GROUP_INACTIVE, grp_power_is_on = False, grp_is_working = False,
                 grp_start_time = 0, gp_core = False, gp_running_job = None, pp_core = False, pp_core_id = 0,
                 pp_running_job = None, pp_running_sub_job = 0, grp_pm_domain = 0, l2_cache_core = [core, None],
                 l2_cache_core_ref_count = [0, 0], parent_group = None, dlbu_core = dlbu, bcast_core = bcast,
                 disable_requested = False, child_groups = []\<rparr>;
               (p, d) = mali_pm_register_group domain_index g (e_pm e);
               e1 = e\<lparr>groups := (groups e)(g := x), glob_groups := glob_groups e @ [g]\<rparr>
           in (if core \<noteq> None \<or> dlbu \<or> bcast
               then upd_group g (\<lambda>x. x\<lparr>grp_pm_domain := d\<rparr>) (e1\<lparr>e_pm := p\<rparr>) else e1, True))"

definition mali_group_add_gp_core :: "bool \<Rightarrow> gid \<Rightarrow> exec \<Rightarrow> exec \<times> osk_err" where
  "mali_group_add_gp_core work_ok g e = (upd_group g (\<lambda>x. x\<lparr>gp_core := True\<rparr>) e, if work_ok then ERR_OK else ERR_FAULT)"

definition mali_group_add_pp_core :: "bool \<Rightarrow> gid \<Rightarrow> u32 \<Rightarrow> exec \<Rightarrow> exec \<times> osk_err" where
  "mali_group_add_pp_core work_ok g i e =
     (upd_group g (\<lambda>x. x\<lparr>pp_core := True, pp_core_id := i\<rparr>) e, if work_ok then ERR_OK else ERR_FAULT)"

definition mali_group_remove_gp_core :: "gid \<Rightarrow> exec \<Rightarrow> exec" where
  "mali_group_remove_gp_core g = upd_group g (\<lambda>x. x\<lparr>gp_core := False\<rparr>)"

definition mali_group_remove_pp_core :: "gid \<Rightarrow> exec \<Rightarrow> exec" where
  "mali_group_remove_pp_core g = upd_group g (\<lambda>x. x\<lparr>pp_core := False\<rparr>)"

text \<open>The last group of the array takes the place of the one that is deleted.\<close>

definition glob_remove :: "gid \<Rightarrow> gid list \<Rightarrow> gid list" where
  "glob_remove g gs =
     (case filter (\<lambda>i. gs ! i = g) [0 ..< length gs] of
        [] \<Rightarrow> gs
      | i # _ \<Rightarrow> butlast (gs[i := last gs]))"

definition mali_group_delete :: "gid \<Rightarrow> exec \<Rightarrow> exec" where
  "mali_group_delete g e =
     (let e1 = (if mali_group_is_virtual (groups e g)
                then fold (\<lambda>c e. (upd_group c (\<lambda>x. x\<lparr>parent_group := None\<rparr>) e)\<lparr>glob_groups := glob_remove c (glob_groups e)\<rparr>)
                       (child_groups (groups e g)) e
                else e)
      in e1\<lparr>glob_groups := glob_remove g (glob_groups e1)\<rparr>)"

end
