(* ===== verification/Executor.thy ===== *)
theory Executor
  imports Core_Groups
begin

text \<open>
  The executor (common/mali_executor.c): the four lists of physical pixel processor groups, the
  states of the virtual and the geometry group, \<open>mali_executor_schedule\<close>, which matches queued
  jobs with groups, and what completes, aborts, enables, disables, suspends and resumes. The
  timeline system is called through \<open>cascade\<close>; \<open>fuel\<close> bounds its nested calls.
\<close>

section \<open>Lists and states\<close>

text \<open>The four lists and their counts, as the arguments that name them.\<close>

datatype group_list = Disabled | Inactive | Idle | Working

fun list_of :: "group_list \<Rightarrow> exec \<Rightarrow> gid list" where
  "list_of Disabled e = group_list_disabled e"
| "list_of Inactive e = group_list_inactive e"
| "list_of Idle e = group_list_idle e"
| "list_of Working e = group_list_working e"

fun upd_list :: "group_list \<Rightarrow> (gid list \<Rightarrow> gid list) \<Rightarrow> exec \<Rightarrow> exec" where
  "upd_list Disabled f e = e\<lparr>group_list_disabled := f (group_list_disabled e)\<rparr>"
| "upd_list Inactive f e = e\<lparr>group_list_inactive := f (group_list_inactive e)\<rparr>"
| "upd_list Idle f e = e\<lparr>group_list_idle := f (group_list_idle e)\<rparr>"
| "upd_list Working f e = e\<lparr>group_list_working := f (group_list_working e)\<rparr>"

fun count_of :: "group_list \<Rightarrow> exec \<Rightarrow> u32" where
  "count_of Disabled e = group_list_disabled_count e"
| "count_of Inactive e = group_list_inactive_count e"
| "count_of Idle e = group_list_idle_count e"
| "count_of Working e = group_list_working_count e"

fun upd_count :: "group_list \<Rightarrow> (u32 \<Rightarrow> u32) \<Rightarrow> exec \<Rightarrow> exec" where
  "upd_count Disabled f e = e\<lparr>group_list_disabled_count := f (group_list_disabled_count e)\<rparr>"
| "upd_count Inactive f e = e\<lparr>group_list_inactive_count := f (group_list_inactive_count e)\<rparr>"
| "upd_count Idle f e = e\<lparr>group_list_idle_count := f (group_list_idle_count e)\<rparr>"
| "upd_count Working f e = e\<lparr>group_list_working_count := f (group_list_working_count e)\<rparr>"

definition mali_executor_change_state_pp_physical ::
    "gid \<Rightarrow> group_list \<Rightarrow> group_list \<Rightarrow> exec \<Rightarrow> exec" where
  "mali_executor_change_state_pp_physical g old_list new_list e =
     upd_count new_list (\<lambda>n. n + 1) (upd_count old_list (\<lambda>n. n - 1)
       (upd_list new_list ((#) g) (upd_list old_list (remove1 g) e)))"

definition mali_executor_set_state_pp_physical :: "gid \<Rightarrow> group_list \<Rightarrow> exec \<Rightarrow> exec" where
  "mali_executor_set_state_pp_physical g new_list e =
     upd_count new_list (\<lambda>n. n + 1) (upd_list new_list ((#) g) e)"

definition unlist :: "gid \<Rightarrow> group_list \<Rightarrow> exec \<Rightarrow> exec" where
  "unlist g l e = upd_count l (\<lambda>n. n - 1) (upd_list l (remove1 g) e)"

definition mali_executor_group_is_in_state :: "gid \<Rightarrow> exec_state \<Rightarrow> exec \<Rightarrow> bool" where
  "mali_executor_group_is_in_state g st e \<longleftrightarrow>
     (if gp_group e = Some g then gp_group_state e = st
      else if virtual_group e = Some g \<or> mali_group_is_in_virtual (groups e g) then virtual_group_state e = st
      else g \<in> set (list_of (if st = EXEC_STATE_DISABLED then Disabled
                             else if st = EXEC_STATE_INACTIVE then Inactive
                             else if st = EXEC_STATE_IDLE then Idle else Working) e))"

definition mali_executor_is_working :: "exec \<Rightarrow> bool" where
  "mali_executor_is_working e \<longleftrightarrow>
     0 \<noteq> group_list_working_count e \<or> EXEC_STATE_WORKING = gp_group_state e \<or>
     EXEC_STATE_WORKING = virtual_group_state e"

definition mali_executor_is_suspended :: "exec \<Rightarrow> bool" where
  "mali_executor_is_suspended e \<longleftrightarrow> pause_count e > 0 \<and> \<not> mali_executor_is_working e"

definition mali_executor_has_virtual_group :: "exec \<Rightarrow> bool" where
  "mali_executor_has_virtual_group e \<longleftrightarrow> virtual_group e \<noteq> None"

definition mali_executor_virtual_group_is_usable :: "exec \<Rightarrow> bool" where
  "mali_executor_virtual_group_is_usable e \<longleftrightarrow>
     (EXEC_STATE_INACTIVE = virtual_group_state e \<or> EXEC_STATE_IDLE = virtual_group_state e) \<and>
     grp_state (groups e (the (virtual_group e))) \<noteq> GROUP_ACTIVATION_PENDING"

definition mali_executor_disable_empty_virtual :: "exec \<Rightarrow> exec" where
  "mali_executor_disable_empty_virtual e =
     (if mali_group_is_empty (groups e (the (virtual_group e)))
      then e\<lparr>virtual_group_state := EXEC_STATE_EMPTY\<rparr> else e)"

definition mali_executor_physical_rejoin_virtual :: "gid \<Rightarrow> exec \<Rightarrow> exec \<times> bool" where
  "mali_executor_physical_rejoin_virtual g e =
     (let v = the (virtual_group e); st = grp_state (groups e v);
          (e1, trigger) = (if st = GROUP_INACTIVE then mali_group_deactivate g e else (e, False));
          e2 = (if virtual_group_state e1 = EXEC_STATE_EMPTY
                then e1\<lparr>virtual_group_state := (if st = GROUP_ACTIVE then EXEC_STATE_IDLE else EXEC_STATE_INACTIVE)\<rparr>
                else e1)
      in (mali_group_add_group v g (unlist g Idle e2), trigger))"

text \<open>The loops over a list go through its elements at their start.\<close>

fun rejoin_all :: "gid list \<Rightarrow> bool \<Rightarrow> exec \<Rightarrow> exec \<times> bool" where
  "rejoin_all [] trigger e = (e, trigger)"
| "rejoin_all (g # gs) trigger e =
     (let (e1, t) = mali_executor_physical_rejoin_virtual g e in rejoin_all gs (t \<or> trigger) e1)"

fun deactivate_all :: "gid list \<Rightarrow> bool \<Rightarrow> exec \<Rightarrow> exec \<times> bool" where
  "deactivate_all [] trigger e = (e, trigger)"
| "deactivate_all (g # gs) trigger e =
     (let (e1, t) = mali_group_deactivate g e
      in deactivate_all gs (t \<or> trigger) (mali_executor_change_state_pp_physical g Idle Inactive e1))"

definition mali_executor_deactivate_list_idle :: "bool \<Rightarrow> exec \<Rightarrow> exec \<times> bool" where
  "mali_executor_deactivate_list_idle deactivate_idle_group e =
     (if group_list_idle_count e > 0
      then (if mali_executor_has_virtual_group e then rejoin_all (group_list_idle e) False e
            else if deactivate_idle_group then deactivate_all (group_list_idle e) False e
            else (e, False))
      else (e, False))"

section \<open>Scheduling\<close>

definition mali_executor_tackle_gp_bound :: "bool \<Rightarrow> exec \<Rightarrow> bool" where
  "mali_executor_tackle_gp_bound is_mali400 e \<longleftrightarrow>
     (case mali_scheduler_job_pp_physical_peek (e_gpu e) of
        Some j \<Rightarrow> is_mali400 \<and> 0 < group_list_working_count e \<and>
                  mali_pp_job_is_large_and_unstarted (g_pp (e_gpu e) j)
      | None \<Rightarrow> False)"

text \<open>Whether to return early, and whether the GPU has to be in secure mode.\<close>

definition mali_executor_schedule_is_early_out :: "exec \<Rightarrow> bool \<times> bool" where
  "mali_executor_schedule_is_early_out e =
     (if \<not> secure_mode_supported e then (False, False)
      else let J = g_pp (e_gpu e);
               next_pp_job = mali_scheduler_job_pp_next (e_gpu e);
               physical = (case group_list_working e of g # _ \<Rightarrow> pp_running_job (groups e g) | [] \<Rightarrow> None);
               virtual = (if EXEC_STATE_WORKING = virtual_group_state e
                          then pp_running_job (groups e (the (virtual_group e))) else None);
               working = (case physical of Some j \<Rightarrow> Some j | None \<Rightarrow> virtual);
               in_protected = (case working of Some j \<Rightarrow> mali_pp_job_is_protected_job (J j) | None \<Rightarrow> False);
               in_non_protected = (case working of Some j \<Rightarrow> \<not> mali_pp_job_is_protected_job (J j)
                                   | None \<Rightarrow> EXEC_STATE_WORKING = gp_group_state e)
           in case next_pp_job of
                Some j \<Rightarrow> if mali_pp_job_is_protected_job (J j)
                          then (if in_non_protected then (True, False) else (False, True))
                          else (in_protected, False)
              | None \<Rightarrow> (in_protected, False))"

text \<open>Step 2.\<close>

definition activate_gp :: "bool \<Rightarrow> exec \<Rightarrow> exec \<times> bool" where
  "activate_gp secure e =
     (if EXEC_STATE_INACTIVE = gp_group_state e \<and> 0 < depth (job_queue_gp (e_gpu e)) \<and> \<not> secure
      then case mali_group_activate (the (gp_group e)) e of
             (e1, GROUP_ACTIVE) \<Rightarrow> (e1\<lparr>gp_group_state := EXEC_STATE_IDLE\<rparr>, False)
           | (e1, _) \<Rightarrow> (e1, True)
      else (e, False))"

text \<open>Step 3.1: the state is the number of groups still needed, the number ready, and whether a power
  update has to be triggered.\<close>

fun activate_inactive :: "gid list \<Rightarrow> u32 \<Rightarrow> u32 \<Rightarrow> bool \<Rightarrow> exec \<Rightarrow> exec \<times> u32 \<times> u32 \<times> bool" where
  "activate_inactive [] needed ready trigger e = (e, needed, ready, trigger)"
| "activate_inactive (g # gs) needed ready trigger e =
     (let (e1, st) = mali_group_activate g e;
          (e2, ready1, trigger1) =
            (if st = GROUP_ACTIVE then (mali_executor_change_state_pp_physical g Inactive Idle e1, ready + 1, trigger)
             else (e1, ready, True))
      in if needed - 1 = 0 then (e2, needed - 1, ready1, trigger1)
         else activate_inactive gs (needed - 1) ready1 trigger1 e2)"

text \<open>Step 3.2, once for every group needed.\<close>

fun steal_groups :: "nat \<Rightarrow> u32 \<Rightarrow> bool \<Rightarrow> exec \<Rightarrow> exec \<times> u32 \<times> bool" where
  "steal_groups 0 ready trigger e = (e, ready, trigger)"
| "steal_groups (Suc n) ready trigger e =
     (case mali_group_acquire_group (the (virtual_group e)) e of
        (e1, None) \<Rightarrow> (e1, ready, trigger)
      | (e1, Some g) \<Rightarrow>
          let (e2, st) = mali_group_activate g (mali_executor_disable_empty_virtual e1)
          in if st = GROUP_ACTIVE
             then steal_groups n (ready + 1) trigger (mali_executor_set_state_pp_physical g Idle e2)
             else steal_groups n ready True (mali_executor_set_state_pp_physical g Inactive e2))"

text \<open>Step 3.3: whether idle groups may be deactivated, and the groups with the jobs to start on them.\<close>

fun assign_jobs :: "bool \<Rightarrow> bool \<Rightarrow> gid list \<Rightarrow> u32 \<Rightarrow> exec \<Rightarrow> (exec \<times> bool \<times> (gid \<times> jid \<times> u32) list) outcome" where
  "assign_jobs is_mali400 secure [] ready e = Done (e, True, [])"
| "assign_jobs is_mali400 secure (g # gs) ready e =
     (if \<not> secure \<and> gp_bound_hint e \<and> mali_executor_tackle_gp_bound is_mali400 e then Done (e, False, [])
      else case mali_scheduler_job_pp_physical_get (e_gpu e) of
             (\<sigma>, None) \<Rightarrow> Oops
           | (\<sigma>, Some (j, sub_job)) \<Rightarrow>
               let e1 = mali_executor_change_state_pp_physical g Idle Working (e\<lparr>e_gpu := \<sigma>\<rparr>)
               in if ready - 1 = 0 then Done (e1, True, [(g, j, sub_job)])
                  else bind_outcome (assign_jobs is_mali400 secure gs (ready - 1) e1)
                         (\<lambda>(e2, deactivate, starts). Done (e2, deactivate, (g, j, sub_job) # starts)))"

text \<open>Step 3.\<close>

definition prepare_physical ::
    "bool \<Rightarrow> bool \<Rightarrow> bool \<Rightarrow> exec \<Rightarrow> (exec \<times> bool \<times> bool \<times> (gid \<times> jid \<times> u32) list) outcome" where
  "prepare_physical is_mali400 secure trigger e =
     (let needed = mali_scheduler_job_physical_head_count secure (e_gpu e) in
      if needed = 0 then Done (e, trigger, True, [])
      else let (needed1, ready) = (if needed \<le> group_list_idle_count e then (0, needed)
                                   else (needed - group_list_idle_count e, group_list_idle_count e));
               (e1, needed2, ready1, trigger1) =
                 (if 0 < needed1 then activate_inactive (group_list_inactive e) needed1 ready trigger e
                  else (e, needed1, ready, trigger));
               (e2, ready2, trigger2) =
                 (if mali_executor_virtual_group_is_usable e1 then steal_groups (unat needed2) ready1 trigger1 e1
                  else (e1, ready1, trigger1))
           in if 0 < ready2
              then bind_outcome (assign_jobs is_mali400 secure (group_list_idle e2) ready2 e2)
                     (\<lambda>(e3, deactivate, starts). Done (e3, trigger2, deactivate, starts))
              else Done (e2, trigger2, True, []))"

text \<open>Steps 5, 7 and 8. A job fits the mode if it is protected exactly in secure mode.\<close>

definition activate_virtual :: "bool \<Rightarrow> bool \<Rightarrow> exec \<Rightarrow> exec \<times> bool" where
  "activate_virtual secure trigger e =
     (if EXEC_STATE_INACTIVE = virtual_group_state e \<and> mali_scheduler_job_next_is_virtual (e_gpu e) \<and>
         mali_pp_job_is_protected_job (g_pp (e_gpu e) (the (mali_scheduler_job_pp_virtual_peek (e_gpu e)))) = secure
      then case mali_group_activate (the (virtual_group e)) e of
             (e1, GROUP_ACTIVE) \<Rightarrow> (e1\<lparr>virtual_group_state := EXEC_STATE_IDLE\<rparr>, trigger)
           | (e1, _) \<Rightarrow> (e1, True)
      else (e, trigger))"

definition assign_virtual :: "bool \<Rightarrow> bool \<Rightarrow> exec \<Rightarrow> exec \<times> bool \<times> jid option" where
  "assign_virtual secure trigger e =
     (if EXEC_STATE_IDLE = virtual_group_state e
      then (if mali_scheduler_job_next_is_virtual (e_gpu e)
            then (if mali_pp_job_is_protected_job (g_pp (e_gpu e) (the (mali_scheduler_job_pp_virtual_peek (e_gpu e)))) = secure
                  then let (\<sigma>, j) = mali_scheduler_job_pp_virtual_get (e_gpu e)
                       in (e\<lparr>e_gpu := \<sigma>, virtual_group_state := EXEC_STATE_WORKING\<rparr>, trigger, j)
                  else (e, trigger, None))
            else if \<not> 0 < virt_pp_tracker_count (e_gpu e)
            then let (e1, t) = mali_group_deactivate (the (virtual_group e)) (e\<lparr>virtual_group_state := EXEC_STATE_INACTIVE\<rparr>)
                 in (e1, t \<or> trigger, None)
            else (e, trigger, None))
      else (e, trigger, None))"

text \<open>The queue is asserted not to be empty when its depth is not zero.\<close>

definition assign_gp :: "bool \<Rightarrow> bool \<Rightarrow> exec \<Rightarrow> (exec \<times> bool \<times> jid option) outcome" where
  "assign_gp secure trigger e =
     (if EXEC_STATE_IDLE = gp_group_state e \<and> \<not> secure
      then (if 0 < depth (job_queue_gp (e_gpu e))
            then case mali_scheduler_job_gp_get (e_gpu e) of
                   (\<sigma>, None) \<Rightarrow> Oops
                 | (\<sigma>, Some j) \<Rightarrow> Done (e\<lparr>e_gpu := \<sigma>, gp_group_state := EXEC_STATE_WORKING\<rparr>, trigger, Some j)
            else if \<not> 0 < gp_tracker_count (e_gpu e)
            then let (e1, t) = mali_group_deactivate (the (gp_group e)) (e\<lparr>gp_group_state := EXEC_STATE_INACTIVE\<rparr>)
                 in Done (e1, t \<or> trigger, None)
            else Done (e, trigger, None))
      else Done (e, trigger, None))"

text \<open>Step 10.\<close>

definition start_jobs :: "bool \<Rightarrow> jid option \<Rightarrow> (gid \<times> jid \<times> u32) list \<Rightarrow> jid option \<Rightarrow> exec \<Rightarrow> exec" where
  "start_jobs is_secure virtual_job starts gp_job e =
     (let e1 = (case virtual_job of
                  Some j \<Rightarrow> mali_group_start_pp_job (the (virtual_group e)) j 0 is_secure e | None \<Rightarrow> e);
          e2 = fold (\<lambda>(g, j, sub_job). mali_group_start_pp_job g j sub_job is_secure) starts e1
      in case gp_job of Some j \<Rightarrow> mali_group_start_gp_job (the (gp_group e2)) j is_secure e2 | None \<Rightarrow> e2)"

definition trigger_update :: "bool \<Rightarrow> exec \<Rightarrow> exec" where
  "trigger_update trigger e = (if trigger then hw [PmUpdateAsync] e else e)"

definition mali_executor_schedule :: "bool \<Rightarrow> exec \<Rightarrow> exec outcome" where
  "mali_executor_schedule is_mali400 e =
     (if pause_count e > 0 then Done e
      else case mali_executor_schedule_is_early_out e of
             (True, _) \<Rightarrow> Done e
           | (False, secure) \<Rightarrow>
               let (e1, trigger1) = activate_gp secure e
               in bind_outcome (prepare_physical is_mali400 secure trigger1 e1) (\<lambda>(e2, trigger2, deactivate, starts).
                 let (e3, t) = mali_executor_deactivate_list_idle (deactivate \<and> \<not> 0 < phy_pp_tracker_count (e_gpu e2)) e2;
                     (e4, trigger4) = activate_virtual secure (t \<or> trigger2) e3;
                     is_secure = secure_mode_enabled e4;
                     (e5, trigger5) = (if secure = is_secure then (trigger_update trigger4 e4, False) else (e4, trigger4));
                     (e6, trigger6, virtual_job) = assign_virtual secure trigger5 e5
                 in bind_outcome (assign_gp secure trigger6 e6) (\<lambda>(e7, trigger7, gp_job).
                      Done (trigger_update trigger7 (start_jobs is_secure virtual_job starts gp_job e7)))))"

text \<open>\<open>mali_executor_schedule_from_mask\<close>, and the work item of a deferred schedule.\<close>

definition mali_executor_schedule_from_mask :: "bool \<Rightarrow> scheduler_mask \<Rightarrow> bool \<Rightarrow> exec \<Rightarrow> exec outcome" where
  "mali_executor_schedule_from_mask is_mali400 msk deferred e =
     (if MASK_EMPTY \<noteq> msk
      then (if deferred then Done (hw [ScheduleDeferred] e) else mali_executor_schedule is_mali400 e)
      else Done e)"

section \<open>Enabling and disabling groups\<close>

definition mali_executor_group_enable_internal :: "gid \<Rightarrow> exec \<Rightarrow> exec" where
  "mali_executor_group_enable_internal g e =
     (let is_gp = (Some g = gp_group e);
          e1 = (if is_gp then e\<lparr>gp_group_state := EXEC_STATE_INACTIVE\<rparr>
                else (mali_executor_change_state_pp_physical g Disabled Inactive e)
                       \<lparr>num_physical_pp_cores_enabled := num_physical_pp_cores_enabled e + 1\<rparr>)
      in case mali_group_activate g e1 of
           (e2, GROUP_ACTIVE) \<Rightarrow>
             if is_gp then e2\<lparr>gp_group_state := EXEC_STATE_IDLE\<rparr>
             else let e3 = mali_executor_change_state_pp_physical g Inactive Idle e2
                  in if mali_executor_has_virtual_group e3
                     then let (e4, t) = mali_executor_physical_rejoin_virtual g e3 in trigger_update t e4
                     else e3
         | (e2, _) \<Rightarrow> hw [PmUpdateAsync] e2)"

definition mali_executor_change_group_status_disabled :: "gid \<Rightarrow> exec \<Rightarrow> exec" where
  "mali_executor_change_group_status_disabled g e =
     (if mali_executor_group_is_in_state g EXEC_STATE_IDLE e
      then mali_executor_change_state_pp_physical g Idle Disabled e
      else mali_executor_change_state_pp_physical g Inactive Disabled e)"

definition mali_executor_group_disable_internal :: "gid \<Rightarrow> exec \<Rightarrow> exec" where
  "mali_executor_group_disable_internal g e =
     (if mali_executor_group_is_in_state g EXEC_STATE_WORKING e then mali_group_set_disable_request g True e
      else let e1 = (if Some g = gp_group e then e\<lparr>gp_group_state := EXEC_STATE_DISABLED\<rparr>
                     else let e0 = (if mali_group_is_in_virtual (groups e g)
                                    then mali_executor_disable_empty_virtual
                                           (mali_group_remove_group (the (virtual_group e)) g
                                             (mali_executor_set_state_pp_physical g Disabled e))
                                    else mali_executor_change_group_status_disabled g e)
                          in e0\<lparr>num_physical_pp_cores_enabled := num_physical_pp_cores_enabled e - 1\<rparr>)
           in if grp_state (groups e1 g) \<noteq> GROUP_INACTIVE
              then let (e2, t) = mali_group_deactivate g e1 in trigger_update t e2
              else e1)"

definition mali_executor_group_enable :: "bool \<Rightarrow> gid \<Rightarrow> exec \<Rightarrow> exec outcome" where
  "mali_executor_group_enable is_mali400 g e =
     (let e1 = (if (gp_core (groups e g) \<or> pp_core (groups e g)) \<and> mali_executor_group_is_in_state g EXEC_STATE_DISABLED e
                then mali_executor_group_enable_internal g e else e)
      in bind_outcome (mali_executor_schedule is_mali400 e1) (\<lambda>e2. Done (hw [NotifyCoreChange] e2)))"

definition mali_executor_group_disable :: "bool \<Rightarrow> gid \<Rightarrow> exec \<Rightarrow> exec outcome" where
  "mali_executor_group_disable is_mali400 g e =
     (let e1 = (if (gp_core (groups e g) \<or> pp_core (groups e g)) \<and> \<not> mali_executor_group_is_in_state g EXEC_STATE_DISABLED e
                then mali_executor_group_disable_internal g e else e)
      in bind_outcome (mali_executor_schedule is_mali400 e1) (\<lambda>e2. Done (hw [NotifyCoreChange] e2)))"

section \<open>Completion\<close>

text \<open>The children of a virtual group that are to be disabled, or the group itself.\<close>

fun disable_requested_children :: "gid list \<Rightarrow> exec \<Rightarrow> exec \<times> nat" where
  "disable_requested_children [] e = (e, 0)"
| "disable_requested_children (c # cs) e =
     (if disable_requested (groups e c)
      then let e1 = mali_executor_group_disable_internal c (mali_group_set_disable_request c False e);
               (e2, n) = disable_requested_children cs e1
           in (e2, n + 1)
      else disable_requested_children cs e)"

text \<open>Enables the disabled pixel processors of one domain while its delayed number and \<open>n\<close> last.\<close>

fun enable_delayed :: "nat \<Rightarrow> gid list \<Rightarrow> nat \<Rightarrow> exec \<Rightarrow> exec \<times> nat" where
  "enable_delayed d [] n e = (e, n)"
| "enable_delayed d (g # gs) n e =
     (if pp_core (groups e g) \<and> mali_executor_group_is_in_state g EXEC_STATE_DISABLED e
      then let e1 = mali_executor_group_enable_internal g e;
               e2 = e1\<lparr>core_scaling_delay_up_mask := (core_scaling_delay_up_mask e1)
                        (d := core_scaling_delay_up_mask e1 d - 1)\<rparr>
           in if core_scaling_delay_up_mask e2 d = 0 \<or> n - 1 = 0 then (e2, n - 1)
              else enable_delayed d gs (n - 1) e2
      else enable_delayed d gs n e)"

fun enable_delayed_domains :: "nat list \<Rightarrow> nat \<Rightarrow> exec \<Rightarrow> exec" where
  "enable_delayed_domains [] n e = e"
| "enable_delayed_domains (d # ds) n e =
     (if 0 < core_scaling_delay_up_mask e d
      then (if n = 0 then e
            else case pm_domains (e_pm e) d of
                   None \<Rightarrow> enable_delayed_domains ds n e
                 | Some x \<Rightarrow> let (e1, n1) = enable_delayed d (group_list x) n e
                             in enable_delayed_domains ds n1 e1)
      else enable_delayed_domains ds n e)"

definition mali_executor_core_scale_in_group_complete :: "gid \<Rightarrow> exec \<Rightarrow> exec" where
  "mali_executor_core_scale_in_group_complete g e =
     (let (e1, disabled) =
        (if mali_group_is_virtual (groups e g)
         then let (e0, n) = disable_requested_children (child_groups (groups e g)) e
              in (mali_group_set_disable_request g False e0, n)
         else let e0 = mali_group_set_disable_request g False (mali_executor_group_disable_internal g e)
              in (e0, if pp_core (groups e0 g) then 1 else 0))
      in hw [WakeNotifyCoreChange] (enable_delayed_domains [0 ..< MAX_DOMAINS] disabled e1))"

definition release_tracker :: "nat \<Rightarrow> call \<Rightarrow> exec \<Rightarrow> exec outcome" where
  "release_tracker fuel c e = bind_outcome (cascade fuel c (e_gpu e)) (\<lambda>(\<sigma>, _). Done (e\<lparr>e_gpu := \<sigma>\<rparr>))"

definition mali_executor_complete_gp :: "nat \<Rightarrow> bool \<Rightarrow> gid \<Rightarrow> bool \<Rightarrow> exec \<Rightarrow> (exec \<times> jid) outcome" where
  "mali_executor_complete_gp fuel reset_ok g success e =
     (let (e1, j) = mali_group_complete_gp reset_ok g success e;
          e2 = e1\<lparr>gp_group_state := EXEC_STATE_IDLE\<rparr>
      in bind_outcome (release_tracker fuel (TrackerRelease (GPJob j)) e2)
           (\<lambda>e3. bind_outcome (release_tracker fuel (SignalPPTracker j success) e3) (\<lambda>e4. Done (e4, j))))"

definition mali_executor_complete_pp :: "nat \<Rightarrow> bool \<Rightarrow> gid \<Rightarrow> bool \<Rightarrow> exec \<Rightarrow> (exec \<times> jid) outcome" where
  "mali_executor_complete_pp fuel reset_ok g success e =
     (let (e1, j, sub_job) = mali_group_complete_pp reset_ok g success e;
          e2 = (if mali_group_is_virtual (groups e1 g) then e1\<lparr>virtual_group_state := EXEC_STATE_IDLE\<rparr>
                else mali_executor_change_state_pp_physical g Working Idle e1);
          e3 = e2\<lparr>e_gpu := upd_pp j (mali_pp_job_mark_sub_job_completed success) (e_gpu e2)\<rparr>
      in if mali_pp_job_is_complete (g_pp (e_gpu e3) j)
         then bind_outcome (release_tracker fuel (TrackerRelease (PPJob j)) e3) (\<lambda>e4. Done (e4, j))
         else Done (e3, j))"

text \<open>The jobs that are done: a GP job always is, a PP job when its last sub job is.\<close>

definition mali_executor_complete_group ::
    "nat \<Rightarrow> bool \<Rightarrow> bool \<Rightarrow> gid \<Rightarrow> bool \<Rightarrow> exec \<Rightarrow> (exec \<times> jid option \<times> jid option) outcome" where
  "mali_executor_complete_group fuel is_mali400 reset_ok g success e =
     bind_outcome
       (if gp_core (groups e g)
        then bind_outcome (mali_executor_complete_gp fuel reset_ok g success e) (\<lambda>(e1, j). Done (e1, Some j, None))
        else bind_outcome (mali_executor_complete_pp fuel reset_ok g success e) (\<lambda>(e1, j).
               Done (e1, None, if mali_pp_job_is_complete (g_pp (e_gpu e1) j) then Some j else None)))
       (\<lambda>(e1, gp_done, pp_done).
          bind_outcome
            (if pause_count e1 > 0
             then Done (if \<not> mali_executor_is_working e1 then hw [WakeWorkingQueue] e1 else e1)
             else if disable_requested (groups e1 g)
             then mali_executor_schedule is_mali400 (mali_executor_core_scale_in_group_complete g e1)
             else mali_executor_schedule is_mali400 e1)
            (\<lambda>e2. Done (e2, gp_done, pp_done)))"

section \<open>Notifications of the power manager\<close>

text \<open>The loop of \<open>mali_executor_group_power_up\<close>; the flags tell whether children of the virtual group were
  activated, and whether to schedule.\<close>

fun power_up_loop :: "gid list \<Rightarrow> exec \<Rightarrow> bool \<Rightarrow> bool \<Rightarrow> exec \<times> bool \<times> bool" where
  "power_up_loop [] e children do_schedule = (e, children, do_schedule)"
| "power_up_loop (g # gs) e children do_schedule =
     (let e1 = mali_group_power_up g e in
      if grp_state (groups e1 g) \<noteq> GROUP_ACTIVATION_PENDING \<or> \<not> mali_executor_group_is_in_state g EXEC_STATE_INACTIVE e1
      then power_up_loop gs e1 children do_schedule
      else let in_virtual = mali_group_is_in_virtual (groups e1 g); virtual = mali_group_is_virtual (groups e1 g);
               e2 = (if \<not> in_virtual \<and> \<not> virtual then fst (mali_group_set_active g e1) else e1);
               e3 = (if Some g = gp_group e2 then e2\<lparr>gp_group_state := EXEC_STATE_IDLE\<rparr>
                     else if \<not> in_virtual \<and> \<not> virtual then mali_executor_change_state_pp_physical g Inactive Idle e2
                     else e2)
           in power_up_loop gs e3 (children \<or> in_virtual) True)"

definition mali_executor_group_power_up :: "bool \<Rightarrow> gid list \<Rightarrow> exec \<Rightarrow> exec outcome" where
  "mali_executor_group_power_up is_mali400 gs e =
     (let (e1, children, do_schedule) = power_up_loop gs e False False;
          e2 = (if mali_executor_has_virtual_group e1 \<and> children \<and>
                   grp_state (groups e1 (the (virtual_group e1))) = GROUP_ACTIVATION_PENDING
                then case mali_group_set_active (the (virtual_group e1)) e1 of
                       (e', True) \<Rightarrow> e'\<lparr>virtual_group_state := EXEC_STATE_IDLE\<rparr>
                     | (e', False) \<Rightarrow> e'
                else e1)
      in if do_schedule then mali_executor_schedule is_mali400 e2 else Done e2)"

definition mali_executor_group_power_down :: "gid list \<Rightarrow> exec \<Rightarrow> exec" where
  "mali_executor_group_power_down gs e = fold mali_group_power_down gs e"

section \<open>Suspending and resuming\<close>

text \<open>\<open>mali_executor_suspend\<close> up to where it waits for \<open>mali_executor_is_suspended\<close>, and after.\<close>

definition suspend_begin :: "exec \<Rightarrow> exec" where
  "suspend_begin e = e\<lparr>pause_count := pause_count e + 1\<rparr>"

fun suspend_inactive :: "gid list \<Rightarrow> exec \<Rightarrow> exec" where
  "suspend_inactive [] e = e"
| "suspend_inactive (g # gs) e =
     (let e1 = (if grp_state (groups e g) = GROUP_ACTIVATION_PENDING then fst (mali_group_deactivate g e) else e);
          e2 = (case virtual_group e1 of
                  Some v \<Rightarrow> mali_group_add_group v g (unlist g Inactive e1)
                | None \<Rightarrow> e1)
      in suspend_inactive gs e2)"

definition suspend_finish :: "exec \<Rightarrow> exec" where
  "suspend_finish e =
     (let e1 = fst (mali_executor_deactivate_list_idle True e);
          gp = the (gp_group e1);
          e2 = (if grp_state (groups e1 gp) \<noteq> GROUP_INACTIVE
                then fst (mali_group_deactivate gp (e1\<lparr>gp_group_state := EXEC_STATE_INACTIVE\<rparr>)) else e1);
          e3 = (case virtual_group e2 of
                  Some v \<Rightarrow> if grp_state (groups e2 v) \<noteq> GROUP_INACTIVE
                            then fst (mali_group_deactivate v (e2\<lparr>virtual_group_state := EXEC_STATE_INACTIVE\<rparr>)) else e2
                | None \<Rightarrow> e2)
      in if 0 < group_list_inactive_count e3 then suspend_inactive (group_list_inactive e3) e3 else e3)"

definition mali_executor_resume :: "bool \<Rightarrow> exec \<Rightarrow> exec outcome" where
  "mali_executor_resume is_mali400 e =
     (let e1 = e\<lparr>pause_count := pause_count e - 1\<rparr>
      in if 0 = pause_count e1 then mali_executor_schedule is_mali400 e1 else Done e1)"

section \<open>Aborting a session\<close>

definition complete_done_gp :: "bool \<Rightarrow> exec \<times> jid option \<times> jid option \<Rightarrow> exec outcome" where
  "complete_done_gp user_notification r =
     (case r of (e, Some j, _) \<Rightarrow> Done (e\<lparr>e_gpu := mali_scheduler_complete_gp_job j False user_notification True (e_gpu e)\<rparr>)
      | (e, None, _) \<Rightarrow> Oops)"

definition complete_done_pp :: "exec \<times> jid option \<times> jid option \<Rightarrow> exec outcome" where
  "complete_done_pp r =
     (case r of (e, _, Some j) \<Rightarrow> Done (e\<lparr>e_gpu := mali_scheduler_complete_pp_job j 0 False True (e_gpu e)\<rparr>)
      | (e, _, None) \<Rightarrow> Done e)"

text \<open>The loop over the groups in the working list that satisfy the condition at their turn.\<close>

fun complete_working ::
    "nat \<Rightarrow> bool \<Rightarrow> bool \<Rightarrow> session_id \<Rightarrow> gid list \<Rightarrow> exec \<Rightarrow> exec outcome" where
  "complete_working fuel is_mali400 reset_ok s [] e = Done e"
| "complete_working fuel is_mali400 reset_ok s (g # gs) e =
     (if grp_session (groups e g) = Some s
      then bind_outcome (mali_executor_complete_group fuel is_mali400 reset_ok g False e)
             (\<lambda>r. bind_outcome (complete_done_pp r) (complete_working fuel is_mali400 reset_ok s gs))
      else complete_working fuel is_mali400 reset_ok s gs e)"

definition mali_executor_abort_session ::
    "nat \<Rightarrow> bool \<Rightarrow> bool \<Rightarrow> session_id \<Rightarrow> exec \<Rightarrow> exec outcome" where
  "mali_executor_abort_session fuel is_mali400 reset_ok s e =
     (let gp = the (gp_group e) in
      bind_outcome
        (if grp_session (groups e gp) = Some s
         then (if EXEC_STATE_WORKING = gp_group_state e
               then bind_outcome (mali_executor_complete_group fuel is_mali400 reset_ok gp False e) (complete_done_gp False)
               else Done (mali_group_clear_session gp e))
         else Done e)
        (\<lambda>e1. bind_outcome
           (case virtual_group e1 of
              Some v \<Rightarrow> if EXEC_STATE_WORKING = virtual_group_state e1 \<and> grp_session (groups e1 v) = Some s
                        then bind_outcome (mali_executor_complete_group fuel is_mali400 reset_ok v False e1) complete_done_pp
                        else Done e1
            | None \<Rightarrow> Done e1)
           (\<lambda>e2. bind_outcome (complete_working fuel is_mali400 reset_ok s (group_list_working e2) e2)
              (\<lambda>e3. Done (fold mali_group_clear_session (group_list_disabled e3)
                            (fold mali_group_clear_session (group_list_inactive e3)
                              (fold mali_group_clear_session (group_list_idle e3) e3)))))))"

section \<open>Core scaling\<close>

definition mali_executor_core_scaling_reset :: "exec \<Rightarrow> exec" where
  "mali_executor_core_scaling_reset e =
     (fold (\<lambda>g. upd_group g (\<lambda>x. x\<lparr>disable_requested := False\<rparr>)) (glob_groups e) e)
       \<lparr>core_scaling_delay_up_mask := (\<lambda>_. 0)\<rparr>"

definition scalable :: "gid \<Rightarrow> exec \<Rightarrow> bool" where
  "scalable g e \<longleftrightarrow> pp_core (groups e g) \<and> \<not> mali_group_is_virtual (groups e g)"

text \<open>The loops over the groups of one domain: \<open>t\<close> is the entry of \<open>target_core_scaling_mask\<close>.\<close>

fun disable_in_domain :: "gid list \<Rightarrow> int \<Rightarrow> exec \<Rightarrow> exec \<times> int" where
  "disable_in_domain [] t e = (e, t)"
| "disable_in_domain (g # gs) t e =
     (if scalable g e \<and> \<not> mali_executor_group_is_in_state g EXEC_STATE_DISABLED e
      then let e1 = mali_executor_group_disable_internal g e
           in if t + 1 = 0 then (e1, t + 1) else disable_in_domain gs (t + 1) e1
      else disable_in_domain gs t e)"

fun enable_in_domain :: "u32 \<Rightarrow> gid list \<Rightarrow> int \<Rightarrow> exec \<Rightarrow> exec \<times> int" where
  "enable_in_domain target [] t e = (e, t)"
| "enable_in_domain target (g # gs) t e =
     (if scalable g e \<and> mali_executor_group_is_in_state g EXEC_STATE_DISABLED e
      then let e1 = mali_executor_group_enable_internal g e
           in if t - 1 = 0 \<or> num_physical_pp_cores_enabled e1 = target then (e1, t - 1)
              else enable_in_domain target gs (t - 1) e1
      else enable_in_domain target gs t e)"

fun disable_domains :: "nat list \<Rightarrow> (nat \<Rightarrow> int) \<Rightarrow> exec \<Rightarrow> exec \<times> (nat \<Rightarrow> int)" where
  "disable_domains [] t e = (e, t)"
| "disable_domains (d # ds) t e =
     (if t d < 0
      then (case pm_domains (e_pm e) d of
              None \<Rightarrow> disable_domains ds t e
            | Some x \<Rightarrow> let (e1, n) = disable_in_domain (group_list x) (t d) e in disable_domains ds (t(d := n)) e1)
      else disable_domains ds t e)"

fun enable_domains :: "u32 \<Rightarrow> nat list \<Rightarrow> (nat \<Rightarrow> int) \<Rightarrow> exec \<Rightarrow> exec \<times> (nat \<Rightarrow> int)" where
  "enable_domains target [] t e = (e, t)"
| "enable_domains target (d # ds) t e =
     (if 0 < t d
      then (if target \<le> num_physical_pp_cores_enabled e then (e, t)
            else case pm_domains (e_pm e) d of
                   None \<Rightarrow> enable_domains target ds t e
                 | Some x \<Rightarrow> let (e1, n) = enable_in_domain target (group_list x) (t d) e
                             in enable_domains target ds (t(d := n)) e1)
      else enable_domains target ds t e)"

text \<open>\<open>costs\<close> is the table of power costs.\<close>

definition mali_executor_core_scale :: "bool \<Rightarrow> (nat \<Rightarrow> nat \<Rightarrow> nat) \<Rightarrow> u32 \<Rightarrow> exec \<Rightarrow> exec outcome" where
  "mali_executor_core_scale is_mali400 costs target e =
     (let e1 = mali_executor_core_scaling_reset e;
          t = (\<lambda>d. int (costs (unat target) d) - int (costs (unat (num_physical_pp_cores_enabled e1)) d));
          (e2, t2) = disable_domains [0 ..< MAX_DOMAINS] t e1;
          (e3, t3) = enable_domains target [0 ..< MAX_DOMAINS] t2 e2;
          e4 = e3\<lparr>core_scaling_delay_up_mask :=
                 (\<lambda>d. if d < MAX_DOMAINS \<and> 0 < t3 d then t3 d else core_scaling_delay_up_mask e3 d)\<rparr>
      in mali_executor_schedule is_mali400 e4)"

datatype perf_level_result = PERF_OK | EPERM | EINVAL

definition mali_executor_set_perf_level ::
    "bool \<Rightarrow> (nat \<Rightarrow> nat \<Rightarrow> nat) \<Rightarrow> u32 \<Rightarrow> bool \<Rightarrow> exec \<Rightarrow> (exec \<times> perf_level_result) outcome" where
  "mali_executor_set_perf_level is_mali400 costs target override e =
     (if target = num_physical_pp_cores_enabled e then Done (e, PERF_OK)
      else if \<not> core_scaling_enabled e \<and> \<not> override then Done (e, EPERM)
      else if target > num_physical_pp_cores_total e then Done (e, EINVAL)
      else if 0 = target then Done (e, EINVAL)
      else bind_outcome (mali_executor_core_scale is_mali400 costs target e)
             (\<lambda>e1. Done (hw [NotifyCoreChange] e1, PERF_OK)))"

definition mali_executor_core_scaling_is_done :: "exec \<Rightarrow> bool" where
  "mali_executor_core_scaling_is_done e \<longleftrightarrow>
     list_all (\<lambda>g. \<not> (disable_requested (groups e g) \<and> pp_core (groups e g))) (glob_groups e)"

section \<open>Populating\<close>

fun populate_physical :: "gid list \<Rightarrow> exec \<Rightarrow> exec" where
  "populate_physical [] e = e"
| "populate_physical (g # gs) e =
     (let e1 = (if mali_group_is_virtual (groups e g) then e
                else if pp_core (groups e g)
                then let e0 = (case virtual_group e of
                                 Some v \<Rightarrow> mali_group_add_group v g e
                               | None \<Rightarrow> mali_executor_set_state_pp_physical g Inactive e)
                     in e0\<lparr>num_physical_pp_cores_total := num_physical_pp_cores_total e0 + 1\<rparr>
                else e\<lparr>gp_group := Some g, gp_group_state := EXEC_STATE_INACTIVE\<rparr>)
      in populate_physical gs e1)"

definition mali_executor_populate :: "exec \<Rightarrow> exec" where
  "mali_executor_populate e =
     (let e1 = (case filter (\<lambda>g. mali_group_is_virtual (groups e g)) (glob_groups e) of
                  [] \<Rightarrow> e
                | v # _ \<Rightarrow> e\<lparr>virtual_group := Some v, virtual_group_state := EXEC_STATE_INACTIVE\<rparr>);
          e2 = populate_physical (glob_groups e1) e1
      in e2\<lparr>num_physical_pp_cores_enabled := num_physical_pp_cores_total e2\<rparr>)"

end
