(* ===== verification/Exec_View.thy ===== *)
theory Exec_View
  imports Executor
begin

text \<open>
  How the operations on groups change the executor, as far as the correctness of its bookkeeping
  is concerned: the six parts of the state that the invariant of the executor reads, and one
  equation per operation for each. Only physical groups are considered here, as on Mali-300 and
  Mali-400, which have no virtual group.
\<close>

named_theorems parts

section \<open>The parts of the state\<close>

text \<open>What never changes once the executor is populated.\<close>

definition fixed :: "exec \<Rightarrow> _" where
  "fixed e = (glob_groups e, gp_group e, virtual_group e, virtual_group_state e, num_physical_pp_cores_total e,
     l2_pm_domain e, \<lambda>g. (grp_pm_domain (groups e g), l2_cache_core (groups e g), gp_core (groups e g),
       pp_core (groups e g), parent_group (groups e g), dlbu_core (groups e g)))"

definition lists :: "exec \<Rightarrow> _" where
  "lists e = (\<lambda>l. (list_of l e, count_of l e), gp_group_state e)"

definition gst :: "exec \<Rightarrow> gid \<Rightarrow> group_state" where
  "gst e g = grp_state (groups e g)"

definition gpow :: "exec \<Rightarrow> gid \<Rightarrow> bool" where
  "gpow e g = grp_power_is_on (groups e g)"

definition busy :: "exec \<Rightarrow> gid \<Rightarrow> bool \<times> jid option \<times> jid option" where
  "busy e g = (grp_is_working (groups e g), gp_running_job (groups e g), pp_running_job (groups e g))"

definition frame :: "exec \<Rightarrow> _" where
  "frame e = (fixed e, lists e, num_physical_pp_cores_enabled e, gst e, gpow e, busy e, e_pm e)"

lemma frame_parts:
  "frame e' = frame e \<Longrightarrow> fixed e' = fixed e" "frame e' = frame e \<Longrightarrow> lists e' = lists e"
  "frame e' = frame e \<Longrightarrow> num_physical_pp_cores_enabled e' = num_physical_pp_cores_enabled e"
  "frame e' = frame e \<Longrightarrow> gst e' = gst e" "frame e' = frame e \<Longrightarrow> gpow e' = gpow e"
  "frame e' = frame e \<Longrightarrow> busy e' = busy e" "frame e' = frame e \<Longrightarrow> e_pm e' = e_pm e"
  by (simp_all add: frame_def)

lemma fixed_eq:
  assumes "fixed e' = fixed e"
  shows "glob_groups e' = glob_groups e" "gp_group e' = gp_group e" "virtual_group e' = virtual_group e"
    "virtual_group_state e' = virtual_group_state e" "num_physical_pp_cores_total e' = num_physical_pp_cores_total e"
    "l2_pm_domain e' = l2_pm_domain e" "grp_pm_domain (groups e' g) = grp_pm_domain (groups e g)"
    "l2_cache_core (groups e' g) = l2_cache_core (groups e g)" "gp_core (groups e' g) = gp_core (groups e g)"
    "pp_core (groups e' g) = pp_core (groups e g)" "parent_group (groups e' g) = parent_group (groups e g)"
    "dlbu_core (groups e' g) = dlbu_core (groups e g)"
proof -
  have "\<forall>g. grp_pm_domain (groups e' g) = grp_pm_domain (groups e g) \<and> l2_cache_core (groups e' g) = l2_cache_core (groups e g) \<and>
      gp_core (groups e' g) = gp_core (groups e g) \<and> pp_core (groups e' g) = pp_core (groups e g) \<and>
      parent_group (groups e' g) = parent_group (groups e g) \<and> dlbu_core (groups e' g) = dlbu_core (groups e g)"
    using assms by (simp add: fixed_def fun_eq_iff)
  then show "grp_pm_domain (groups e' g) = grp_pm_domain (groups e g)" "l2_cache_core (groups e' g) = l2_cache_core (groups e g)"
    "gp_core (groups e' g) = gp_core (groups e g)" "pp_core (groups e' g) = pp_core (groups e g)"
    "parent_group (groups e' g) = parent_group (groups e g)" "dlbu_core (groups e' g) = dlbu_core (groups e g)"
    by blast+
qed (use assms in \<open>simp_all add: fixed_def\<close>)

lemma lists_eq:
  assumes "lists e' = lists e"
  shows "list_of l e' = list_of l e" "count_of l e' = count_of l e" "gp_group_state e' = gp_group_state e"
proof -
  have "\<forall>l. list_of l e' = list_of l e \<and> count_of l e' = count_of l e"
    using assms by (simp add: lists_def fun_eq_iff)
  then show "list_of l e' = list_of l e" "count_of l e' = count_of l e" by blast+
qed (use assms in \<open>simp add: lists_def\<close>)

section \<open>Changes of one group\<close>

lemma upd_group_parts [simp]:
  "lists (upd_group g f e) = lists e" "e_pm (upd_group g f e) = e_pm e"
  "num_physical_pp_cores_enabled (upd_group g f e) = num_physical_pp_cores_enabled e"
  "gst (upd_group g f e) = (gst e)(g := grp_state (f (groups e g)))"
  "gpow (upd_group g f e) = (gpow e)(g := grp_power_is_on (f (groups e g)))"
  "groups (upd_group g f e) = (groups e)(g := f (groups e g))"
  "virtual_group (upd_group g f e) = virtual_group e" "e_gpu (upd_group g f e) = e_gpu e"
proof -
  have l: "list_of l (upd_group g f e) = list_of l e" "count_of l (upd_group g f e) = count_of l e" for l
    by (cases l; simp add: upd_group_def)+
  show "lists (upd_group g f e) = lists e" unfolding lists_def l by (simp add: upd_group_def)
qed (simp_all add: upd_group_def gst_def gpow_def fun_eq_iff)

lemma upd_group_fixed:
  assumes "grp_pm_domain (f (groups e g)) = grp_pm_domain (groups e g)" "l2_cache_core (f (groups e g)) = l2_cache_core (groups e g)"
    "gp_core (f (groups e g)) = gp_core (groups e g)" "pp_core (f (groups e g)) = pp_core (groups e g)"
    "parent_group (f (groups e g)) = parent_group (groups e g)" "dlbu_core (f (groups e g)) = dlbu_core (groups e g)"
  shows "fixed (upd_group g f e) = fixed e"
  using assms by (simp add: fixed_def upd_group_def fun_eq_iff)

lemma upd_group_busy:
  "busy (upd_group g f e) = (busy e)(g := (grp_is_working (f (groups e g)), gp_running_job (f (groups e g)),
     pp_running_job (f (groups e g))))"
  by (simp add: busy_def upd_group_def fun_eq_iff)

lemma self_upd: "(gst e)(g := grp_state (groups e g)) = gst e" "(gpow e)(g := grp_power_is_on (groups e g)) = gpow e"
  "(busy e)(g := (grp_is_working (groups e g), gp_running_job (groups e g), pp_running_job (groups e g))) = busy e"
  by (simp_all add: gst_def gpow_def busy_def fun_eq_iff)

text \<open>Changes of fields that the invariant does not read.\<close>

lemma upd_group_frame:
  assumes "\<And>x. grp_pm_domain (f x) = grp_pm_domain x" "\<And>x. l2_cache_core (f x) = l2_cache_core x"
    "\<And>x. gp_core (f x) = gp_core x" "\<And>x. pp_core (f x) = pp_core x" "\<And>x. parent_group (f x) = parent_group x"
    "\<And>x. dlbu_core (f x) = dlbu_core x" "\<And>x. grp_state (f x) = grp_state x"
    "\<And>x. grp_power_is_on (f x) = grp_power_is_on x" "\<And>x. grp_is_working (f x) = grp_is_working x"
    "\<And>x. gp_running_job (f x) = gp_running_job x" "\<And>x. pp_running_job (f x) = pp_running_job x"
  shows "frame (upd_group g f e) = frame e"
  using assms by (simp add: frame_def upd_group_fixed upd_group_busy self_upd)

lemma frame_updates [simp, parts]:
  "frame (e\<lparr>e_gpu := \<sigma>\<rparr>) = frame e" "frame (e\<lparr>hw_log := l\<rparr>) = frame e" "frame (e\<lparr>secure_mode_enabled := b\<rparr>) = frame e"
  "frame (e\<lparr>pause_count := n\<rparr>) = frame e" "frame (e\<lparr>core_scaling_delay_up_mask := c\<rparr>) = frame e"
  "frame (e\<lparr>core_scaling_enabled := b\<rparr>) = frame e" "frame (e\<lparr>gp_returned_cookie := n\<rparr>) = frame e"
  "frame (hw evs e) = frame e"
  by (simp_all add: frame_def fixed_def lists_def gst_def gpow_def busy_def fun_eq_iff hw_def)
    (intro allI; case_tac x; simp)+

text \<open>Sessions, resets, timers and the secure mode.\<close>

lemma frame_operations [simp]:
  "frame (mali_group_clear_session g e) = frame e" "frame (mali_group_set_disable_request g b e) = frame e"
  "frame (mali_group_reset_mmu g e) = frame e" "frame (mali_group_reset_pp g e) = frame e"
  "frame (mali_group_reset g e) = frame e" "frame (mali_group_activate_page_directory g s b e) = frame e"
  "frame (mali_group_recovery_reset g e) = frame e" "frame (switch_secure_mode b e) = frame e"
  "frame (start_timer g e) = frame e" "frame (trigger_update b e) = frame e"
proof -
  show c: "frame (mali_group_clear_session g e) = frame e" for g and e :: exec
    by (simp add: mali_group_clear_session_def upd_group_frame)
  show "frame (mali_group_set_disable_request g b e) = frame e"
    by (simp add: mali_group_set_disable_request_def Let_def upd_group_frame split: option.split)
  show m: "frame (mali_group_reset_mmu g e) = frame e" for e by (simp add: mali_group_reset_mmu_def)
  show p: "frame (mali_group_reset_pp g e) = frame e" for e by (simp add: mali_group_reset_pp_def Let_def)
  show "frame (mali_group_reset g e) = frame e" by (simp add: mali_group_reset_def Let_def m p)
  show "frame (mali_group_activate_page_directory g s b e) = frame e"
    by (simp add: mali_group_activate_page_directory_def upd_group_frame)
  show "frame (mali_group_recovery_reset g e) = frame e"
    by (simp add: mali_group_recovery_reset_def Let_def upd_group_frame)
  show "frame (switch_secure_mode b e) = frame e" by (simp add: switch_secure_mode_def)
  show "frame (start_timer g e) = frame e" by (simp add: start_timer_def upd_group_frame)
  show "frame (trigger_update b e) = frame e" by (simp add: trigger_update_def)
qed

lemma frame_fold: "(\<And>g e. frame (f g e) = frame e) \<Longrightarrow> frame (fold f gs e) = frame e"
  by (induction gs arbitrary: e) simp_all

section \<open>Operations on a group\<close>

text \<open>Only the job of a group changes, only its power, or only its state and the references to domains.\<close>

definition changes_busy :: "gid \<Rightarrow> bool \<times> jid option \<times> jid option \<Rightarrow> exec \<Rightarrow> exec \<Rightarrow> bool" where
  "changes_busy g b e e' \<longleftrightarrow> fixed e' = fixed e \<and> lists e' = lists e \<and>
     num_physical_pp_cores_enabled e' = num_physical_pp_cores_enabled e \<and> gst e' = gst e \<and> gpow e' = gpow e \<and>
     busy e' = (busy e)(g := b) \<and> e_pm e' = e_pm e"

definition changes_power :: "gid \<Rightarrow> bool \<Rightarrow> exec \<Rightarrow> exec \<Rightarrow> bool" where
  "changes_power g on e e' \<longleftrightarrow> fixed e' = fixed e \<and> lists e' = lists e \<and>
     num_physical_pp_cores_enabled e' = num_physical_pp_cores_enabled e \<and> gst e' = gst e \<and>
     gpow e' = (gpow e)(g := on) \<and> busy e' = busy e \<and> e_pm e' = e_pm e"

definition changes_state :: "gid \<Rightarrow> group_state \<Rightarrow> pm \<Rightarrow> exec \<Rightarrow> exec \<Rightarrow> bool" where
  "changes_state g st p e e' \<longleftrightarrow> fixed e' = fixed e \<and> lists e' = lists e \<and>
     num_physical_pp_cores_enabled e' = num_physical_pp_cores_enabled e \<and> gst e' = (gst e)(g := st) \<and>
     gpow e' = gpow e \<and> busy e' = busy e \<and> e_pm e' = p"

lemma changes_upd:
  assumes "frame e1 = frame e" and "frame e2 = frame (upd_group g f e1)"
    and "\<And>x. grp_pm_domain (f x) = grp_pm_domain x" "\<And>x. l2_cache_core (f x) = l2_cache_core x"
    "\<And>x. gp_core (f x) = gp_core x" "\<And>x. pp_core (f x) = pp_core x" "\<And>x. parent_group (f x) = parent_group x"
    "\<And>x. dlbu_core (f x) = dlbu_core x"
  shows "fixed e2 = fixed e" "lists e2 = lists e" "num_physical_pp_cores_enabled e2 = num_physical_pp_cores_enabled e"
    "gst e2 = (gst e)(g := grp_state (f (groups e1 g)))" "gpow e2 = (gpow e)(g := grp_power_is_on (f (groups e1 g)))"
    "busy e2 = (busy e)(g := (grp_is_working (f (groups e1 g)), gp_running_job (f (groups e1 g)), pp_running_job (f (groups e1 g))))"
    "e_pm e2 = e_pm e" "grp_state (groups e1 g) = gst e g" "grp_power_is_on (groups e1 g) = gpow e g"
    "gp_running_job (groups e1 g) = fst (snd (busy e g))" "pp_running_job (groups e1 g) = snd (snd (busy e g))"
    "grp_is_working (groups e1 g) = fst (busy e g)"
proof -
  note p = frame_parts [OF assms(1)] and q = frame_parts [OF assms(2)]
  have "fixed (upd_group g f e1) = fixed e1" by (rule upd_group_fixed) (simp_all add: assms(3-))
  with p q show "fixed e2 = fixed e" by simp
  show "lists e2 = lists e" "num_physical_pp_cores_enabled e2 = num_physical_pp_cores_enabled e" "e_pm e2 = e_pm e"
    by (simp_all add: p q)
  show "gst e2 = (gst e)(g := grp_state (f (groups e1 g)))" "gpow e2 = (gpow e)(g := grp_power_is_on (f (groups e1 g)))"
    by (simp_all add: p q)
  show "busy e2 = (busy e)(g := (grp_is_working (f (groups e1 g)), gp_running_job (f (groups e1 g)), pp_running_job (f (groups e1 g))))"
    unfolding q(6) upd_group_busy p(6) ..
  show "grp_state (groups e1 g) = gst e g" "grp_power_is_on (groups e1 g) = gpow e g"
    using p(4,5) by (simp_all add: gst_def gpow_def fun_eq_iff)
  have "busy e1 g = busy e g" by (simp add: p)
  then show "gp_running_job (groups e1 g) = fst (snd (busy e g))" "pp_running_job (groups e1 g) = snd (snd (busy e g))"
    "grp_is_working (groups e1 g) = fst (busy e g)" by (simp_all add: busy_def)
qed

lemma busy_upd:
  assumes "frame e1 = frame e" and "frame e2 = frame (upd_group g f e1)"
    and "\<And>x. grp_pm_domain (f x) = grp_pm_domain x" "\<And>x. l2_cache_core (f x) = l2_cache_core x"
    "\<And>x. gp_core (f x) = gp_core x" "\<And>x. pp_core (f x) = pp_core x" "\<And>x. parent_group (f x) = parent_group x"
    "\<And>x. dlbu_core (f x) = dlbu_core x" "\<And>x. grp_state (f x) = grp_state x" "\<And>x. grp_power_is_on (f x) = grp_power_is_on x"
  shows "changes_busy g (grp_is_working (f (groups e1 g)), gp_running_job (f (groups e1 g)), pp_running_job (f (groups e1 g))) e e2"
  using changes_upd [OF assms(1-8)] by (simp add: changes_busy_def assms(9,10))

lemma start_pp_job_parts:
  "changes_busy g (True, fst (snd (busy e g)), Some j) e (mali_group_start_pp_job g j k b e)"
proof -
  let ?f = "\<lambda>x. x\<lparr>pp_running_job := Some j, pp_running_sub_job := k, grp_is_working := True\<rparr>"
  obtain e1 where s: "mali_group_start_pp_job g j k b e = start_timer g (upd_group g ?f e1)" and f: "frame e1 = frame e"
    by (simp add: mali_group_start_pp_job_def Let_def)
  have "frame (start_timer g (upd_group g ?f e1)) = frame (upd_group g ?f e1)" by simp
  from busy_upd [OF f this] changes_upd(10) [OF f this] show ?thesis unfolding s by simp
qed

lemma start_gp_job_parts:
  "changes_busy g (True, Some j, snd (snd (busy e g))) e (mali_group_start_gp_job g j b e)"
proof -
  let ?f = "\<lambda>x. x\<lparr>gp_running_job := Some j, grp_is_working := True\<rparr>"
  obtain e1 where s: "mali_group_start_gp_job g j b e = start_timer g (upd_group g ?f e1)" and f: "frame e1 = frame e"
    by (simp add: mali_group_start_gp_job_def Let_def)
  have "frame (start_timer g (upd_group g ?f e1)) = frame (upd_group g ?f e1)" by simp
  from busy_upd [OF f this] changes_upd(11) [OF f this] show ?thesis unfolding s by simp
qed

lemma complete_pp_parts:
  "changes_busy g (False, fst (snd (busy e g)), None) e (fst (mali_group_complete_pp r g ok e))"
  "fst (snd (mali_group_complete_pp r g ok e)) = the (snd (snd (busy e g)))"
proof -
  let ?f = "\<lambda>x. x\<lparr>pp_running_job := None, grp_is_working := False\<rparr>"
  obtain e1 where c: "fst (mali_group_complete_pp r g ok e) = (if ok \<and> r then upd_group g ?f e1
      else mali_group_recovery_reset g (upd_group g ?f e1))" and f: "frame e1 = frame e"
    by (simp add: mali_group_complete_pp_def Let_def)
  have s: "frame (fst (mali_group_complete_pp r g ok e)) = frame (upd_group g ?f e1)" unfolding c by simp
  from busy_upd [OF f s] changes_upd(10) [OF f s]
  show "changes_busy g (False, fst (snd (busy e g)), None) e (fst (mali_group_complete_pp r g ok e))" by simp
  show "fst (snd (mali_group_complete_pp r g ok e)) = the (snd (snd (busy e g)))"
    by (simp add: mali_group_complete_pp_def busy_def Let_def)
qed

lemma complete_gp_parts:
  "changes_busy g (False, None, snd (snd (busy e g))) e (fst (mali_group_complete_gp r g ok e))"
proof -
  let ?f = "\<lambda>x. x\<lparr>gp_running_job := None, grp_is_working := False\<rparr>"
  obtain e1 where c: "fst (mali_group_complete_gp r g ok e) = (if ok \<and> r then upd_group g ?f e1
      else mali_group_recovery_reset g (upd_group g ?f e1))" and f: "frame e1 = frame e"
    by (simp add: mali_group_complete_gp_def Let_def)
  have s: "frame (fst (mali_group_complete_gp r g ok e)) = frame (upd_group g ?f e1)" unfolding c by simp
  from busy_upd [OF f s] changes_upd(11) [OF f s] show ?thesis by simp
qed

lemma power_parts:
  "changes_power g True e (mali_group_power_up g e)" "changes_power g False e (mali_group_power_down g e)"
proof -
  have d: "frame (mali_group_power_up g e) = frame (upd_group g (\<lambda>x. x\<lparr>grp_power_is_on := True\<rparr>) e)"
    "frame (mali_group_power_down g e) = frame (upd_group g (\<lambda>x. x\<lparr>grp_power_is_on := False\<rparr>) e)"
    by (simp_all add: mali_group_power_up_def mali_group_power_down_def Let_def)
  note u = changes_upd [OF refl d(1)] and v = changes_upd [OF refl d(2)]
  show "changes_power g True e (mali_group_power_up g e)" "changes_power g False e (mali_group_power_down g e)"
    using u v by (simp_all add: changes_power_def)
qed

text \<open>Activating takes references to the L2 cache's domain and the group's own, deactivating gives them back.\<close>

definition own :: "exec \<Rightarrow> gid \<Rightarrow> nat" where "own e g = grp_pm_domain (groups e g)"

definition physical :: "exec \<Rightarrow> gid \<Rightarrow> bool" where
  "physical e g \<longleftrightarrow> virtual_group e = None \<and> parent_group (groups e g) = None \<and> \<not> dlbu_core (groups e g)"

lemma fixed_simps:
  assumes "fixed e' = fixed e"
  shows "own e' = own e" "l2_domain e' = l2_domain e" "physical e' = physical e"
  using fixed_eq [OF assms] by (simp_all add: own_def l2_domain_def physical_def fun_eq_iff)

lemma set_active_parts:
  "physical e g \<Longrightarrow> changes_state g GROUP_ACTIVE (e_pm e) e (fst (mali_group_set_active g e))"
  using changes_upd [OF refl refl, where e = e and g = g and f = "\<lambda>x. x\<lparr>grp_state := GROUP_ACTIVE\<rparr>"]
  by (simp add: mali_group_set_active_def mali_group_is_virtual_def physical_def changes_state_def)

lemma e_pm_update [simp]:
  "fixed (e\<lparr>e_pm := p\<rparr>) = fixed e" "lists (e\<lparr>e_pm := p\<rparr>) = lists e" "gst (e\<lparr>e_pm := p\<rparr>) = gst e"
  "gpow (e\<lparr>e_pm := p\<rparr>) = gpow e" "busy (e\<lparr>e_pm := p\<rparr>) = busy e"
proof -
  have "list_of l (e\<lparr>e_pm := p\<rparr>) = list_of l e" "count_of l (e\<lparr>e_pm := p\<rparr>) = count_of l e" for l by (cases l; simp)+
  then show "lists (e\<lparr>e_pm := p\<rparr>) = lists e" by (simp add: lists_def)
qed (simp_all add: fixed_def gst_def gpow_def busy_def fun_eq_iff)

lemma activate_parts:
  assumes "physical e g" and i: "gst e g = GROUP_INACTIVE"
    and p: "mali_pm_get_domain_refs (gpow e) [(l2_domain e g, None), (own e g, Some g)] (e_pm e) = (p, on)"
    and a: "mali_group_activate g e = (e', st)"
  shows "st = (if on then GROUP_ACTIVE else GROUP_ACTIVATION_PENDING)" "changes_state g st p e e'"
proof -
  let ?e1 = "set_pending g e"
  have v: "\<not> mali_group_is_virtual (groups e g)" using assms(1) by (simp add: physical_def mali_group_is_virtual_def)
  have c: "fixed ?e1 = fixed e" "lists ?e1 = lists e"
    "num_physical_pp_cores_enabled ?e1 = num_physical_pp_cores_enabled e" "gst ?e1 = (gst e)(g := GROUP_ACTIVATION_PENDING)"
    "gpow ?e1 = gpow e" "busy ?e1 = busy e" "e_pm ?e1 = e_pm e"
    using changes_upd [OF refl refl, where e = e and g = g and f = "\<lambda>x. x\<lparr>grp_state := GROUP_ACTIVATION_PENDING\<rparr>"]
    unfolding set_pending_def by simp_all
  have on: "(\<lambda>k. grp_power_is_on (groups ?e1 k)) = gpow e" unfolding c(5) [symmetric] by (simp add: gpow_def fun_eq_iff)
  have d: "activation_domains g e = [(l2_domain e g, None), (own e g, Some g)]"
    using v by (simp add: activation_domains_def own_def)
  let ?e2 = "?e1\<lparr>e_pm := p\<rparr>"
  have ph: "physical ?e2 g" using assms(1) fixed_simps(3) [of ?e2 e] c(1) by simp
  have e': "e' = (if on then fst (mali_group_set_active g ?e2) else ?e2)" "st = gst e' g"
    using a i v p on d by (auto simp: mali_group_activate_def gst_def Let_def)
  have "gst e' = (gst e)(g := (if on then GROUP_ACTIVE else GROUP_ACTIVATION_PENDING)) \<and> fixed e' = fixed e \<and>
      lists e' = lists e \<and> num_physical_pp_cores_enabled e' = num_physical_pp_cores_enabled e \<and>
      gpow e' = gpow e \<and> busy e' = busy e \<and> e_pm e' = p"
    using set_active_parts [OF ph] c by (auto simp: e' changes_state_def)
  then show "st = (if on then GROUP_ACTIVE else GROUP_ACTIVATION_PENDING)" "changes_state g st p e e'"
    using e'(2) by (auto simp: changes_state_def)
qed

lemma activate_no_change:
  "gst e g \<noteq> GROUP_INACTIVE \<Longrightarrow> mali_group_activate g e = (e, gst e g)"
  by (simp add: mali_group_activate_def gst_def)

lemma deactivate_parts:
  assumes "physical e g" and p: "mali_pm_put_domain_refs [own e g, l2_domain e g] (e_pm e) = (p, unused)"
  shows "snd (mali_group_deactivate g e) = unused" "changes_state g GROUP_INACTIVE p e (fst (mali_group_deactivate g e))"
proof -
  have v: "\<not> mali_group_is_virtual (groups e g)" using assms(1) by (simp add: physical_def mali_group_is_virtual_def)
  have d: "deactivation_domains g e = [own e g, l2_domain e g]" using v by (simp add: deactivation_domains_def own_def)
  have m: "e_pm (set_inactive g e) = e_pm e" by (simp add: set_inactive_def)
  have e': "mali_group_deactivate g e = ((set_inactive g e)\<lparr>e_pm := p\<rparr>, unused)"
    using v d p m by (simp add: mali_group_deactivate_def Let_def)
  then show "snd (mali_group_deactivate g e) = unused" by simp
  show "changes_state g GROUP_INACTIVE p e (fst (mali_group_deactivate g e))"
    using changes_upd [OF refl refl, where e = e and g = g and f = "\<lambda>x. x\<lparr>grp_state := GROUP_INACTIVE\<rparr>"]
    by (simp add: e' set_inactive_def changes_state_def)
qed

end
