(* ===== verification/Exec_Lists.thy ===== *)
theory Exec_Lists
  imports Exec_View
begin

text \<open>
  Where the executor has each group: the four lists with their counts, and the state of the
  geometry group, are one function from groups to states.
\<close>

section \<open>Places\<close>

fun state_of :: "group_list \<Rightarrow> exec_state" where
  "state_of Disabled = EXEC_STATE_DISABLED"
| "state_of Inactive = EXEC_STATE_INACTIVE"
| "state_of Idle = EXEC_STATE_IDLE"
| "state_of Working = EXEC_STATE_WORKING"

lemma state_of_inj [simp]: "state_of l = state_of l' \<longleftrightarrow> l = l'"
  by (cases l; cases l') simp_all

definition pp_groups :: "exec \<Rightarrow> gid set" where
  "pp_groups e = set (glob_groups e) - {the (gp_group e)}"

definition place :: "exec \<Rightarrow> gid \<Rightarrow> exec_state" where
  "place e g =
     (if gp_group e = Some g then gp_group_state e
      else if g \<in> set (list_of Disabled e) then EXEC_STATE_DISABLED
      else if g \<in> set (list_of Inactive e) then EXEC_STATE_INACTIVE
      else if g \<in> set (list_of Idle e) then EXEC_STATE_IDLE
      else if g \<in> set (list_of Working e) then EXEC_STATE_WORKING
      else EXEC_STATE_NOT_PRESENT)"

text \<open>The lists are a partition of the pixel processor groups, and the counts are their lengths.\<close>

definition lists_ok :: "exec \<Rightarrow> bool" where
  "lists_ok e \<longleftrightarrow> (\<exists>g0 \<in> set (glob_groups e). gp_group e = Some g0) \<and> gp_group_state e \<in> range state_of \<and>
     (\<forall>l. distinct (list_of l e) \<and> unat (count_of l e) = length (list_of l e)) \<and>
     (\<forall>l l'. l \<noteq> l' \<longrightarrow> set (list_of l e) \<inter> set (list_of l' e) = {}) \<and>
     (\<Union>l. set (list_of l e)) = pp_groups e \<and> length (glob_groups e) \<le> MAX_NUMBER_OF_GROUPS"

definition enabled_ok :: "exec \<Rightarrow> bool" where
  "enabled_ok e \<longleftrightarrow> unat (num_physical_pp_cores_enabled e) = card {g \<in> pp_groups e. place e g \<noteq> EXEC_STATE_DISABLED}"

lemma lists_views:
  assumes "fixed e' = fixed e" and "lists e' = lists e"
  shows "place e' = place e" "lists_ok e' = lists_ok e"
proof -
  note f = fixed_eq [OF assms(1)] and l = lists_eq [OF assms(2)]
  show "place e' = place e" unfolding place_def l f fun_eq_iff by blast
  show "lists_ok e' = lists_ok e" unfolding lists_ok_def pp_groups_def l f by blast
qed

lemma pp_groups_fixed: "fixed e' = fixed e \<Longrightarrow> pp_groups e' = pp_groups e"
  by (simp add: pp_groups_def fixed_eq(1,2) [of e' e])

lemma place_iff:
  assumes "lists_ok e"
  shows "g \<in> set (list_of l e) \<longleftrightarrow> g \<in> pp_groups e \<and> place e g = state_of l"
proof -
  obtain g0 where g0: "gp_group e = Some g0" using assms by (auto simp: lists_ok_def)
  have u: "g \<in> pp_groups e \<longleftrightarrow> (\<exists>l. g \<in> set (list_of l e))" for g
    using assms unfolding lists_ok_def by blast
  have d: "g \<in> set (list_of l e) \<Longrightarrow> g \<in> set (list_of l' e) \<Longrightarrow> l = l'" for l l'
    using assms unfolding lists_ok_def by blast
  have p: "place e g = state_of l" if "g \<in> set (list_of l e)" for l
  proof -
    have "gp_group e \<noteq> Some g" using u that g0 by (auto simp: pp_groups_def)
    moreover have "g \<in> set (list_of l' e) \<longleftrightarrow> l' = l" for l' using that d by blast
    ultimately show ?thesis by (cases l) (simp_all add: place_def del: list_of.simps)
  qed
  show ?thesis
  proof
    assume "g \<in> pp_groups e \<and> place e g = state_of l"
    then obtain l' where "g \<in> set (list_of l' e)" "place e g = state_of l" using u by blast
    then show "g \<in> set (list_of l e)" using p [of l'] by simp
  qed (use u p in blast)
qed

lemma place_in_range:
  assumes "lists_ok e" and "g \<in> set (glob_groups e)"
  shows "place e g \<in> range state_of"
proof (cases "gp_group e = Some g")
  case True
  then show ?thesis using assms by (simp add: place_def lists_ok_def)
next
  case False
  then have "g \<in> pp_groups e" using assms by (auto simp: pp_groups_def lists_ok_def)
  then obtain l where "g \<in> set (list_of l e)" using assms(1) unfolding lists_ok_def by blast
  then show ?thesis using place_iff [OF assms(1)] by auto
qed

lemma in_state:
  assumes "lists_ok e" and "virtual_group e = None" and "parent_group (groups e g) = None" and "g \<in> set (glob_groups e)"
  shows "mali_executor_group_is_in_state g (state_of l) e \<longleftrightarrow> place e g = state_of l"
proof (cases "gp_group e = Some g")
  case True
  then show ?thesis by (simp add: mali_executor_group_is_in_state_def place_def)
next
  case False
  then have "g \<in> pp_groups e" using assms by (auto simp: pp_groups_def lists_ok_def)
  then have "place e g = state_of l \<longleftrightarrow> g \<in> set (list_of l e)" by (simp add: place_iff [OF assms(1)])
  then show ?thesis
    using False assms(2,3) by (cases l) (simp_all add: mali_executor_group_is_in_state_def mali_group_is_in_virtual_def)
qed

section \<open>Moving a group\<close>

lemma upd_list_simps [simp]:
  "list_of l (upd_list m f e) = (if l = m then f (list_of l e) else list_of l e)"
  "count_of l (upd_list m f e) = count_of l e"
  "list_of l (upd_count m h e) = list_of l e"
  "count_of l (upd_count m h e) = (if l = m then h (count_of l e) else count_of l e)"
  by (cases l; cases m; simp)+

lemma upd_list_parts [simp]:
  "fixed (upd_list m f e) = fixed e" "fixed (upd_count m h e) = fixed e"
  "gst (upd_list m f e) = gst e" "gst (upd_count m h e) = gst e" "gpow (upd_list m f e) = gpow e"
  "gpow (upd_count m h e) = gpow e" "busy (upd_list m f e) = busy e" "busy (upd_count m h e) = busy e"
  "e_pm (upd_list m f e) = e_pm e" "e_pm (upd_count m h e) = e_pm e"
  "num_physical_pp_cores_enabled (upd_list m f e) = num_physical_pp_cores_enabled e"
  "num_physical_pp_cores_enabled (upd_count m h e) = num_physical_pp_cores_enabled e"
  "gp_group_state (upd_list m f e) = gp_group_state e" "gp_group_state (upd_count m h e) = gp_group_state e"
  "e_gpu (upd_list m f e) = e_gpu e" "e_gpu (upd_count m h e) = e_gpu e"
  by (cases m; simp add: fixed_def gst_def gpow_def busy_def fun_eq_iff)+

text \<open>Only the place of one group changes.\<close>

definition moves :: "gid \<Rightarrow> exec_state \<Rightarrow> exec \<Rightarrow> exec \<Rightarrow> bool" where
  "moves g st e e' \<longleftrightarrow> fixed e' = fixed e \<and> lists_ok e' \<and> place e' = (place e)(g := st) \<and>
     num_physical_pp_cores_enabled e' = num_physical_pp_cores_enabled e \<and> gst e' = gst e \<and> gpow e' = gpow e \<and>
     busy e' = busy e \<and> e_pm e' = e_pm e"

lemma change_state_moves:
  assumes ok: "lists_ok e" and g: "g \<in> pp_groups e" "place e g = state_of a" and ab: "a \<noteq> b"
  shows "moves g (state_of b) e (mali_executor_change_state_pp_physical g a b e)" (is "moves _ _ _ ?e")
proof -
  have ga: "g \<in> set (list_of a e)" using place_iff [OF ok] g by blast
  have gb: "g \<notin> set (list_of l e)" if "l \<noteq> a" for l using place_iff [OF ok, of g l] g that by auto
  have l: "list_of l ?e = (if l = b then g # list_of l e else if l = a then remove1 g (list_of l e) else list_of l e)"
    "count_of l ?e = (if l = b then count_of l e + 1 else if l = a then count_of l e - 1 else count_of l e)" for l
    using ab by (auto simp: mali_executor_change_state_pp_physical_def)
  have f: "fixed ?e = fixed e" "gst ?e = gst e" "gpow ?e = gpow e" "busy ?e = busy e" "e_pm ?e = e_pm e"
    "gp_group_state ?e = gp_group_state e" "num_physical_pp_cores_enabled ?e = num_physical_pp_cores_enabled e"
    by (simp_all add: mali_executor_change_state_pp_physical_def)
  note x = fixed_eq [OF f(1)]
  have old: "distinct (list_of l e)" "unat (count_of l e) = length (list_of l e)" for l
    using ok by (simp_all add: lists_ok_def)
  have set_l: "set (list_of l ?e) = (if l = b then insert g (set (list_of l e)) else if l = a then set (list_of l e) - {g} else set (list_of l e))" for l
    using old(1) by (auto simp: l set_remove1_eq)
  have len: "length (list_of l e) \<le> 10" for l
  proof -
    have "set (list_of l e) \<subseteq> set (glob_groups e)" using ok unfolding lists_ok_def pp_groups_def by blast
    then have "card (set (list_of l e)) \<le> card (set (glob_groups e))" by (rule card_mono [OF finite_set])
    also have "\<dots> \<le> length (glob_groups e)" by (rule card_length)
    also have "\<dots> \<le> 10" using ok by (simp add: lists_ok_def MAX_NUMBER_OF_GROUPS_def)
    finally show ?thesis using distinct_card [OF old(1)] by simp
  qed
  have cnt: "unat (count_of l ?e) = length (list_of l ?e)" for l
  proof -
    have "unat (count_of b e + 1) = unat (count_of b e) + 1"
      using len [of b] old(2) [of b] by (simp add: unat_plus_u32)
    moreover have "unat (count_of a e - 1) = unat (count_of a e) - 1"
      using length_pos_if_in_set [OF ga] old(2) [of a] by (simp add: unat_minus_u32 Suc_le_eq del: length_greater_0_conv)
    ultimately show ?thesis
      using old(2) ga ab by (auto simp: l length_remove1)
  qed
  have dis: "distinct (list_of l ?e)" for l using old(1) gb ab by (auto simp: l distinct_remove1)
  have disj: "set (list_of l ?e) \<inter> set (list_of l' ?e) = {}" if "l \<noteq> l'" for l l'
  proof -
    have "set (list_of l e) \<inter> set (list_of l' e) = {}" using ok that by (simp add: lists_ok_def)
    then show ?thesis using gb that ab unfolding set_l by auto
  qed
  have un: "(\<Union>l. set (list_of l ?e)) = pp_groups e"
  proof -
    have u: "(\<Union>l. set (list_of l e)) = pp_groups e" using ok by (simp add: lists_ok_def)
    show ?thesis
    proof (intro set_eqI iffI)
      fix k assume "k \<in> (\<Union>l. set (list_of l ?e))"
      then obtain l where "k \<in> set (list_of l ?e)" by blast
      then have "k = g \<or> k \<in> set (list_of l e)" unfolding set_l by (auto split: if_splits)
      then show "k \<in> pp_groups e" using u g(1) by blast
    next
      fix k assume "k \<in> pp_groups e"
      then obtain m where "k \<in> set (list_of m e)" using u by blast
      then have "k \<in> set (list_of (if k = g then b else m) ?e)" by (auto simp: set_l)
      then show "k \<in> (\<Union>l. set (list_of l ?e))" by blast
    qed
  qed
  have ok': "lists_ok ?e"
    unfolding lists_ok_def pp_groups_fixed [OF f(1)] x f(6) un
    using ok dis cnt disj by (simp add: lists_ok_def)
  have "place ?e k = ((place e)(g := state_of b)) k" for k
  proof (cases "gp_group e = Some k")
    case True
    then have "k \<noteq> g" using g(1) by (auto simp: pp_groups_def)
    then show ?thesis using True by (simp add: place_def x f)
  next
    case False
    have s: "k \<in> set (list_of l ?e) \<longleftrightarrow> (if k = g then l = b else k \<in> set (list_of l e))" for l
      using gb ab unfolding set_l by auto
    show ?thesis
      unfolding place_def x(2) s using False by (cases "k = g"; cases b) (simp_all del: list_of.simps)
  qed
  then show ?thesis using ok' f by (simp add: moves_def fun_eq_iff)
qed

lemma gp_state_moves:
  assumes ok: "lists_ok e" and "gp_group e = Some g"
  shows "moves g (state_of b) e (e\<lparr>gp_group_state := state_of b\<rparr>)" (is "moves _ _ _ ?e")
proof -
  have l: "list_of l ?e = list_of l e" "count_of l ?e = count_of l e" for l by (cases l; simp)+
  have f: "fixed ?e = fixed e" "gst ?e = gst e" "gpow ?e = gpow e" "busy ?e = busy e"
    by (simp_all add: fixed_def gst_def gpow_def busy_def fun_eq_iff)
  have "lists_ok ?e" using ok unfolding lists_ok_def pp_groups_fixed [OF f(1)] l by simp
  moreover have "place ?e = (place e)(g := state_of b)" using assms(2) by (auto simp: place_def fun_eq_iff l)
  ultimately show ?thesis by (simp add: moves_def f)
qed

lemmas place_moves = change_state_moves [where b = Disabled, simplified] change_state_moves [where b = Inactive, simplified]
  change_state_moves [where b = Idle, simplified] change_state_moves [where b = Working, simplified]

lemmas gp_moves = gp_state_moves [where b = Disabled, simplified] gp_state_moves [where b = Inactive, simplified]
  gp_state_moves [where b = Idle, simplified] gp_state_moves [where b = Working, simplified]

text \<open>Without a move across \<open>EXEC_STATE_DISABLED\<close> the number of enabled pixel processors stays exact.\<close>

lemma enabled_same:
  assumes "enabled_ok e" and "fixed e' = fixed e" and "place e' = (place e)(g := st)"
    and "num_physical_pp_cores_enabled e' = num_physical_pp_cores_enabled e"
    and "g \<in> pp_groups e \<Longrightarrow> (st = EXEC_STATE_DISABLED) = (place e g = EXEC_STATE_DISABLED)"
  shows "enabled_ok e'"
proof -
  have "{k \<in> pp_groups e'. place e' k \<noteq> EXEC_STATE_DISABLED} = {k \<in> pp_groups e. place e k \<noteq> EXEC_STATE_DISABLED}"
    using assms(5) unfolding pp_groups_fixed [OF assms(2)] assms(3) by auto
  then show ?thesis using assms(1,4) by (simp add: enabled_ok_def)
qed

lemma enabled_up:
  assumes "enabled_ok e" and "fixed e' = fixed e" and "place e' = (place e)(g := st)"
    and "num_physical_pp_cores_enabled e' = num_physical_pp_cores_enabled e + 1" and "g \<in> pp_groups e"
    and "place e g = EXEC_STATE_DISABLED" and "st \<noteq> EXEC_STATE_DISABLED" and "lists_ok e"
  shows "enabled_ok e'"
proof -
  let ?A = "{k \<in> pp_groups e. place e k \<noteq> EXEC_STATE_DISABLED}"
  have "{k \<in> pp_groups e'. place e' k \<noteq> EXEC_STATE_DISABLED} = insert g ?A"
    using assms(5-7) unfolding pp_groups_fixed [OF assms(2)] assms(3) by auto
  moreover have "finite ?A" by (simp add: pp_groups_def)
  moreover have "card ?A \<le> 10"
  proof -
    have "card ?A \<le> card (set (glob_groups e))" by (rule card_mono) (auto simp: pp_groups_def)
    also have "\<dots> \<le> length (glob_groups e)" by (rule card_length)
    finally show ?thesis using assms(8) by (simp add: lists_ok_def MAX_NUMBER_OF_GROUPS_def)
  qed
  ultimately show ?thesis using assms(1,4,6) by (simp add: enabled_ok_def unat_plus_u32)
qed

lemma enabled_down:
  assumes "enabled_ok e" and "fixed e' = fixed e" and "place e' = (place e)(g := EXEC_STATE_DISABLED)"
    and "num_physical_pp_cores_enabled e' = num_physical_pp_cores_enabled e - 1" and "g \<in> pp_groups e"
    and "place e g \<noteq> EXEC_STATE_DISABLED"
  shows "enabled_ok e'"
proof -
  let ?A = "{k \<in> pp_groups e. place e k \<noteq> EXEC_STATE_DISABLED}"
  have "{k \<in> pp_groups e'. place e' k \<noteq> EXEC_STATE_DISABLED} = ?A - {g}"
    using assms(5,6) unfolding pp_groups_fixed [OF assms(2)] assms(3) by auto
  moreover have "finite ?A" "g \<in> ?A" using assms(5,6) by (simp_all add: pp_groups_def)
  moreover have "0 < card ?A" using calculation card_gt_0_iff by blast
  ultimately show ?thesis using assms(1,4) by (simp add: enabled_ok_def unat_minus_u32)
qed

end
