(* ===== verification/Exec_Invariant.thy ===== *)
theory Exec_Invariant
  imports Exec_Lists
begin

text \<open>
  The invariant of the executor together with the power manager, on a GPU without a virtual group:
  where each group is agrees with its state and its job, the references to each power domain are
  those of the groups that are not inactive, and what a group knows about its power agrees with the
  domains, up to the notifications that are still on their way.
\<close>

section \<open>The phases of an update\<close>

text \<open>An update of the power manager notifies the executor after it has changed the domains, without the
  lock on the state; the groups still to be notified are part of the phase.\<close>

datatype phase = Steady | Rising "gid list" | Between | Falling "gid list"

fun rising :: "phase \<Rightarrow> gid set" where
  "rising (Rising gs) = set gs"
| "rising _ = {}"

fun falling :: "phase \<Rightarrow> gid set" where
  "falling (Falling gs) = set gs"
| "falling _ = {}"

text \<open>When the PMU has caught up with the domains.\<close>

fun calm :: "phase \<Rightarrow> bool" where
  "calm Steady = True"
| "calm (Falling gs) = True"
| "calm _ = False"

section \<open>The invariant\<close>

text \<open>A group whose own domain is one that another group depends on depends on no more than that group:
  the power domain of a core determines that of its L2 cache.\<close>

definition coherent :: "exec \<Rightarrow> bool" where
  "coherent e \<longleftrightarrow> (\<forall>g \<in> set (glob_groups e). \<forall>h \<in> set (glob_groups e).
       own e g \<in> {own e h, l2_domain e h} \<longrightarrow> l2_domain e g \<in> {own e h, l2_domain e h}) \<and>
     (\<forall>g \<in> set (glob_groups e). own e g = DOMAIN_DUMMY \<longrightarrow> l2_domain e g = DOMAIN_DUMMY)"

definition exists_domain :: "pm \<Rightarrow> nat \<Rightarrow> bool" where
  "exists_domain p d \<longleftrightarrow> pm_domains p d \<noteq> None"

definition shape_ok :: "exec \<Rightarrow> bool" where
  "shape_ok e \<longleftrightarrow> virtual_group_state e = EXEC_STATE_NOT_PRESENT \<and> distinct (glob_groups e) \<and> coherent e \<and>
     (\<forall>g \<in> set (glob_groups e). physical e g \<and> (gp_core (groups e g) \<longleftrightarrow> gp_group e = Some g) \<and>
        (pp_core (groups e g) \<longleftrightarrow> gp_group e \<noteq> Some g))"

text \<open>Every group is in the list of its domain, and only there.\<close>

definition registered :: "exec \<Rightarrow> bool" where
  "registered e \<longleftrightarrow> (\<forall>g \<in> set (glob_groups e). exists_domain (e_pm e) (own e g) \<and> exists_domain (e_pm e) (l2_domain e g)) \<and>
     (\<forall>d g. exists_domain (e_pm e) d \<longrightarrow>
        (g \<in> set (group_list (domain (e_pm e) d)) \<longleftrightarrow> g \<in> set (glob_groups e) \<and> own e g = d))"

text \<open>\<open>S\<close> are the groups that have been given a job that is not started yet.\<close>

definition running :: "exec \<Rightarrow> gid \<Rightarrow> jid option" where
  "running e g = (if gp_core (groups e g) then fst (snd (busy e g)) else snd (snd (busy e g)))"

definition group_ok :: "gid set \<Rightarrow> exec \<Rightarrow> gid \<Rightarrow> bool" where
  "group_ok S e g \<longleftrightarrow>
     (gst e g = GROUP_ACTIVE \<longleftrightarrow> place e g \<in> {EXEC_STATE_IDLE, EXEC_STATE_WORKING}) \<and>
     (place e g = EXEC_STATE_DISABLED \<longrightarrow> gst e g = GROUP_INACTIVE) \<and>
     (g \<in> S \<longrightarrow> place e g = EXEC_STATE_WORKING) \<and>
     (fst (busy e g) \<longleftrightarrow> place e g = EXEC_STATE_WORKING \<and> g \<notin> S) \<and>
     (running e g \<noteq> None \<longleftrightarrow> fst (busy e g))"

definition uses :: "exec \<Rightarrow> nat \<Rightarrow> nat" where
  "uses e d = (\<Sum>g \<in> set (glob_groups e). if gst e g = GROUP_INACTIVE then 0 else count_list [own e g, l2_domain e g] d)"

definition refs_exact :: "exec \<Rightarrow> bool" where
  "refs_exact e \<longleftrightarrow> (\<forall>d. exists_domain (e_pm e) d \<longrightarrow> unat (use_count (domain (e_pm e) d)) = uses e d)"

definition group_power_ok :: "phase \<Rightarrow> exec \<Rightarrow> gid \<Rightarrow> bool" where
  "group_power_ok ph e g \<longleftrightarrow>
     (gst e g = GROUP_ACTIVE \<longrightarrow> gpow e g \<and> powered (e_pm e) (own e g) \<and> powered (e_pm e) (l2_domain e g)) \<and>
     (gst e g = GROUP_ACTIVATION_PENDING \<longrightarrow> powered (e_pm e) (own e g) \<longrightarrow> g \<in> rising ph) \<and>
     (powered (e_pm e) (own e g) \<longrightarrow> gpow e g \<or> g \<in> rising ph) \<and>
     (gpow e g \<longrightarrow> powered (e_pm e) (own e g) \<or> g \<in> falling ph) \<and>
     (powered (e_pm e) (own e g) \<longrightarrow> powered (e_pm e) (l2_domain e g)) \<and>
     (g \<in> rising ph \<longrightarrow> powered (e_pm e) (own e g)) \<and>
     (g \<in> falling ph \<longrightarrow> \<not> powered (e_pm e) (own e g))"

text \<open>While an operation works on \<open>g\<close> its place and its state need not agree.\<close>

definition exec_ok_but :: "gid \<Rightarrow> phase \<Rightarrow> gid set \<Rightarrow> exec \<Rightarrow> bool" where
  "exec_ok_but g ph S e \<longleftrightarrow> shape_ok e \<and> registered e \<and> lists_ok e \<and> enabled_ok e \<and> pm_ok (e_pm e) \<and>
     (calm ph \<longrightarrow> settled (e_pm e)) \<and> rising ph \<union> falling ph \<subseteq> set (glob_groups e) \<and> refs_exact e \<and>
     (\<forall>k \<in> set (glob_groups e). (k \<noteq> g \<longrightarrow> group_ok S e k) \<and> group_power_ok ph e k)"

definition exec_ok :: "phase \<Rightarrow> gid set \<Rightarrow> exec \<Rightarrow> bool" where
  "exec_ok ph S e \<longleftrightarrow> shape_ok e \<and> registered e \<and> lists_ok e \<and> enabled_ok e \<and> pm_ok (e_pm e) \<and>
     (calm ph \<longrightarrow> settled (e_pm e)) \<and> rising ph \<union> falling ph \<subseteq> set (glob_groups e) \<and> refs_exact e \<and>
     (\<forall>k \<in> set (glob_groups e). group_ok S e k \<and> group_power_ok ph e k)"

lemma exec_ok_but: "exec_ok ph S e \<longleftrightarrow> exec_ok_but g ph S e \<and> (g \<in> set (glob_groups e) \<longrightarrow> group_ok S e g)"
  by (auto simp: exec_ok_def exec_ok_but_def)

lemma exec_ok_butD:
  assumes "exec_ok_but g ph S e"
  shows "shape_ok e" "registered e" "lists_ok e" "enabled_ok e" "pm_ok (e_pm e)" "refs_exact e"
    "k \<in> set (glob_groups e) \<Longrightarrow> k \<noteq> g \<Longrightarrow> group_ok S e k" "k \<in> set (glob_groups e) \<Longrightarrow> group_power_ok ph e k"
    "k \<in> set (glob_groups e) \<Longrightarrow> physical e k"
  using assms by (auto simp: exec_ok_but_def shape_ok_def)

lemma exec_okD:
  assumes "exec_ok ph S e"
  shows "shape_ok e" "registered e" "lists_ok e" "enabled_ok e" "pm_ok (e_pm e)" "refs_exact e"
    "k \<in> set (glob_groups e) \<Longrightarrow> group_ok S e k" "k \<in> set (glob_groups e) \<Longrightarrow> group_power_ok ph e k"
    "k \<in> set (glob_groups e) \<Longrightarrow> physical e k"
  using assms by (auto simp: exec_ok_def shape_ok_def)

section \<open>What the parts of the invariant read\<close>

lemma shape_fixed: "fixed e' = fixed e \<Longrightarrow> shape_ok e' = shape_ok e"
  by (simp add: shape_ok_def coherent_def fixed_simps [of e' e] fixed_eq [of e' e])

lemma running_views: "fixed e' = fixed e \<Longrightarrow> busy e' g = busy e g \<Longrightarrow> running e' g = running e g"
  by (simp add: running_def fixed_eq [of e' e])

lemma group_ok_views:
  "fixed e' = fixed e \<Longrightarrow> place e' g = place e g \<Longrightarrow> gst e' g = gst e g \<Longrightarrow> busy e' g = busy e g \<Longrightarrow>
     group_ok S e' g = group_ok S e g"
  using running_views [of e' e g] by (simp add: group_ok_def)

lemma uses_views: "fixed e' = fixed e \<Longrightarrow> gst e' = gst e \<Longrightarrow> uses e' = uses e"
  by (intro ext) (simp only: uses_def fixed_simps [of e' e] fixed_eq(1) [of e' e])

text \<open>What changes to the use counts leave alone.\<close>

definition same_domains :: "pm \<Rightarrow> pm \<Rightarrow> bool" where
  "same_domains p p' \<longleftrightarrow> (\<forall>d. exists_domain p' d = exists_domain p d \<and> group_list (domain p' d) = group_list (domain p d))"

lemma registered_same:
  "registered e \<Longrightarrow> fixed e' = fixed e \<Longrightarrow> same_domains (e_pm e) (e_pm e') \<Longrightarrow> registered e'"
  by (simp add: registered_def same_domains_def fixed_simps [of e' e] fixed_eq [of e' e])

lemma powered_same: "same_power p p' \<Longrightarrow> powered p' = powered p"
  by (simp add: same_power_def powered_def fun_eq_iff del: not_None_eq)

lemma group_power_views:
  "fixed e' = fixed e \<Longrightarrow> gst e' g = gst e g \<Longrightarrow> gpow e' g = gpow e g \<Longrightarrow> powered (e_pm e') = powered (e_pm e) \<Longrightarrow>
     group_power_ok ph e' g = group_power_ok ph e g"
  by (simp add: group_power_ok_def fixed_simps [of e' e])

lemma exec_ok_frame:
  assumes "frame e' = frame e"
  shows "exec_ok ph S e' = exec_ok ph S e"
proof -
  note f = frame_parts [OF assms]
  note x = fixed_eq [OF f(1)] and l = lists_views [OF f(1,2)] and s = fixed_simps [OF f(1)]
  have "registered e' = registered e" unfolding registered_def f x s ..
  moreover have "enabled_ok e' = enabled_ok e" unfolding enabled_ok_def pp_groups_fixed [OF f(1)] l f ..
  moreover have "refs_exact e' = refs_exact e" unfolding refs_exact_def uses_views [OF f(1,4)] f ..
  moreover have "group_ok S e' g = group_ok S e g" for g using group_ok_views [OF f(1)] f l by simp
  moreover have "group_power_ok ph e' g = group_power_ok ph e g" for g using group_power_views [OF f(1)] f by simp
  ultimately show ?thesis unfolding exec_ok_def shape_fixed [OF f(1)] l f x by simp
qed

text \<open>A change of one group.\<close>

lemma exec_ok_but_change:
  assumes ok: "exec_ok_but g ph S e" and f: "fixed e' = fixed e" and l: "lists_ok e'" and n: "enabled_ok e'"
    and at: "\<And>k. k \<noteq> g \<Longrightarrow> place e' k = place e k \<and> gst e' k = gst e k \<and> gpow e' k = gpow e k \<and> busy e' k = busy e k"
    and pm: "same_power (e_pm e) (e_pm e')" "refs_ok 0 (e_pm e')" "same_domains (e_pm e) (e_pm e')" "refs_exact e'"
    and S: "S - {g} = S' - {g}" and g: "g \<in> set (glob_groups e) \<Longrightarrow> group_power_ok ph e' g"
  shows "exec_ok_but g ph S' e'"
proof -
  note x = fixed_eq [OF f] and s = fixed_simps [OF f]
  have p: "powered (e_pm e') = powered (e_pm e)" by (rule powered_same [OF pm(1)])
  have "pm_ok (e_pm e')" "calm ph \<longrightarrow> settled (e_pm e')"
    using same_power_ok [OF pm(1)] pm(2) ok by (auto simp: exec_ok_but_def pm_ok_def)
  moreover have "(k \<noteq> g \<longrightarrow> group_ok S' e' k) \<and> group_power_ok ph e' k" if k: "k \<in> set (glob_groups e)" for k
  proof (cases "k = g")
    case False
    then have "group_ok S e k" "group_power_ok ph e k" using ok k by (auto simp: exec_ok_but_def)
    moreover have "k \<in> S' \<longleftrightarrow> k \<in> S" using S False by blast
    ultimately show ?thesis
      using at [OF False] running_views [OF f, of k] by (simp add: group_ok_def group_power_ok_def p s)
  qed (use g k in blast)
  ultimately show ?thesis
    using ok l n pm(4) registered_same [OF _ f pm(3)] unfolding exec_ok_but_def shape_fixed [OF f] x by blast
qed

lemma same_refl [simp]: "same_power p p" "same_domains p p"
  by (simp_all add: same_power_def same_domains_def)

lemma refs_exact_same: "refs_exact e \<Longrightarrow> fixed e' = fixed e \<Longrightarrow> gst e' = gst e \<Longrightarrow> e_pm e' = e_pm e \<Longrightarrow> refs_exact e'"
  by (simp add: refs_exact_def uses_views [of e' e])

lemma exec_ok_refs: "exec_ok_but g ph S e \<Longrightarrow> refs_ok 0 (e_pm e)"
  by (simp add: exec_ok_but_def pm_ok_def)

lemma but_moves:
  assumes ok: "exec_ok_but g ph S e" and m: "moves g st e e'"
    and d: "g \<in> pp_groups e \<Longrightarrow> (st = EXEC_STATE_DISABLED) = (place e g = EXEC_STATE_DISABLED)"
  shows "exec_ok_but g ph S e'"
proof -
  have m': "fixed e' = fixed e" "lists_ok e'" "place e' = (place e)(g := st)"
    "num_physical_pp_cores_enabled e' = num_physical_pp_cores_enabled e" "gst e' = gst e" "gpow e' = gpow e"
    "busy e' = busy e" "e_pm e' = e_pm e"
    using m by (simp_all add: moves_def)
  have "enabled_ok e'" using enabled_same [OF exec_ok_butD(4) [OF ok] m'(1,3,4) d] .
  then show ?thesis
    using exec_ok_butD(8) [OF ok, of g] group_power_views [of e' e g ph] m' exec_ok_refs [OF ok]
      refs_exact_same [OF exec_ok_butD(6) [OF ok]]
    by (intro exec_ok_but_change [OF ok m'(1,2)]) simp_all
qed

lemma but_busy:
  assumes ok: "exec_ok_but g ph S e" and m: "changes_busy g b e e'"
  shows "exec_ok_but g ph S e'" "place e' = place e" "gst e' = gst e" "busy e' = (busy e)(g := b)" "fixed e' = fixed e"
    "e_pm e' = e_pm e"
proof -
  have m': "fixed e' = fixed e" "lists e' = lists e" "num_physical_pp_cores_enabled e' = num_physical_pp_cores_enabled e"
    "gst e' = gst e" "gpow e' = gpow e" "busy e' = (busy e)(g := b)" "e_pm e' = e_pm e"
    using m by (simp_all add: changes_busy_def)
  note l = lists_views [OF m'(1,2)]
  have "enabled_ok e'" using exec_ok_butD(4) [OF ok] unfolding enabled_ok_def pp_groups_fixed [OF m'(1)] l m'(3) .
  then show "exec_ok_but g ph S e'"
    using exec_ok_butD(3,8) [OF ok] group_power_views [of e' e g ph] m' l exec_ok_refs [OF ok]
      refs_exact_same [OF exec_ok_butD(6) [OF ok]]
    by (intro exec_ok_but_change [OF ok m'(1)]) simp_all
  show "place e' = place e" "gst e' = gst e" "busy e' = (busy e)(g := b)" "fixed e' = fixed e" "e_pm e' = e_pm e"
    using l m' by simp_all
qed

lemma but_start: "exec_ok_but g ph S e \<Longrightarrow> S - {g} = S' - {g} \<Longrightarrow> exec_ok_but g ph S' e"
  by (rule exec_ok_but_change [of g ph S e e]) (auto simp: exec_ok_but_def pm_ok_def)

section \<open>Taking and giving back references\<close>

lemma ref_group_list [simp]:
  "group_list (domain (fst (mali_pm_domain_ref_get d s)) k) = group_list (domain s k)"
  "group_list (domain (fst (mali_pm_domain_ref_put d s)) k) = group_list (domain s k)"
  by (simp_all add: mali_pm_domain_ref_get_def mali_pm_domain_ref_put_def Let_def)

lemma get_group_list:
  "get_refs_loop on ds r s = (s', r') \<Longrightarrow> group_list (domain s' k) = group_list (domain s k)"
proof (induction on ds r s arbitrary: s' r' rule: get_refs_loop.induct)
  case (2 on d g rest r s)
  obtain s1 m where g: "mali_pm_domain_ref_get d s = (s1, m)" by fastforce
  then have "group_list (domain s1 k) = group_list (domain s k)" using ref_group_list(1) [of d s k] by simp
  with 2 g show ?case by (simp add: Let_def)
qed simp

lemma put_group_list:
  "put_refs_loop ds m s = (s', m') \<Longrightarrow> group_list (domain s' k) = group_list (domain s k)"
proof (induction ds m s arbitrary: s' m' rule: put_refs_loop.induct)
  case (2 d ds m s)
  obtain s1 m1 where g: "mali_pm_domain_ref_put d s = (s1, m1)" by fastforce
  then have "group_list (domain s1 k) = group_list (domain s k)" using ref_group_list(2) [of d s k] by simp
  with 2 g show ?case by simp
qed simp

lemma refs_same_domains:
  "mali_pm_get_domain_refs on ds s = (s', r) \<Longrightarrow> same_power s s' \<Longrightarrow> same_domains s s'"
  "mali_pm_put_domain_refs es s = (s', r) \<Longrightarrow> same_power s s' \<Longrightarrow> same_domains s s'"
proof -
  show "same_domains s s'" if "mali_pm_get_domain_refs on ds s = (s', r)" "same_power s s'"
    using get_group_list [of on ds True s s' r] that
    by (simp add: mali_pm_get_domain_refs_def same_domains_def exists_domain_def same_power_def del: not_None_eq)
  show "same_domains s s'" if p: "mali_pm_put_domain_refs es s = (s', r)" "same_power s s'"
  proof -
    obtain s1 m where l: "put_refs_loop es 0 s = (s1, m)" by fastforce
    with p(1) have "domain s' = domain s1" by (auto simp: mali_pm_put_domain_refs_def split: if_splits)
    then show ?thesis
      using put_group_list [OF l] p(2) by (simp add: same_domains_def exists_domain_def same_power_def del: not_None_eq)
  qed
qed

lemma uses_turned_on:
  assumes f: "fixed e' = fixed e" and g: "g \<in> set (glob_groups e)" "gst e g = GROUP_INACTIVE"
    and s: "gst e' = (gst e)(g := st)" "st \<noteq> GROUP_INACTIVE"
  shows "uses e' d = uses e d + count_list [own e g, l2_domain e g] d"
proof -
  let ?u = "\<lambda>e k. if gst e k = GROUP_INACTIVE then 0 else count_list [own e k, l2_domain e k] d"
  have "uses e' d = (\<Sum>k \<in> set (glob_groups e). ?u e' k)"
    unfolding uses_def fixed_simps [OF f] fixed_eq [OF f] ..
  also have "\<dots> = ?u e' g + (\<Sum>k \<in> set (glob_groups e) - {g}. ?u e' k)" using g(1) by (simp add: sum.remove)
  also have "(\<Sum>k \<in> set (glob_groups e) - {g}. ?u e' k) = (\<Sum>k \<in> set (glob_groups e) - {g}. ?u e k)"
    by (rule sum.cong) (simp_all add: s(1) fixed_simps [OF f])
  also have "\<dots> = uses e d" unfolding uses_def using g by (simp add: sum.remove [of _ g])
  also have "?u e' g = count_list [own e g, l2_domain e g] d" by (simp add: s fixed_simps [OF f])
  finally show ?thesis by simp
qed

lemma uses_bound:
  assumes "lists_ok e"
  shows "uses e d \<le> 20"
proof -
  have "uses e d \<le> (\<Sum>g \<in> set (glob_groups e). 2)"
    unfolding uses_def by (rule sum_mono) (simp add: count_list.simps)
  also have "\<dots> = 2 * card (set (glob_groups e))" by simp
  also have "\<dots> \<le> 20" using assms card_length [of "glob_groups e"] by (simp add: lists_ok_def MAX_NUMBER_OF_GROUPS_def)
  finally show ?thesis .
qed

lemma exists_own:
  assumes "exec_ok_but k ph S e" and "g \<in> set (glob_groups e)"
  shows "pm_domains (e_pm e) (own e g) \<noteq> None" "pm_domains (e_pm e) (l2_domain e g) \<noteq> None"
  using exec_ok_butD(2) [OF assms(1)] assms(2) unfolding registered_def exists_domain_def by blast+

lemma but_state:
  assumes ok: "exec_ok_but g ph S e" and m: "changes_state g st p e e'" and g: "g \<in> set (glob_groups e)"
    and pm: "same_power (e_pm e) p" "refs_ok 0 p" "same_domains (e_pm e) p"
    and u: "\<And>d. exists_domain (e_pm e) d \<Longrightarrow> unat (use_count (domain p d)) = uses e' d"
    and on: "st = GROUP_ACTIVE \<Longrightarrow> gpow e g \<and> powered (e_pm e) (own e g) \<and> powered (e_pm e) (l2_domain e g)"
      "st = GROUP_ACTIVATION_PENDING \<Longrightarrow> powered (e_pm e) (own e g) \<Longrightarrow> g \<in> rising ph"
  shows "exec_ok_but g ph S e'" "place e' = place e" "gst e' = (gst e)(g := st)" "busy e' = busy e" "fixed e' = fixed e"
proof -
  have m': "fixed e' = fixed e" "lists e' = lists e" "num_physical_pp_cores_enabled e' = num_physical_pp_cores_enabled e"
    "gst e' = (gst e)(g := st)" "gpow e' = gpow e" "busy e' = busy e" "e_pm e' = p"
    using m by (simp_all add: changes_state_def)
  note l = lists_views [OF m'(1,2)]
  have n: "enabled_ok e'" using exec_ok_butD(4) [OF ok] unfolding enabled_ok_def pp_groups_fixed [OF m'(1)] l m'(3) .
  have r: "refs_exact e'" using u pm(3) by (simp add: refs_exact_def m'(7) same_domains_def)
  have "group_power_ok ph e' g"
    using exec_ok_butD(8) [OF ok g] on
    by (simp add: group_power_ok_def m' fixed_simps [OF m'(1)] powered_same [OF pm(1)])
  then show "exec_ok_but g ph S e'"
    using exec_ok_butD(3) [OF ok] pm r n m' l by (intro exec_ok_but_change [OF ok m'(1)]) simp_all
  show "place e' = place e" "gst e' = (gst e)(g := st)" "busy e' = busy e" "fixed e' = fixed e" using l m' by simp_all
qed

lemma activate_ok:
  assumes ok: "exec_ok_but g ph S e" and g: "g \<in> set (glob_groups e)" and a: "mali_group_activate g e = (e', st)"
    and i: "gst e g \<noteq> GROUP_ACTIVE"
  shows "exec_ok_but g ph S e'" "place e' = place e" "gst e' = (gst e)(g := st)" "busy e' = busy e" "fixed e' = fixed e"
    "st = GROUP_ACTIVE \<or> st = GROUP_ACTIVATION_PENDING"
proof -
  have "exec_ok_but g ph S e' \<and> place e' = place e \<and> gst e' = (gst e)(g := st) \<and> busy e' = busy e \<and> fixed e' = fixed e \<and>
    (st = GROUP_ACTIVE \<or> st = GROUP_ACTIVATION_PENDING)"
  proof (cases "gst e g = GROUP_INACTIVE")
    case False
    then have "e' = e" "st = gst e g" using activate_no_change [OF False] a by simp_all
    then show ?thesis using ok False i by (cases "gst e g") (simp_all add: fun_upd_idem)
  next
    case True
    let ?ds = "[(l2_domain e g, None), (own e g, Some g)]"
    obtain p on where p: "mali_pm_get_domain_refs (gpow e) ?ds (e_pm e) = (p, on)" by fastforce
    note parts = activate_parts [OF exec_ok_butD(9) [OF ok g] True p a]
    have po: "domains_ok (e_pm e)" "refs_ok 0 (e_pm e)" using exec_ok_butD(5) [OF ok] by (simp_all add: pm_ok_def)
    note ex = exists_own [OF ok g]
    have e: "\<forall>(d, g) \<in> set ?ds. pm_domains (e_pm e) d \<noteq> None" using ex by simp
    have c: "\<forall>d. unat (use_count (domain (e_pm e) d)) + count_list (map fst ?ds) d < 2 ^ 32"
    proof
      fix d
      have "d \<in> {l2_domain e g, own e g} \<Longrightarrow> unat (use_count (domain (e_pm e) d)) \<le> 20"
        using exec_ok_butD(6) [OF ok] ex uses_bound [OF exec_ok_butD(3) [OF ok]]
        by (auto simp: refs_exact_def exists_domain_def)
      then show "unat (use_count (domain (e_pm e) d)) + count_list (map fst ?ds) d < 2 ^ 32"
        using unsigned_less [of "use_count (domain (e_pm e) d)"] by (cases "d \<in> {l2_domain e g, own e g}") simp_all
    qed
    note k = get_refs_ok [OF p po e c]
    have on: "on \<longleftrightarrow> powered (e_pm e) (own e g) \<and> powered (e_pm e) (l2_domain e g) \<and> gpow e g"
      using k(4) ex by (auto simp: powered_def)
    have st: "st \<noteq> GROUP_INACTIVE" "st = GROUP_ACTIVE \<longleftrightarrow> on" using parts(1) by simp_all
    have s': "fixed e' = fixed e" "gst e' = (gst e)(g := st)" using parts(2) by (simp_all add: changes_state_def)
    have u: "unat (use_count (domain p d)) = uses e' d" if "exists_domain (e_pm e) d" for d
      using k(3) [of d] that exec_ok_butD(6) [OF ok] uses_turned_on [OF s'(1) g True s'(2) st(1), of d]
      by (simp add: refs_exact_def)
    have rise: "g \<in> rising ph" if "st = GROUP_ACTIVATION_PENDING" "powered (e_pm e) (own e g)"
      using exec_ok_butD(8) [OF ok g] that on st(2) by (auto simp: group_power_ok_def)
    note bs = but_state [OF ok parts(2) g k(2,1) refs_same_domains(1) [OF p k(2)] u]
    show ?thesis using bs on st rise parts(1) by auto
  qed
  then show "exec_ok_but g ph S e'" "place e' = place e" "gst e' = (gst e)(g := st)" "busy e' = busy e" "fixed e' = fixed e"
    "st = GROUP_ACTIVE \<or> st = GROUP_ACTIVATION_PENDING" by blast+
qed

lemma deactivate_ok:
  assumes ok: "exec_ok_but g ph S e" and g: "g \<in> set (glob_groups e)" and i: "gst e g \<noteq> GROUP_INACTIVE"
    and e': "e' = fst (mali_group_deactivate g e)"
  shows "exec_ok_but g ph S e'" "place e' = place e" "gst e' = (gst e)(g := GROUP_INACTIVE)" "busy e' = busy e"
    "fixed e' = fixed e"
proof -
  let ?ds = "[own e g, l2_domain e g]"
  obtain p un where p: "mali_pm_put_domain_refs ?ds (e_pm e) = (p, un)" by fastforce
  have m: "changes_state g GROUP_INACTIVE p e e'"
    unfolding e' by (rule deactivate_parts(2) [OF exec_ok_butD(9) [OF ok g] p])
  have s': "fixed e' = fixed e" "gst e' = (gst e)(g := GROUP_INACTIVE)" using m by (simp_all add: changes_state_def)
  have po: "domains_ok (e_pm e)" "refs_ok 0 (e_pm e)" using exec_ok_butD(5) [OF ok] by (simp_all add: pm_ok_def)
  have ex: "\<forall>d \<in> set ?ds. pm_domains (e_pm e) d \<noteq> None" using exists_own [OF ok g] by simp
  have more: "uses e d = uses e' d + count_list ?ds d" for d
    using uses_turned_on [of e e' g "gst e g" d] g i s' fixed_simps [OF s'(1)] fixed_eq(1) [OF s'(1)]
    by (simp add: fun_upd_idem)
  have old: "exists_domain (e_pm e) d \<Longrightarrow> unat (use_count (domain (e_pm e) d)) = uses e d" for d
    using exec_ok_butD(6) [OF ok] by (simp add: refs_exact_def)
  have c: "\<forall>d. count_list ?ds d \<le> unat (use_count (domain (e_pm e) d))"
  proof
    fix d show "count_list ?ds d \<le> unat (use_count (domain (e_pm e) d))"
      using old [of d] more [of d] ex by (cases "d \<in> set ?ds") (auto simp: exists_domain_def)
  qed
  have k: "refs_ok 0 p" "same_power (e_pm e) p"
    "\<And>d. unat (use_count (domain p d)) = unat (use_count (domain (e_pm e) d)) - count_list ?ds d"
    using put_refs_ok [OF p po ex c] by blast+
  have u: "unat (use_count (domain p d)) = uses e' d" if "exists_domain (e_pm e) d" for d
    using k(3) [of d] old [OF that] more [of d] by simp
  note bs = but_state [OF ok m g k(2,1) refs_same_domains(2) [OF p k(2)] u]
  show "exec_ok_but g ph S e'" "place e' = place e" "gst e' = (gst e)(g := GROUP_INACTIVE)" "busy e' = busy e"
    "fixed e' = fixed e"
    using bs by simp_all
qed

end
