(* ===== verification/Exec_Schedule.thy ===== *)
theory Exec_Schedule
  imports Exec_Invariant
begin

text \<open>
  \<open>mali_executor_schedule\<close> keeps the invariant of the executor: every step of it, and so what it
  does as a whole.
\<close>

section \<open>Moving groups\<close>

lemma pp_group: "lists_ok e \<Longrightarrow> g \<in> pp_groups e \<longleftrightarrow> g \<in> set (glob_groups e) \<and> gp_group e \<noteq> Some g"
  by (auto simp: lists_ok_def pp_groups_def)

lemma movesD:
  assumes "moves g st e e'"
  shows "fixed e' = fixed e" "lists_ok e'" "place e' = (place e)(g := st)" "gst e' = gst e" "busy e' = busy e"
    "gpow e' = gpow e" "e_pm e' = e_pm e"
  using assms by (simp_all add: moves_def)

lemma exec_ok_close:
  "exec_ok_but g ph S e \<Longrightarrow> group_ok S e g \<Longrightarrow> exec_ok ph S e"
  by (simp add: exec_ok_but [of ph S e g])

lemma exec_ok_open: "exec_ok ph S e \<Longrightarrow> exec_ok_but g ph S e"
  by (simp add: exec_ok_but [of ph S e g])

text \<open>A group that is moved to where its state and its job belong.\<close>

lemma group_ok_at:
  assumes "group_ok S e g" and "place e g \<notin> {EXEC_STATE_WORKING}" and "fixed e' = fixed e" and "busy e' g = busy e g"
    and "place e' g \<noteq> EXEC_STATE_WORKING" and "gst e' g = GROUP_ACTIVE \<longleftrightarrow> place e' g = EXEC_STATE_IDLE"
    and "place e' g = EXEC_STATE_DISABLED \<longrightarrow> gst e' g = GROUP_INACTIVE"
  shows "group_ok S e' g"
  using assms running_views [OF assms(3), of g] by (auto simp: group_ok_def)

lemma activate_move:
  assumes ok: "exec_ok ph S e" and g: "g \<in> set (glob_groups e)" "place e g = EXEC_STATE_INACTIVE"
    and a: "mali_group_activate g e = (e1, st)"
  shows "fixed e1 = fixed e" "place e1 = place e" "lists_ok e1" "exec_ok_but g ph S e1"
    "st \<noteq> GROUP_ACTIVE \<Longrightarrow> exec_ok ph S e1" "st = GROUP_ACTIVE \<Longrightarrow> moves g EXEC_STATE_IDLE e1 e2 \<Longrightarrow> exec_ok ph S e2"
    "busy e1 = busy e"
proof -
  have gk: "group_ok S e g" by (rule exec_okD(7) [OF ok g(1)])
  then have i: "gst e g \<noteq> GROUP_ACTIVE" using g(2) by (simp add: group_ok_def)
  note k = activate_ok [OF exec_ok_open [OF ok] g(1) a i]
  show f: "fixed e1 = fixed e" and p: "place e1 = place e" and "lists_ok e1" "exec_ok_but g ph S e1" "busy e1 = busy e"
    using k exec_ok_butD(3) [OF k(1)] by simp_all
  show "exec_ok ph S e1" if "st \<noteq> GROUP_ACTIVE"
    by (rule exec_ok_close [OF k(1) group_ok_at [OF gk]]) (use g k that in simp_all)
  show "exec_ok ph S e2" if st: "st = GROUP_ACTIVE" and m: "moves g EXEC_STATE_IDLE e1 e2"
  proof -
    have "exec_ok_but g ph S e2" by (rule but_moves [OF k(1) m]) (simp add: p g)
    then show ?thesis by (rule exec_ok_close [OF _ group_ok_at [OF gk]]) (use g k st movesD [OF m] in simp_all)
  qed
qed

lemma deactivate_move:
  assumes ok: "exec_ok ph S e" and g: "g \<in> set (glob_groups e)" "place e g = EXEC_STATE_IDLE"
    and d: "e1 = fst (mali_group_deactivate g e)"
  shows "fixed e1 = fixed e" "place e1 = place e" "lists_ok e1"
    "moves g EXEC_STATE_INACTIVE e1 e2 \<Longrightarrow> exec_ok ph S e2" "busy e1 = busy e"
proof -
  have gk: "group_ok S e g" by (rule exec_okD(7) [OF ok g(1)])
  then have i: "gst e g \<noteq> GROUP_INACTIVE" using g(2) by (simp add: group_ok_def)
  note k = deactivate_ok [OF exec_ok_open [OF ok] g(1) i d]
  show f: "fixed e1 = fixed e" and p: "place e1 = place e" and "lists_ok e1" "busy e1 = busy e"
    using k exec_ok_butD(3) [OF k(1)] by simp_all
  show "exec_ok ph S e2" if m: "moves g EXEC_STATE_INACTIVE e1 e2"
  proof -
    have "exec_ok_but g ph S e2" by (rule but_moves [OF k(1) m]) (simp add: p g)
    then show ?thesis by (rule exec_ok_close [OF _ group_ok_at [OF gk]]) (use g k movesD [OF m] in simp_all)
  qed
qed

lemma move_deactivate:
  assumes ok: "exec_ok ph S e" and g: "g \<in> set (glob_groups e)" "place e g \<in> {EXEC_STATE_IDLE, EXEC_STATE_INACTIVE}"
    and i: "gst e g \<noteq> GROUP_INACTIVE"
    and b: "exec_ok_but g ph S e1" and m: "fixed e1 = fixed e" "place e1 = (place e)(g := pl)" "gst e1 = gst e" "busy e1 = busy e"
    and pl: "pl = EXEC_STATE_INACTIVE \<or> pl = EXEC_STATE_DISABLED" and d: "e2 = fst (mali_group_deactivate g e1)"
  shows "exec_ok ph S e2" "fixed e2 = fixed e" "place e2 = (place e)(g := pl)" "busy e2 = busy e"
proof -
  have gk: "group_ok S e g" by (rule exec_okD(7) [OF ok g(1)])
  have i1: "gst e1 g \<noteq> GROUP_INACTIVE" and g1: "g \<in> set (glob_groups e1)"
    using i g(1) m(3) fixed_eq(1) [OF m(1)] by simp_all
  note k = deactivate_ok [OF b g1 i1 d]
  show "fixed e2 = fixed e" "place e2 = (place e)(g := pl)" "busy e2 = busy e" using k m by simp_all
  show "exec_ok ph S e2"
    by (rule exec_ok_close [OF k(1) group_ok_at [OF gk]]) (use g k m pl in auto)
qed

text \<open>The groups that work go on with their jobs.\<close>

definition runs_on :: "exec \<Rightarrow> exec \<Rightarrow> bool" where
  "runs_on e e' \<longleftrightarrow> (\<forall>k. place e k = EXEC_STATE_WORKING \<longrightarrow> place e' k = EXEC_STATE_WORKING \<and> busy e' k = busy e k)"

lemma runs_on_refl [simp]: "runs_on e e" by (simp add: runs_on_def)

lemma runs_on_trans [trans]: "runs_on e e1 \<Longrightarrow> runs_on e1 e2 \<Longrightarrow> runs_on e e2"
  by (simp add: runs_on_def)

lemma runs_on_frame: "frame e1 = frame e \<Longrightarrow> runs_on e e1"
  using frame_parts [of e1 e] lists_views [of e1 e] by (simp add: runs_on_def)

section \<open>Activating groups\<close>

lemma activate_inactive_ok:
  assumes "exec_ok ph S e" and "distinct gs" and "\<forall>g \<in> set gs. g \<in> pp_groups e \<and> place e g = EXEC_STATE_INACTIVE"
    and "activate_inactive gs n r t e = (e', n', r', t')"
  shows "exec_ok ph S e' \<and> fixed e' = fixed e \<and> busy e' = busy e \<and>
    (\<forall>k. place e' k = place e k \<or> k \<in> set gs \<and> place e' k = EXEC_STATE_IDLE)"
  using assms
proof (induction gs n r t e arbitrary: e' n' r' t' rule: activate_inactive.induct)
  case (2 g gs n r t e)
  obtain e1 st where a: "mali_group_activate g e = (e1, st)" by fastforce
  have l: "lists_ok e" using "2.prems"(1) by (simp add: exec_ok_def)
  have g: "g \<in> set (glob_groups e)" "g \<in> pp_groups e" "place e g = EXEC_STATE_INACTIVE"
    using "2.prems"(3) pp_group [OF l] by auto
  note am = activate_move [OF "2.prems"(1) g(1,3) a]
  define e2 where "e2 = (if st = GROUP_ACTIVE then mali_executor_change_state_pp_physical g Inactive Idle e1 else e1)"
  have pg: "pp_groups e1 = pp_groups e" by (rule pp_groups_fixed [OF am(1)])
  have "exec_ok ph S e2 \<and> fixed e2 = fixed e \<and> busy e2 = busy e \<and> place e2 = (place e)(g := (if st = GROUP_ACTIVE then EXEC_STATE_IDLE else EXEC_STATE_INACTIVE))"
  proof (cases "st = GROUP_ACTIVE")
    case True
    have m: "moves g EXEC_STATE_IDLE e1 (mali_executor_change_state_pp_physical g Inactive Idle e1)"
      by (rule place_moves(3)) (use am g pg in simp_all)
    show ?thesis using am(1,2,7) am(6) [OF True m] movesD [OF m] True by (simp add: e2_def)
  next
    case False
    then show ?thesis using am(1,2,7) am(5) [OF False] g(3) by (simp add: e2_def fun_upd_idem)
  qed
  then have b2: "busy e2 = busy e" and e2: "exec_ok ph S e2" "fixed e2 = fixed e"
    "\<And>k. place e2 k = place e k \<or> k = g \<and> place e2 k = EXEC_STATE_IDLE" "\<And>k. k \<noteq> g \<Longrightarrow> place e2 k = place e k"
    using g(3) by (auto split: if_splits)
  show ?case
  proof (cases "n - 1 = 0")
    case True
    then have "e' = e2" using "2.prems"(4) a by (auto simp: e2_def split: if_splits)
    then show ?thesis using e2(1-3) b2 by auto
  next
    case False
    obtain r1 t1 where call: "activate_inactive gs (n - 1) r1 t1 e2 = (e', n', r', t')"
        "(e2, r1, t1) = (if st = GROUP_ACTIVE then (mali_executor_change_state_pp_physical g Inactive Idle e1, r + 1, t) else (e1, r, True))"
      using "2.prems"(4) a False by (auto simp: e2_def split: if_splits)
    have g': "\<forall>k \<in> set gs. k \<in> pp_groups e2 \<and> place e2 k = EXEC_STATE_INACTIVE"
    proof
      fix k assume k: "k \<in> set gs"
      then have "k \<noteq> g" "k \<in> pp_groups e \<and> place e k = EXEC_STATE_INACTIVE" using "2.prems"(2,3) by auto
      then show "k \<in> pp_groups e2 \<and> place e2 k = EXEC_STATE_INACTIVE"
        using e2(4) [of k] pp_groups_fixed [OF e2(2)] by simp
    qed
    have "exec_ok ph S e' \<and> fixed e' = fixed e2 \<and> busy e' = busy e2 \<and> (\<forall>k. place e' k = place e2 k \<or> k \<in> set gs \<and> place e' k = EXEC_STATE_IDLE)"
      by (rule "2.IH" [OF refl a [symmetric] refl call(2) refl False e2(1) _ g' call(1)]) (use "2.prems"(2) in simp)
    then show ?thesis using e2(2,3) b2 by (metis list.set_intros(1,2))
  qed
qed simp

lemma activate_gp_ok:
  assumes ok: "exec_ok ph S e" and a: "activate_gp b e = (e', t)"
  shows "exec_ok ph S e'" "fixed e' = fixed e" "\<And>k. k \<in> pp_groups e \<Longrightarrow> place e' k = place e k" "runs_on e e'"
proof -
  have l: "lists_ok e" using ok by (simp add: exec_ok_def)
  then obtain g where g: "gp_group e = Some g" "g \<in> set (glob_groups e)" by (auto simp: lists_ok_def)
  have pl: "place e g = gp_group_state e" using g(1) by (simp add: place_def)
  have ng: "k \<noteq> g" if "k \<in> pp_groups e" for k using that g(1) by (auto simp: pp_groups_def)
  have "exec_ok ph S e' \<and> fixed e' = fixed e \<and> (\<forall>k. k \<noteq> g \<longrightarrow> place e' k = place e k) \<and> runs_on e e'"
  proof (cases "EXEC_STATE_INACTIVE = gp_group_state e \<and> 0 < depth (job_queue_gp (e_gpu e)) \<and> \<not> b")
    case False
    then have "e' = e" using a by (auto simp: activate_gp_def)
    then show ?thesis using ok by simp
  next
    case True
    obtain e1 st where m: "mali_group_activate g e = (e1, st)" by fastforce
    have ina: "place e g = EXEC_STATE_INACTIVE" using True pl by simp
    note am = activate_move [OF ok g(2) ina m]
    have g1: "gp_group e1 = Some g" using g(1) fixed_eq(2) [OF am(1)] by simp
    show ?thesis
    proof (cases "st = GROUP_ACTIVE")
      case act: True
      have mv: "moves g EXEC_STATE_IDLE e1 (e1\<lparr>gp_group_state := EXEC_STATE_IDLE\<rparr>)" by (rule gp_moves(3) [OF am(3) g1])
      have "e' = e1\<lparr>gp_group_state := EXEC_STATE_IDLE\<rparr>" using a True m g(1) act by (auto simp: activate_gp_def)
      then show ?thesis using am(6) [OF act mv] movesD [OF mv] am(1,2,7) ina by (simp add: runs_on_def)
    next
      case nact: False
      have "e' = e1" using a True m g(1) nact by (auto simp: activate_gp_def split: group_state.splits)
      then show ?thesis using am nact by (simp add: runs_on_def)
    qed
  qed
  then show "exec_ok ph S e'" "fixed e' = fixed e" "\<And>k. k \<in> pp_groups e \<Longrightarrow> place e' k = place e k" "runs_on e e'"
    using ng by blast+
qed

section \<open>Deactivating groups\<close>

lemma deactivate_all_ok:
  assumes "exec_ok ph S e" and "distinct gs" and "\<forall>g \<in> set gs. g \<in> pp_groups e \<and> place e g = EXEC_STATE_IDLE"
    and "deactivate_all gs t e = (e', t')"
  shows "exec_ok ph S e' \<and> fixed e' = fixed e \<and> busy e' = busy e \<and>
    place e' = (\<lambda>k. if k \<in> set gs then EXEC_STATE_INACTIVE else place e k)"
  using assms
proof (induction gs t e arbitrary: e' t' rule: deactivate_all.induct)
  case (2 g gs t e)
  obtain e1 u where d: "mali_group_deactivate g e = (e1, u)" by fastforce
  have l: "lists_ok e" using "2.prems"(1) by (simp add: exec_ok_def)
  have g: "g \<in> set (glob_groups e)" "g \<in> pp_groups e" "place e g = EXEC_STATE_IDLE"
    using "2.prems"(3) pp_group [OF l] by auto
  have d1: "e1 = fst (mali_group_deactivate g e)" by (simp add: d)
  note dm = deactivate_move [OF "2.prems"(1) g(1,3) d1]
  let ?e2 = "mali_executor_change_state_pp_physical g Idle Inactive e1"
  have m: "moves g EXEC_STATE_INACTIVE e1 ?e2"
    by (rule place_moves(2)) (use dm g pp_groups_fixed [OF dm(1)] in simp_all)
  have e2: "exec_ok ph S ?e2" "fixed ?e2 = fixed e" "place ?e2 = (place e)(g := EXEC_STATE_INACTIVE)" "busy ?e2 = busy e"
    using dm(1,2,5) dm(4) [OF m] movesD [OF m] by simp_all
  have g': "\<forall>k \<in> set gs. k \<in> pp_groups ?e2 \<and> place ?e2 k = EXEC_STATE_IDLE"
    using "2.prems"(2,3) pp_groups_fixed [OF e2(2)] by (auto simp: e2(3))
  have "exec_ok ph S e' \<and> fixed e' = fixed ?e2 \<and> busy e' = busy ?e2 \<and>
      place e' = (\<lambda>k. if k \<in> set gs then EXEC_STATE_INACTIVE else place ?e2 k)"
    by (rule "2.IH" [OF d [symmetric] refl e2(1) _ g']) (use "2.prems"(2,4) d in simp_all)
  then show ?case using "2.prems"(2) e2(2-4) by (auto simp: fun_eq_iff)
qed (simp add: fun_eq_iff)

lemma deactivate_list_idle_ok:
  assumes ok: "exec_ok ph S e" and "virtual_group e = None" and d: "mali_executor_deactivate_list_idle b e = (e', t)"
  shows "exec_ok ph S e'" "fixed e' = fixed e"
    "place e' = (\<lambda>k. if b \<and> k \<in> pp_groups e \<and> place e k = EXEC_STATE_IDLE then EXEC_STATE_INACTIVE else place e k)"
    "runs_on e e'"
proof -
  have l: "lists_ok e" using ok by (simp add: exec_ok_def)
  have idle: "k \<in> set (group_list_idle e) \<longleftrightarrow> k \<in> pp_groups e \<and> place e k = EXEC_STATE_IDLE" for k
    using place_iff [OF l, of k Idle] by simp
  have cnt: "distinct (group_list_idle e)" "unat (group_list_idle_count e) = length (group_list_idle e)"
    using l unfolding lists_ok_def by (metis list_of.simps(3), metis list_of.simps(3) count_of.simps(3))
  have "exec_ok ph S e' \<and> fixed e' = fixed e \<and> busy e' = busy e \<and>
    place e' = (\<lambda>k. if b \<and> k \<in> pp_groups e \<and> place e k = EXEC_STATE_IDLE then EXEC_STATE_INACTIVE else place e k)"
  proof (cases "b \<and> group_list_idle_count e > 0")
    case True
    then have c: "deactivate_all (group_list_idle e) False e = (e', t)"
      using d assms(2) by (simp add: mali_executor_deactivate_list_idle_def mali_executor_has_virtual_group_def)
    have g: "\<forall>g \<in> set (group_list_idle e). g \<in> pp_groups e \<and> place e g = EXEC_STATE_IDLE" using idle by blast
    show ?thesis using deactivate_all_ok [OF ok cnt(1) g c] True idle by (auto simp: fun_eq_iff)
  next
    case False
    then have "e' = e"
      using d assms(2) by (auto simp: mali_executor_deactivate_list_idle_def mali_executor_has_virtual_group_def split: if_splits)
    moreover have "\<not> (k \<in> pp_groups e \<and> place e k = EXEC_STATE_IDLE)" if b for k
    proof -
      have "group_list_idle_count e = 0" using False that by (simp add: word_greater_zero_iff)
      then have "group_list_idle e = []" using cnt(2) by simp
      then show ?thesis using idle by (metis empty_iff list.set(1))
    qed
    ultimately show ?thesis using ok by (auto simp: fun_eq_iff)
  qed
  then show "exec_ok ph S e'" "fixed e' = fixed e"
    "place e' = (\<lambda>k. if b \<and> k \<in> pp_groups e \<and> place e k = EXEC_STATE_IDLE then EXEC_STATE_INACTIVE else place e k)"
    "runs_on e e'"
    by (simp_all add: runs_on_def)
qed

section \<open>Assigning and starting jobs\<close>

lemma set_state_cong: "exec_ok ph S e \<Longrightarrow> S = S' \<Longrightarrow> exec_ok ph S' e" by simp

lemma to_working:
  assumes ok: "exec_ok ph S e" and g: "g \<in> set (glob_groups e)" "place e g = EXEC_STATE_IDLE"
    and m: "moves g EXEC_STATE_WORKING e e'"
  shows "exec_ok ph (insert g S) e'"
proof -
  have "exec_ok_but g ph S e'" by (rule but_moves [OF exec_ok_open [OF ok] m]) (simp add: g)
  then have "exec_ok_but g ph (insert g S) e'" by (rule but_start) auto
  moreover have "group_ok (insert g S) e' g"
    using exec_okD(7) [OF ok g(1)] g(2) movesD [OF m] running_views [of e' e g] by (simp add: group_ok_def)
  ultimately show ?thesis by (rule exec_ok_close)
qed

lemma frame_simps:
  assumes "frame e' = frame e"
  shows "exec_ok ph S e' = exec_ok ph S e" "fixed e' = fixed e" "place e' = place e" "lists_ok e' = lists_ok e"
    "pp_groups e' = pp_groups e" "busy e' = busy e"
  using exec_ok_frame [OF assms] frame_parts [OF assms] lists_views [of e' e] pp_groups_fixed [of e' e] by simp_all

abbreviation started :: "(gid \<times> jid \<times> u32) list \<Rightarrow> gid set" where
  "started starts \<equiv> fst ` set starts"

lemma assign_jobs_ok:
  assumes "exec_ok ph S e" and "distinct gs" and "\<forall>g \<in> set gs. g \<in> pp_groups e \<and> place e g = EXEC_STATE_IDLE"
    and "assign_jobs m sec gs r e = Done (e', d, starts)"
  shows "exec_ok ph (started starts \<union> S) e' \<and> fixed e' = fixed e \<and> distinct (map fst starts) \<and> started starts \<subseteq> set gs \<and>
    busy e' = busy e \<and> place e' = (\<lambda>k. if k \<in> started starts then EXEC_STATE_WORKING else place e k)"
  using assms
proof (induction m sec gs r e arbitrary: S e' d starts rule: assign_jobs.induct)
  case (2 m sec g gs r e)
  have l: "lists_ok e" using "2.prems"(1) by (simp add: exec_ok_def)
  have g: "g \<in> set (glob_groups e)" "g \<in> pp_groups e" "place e g = EXEC_STATE_IDLE"
    using "2.prems"(3) pp_group [OF l] by auto
  show ?case
  proof (cases "\<not> sec \<and> gp_bound_hint e \<and> mali_executor_tackle_gp_bound m e")
    case True
    then show ?thesis using "2.prems"(1,4) by (auto simp: fun_eq_iff)
  next
    case False
    obtain \<sigma> r0 where got: "mali_scheduler_job_pp_physical_get (e_gpu e) = (\<sigma>, r0)" by fastforce
    then obtain j k where jk: "r0 = Some (j, k)" using "2.prems"(4) False by (cases r0) auto
    define e1 where "e1 = mali_executor_change_state_pp_physical g Idle Working (e\<lparr>e_gpu := \<sigma>\<rparr>)"
    note fr = frame_simps [OF frame_updates(1) [where e = e and \<sigma> = \<sigma>]]
    have ok0: "exec_ok ph S (e\<lparr>e_gpu := \<sigma>\<rparr>)" using "2.prems"(1) fr(1) by simp
    have mv: "moves g EXEC_STATE_WORKING (e\<lparr>e_gpu := \<sigma>\<rparr>) e1"
      unfolding e1_def by (rule place_moves(4)) (use l g fr in simp_all)
    have e1: "exec_ok ph (insert g S) e1" "fixed e1 = fixed e" "place e1 = (place e)(g := EXEC_STATE_WORKING)" "busy e1 = busy e"
      using to_working [OF ok0 _ _ mv] movesD [OF mv] fr g by simp_all
    show ?thesis
    proof (cases "r - 1 = 0")
      case True
      then have "e' = e1" "starts = [(g, j, k)]" using "2.prems"(4) False got jk by (auto simp: e1_def)
      then show ?thesis using e1 by (auto simp: fun_eq_iff)
    next
      case nz: False
      obtain starts1 where rest: "assign_jobs m sec gs (r - 1) e1 = Done (e', d, starts1)" "starts = (g, j, k) # starts1"
        using "2.prems"(4) False got jk nz by (auto simp: e1_def bind_outcome_Done)
      have g': "\<forall>k \<in> set gs. k \<in> pp_groups e1 \<and> place e1 k = EXEC_STATE_IDLE"
        using "2.prems"(2,3) pp_groups_fixed [OF e1(2)] by (auto simp: e1(3))
      have "exec_ok ph (started starts1 \<union> insert g S) e' \<and> fixed e' = fixed e1 \<and> distinct (map fst starts1) \<and>
          started starts1 \<subseteq> set gs \<and> busy e' = busy e1 \<and> place e' = (\<lambda>k. if k \<in> started starts1 then EXEC_STATE_WORKING else place e1 k)"
        by (rule "2.IH" [OF False got [symmetric] jk refl e1_def nz e1(1) _ g' rest(1)]) (use "2.prems"(2) in simp)
      then show ?thesis
        using "2.prems"(2) e1(2-4) rest(2) by (auto simp: fun_eq_iff)
    qed
  qed
qed (auto simp: fun_eq_iff)

lemma start_pp_ok:
  assumes ok: "exec_ok ph S e" and g: "g \<in> S" "g \<in> pp_groups e"
  shows "exec_ok ph (S - {g}) (mali_group_start_pp_job g j k b e)" "fixed (mali_group_start_pp_job g j k b e) = fixed e"
    "place (mali_group_start_pp_job g j k b e) = place e"
    "h \<noteq> g \<Longrightarrow> busy (mali_group_start_pp_job g j k b e) h = busy e h"
proof -
  note bb = but_busy [OF exec_ok_open [OF ok] start_pp_job_parts [where g = g and e = e and j = j and k = k and b = b]]
  show "fixed (mali_group_start_pp_job g j k b e) = fixed e" "place (mali_group_start_pp_job g j k b e) = place e"
    by (rule bb)+
  show "busy (mali_group_start_pp_job g j k b e) h = busy e h" if "h \<noteq> g" using bb(4) that by simp
  have gl: "g \<in> set (glob_groups e)" "gp_group e \<noteq> Some g" using g(2) pp_group [OF exec_okD(3) [OF ok]] by blast+
  have "\<not> gp_core (groups e g)" using exec_okD(1) [OF ok] gl by (simp add: shape_ok_def)
  then have "\<not> gp_core (groups (mali_group_start_pp_job g j k b e) g)" using fixed_eq(9) [OF bb(5)] by simp
  then have "group_ok (S - {g}) (mali_group_start_pp_job g j k b e) g"
    using exec_okD(7) [OF ok gl(1)] g(1) bb(2-4) by (simp add: group_ok_def running_def)
  moreover have "exec_ok_but g ph (S - {g}) (mali_group_start_pp_job g j k b e)" by (rule but_start [OF bb(1)]) simp
  ultimately show "exec_ok ph (S - {g}) (mali_group_start_pp_job g j k b e)" by (intro exec_ok_close)
qed

lemma start_gp_ok:
  assumes ok: "exec_ok ph S e" and g: "g \<in> S" "gp_group e = Some g"
  shows "exec_ok ph (S - {g}) (mali_group_start_gp_job g j b e)" "fixed (mali_group_start_gp_job g j b e) = fixed e"
    "place (mali_group_start_gp_job g j b e) = place e"
    "h \<noteq> g \<Longrightarrow> busy (mali_group_start_gp_job g j b e) h = busy e h"
proof -
  note bb = but_busy [OF exec_ok_open [OF ok] start_gp_job_parts [where g = g and e = e and j = j and b = b]]
  show "fixed (mali_group_start_gp_job g j b e) = fixed e" "place (mali_group_start_gp_job g j b e) = place e" by (rule bb)+
  show "busy (mali_group_start_gp_job g j b e) h = busy e h" if "h \<noteq> g" using bb(4) that by simp
  have gl: "g \<in> set (glob_groups e)" using g(2) exec_okD(3) [OF ok] by (auto simp: lists_ok_def)
  have "gp_core (groups e g)" using exec_okD(1) [OF ok] gl g(2) by (simp add: shape_ok_def)
  then have "gp_core (groups (mali_group_start_gp_job g j b e) g)" using fixed_eq(9) [OF bb(5)] by simp
  then have "group_ok (S - {g}) (mali_group_start_gp_job g j b e) g"
    using exec_okD(7) [OF ok gl(1)] g(1) bb(2-4) by (simp add: group_ok_def running_def)
  moreover have "exec_ok_but g ph (S - {g}) (mali_group_start_gp_job g j b e)" by (rule but_start [OF bb(1)]) simp
  ultimately show "exec_ok ph (S - {g}) (mali_group_start_gp_job g j b e)" by (intro exec_ok_close)
qed

lemma start_pp_jobs_ok:
  assumes "exec_ok ph (started starts \<union> S) e" and "distinct (map fst starts)" and "started starts \<subseteq> pp_groups e"
    and "started starts \<inter> S = {}"
  shows "exec_ok ph S (fold (\<lambda>(g, j, k). mali_group_start_pp_job g j k b) starts e) \<and>
    fixed (fold (\<lambda>(g, j, k). mali_group_start_pp_job g j k b) starts e) = fixed e \<and>
    place (fold (\<lambda>(g, j, k). mali_group_start_pp_job g j k b) starts e) = place e \<and>
    (\<forall>h. h \<notin> started starts \<longrightarrow> busy (fold (\<lambda>(g, j, k). mali_group_start_pp_job g j k b) starts e) h = busy e h)"
  using assms
proof (induction starts arbitrary: e)
  case (Cons s starts)
  obtain g j k where s: "s = (g, j, k)" by (cases s)
  let ?e = "mali_group_start_pp_job g j k b e"
  have g: "g \<in> started (s # starts) \<union> S" "g \<in> pp_groups e" using Cons.prems(3) s by simp_all
  note st = start_pp_ok [OF Cons.prems(1) g, where j = j and k = k and b = b]
  have "started (s # starts) \<union> S - {g} = started starts \<union> S" using Cons.prems(2,4) s by auto
  then have "exec_ok ph (started starts \<union> S) ?e" using st(1) by simp
  from Cons.IH [OF this] Cons.prems(2-4) s st(2-4) pp_groups_fixed [OF st(2)] show ?case by simp
qed simp

lemma assign_gp_ok:
  assumes ok: "exec_ok ph S e" and a: "assign_gp sec t e = Done (e', t', j)"
  shows "exec_ok ph (if j = None then S else insert (the (gp_group e)) S) e'" "fixed e' = fixed e"
    "runs_on e e'" "j \<noteq> None \<Longrightarrow> place e (the (gp_group e)) = EXEC_STATE_IDLE"
proof -
  have l: "lists_ok e" using ok by (simp add: exec_ok_def)
  then obtain g where g: "gp_group e = Some g" "g \<in> set (glob_groups e)" by (auto simp: lists_ok_def)
  have pl: "place e g = gp_group_state e" using g(1) by (simp add: place_def)
  have "exec_ok ph (if j = None then S else insert g S) e' \<and> fixed e' = fixed e \<and> runs_on e e' \<and>
    (j \<noteq> None \<longrightarrow> place e g = EXEC_STATE_IDLE)"
  proof (cases "EXEC_STATE_IDLE = gp_group_state e \<and> \<not> sec")
    case False
    then show ?thesis using a ok by (auto simp: assign_gp_def)
  next
    case idle: True
    then have pi: "place e g = EXEC_STATE_IDLE" by (simp add: pl)
    show ?thesis
    proof (cases "0 < depth (job_queue_gp (e_gpu e))")
      case True
      obtain \<sigma> j0 where j0: "mali_scheduler_job_gp_get (e_gpu e) = (\<sigma>, j0)" by fastforce
      then obtain j1 where j1: "j0 = Some j1" using a idle True by (cases j0) (auto simp: assign_gp_def)
      then have e': "e' = e\<lparr>e_gpu := \<sigma>, gp_group_state := EXEC_STATE_WORKING\<rparr>" "j = Some j1"
        using a idle True j0 by (simp_all add: assign_gp_def)
      note fr = frame_simps [OF frame_updates(1) [where e = e and \<sigma> = \<sigma>]]
      have mv: "moves g EXEC_STATE_WORKING (e\<lparr>e_gpu := \<sigma>\<rparr>) e'"
        unfolding e' by (rule gp_moves(4)) (use l fr g in simp_all)
      have "exec_ok ph (insert g S) e'" by (rule to_working [OF _ _ _ mv]) (use ok fr g pi in simp_all)
      then show ?thesis using movesD(1,3,5) [OF mv] fr(2,3,6) e'(2) pi by (simp add: runs_on_def)
    next
      case False
      show ?thesis
      proof (cases "0 < gp_tracker_count (e_gpu e)")
        case True
        then show ?thesis using a idle False ok by (auto simp: assign_gp_def)
      next
        case nt: False
        let ?e1 = "e\<lparr>gp_group_state := EXEC_STATE_INACTIVE\<rparr>"
        have mv: "moves g EXEC_STATE_INACTIVE e ?e1" by (rule gp_moves(2) [OF l g(1)])
        have b: "exec_ok_but g ph S ?e1" by (rule but_moves [OF exec_ok_open [OF ok] mv]) (simp add: pi)
        have e': "e' = fst (mali_group_deactivate g ?e1)" "j = None"
          using a idle False nt g(1) by (auto simp: assign_gp_def split: prod.splits)
        have "group_ok S e g" by (rule exec_okD(7) [OF ok g(2)])
        then have "gst e g \<noteq> GROUP_INACTIVE" using pi by (auto simp: group_ok_def)
        with move_deactivate [OF ok g(2) _ this b movesD(1,3,4,5) [OF mv] _ e'(1)] pi
        show ?thesis using e'(2) by (simp add: runs_on_def)
      qed
    qed
  qed
  then show "exec_ok ph (if j = None then S else insert (the (gp_group e)) S) e'" "fixed e' = fixed e"
    "runs_on e e'" "j \<noteq> None \<Longrightarrow> place e (the (gp_group e)) = EXEC_STATE_IDLE"
    using g(1) by auto
qed

section \<open>Scheduling\<close>

lemma no_virtual:
  assumes "exec_ok ph S e"
  shows "virtual_group e = None" "virtual_group_state e = EXEC_STATE_NOT_PRESENT"
proof -
  obtain g where "g \<in> set (glob_groups e)" using exec_okD(3) [OF assms] by (auto simp: lists_ok_def)
  then show "virtual_group e = None" using exec_okD(9) [OF assms] by (simp add: physical_def)
  show "virtual_group_state e = EXEC_STATE_NOT_PRESENT" using exec_okD(1) [OF assms] by (simp add: shape_ok_def)
qed

lemma prepare_physical_ok:
  assumes ok: "exec_ok ph {} e" and p: "prepare_physical m sec t e = Done (e', t', d, starts)"
  shows "exec_ok ph (started starts) e' \<and> fixed e' = fixed e \<and> distinct (map fst starts) \<and> started starts \<subseteq> pp_groups e \<and>
    runs_on e e' \<and> (\<forall>g \<in> started starts. place e g \<noteq> EXEC_STATE_WORKING)"
proof (cases "mali_scheduler_job_physical_head_count sec (e_gpu e) = 0")
  case True
  then show ?thesis using p ok by (auto simp: prepare_physical_def)
next
  case False
  let ?n = "mali_scheduler_job_physical_head_count sec (e_gpu e)"
  define n1 r where "n1 = (if ?n \<le> group_list_idle_count e then 0 else ?n - group_list_idle_count e)"
    and "r = (if ?n \<le> group_list_idle_count e then ?n else group_list_idle_count e)"
  obtain e1 n2 r1 t1 where ai: "(if 0 < n1 then activate_inactive (group_list_inactive e) n1 r t e else (e, n1, r, t)) = (e1, n2, r1, t1)"
    by (metis prod_cases4)
  have l: "lists_ok e" using ok by (simp add: exec_ok_def)
  have inact: "\<forall>g \<in> set (group_list_inactive e). g \<in> pp_groups e \<and> place e g = EXEC_STATE_INACTIVE"
    using place_iff [OF l, of _ Inactive] by simp
  have dist: "distinct (group_list_inactive e)" using l unfolding lists_ok_def by (metis list_of.simps(2))
  have e1: "exec_ok ph {} e1" "fixed e1 = fixed e" "busy e1 = busy e"
    "\<And>k. place e1 k = place e k \<or> k \<in> set (group_list_inactive e) \<and> place e1 k = EXEC_STATE_IDLE"
    using activate_inactive_ok [OF ok dist inact, of n1 r t e1 n2 r1 t1] ai ok by (auto split: if_splits)
  have run1: "place e1 k = EXEC_STATE_WORKING \<longleftrightarrow> place e k = EXEC_STATE_WORKING" for k
    using e1(4) [of k] inact by auto
  have nv: "\<not> mali_executor_virtual_group_is_usable e1"
    using no_virtual(2) [OF e1(1)] by (simp add: mali_executor_virtual_group_is_usable_def)
  have p': "(if 0 < r1 then bind_outcome (assign_jobs m sec (group_list_idle e1) r1 e1)
       (\<lambda>(e3, deactivate, starts). Done (e3, t1, deactivate, starts)) else Done (e1, t1, True, [])) = Done (e', t', d, starts)"
    using p False ai nv unfolding prepare_physical_def n1_def r_def by (auto simp: Let_def split: if_splits)
  have l1: "lists_ok e1" using e1(1) by (simp add: exec_ok_def)
  have idle: "\<forall>g \<in> set (group_list_idle e1). g \<in> pp_groups e1 \<and> place e1 g = EXEC_STATE_IDLE"
    using place_iff [OF l1, of _ Idle] by simp
  have dist1: "distinct (group_list_idle e1)" using l1 unfolding lists_ok_def by (metis list_of.simps(3))
  show ?thesis
  proof (cases "0 < r1")
    case False
    then show ?thesis using p' e1(1-3) run1 by (auto simp: runs_on_def)
  next
    case True
    then have "assign_jobs m sec (group_list_idle e1) r1 e1 = Done (e', d, starts)"
      using p' by (auto simp: bind_outcome_Done)
    note as = assign_jobs_ok [OF e1(1) dist1 idle this]
    then have "place e1 g = EXEC_STATE_IDLE" if "g \<in> started starts" for g using idle that by blast
    then have "\<forall>g \<in> started starts. place e g \<noteq> EXEC_STATE_WORKING" using run1 by force
    with as idle pp_groups_fixed [OF e1(2)] e1(2,3) run1 show ?thesis by (auto simp: runs_on_def)
  qed
qed

lemma start_jobs_ok:
  assumes ok: "exec_ok ph (started starts \<union> G) e" and s: "distinct (map fst starts)" "started starts \<subseteq> pp_groups e"
    and g: "G = (if j = None then {} else {the (gp_group e)})"
  shows "exec_ok ph {} (start_jobs b None starts j e) \<and> fixed (start_jobs b None starts j e) = fixed e \<and>
    place (start_jobs b None starts j e) = place e \<and>
    (\<forall>h. h \<notin> started starts \<union> G \<longrightarrow> busy (start_jobs b None starts j e) h = busy e h)"
proof -
  let ?e = "fold (\<lambda>(g, j, k). mali_group_start_pp_job g j k b) starts e"
  have "started starts \<inter> G = {}" using s(2) g by (auto simp: pp_groups_def)
  from start_pp_jobs_ok [OF ok s this, where b = b] have e: "exec_ok ph G ?e" "fixed ?e = fixed e"
    "place ?e = place e" "\<And>h. h \<notin> started starts \<Longrightarrow> busy ?e h = busy e h" by blast+
  show ?thesis
  proof (cases j)
    case None
    then show ?thesis using e g by (simp add: start_jobs_def)
  next
    case (Some j1)
    obtain g0 where g0: "gp_group ?e = Some g0" using exec_okD(3) [OF e(1)] by (auto simp: lists_ok_def)
    then have "G = {g0}" using g Some fixed_eq(2) [OF e(2)] by simp
    then show ?thesis
      using start_gp_ok [OF e(1) _ g0, where j = j1 and b = b] g0 Some e(2-4) by (simp add: start_jobs_def)
  qed
qed

lemma schedule_ok:
  assumes ok: "exec_ok ph {} e" and s: "mali_executor_schedule m e = Done e'"
  shows "exec_ok ph {} e'" "fixed e' = fixed e" "runs_on e e'"
proof -
  have "exec_ok ph {} e' \<and> fixed e' = fixed e \<and> runs_on e e'"
  proof (cases "pause_count e > 0 \<or> fst (mali_executor_schedule_is_early_out e)")
    case True
    then show ?thesis using s ok by (auto simp: mali_executor_schedule_def split: prod.splits bool.splits)
  next
    case False
    then obtain sec where np: "\<not> pause_count e > 0" "mali_executor_schedule_is_early_out e = (False, sec)"
      by (cases "mali_executor_schedule_is_early_out e") auto
    obtain e1 t1 where a: "activate_gp sec e = (e1, t1)" by fastforce
    note k1 = activate_gp_ok [OF ok a]
    from s np a obtain e2 t2 d starts where p: "prepare_physical m sec t1 e1 = Done (e2, t2, d, starts)"
      by (auto simp: mali_executor_schedule_def bind_outcome_Done)
    have k2: "exec_ok ph (started starts) e2" "fixed e2 = fixed e1" "distinct (map fst starts)" "started starts \<subseteq> pp_groups e1"
      "runs_on e1 e2" "\<forall>g \<in> started starts. place e1 g \<noteq> EXEC_STATE_WORKING"
      using prepare_physical_ok [OF k1(1) p] by blast+
    define b where "b \<longleftrightarrow> d \<and> \<not> 0 < phy_pp_tracker_count (e_gpu e2)"
    obtain e3 t3 where di: "mali_executor_deactivate_list_idle b e2 = (e3, t3)" by fastforce
    note k3 = deactivate_list_idle_ok [OF k2(1) no_virtual(1) [OF k2(1)] di]
    note nv = no_virtual(2) [OF k3(1)]
    have av: "activate_virtual sec t e3 = (e3, t)" for t by (simp add: activate_virtual_def nv)
    define tt where "tt = (t3 \<or> t2)"
    define e5 where "e5 = (if sec = secure_mode_enabled e3 then trigger_update tt e3 else e3)"
    have fr: "frame e5 = frame e3" by (simp add: e5_def)
    note f5 = frame_simps [OF fr]
    have "virtual_group_state (trigger_update tt e3) = EXEC_STATE_NOT_PRESENT"
      using fixed_eq(4) [of "trigger_update tt e3" e3] frame_parts(1) [of "trigger_update tt e3" e3] nv by simp
    then have asv: "assign_virtual x t e3 = (e3, t, None)"
      "assign_virtual x t (trigger_update tt e3) = (trigger_update tt e3, t, None)" for x t
      by (simp_all add: assign_virtual_def nv)
    have s': "mali_executor_schedule m e = bind_outcome (assign_gp sec (sec \<noteq> secure_mode_enabled e3 \<and> tt) e5) (\<lambda>(e7, t7, j).
        Done (trigger_update t7 (start_jobs (secure_mode_enabled e3) None starts j e7)))"
      using np a p di unfolding mali_executor_schedule_def
      by (simp add: b_def [symmetric] av e5_def tt_def [symmetric] asv Let_def cong: if_cong)
    obtain x where x: "assign_gp sec (sec \<noteq> secure_mode_enabled e3 \<and> tt) e5 = Done x"
        "(case x of (e7, t7, j) \<Rightarrow> Done (trigger_update t7 (start_jobs (secure_mode_enabled e3) None starts j e7))) = Done e'"
      using s unfolding s' bind_outcome_Done by blast
    obtain e7 t7 j where xx: "x = (e7, t7, j)" by (cases x)
    note g = x(1) [unfolded xx]
    have e': "e' = trigger_update t7 (start_jobs (secure_mode_enabled e3) None starts j e7)"
      using x(2) unfolding xx prod.case outcome.inject by (rule sym)
    have k5: "exec_ok ph (started starts) e5" using k3(1) f5(1) by simp
    note k7 = assign_gp_ok [OF k5 g]
    have "fixed e7 = fixed e1" using k7(2) f5(2) k3(2) k2(2) by simp
    then have pp: "pp_groups e7 = pp_groups e1" by (rule pp_groups_fixed)
    let ?G = "if j = None then {} else {the (gp_group e7)}"
    have "exec_ok ph (started starts \<union> ?G) e7"
      using k7(1) fixed_eq(2) [OF k7(2)] by (cases j) simp_all
    from start_jobs_ok [OF this k2(3) _ refl, where b = "secure_mode_enabled e3"] k2(4) pp
    have st: "exec_ok ph {} (start_jobs (secure_mode_enabled e3) None starts j e7)"
      "fixed (start_jobs (secure_mode_enabled e3) None starts j e7) = fixed e7"
      "place (start_jobs (secure_mode_enabled e3) None starts j e7) = place e7"
      "\<And>h. h \<notin> started starts \<union> ?G \<Longrightarrow> busy (start_jobs (secure_mode_enabled e3) None starts j e7) h = busy e7 h" by simp_all
    have fe: "frame e' = frame (start_jobs (secure_mode_enabled e3) None starts j e7)" by (simp add: e')
    have r17: "runs_on e1 e7" using runs_on_trans [OF k2(5) runs_on_trans [OF k3(4) runs_on_trans [OF runs_on_frame [OF fr] k7(3)]]] .
    have r15: "runs_on e1 e5" using runs_on_trans [OF k2(5) runs_on_trans [OF k3(4) runs_on_frame [OF fr]]] .
    have "runs_on e1 e'"
    proof -
      have "place e' k = EXEC_STATE_WORKING \<and> busy e' k = busy e1 k" if k: "place e1 k = EXEC_STATE_WORKING" for k
      proof -
        have "k \<notin> started starts" using k2(6) k by blast
        moreover have "k \<notin> ?G"
        proof
          assume "k \<in> ?G"
          then have "j \<noteq> None" "k = the (gp_group e5)" using fixed_eq(2) [OF k7(2)] by (auto split: if_splits)
          then have "place e5 k = EXEC_STATE_IDLE" using k7(4) by simp
          then show False using r15 k by (simp add: runs_on_def)
        qed
        ultimately have "busy e' k = busy e7 k" using frame_simps(6) [OF fe] st(4) by simp
        then show ?thesis using r17 k frame_simps(3) [OF fe] st(3) by (simp add: runs_on_def)
      qed
      then show ?thesis by (simp add: runs_on_def)
    qed
    then have "runs_on e e'" using runs_on_trans [OF k1(4)] by blast
    then show ?thesis
      using frame_simps(1,2) [OF fe] st(1,2) k7(2) f5(2) k3(2) k2(2) k1(2) by simp
  qed
  then show "exec_ok ph {} e'" "fixed e' = fixed e" "runs_on e e'" by blast+
qed

end
