(* ===== verification/Exec_Steps.thy ===== *)
theory Exec_Steps
  imports Exec_Schedule
begin

text \<open>
  The other operations of the executor keep its invariant: enabling and disabling groups, core
  scaling, completion, the notifications of the power manager, suspending, resuming and aborting.
\<close>

section \<open>Enabling and disabling\<close>

lemma enabled_update [simp]:
  "fixed (e\<lparr>num_physical_pp_cores_enabled := n\<rparr>) = fixed e" "lists (e\<lparr>num_physical_pp_cores_enabled := n\<rparr>) = lists e"
  "gst (e\<lparr>num_physical_pp_cores_enabled := n\<rparr>) = gst e" "gpow (e\<lparr>num_physical_pp_cores_enabled := n\<rparr>) = gpow e"
  "busy (e\<lparr>num_physical_pp_cores_enabled := n\<rparr>) = busy e"
proof -
  have "list_of l (e\<lparr>num_physical_pp_cores_enabled := n\<rparr>) = list_of l e"
    "count_of l (e\<lparr>num_physical_pp_cores_enabled := n\<rparr>) = count_of l e" for l by (cases l; simp)+
  then show "lists (e\<lparr>num_physical_pp_cores_enabled := n\<rparr>) = lists e" by (simp add: lists_def)
qed (simp_all add: fixed_def gst_def gpow_def busy_def fun_eq_iff)

lemma but_moves_counted:
  assumes ok: "exec_ok_but g ph S e" and m: "moves g st e e0" and e1: "e1 = e0\<lparr>num_physical_pp_cores_enabled := n\<rparr>"
    and n: "enabled_ok e1"
  shows "exec_ok_but g ph S e1" "fixed e1 = fixed e" "place e1 = (place e)(g := st)" "gst e1 = gst e" "busy e1 = busy e"
    "lists_ok e1"
proof -
  have f: "fixed e1 = fixed e0" "lists e1 = lists e0" by (simp_all add: e1)
  note l = lists_views [OF f] and d = movesD [OF m]
  have p: "gst e1 = gst e" "gpow e1 = gpow e" "busy e1 = busy e" "e_pm e1 = e_pm e" using d by (simp_all add: e1)
  show v: "fixed e1 = fixed e" "place e1 = (place e)(g := st)" "gst e1 = gst e" "busy e1 = busy e" "lists_ok e1"
    using d f l p by simp_all
  show "exec_ok_but g ph S e1"
    using exec_ok_butD(8) [OF ok, of g] group_power_views [of e1 e g ph] v p exec_ok_refs [OF ok] n
      refs_exact_same [OF exec_ok_butD(6) [OF ok]]
    by (intro exec_ok_but_change [OF ok v(1)]) simp_all
qed

lemma gp_or_pp:
  assumes "exec_ok ph S e" and "g \<in> set (glob_groups e)"
  shows "gp_group e = Some g \<or> g \<in> pp_groups e"
  using pp_group [OF exec_okD(3) [OF assms(1)]] assms(2) by blast

lemma to_inactive:
  assumes ok: "exec_ok ph S e" and g: "place e g = EXEC_STATE_DISABLED"
    and b: "exec_ok_but g ph S e1" "fixed e1 = fixed e" "place e1 = (place e)(g := EXEC_STATE_INACTIVE)" "gst e1 = gst e"
      "busy e1 = busy e" and gl: "g \<in> set (glob_groups e)"
  shows "exec_ok ph S e1"
proof (rule exec_ok_close [OF b(1) group_ok_at [of S e]])
  have "group_ok S e g" by (rule exec_okD(7) [OF ok gl])
  then show "group_ok S e g" "(gst e1 g = GROUP_ACTIVE) = (place e1 g = EXEC_STATE_IDLE)"
    using g b by (simp_all add: group_ok_def)
qed (use g b in simp_all)

lemma enable_internal_ok:
  assumes ok: "exec_ok ph S e" and g: "g \<in> set (glob_groups e)" "place e g = EXEC_STATE_DISABLED"
  shows "exec_ok ph S (mali_executor_group_enable_internal g e)" "fixed (mali_executor_group_enable_internal g e) = fixed e"
    "runs_on e (mali_executor_group_enable_internal g e)"
proof -
  let ?e' = "mali_executor_group_enable_internal g e"
  have l: "lists_ok e" by (rule exec_okD(3) [OF ok])
  have nv: "\<not> mali_executor_has_virtual_group e1" if "fixed e1 = fixed e" for e1
    using no_virtual(1) [OF ok] fixed_eq(3) [OF that] by (simp add: mali_executor_has_virtual_group_def)
  have "exec_ok ph S ?e' \<and> fixed ?e' = fixed e \<and> runs_on e ?e'"
  proof (cases "gp_group e = Some g")
    case True
    let ?e1 = "e\<lparr>gp_group_state := EXEC_STATE_INACTIVE\<rparr>"
    have m: "moves g EXEC_STATE_INACTIVE e ?e1" by (rule gp_moves(2) [OF l True])
    have b: "exec_ok_but g ph S ?e1"
      by (rule but_moves [OF exec_ok_open [OF ok] m]) (use True in \<open>simp add: pp_groups_def\<close>)
    have o1: "exec_ok ph S ?e1" by (rule to_inactive [OF ok g(2) b _ _ _ _ g(1)]) (use movesD [OF m] in simp_all)
    have g1: "g \<in> set (glob_groups ?e1)" "place ?e1 g = EXEC_STATE_INACTIVE" using g(1) movesD [OF m] by simp_all
    obtain e2 st where a: "mali_group_activate g ?e1 = (e2, st)" by fastforce
    note am = activate_move [OF o1 g1 a]
    have gp2: "gp_group e2 = Some g" using True fixed_eq(2) [OF am(1)] by simp
    show ?thesis
    proof (cases "st = GROUP_ACTIVE")
      case act: True
      have mv: "moves g EXEC_STATE_IDLE e2 (e2\<lparr>gp_group_state := EXEC_STATE_IDLE\<rparr>)" by (rule gp_moves(3) [OF am(3) gp2])
      have "?e' = e2\<lparr>gp_group_state := EXEC_STATE_IDLE\<rparr>"
        using True a act by (simp add: mali_executor_group_enable_internal_def Let_def)
      then show ?thesis
        using am(6) [OF act mv] movesD(1,3,5) [OF mv] am(1,2,7) movesD(1,3,5) [OF m] g(2) by (simp add: runs_on_def)
    next
      case False
      then have "frame ?e' = frame e2"
        using True a by (cases st) (simp_all add: mali_executor_group_enable_internal_def Let_def)
      then show ?thesis
        using am(5) [OF False] am(1,2,7) movesD(1,3,5) [OF m] frame_simps(1,2,3,6) [of ?e' e2] g(2) by (simp add: runs_on_def)
    qed
  next
    case False
    then have pp: "g \<in> pp_groups e" using gp_or_pp [OF ok g(1)] by blast
    let ?e0 = "mali_executor_change_state_pp_physical g Disabled Inactive e"
    let ?e1 = "?e0\<lparr>num_physical_pp_cores_enabled := num_physical_pp_cores_enabled e + 1\<rparr>"
    have m: "moves g EXEC_STATE_INACTIVE e ?e0" by (rule place_moves(2)) (use l pp g in simp_all)
    have en: "enabled_ok ?e1"
      by (rule enabled_up [OF exec_okD(4) [OF ok], where g = g and st = EXEC_STATE_INACTIVE])
        (use lists_views(1) [of ?e1 ?e0] movesD [OF m] pp g l in simp_all)
    note bc = but_moves_counted [OF exec_ok_open [OF ok] m refl en]
    have o1: "exec_ok ph S ?e1" by (rule to_inactive [OF ok g(2) bc(1-5) g(1)])
    have g1: "g \<in> set (glob_groups ?e1)" "place ?e1 g = EXEC_STATE_INACTIVE" using g(1) bc fixed_eq(1) [OF bc(2)] by simp_all
    obtain e2 st where a: "mali_group_activate g ?e1 = (e2, st)" by fastforce
    note am = activate_move [OF o1 g1 a]
    have pp2: "g \<in> pp_groups e2" using pp pp_groups_fixed [OF am(1)] pp_groups_fixed [OF bc(2)] by simp
    have ng: "Some g \<noteq> gp_group e2" using False fixed_eq(2) [OF am(1)] fixed_eq(2) [OF bc(2)] by simp
    show ?thesis
    proof (cases "st = GROUP_ACTIVE")
      case act: True
      let ?e3 = "mali_executor_change_state_pp_physical g Inactive Idle e2"
      have mv: "moves g EXEC_STATE_IDLE e2 ?e3" by (rule place_moves(3)) (use am(2,3) pp2 g1 in simp_all)
      have f3: "fixed ?e3 = fixed e" using movesD(1) [OF mv] am(1) bc(2) by simp
      have "?e' = ?e3"
        using False a act nv [OF f3] by (auto simp: mali_executor_group_enable_internal_def Let_def)
      then show ?thesis using am(6) [OF act mv] f3 movesD(3,5) [OF mv] am(2,7) bc(3,5) g(2) by (simp add: runs_on_def)
    next
      case nact: False
      then have "frame ?e' = frame e2"
        using False a by (cases st) (auto simp: mali_executor_group_enable_internal_def Let_def)
      then show ?thesis
        using am(5) [OF nact] am(1,2,7) bc(2,3,5) frame_simps(1,2,3,6) [of ?e' e2] g(2) by (simp add: runs_on_def)
    qed
  qed
  then show "exec_ok ph S ?e'" "fixed ?e' = fixed e" "runs_on e ?e'" by blast+
qed

lemma disable_idle:
  assumes ok: "exec_ok ph S e" and g: "g \<in> set (glob_groups e)" "place e g \<in> {EXEC_STATE_IDLE, EXEC_STATE_INACTIVE}"
    and b: "exec_ok_but g ph S e1" "fixed e1 = fixed e" "place e1 = (place e)(g := EXEC_STATE_DISABLED)" "gst e1 = gst e"
      "busy e1 = busy e"
    and e': "e' = (if grp_state (groups e1 g) \<noteq> GROUP_INACTIVE
        then let (e2, t) = mali_group_deactivate g e1 in trigger_update t e2 else e1)"
  shows "exec_ok ph S e' \<and> fixed e' = fixed e \<and> runs_on e e'"
proof (cases "gst e g = GROUP_INACTIVE")
  case True
  then have "e' = e1" using e' b(4) by (simp add: gst_def fun_eq_iff)
  moreover have "exec_ok ph S e1"
    by (rule exec_ok_close [OF b(1) group_ok_at [OF exec_okD(7) [OF ok g(1)]]]) (use g True b in auto)
  ultimately show ?thesis using b(2,3,5) g(2) by (auto simp: runs_on_def)
next
  case False
  obtain e2 t where d: "mali_group_deactivate g e1 = (e2, t)" by fastforce
  then have e2: "e2 = fst (mali_group_deactivate g e1)" by simp
  have "e' = trigger_update t e2" using False e' d b(4) by (simp add: gst_def fun_eq_iff)
  then have "frame e' = frame e2" by simp
  moreover have "exec_ok ph S e2" "fixed e2 = fixed e" "place e2 = (place e)(g := EXEC_STATE_DISABLED)" "busy e2 = busy e"
    using move_deactivate [OF ok g False b _ e2] by simp_all
  ultimately show ?thesis using frame_simps(1,2,3,6) [of e' e2] g(2) by (auto simp: runs_on_def)
qed

lemma disable_internal_ok:
  assumes ok: "exec_ok ph S e" and g: "g \<in> set (glob_groups e)" "place e g \<noteq> EXEC_STATE_DISABLED"
  shows "exec_ok ph S (mali_executor_group_disable_internal g e)" "fixed (mali_executor_group_disable_internal g e) = fixed e"
    "runs_on e (mali_executor_group_disable_internal g e)"
proof -
  let ?e' = "mali_executor_group_disable_internal g e"
  have l: "lists_ok e" by (rule exec_okD(3) [OF ok])
  have ph: "virtual_group e = None" "parent_group (groups e g) = None"
    using exec_okD(9) [OF ok g(1)] by (simp_all add: physical_def)
  have st: "mali_executor_group_is_in_state g EXEC_STATE_WORKING e \<longleftrightarrow> place e g = EXEC_STATE_WORKING"
    "mali_executor_group_is_in_state g EXEC_STATE_IDLE e \<longleftrightarrow> place e g = EXEC_STATE_IDLE"
    using in_state [OF l ph g(1), of Working] in_state [OF l ph g(1), of Idle] by simp_all
  have "exec_ok ph S ?e' \<and> fixed ?e' = fixed e \<and> runs_on e ?e'"
  proof (cases "place e g = EXEC_STATE_WORKING")
    case True
    then have "?e' = mali_group_set_disable_request g True e" by (simp add: mali_executor_group_disable_internal_def st)
    then have "frame ?e' = frame e" by simp
    then show ?thesis using frame_simps(1,2) [of ?e' e] ok runs_on_frame [of ?e' e] by simp
  next
    case nw: False
    obtain k where k: "place e g = state_of k" using place_in_range [OF l g(1)] by blast
    then have idle: "place e g \<in> {EXEC_STATE_IDLE, EXEC_STATE_INACTIVE}" using nw g(2) by (cases k) simp_all
    show ?thesis
    proof (cases "gp_group e = Some g")
      case True
      let ?e1 = "e\<lparr>gp_group_state := EXEC_STATE_DISABLED\<rparr>"
      have m: "moves g EXEC_STATE_DISABLED e ?e1" by (rule gp_moves(1) [OF l True])
      have b: "exec_ok_but g ph S ?e1"
        by (rule but_moves [OF exec_ok_open [OF ok] m]) (use True in \<open>simp add: pp_groups_def\<close>)
      show ?thesis
        by (rule disable_idle [OF ok g(1) idle b movesD(1,3,4,5) [OF m]])
          (use True nw st in \<open>simp add: mali_executor_group_disable_internal_def Let_def\<close>)
    next
      case False
      then have pp: "g \<in> pp_groups e" using gp_or_pp [OF ok g(1)] by blast
      let ?e0 = "mali_executor_change_group_status_disabled g e"
      let ?e1 = "?e0\<lparr>num_physical_pp_cores_enabled := num_physical_pp_cores_enabled e - 1\<rparr>"
      have m: "moves g EXEC_STATE_DISABLED e ?e0"
        using place_moves(1) [OF l pp, of Idle] place_moves(1) [OF l pp, of Inactive] idle st
        by (auto simp: mali_executor_change_group_status_disabled_def)
      have en: "enabled_ok ?e1"
        by (rule enabled_down [OF exec_okD(4) [OF ok], where g = g])
          (use lists_views(1) [of ?e1 ?e0] movesD [OF m] pp g in simp_all)
      note bc = but_moves_counted [OF exec_ok_open [OF ok] m refl en]
      show ?thesis
        by (rule disable_idle [OF ok g(1) idle bc(1-5)])
          (use False nw st ph in \<open>simp add: mali_executor_group_disable_internal_def Let_def mali_group_is_in_virtual_def\<close>)
    qed
  qed
  then show "exec_ok ph S ?e'" "fixed ?e' = fixed e" "runs_on e ?e'" by blast+
qed

lemma is_disabled:
  assumes "exec_ok ph S e" and "g \<in> set (glob_groups e)"
  shows "mali_executor_group_is_in_state g EXEC_STATE_DISABLED e \<longleftrightarrow> place e g = EXEC_STATE_DISABLED"
  using in_state [OF exec_okD(3) [OF assms(1)] _ _ assms(2), of Disabled] exec_okD(9) [OF assms]
  by (simp add: physical_def)

lemma group_enable_ok:
  assumes ok: "exec_ok ph {} e" and g: "g \<in> set (glob_groups e)" and e: "mali_executor_group_enable m g e = Done e'"
  shows "exec_ok ph {} e' \<and> fixed e' = fixed e \<and> runs_on e e'"
proof -
  define e1 where "e1 = (if (gp_core (groups e g) \<or> pp_core (groups e g)) \<and> mali_executor_group_is_in_state g EXEC_STATE_DISABLED e
      then mali_executor_group_enable_internal g e else e)"
  have e1: "exec_ok ph {} e1" "fixed e1 = fixed e" "runs_on e e1"
    using enable_internal_ok [OF ok g] is_disabled [OF ok g] ok by (simp_all add: e1_def)
  obtain e2 where s: "mali_executor_schedule m e1 = Done e2" and e': "e' = hw [NotifyCoreChange] e2"
    using e by (auto simp: mali_executor_group_enable_def e1_def [symmetric] bind_outcome_Done)
  have "frame e' = frame e2" by (simp add: e')
  then show ?thesis
    using schedule_ok [OF e1(1) s] e1(2) frame_simps(1,2) [of e' e2] runs_on_trans [OF e1(3) runs_on_trans [OF _ runs_on_frame]] by simp
qed

lemma group_disable_ok:
  assumes ok: "exec_ok ph {} e" and g: "g \<in> set (glob_groups e)" and e: "mali_executor_group_disable m g e = Done e'"
  shows "exec_ok ph {} e' \<and> fixed e' = fixed e \<and> runs_on e e'"
proof -
  define e1 where "e1 = (if (gp_core (groups e g) \<or> pp_core (groups e g)) \<and> \<not> mali_executor_group_is_in_state g EXEC_STATE_DISABLED e
      then mali_executor_group_disable_internal g e else e)"
  have e1: "exec_ok ph {} e1" "fixed e1 = fixed e" "runs_on e e1"
    using disable_internal_ok [OF ok g] is_disabled [OF ok g] ok by (simp_all add: e1_def)
  obtain e2 where s: "mali_executor_schedule m e1 = Done e2" and e': "e' = hw [NotifyCoreChange] e2"
    using e by (auto simp: mali_executor_group_disable_def e1_def [symmetric] bind_outcome_Done)
  have "frame e' = frame e2" by (simp add: e')
  then show ?thesis
    using schedule_ok [OF e1(1) s] e1(2) frame_simps(1,2) [of e' e2] runs_on_trans [OF e1(3) runs_on_trans [OF _ runs_on_frame]] by simp
qed

section \<open>Core scaling\<close>

lemma domain_groups:
  assumes "exec_ok ph S e" and "pm_domains (e_pm e) d = Some x"
  shows "set (group_list x) \<subseteq> set (glob_groups e)"
proof -
  have "exists_domain (e_pm e) d" "domain (e_pm e) d = x" using assms(2) by (simp_all add: exists_domain_def domain_def)
  then show ?thesis using exec_okD(2) [OF assms(1)] unfolding registered_def by blast
qed

lemma enable_delayed_ok:
  assumes "exec_ok ph {} e" and "set gs \<subseteq> set (glob_groups e)"
  shows "exec_ok ph {} (fst (enable_delayed d gs n e)) \<and> fixed (fst (enable_delayed d gs n e)) = fixed e \<and>
    runs_on e (fst (enable_delayed d gs n e))"
  using assms
proof (induction d gs n e rule: enable_delayed.induct)
  case (2 d g gs n e)
  let ?c = "pp_core (groups e g) \<and> mali_executor_group_is_in_state g EXEC_STATE_DISABLED e"
  define e1 where "e1 = mali_executor_group_enable_internal g e"
  define e2 where "e2 = e1\<lparr>core_scaling_delay_up_mask := (core_scaling_delay_up_mask e1)(d := core_scaling_delay_up_mask e1 d - 1)\<rparr>"
  show ?case
  proof (cases ?c)
    case False
    then show ?thesis using "2.IH"(2) [OF False] "2.prems" by auto
  next
    case True
    have g: "g \<in> set (glob_groups e)" using "2.prems"(2) by simp
    have "place e g = EXEC_STATE_DISABLED" using is_disabled [OF "2.prems"(1) g] True by simp
    from enable_internal_ok [OF "2.prems"(1) g this] have e1: "exec_ok ph {} e1" "fixed e1 = fixed e" "runs_on e e1" by (simp_all add: e1_def)
    have fr: "frame e2 = frame e1" by (simp add: e2_def)
    have e2: "exec_ok ph {} e2" "fixed e2 = fixed e" using frame_simps(1,2) [OF fr] e1 by simp_all
    have r2: "runs_on e e2" by (rule runs_on_trans [OF e1(3) runs_on_frame [OF fr]])
    show ?thesis
    proof (cases "core_scaling_delay_up_mask e2 d = 0 \<or> n - 1 = 0")
      case stop: True
      have "fst (enable_delayed d (g # gs) n e) = e2"
        using stop True unfolding enable_delayed.simps Let_def e1_def [symmetric] e2_def [symmetric] by auto
      then show ?thesis using e2 r2 by simp
    next
      case go: False
      have r: "enable_delayed d (g # gs) n e = enable_delayed d gs (n - 1) e2"
        using go True unfolding enable_delayed.simps Let_def e1_def [symmetric] e2_def [symmetric] by auto
      have "set gs \<subseteq> set (glob_groups e2)" using "2.prems"(2) fixed_eq(1) [OF e2(2)] by simp
      from "2.IH"(1) [OF True e1_def e2_def go e2(1) this] show ?thesis
        unfolding r using e2(2) runs_on_trans [OF r2] by simp
    qed
  qed
qed simp

lemma enable_delayed_domains_ok:
  assumes "exec_ok ph {} e"
  shows "exec_ok ph {} (enable_delayed_domains ds n e) \<and> fixed (enable_delayed_domains ds n e) = fixed e \<and>
    runs_on e (enable_delayed_domains ds n e)"
  using assms
proof (induction ds n e rule: enable_delayed_domains.induct)
  case (2 d ds n e)
  show ?case
  proof (cases "0 < core_scaling_delay_up_mask e d \<and> n \<noteq> 0 \<and> pm_domains (e_pm e) d \<noteq> None")
    case True
    then obtain x where x: "pm_domains (e_pm e) d = Some x" by auto
    obtain e1 n1 where c: "enable_delayed d (group_list x) n e = (e1, n1)" by fastforce
    have e1: "exec_ok ph {} e1" "fixed e1 = fixed e" "runs_on e e1"
      using enable_delayed_ok [OF "2.prems" domain_groups [OF "2.prems" x], of d n] c by simp_all
    have r: "enable_delayed_domains (d # ds) n e = enable_delayed_domains ds n1 e1" using True x c by simp
    have k: "0 < core_scaling_delay_up_mask e d" "n \<noteq> 0" using True by simp_all
    from "2.IH"(2) [OF k x c [symmetric] refl e1(1)] show ?thesis
      unfolding r using e1(2) runs_on_trans [OF e1(3)] by simp
  qed (use "2.IH"(1,3) "2.prems" in \<open>auto split: option.split\<close>)
qed simp

lemma core_scale_in_group_complete_ok:
  assumes ok: "exec_ok ph {} e" and g: "g \<in> set (glob_groups e)" "place e g \<noteq> EXEC_STATE_DISABLED"
  shows "exec_ok ph {} (mali_executor_core_scale_in_group_complete g e) \<and>
    fixed (mali_executor_core_scale_in_group_complete g e) = fixed e \<and>
    runs_on e (mali_executor_core_scale_in_group_complete g e)"
proof -
  have v: "\<not> mali_group_is_virtual (groups e g)" using exec_okD(9) [OF ok g(1)] by (simp add: physical_def mali_group_is_virtual_def)
  note di = disable_internal_ok [OF ok g]
  let ?e0 = "mali_group_set_disable_request g False (mali_executor_group_disable_internal g e)"
  have e0: "exec_ok ph {} ?e0" "fixed ?e0 = fixed e" "runs_on e ?e0"
    using frame_simps(1,2) [of ?e0 "mali_executor_group_disable_internal g e"] di
      runs_on_trans [OF di(3) runs_on_frame [of ?e0]] by simp_all
  let ?n = "if pp_core (groups ?e0 g) then 1 else 0 :: nat"
  let ?e1 = "enable_delayed_domains [0 ..< MAX_DOMAINS] ?n ?e0"
  have r: "mali_executor_core_scale_in_group_complete g e = hw [WakeNotifyCoreChange] ?e1"
    using v by (simp add: mali_executor_core_scale_in_group_complete_def Let_def)
  have fr: "frame (hw [WakeNotifyCoreChange] ?e1) = frame ?e1" by simp
  have d: "exec_ok ph {} ?e1" "fixed ?e1 = fixed ?e0" "runs_on ?e0 ?e1"
    using enable_delayed_domains_ok [OF e0(1), of "[0 ..< MAX_DOMAINS]" ?n] by blast+
  show ?thesis
    unfolding r using d e0(2) frame_simps(1,2) [OF fr] runs_on_trans [OF e0(3) runs_on_trans [OF d(3) runs_on_frame [OF fr]]] by simp
qed

lemma disable_in_domain_ok:
  assumes "exec_ok ph {} e" and "set gs \<subseteq> set (glob_groups e)"
  shows "exec_ok ph {} (fst (disable_in_domain gs t e)) \<and> fixed (fst (disable_in_domain gs t e)) = fixed e \<and> runs_on e (fst (disable_in_domain gs t e))"
  using assms
proof (induction gs t e rule: disable_in_domain.induct)
  case (2 g gs t e)
  show ?case
  proof (cases "scalable g e \<and> \<not> mali_executor_group_is_in_state g EXEC_STATE_DISABLED e")
    case True
    define e1 where "e1 = mali_executor_group_disable_internal g e"
    have g: "g \<in> set (glob_groups e)" using "2.prems"(2) by simp
    have "place e g \<noteq> EXEC_STATE_DISABLED" using is_disabled [OF "2.prems"(1) g] True by simp
    from disable_internal_ok [OF "2.prems"(1) g this] have e1: "exec_ok ph {} e1" "fixed e1 = fixed e" "runs_on e e1" by (simp_all add: e1_def)
    have s: "set gs \<subseteq> set (glob_groups e1)" using "2.prems"(2) fixed_eq(1) [OF e1(2)] by simp
    show ?thesis
    proof (cases "t + 1 = 0")
      case False
      from "2.IH"(1) [OF True e1_def False e1(1) s] True False e1(2) runs_on_trans [OF e1(3)] show ?thesis by (simp add: e1_def [symmetric] Let_def)
    qed (use True e1 in \<open>simp add: e1_def [symmetric] Let_def\<close>)
  qed (use "2.IH"(2) "2.prems" in auto)
qed simp

lemma enable_in_domain_ok:
  assumes "exec_ok ph {} e" and "set gs \<subseteq> set (glob_groups e)"
  shows "exec_ok ph {} (fst (enable_in_domain n gs t e)) \<and> fixed (fst (enable_in_domain n gs t e)) = fixed e \<and> runs_on e (fst (enable_in_domain n gs t e))"
  using assms
proof (induction n gs t e rule: enable_in_domain.induct)
  case (2 n g gs t e)
  show ?case
  proof (cases "scalable g e \<and> mali_executor_group_is_in_state g EXEC_STATE_DISABLED e")
    case True
    define e1 where "e1 = mali_executor_group_enable_internal g e"
    have g: "g \<in> set (glob_groups e)" using "2.prems"(2) by simp
    have "place e g = EXEC_STATE_DISABLED" using is_disabled [OF "2.prems"(1) g] True by simp
    from enable_internal_ok [OF "2.prems"(1) g this] have e1: "exec_ok ph {} e1" "fixed e1 = fixed e" "runs_on e e1" by (simp_all add: e1_def)
    have s: "set gs \<subseteq> set (glob_groups e1)" using "2.prems"(2) fixed_eq(1) [OF e1(2)] by simp
    show ?thesis
    proof (cases "t - 1 = 0 \<or> num_physical_pp_cores_enabled e1 = n")
      case False
      from "2.IH"(1) [OF True e1_def False e1(1) s] True False e1(2) runs_on_trans [OF e1(3)] show ?thesis by (simp add: e1_def [symmetric] Let_def)
    qed (use True e1 in \<open>auto simp: e1_def [symmetric] Let_def\<close>)
  qed (use "2.IH"(2) "2.prems" in auto)
qed simp

lemma disable_domains_ok:
  assumes "exec_ok ph {} e"
  shows "exec_ok ph {} (fst (disable_domains ds t e)) \<and> fixed (fst (disable_domains ds t e)) = fixed e \<and> runs_on e (fst (disable_domains ds t e))"
  using assms
proof (induction ds t e rule: disable_domains.induct)
  case (2 d ds t e)
  show ?case
  proof (cases "t d < 0 \<and> pm_domains (e_pm e) d \<noteq> None")
    case True
    then obtain x where x: "pm_domains (e_pm e) d = Some x" by auto
    obtain e1 n where c: "disable_in_domain (group_list x) (t d) e = (e1, n)" by fastforce
    have e1: "exec_ok ph {} e1" "fixed e1 = fixed e" "runs_on e e1"
      using disable_in_domain_ok [OF "2.prems" domain_groups [OF "2.prems" x], of "t d"] c by simp_all
    have k: "t d < 0" using True by simp
    from "2.IH"(2) [OF k x c [symmetric] refl e1(1)] show ?thesis using e1(2) k x c runs_on_trans [OF e1(3)] by (simp add: fun_upd_def)
  qed (use "2.IH"(1,3) "2.prems" in \<open>auto split: option.split\<close>)
qed simp

lemma enable_domains_ok:
  assumes "exec_ok ph {} e"
  shows "exec_ok ph {} (fst (enable_domains n ds t e)) \<and> fixed (fst (enable_domains n ds t e)) = fixed e \<and> runs_on e (fst (enable_domains n ds t e))"
  using assms
proof (induction n ds t e rule: enable_domains.induct)
  case (2 n d ds t e)
  show ?case
  proof (cases "0 < t d \<and> \<not> n \<le> num_physical_pp_cores_enabled e \<and> pm_domains (e_pm e) d \<noteq> None")
    case True
    then obtain x where x: "pm_domains (e_pm e) d = Some x" by auto
    obtain e1 k where c: "enable_in_domain n (group_list x) (t d) e = (e1, k)" by fastforce
    have e1: "exec_ok ph {} e1" "fixed e1 = fixed e" "runs_on e e1"
      using enable_in_domain_ok [OF "2.prems" domain_groups [OF "2.prems" x], of n "t d"] c by simp_all
    have k: "0 < t d" "\<not> n \<le> num_physical_pp_cores_enabled e" using True by simp_all
    from "2.IH"(2) [OF k x c [symmetric] refl e1(1)] show ?thesis using e1(2) k x c runs_on_trans [OF e1(3)] by (simp add: fun_upd_def)
  qed (use "2.IH"(1,3) "2.prems" in \<open>auto split: option.split\<close>)
qed simp

lemma core_scale_ok:
  assumes ok: "exec_ok ph {} e" and c: "mali_executor_core_scale m costs n e = Done e'"
  shows "exec_ok ph {} e' \<and> fixed e' = fixed e \<and> runs_on e e'"
proof -
  let ?e0 = "fold (\<lambda>g. upd_group g (\<lambda>x. x\<lparr>disable_requested := False\<rparr>)) (glob_groups e) e"
  let ?e1 = "mali_executor_core_scaling_reset e"
  have "frame ?e0 = frame e" by (rule frame_fold) (simp add: upd_group_frame)
  then have f: "frame ?e1 = frame e" by (simp add: mali_executor_core_scaling_reset_def)
  note e1 = frame_simps(1,2) [OF f]
  have ok1: "exec_ok ph {} ?e1" using e1 ok by simp
  obtain t e2 t2 e3 t3 dm where d: "disable_domains [0 ..< MAX_DOMAINS] t ?e1 = (e2, t2)"
      "enable_domains n [0 ..< MAX_DOMAINS] t2 e2 = (e3, t3)"
    and s: "mali_executor_schedule m (e3\<lparr>core_scaling_delay_up_mask := dm\<rparr>) = Done e'"
    using c by (auto simp: mali_executor_core_scale_def Let_def split: prod.splits)
  have e2: "exec_ok ph {} e2" "fixed e2 = fixed e" "runs_on ?e1 e2"
    using disable_domains_ok [OF ok1, of "[0 ..< MAX_DOMAINS]" t] d(1) e1(2) by simp_all
  have e3: "exec_ok ph {} e3" "fixed e3 = fixed e" "runs_on e2 e3" using enable_domains_ok [OF e2(1), of n "[0 ..< MAX_DOMAINS]" t2] d(2) e2(2) by simp_all
  let ?e4 = "e3\<lparr>core_scaling_delay_up_mask := dm\<rparr>"
  have f4: "frame ?e4 = frame e3" by simp
  then have e4: "exec_ok ph {} ?e4" "fixed ?e4 = fixed e" using frame_simps(1,2) [of ?e4 e3] e3 by simp_all
  have r4: "runs_on e ?e4"
    by (rule runs_on_trans [OF runs_on_frame [OF f] runs_on_trans [OF e2(3) runs_on_trans [OF e3(3) runs_on_frame [OF f4]]]])
  note k = schedule_ok [OF e4(1) s]
  show ?thesis using k(1,2) e4(2) runs_on_trans [OF r4 k(3)] by simp
qed

lemma set_perf_level_ok:
  assumes ok: "exec_ok ph {} e" and c: "mali_executor_set_perf_level m costs n b e = Done (e', r)"
  shows "exec_ok ph {} e' \<and> fixed e' = fixed e \<and> runs_on e e'"
proof (cases "e' = e")
  case False
  then obtain e1 where s: "mali_executor_core_scale m costs n e = Done e1" and e': "e' = hw [NotifyCoreChange] e1"
    using c by (auto simp: mali_executor_set_perf_level_def bind_outcome_Done split: if_splits)
  have fr: "frame e' = frame e1" by (simp add: e')
  have k: "exec_ok ph {} e1" "fixed e1 = fixed e" "runs_on e e1" using core_scale_ok [OF ok s] by blast+
  show ?thesis using k frame_simps(1,2) [OF fr] runs_on_trans [OF k(3) runs_on_frame [OF fr]] by simp
qed (use ok in simp)

end
