(* ===== verification/Exec_Complete.thy ===== *)
theory Exec_Complete
  imports Exec_Steps
begin

text \<open>
  Completing jobs, the notifications of the power manager, suspending, resuming and aborting a
  session keep the invariant of the executor.
\<close>

section \<open>Completion\<close>

lemma release_tracker_frame: "release_tracker fuel c e = Done e' \<Longrightarrow> frame e' = frame e"
  by (auto simp: release_tracker_def bind_outcome_Done)

text \<open>A working group whose job is taken off and that is moved to the idle ones.\<close>

definition others_run :: "gid \<Rightarrow> exec \<Rightarrow> exec \<Rightarrow> bool" where
  "others_run g e e' \<longleftrightarrow> (\<forall>k. k \<noteq> g \<longrightarrow> place e k = EXEC_STATE_WORKING \<longrightarrow>
     place e' k = EXEC_STATE_WORKING \<and> busy e' k = busy e k)"

lemma others_run_trans: "others_run g e e1 \<Longrightarrow> runs_on e1 e2 \<Longrightarrow> others_run g e e2"
  by (simp add: others_run_def runs_on_def)

lemma completed:
  assumes ok: "exec_ok ph {} e" and g: "g \<in> set (glob_groups e)" "place e g = EXEC_STATE_WORKING"
    and b: "changes_busy g (False, p, q) e e1" and n: "(if gp_core (groups e g) then p else q) = None"
    and m: "moves g EXEC_STATE_IDLE e1 e2"
  shows "exec_ok ph {} e2" "fixed e2 = fixed e" "place e2 g = EXEC_STATE_IDLE" "others_run g e e2"
proof -
  note bb = but_busy [OF exec_ok_open [OF ok] b]
  have b2: "exec_ok_but g ph {} e2" by (rule but_moves [OF bb(1) m]) (simp add: bb(2) g)
  show f: "fixed e2 = fixed e" "place e2 g = EXEC_STATE_IDLE" using movesD [OF m] bb(5) by simp_all
  show "others_run g e e2" using movesD(3,5) [OF m] bb(2,4) by (simp add: others_run_def)
  have "gst e g = GROUP_ACTIVE" using exec_okD(7) [OF ok g(1)] g(2) by (simp add: group_ok_def)
  then have "group_ok {} e2 g"
    using n movesD [OF m] bb fixed_eq(9) [OF f(1)] by (simp add: group_ok_def running_def split: if_splits)
  with b2 show "exec_ok ph {} e2" by (rule exec_ok_close)
qed

lemma complete_gp_ok:
  assumes ok: "exec_ok ph {} e" and g: "gp_group e = Some g" "place e g = EXEC_STATE_WORKING"
    and c: "mali_executor_complete_gp fuel r g success e = Done (e', j)"
  shows "exec_ok ph {} e' \<and> fixed e' = fixed e \<and> place e' g = EXEC_STATE_IDLE \<and> others_run g e e'"
proof -
  have gl: "g \<in> set (glob_groups e)" using g(1) exec_okD(3) [OF ok] by (auto simp: lists_ok_def)
  have gp: "gp_core (groups e g)" using exec_okD(1) [OF ok] gl g(1) by (simp add: shape_ok_def)
  obtain e1 j1 where m: "mali_group_complete_gp r g success e = (e1, j1)" by fastforce
  have b: "changes_busy g (False, None, snd (snd (busy e g))) e e1"
    using complete_gp_parts [of g e r success] m by simp
  note bb = but_busy [OF exec_ok_open [OF ok] b]
  have mv: "moves g EXEC_STATE_IDLE e1 (e1\<lparr>gp_group_state := EXEC_STATE_IDLE\<rparr>)"
    by (rule gp_moves(3)) (use exec_ok_butD(3) [OF bb(1)] g(1) fixed_eq(2) [OF bb(5)] in simp_all)
  let ?e2 = "e1\<lparr>gp_group_state := EXEC_STATE_IDLE\<rparr>"
  have n: "(if gp_core (groups e g) then None else snd (snd (busy e g))) = None" using gp by simp
  note e2 = completed [OF ok gl g(2) b n mv]
  obtain e3 where r: "release_tracker fuel (TrackerRelease (GPJob j1)) ?e2 = Done e3"
      "release_tracker fuel (SignalPPTracker j1 success) e3 = Done e'"
    using c m by (auto simp: mali_executor_complete_gp_def bind_outcome_Done)
  have "frame e' = frame ?e2" using release_tracker_frame [OF r(1)] release_tracker_frame [OF r(2)] by simp
  then show ?thesis using frame_simps(1,2,3) [of e' ?e2] e2 others_run_trans [OF e2(4) runs_on_frame] by simp
qed

lemma complete_pp_ok:
  assumes ok: "exec_ok ph {} e" and g: "g \<in> pp_groups e" "place e g = EXEC_STATE_WORKING"
    and c: "mali_executor_complete_pp fuel r g success e = Done (e', j)"
  shows "exec_ok ph {} e' \<and> fixed e' = fixed e \<and> place e' g = EXEC_STATE_IDLE \<and> others_run g e e'"
proof -
  have gl: "g \<in> set (glob_groups e)" "gp_group e \<noteq> Some g" using g(1) pp_group [OF exec_okD(3) [OF ok]] by blast+
  have gp: "\<not> gp_core (groups e g)" using exec_okD(1) [OF ok] gl by (simp add: shape_ok_def)
  obtain e1 j1 k where m: "mali_group_complete_pp r g success e = (e1, j1, k)" by (metis prod_cases3)
  have b: "changes_busy g (False, fst (snd (busy e g)), None) e e1"
    using complete_pp_parts(1) [of g e r success] m by simp
  note bb = but_busy [OF exec_ok_open [OF ok] b]
  have v: "\<not> mali_group_is_virtual (groups e1 g)"
    using exec_okD(9) [OF ok gl(1)] fixed_eq(12) [OF bb(5)] by (simp add: physical_def mali_group_is_virtual_def)
  let ?e2 = "mali_executor_change_state_pp_physical g Working Idle e1"
  have mv: "moves g EXEC_STATE_IDLE e1 ?e2"
    by (rule place_moves(3)) (use exec_ok_butD(3) [OF bb(1)] g pp_groups_fixed [OF bb(5)] bb(2) in simp_all)
  have n: "(if gp_core (groups e g) then fst (snd (busy e g)) else None) = None" using gp by simp
  note e2 = completed [OF ok gl(1) g(2) b n mv]
  let ?e3 = "?e2\<lparr>e_gpu := upd_pp j1 (mali_pp_job_mark_sub_job_completed success) (e_gpu ?e2)\<rparr>"
  have "frame e' = frame ?e3"
    using c m v release_tracker_frame [of fuel _ ?e3 e']
    by (auto simp: mali_executor_complete_pp_def bind_outcome_Done Let_def split: if_splits)
  then have "frame e' = frame ?e2" by simp
  then show ?thesis using frame_simps(1,2,3) [of e' ?e2] e2 others_run_trans [OF e2(4) runs_on_frame] by simp
qed

lemma complete_group_ok:
  assumes ok: "exec_ok ph {} e" and g: "g \<in> set (glob_groups e)" "place e g = EXEC_STATE_WORKING"
    and c: "mali_executor_complete_group fuel m r g success e = Done (e', gj, pj)"
  shows "exec_ok ph {} e' \<and> fixed e' = fixed e \<and> others_run g e e'"
proof -
  have gp: "gp_core (groups e g) \<longleftrightarrow> gp_group e = Some g" using exec_okD(1) [OF ok] g(1) by (simp add: shape_ok_def)
  obtain e1 gd pd where d: "(if gp_core (groups e g)
        then bind_outcome (mali_executor_complete_gp fuel r g success e) (\<lambda>(e1, j). Done (e1, Some j, None))
        else bind_outcome (mali_executor_complete_pp fuel r g success e) (\<lambda>(e1, j).
               Done (e1, None, if mali_pp_job_is_complete (g_pp (e_gpu e1) j) then Some j else None))) = Done (e1, gd, pd)"
    and s: "(if pause_count e1 > 0
             then Done (if \<not> mali_executor_is_working e1 then hw [WakeWorkingQueue] e1 else e1)
             else if disable_requested (groups e1 g)
             then mali_executor_schedule m (mali_executor_core_scale_in_group_complete g e1)
             else mali_executor_schedule m e1) = Done e'"
    using c unfolding mali_executor_complete_group_def bind_outcome_Done [where y = "(e', gj, pj)"] prod.case
    by (elim exE conjE) (auto simp: bind_outcome_Done [where y = "(e', gj, pj)"])
  have e1: "exec_ok ph {} e1 \<and> fixed e1 = fixed e \<and> place e1 g = EXEC_STATE_IDLE \<and> others_run g e e1"
  proof (cases "gp_group e = Some g")
    case True
    then obtain j where "mali_executor_complete_gp fuel r g success e = Done (e1, j)"
      using d gp by (auto simp: bind_outcome_Done)
    then show ?thesis using complete_gp_ok [OF ok True g(2)] by blast
  next
    case False
    then obtain j where "mali_executor_complete_pp fuel r g success e = Done (e1, j)"
      using d gp by (auto simp: bind_outcome_Done)
    moreover have "g \<in> pp_groups e" using gp_or_pp [OF ok g(1)] False by blast
    ultimately show ?thesis using complete_pp_ok [OF ok _ g(2)] by blast
  qed
  have g1: "g \<in> set (glob_groups e1)" "place e1 g \<noteq> EXEC_STATE_DISABLED"
    using e1 g(1) fixed_eq(1) [of e1 e] by simp_all
  show ?thesis
  proof (cases "pause_count e1 > 0")
    case True
    then have "frame e' = frame e1" using s by auto
    then have fr: "frame e' = frame e1" .
    have "others_run g e e'" using others_run_trans [OF _ runs_on_frame [OF fr]] e1 by blast
    then show ?thesis using frame_simps(1,2) [OF fr] e1 by simp
  next
    case False
    let ?e2 = "if disable_requested (groups e1 g) then mali_executor_core_scale_in_group_complete g e1 else e1"
    have k: "exec_ok ph {} ?e2 \<and> fixed ?e2 = fixed e \<and> runs_on e1 ?e2"
      using core_scale_in_group_complete_ok [of ph e1 g] e1 g1 by simp
    have "mali_executor_schedule m ?e2 = Done e'" using s False by (simp split: if_splits)
    then have "exec_ok ph {} e' \<and> fixed e' = fixed ?e2 \<and> runs_on ?e2 e'" using schedule_ok [of ph ?e2 m e'] k by blast
    moreover have "others_run g e ?e2" using others_run_trans k e1 by blast
    ultimately show ?thesis using others_run_trans k by simp
  qed
qed

section \<open>Aborting\<close>

lemma e_gpu_frame: "frame (e\<lparr>e_gpu := \<sigma>\<rparr>) = frame e" by simp

lemma complete_done_frame:
  "complete_done_gp b (e, x) = Done e' \<Longrightarrow> frame e' = frame e" "complete_done_pp (e, x) = Done e' \<Longrightarrow> frame e' = frame e"
  by (auto simp: complete_done_gp_def complete_done_pp_def split: option.splits prod.splits)

text \<open>The working groups the loop still has to look at go on working until it comes to them.\<close>

lemma complete_working_ok:
  assumes "exec_ok ph {} e" and "complete_working fuel m r s gs e = Done e'" and "distinct gs"
    and "\<forall>g \<in> set gs. g \<in> set (glob_groups e) \<and> place e g = EXEC_STATE_WORKING"
  shows "exec_ok ph {} e' \<and> fixed e' = fixed e"
  using assms
proof (induction fuel m r s gs e rule: complete_working.induct)
  case (2 fuel m r s g gs e)
  show ?case
  proof (cases "grp_session (groups e g) = Some s")
    case True
    then obtain r1 e2 where c: "mali_executor_complete_group fuel m r g False e = Done r1"
        "complete_done_pp r1 = Done e2" "complete_working fuel m r s gs e2 = Done e'"
      using "2.prems"(2) by (auto simp: bind_outcome_Done)
    obtain e1 a b where r1: "r1 = (e1, a, b)" by (cases r1)
    have g: "g \<in> set (glob_groups e)" "place e g = EXEC_STATE_WORKING" using "2.prems"(4) by simp_all
    have e1: "exec_ok ph {} e1" "fixed e1 = fixed e" "others_run g e e1"
      using complete_group_ok [OF "2.prems"(1) g c(1) [unfolded r1]] by blast+
    have fr: "frame e2 = frame e1" using complete_done_frame(2) c(2) r1 by blast
    note f2 = frame_simps(1-3) [OF fr]
    have ne: "k \<noteq> g" if "k \<in> set gs" for k using "2.prems"(3) that by auto
    have "exec_ok ph {} e' \<and> fixed e' = fixed e2"
    proof (rule "2.IH"(1) [OF True c(1,2) _ c(3)])
      show "exec_ok ph {} e2" using f2 e1 by simp
      show "distinct gs" using "2.prems"(3) by simp
      show "\<forall>k \<in> set gs. k \<in> set (glob_groups e2) \<and> place e2 k = EXEC_STATE_WORKING"
        using "2.prems"(4) ne e1(2,3) f2 fixed_eq(1) [of e2 e] by (auto simp: others_run_def)
    qed
    then show ?thesis using f2(2) e1(2) by simp
  next
    case False
    then show ?thesis using "2.IH"(2) [OF False "2.prems"(1)] "2.prems"(2-4) by simp
  qed
qed simp

lemma abort_session_ok:
  assumes ok: "exec_ok ph {} e" and a: "mali_executor_abort_session fuel m r s e = Done e'"
  shows "exec_ok ph {} e' \<and> fixed e' = fixed e"
proof -
  obtain g where g: "gp_group e = Some g" "g \<in> set (glob_groups e)" using exec_okD(3) [OF ok] by (auto simp: lists_ok_def)
  have pl: "place e g = gp_group_state e" using g(1) by (simp add: place_def)
  obtain e1 e2 e3 where e1: "(if grp_session (groups e g) = Some s
         then (if EXEC_STATE_WORKING = gp_group_state e
               then bind_outcome (mali_executor_complete_group fuel m r g False e) (complete_done_gp False)
               else Done (mali_group_clear_session g e))
         else Done e) = Done e1"
    and e2: "(case virtual_group e1 of
              Some v \<Rightarrow> if EXEC_STATE_WORKING = virtual_group_state e1 \<and> grp_session (groups e1 v) = Some s
                        then bind_outcome (mali_executor_complete_group fuel m r v False e1) complete_done_pp
                        else Done e1
            | None \<Rightarrow> Done e1) = Done e2"
    and e3: "complete_working fuel m r s (group_list_working e2) e2 = Done e3"
    and e': "e' = fold mali_group_clear_session (group_list_disabled e3)
                            (fold mali_group_clear_session (group_list_inactive e3)
                              (fold mali_group_clear_session (group_list_idle e3) e3))"
    using a unfolding mali_executor_abort_session_def Let_def g(1) option.sel bind_outcome_Done [where y = e'] outcome.inject
    by blast
  have k1: "exec_ok ph {} e1 \<and> fixed e1 = fixed e"
  proof (cases "grp_session (groups e g) = Some s \<and> EXEC_STATE_WORKING = gp_group_state e")
    case True
    then obtain r1 where c: "mali_executor_complete_group fuel m r g False e = Done r1" "complete_done_gp False r1 = Done e1"
      using e1 by (auto simp: bind_outcome_Done)
    obtain e0 x y where r1: "r1 = (e0, x, y)" by (cases r1)
    have "exec_ok ph {} e0 \<and> fixed e0 = fixed e"
      using complete_group_ok [OF ok g(2) _ c(1) [unfolded r1]] pl True by simp
    moreover have fr: "frame e1 = frame e0" using complete_done_frame(1) c(2) r1 by blast
    ultimately show ?thesis using frame_simps(1,2) [OF fr] by simp
  next
    case False
    then have fr: "frame e1 = frame e" using e1 by (auto split: if_splits)
    then show ?thesis using frame_simps(1,2) [OF fr] ok by simp
  qed
  have e21: "e2 = e1" using e2 no_virtual(1) [of ph "{}" e1] k1 by simp
  have l: "lists_ok e1" using exec_okD(3) k1 by blast
  have d: "distinct (group_list_working e1)" using l unfolding lists_ok_def by (metis list_of.simps(4))
  have w: "\<forall>g \<in> set (group_list_working e1). g \<in> set (glob_groups e1) \<and> place e1 g = EXEC_STATE_WORKING"
    using place_iff [OF l, of _ Working] pp_group [OF l] by auto
  have k3: "exec_ok ph {} e3 \<and> fixed e3 = fixed e1" using complete_working_ok [OF _ e3 [unfolded e21] d w] k1 by blast
  have "frame e' = frame e3" unfolding e' by (simp add: frame_fold)
  then show ?thesis using frame_simps(1,2) [of e' e3] k1 k3 by simp
qed

end
