(* ===== verification/Exec_Power.thy ===== *)
theory Exec_Power
  imports Exec_Complete
begin

text \<open>
  The executor and the power manager together: the updates of the power domains and the
  notifications they send keep the invariant, also with other operations in between, and so do
  suspending and resuming.
\<close>

section \<open>The notifications\<close>

lemma exec_ok_change_phase:
  assumes ok: "exec_ok ph S e" and f: "fixed e' = fixed e" and l: "lists_ok e'" "enabled_ok e'"
    and at: "\<And>k. k \<noteq> g \<Longrightarrow> place e' k = place e k \<and> gst e' k = gst e k \<and> gpow e' k = gpow e k \<and> busy e' k = busy e k"
    and pm: "e_pm e' = e_pm e" "refs_exact e'" "calm ph' \<Longrightarrow> calm ph"
    and ph: "rising ph' - {g} = rising ph - {g}" "falling ph' - {g} = falling ph - {g}" "rising ph' \<union> falling ph' \<subseteq> set (glob_groups e)"
    and g: "g \<in> set (glob_groups e) \<Longrightarrow> group_ok S e' g \<and> group_power_ok ph' e' g"
  shows "exec_ok ph' S e'"
proof -
  note x = fixed_eq [OF f] and s = fixed_simps [OF f]
  have "group_ok S e' k \<and> group_power_ok ph' e' k" if k: "k \<in> set (glob_groups e)" for k
  proof (cases "k = g")
    case False
    have "group_ok S e k" "group_power_ok ph e k" using ok k by (auto simp: exec_ok_def)
    moreover have "k \<in> rising ph' \<longleftrightarrow> k \<in> rising ph" "k \<in> falling ph' \<longleftrightarrow> k \<in> falling ph" using ph(1,2) False by blast+
    ultimately show ?thesis
      using at [OF False] running_views [OF f, of k] by (simp add: group_ok_def group_power_ok_def pm(1) s)
  qed (use g k in blast)
  moreover have "registered e'" using registered_same [OF exec_okD(2) [OF ok] f] pm(1) by simp
  ultimately show ?thesis
    using ok l pm ph(3) unfolding exec_ok_def shape_fixed [OF f] x by auto
qed

lemma uses_active:
  assumes "fixed e' = fixed e" and "\<And>k. gst e' k = GROUP_INACTIVE \<longleftrightarrow> gst e k = GROUP_INACTIVE"
  shows "uses e' = uses e"
  by (intro ext) (simp only: uses_def fixed_simps [OF assms(1)] fixed_eq(1) [OF assms(1)] assms(2))

lemma is_inactive:
  assumes "exec_ok ph S e" and "g \<in> set (glob_groups e)"
  shows "mali_executor_group_is_in_state g EXEC_STATE_INACTIVE e \<longleftrightarrow> place e g = EXEC_STATE_INACTIVE"
  using in_state [OF exec_okD(3) [OF assms(1)] _ _ assms(2), of Inactive] exec_okD(9) [OF assms]
  by (simp add: physical_def)

lemma power_views:
  assumes "changes_power g on e e1"
  shows "fixed e1 = fixed e" "place e1 = place e" "lists_ok e1 = lists_ok e" "gst e1 = gst e" "gpow e1 = (gpow e)(g := on)"
    "busy e1 = busy e" "e_pm e1 = e_pm e" "enabled_ok e1 = enabled_ok e"
proof -
  have p: "fixed e1 = fixed e" "lists e1 = lists e" "num_physical_pp_cores_enabled e1 = num_physical_pp_cores_enabled e"
    using assms by (simp_all add: changes_power_def)
  note l = lists_views [OF p(1,2)]
  show "fixed e1 = fixed e" "place e1 = place e" "lists_ok e1 = lists_ok e" by (rule p l)+
  show "gst e1 = gst e" "gpow e1 = (gpow e)(g := on)" "busy e1 = busy e" "e_pm e1 = e_pm e"
    using assms by (simp_all add: changes_power_def)
  show "enabled_ok e1 = enabled_ok e" unfolding enabled_ok_def pp_groups_fixed [OF p(1)] l p(3) ..
qed

text \<open>A group that becomes powered and was waiting for that is active and idle from then on.\<close>

lemma powered_group:
  assumes ok: "exec_ok (Rising (g # gs)) {} e" and e': "fixed e' = fixed e" "lists_ok e'" "enabled_ok e'"
    and v: "place e' = (place e)(g := pl)" "gst e' = (gst e)(g := st)" "gpow e' = (gpow e)(g := True)" "busy e' = busy e" "e_pm e' = e_pm e"
    and st: "if gst e g = GROUP_ACTIVATION_PENDING then st = GROUP_ACTIVE \<and> pl = EXEC_STATE_IDLE else st = gst e g \<and> pl = place e g"
  shows "exec_ok (Rising gs) {} e'"
proof -
  have gs: "g \<in> set (glob_groups e)" "set gs \<subseteq> set (glob_groups e)" using ok by (simp_all add: exec_ok_def)
  have k: "group_ok {} e g" "group_power_ok (Rising (g # gs)) e g" using ok gs(1) by (simp_all add: exec_ok_def)
  have "uses e' = uses e" by (rule uses_active [OF e'(1)]) (use v(2) st in \<open>auto split: if_splits\<close>)
  then have r: "refs_exact e'" using exec_okD(6) [OF ok] by (simp add: refs_exact_def v(5))
  have "group_ok {} e' g"
    using k(1) running_views [OF e'(1), of g] v st by (auto simp: group_ok_def split: if_splits)
  moreover have "group_power_ok (Rising gs) e' g"
    using k(2) v st by (auto simp: group_power_ok_def fixed_simps [OF e'(1)] split: if_splits)
  ultimately show ?thesis
    using gs v by (intro exec_ok_change_phase [OF ok e', where g = g]) (simp_all add: r)
qed

lemma state_ofE:
  assumes "st \<in> range state_of"
  shows "st = EXEC_STATE_DISABLED \<or> st = EXEC_STATE_INACTIVE \<or> st = EXEC_STATE_IDLE \<or> st = EXEC_STATE_WORKING"
proof -
  obtain l where "st = state_of l" using assms by blast
  then show ?thesis by (cases l) simp_all
qed

lemma power_up_loop_ok:
  assumes "exec_ok (Rising gs) {} e" and "power_up_loop gs e c d = (e', c', d')"
  shows "exec_ok Between {} e' \<and> fixed e' = fixed e \<and> runs_on e e' \<and> (c' \<longrightarrow> c) \<and>
    (\<forall>g \<in> set gs. gst e' g \<noteq> GROUP_ACTIVATION_PENDING) \<and>
    (\<forall>k. gst e' k = gst e k \<or> gst e k = GROUP_ACTIVATION_PENDING \<and> gst e' k = GROUP_ACTIVE)"
  using assms
proof (induction gs e c d arbitrary: e' c' d' rule: power_up_loop.induct)
  case (1 e c d)
  have "exec_ok Between {} e" using "1.prems"(1) by (simp add: exec_ok_def group_power_ok_def)
  then show ?case using "1.prems"(2) by simp
next
  case (2 g gs e c d)
  define e1 where "e1 = mali_group_power_up g e"
  note ok = "2.prems"(1)
  have gl: "g \<in> set (glob_groups e)" using ok by (simp add: exec_ok_def)
  have ch: "changes_power g True e e1" unfolding e1_def by (rule power_parts)
  note p = power_views [OF ch]
  have l1: "lists_ok e1" "enabled_ok e1" using p exec_okD(3,4) [OF ok] by simp_all
  have gk: "group_ok {} e g" by (rule exec_okD(7) [OF ok gl])
  have phys: "physical e1 g" using exec_okD(9) [OF ok gl] fixed_simps(3) [OF p(1)] by simp
  then have vi: "\<not> mali_group_is_in_virtual (groups e1 g)" "\<not> mali_group_is_virtual (groups e1 g)"
    by (simp_all add: physical_def mali_group_is_virtual_def mali_group_is_in_virtual_def)
  have in1: "mali_executor_group_is_in_state g EXEC_STATE_INACTIVE e1 \<longleftrightarrow> place e g = EXEC_STATE_INACTIVE"
    using in_state [OF l1(1), of g Inactive] phys gl fixed_eq(1) [OF p(1)] p(2) by (simp add: physical_def)
  have st1: "grp_state (groups e1 g) = gst e g" using p(4) by (simp add: gst_def fun_eq_iff)
  show ?case
  proof (cases "gst e g = GROUP_ACTIVATION_PENDING")
    case False
    have ok1: "exec_ok (Rising gs) {} e1"
      by (rule powered_group [OF ok p(1) l1, where pl = "place e g" and st = "gst e g"]) (use p False in \<open>simp_all add: fun_upd_idem\<close>)
    have c1: "grp_state (groups e1 g) \<noteq> GROUP_ACTIVATION_PENDING \<or> \<not> mali_executor_group_is_in_state g EXEC_STATE_INACTIVE e1"
      using False st1 by simp
    have "power_up_loop gs e1 c d = (e', c', d')" using "2.prems"(2) c1 by (simp add: e1_def [symmetric] Let_def)
    note ih = "2.IH"(1) [OF e1_def c1 ok1 this]
    have k: "gst e' k = gst e k \<or> gst e k = GROUP_ACTIVATION_PENDING \<and> gst e' k = GROUP_ACTIVE" for k
      using ih p(4) by metis
    have "gst e' g \<noteq> GROUP_ACTIVATION_PENDING" using k [of g] False by simp
    moreover have "runs_on e e'" using ih p(2,6) by (simp add: runs_on_def)
    ultimately show ?thesis using ih p(1) k by simp
  next
    case True
    then have pl: "place e g = EXEC_STATE_INACTIVE"
      using gk state_ofE [OF place_in_range [OF exec_okD(3) [OF ok] gl]] by (auto simp: group_ok_def)
    have c1: "\<not> (grp_state (groups e1 g) \<noteq> GROUP_ACTIVATION_PENDING \<or> \<not> mali_executor_group_is_in_state g EXEC_STATE_INACTIVE e1)"
      using True st1 in1 pl by simp
    define e2 where "e2 = fst (mali_group_set_active g e1)"
    have s2: "changes_state g GROUP_ACTIVE (e_pm e1) e1 e2" unfolding e2_def by (rule set_active_parts [OF phys])
    then have q: "fixed e2 = fixed e1" "lists e2 = lists e1" "num_physical_pp_cores_enabled e2 = num_physical_pp_cores_enabled e1"
      "gst e2 = (gst e)(g := GROUP_ACTIVE)" "gpow e2 = (gpow e)(g := True)" "busy e2 = busy e" "e_pm e2 = e_pm e"
      using p by (simp_all add: changes_state_def)
    note l2 = lists_views [OF q(1,2)]
    define e3 where "e3 = (if Some g = gp_group e2 then e2\<lparr>gp_group_state := EXEC_STATE_IDLE\<rparr>
        else mali_executor_change_state_pp_physical g Inactive Idle e2)"
    have m: "moves g EXEC_STATE_IDLE e2 e3"
    proof (cases "gp_group e2 = Some g")
      case True
      then show ?thesis using gp_moves(3) [of e2 g] l2 l1 by (simp add: e3_def)
    next
      case False
      have "g \<in> pp_groups e2" using False pp_group [of e2 g] l2 l1 gl fixed_eq(1) [OF p(1)] fixed_eq(1) [OF q(1)] by simp
      then show ?thesis using False place_moves(3) [of e2 g Inactive] l2 l1 p(2) pl by (auto simp: e3_def)
    qed
    have en: "enabled_ok e3"
    proof (rule enabled_same [where g = g and st = EXEC_STATE_IDLE])
      show "enabled_ok e2" using l1(2) unfolding enabled_ok_def pp_groups_fixed [OF q(1)] l2 q(3) .
      show "num_physical_pp_cores_enabled e3 = num_physical_pp_cores_enabled e2" using m by (simp add: moves_def)
    qed (use movesD [OF m] l2 p(2) pl in simp_all)
    have v3: "fixed e3 = fixed e" "place e3 = (place e)(g := EXEC_STATE_IDLE)" "gst e3 = (gst e)(g := GROUP_ACTIVE)"
      "gpow e3 = (gpow e)(g := True)" "busy e3 = busy e" "e_pm e3 = e_pm e" "lists_ok e3"
      using movesD [OF m] l2 p q by simp_all
    have ok3: "exec_ok (Rising gs) {} e3"
      by (rule powered_group [OF ok v3(1,7) en v3(2-6)]) (use True in simp)
    have loop: "power_up_loop gs e3 c True = (e', c', d')"
      using "2.prems"(2) c1 vi unfolding power_up_loop.simps e1_def [symmetric] Let_def e2_def e3_def by (auto split: if_splits)
    have e3': "e3 = (if Some g = gp_group e2 then e2\<lparr>gp_group_state := EXEC_STATE_IDLE\<rparr>
         else if \<not> mali_group_is_in_virtual (groups e1 g) \<and> \<not> mali_group_is_virtual (groups e1 g)
         then mali_executor_change_state_pp_physical g Inactive Idle e2 else e2)"
      unfolding e3_def using vi by simp
    have e2': "e2 = (if \<not> mali_group_is_in_virtual (groups e1 g) \<and> \<not> mali_group_is_virtual (groups e1 g)
        then fst (mali_group_set_active g e1) else e1)" unfolding e2_def using vi by simp
    have ih: "exec_ok Between {} e' \<and> fixed e' = fixed e3 \<and> runs_on e3 e' \<and> (c' \<longrightarrow> c) \<and>
      (\<forall>g \<in> set gs. gst e' g \<noteq> GROUP_ACTIVATION_PENDING) \<and>
      (\<forall>k. gst e' k = gst e3 k \<or> gst e3 k = GROUP_ACTIVATION_PENDING \<and> gst e' k = GROUP_ACTIVE)"
      using "2.IH"(2) [OF e1_def c1 refl refl e2' e3' ok3] loop vi by simp
    have "runs_on e e3" using v3(2,5) pl by (simp add: runs_on_def)
    then have "runs_on e e'" using runs_on_trans ih by blast
    moreover have "\<forall>k. gst e' k = gst e k \<or> gst e k = GROUP_ACTIVATION_PENDING \<and> gst e' k = GROUP_ACTIVE"
      using ih True v3(3) by (metis fun_upd_apply group_state.distinct(5))
    moreover have "gst e' g \<noteq> GROUP_ACTIVATION_PENDING" using ih v3(3) by (metis fun_upd_same group_state.distinct(5))
    ultimately show ?thesis using ih v3(1) by simp
  qed
qed

lemma group_power_up_ok:
  assumes ok: "exec_ok (Rising gs) {} e" and u: "mali_executor_group_power_up m gs e = Done e'"
  shows "exec_ok Between {} e'" "fixed e' = fixed e" "runs_on e e'"
proof -
  obtain e1 c d where l: "power_up_loop gs e False False = (e1, c, d)" by (metis prod.collapse)
  have k: "exec_ok Between {} e1" "fixed e1 = fixed e" "runs_on e e1" using power_up_loop_ok [OF ok l] by blast+
  have r: "(if d then mali_executor_schedule m e1 else Done e1) = Done e'"
    using u l no_virtual(1) [OF k(1)]
    by (auto simp: mali_executor_group_power_up_def mali_executor_has_virtual_group_def)
  have "exec_ok Between {} e' \<and> fixed e' = fixed e1 \<and> runs_on e1 e'"
    using schedule_ok [OF k(1), of m e'] r k(1) by (cases d) auto
  then show "exec_ok Between {} e'" "fixed e' = fixed e" "runs_on e e'"
    using k(2) runs_on_trans [OF k(3)] by auto
qed

text \<open>A group that loses its power has nothing to do with it.\<close>

lemma unpowered_group:
  assumes ok: "exec_ok (Falling gs) S e" and g: "g \<in> set (glob_groups e)"
    and e': "e' = mali_group_power_down g e" and off: "\<not> powered (e_pm e) (own e g)"
  shows "exec_ok (Falling (filter (\<lambda>k. k \<noteq> g) gs)) S e'" "fixed e' = fixed e" "place e' = place e" "busy e' = busy e"
    "gst e' = gst e" "e_pm e' = e_pm e"
proof -
  have ch: "changes_power g False e e'" unfolding e' by (rule power_parts)
  note v = power_views [OF ch]
  have l: "lists_ok e'" "enabled_ok e'" using v exec_okD(3,4) [OF ok] by simp_all
  have "uses e' = uses e" by (rule uses_active [OF v(1)]) (simp add: v)
  then have r: "refs_exact e'" using exec_okD(6) [OF ok] by (simp add: refs_exact_def v)
  have "group_ok S e' g"
    using exec_okD(7) [OF ok g] group_ok_views [OF v(1), of g S] by (simp add: v)
  moreover have "group_power_ok (Falling (filter (\<lambda>k. k \<noteq> g) gs)) e' g"
    using exec_okD(8) [OF ok g] off by (auto simp: group_power_ok_def fixed_simps [OF v(1)] v)
  moreover have "set gs \<subseteq> set (glob_groups e)" using ok by (simp add: exec_ok_def)
  ultimately show "exec_ok (Falling (filter (\<lambda>k. k \<noteq> g) gs)) S e'"
    by (intro exec_ok_change_phase [OF ok v(1) l, where g = g]) (auto simp: v r)
  show "fixed e' = fixed e" "place e' = place e" "busy e' = busy e" "gst e' = gst e" "e_pm e' = e_pm e" by (rule v)+
qed

lemma same_falling:
  assumes "set gs = set hs" shows "exec_ok (Falling gs) S e = exec_ok (Falling hs) S e"
  by (simp add: exec_ok_def group_power_ok_def assms)

lemma falling_none: "exec_ok (Falling []) S e = exec_ok Steady S e"
  by (simp add: exec_ok_def group_power_ok_def)

lemma group_power_down_ok:
  assumes "exec_ok (Falling gs) S e" and "e' = mali_executor_group_power_down gs e"
  shows "exec_ok Steady S e' \<and> fixed e' = fixed e \<and> runs_on e e'"
  using assms
proof (induction gs arbitrary: e)
  case Nil
  then show ?case by (simp add: mali_executor_group_power_down_def falling_none)
next
  case (Cons g gs)
  have off: "\<not> powered (e_pm e) (own e g)" and g: "g \<in> set (glob_groups e)"
    using Cons.prems(1) by (auto simp: exec_ok_def group_power_ok_def)
  define e1 where "e1 = mali_group_power_down g e"
  note k = unpowered_group [OF Cons.prems(1) g e1_def off]
  have r: "runs_on e e1" by (simp add: runs_on_def k)
  have e': "e' = mali_executor_group_power_down gs e1"
    using Cons.prems(2) by (simp add: mali_executor_group_power_down_def e1_def)
  have "exec_ok (Falling gs) S e1"
  proof (cases "g \<in> set gs")
    case False
    then have "set (filter (\<lambda>k. k \<noteq> g) (g # gs)) = set gs" by auto
    then show ?thesis using k(1) same_falling by blast
  next
    case True
    have a: "exec_ok (Falling (filter (\<lambda>k. k \<noteq> g) gs)) S e1" using k(1) by simp
    have "group_power_ok (Falling gs) e1 h" if "h \<in> set (glob_groups e1)" for h
      using exec_okD(8) [OF a that] off k(6) fixed_simps(1) [OF k(2)] by (auto simp: group_power_ok_def)
    then show ?thesis using a Cons.prems(1) fixed_eq(1) [OF k(2)] by (simp add: exec_ok_def)
  qed
  from Cons.IH [OF this e'] show ?case using k(2) r runs_on_trans [OF r] by auto
qed

text \<open>The assertions of the notification: the groups told are disabled or inactive.\<close>

lemma falling_unused:
  assumes ok: "exec_ok (Falling gs) S e" and "g \<in> set gs"
  shows "place e g \<in> {EXEC_STATE_DISABLED, EXEC_STATE_INACTIVE} \<and> gst e g \<noteq> GROUP_ACTIVE \<and> \<not> fst (busy e g)"
proof -
  have g: "g \<in> set (glob_groups e)" using assms by (auto simp: exec_ok_def)
  have "\<not> powered (e_pm e) (own e g)" using exec_okD(8) [OF ok g] assms(2) by (simp add: group_power_ok_def)
  then have n: "gst e g \<noteq> GROUP_ACTIVE" using exec_okD(8) [OF ok g] by (auto simp: group_power_ok_def)
  obtain l where "place e g = state_of l" using place_in_range [OF exec_okD(3) [OF ok] g] by blast
  then show ?thesis using exec_okD(7) [OF ok g] n by (cases l) (auto simp: group_ok_def)
qed

end
