(* ===== verification/Exec_Updates.thy ===== *)
theory Exec_Updates
  imports Exec_Power
begin

text \<open>
  The halves of an update of the power domains, and the suspension of all of them, as steps of the
  executor and the power manager together: each starts a phase in which the groups of the domains
  it has changed are still to be notified.
\<close>

section \<open>The groups an update tells\<close>

fun event_groups :: "pm_event \<Rightarrow> gid list" where
  "event_groups (GroupsUp gs) = gs"
| "event_groups (GroupsDown gs) = gs"
| "event_groups _ = []"

definition told :: "pm \<Rightarrow> pm \<Rightarrow> gid list" where
  "told p p' = concat (map event_groups (drop (length (pm_log p)) (pm_log p')))"

lemma event_groups_l2 [simp]: "concat (map event_groups (map L2Up ls)) = []" "concat (map event_groups (map L2Down ls)) = []"
  by (induction ls) simp_all

lemma told_log:
  "concat (map event_groups (up_log s)) = concat (map (\<lambda>d. group_list (domain s d)) (bits_of (up_mask s)))"
  "concat (map event_groups (down_log s)) = concat (map (\<lambda>d. group_list (domain s d)) (bits_of (down_mask s)))"
  using event_groups_l2 by (auto simp: up_log_def down_log_def Let_def bits_of_def simp del: map_map)

lemma told_update:
  "told s (update_power_up s) = concat (map (\<lambda>d. group_list (domain s d)) (bits_of (up_mask s)))"
  "told s (update_power_down s) = concat (map (\<lambda>d. group_list (domain s d)) (bits_of (down_mask s)))"
  by (simp_all add: told_def update_power_up_eq update_power_down_eq told_log)

lemma told_groups:
  assumes r: "registered e" and ex: "\<And>d. bit m d \<Longrightarrow> pm_domains (e_pm e) d \<noteq> None"
  shows "g \<in> set (concat (map (\<lambda>d. group_list (domain (e_pm e) d)) (bits_of m))) \<longleftrightarrow>
    g \<in> set (glob_groups e) \<and> bit m (own e g)"
proof -
  have "g \<in> set (concat (map (\<lambda>d. group_list (domain (e_pm e) d)) (bits_of m))) \<longleftrightarrow>
      (\<exists>d. bit m d \<and> g \<in> set (group_list (domain (e_pm e) d)))" by auto
  also have "\<dots> \<longleftrightarrow> (\<exists>d. bit m d \<and> g \<in> set (glob_groups e) \<and> own e g = d)"
    using r ex unfolding registered_def exists_domain_def by blast
  finally show ?thesis by blast
qed

section \<open>Changes of the power of domains\<close>

text \<open>An update changes the power of domains, not their references or members.\<close>

definition same_refs :: "pm \<Rightarrow> pm \<Rightarrow> bool" where
  "same_refs p p' \<longleftrightarrow> same_domains p p' \<and> (\<forall>d. use_count (domain p' d) = use_count (domain p d))"

lemma set_power_domain:
  assumes "\<forall>d. bit m d \<longrightarrow> pm_domains s d \<noteq> None"
  shows "(pm_domains (set_power on m s) d \<noteq> None) = (pm_domains s d \<noteq> None)"
    "group_list (domain (set_power on m s) d) = group_list (domain s d)"
    "use_count (domain (set_power on m s) d) = use_count (domain s d)"
  using assms by (auto simp: set_power_def domain_def simp del: not_None_eq)

lemma same_refs_set_power:
  assumes "\<forall>d. bit m d \<longrightarrow> pm_domains s d \<noteq> None" and "pm_domains s = pm_domains p"
  shows "same_refs p ((set_power on m s)\<lparr>pm_log := l\<rparr>)"
proof -
  have "domain s = domain p" using assms(2) by (simp add: domain_def fun_eq_iff)
  moreover have "exists_domain (x\<lparr>pm_log := l\<rparr>) d = exists_domain x d" for x d by (simp add: exists_domain_def)
  ultimately show ?thesis
    using set_power_domain [OF assms(1), of on] assms(2)
    by (simp add: same_refs_def same_domains_def exists_domain_def del: not_None_eq)
qed

lemma same_refs_updates:
  assumes "pm_ok p"
  shows "same_refs p (update_power_up p)" "same_refs p (update_power_down p)"
    "mali_pm_common_suspend p = (p', True) \<Longrightarrow> same_refs p p'"
proof -
  note ex = exists_bits [OF assms]
  show "same_refs p (update_power_up p)" "same_refs p (update_power_down p)"
    unfolding update_power_up_eq update_power_down_eq by (rule same_refs_set_power; use ex in simp)+
  show "same_refs p p'" if c: "mali_pm_common_suspend p = (p', True)"
  proof (cases "pd_mask_current p = 0")
    case True
    then show ?thesis using c by (auto simp: common_suspend_eq same_refs_def split: if_splits)
  next
    case False
    let ?s = "p\<lparr>pd_mask_current := 0, pmu_mask_current := 0\<rparr>"
    obtain l where "p' = (set_power False (pd_mask_current p) ?s)\<lparr>pm_log := l\<rparr>"
      using c False by (auto simp: common_suspend_eq Let_def split: if_splits)
    then show ?thesis using ex(2) by (auto intro!: same_refs_set_power)
  qed
qed

lemma exec_ok_pm:
  assumes ok: "exec_ok ph S e" and pm: "pm_ok p" "same_refs (e_pm e) p" "calm ph' \<Longrightarrow> settled p"
    and sub: "rising ph' \<union> falling ph' \<subseteq> set (glob_groups e)"
    and at: "\<And>k. k \<in> set (glob_groups e) \<Longrightarrow> group_power_ok ph' (e\<lparr>e_pm := p\<rparr>) k"
  shows "exec_ok ph' S (e\<lparr>e_pm := p\<rparr>)"
proof -
  let ?e = "e\<lparr>e_pm := p\<rparr>"
  have f: "fixed ?e = fixed e" and l: "lists ?e = lists e" by simp_all
  note lv = lists_views [OF f l]
  have "registered ?e"
    using registered_same [OF exec_okD(2) [OF ok] f] pm(2) by (simp add: same_refs_def)
  moreover have "enabled_ok ?e"
    using exec_okD(4) [OF ok] unfolding enabled_ok_def pp_groups_fixed [OF f] lv by simp
  moreover have "refs_exact ?e"
    using exec_okD(6) [OF ok] pm(2) uses_views [OF f]
    by (simp add: refs_exact_def same_refs_def same_domains_def)
  moreover have "group_ok S ?e k" if "k \<in> set (glob_groups e)" for k
    using exec_okD(7) [OF ok that] group_ok_views [OF f, of k S] by (simp add: lv)
  ultimately show ?thesis
    using ok pm sub at unfolding exec_ok_def shape_fixed [OF f] lv by simp
qed

section \<open>Used domains\<close>

lemma uses_pos:
  "0 < uses e d \<longleftrightarrow> (\<exists>g \<in> set (glob_groups e). gst e g \<noteq> GROUP_INACTIVE \<and> d \<in> {own e g, l2_domain e g})"
proof -
  have "uses e d = 0 \<longleftrightarrow> (\<forall>g \<in> set (glob_groups e). gst e g = GROUP_INACTIVE \<or> d \<notin> {own e g, l2_domain e g})"
    unfolding uses_def by (subst sum_eq_0_iff) auto
  then show ?thesis by (metis gr0I not_gr0)
qed

lemma used_uses:
  assumes ok: "exec_ok ph S e" and d: "exists_domain (e_pm e) d"
  shows "used (e_pm e) d \<longleftrightarrow> 0 < uses e d"
proof -
  have "unat (use_count (domain (e_pm e) d)) = uses e d" using exec_okD(6) [OF ok] d by (simp add: refs_exact_def)
  then show ?thesis using d unat_eq_0 [of "use_count (domain (e_pm e) d)"] by (auto simp: used_def exists_domain_def)
qed

lemma exists_domains:
  assumes "exec_ok ph S e" and "g \<in> set (glob_groups e)"
  shows "exists_domain (e_pm e) (own e g)" "exists_domain (e_pm e) (l2_domain e g)"
  using exec_okD(2) [OF assms(1)] assms(2) by (simp_all add: registered_def)

lemma used_l2:
  assumes ok: "exec_ok ph S e" and g: "g \<in> set (glob_groups e)" and u: "used (e_pm e) (own e g)"
  shows "used (e_pm e) (l2_domain e g)"
proof -
  obtain h where h: "h \<in> set (glob_groups e)" "gst e h \<noteq> GROUP_INACTIVE" "own e g \<in> {own e h, l2_domain e h}"
    using u used_uses [OF ok exists_domains(1) [OF ok g]] uses_pos by blast
  have "coherent e" using exec_okD(1) [OF ok] by (simp add: shape_ok_def)
  then have "l2_domain e g \<in> {own e h, l2_domain e h}" using g h unfolding coherent_def by blast
  then have "0 < uses e (l2_domain e g)" unfolding uses_pos using h(1,2) by blast
  then show ?thesis using used_uses [OF ok exists_domains(2) [OF ok g]] by simp
qed

lemma dummy_l2:
  assumes "exec_ok ph S e" and "g \<in> set (glob_groups e)" and "own e g = DOMAIN_DUMMY"
  shows "l2_domain e g = DOMAIN_DUMMY"
  using exec_okD(1) [OF assms(1)] assms(2,3) by (simp add: shape_ok_def coherent_def)

lemma active_used:
  assumes ok: "exec_ok ph S e" and g: "g \<in> set (glob_groups e)" and "gst e g \<noteq> GROUP_INACTIVE"
  shows "used (e_pm e) (own e g)" "used (e_pm e) (l2_domain e g)"
  using used_uses [OF ok] exists_domains [OF ok g] uses_pos [of e] g assms(3) by blast+

lemma wanted_used:
  assumes "exec_ok ph S e" shows "bit (pd_mask_wanted (e_pm e)) d \<longleftrightarrow> used (e_pm e) d"
  using exec_okD(5) [OF assms] by (simp add: pm_ok_def refs_ok_def)

lemma current_powered:
  assumes "exec_ok ph S e" shows "bit (pd_mask_current (e_pm e)) d \<longleftrightarrow> powered (e_pm e) d"
  using exec_okD(5) [OF assms] by (simp add: pm_ok_def power_ok_def)

section \<open>Powering up\<close>

lemma up_mask_bits:
  assumes "exec_ok ph S e"
  shows "bit (up_mask (e_pm e)) d \<longleftrightarrow> (\<exists>k. used (e_pm e) k \<and> \<not> powered (e_pm e) k) \<and>
    (used (e_pm e) d \<and> \<not> powered (e_pm e) d \<or> d = DOMAIN_DUMMY)"
proof -
  let ?m = "pd_mask_wanted (e_pm e) AND NOT (pd_mask_current (e_pm e))"
  have b: "bit ?m k \<longleftrightarrow> used (e_pm e) k \<and> \<not> powered (e_pm e) k" for k
    using wanted_used [OF assms, of k] current_powered [OF assms, of k] bit_imp_le_length [of "pd_mask_wanted (e_pm e)" k]
    by (auto simp: bit_simps)
  have "?m = 0 \<longleftrightarrow> (\<forall>k. \<not> bit ?m k)"
  proof
    assume "\<forall>k. \<not> bit ?m k"
    then show "?m = 0" by (intro bit_word_eqI) (simp del: bit_and_iff)
  qed simp
  then show ?thesis by (auto simp: up_mask_def Let_def bit_or_iff b)
qed

lemma update_up_step:
  assumes ok: "exec_ok Between S e"
  shows "exec_ok (Rising (told (e_pm e) (update_power_up (e_pm e)))) S (e\<lparr>e_pm := update_power_up (e_pm e)\<rparr>)"
    (is "exec_ok (Rising ?gs) S ?e")
proof -
  let ?p = "e_pm e"
  have pok: "pm_ok ?p" by (rule exec_okD(5) [OF ok])
  note up = update_power_up_ok [OF pok]
  have gs: "g \<in> set ?gs \<longleftrightarrow> g \<in> set (glob_groups e) \<and> bit (up_mask ?p) (own e g)" for g
    unfolding told_update by (rule told_groups [OF exec_okD(2) [OF ok] exists_bits(3) [OF pok]])
  have f: "fixed ?e = fixed e" "gst ?e = gst e" "gpow ?e = gpow e" by simp_all
  have "group_power_ok (Rising ?gs) ?e k" if k: "k \<in> set (glob_groups e)" for k
  proof -
    have o: "group_power_ok Between e k" by (rule exec_okD(8) [OF ok k])
    have l2: "powered (update_power_up ?p) (l2_domain e k)" if b: "bit (up_mask ?p) (own e k)"
    proof (cases "own e k = DOMAIN_DUMMY")
      case True
      then show ?thesis using dummy_l2 [OF ok k] b by (simp add: up(3))
    next
      case False
      then have u: "used ?p (own e k)" "\<not> powered ?p (own e k)" using b up_mask_bits [OF ok] by auto
      then show ?thesis using used_l2 [OF ok k u(1)] up_mask_bits [OF ok] by (auto simp: up(3))
    qed
    show ?thesis
      using o l2 gs [of k] k by (auto simp: group_power_ok_def fixed_simps [OF f(1)] up(3))
  qed
  then show ?thesis
    using same_refs_updates(1) [OF pok] up(1) gs by (intro exec_ok_pm [OF ok]) auto
qed

section \<open>Powering down\<close>

lemma update_down_step:
  assumes ok: "exec_ok Between S e"
  shows "exec_ok (Falling (told (e_pm e) (update_power_down (e_pm e)))) S (e\<lparr>e_pm := update_power_down (e_pm e)\<rparr>)"
    (is "exec_ok (Falling ?gs) S ?e")
proof -
  let ?p = "e_pm e"
  have pok: "pm_ok ?p" by (rule exec_okD(5) [OF ok])
  note down = update_power_down_ok [OF pok]
  have b: "bit (down_mask ?p) d \<longleftrightarrow> powered ?p d \<and> \<not> used ?p d \<and> d \<noteq> DOMAIN_DUMMY" for d
    using wanted_used [OF ok, of d] current_powered [OF ok, of d] bit_imp_le_length [of "pd_mask_current ?p" d]
    by (auto simp: down_mask_def bit_simps)
  have gs: "g \<in> set ?gs \<longleftrightarrow> g \<in> set (glob_groups e) \<and> bit (down_mask ?p) (own e g)" for g
    unfolding told_update by (rule told_groups [OF exec_okD(2) [OF ok] exists_bits(4) [OF pok]])
  have f: "fixed ?e = fixed e" "gst ?e = gst e" "gpow ?e = gpow e" by simp_all
  have "group_power_ok (Falling ?gs) ?e k" if k: "k \<in> set (glob_groups e)" for k
    using exec_okD(8) [OF ok k] active_used [OF ok k] used_l2 [OF ok k] dummy_l2 [OF ok k] gs [of k] k
    by (auto simp: group_power_ok_def fixed_simps [OF f(1)] down(3) b)
  then show ?thesis
    using same_refs_updates(2) [OF pok] down(1,4) gs by (intro exec_ok_pm [OF ok]) auto
qed

text \<open>Suspending all domains succeeds only when none is used, that is when every group is inactive.\<close>

lemma suspend_step:
  assumes ok: "exec_ok Steady S e" and s: "mali_pm_common_suspend (e_pm e) = (p', True)"
  shows "exec_ok (Falling (told (e_pm e) p')) S (e\<lparr>e_pm := p'\<rparr>)" "\<forall>g \<in> set (glob_groups e). gst e g = GROUP_INACTIVE"
    "\<And>d. \<not> powered p' d"
proof -
  let ?p = "e_pm e" and ?m = "pd_mask_current (e_pm e)"
  have pok: "pm_ok ?p" and st: "settled ?p" using ok by (simp_all add: exec_ok_def)
  note su = common_suspend_ok [OF pok s st]
  have w: "pd_mask_wanted ?p = 0" using s by (auto simp: common_suspend_eq split: if_splits)
  show all: "\<forall>g \<in> set (glob_groups e). gst e g = GROUP_INACTIVE"
    using active_used(1) [OF ok] wanted_used [OF ok] w by fastforce
  have off: "\<not> powered p' d" for d using su(1,3) by (simp add: pm_ok_def power_ok_def)
  then show "\<not> powered p' d" for d .
  have "told ?p p' = concat (map (\<lambda>d. group_list (domain ?p d)) (bits_of ?m))"
    using s w event_groups_l2(2) by (auto simp: told_def common_suspend_eq Let_def bits_of_def simp del: map_map split: if_splits)
  then have gs: "g \<in> set (told ?p p') \<longleftrightarrow> g \<in> set (glob_groups e) \<and> powered ?p (own e g)" for g
    using told_groups [of e ?m g] exec_okD(2) [OF ok] exists_bits(2) [OF pok] current_powered [OF ok, of "own e g"] by auto
  have f: "fixed (e\<lparr>e_pm := p'\<rparr>) = fixed e" "gst (e\<lparr>e_pm := p'\<rparr>) = gst e" "gpow (e\<lparr>e_pm := p'\<rparr>) = gpow e" by simp_all
  have "group_power_ok (Falling (told ?p p')) (e\<lparr>e_pm := p'\<rparr>) k" if k: "k \<in> set (glob_groups e)" for k
    using exec_okD(8) [OF ok k] all off k gs [of k] by (auto simp: group_power_ok_def fixed_simps [OF f(1)])
  moreover have "settled p'" using su(3,4) by (simp add: settled_def)
  ultimately show "exec_ok (Falling (told ?p p')) S (e\<lparr>e_pm := p'\<rparr>)"
    using same_refs_updates(3) [OF pok s] su(1) gs by (intro exec_ok_pm [OF ok]) auto
qed

text \<open>Conversely.\<close>

lemma suspend_possible:
  assumes ok: "exec_ok Steady S e" and all: "\<forall>g \<in> set (glob_groups e). gst e g = GROUP_INACTIVE"
  shows "\<exists>p'. mali_pm_common_suspend (e_pm e) = (p', True)"
proof -
  have "\<not> used (e_pm e) d" for d
  proof (cases "exists_domain (e_pm e) d")
    case True
    have "uses e d = 0" using uses_pos [of e d] all by auto
    then show ?thesis using used_uses [OF ok True] by simp
  qed (simp add: used_def exists_domain_def)
  then have "\<not> bit (pd_mask_wanted (e_pm e)) d" for d using wanted_used [OF ok] by simp
  then have "pd_mask_wanted (e_pm e) = 0" by (intro bit_word_eqI) simp
  then show ?thesis by (simp add: common_suspend_eq Let_def)
qed

section \<open>Resuming\<close>

lemma steady_between: "exec_ok Steady S e \<Longrightarrow> exec_ok Between S e"
  by (simp add: exec_ok_def group_power_ok_def)

text \<open>After the reset of the PMU, before the update.\<close>

lemma resume_step:
  assumes ok: "exec_ok Steady S e" and off: "pd_mask_current (e_pm e) = 0"
    and pmu: "\<forall>m d. pmu = Some m \<longrightarrow> bit m d \<longrightarrow> d < DOMAIN_DUMMY"
    and p: "p = pmu_resume pmu ((e_pm e)\<lparr>runtime_active := b\<rparr>)"
  shows "exec_ok Between S (e\<lparr>e_pm := p\<rparr>)"
proof -
  have d: "pm_domains p = pm_domains (e_pm e)" "pd_mask_current p = 0" "pd_mask_wanted p = pd_mask_wanted (e_pm e)"
    "dev_refs p = dev_refs (e_pm e)" "\<And>d. bit (pmu_mask_current p) d \<Longrightarrow> d < DOMAIN_DUMMY"
    using pmu off exec_okD(5) [OF ok]
    by (auto simp: p pmu_resume_def pm_event_def pm_ok_def power_ok_def split: option.splits)
  have v: "domain p = domain (e_pm e)" "used p = used (e_pm e)" "powered p = powered (e_pm e)"
    using d(1) by (simp_all add: fun_eq_iff domain_def used_def powered_def)
  have "\<not> powered (e_pm e) d" for d using current_powered [OF ok, of d] off by simp
  then have "pm_ok p"
    using exec_okD(5) [OF ok] d v by (simp add: pm_ok_def domains_ok_def refs_ok_def power_ok_def del: not_None_eq)
  moreover have "same_refs (e_pm e) p"
    using d(1) v(1) by (simp add: same_refs_def same_domains_def exists_domain_def)
  moreover have "group_power_ok Between (e\<lparr>e_pm := p\<rparr>) k" if "k \<in> set (glob_groups e)" for k
    using exec_okD(8) [OF steady_between [OF ok] that] group_power_views [of "e\<lparr>e_pm := p\<rparr>" e k Between] v(3) by simp
  ultimately show ?thesis by (intro exec_ok_pm [OF ok]) simp_all
qed

end
