(* ===== verification/Exec_Suspend.thy ===== *)
theory Exec_Suspend
  imports Exec_Updates
begin

text \<open>
  Suspending the executor: once no group works, what is idle or waits for power is deactivated, so
  that no power domain is used any more and the power manager can power everything down.
\<close>

section \<open>Waiting for the groups\<close>

lemma not_working:
  assumes ok: "exec_ok ph S e" and w: "\<not> mali_executor_is_working e" and g: "g \<in> set (glob_groups e)"
  shows "place e g \<noteq> EXEC_STATE_WORKING"
proof (cases "gp_group e = Some g")
  case True
  then show ?thesis using w by (auto simp: mali_executor_is_working_def place_def)
next
  case False
  have l: "lists_ok e" by (rule exec_okD(3) [OF ok])
  have "unat (count_of Working e) = length (list_of Working e)" using l unfolding lists_ok_def by blast
  then have "list_of Working e = []" using w by (simp add: mali_executor_is_working_def)
  then have "g \<notin> set (list_of Working e)" by simp
  then show ?thesis using place_iff [OF l, of g Working] pp_group [OF l, of g] False g by simp
qed

section \<open>Groups that wait for power\<close>

lemma deactivate_pending:
  assumes ok: "exec_ok ph S e" and g: "g \<in> set (glob_groups e)" "place e g = EXEC_STATE_INACTIVE"
    and i: "gst e g \<noteq> GROUP_INACTIVE" and d: "e' = fst (mali_group_deactivate g e)"
  shows "exec_ok ph S e'" "fixed e' = fixed e" "place e' = place e" "gst e' = (gst e)(g := GROUP_INACTIVE)" "busy e' = busy e"
proof -
  have pl: "place e g \<in> {EXEC_STATE_IDLE, EXEC_STATE_INACTIVE}" "place e = (place e)(g := EXEC_STATE_INACTIVE)"
    using g(2) by (simp_all add: fun_upd_idem)
  note m = move_deactivate [OF ok g(1) pl(1) i exec_ok_open [OF ok] refl pl(2) refl refl disjI1 [OF refl] d]
  show "exec_ok ph S e'" "fixed e' = fixed e" "place e' = place e" "busy e' = busy e"
    using m pl(2) by simp_all
  show "gst e' = (gst e)(g := GROUP_INACTIVE)" by (rule deactivate_ok(3) [OF exec_ok_open [OF ok] g(1) i d])
qed

lemma suspend_inactive_ok:
  assumes "exec_ok ph S e" and "\<forall>g \<in> set gs. g \<in> set (glob_groups e) \<and> place e g = EXEC_STATE_INACTIVE"
  shows "exec_ok ph S (suspend_inactive gs e) \<and> fixed (suspend_inactive gs e) = fixed e \<and>
    place (suspend_inactive gs e) = place e \<and> busy (suspend_inactive gs e) = busy e \<and>
    (\<forall>k. gst (suspend_inactive gs e) k = (if k \<in> set gs then GROUP_INACTIVE else gst e k))"
  using assms
proof (induction gs arbitrary: e)
  case (Cons g gs)
  define e1 where "e1 = (if grp_state (groups e g) = GROUP_ACTIVATION_PENDING then fst (mali_group_deactivate g e) else e)"
  have g: "g \<in> set (glob_groups e)" "place e g = EXEC_STATE_INACTIVE" using Cons.prems(2) by simp_all
  have n: "gst e g \<noteq> GROUP_ACTIVE" using exec_okD(7) [OF Cons.prems(1) g(1)] g(2) by (simp add: group_ok_def)
  have e1: "exec_ok ph S e1 \<and> fixed e1 = fixed e \<and> place e1 = place e \<and> gst e1 = (gst e)(g := GROUP_INACTIVE) \<and> busy e1 = busy e"
  proof (cases "gst e g = GROUP_ACTIVATION_PENDING")
    case True
    then have "e1 = fst (mali_group_deactivate g e)" by (simp add: e1_def gst_def)
    from deactivate_pending [OF Cons.prems(1) g _ this] True show ?thesis by simp
  next
    case False
    then have "e1 = e" "gst e g = GROUP_INACTIVE" using n by (cases "gst e g"; simp add: e1_def gst_def)+
    then show ?thesis using Cons.prems(1) by (simp add: fun_upd_idem)
  qed
  have s: "suspend_inactive (g # gs) e = suspend_inactive gs e1"
    using no_virtual(1) [of ph S e1] e1 by (simp add: e1_def [symmetric] Let_def)
  have f1: "fixed e1 = fixed e" using e1 by blast
  have "\<forall>k \<in> set gs. k \<in> set (glob_groups e1) \<and> place e1 k = EXEC_STATE_INACTIVE"
    using Cons.prems(2) e1 fixed_eq(1) [OF f1] by simp
  from Cons.IH [OF _ this] e1 show ?case unfolding s by auto
qed simp

section \<open>Suspending\<close>

lemma deactivate_gp_ok:
  assumes ok: "exec_ok ph S e" and w: "place e (the (gp_group e)) \<noteq> EXEC_STATE_WORKING"
    and e': "e' = (let gp = the (gp_group e) in if grp_state (groups e gp) \<noteq> GROUP_INACTIVE
        then fst (mali_group_deactivate gp (e\<lparr>gp_group_state := EXEC_STATE_INACTIVE\<rparr>)) else e)"
  shows "exec_ok ph S e' \<and> fixed e' = fixed e \<and> busy e' = busy e \<and> gst e' (the (gp_group e)) = GROUP_INACTIVE \<and>
    (\<forall>k. k \<noteq> the (gp_group e) \<longrightarrow> place e' k = place e k \<and> gst e' k = gst e k) \<and>
    place e' (the (gp_group e)) \<noteq> EXEC_STATE_WORKING"
proof -
  have l: "lists_ok e" by (rule exec_okD(3) [OF ok])
  then obtain g where g: "gp_group e = Some g" "g \<in> set (glob_groups e)" by (auto simp: lists_ok_def)
  show ?thesis
  proof (cases "gst e g = GROUP_INACTIVE")
    case True
    then show ?thesis using e' g(1) ok w by (simp add: gst_def)
  next
    case False
    have gk: "group_ok S e g" by (rule exec_okD(7) [OF ok g(2)])
    obtain a where "place e g = state_of a" using place_in_range [OF l g(2)] by blast
    then have pl: "place e g \<in> {EXEC_STATE_IDLE, EXEC_STATE_INACTIVE}"
      using gk False w g(1) by (cases a) (auto simp: group_ok_def)
    let ?e1 = "e\<lparr>gp_group_state := EXEC_STATE_INACTIVE\<rparr>"
    have m: "moves g EXEC_STATE_INACTIVE e ?e1" by (rule gp_moves(2) [OF l g(1)])
    have "g \<notin> pp_groups e" using g(1) by (simp add: pp_groups_def)
    then have b: "exec_ok_but g ph S ?e1" by (intro but_moves [OF exec_ok_open [OF ok] m]) simp
    have d: "e' = fst (mali_group_deactivate g ?e1)" using e' g(1) False by (simp add: gst_def)
    note mv = movesD [OF m]
    note k = move_deactivate [OF ok g(2) pl False b mv(1,3,4,5) disjI1 [OF refl] d]
    have g1: "g \<in> set (glob_groups ?e1)" "gst ?e1 g \<noteq> GROUP_INACTIVE" using g(2) mv(4) False by simp_all
    have "gst e' = (gst e)(g := GROUP_INACTIVE)" using deactivate_ok(3) [OF b g1 d] mv(4) by simp
    then show ?thesis using k g(1) by simp
  qed
qed

lemma suspend_finish_ok:
  assumes ok: "exec_ok ph {} e" and w: "\<not> mali_executor_is_working e"
  shows "exec_ok ph {} (suspend_finish e)" "fixed (suspend_finish e) = fixed e"
    "\<And>g. g \<in> set (glob_groups e) \<Longrightarrow> gst (suspend_finish e) g = GROUP_INACTIVE"
    "\<And>g. g \<in> set (glob_groups e) \<Longrightarrow> place (suspend_finish e) g \<noteq> EXEC_STATE_WORKING"
proof -
  obtain e1 t where d: "mali_executor_deactivate_list_idle True e = (e1, t)" by fastforce
  note e1 = deactivate_list_idle_ok [OF ok no_virtual(1) [OF ok] d, simplified]
  have nw: "place e g \<noteq> EXEC_STATE_WORKING" if "g \<in> set (glob_groups e)" for g by (rule not_working [OF ok w that])
  obtain gp where gp: "gp_group e = Some gp" "gp \<in> set (glob_groups e)"
    using exec_okD(3) [OF ok] by (auto simp: lists_ok_def)
  have gp1: "gp_group e1 = Some gp" using gp(1) fixed_eq(2) [OF e1(2)] by simp
  define e2 where "e2 = (let gp = the (gp_group e1) in if grp_state (groups e1 gp) \<noteq> GROUP_INACTIVE
        then fst (mali_group_deactivate gp (e1\<lparr>gp_group_state := EXEC_STATE_INACTIVE\<rparr>)) else e1)"
  have "place e1 (the (gp_group e1)) \<noteq> EXEC_STATE_WORKING" using nw [OF gp(2)] gp1 e1(3) by simp
  from deactivate_gp_ok [OF e1(1) this e2_def]
  have e2: "exec_ok ph {} e2" "fixed e2 = fixed e" "gst e2 gp = GROUP_INACTIVE" "place e2 gp \<noteq> EXEC_STATE_WORKING"
    "\<And>k. k \<noteq> gp \<Longrightarrow> place e2 k = place e1 k"
    using gp1 e1(2) by simp_all
  have l2: "lists_ok e2" by (rule exec_okD(3) [OF e2(1)])
  have pp2: "pp_groups e2 = pp_groups e" by (rule pp_groups_fixed [OF e2(2)])
  define e3 where "e3 = (if 0 < group_list_inactive_count e2 then suspend_inactive (group_list_inactive e2) e2 else e2)"
  have fin: "suspend_finish e = e3"
    unfolding suspend_finish_def d fst_conv Let_def e2_def [unfolded Let_def, symmetric] no_virtual(1) [OF e2(1)] option.case
      e3_def ..
  have ina: "k \<in> set (group_list_inactive e2) \<longleftrightarrow> k \<in> pp_groups e \<and> place e2 k = EXEC_STATE_INACTIVE" for k
    using place_iff [OF l2, of k Inactive] pp2 by simp
  have gl2: "glob_groups e2 = glob_groups e" by (rule fixed_eq(1) [OF e2(2)])
  have sub: "pp_groups e \<subseteq> set (glob_groups e)" by (auto simp: pp_groups_def)
  have in2: "\<forall>g \<in> set (group_list_inactive e2). g \<in> set (glob_groups e2) \<and> place e2 g = EXEC_STATE_INACTIVE"
    using ina sub gl2 by auto
  note si = suspend_inactive_ok [OF e2(1) in2]
  have cnt: "unat (count_of Inactive e2) = length (list_of Inactive e2)" using l2 unfolding lists_ok_def by blast
  have e3: "exec_ok ph {} e3 \<and> fixed e3 = fixed e2 \<and> place e3 = place e2 \<and>
    (\<forall>k. gst e3 k = (if k \<in> set (group_list_inactive e2) then GROUP_INACTIVE else gst e2 k))"
  proof (cases "0 < group_list_inactive_count e2")
    case True
    then show ?thesis using si by (simp add: e3_def)
  next
    case False
    then have "group_list_inactive e2 = []" using cnt by (simp add: word_greater_zero_iff)
    then show ?thesis using False e2(1) by (simp add: e3_def)
  qed
  show "exec_ok ph {} (suspend_finish e)" "fixed (suspend_finish e) = fixed e" unfolding fin using e3 e2(2) by auto
  have pp: "place e2 g \<in> {EXEC_STATE_INACTIVE, EXEC_STATE_DISABLED}" if g: "g \<in> pp_groups e" for g
  proof -
    have "g \<noteq> gp" "g \<in> set (glob_groups e)" using g gp(1) by (auto simp: pp_groups_def)
    then have p: "place e2 g = (if place e g = EXEC_STATE_IDLE then EXEC_STATE_INACTIVE else place e g)"
      using e2(5) e1(3) g by simp
    obtain a where "place e g = state_of a" using place_in_range [OF exec_okD(3) [OF ok] \<open>g \<in> set (glob_groups e)\<close>] by blast
    then show ?thesis using p nw [OF \<open>g \<in> set (glob_groups e)\<close>] by (cases a) simp_all
  qed
  show "gst (suspend_finish e) g = GROUP_INACTIVE" if g: "g \<in> set (glob_groups e)" for g
  proof (cases "g = gp")
    case True
    then show ?thesis unfolding fin using e3 e2(3) by simp
  next
    case False
    then have gpp: "g \<in> pp_groups e" using g gp(1) by (simp add: pp_groups_def)
    show ?thesis
    proof (cases "place e2 g = EXEC_STATE_INACTIVE")
      case True
      then show ?thesis unfolding fin using e3 ina gpp by simp
    next
      case dis: False
      then have "place e2 g = EXEC_STATE_DISABLED" using pp [OF gpp] by simp
      then have "gst e2 g = GROUP_INACTIVE" using exec_okD(7) [OF e2(1), of g] g gl2 by (simp add: group_ok_def)
      then show ?thesis unfolding fin using e3 by simp
    qed
  qed
  show "place (suspend_finish e) g \<noteq> EXEC_STATE_WORKING" if g: "g \<in> set (glob_groups e)" for g
    unfolding fin using e3 e2(4) pp [of g] g gp(1) by (cases "g = gp") (auto simp: pp_groups_def)
qed

text \<open>What nothing works on can be powered down at once.\<close>

lemma suspended_powers_down:
  assumes ok: "exec_ok Steady {} e" and w: "\<not> mali_executor_is_working e"
  shows "\<exists>p'. mali_pm_common_suspend (e_pm (suspend_finish e)) = (p', True)"
proof -
  note s = suspend_finish_ok [OF ok w]
  show ?thesis by (rule suspend_possible [OF s(1)]) (use s(3) fixed_eq(1) [OF s(2)] in simp)
qed

lemma resume_executor_ok:
  assumes ok: "exec_ok ph {} e" and r: "mali_executor_resume m e = Done e'"
  shows "exec_ok ph {} e' \<and> fixed e' = fixed e \<and> runs_on e e'"
proof -
  let ?e1 = "e\<lparr>pause_count := pause_count e - 1\<rparr>"
  have f: "frame ?e1 = frame e" by simp
  have ok1: "exec_ok ph {} ?e1" using exec_ok_frame [OF f] ok by simp
  have r1: "runs_on e ?e1" by (rule runs_on_frame [OF f])
  have fx: "fixed ?e1 = fixed e" by (rule frame_parts(1) [OF f])
  show ?thesis
  proof (cases "0 = pause_count ?e1")
    case True
    then have "mali_executor_schedule m ?e1 = Done e'" using r by (simp add: mali_executor_resume_def)
    note s = schedule_ok [OF ok1 this]
    show ?thesis using s fx runs_on_trans [OF r1 s(3)] by simp
  next
    case False
    then have "e' = ?e1" using r by (simp add: mali_executor_resume_def)
    then show ?thesis using ok1 r1 fx by blast
  qed
qed

end
