(* ===== verification/Probe.thy ===== *)
theory Probe
  imports Executor
begin

text \<open>
  How the groups come into being (common/mali_kernel_core.c, and the create and delete functions of
  mali_group.c, mali_mmu.c, mali_gp.c, mali_pp.c, mali_l2_cache.c, mali_dlbu.c and
  mali_broadcast.c): the resources of the platform become cores, cores become groups, groups go to
  the executor. The objects that are allocated are named and the set of those not freed yet is part
  of the state, so that freeing an object twice, or following a pointer to a freed one, is \<open>Oops\<close>.
\<close>

section \<open>Platforms and objects\<close>

datatype product = Mali400 | Mali450 | Mali470 | OtherProduct

datatype resource =
    RES_GP | RES_GP_MMU | RES_PP nat | RES_PP_MMU nat | RES_L2 nat
  | RES_BCAST | RES_DLBU | RES_PP_BCAST | RES_PP_BCAST_MMU

text \<open>A core is named by the group it is created for.\<close>

datatype obj =
    GroupObj gid | GroupTimer gid | MmuCore gid | GpCore gid | PpCore gid
  | MmuWork gid | GpWork gid | PpWork gid | DlbuCore gid | BcastUnit gid | L2Core l2id

text \<open>What can fail: an allocation, mapping the registers, the reset of a core, setting up its interrupt.\<close>

datatype setup_step = Alloc obj | Map_Regs obj | Reset_Core obj | Setup_Irq obj | Init_Lock obj

record platform =
  product_id :: product
  resource_found :: "resource \<Rightarrow> bool"
  can :: "setup_step \<Rightarrow> bool"
  device_max_job_runtime :: "int option"

record probe =
  p_exec :: exec
  live :: "obj set"
  mmu_ptr :: "gid \<Rightarrow> bool"
  mmu_work_ptr :: "gid \<Rightarrow> bool"
  gp_work_ptr :: "gid \<Rightarrow> bool"
  pp_work_ptr :: "gid \<Rightarrow> bool"
  mali_global_gp_core :: "gid option"
  mali_global_pp_cores :: "gid list"
  mali_global_l2s :: "l2id list"
  next_gid :: gid
  mali_inited_pp_cores_group_1 :: int
  mali_inited_pp_cores_group_2 :: int
  mali_max_pp_cores_group_1 :: int
  mali_max_pp_cores_group_2 :: int
  mali_max_job_runtime :: int

definition alloc :: "obj \<Rightarrow> probe \<Rightarrow> probe" where
  "alloc x s = s\<lparr>live := insert x (live s)\<rparr>"

definition free :: "obj \<Rightarrow> probe \<Rightarrow> probe outcome" where
  "free x s = (if x \<in> live s then Done (s\<lparr>live := live s - {x}\<rparr>) else Oops)"

definition upd_exec :: "(exec \<Rightarrow> exec) \<Rightarrow> probe \<Rightarrow> probe" where
  "upd_exec f s = s\<lparr>p_exec := f (p_exec s)\<rparr>"

text \<open>The end of a constructor that fails: what it has allocated is freed, and it returns NULL.\<close>

definition give_up :: "obj list \<Rightarrow> probe \<Rightarrow> (probe \<times> bool) outcome" where
  "give_up xs s = bind_outcome (fold (\<lambda>x r. bind_outcome r (free x)) xs (Done s)) (\<lambda>s1. Done (s1, False))"

section \<open>The cores of a group\<close>

definition mali_group_add_mmu_core :: "platform \<Rightarrow> gid \<Rightarrow> probe \<Rightarrow> probe \<times> bool" where
  "mali_group_add_mmu_core pl g s =
     (let s1 = s\<lparr>mmu_ptr := (mmu_ptr s)(g := True), mmu_work_ptr := (mmu_work_ptr s)(g := can pl (Alloc (MmuWork g)))\<rparr>
      in if can pl (Alloc (MmuWork g)) then (alloc (MmuWork g) s1, True) else (s1, False))"

definition mali_group_remove_mmu_core :: "gid \<Rightarrow> probe \<Rightarrow> probe outcome" where
  "mali_group_remove_mmu_core g s =
     (let s1 = s\<lparr>mmu_ptr := (mmu_ptr s)(g := False)\<rparr> in if mmu_work_ptr s1 g then free (MmuWork g) s1 else Done s1)"

definition mali_mmu_create :: "platform \<Rightarrow> gid \<Rightarrow> bool \<Rightarrow> probe \<Rightarrow> (probe \<times> bool) outcome" where
  "mali_mmu_create pl g is_virtual s =
     (if \<not> can pl (Alloc (MmuCore g)) then Done (s, False)
      else let s1 = alloc (MmuCore g) s in
        if can pl (Map_Regs (MmuCore g))
        then case mali_group_add_mmu_core pl g s1 of
               (s2, True) \<Rightarrow>
                 if is_virtual then Done (s2, True)
                 else if can pl (Reset_Core (MmuCore g)) \<and> can pl (Setup_Irq (MmuCore g)) then Done (s2, True)
                 else bind_outcome (mali_group_remove_mmu_core g s2) (give_up [MmuCore g])
             | (s2, False) \<Rightarrow> give_up [MmuCore g] s2
        else give_up [MmuCore g] s1)"

definition mali_mmu_delete :: "gid \<Rightarrow> probe \<Rightarrow> probe outcome" where
  "mali_mmu_delete g = free (MmuCore g)"

definition add_gp_core :: "platform \<Rightarrow> gid \<Rightarrow> probe \<Rightarrow> probe \<times> bool" where
  "add_gp_core pl g s =
     (let ok = can pl (Alloc (GpWork g));
          s1 = (upd_exec (\<lambda>e. fst (mali_group_add_gp_core ok g e)) s)\<lparr>gp_work_ptr := (gp_work_ptr s)(g := ok)\<rparr>
      in if ok then (alloc (GpWork g) s1, True) else (s1, False))"

definition remove_gp_core :: "gid \<Rightarrow> probe \<Rightarrow> probe outcome" where
  "remove_gp_core g s =
     (let s1 = upd_exec (mali_group_remove_gp_core g) s in if gp_work_ptr s1 g then free (GpWork g) s1 else Done s1)"

definition mali_gp_create :: "platform \<Rightarrow> gid \<Rightarrow> probe \<Rightarrow> (probe \<times> bool) outcome" where
  "mali_gp_create pl g s =
     (if \<not> can pl (Alloc (GpCore g)) then Done (s, False)
      else let s1 = alloc (GpCore g) s in
        if can pl (Map_Regs (GpCore g)) \<and> can pl (Reset_Core (GpCore g))
        then case add_gp_core pl g s1 of
               (s2, True) \<Rightarrow>
                 if can pl (Setup_Irq (GpCore g)) then Done (s2\<lparr>mali_global_gp_core := Some g\<rparr>, True)
                 else bind_outcome (remove_gp_core g s2) (give_up [GpCore g])
             | (s2, False) \<Rightarrow> give_up [GpCore g] s2
        else give_up [GpCore g] s1)"

definition mali_gp_delete :: "gid \<Rightarrow> probe \<Rightarrow> probe outcome" where
  "mali_gp_delete g s = bind_outcome (free (GpCore g) s) (\<lambda>s1. Done (s1\<lparr>mali_global_gp_core := None\<rparr>))"

definition MALI_MAX_NUMBER_OF_PP_CORES :: nat where "MALI_MAX_NUMBER_OF_PP_CORES = 9"

definition add_pp_core :: "platform \<Rightarrow> gid \<Rightarrow> probe \<Rightarrow> probe \<times> bool" where
  "add_pp_core pl g s =
     (let ok = can pl (Alloc (PpWork g)); i = of_nat (length (mali_global_pp_cores s));
          s1 = (upd_exec (\<lambda>e. fst (mali_group_add_pp_core ok g i e)) s)\<lparr>pp_work_ptr := (pp_work_ptr s)(g := ok)\<rparr>
      in if ok then (alloc (PpWork g) s1, True) else (s1, False))"

definition remove_pp_core :: "gid \<Rightarrow> probe \<Rightarrow> probe outcome" where
  "remove_pp_core g s =
     (let s1 = upd_exec (mali_group_remove_pp_core g) s in if pp_work_ptr s1 g then free (PpWork g) s1 else Done s1)"

definition mali_pp_create :: "platform \<Rightarrow> gid \<Rightarrow> bool \<Rightarrow> probe \<Rightarrow> (probe \<times> bool) outcome" where
  "mali_pp_create pl g is_virtual s =
     (if MALI_MAX_NUMBER_OF_PP_CORES \<le> length (mali_global_pp_cores s) then Done (s, False)
      else if \<not> can pl (Alloc (PpCore g)) then Done (s, False)
      else let s1 = alloc (PpCore g) s in
        if can pl (Map_Regs (PpCore g)) \<and> (is_virtual \<or> can pl (Reset_Core (PpCore g)))
        then case add_pp_core pl g s1 of
               (s2, True) \<Rightarrow>
                 if can pl (Setup_Irq (PpCore g))
                 then Done (s2\<lparr>mali_global_pp_cores := mali_global_pp_cores s2 @ [g]\<rparr>, True)
                 else bind_outcome (remove_pp_core g s2) (give_up [PpCore g])
             | (s2, False) \<Rightarrow> give_up [PpCore g] s2
        else give_up [PpCore g] s1)"

definition mali_pp_delete :: "gid \<Rightarrow> probe \<Rightarrow> probe outcome" where
  "mali_pp_delete g s =
     bind_outcome (free (PpCore g) s) (\<lambda>s1. Done (s1\<lparr>mali_global_pp_cores := glob_remove g (mali_global_pp_cores s1)\<rparr>))"

section \<open>Groups\<close>

definition group_create :: "platform \<Rightarrow> l2id option \<Rightarrow> bool \<Rightarrow> bool \<Rightarrow> nat \<Rightarrow> probe \<Rightarrow> probe \<times> gid option" where
  "group_create pl core dlbu bcast domain_index s =
     (let g = next_gid s in
      case mali_group_create (can pl (Alloc (GroupObj g))) (can pl (Alloc (GroupTimer g))) g core dlbu bcast domain_index (p_exec s) of
        (e, False) \<Rightarrow> (s, None)
      | (e, True) \<Rightarrow>
          (alloc (GroupTimer g) (alloc (GroupObj g)
             (s\<lparr>p_exec := e, next_gid := g + 1, mmu_ptr := (mmu_ptr s)(g := False), mmu_work_ptr := (mmu_work_ptr s)(g := False),
                gp_work_ptr := (gp_work_ptr s)(g := False), pp_work_ptr := (pp_work_ptr s)(g := False)\<rparr>)), Some g))"

text \<open>\<open>mali_group_delete\<close>: first the cores, at last the entry of the array, the timer and the work items. The
  children of a virtual group, which are not virtual, are deleted in between.\<close>

definition delete_cores :: "gid \<Rightarrow> probe \<Rightarrow> probe outcome" where
  "delete_cores g s =
     bind_outcome (if gp_core (groups (p_exec s) g) then mali_gp_delete g s else Done s) (\<lambda>s1.
     bind_outcome (if pp_core (groups (p_exec s) g) then mali_pp_delete g s1 else Done s1) (\<lambda>s2.
       if mmu_ptr s g then mali_mmu_delete g s2 else Done s2))"

definition delete_rest :: "gid \<Rightarrow> probe \<Rightarrow> probe outcome" where
  "delete_rest g s =
     (let s1 = upd_exec (\<lambda>e. e\<lparr>glob_groups := glob_remove g (glob_groups e)\<rparr>) s in
      bind_outcome (free (GroupTimer g) s1) (\<lambda>s2.
      bind_outcome (if mmu_work_ptr s g then free (MmuWork g) s2 else Done s2) (\<lambda>s3.
      bind_outcome (if gp_work_ptr s g then free (GpWork g) s3 else Done s3) (\<lambda>s4.
      bind_outcome (if pp_work_ptr s g then free (PpWork g) s4 else Done s4) (free (GroupObj g))))))"

definition delete_physical :: "gid \<Rightarrow> probe \<Rightarrow> probe outcome" where
  "delete_physical g s = bind_outcome (delete_cores g s) (delete_rest g)"

fun delete_children :: "gid list \<Rightarrow> probe \<Rightarrow> probe outcome" where
  "delete_children [] s = Done s"
| "delete_children (c # cs) s =
     bind_outcome (delete_physical c (upd_exec (upd_group c (\<lambda>x. x\<lparr>parent_group := None\<rparr>)) s)) (delete_children cs)"

definition group_delete :: "gid \<Rightarrow> probe \<Rightarrow> probe outcome" where
  "group_delete g s =
     (let x = groups (p_exec s) g in
      bind_outcome (delete_cores g s) (\<lambda>s1.
      bind_outcome
        (if mali_group_is_virtual x
         then bind_outcome (delete_children (child_groups x) s1) (\<lambda>s2.
              bind_outcome (free (DlbuCore g) s2) (\<lambda>s3. if bcast_core x then free (BcastUnit g) s3 else Done s3))
         else Done s1)
        (delete_rest g)))"

definition mali_create_group ::
    "platform \<Rightarrow> l2id option \<Rightarrow> bool \<Rightarrow> bool \<Rightarrow> nat \<Rightarrow> probe \<Rightarrow> (probe \<times> gid option) outcome" where
  "mali_create_group pl cache resource_gp resource_pp domain_index s =
     (case group_create pl cache False False domain_index s of
        (s1, None) \<Rightarrow> Done (s1, None)
      | (s1, Some g) \<Rightarrow>
          let failed = (\<lambda>s. bind_outcome (group_delete g s) (\<lambda>s'. Done (s', None))) in
          bind_outcome (mali_mmu_create pl g False s1) (\<lambda>(s2, mmu).
          if \<not> mmu then failed s2
          else bind_outcome (if resource_gp then mali_gp_create pl g s2 else Done (s2, True)) (\<lambda>(s3, gp).
          if \<not> gp then failed s3
          else bind_outcome (if resource_pp then mali_pp_create pl g False s3 else Done (s3, True)) (\<lambda>(s4, pp).
          if \<not> pp then failed s4 else Done (s4, Some g)))))"

text \<open>A physical group is put into the broadcast unit for a moment, for the interrupt test.\<close>

definition mali_create_virtual_group :: "platform \<Rightarrow> probe \<Rightarrow> (probe \<times> osk_err) outcome" where
  "mali_create_virtual_group pl s =
     (let g = next_gid s; fault = (\<lambda>s. Done (s, ERR_FAULT));
          failed = (\<lambda>s. bind_outcome (group_delete g s) fault) in
      if \<not> (can pl (Alloc (DlbuCore g)) \<and> can pl (Map_Regs (DlbuCore g)) \<and> can pl (Reset_Core (DlbuCore g))) then fault s
      else let s1 = alloc (DlbuCore g) s in
      if \<not> (can pl (Alloc (BcastUnit g)) \<and> can pl (Map_Regs (BcastUnit g))) then bind_outcome (free (DlbuCore g) s1) fault
      else let s2 = alloc (BcastUnit g) s1;
               phys = hd (filter (\<lambda>k. pp_core (groups (p_exec s2) k)) (glob_groups (p_exec s2)));
               s3 = upd_exec (hw [BcastAddGroup g phys, BcastReset g, BcastRemoveGroup g phys]) s2 in
      case group_create pl None True True DOMAIN_DUMMY s3 of
        (s4, None) \<Rightarrow> bind_outcome (free (BcastUnit g) s4) (\<lambda>s5. bind_outcome (free (DlbuCore g) s5) fault)
      | (s4, Some _) \<Rightarrow>
          bind_outcome (mali_mmu_create pl g True s4) (\<lambda>(s5, mmu).
          if \<not> mmu then failed s5
          else bind_outcome (mali_pp_create pl g True s5) (\<lambda>(s6, pp).
          if \<not> pp then failed s6 else Done (s6, ERR_OK))))"

section \<open>Level 2 caches\<close>

definition MALI_MAX_NUMBER_OF_L2_CACHE_CORES :: nat where "MALI_MAX_NUMBER_OF_L2_CACHE_CORES = 3"

definition mali_l2_cache_create :: "platform \<Rightarrow> nat \<Rightarrow> probe \<Rightarrow> probe \<times> bool" where
  "mali_l2_cache_create pl domain_index s =
     (let l = length (mali_global_l2s s) in
      if MALI_MAX_NUMBER_OF_L2_CACHE_CORES \<le> l then (s, False)
      else if \<not> can pl (Alloc (L2Core l)) \<or> \<not> can pl (Map_Regs (L2Core l)) \<or> \<not> can pl (Init_Lock (L2Core l)) then (s, False)
      else let (p, d) = mali_pm_register_l2_cache domain_index l (e_pm (p_exec s))
           in ((alloc (L2Core l) (upd_exec (\<lambda>e. e\<lparr>e_pm := p, l2_pm_domain := (l2_pm_domain e)(l := d)\<rparr>) s))
                 \<lparr>mali_global_l2s := mali_global_l2s s @ [l]\<rparr>, True))"

definition mali_l2_cache_delete :: "l2id \<Rightarrow> probe \<Rightarrow> probe outcome" where
  "mali_l2_cache_delete l s =
     bind_outcome (free (L2Core l) s) (\<lambda>s1. Done (s1\<lparr>mali_global_l2s := glob_remove l (mali_global_l2s s1)\<rparr>))"

definition DOMAIN_INDEX_L20 :: nat where "DOMAIN_INDEX_L20 = 9"
definition DOMAIN_INDEX_L21 :: nat where "DOMAIN_INDEX_L21 = 10"
definition DOMAIN_INDEX_L22 :: nat where "DOMAIN_INDEX_L22 = 11"
definition DOMAIN_INDEX_GP :: nat where "DOMAIN_INDEX_GP = 0"
definition DOMAIN_INDEX_PP0 :: nat where "DOMAIN_INDEX_PP0 = 1"

definition mandatory_l2 :: "platform \<Rightarrow> nat \<Rightarrow> nat \<Rightarrow> probe \<Rightarrow> probe \<times> bool" where
  "mandatory_l2 pl i domain_index s =
     (if resource_found pl (RES_L2 i) then mali_l2_cache_create pl domain_index s else (s, False))"

definition mali_parse_config_l2_cache :: "platform \<Rightarrow> probe \<Rightarrow> probe \<times> osk_err" where
  "mali_parse_config_l2_cache pl s =
     (case product_id pl of
        Mali400 \<Rightarrow> (case mandatory_l2 pl 0 DOMAIN_INDEX_L20 s of (s1, ok) \<Rightarrow> (s1, if ok then ERR_OK else ERR_FAULT))
      | Mali450 \<Rightarrow>
          (case mandatory_l2 pl 0 DOMAIN_INDEX_L20 s of
             (s1, False) \<Rightarrow> (s1, ERR_FAULT)
           | (s1, True) \<Rightarrow>
               (case mandatory_l2 pl 1 DOMAIN_INDEX_L21 s1 of
                  (s2, False) \<Rightarrow> (s2, ERR_FAULT)
                | (s2, True) \<Rightarrow>
                    if resource_found pl (RES_L2 2)
                    then (case mali_l2_cache_create pl DOMAIN_INDEX_L22 s2 of (s3, ok) \<Rightarrow> (s3, if ok then ERR_OK else ERR_FAULT))
                    else (s2, ERR_OK)))
      | Mali470 \<Rightarrow> (case mandatory_l2 pl 1 DOMAIN_INDEX_L21 s of (s1, ok) \<Rightarrow> (s1, if ok then ERR_OK else ERR_FAULT))
      | OtherProduct \<Rightarrow> (s, ERR_OK))"

definition mali_l2_cache_core_get_glob_l2_core :: "nat \<Rightarrow> probe \<Rightarrow> l2id option" where
  "mali_l2_cache_core_get_glob_l2_core i s =
     (if i < length (mali_global_l2s s) then Some (mali_global_l2s s ! i) else None)"

section \<open>The groups of a platform\<close>

definition inited_pp :: "bool \<Rightarrow> probe \<Rightarrow> int" where
  "inited_pp first s = (if first then mali_inited_pp_cores_group_1 s else mali_inited_pp_cores_group_2 s)"

definition count_pp :: "bool \<Rightarrow> probe \<Rightarrow> probe" where
  "count_pp first s = (if first then s\<lparr>mali_inited_pp_cores_group_1 := mali_inited_pp_cores_group_1 s + 1\<rparr>
     else s\<lparr>mali_inited_pp_cores_group_2 := mali_inited_pp_cores_group_2 s + 1\<rparr>)"

definition limit_pp :: "bool \<Rightarrow> probe \<Rightarrow> int" where
  "limit_pp first s = (if first then mali_max_pp_cores_group_1 s else mali_max_pp_cores_group_2 s)"

text \<open>The loops over the cores of the first (\<open>first\<close>) and of the second half.\<close>

fun create_pp_groups :: "platform \<Rightarrow> nat \<Rightarrow> bool \<Rightarrow> nat list \<Rightarrow> probe \<Rightarrow> (probe \<times> osk_err) outcome" where
  "create_pp_groups pl cluster first [] s = Done (s, ERR_OK)"
| "create_pp_groups pl cluster first (i # is) s =
     (if inited_pp first s < limit_pp first s \<and> resource_found pl (RES_PP i) \<and> resource_found pl (RES_PP_MMU i)
      then bind_outcome
             (mali_create_group pl (mali_l2_cache_core_get_glob_l2_core cluster s) False True (DOMAIN_INDEX_PP0 + i) s)
             (\<lambda>r. case r of
                (s1, None) \<Rightarrow> Done (s1, ERR_FAULT)
              | (s1, Some g) \<Rightarrow> create_pp_groups pl cluster first is (count_pp first s1))
      else create_pp_groups pl cluster first is s)"

definition MALI_MAX_JOB_RUNTIME_DEFAULT :: int where "MALI_MAX_JOB_RUNTIME_DEFAULT = 5000"

definition device_job_runtime :: "platform \<Rightarrow> probe \<Rightarrow> probe" where
  "device_job_runtime pl s =
     (case device_max_job_runtime pl of
        Some n \<Rightarrow> if MALI_MAX_JOB_RUNTIME_DEFAULT = mali_max_job_runtime s \<and> 0 \<noteq> n
                  then s\<lparr>mali_max_job_runtime := n\<rparr> else s
      | None \<Rightarrow> s)"

text \<open>The two patterns of early return: a group that is NULL, and an error code.\<close>

definition with_group :: "(probe \<times> gid option) outcome \<Rightarrow> (probe \<Rightarrow> (probe \<times> osk_err) outcome) \<Rightarrow> (probe \<times> osk_err) outcome" where
  "with_group r k = bind_outcome r (\<lambda>(s, g). if g = None then Done (s, ERR_FAULT) else k s)"

definition if_ok :: "(probe \<times> osk_err) outcome \<Rightarrow> (probe \<Rightarrow> (probe \<times> osk_err) outcome) \<Rightarrow> (probe \<times> osk_err) outcome" where
  "if_ok r k = bind_outcome r (\<lambda>(s, err). if err \<noteq> ERR_OK then Done (s, err) else k s)"

definition groups_inited :: "probe \<Rightarrow> probe" where
  "groups_inited s = s\<lparr>mali_max_pp_cores_group_1 := mali_inited_pp_cores_group_1 s,
     mali_max_pp_cores_group_2 := mali_inited_pp_cores_group_2 s\<rparr>"

definition mali_parse_config_groups :: "platform \<Rightarrow> probe \<Rightarrow> (probe \<times> osk_err) outcome" where
  "mali_parse_config_groups pl s =
     (let has_virtual = (product_id pl = Mali450 \<or> product_id pl = Mali470);
          pp_grp0 = (if product_id pl = Mali450 then 1 else 0); pp_grp1 = (if product_id pl = Mali450 then 2 else 0);
          s1 = device_job_runtime pl s in
      if product_id pl = OtherProduct then Done (s, ERR_FAULT)
      else if has_virtual \<and> \<not> (resource_found pl RES_BCAST \<and> resource_found pl RES_DLBU \<and>
                 resource_found pl RES_PP_BCAST_MMU \<and> resource_found pl RES_PP_BCAST) then Done (s1, ERR_FAULT)
      else if \<not> (resource_found pl RES_GP \<and> resource_found pl RES_GP_MMU \<and>
                 resource_found pl (RES_PP 0) \<and> resource_found pl (RES_PP_MMU 0)) then Done (s1, ERR_FAULT)
      else with_group (mali_create_group pl (mali_l2_cache_core_get_glob_l2_core 0 s1) True False DOMAIN_INDEX_GP s1) (\<lambda>s2.
           with_group (mali_create_group pl (mali_l2_cache_core_get_glob_l2_core pp_grp0 s2) False True DOMAIN_INDEX_PP0 s2) (\<lambda>s3.
           if_ok (create_pp_groups pl pp_grp0 True [1 ..< 4] (count_pp True s3)) (\<lambda>s4.
           if_ok (create_pp_groups pl pp_grp1 False [4 ..< 8] s4) (\<lambda>s5.
           if_ok (if has_virtual then mali_create_virtual_group pl s5 else Done (s5, ERR_OK)) (\<lambda>s6.
             Done (groups_inited s6, ERR_OK)))))))"

section \<open>Initialising and deleting\<close>

text \<open>The executor before anything is created, with the power domains of the configuration.\<close>

definition executor_boot :: "gpu \<Rightarrow> pm \<Rightarrow> bool \<Rightarrow> bool \<Rightarrow> exec" where
  "executor_boot \<sigma> p secure pmu = \<lparr>e_gpu = \<sigma>, e_pm = p,
     groups = (\<lambda>_. \<lparr>grp_session = None, grp_state = GROUP_INACTIVE, grp_power_is_on = False, grp_is_working = False,
                 grp_start_time = 0, gp_core = False, gp_running_job = None, pp_core = False, pp_core_id = 0,
                 pp_running_job = None, pp_running_sub_job = 0, grp_pm_domain = 0, l2_cache_core = [None, None],
                 l2_cache_core_ref_count = [0, 0], parent_group = None, dlbu_core = False, bcast_core = False,
                 disable_requested = False, child_groups = []\<rparr>),
     glob_groups = [], l2_pm_domain = (\<lambda>_. DOMAIN_DUMMY),
     group_list_disabled = [], group_list_disabled_count = 0, group_list_inactive = [], group_list_inactive_count = 0,
     group_list_idle = [], group_list_idle_count = 0, group_list_working = [], group_list_working_count = 0,
     virtual_group = None, virtual_group_state = EXEC_STATE_NOT_PRESENT, gp_group = None,
     gp_group_state = EXEC_STATE_NOT_PRESENT, gp_returned_cookie = 0, num_physical_pp_cores_total = 0,
     num_physical_pp_cores_enabled = 0, core_scaling_enabled = True, pause_count = 0,
     core_scaling_delay_up_mask = (\<lambda>_. 0), gp_bound_hint = False, secure_mode_supported = secure,
     secure_mode_enabled = False, pmu_present = pmu, hw_log = []\<rparr>"

definition probe_boot :: "exec \<Rightarrow> int \<Rightarrow> int \<Rightarrow> int \<Rightarrow> probe" where
  "probe_boot e max1 max2 runtime = \<lparr>p_exec = e, live = {}, mmu_ptr = (\<lambda>_. False), mmu_work_ptr = (\<lambda>_. False),
     gp_work_ptr = (\<lambda>_. False), pp_work_ptr = (\<lambda>_. False), mali_global_gp_core = None, mali_global_pp_cores = [],
     mali_global_l2s = [], next_gid = 0, mali_inited_pp_cores_group_1 = 0, mali_inited_pp_cores_group_2 = 0,
     mali_max_pp_cores_group_1 = max1, mali_max_pp_cores_group_2 = max2, mali_max_job_runtime = runtime\<rparr>"

text \<open>The part of \<open>mali_initialize_subsystems\<close> that finds the hardware.\<close>

definition configure_hardware :: "platform \<Rightarrow> probe \<Rightarrow> (probe \<times> osk_err) outcome" where
  "configure_hardware pl s =
     if_ok (Done (mali_parse_config_l2_cache pl s)) (\<lambda>s1.
     if_ok (mali_parse_config_groups pl s1) (\<lambda>s2. Done (upd_exec mali_executor_populate s2, ERR_OK)))"

fun delete_all :: "gid list \<Rightarrow> probe \<Rightarrow> probe outcome" where
  "delete_all [] s = Done s"
| "delete_all (g # gs) s = bind_outcome (group_delete g s) (delete_all gs)"

definition mali_executor_depopulate :: "probe \<Rightarrow> probe outcome" where
  "mali_executor_depopulate s =
     bind_outcome (case gp_group (p_exec s) of
         Some g \<Rightarrow> bind_outcome (group_delete g s) (\<lambda>s1. Done (upd_exec (\<lambda>e. e\<lparr>gp_group := None\<rparr>) s1))
       | None \<Rightarrow> Done s) (\<lambda>s1.
     bind_outcome (case virtual_group (p_exec s1) of
         Some v \<Rightarrow> bind_outcome (group_delete v s1) (\<lambda>s2. Done (upd_exec (\<lambda>e. e\<lparr>virtual_group := None\<rparr>) s2))
       | None \<Rightarrow> Done s1) (\<lambda>s2.
     bind_outcome (delete_all (group_list_idle (p_exec s2)) s2) (\<lambda>s3.
     bind_outcome (delete_all (group_list_inactive (p_exec s3)) s3) (\<lambda>s4.
       delete_all (group_list_disabled (p_exec s4)) s4))))"

text \<open>As long as the array of groups is not empty its first group is deleted; it has at most \<open>n\<close> groups.\<close>

fun delete_groups :: "nat \<Rightarrow> probe \<Rightarrow> probe outcome" where
  "delete_groups n s =
     (case glob_groups (p_exec s) of
        [] \<Rightarrow> Done s
      | g # _ \<Rightarrow> (case n of 0 \<Rightarrow> OutOfFuel | Suc m \<Rightarrow> bind_outcome (group_delete g s) (delete_groups m)))"

declare delete_groups.simps [simp del]

definition mali_delete_groups :: "probe \<Rightarrow> probe outcome" where
  "mali_delete_groups s = delete_groups (length (glob_groups (p_exec s))) s"

text \<open>The array of caches is emptied in the same way.\<close>

fun delete_l2_caches :: "nat \<Rightarrow> probe \<Rightarrow> probe outcome" where
  "delete_l2_caches n s =
     (case mali_l2_cache_core_get_glob_l2_core 0 s of
        None \<Rightarrow> Done s
      | Some l \<Rightarrow> (case n of 0 \<Rightarrow> OutOfFuel | Suc m \<Rightarrow> bind_outcome (mali_l2_cache_delete l s) (delete_l2_caches m)))"

declare delete_l2_caches.simps [simp del]

definition mali_delete_l2_cache_cores :: "probe \<Rightarrow> probe outcome" where
  "mali_delete_l2_cache_cores s = delete_l2_caches (length (mali_global_l2s s)) s"

text \<open>The part of \<open>mali_terminate_subsystems\<close> that gives the hardware back.\<close>

definition release_hardware :: "probe \<Rightarrow> probe outcome" where
  "release_hardware s =
     bind_outcome (mali_executor_depopulate s) (\<lambda>s1. bind_outcome (mali_delete_groups s1) mali_delete_l2_cache_cores)"

end
