(* ===== verification/Probe_Objects.thy ===== *)
theory Probe_Objects
  imports Probe
begin

text \<open>
  What the creation and the deletion of groups does to the objects they own: creation either
  succeeds, or fails and has freed all it allocated, or follows a dangling pointer of the group,
  and which of the three depends only on where it fails; deletion frees what the group points to.
\<close>

section \<open>Deleting a group\<close>

text \<open>What a group has a pointer to, and frees when it is deleted.\<close>

definition pointers :: "probe \<Rightarrow> gid \<Rightarrow> obj set" where
  "pointers s g = {GroupObj g, GroupTimer g} \<union>
     (if gp_core (groups (p_exec s) g) then {GpCore g} else {}) \<union>
     (if pp_core (groups (p_exec s) g) then {PpCore g} else {}) \<union>
     (if mmu_ptr s g then {MmuCore g} else {}) \<union>
     (if mmu_work_ptr s g then {MmuWork g} else {}) \<union>
     (if gp_work_ptr s g then {GpWork g} else {}) \<union>
     (if pp_work_ptr s g then {PpWork g} else {})"

text \<open>The state after \<open>g\<close> is gone: nothing else changes but the global arrays.\<close>

definition populated :: "exec \<Rightarrow> _" where
  "populated e = (gp_group e, virtual_group e, group_list_idle e, group_list_inactive e, group_list_disabled e)"

definition same_groups :: "probe \<Rightarrow> probe \<Rightarrow> bool" where
  "same_groups s s' \<longleftrightarrow> populated (p_exec s') = populated (p_exec s) \<and> groups (p_exec s') = groups (p_exec s) \<and> mmu_ptr s' = mmu_ptr s \<and> mmu_work_ptr s' = mmu_work_ptr s \<and>
     gp_work_ptr s' = gp_work_ptr s \<and> pp_work_ptr s' = pp_work_ptr s \<and> mali_global_l2s s' = mali_global_l2s s \<and>
     next_gid s' = next_gid s"

lemma same_groups_refl [simp]: "same_groups s s"
  by (simp add: same_groups_def)

lemma same_groups_trans: "same_groups s s1 \<Longrightarrow> same_groups s1 s2 \<Longrightarrow> same_groups s s2"
  by (simp add: same_groups_def)

lemma pointers_same: "same_groups s s' \<Longrightarrow> pointers s' = pointers s"
  by (simp add: same_groups_def pointers_def fun_eq_iff)

text \<open>A step that frees the objects \<open>xs\<close>, if all of them are live.\<close>

definition frees :: "obj set \<Rightarrow> (gid list \<Rightarrow> gid list) \<Rightarrow> probe \<Rightarrow> probe outcome \<Rightarrow> bool" where
  "frees xs f s r \<longleftrightarrow>
     (if xs \<subseteq> live s
      then \<exists>s'. r = Done s' \<and> live s' = live s - xs \<and> same_groups s s' \<and>
             glob_groups (p_exec s') = f (glob_groups (p_exec s))
      else r = Oops)"

lemma frees_free: "frees {x} id s (free x s)"
  by (simp add: frees_def free_def same_groups_def)

lemma frees_done: "frees {} id s (Done s)"
  by (simp add: frees_def)

lemma frees_then:
  assumes r: "frees xs f s r" and k: "\<And>s'. same_groups s s' \<Longrightarrow> frees ys h s' (k s')" and d: "xs \<inter> ys = {}"
  shows "frees (xs \<union> ys) (h \<circ> f) s (bind_outcome r k)"
proof (cases "xs \<subseteq> live s")
  case False
  then show ?thesis using r by (simp add: frees_def)
next
  case True
  then obtain s1 where s1: "r = Done s1" "live s1 = live s - xs" "same_groups s s1"
      "glob_groups (p_exec s1) = f (glob_groups (p_exec s))"
    using r by (auto simp: frees_def)
  have sub: "ys \<subseteq> live s1 \<longleftrightarrow> xs \<union> ys \<subseteq> live s" using True d s1(2) by auto
  have "frees ys h s1 (k s1)" by (rule k [OF s1(3)])
  then show ?thesis
    using s1 sub by (auto simp: frees_def) (metis same_groups_trans)+
qed

lemma frees_update:
  assumes "frees xs f s r" and "\<And>s'. live (u s') = live s'" "\<And>s'. same_groups s' (u s')"
    and "\<And>s'. glob_groups (p_exec (u s')) = h (glob_groups (p_exec s'))"
  shows "frees xs (h \<circ> f) s (bind_outcome r (\<lambda>s'. Done (u s')))"
  using assms by (auto simp: frees_def) (metis same_groups_trans)+

lemma frees_after:
  assumes "frees xs id u r" and "live u = live s" "same_groups s u" "glob_groups (p_exec u) = f (glob_groups (p_exec s))"
  shows "frees xs f s r"
proof (cases "xs \<subseteq> live s")
  case True
  then obtain s' where "r = Done s'" "live s' = live s - xs" "same_groups u s'"
      "glob_groups (p_exec s') = f (glob_groups (p_exec s))"
    using assms by (auto simp: frees_def)
  then show ?thesis using True same_groups_trans [OF assms(3)] by (auto simp: frees_def)
qed (use assms in \<open>simp add: frees_def\<close>)

lemma frees_if: "(c \<Longrightarrow> frees xs id s r) \<Longrightarrow> frees (if c then xs else {}) id s (if c then r else Done s)"
  by (simp add: frees_done)

lemma delete_core_frees: "frees {GpCore g} id s (mali_gp_delete g s)" "frees {PpCore g} id s (mali_pp_delete g s)"
    "frees {MmuCore g} id s (mali_mmu_delete g s)"
proof -
  show "frees {GpCore g} id s (mali_gp_delete g s)"
    using frees_update [OF frees_free, where h = id] unfolding mali_gp_delete_def by (simp add: same_groups_def)
  show "frees {PpCore g} id s (mali_pp_delete g s)"
    using frees_update [OF frees_free, where h = id] unfolding mali_pp_delete_def by (simp add: same_groups_def)
  show "frees {MmuCore g} id s (mali_mmu_delete g s)" unfolding mali_mmu_delete_def by (rule frees_free)
qed

definition core_pointers :: "probe \<Rightarrow> gid \<Rightarrow> obj set" where
  "core_pointers s g = (if gp_core (groups (p_exec s) g) then {GpCore g} else {}) \<union>
     ((if pp_core (groups (p_exec s) g) then {PpCore g} else {}) \<union> (if mmu_ptr s g then {MmuCore g} else {}))"

lemma delete_cores_frees: "frees (core_pointers s g) id s (delete_cores g s)"
proof -
  have m: "frees (if mmu_ptr s g then {MmuCore g} else {}) id s2 (if mmu_ptr s g then mali_mmu_delete g s2 else Done s2)" for s2
    by (rule frees_if) (rule delete_core_frees)
  have p: "frees ((if pp_core (groups (p_exec s) g) then {PpCore g} else {}) \<union> (if mmu_ptr s g then {MmuCore g} else {})) (id \<circ> id) s1
      (bind_outcome (if pp_core (groups (p_exec s) g) then mali_pp_delete g s1 else Done s1)
        (\<lambda>s2. if mmu_ptr s g then mali_mmu_delete g s2 else Done s2))" for s1
    by (rule frees_then [OF frees_if [OF delete_core_frees(2)] m]) simp
  have "frees (core_pointers s g) ((id \<circ> id) \<circ> id) s (delete_cores g s)"
    unfolding core_pointers_def delete_cores_def by (rule frees_then [OF frees_if [OF delete_core_frees(1)] p]) simp
  then show ?thesis by simp
qed

definition other_pointers :: "probe \<Rightarrow> gid \<Rightarrow> obj set" where
  "other_pointers s g = {GroupTimer g} \<union> ((if mmu_work_ptr s g then {MmuWork g} else {}) \<union>
     ((if gp_work_ptr s g then {GpWork g} else {}) \<union> ((if pp_work_ptr s g then {PpWork g} else {}) \<union> {GroupObj g})))"

lemma delete_rest_frees: "frees (other_pointers s g) (glob_remove g) s (delete_rest g s)"
proof -
  let ?s1 = "upd_exec (\<lambda>e. e\<lparr>glob_groups := glob_remove g (glob_groups e)\<rparr>) s"
  have p: "frees ((if pp_work_ptr s g then {PpWork g} else {}) \<union> {GroupObj g}) (id \<circ> id) s4
      (bind_outcome (if pp_work_ptr s g then free (PpWork g) s4 else Done s4) (free (GroupObj g)))" for s4
    by (rule frees_then [OF frees_if [OF frees_free] frees_free]) simp
  have q: "frees ((if gp_work_ptr s g then {GpWork g} else {}) \<union> ((if pp_work_ptr s g then {PpWork g} else {}) \<union> {GroupObj g}))
      ((id \<circ> id) \<circ> id) s3
      (bind_outcome (if gp_work_ptr s g then free (GpWork g) s3 else Done s3)
        (\<lambda>s4. bind_outcome (if pp_work_ptr s g then free (PpWork g) s4 else Done s4) (free (GroupObj g))))" for s3
    by (rule frees_then [OF frees_if [OF frees_free] p]) simp
  have r: "frees ((if mmu_work_ptr s g then {MmuWork g} else {}) \<union>
        ((if gp_work_ptr s g then {GpWork g} else {}) \<union> ((if pp_work_ptr s g then {PpWork g} else {}) \<union> {GroupObj g})))
      (((id \<circ> id) \<circ> id) \<circ> id) s2
      (bind_outcome (if mmu_work_ptr s g then free (MmuWork g) s2 else Done s2)
        (\<lambda>s3. bind_outcome (if gp_work_ptr s g then free (GpWork g) s3 else Done s3)
          (\<lambda>s4. bind_outcome (if pp_work_ptr s g then free (PpWork g) s4 else Done s4) (free (GroupObj g)))))" for s2
    by (rule frees_then [OF frees_if [OF frees_free] q]) simp
  have "frees (other_pointers s g) ((((id \<circ> id) \<circ> id) \<circ> id) \<circ> id) ?s1 (delete_rest g s)"
    unfolding other_pointers_def delete_rest_def Let_def by (rule frees_then [OF frees_free r]) auto
  then have f: "frees (other_pointers s g) id ?s1 (delete_rest g s)" by simp
  have "live ?s1 = live s" "same_groups s ?s1" "glob_groups (p_exec ?s1) = glob_remove g (glob_groups (p_exec s))"
    by (simp_all add: upd_exec_def same_groups_def populated_def)
  then show ?thesis by (rule frees_after [OF f])
qed

lemma other_pointers_same: "same_groups s s' \<Longrightarrow> other_pointers s' g = other_pointers s g"
  by (simp add: same_groups_def other_pointers_def)

lemma pointers_split: "pointers s g = core_pointers s g \<union> other_pointers s g"
  by (auto simp: pointers_def core_pointers_def other_pointers_def)

lemma group_delete_frees:
  assumes "\<not> mali_group_is_virtual (groups (p_exec s) g)"
  shows "frees (pointers s g) (glob_remove g) s (group_delete g s)"
proof -
  have d: "core_pointers s g \<inter> other_pointers s g = {}" by (auto simp: core_pointers_def other_pointers_def)
  have k: "frees (other_pointers s g) (glob_remove g) s' (delete_rest g s')" if "same_groups s s'" for s'
    using delete_rest_frees [of s' g] other_pointers_same [OF that] by simp
  have "frees (pointers s g) (glob_remove g \<circ> id) s (bind_outcome (delete_cores g s) (delete_rest g))"
    unfolding pointers_split by (rule frees_then [OF delete_cores_frees k d])
  moreover have "group_delete g s = bind_outcome (delete_cores g s) (delete_rest g)"
    using assms by (simp add: group_delete_def Let_def)
  ultimately show ?thesis by simp
qed

section \<open>Creating the cores of a group\<close>

text \<open>A constructor either succeeds, or fails with nothing left, or leaves the group with a dangling pointer.\<close>

definition mmu_sound :: "platform \<Rightarrow> gid \<Rightarrow> bool" where
  "mmu_sound pl g \<longleftrightarrow> can pl (Alloc (MmuWork g)) \<and> can pl (Reset_Core (MmuCore g)) \<and> can pl (Setup_Irq (MmuCore g))"

lemma mali_mmu_create_eq:
  assumes "MmuCore g \<notin> live s" "MmuWork g \<notin> live s"
  shows "mali_mmu_create pl g False s =
    (if \<not> can pl (Alloc (MmuCore g)) \<or> \<not> can pl (Map_Regs (MmuCore g)) then Done (s, False)
     else if mmu_sound pl g
     then Done (s\<lparr>live := live s \<union> {MmuCore g, MmuWork g}, mmu_ptr := (mmu_ptr s)(g := True),
                 mmu_work_ptr := (mmu_work_ptr s)(g := True)\<rparr>, True)
     else Done (s\<lparr>mmu_ptr := (mmu_ptr s)(g := \<not> can pl (Alloc (MmuWork g))),
                 mmu_work_ptr := (mmu_work_ptr s)(g := can pl (Alloc (MmuWork g)))\<rparr>, False))"
proof -
  have sets: "insert (MmuCore g) (live s) - {MmuCore g} = live s"
    "insert (MmuWork g) (insert (MmuCore g) (live s)) - {MmuWork g} = insert (MmuCore g) (live s)"
    "insert (MmuWork g) (insert (MmuCore g) (live s)) = live s \<union> {MmuCore g, MmuWork g}"
    using assms by auto
  show ?thesis
    using assms sets
    by (simp add: mali_mmu_create_def mali_group_add_mmu_core_def mali_group_remove_mmu_core_def give_up_def
        alloc_def free_def mmu_sound_def Let_def)
qed

definition gp_sound :: "platform \<Rightarrow> gid \<Rightarrow> bool" where
  "gp_sound pl g \<longleftrightarrow> can pl (Alloc (GpWork g)) \<and> can pl (Setup_Irq (GpCore g))"

definition gp_starts :: "platform \<Rightarrow> gid \<Rightarrow> bool" where
  "gp_starts pl g \<longleftrightarrow> can pl (Alloc (GpCore g)) \<and> can pl (Map_Regs (GpCore g)) \<and> can pl (Reset_Core (GpCore g))"

lemma mali_gp_create_eq:
  assumes "GpCore g \<notin> live s" "GpWork g \<notin> live s" "\<not> gp_core (groups (p_exec s) g)"
  shows "mali_gp_create pl g s =
    (if \<not> gp_starts pl g then Done (s, False)
     else let s1 = (upd_exec (upd_group g (\<lambda>x. x\<lparr>gp_core := gp_sound pl g \<or> \<not> can pl (Alloc (GpWork g))\<rparr>)) s)
                     \<lparr>gp_work_ptr := (gp_work_ptr s)(g := can pl (Alloc (GpWork g)))\<rparr>
          in if gp_sound pl g
             then Done (s1\<lparr>live := live s \<union> {GpCore g, GpWork g}, mali_global_gp_core := Some g\<rparr>, True)
             else Done (s1, False))"
proof -
  have sets: "insert (GpCore g) (live s) - {GpCore g} = live s"
    "insert (GpWork g) (insert (GpCore g) (live s)) - {GpWork g} = insert (GpCore g) (live s)"
    "insert (GpWork g) (insert (GpCore g) (live s)) = live s \<union> {GpCore g, GpWork g}"
    using assms by auto
  show ?thesis
    using assms sets
    by (simp add: mali_gp_create_def add_gp_core_def remove_gp_core_def give_up_def mali_group_add_gp_core_def
        mali_group_remove_gp_core_def alloc_def free_def gp_sound_def gp_starts_def upd_exec_def upd_group_def Let_def)
qed

definition pp_sound :: "platform \<Rightarrow> gid \<Rightarrow> bool" where
  "pp_sound pl g \<longleftrightarrow> can pl (Alloc (PpWork g)) \<and> can pl (Setup_Irq (PpCore g))"

definition pp_starts :: "platform \<Rightarrow> gid \<Rightarrow> probe \<Rightarrow> bool" where
  "pp_starts pl g s \<longleftrightarrow> length (mali_global_pp_cores s) < MALI_MAX_NUMBER_OF_PP_CORES \<and>
     can pl (Alloc (PpCore g)) \<and> can pl (Map_Regs (PpCore g)) \<and> can pl (Reset_Core (PpCore g))"

lemma mali_pp_create_eq:
  assumes "PpCore g \<notin> live s" "PpWork g \<notin> live s" "\<not> pp_core (groups (p_exec s) g)"
  shows "mali_pp_create pl g False s =
    (if \<not> pp_starts pl g s then Done (s, False)
     else let s1 = (upd_exec (upd_group g (\<lambda>x. x\<lparr>pp_core := pp_sound pl g \<or> \<not> can pl (Alloc (PpWork g)),
                     pp_core_id := of_nat (length (mali_global_pp_cores s))\<rparr>)) s)
                     \<lparr>pp_work_ptr := (pp_work_ptr s)(g := can pl (Alloc (PpWork g)))\<rparr>
          in if pp_sound pl g
             then Done (s1\<lparr>live := live s \<union> {PpCore g, PpWork g}, mali_global_pp_cores := mali_global_pp_cores s @ [g]\<rparr>, True)
             else Done (s1, False))"
proof -
  have sets: "insert (PpCore g) (live s) - {PpCore g} = live s"
    "insert (PpWork g) (insert (PpCore g) (live s)) - {PpWork g} = insert (PpCore g) (live s)"
    "insert (PpWork g) (insert (PpCore g) (live s)) = live s \<union> {PpCore g, PpWork g}"
    using assms by auto
  have order: "t\<lparr>pp_work_ptr := a, p_exec := b\<rparr> = t\<lparr>p_exec := b, pp_work_ptr := a\<rparr>"
    "x\<lparr>pp_core_id := i, pp_core := c\<rparr> = x\<lparr>pp_core := c, pp_core_id := i\<rparr>" for t :: probe and a b i c and x :: group
    by simp_all
  show ?thesis
    using assms sets
    by (simp add: order mali_pp_create_def add_pp_core_def remove_pp_core_def give_up_def mali_group_add_pp_core_def
        mali_group_remove_pp_core_def alloc_def free_def pp_sound_def pp_starts_def upd_exec_def upd_group_def Let_def)
qed

section \<open>Creating a group\<close>

text \<open>The names of the next group are not in use, and the groups own what they point to.\<close>

definition objects_of :: "gid \<Rightarrow> obj set" where
  "objects_of g = {GroupObj g, GroupTimer g, MmuCore g, GpCore g, PpCore g, MmuWork g, GpWork g, PpWork g}"

definition fresh :: "probe \<Rightarrow> bool" where
  "fresh s \<longleftrightarrow> (\<forall>g. next_gid s \<le> g \<longrightarrow> objects_of g \<inter> live s = {}) \<and> (\<forall>g \<in> set (glob_groups (p_exec s)). g < next_gid s)"

definition group_starts :: "platform \<Rightarrow> probe \<Rightarrow> bool" where
  "group_starts pl s \<longleftrightarrow> length (glob_groups (p_exec s)) < MAX_NUMBER_OF_GROUPS \<and>
     can pl (Alloc (GroupObj (next_gid s))) \<and> can pl (Alloc (GroupTimer (next_gid s)))"

definition mmu_starts :: "platform \<Rightarrow> gid \<Rightarrow> bool" where
  "mmu_starts pl g \<longleftrightarrow> can pl (Alloc (MmuCore g)) \<and> can pl (Map_Regs (MmuCore g))"

text \<open>The constructors that leave a dangling pointer behind.\<close>

definition dangles :: "platform \<Rightarrow> bool \<Rightarrow> bool \<Rightarrow> probe \<Rightarrow> bool" where
  "dangles pl gp pp s \<longleftrightarrow> (let g = next_gid s in group_starts pl s \<and> mmu_starts pl g \<and>
     (\<not> mmu_sound pl g \<or>
      gp \<and> gp_starts pl g \<and> \<not> gp_sound pl g \<or>
      (gp \<longrightarrow> gp_starts pl g \<and> gp_sound pl g) \<and> pp \<and> pp_starts pl g s \<and> \<not> pp_sound pl g))"

lemma group_create_eq:
  assumes "g = next_gid s"
  shows "group_create pl cache False False d s =
    (if group_starts pl s
     then (let (e, b) = mali_group_create True True g cache False False d (p_exec s)
           in (s\<lparr>p_exec := e, next_gid := g + 1, mmu_ptr := (mmu_ptr s)(g := False), mmu_work_ptr := (mmu_work_ptr s)(g := False),
                gp_work_ptr := (gp_work_ptr s)(g := False), pp_work_ptr := (pp_work_ptr s)(g := False),
                live := live s \<union> {GroupObj g, GroupTimer g}\<rparr>, Some g))
     else (s, None))"
  using assms
  by (simp add: group_create_def group_starts_def mali_group_create_def alloc_def Let_def insert_commute split: prod.split)

lemma created_group:
  assumes "mali_group_create True True g cache False False d e = (e', True)"
  shows "\<not> gp_core (groups e' g)" "\<not> pp_core (groups e' g)" "\<not> mali_group_is_virtual (groups e' g)"
    "glob_groups e' = glob_groups e @ [g]" "populated e' = populated e" "k \<noteq> g \<Longrightarrow> groups e' k = groups e k"
  using assms by (auto simp: mali_group_create_def Let_def upd_group_def mali_group_is_virtual_def populated_def split: prod.splits if_splits)

lemma glob_remove_last:
  assumes "g \<notin> set gs" shows "glob_remove g (gs @ [g]) = gs"
proof -
  have "filter (\<lambda>i. (gs @ [g]) ! i = g) [0 ..< length gs] = []"
    using assms by (auto simp: filter_empty_conv nth_append)
  then have "filter (\<lambda>i. (gs @ [g]) ! i = g) [0 ..< Suc (length gs)] = [length gs]" by simp
  then show ?thesis by (simp add: glob_remove_def)
qed

text \<open>What belongs to one group, and a state in which the creation of a group has been undone.\<close>

definition group_view :: "probe \<Rightarrow> gid \<Rightarrow> _" where
  "group_view s k = (groups (p_exec s) k, mmu_ptr s k, mmu_work_ptr s k, gp_work_ptr s k, pp_work_ptr s k)"

definition undone :: "probe \<Rightarrow> probe \<Rightarrow> bool" where
  "undone s s' \<longleftrightarrow> live s' = live s \<and> glob_groups (p_exec s') = glob_groups (p_exec s) \<and> next_gid s \<le> next_gid s' \<and>
     populated (p_exec s') = populated (p_exec s) \<and> mali_global_l2s s' = mali_global_l2s s \<and>
     (\<forall>k < next_gid s. group_view s' k = group_view s k)"

lemma undone_refl [simp]: "undone s s"
  by (simp add: undone_def)

text \<open>The new group with the pointers it has by now, of which \<open>xs\<close> are live.\<close>

definition half_created :: "probe \<Rightarrow> obj set \<Rightarrow> probe \<Rightarrow> bool" where
  "half_created s xs t \<longleftrightarrow> (let g = next_gid s in
     live t = live s \<union> xs \<and> xs \<subseteq> objects_of g \<and> glob_groups (p_exec t) = glob_groups (p_exec s) @ [g] \<and>
     \<not> mali_group_is_virtual (groups (p_exec t) g) \<and> mali_global_l2s t = mali_global_l2s s \<and> next_gid t = g + 1 \<and>
     populated (p_exec t) = populated (p_exec s) \<and> (\<forall>k. k \<noteq> g \<longrightarrow> group_view t k = group_view s k))"

lemma failed_create:
  assumes f: "fresh s" and h: "half_created s xs t" and g: "g = next_gid s"
  shows "pointers t g = xs \<Longrightarrow> \<exists>s'. group_delete g t = Done s' \<and> undone s s'"
    "\<not> pointers t g \<subseteq> xs \<Longrightarrow> group_delete g t = Oops"
proof -
  have d: "objects_of g \<inter> live s = {}" "g \<notin> set (glob_groups (p_exec s))" using f by (auto simp: fresh_def g)
  have t: "live t = live s \<union> xs" "xs \<subseteq> objects_of g" "glob_groups (p_exec t) = glob_groups (p_exec s) @ [g]"
    "\<not> mali_group_is_virtual (groups (p_exec t) g)" "mali_global_l2s t = mali_global_l2s s" "next_gid t = g + 1"
    "populated (p_exec t) = populated (p_exec s)" "\<And>k. k \<noteq> g \<Longrightarrow> group_view t k = group_view s k"
    using h by (simp_all add: half_created_def g Let_def)
  have p: "pointers t g \<subseteq> objects_of g" by (auto simp: pointers_def objects_of_def)
  note fr = group_delete_frees [OF t(4)]
  show "\<exists>s'. group_delete g t = Done s' \<and> undone s s'" if "pointers t g = xs"
  proof -
    have "pointers t g \<subseteq> live t" using that t(1) by blast
    then obtain s' where s': "group_delete g t = Done s'" "live s' = live t - pointers t g" "same_groups t s'"
        "glob_groups (p_exec s') = glob_remove g (glob_groups (p_exec t))" using fr by (auto simp: frees_def)
    have "live s' = live s" using that t(1) d(1) p s'(2) by blast
    moreover have "glob_groups (p_exec s') = glob_groups (p_exec s)" using glob_remove_last [OF d(2)] t(3) s'(4) by simp
    moreover have "group_view s' k = group_view s k" if "k < next_gid s" for k
      using t(8) [of k] that s'(3) by (simp add: group_view_def same_groups_def g)
    ultimately show ?thesis using s'(1,3) t(5-7) by (auto simp: undone_def same_groups_def g)
  qed
  show "group_delete g t = Oops" if "\<not> pointers t g \<subseteq> xs"
  proof -
    have "\<not> pointers t g \<subseteq> live t" using that t(1) d(1) p by blast
    then show ?thesis using fr by (simp add: frees_def)
  qed
qed

text \<open>A group that has been created with all its cores.\<close>

definition new_exec :: "l2id option \<Rightarrow> bool \<Rightarrow> bool \<Rightarrow> nat \<Rightarrow> probe \<Rightarrow> exec" where
  "new_exec cache gp pp d s = (let g = next_gid s; e1 = fst (mali_group_create True True g cache False False d (p_exec s));
       e2 = (if gp then upd_group g (\<lambda>x. x\<lparr>gp_core := True\<rparr>) e1 else e1)
     in if pp then upd_group g (\<lambda>x. x\<lparr>pp_core := True, pp_core_id := of_nat (length (mali_global_pp_cores s))\<rparr>) e2 else e2)"

definition created :: "l2id option \<Rightarrow> bool \<Rightarrow> bool \<Rightarrow> nat \<Rightarrow> probe \<Rightarrow> probe" where
  "created cache gp pp d s = (let g = next_gid s in
     s\<lparr>p_exec := new_exec cache gp pp d s,
       live := live s \<union> {GroupObj g, GroupTimer g, MmuCore g, MmuWork g} \<union>
         (if gp then {GpCore g, GpWork g} else {}) \<union> (if pp then {PpCore g, PpWork g} else {}),
       mmu_ptr := (mmu_ptr s)(g := True), mmu_work_ptr := (mmu_work_ptr s)(g := True),
       gp_work_ptr := (gp_work_ptr s)(g := gp), pp_work_ptr := (pp_work_ptr s)(g := pp),
       mali_global_gp_core := (if gp then Some g else mali_global_gp_core s),
       mali_global_pp_cores := (if pp then mali_global_pp_cores s @ [g] else mali_global_pp_cores s),
       next_gid := g + 1\<rparr>)"

definition group_complete :: "platform \<Rightarrow> bool \<Rightarrow> bool \<Rightarrow> probe \<Rightarrow> bool" where
  "group_complete pl gp pp s \<longleftrightarrow> (let g = next_gid s in
     group_starts pl s \<and> mmu_starts pl g \<and> (gp \<longrightarrow> gp_starts pl g) \<and> (pp \<longrightarrow> pp_starts pl g s))"

lemma mali_create_group_cases:
  assumes f: "fresh s"
  shows "if dangles pl gp pp s then mali_create_group pl cache gp pp d s = Oops
     else if group_complete pl gp pp s then mali_create_group pl cache gp pp d s = Done (created cache gp pp d s, Some (next_gid s))
     else \<exists>s'. mali_create_group pl cache gp pp d s = Done (s', None) \<and> undone s s'"
proof (cases "group_starts pl s")
  case False
  then show ?thesis
    using group_create_eq [OF refl, of pl cache d s] by (simp add: dangles_def group_complete_def mali_create_group_def Let_def)
next
  case True
  define g where "g = next_gid s"
  note dg = dangles_def [of pl gp pp s, folded g_def, unfolded Let_def] group_complete_def [of pl gp pp s, folded g_def, unfolded Let_def]
  have new: "objects_of g \<inter> live s = {}" using f by (simp add: fresh_def g_def)
  define e where "e = fst (mali_group_create True True g cache False False d (p_exec s))"
  have e: "mali_group_create True True g cache False False d (p_exec s) = (e, True)"
    using True by (simp add: e_def mali_group_create_def group_starts_def Let_def split: prod.split)
  note ge = created_group [OF e]
  define s1 where "s1 = s\<lparr>p_exec := e, next_gid := g + 1, mmu_ptr := (mmu_ptr s)(g := False), mmu_work_ptr := (mmu_work_ptr s)(g := False),
      gp_work_ptr := (gp_work_ptr s)(g := False), pp_work_ptr := (pp_work_ptr s)(g := False), live := live s \<union> {GroupObj g, GroupTimer g}\<rparr>"
  have c: "group_create pl cache False False d s = (s1, Some g)"
    using True by (simp add: group_create_eq [OF g_def] e s1_def)
  have n1: "MmuCore g \<notin> live s1" "MmuWork g \<notin> live s1" using new by (auto simp: s1_def objects_of_def)
  note mmu = mali_mmu_create_eq [OF n1, of pl]
  have h: "half_created s xs t \<longleftrightarrow> live t = live s \<union> xs \<and> xs \<subseteq> objects_of g \<and> glob_groups (p_exec t) = glob_groups (p_exec s) @ [g] \<and>
     \<not> mali_group_is_virtual (groups (p_exec t) g) \<and> mali_global_l2s t = mali_global_l2s s \<and> next_gid t = g + 1 \<and>
     populated (p_exec t) = populated (p_exec s) \<and> (\<forall>k. k \<noteq> g \<longrightarrow> group_view t k = group_view s k)" for xs t
    by (simp add: half_created_def g_def Let_def)
  note fc = failed_create [OF f _ g_def]
  have run: "mali_create_group pl cache gp pp d s = bind_outcome (mali_mmu_create pl g False s1) (\<lambda>(s2, mmu).
          if \<not> mmu then bind_outcome (group_delete g s2) (\<lambda>s'. Done (s', None))
          else bind_outcome (if gp then mali_gp_create pl g s2 else Done (s2, True)) (\<lambda>(s3, gp).
          if \<not> gp then bind_outcome (group_delete g s3) (\<lambda>s'. Done (s', None))
          else bind_outcome (if pp then mali_pp_create pl g False s3 else Done (s3, True)) (\<lambda>(s4, pp).
          if \<not> pp then bind_outcome (group_delete g s4) (\<lambda>s'. Done (s', None)) else Done (s4, Some g))))"
    unfolding mali_create_group_def c by (simp add: Let_def)
  show ?thesis
  proof (cases "mmu_starts pl g \<and> mmu_sound pl g")
    case False
    show ?thesis
    proof (cases "mmu_starts pl g")
      case no: False
      have "half_created s {GroupObj g, GroupTimer g} s1" "pointers s1 g = {GroupObj g, GroupTimer g}"
        using ge by (simp_all add: h s1_def objects_of_def pointers_def group_view_def)
      from fc(1) [OF this] no show ?thesis
        unfolding run dg mmu by (auto simp: mmu_starts_def)
    next
      case yes: True
      then have ns: "\<not> mmu_sound pl g" using False by simp
      define s2 where "s2 = s1\<lparr>mmu_ptr := (mmu_ptr s1)(g := \<not> can pl (Alloc (MmuWork g))),
                 mmu_work_ptr := (mmu_work_ptr s1)(g := can pl (Alloc (MmuWork g)))\<rparr>"
      have m: "mali_mmu_create pl g False s1 = Done (s2, False)"
        using yes ns unfolding mmu by (simp add: mmu_starts_def s2_def)
      have "half_created s {GroupObj g, GroupTimer g} s2" "\<not> pointers s2 g \<subseteq> {GroupObj g, GroupTimer g}"
        using ge by (auto simp: h s1_def s2_def objects_of_def pointers_def group_view_def)
      from fc(2) [OF this] yes ns True show ?thesis unfolding run dg m by simp
    qed
  next
    case ms: True
    define s2 where "s2 = s1\<lparr>live := live s1 \<union> {MmuCore g, MmuWork g}, mmu_ptr := (mmu_ptr s1)(g := True),
                 mmu_work_ptr := (mmu_work_ptr s1)(g := True)\<rparr>"
    have m: "mali_mmu_create pl g False s1 = Done (s2, True)"
      using ms unfolding mmu by (simp add: mmu_starts_def s2_def)
    have n2: "GpCore g \<notin> live s2" "GpWork g \<notin> live s2" "\<not> gp_core (groups (p_exec s2) g)"
      using new ge by (auto simp: s1_def s2_def objects_of_def)
    note gpe = mali_gp_create_eq [OF n2, of pl, unfolded Let_def]
    show ?thesis
    proof (cases "gp \<longrightarrow> gp_starts pl g \<and> gp_sound pl g")
      case False
      then have gp by simp
      show ?thesis
      proof (cases "gp_starts pl g")
        case no: False
        have "half_created s {GroupObj g, GroupTimer g, MmuCore g, MmuWork g} s2"
          "pointers s2 g = {GroupObj g, GroupTimer g, MmuCore g, MmuWork g}"
          using ge by (auto simp: h s1_def s2_def objects_of_def pointers_def group_view_def)
        from fc(1) [OF this] no ms \<open>gp\<close> show ?thesis unfolding run dg m by (auto simp: gpe)
      next
        case yes: True
        then have ns: "\<not> gp_sound pl g" using False by simp
        define s3 where "s3 = (upd_exec (upd_group g (\<lambda>x. x\<lparr>gp_core := gp_sound pl g \<or> \<not> can pl (Alloc (GpWork g))\<rparr>)) s2)
                     \<lparr>gp_work_ptr := (gp_work_ptr s2)(g := can pl (Alloc (GpWork g)))\<rparr>"
        have k: "mali_gp_create pl g s2 = Done (s3, False)" using yes ns by (simp add: gpe s3_def)
        have "half_created s {GroupObj g, GroupTimer g, MmuCore g, MmuWork g} s3"
          "\<not> pointers s3 g \<subseteq> {GroupObj g, GroupTimer g, MmuCore g, MmuWork g}"
          using ge by (auto simp: h s1_def s2_def s3_def objects_of_def pointers_def group_view_def populated_def upd_exec_def upd_group_def mali_group_is_virtual_def)
        from fc(2) [OF this] yes ns True ms \<open>gp\<close> show ?thesis unfolding run dg m by (simp add: k)
      qed
    next
      case gs: True
      define s3 where "s3 = (if gp then (upd_exec (upd_group g (\<lambda>x. x\<lparr>gp_core := True\<rparr>)) s2)\<lparr>gp_work_ptr := (gp_work_ptr s2)(g := True),
          live := live s2 \<union> {GpCore g, GpWork g}, mali_global_gp_core := Some g\<rparr> else s2)"
      let ?xs = "{GroupObj g, GroupTimer g, MmuCore g, MmuWork g} \<union> (if gp then {GpCore g, GpWork g} else {})"
      have k: "(if gp then mali_gp_create pl g s2 else Done (s2, True)) = Done (s3, True)"
        using gs by (auto simp: gpe s3_def gp_sound_def)
      have n3: "PpCore g \<notin> live s3" "PpWork g \<notin> live s3" "\<not> pp_core (groups (p_exec s3) g)"
        using new ge by (auto simp: s1_def s2_def s3_def objects_of_def upd_exec_def upd_group_def)
      have gl: "mali_global_pp_cores s3 = mali_global_pp_cores s" by (simp add: s3_def s2_def s1_def upd_exec_def)
      have ps: "pp_starts pl g s3 = pp_starts pl g s" by (simp add: pp_starts_def gl)
      note ppe = mali_pp_create_eq [OF n3, of pl, unfolded Let_def ps gl]
      show ?thesis
      proof (cases "pp \<longrightarrow> pp_starts pl g s \<and> pp_sound pl g")
        case False
        then have pp by simp
        show ?thesis
        proof (cases "pp_starts pl g s")
          case no: False
          have "half_created s ?xs s3" "pointers s3 g = ?xs"
            using ge by (auto simp: h s1_def s2_def s3_def objects_of_def pointers_def group_view_def populated_def upd_exec_def upd_group_def mali_group_is_virtual_def)
          from fc(1) [OF this] no gs ms \<open>pp\<close> show ?thesis unfolding run dg m by (auto simp: k ppe)
        next
          case yes: True
          then have ns: "\<not> pp_sound pl g" using False by simp
          define s4 where "s4 = (upd_exec (upd_group g (\<lambda>x. x\<lparr>pp_core := pp_sound pl g \<or> \<not> can pl (Alloc (PpWork g)),
                     pp_core_id := of_nat (length (mali_global_pp_cores s))\<rparr>)) s3)
                     \<lparr>pp_work_ptr := (pp_work_ptr s3)(g := can pl (Alloc (PpWork g)))\<rparr>"
          have q: "mali_pp_create pl g False s3 = Done (s4, False)" using yes ns by (simp add: ppe s4_def)
          have "half_created s ?xs s4" "\<not> pointers s4 g \<subseteq> ?xs"
            using ge by (auto simp: h s1_def s2_def s3_def s4_def objects_of_def pointers_def group_view_def populated_def upd_exec_def upd_group_def mali_group_is_virtual_def)
          from fc(2) [OF this] yes ns True ms gs \<open>pp\<close> show ?thesis unfolding run dg m by (simp add: k q)
        qed
      next
        case all: True
        have "created cache gp pp d s = (if pp then (upd_exec (upd_group g (\<lambda>x. x\<lparr>pp_core := True,
                     pp_core_id := of_nat (length (mali_global_pp_cores s))\<rparr>)) s3)
                     \<lparr>pp_work_ptr := (pp_work_ptr s3)(g := True), live := live s3 \<union> {PpCore g, PpWork g},
                      mali_global_pp_cores := mali_global_pp_cores s @ [g]\<rparr> else s3)"
          by (cases gp; cases pp) (simp_all add: created_def new_exec_def g_def [symmetric] e s3_def s2_def s1_def upd_exec_def Let_def insert_commute)
        moreover have "mali_create_group pl cache gp pp d s = Done (if pp then (upd_exec (upd_group g (\<lambda>x. x\<lparr>pp_core := True,
                     pp_core_id := of_nat (length (mali_global_pp_cores s))\<rparr>)) s3)
                     \<lparr>pp_work_ptr := (pp_work_ptr s3)(g := True), live := live s3 \<union> {PpCore g, PpWork g},
                      mali_global_pp_cores := mali_global_pp_cores s @ [g]\<rparr> else s3, Some g)"
          unfolding run m using all by (auto simp: k ppe pp_sound_def)
        ultimately show ?thesis using all gs ms True unfolding dg by (auto simp: g_def)
      qed
    qed
  qed
qed

section \<open>Ownership\<close>

text \<open>Between two operations the groups and the caches own all objects that are live.\<close>

definition owned :: "probe \<Rightarrow> bool" where
  "owned s \<longleftrightarrow> fresh s \<and> distinct (glob_groups (p_exec s)) \<and>
     (\<forall>g \<in> set (glob_groups (p_exec s)). \<not> mali_group_is_virtual (groups (p_exec s) g)) \<and>
     mali_global_l2s s = [0 ..< length (mali_global_l2s s)] \<and>
     live s = (\<Union>g \<in> set (glob_groups (p_exec s)). pointers s g) \<union> L2Core ` set (mali_global_l2s s)"

lemma owned_cong:
  assumes "live s' = live s" "next_gid s' = next_gid s" "mali_global_l2s s' = mali_global_l2s s" "pointers s' = pointers s"
    and "glob_groups (p_exec s') = glob_groups (p_exec s)" "groups (p_exec s') = groups (p_exec s)"
  shows "owned s' = owned s"
  unfolding owned_def fresh_def assms ..

lemma undone_owned:
  assumes "owned s" and u: "undone s s'"
  shows "owned s'"
proof -
  have o: "fresh s" "distinct (glob_groups (p_exec s))" "mali_global_l2s s = [0 ..< length (mali_global_l2s s)]"
    "\<And>g. g \<in> set (glob_groups (p_exec s)) \<Longrightarrow> \<not> mali_group_is_virtual (groups (p_exec s) g)"
    "live s = (\<Union>g \<in> set (glob_groups (p_exec s)). pointers s g) \<union> L2Core ` set (mali_global_l2s s)"
    using assms(1) unfolding owned_def by blast+
  have x: "live s' = live s" "glob_groups (p_exec s') = glob_groups (p_exec s)" "next_gid s \<le> next_gid s'"
    "mali_global_l2s s' = mali_global_l2s s" "\<And>k. k < next_gid s \<Longrightarrow> group_view s' k = group_view s k"
    using u by (simp_all add: undone_def)
  have "pointers s' k = pointers s k" "groups (p_exec s') k = groups (p_exec s) k" if "k \<in> set (glob_groups (p_exec s))" for k
    using x(5) [of k] o(1) that by (simp_all add: group_view_def pointers_def fresh_def)
  moreover have "fresh s'" using o(1) x by (auto simp: fresh_def intro: less_le_trans order_trans)
  ultimately show ?thesis using o x(1,2,4) by (simp add: owned_def)
qed

lemma new_exec_groups:
  assumes "length (glob_groups (p_exec s)) < MAX_NUMBER_OF_GROUPS" and "g = next_gid s"
  shows "glob_groups (new_exec cache gp pp d s) = glob_groups (p_exec s) @ [g]"
    "k \<noteq> g \<Longrightarrow> groups (new_exec cache gp pp d s) k = groups (p_exec s) k"
    "gp_core (groups (new_exec cache gp pp d s) g) = gp" "pp_core (groups (new_exec cache gp pp d s) g) = pp"
    "\<not> mali_group_is_virtual (groups (new_exec cache gp pp d s) g)"
  using assms
  by (auto simp: new_exec_def mali_group_create_def upd_group_def mali_group_is_virtual_def Let_def split: prod.split)

lemma created_parts:
  assumes n: "length (glob_groups (p_exec s)) < MAX_NUMBER_OF_GROUPS" and g: "g = next_gid s"
  shows "glob_groups (p_exec (created cache gp pp d s)) = glob_groups (p_exec s) @ [g]"
    "live (created cache gp pp d s) = live s \<union> pointers (created cache gp pp d s) g"
  using new_exec_groups [OF n g, where cache = cache and gp = gp and pp = pp and d = d]
  by (auto simp: pointers_def created_def g [symmetric] Let_def)

lemma created_owned:
  assumes o: "owned s" and n: "length (glob_groups (p_exec s)) < MAX_NUMBER_OF_GROUPS"
  shows "owned (created cache gp pp d s)"
proof -
  define g where "g = next_gid s"
  let ?s = "created cache gp pp d s"
  have f: "fresh s" using o by (simp add: owned_def)
  then have gn: "g \<notin> set (glob_groups (p_exec s))" "objects_of g \<inter> live s = {}" by (auto simp: fresh_def g_def)
  note ne = new_exec_groups [OF n g_def, where cache = cache and gp = gp and pp = pp and d = d]
  have p: "p_exec ?s = new_exec cache gp pp d s" "mali_global_l2s ?s = mali_global_l2s s" "next_gid ?s = g + 1"
    by (simp_all add: created_def g_def Let_def)
  have old: "pointers ?s k = pointers s k" if "k \<noteq> g" for k
    using ne(2) [OF that] that by (simp add: pointers_def created_def g_def [symmetric] Let_def)
  have new: "live ?s = live s \<union> pointers ?s g"
    using ne(3,4) by (auto simp: pointers_def created_def g_def [symmetric] Let_def)
  have sub: "pointers ?s g \<subseteq> objects_of g" by (auto simp: pointers_def objects_of_def)
  have "fresh ?s"
    unfolding fresh_def p(1,3) ne(1)
  proof (intro conjI allI impI ballI)
    fix k assume "g + 1 \<le> k"
    then have "objects_of k \<inter> live s = {}" "k \<noteq> g" using f by (auto simp: fresh_def g_def)
    moreover from this(2) have "objects_of k \<inter> objects_of g = {}" by (auto simp: objects_of_def)
    ultimately show "objects_of k \<inter> live ?s = {}" using new sub by blast
  next
    fix k assume "k \<in> set (glob_groups (p_exec s) @ [g])"
    then show "k < g + 1" using f by (auto simp: fresh_def g_def less_Suc_eq)
  qed
  moreover have "(\<Union>k \<in> set (glob_groups (p_exec s)). pointers ?s k) = (\<Union>k \<in> set (glob_groups (p_exec s)). pointers s k)"
    by (intro SUP_cong refl old) (use gn(1) in blast)
  moreover have "\<not> mali_group_is_virtual (groups (new_exec cache gp pp d s) k)" if "k \<in> set (glob_groups (p_exec s))" for k
  proof -
    have "k \<noteq> g" using that gn(1) by blast
    then show ?thesis using ne(2) [of k] that o by (simp add: owned_def)
  qed
  ultimately show ?thesis
    using o gn(1) ne(5) new by (auto simp: owned_def p ne(1))
qed

lemma glob_remove_set:
  assumes "distinct gs" and "g \<in> set gs"
  shows "set (glob_remove g gs) = set gs - {g}" "distinct (glob_remove g gs)" "length (glob_remove g gs) = length gs - 1"
proof -
  obtain i where i: "i < length gs" "gs ! i = g" using assms(2) by (auto simp: in_set_conv_nth)
  have "filter (\<lambda>j. gs ! j = g) [0 ..< length gs] = filter (\<lambda>j. j = i) [0 ..< length gs]"
    by (rule filter_cong) (use assms(1) i nth_eq_iff_index_eq in auto)
  also have "\<dots> = [i]"
  proof -
    have "[0 ..< length gs] = [0 ..< i] @ i # [Suc i ..< length gs]" using i(1) by (metis less_imp_le upt_add_eq_append upt_conv_Cons le_add_diff_inverse zero_le)
    then show ?thesis by simp
  qed
  finally have r: "glob_remove g gs = butlast (gs[i := last gs])" by (simp add: glob_remove_def)
  obtain us x where gs: "gs = us @ [x]" using i(1) by (metis length_0_conv not_less_zero rev_exhaust)
  have "set (glob_remove g gs) = set gs - {g} \<and> distinct (glob_remove g gs)"
  proof (cases "i = length us")
    case True
    then have "glob_remove g gs = us" "x = g" using r gs i by simp_all
    then show ?thesis using gs assms(1) by auto
  next
    case False
    then have iu: "i < length us" using i(1) gs by simp
    then have u: "glob_remove g gs = us[i := x]" using r gs by (simp add: list_update_append butlast_append)
    have ui: "us ! i = g" using i(2) gs iu by (simp add: nth_append)
    have "set (us[i := x]) = insert x (set us - {us ! i})"
      by (rule set_update_distinct) (use assms(1) gs iu in auto)
    moreover have "g \<noteq> x" "g \<in> set us" using assms(1) gs ui iu by auto
    ultimately have "set (us[i := x]) = set gs - {g}" unfolding gs ui set_append by auto
    moreover have "distinct (us[i := x])" using assms(1) gs by (intro distinct_list_update) auto
    ultimately show ?thesis by (simp only: u)
  qed
  then show "set (glob_remove g gs) = set gs - {g}" "distinct (glob_remove g gs)" by blast+
  show "length (glob_remove g gs) = length gs - 1" unfolding r by simp
qed

lemma delete_owned:
  assumes o: "owned s" and g: "g \<in> set (glob_groups (p_exec s))"
  shows "\<exists>s'. group_delete g s = Done s' \<and> owned s' \<and> glob_groups (p_exec s') = glob_remove g (glob_groups (p_exec s)) \<and>
    mali_global_l2s s' = mali_global_l2s s \<and> populated (p_exec s') = populated (p_exec s)"
proof -
  have v: "\<not> mali_group_is_virtual (groups (p_exec s) g)" using o g by (simp add: owned_def)
  have lv: "live s = (\<Union>g \<in> set (glob_groups (p_exec s)). pointers s g) \<union> L2Core ` set (mali_global_l2s s)"
    using o by (simp add: owned_def)
  then have "pointers s g \<subseteq> live s" using g by blast
  then obtain s' where s': "group_delete g s = Done s'" "live s' = live s - pointers s g" "same_groups s s'"
      "glob_groups (p_exec s') = glob_remove g (glob_groups (p_exec s))"
    using group_delete_frees [OF v] by (auto simp: frees_def)
  have d: "distinct (glob_groups (p_exec s))" using o by (simp add: owned_def)
  note gr = glob_remove_set [OF d g]
  have ps: "pointers s' = pointers s" by (rule pointers_same [OF s'(3)])
  have dis: "pointers s k \<inter> pointers s g = {}" if "k \<noteq> g" for k using that by (auto simp: pointers_def)
  have nl: "L2Core l \<notin> pointers s g" for l by (auto simp: pointers_def)
  have "live s' = (\<Union>k \<in> set (glob_groups (p_exec s)) - {g}. pointers s k) \<union> L2Core ` set (mali_global_l2s s)"
  proof -
    have "(\<Union>k \<in> set (glob_groups (p_exec s)). pointers s k) =
        pointers s g \<union> (\<Union>k \<in> set (glob_groups (p_exec s)) - {g}. pointers s k)" using g by blast
    moreover have "pointers s g \<inter> (\<Union>k \<in> set (glob_groups (p_exec s)) - {g}. pointers s k) = {}" using dis by blast
    moreover have "pointers s g \<inter> L2Core ` set (mali_global_l2s s) = {}" using nl by blast
    ultimately show ?thesis unfolding s'(2) lv by blast
  qed
  moreover have sg: "populated (p_exec s') = populated (p_exec s)" "mali_global_l2s s' = mali_global_l2s s" "next_gid s' = next_gid s" "groups (p_exec s') = groups (p_exec s)"
    using s'(3) by (simp_all add: same_groups_def)
  moreover have "fresh s'"
  proof -
    have "fresh s" "live s' \<subseteq> live s" using o s'(2) by (auto simp: owned_def)
    then show ?thesis unfolding fresh_def sg(3) s'(4) gr(1) by blast
  qed
  ultimately have "owned s'" using o gr by (simp add: owned_def s'(4) ps)
  then show ?thesis using s' sg by blast
qed

text \<open>All groups can be deleted, and then only the caches are left.\<close>

lemma delete_groups_ok:
  assumes "owned s" and "length (glob_groups (p_exec s)) \<le> n"
  shows "\<exists>s'. delete_groups n s = Done s' \<and> owned s' \<and> mali_global_l2s s' = mali_global_l2s s \<and> glob_groups (p_exec s') = []"
  using assms
proof (induction n arbitrary: s)
  case 0
  then show ?case by (auto simp: delete_groups.simps owned_def)
next
  case (Suc n)
  show ?case
  proof (cases "glob_groups (p_exec s)")
    case Nil
    then show ?thesis using Suc.prems by (auto simp: delete_groups.simps owned_def)
  next
    case (Cons g gs)
    then have g: "g \<in> set (glob_groups (p_exec s))" by simp
    from delete_owned [OF Suc.prems(1) g] obtain s1 where s1: "group_delete g s = Done s1" "owned s1"
        "glob_groups (p_exec s1) = glob_remove g (glob_groups (p_exec s))" "mali_global_l2s s1 = mali_global_l2s s"
      by blast
    have d: "distinct (glob_groups (p_exec s))" using Suc.prems(1) by (simp add: owned_def)
    have "length (glob_groups (p_exec s1)) \<le> n" using glob_remove_set(3) [OF d g] Suc.prems(2) by (simp add: s1(3))
    from Suc.IH [OF s1(2) this] show ?thesis using Cons by (simp add: delete_groups.simps [of "Suc n"] s1)
  qed
qed

lemma delete_all_ok:
  assumes "owned s" and "distinct gs" "set gs \<subseteq> set (glob_groups (p_exec s))"
  shows "\<exists>s'. delete_all gs s = Done s' \<and> owned s' \<and> set (glob_groups (p_exec s')) = set (glob_groups (p_exec s)) - set gs \<and>
    populated (p_exec s') = populated (p_exec s)"
  using assms
proof (induction gs arbitrary: s)
  case (Cons g gs)
  then have g: "g \<in> set (glob_groups (p_exec s))" by simp
  from delete_owned [OF Cons.prems(1) g] obtain s1 where s1: "group_delete g s = Done s1" "owned s1"
      "glob_groups (p_exec s1) = glob_remove g (glob_groups (p_exec s))" "populated (p_exec s1) = populated (p_exec s)"
    by blast
  have "distinct (glob_groups (p_exec s))" using Cons.prems(1) by (simp add: owned_def)
  from glob_remove_set(1) [OF this g] have r: "set (glob_groups (p_exec s1)) = set (glob_groups (p_exec s)) - {g}" by (simp add: s1(3))
  have "set gs \<subseteq> set (glob_groups (p_exec s1))" "distinct gs" using Cons.prems(2,3) r by auto
  from Cons.IH [OF s1(2) this(2,1)] show ?case using s1 r by auto
qed simp

text \<open>What has been given to the executor, and then the rest.\<close>

lemma depopulate_ok:
  assumes o: "owned s" and e: "gp_group (p_exec s) = gp" "virtual_group (p_exec s) = None"
    and l: "distinct (group_list_idle (p_exec s) @ group_list_inactive (p_exec s) @ group_list_disabled (p_exec s))"
    "set (group_list_idle (p_exec s) @ group_list_inactive (p_exec s) @ group_list_disabled (p_exec s)) \<subseteq> set (glob_groups (p_exec s))"
    and g: "\<And>g. gp = Some g \<Longrightarrow> g \<in> set (glob_groups (p_exec s)) -
      set (group_list_idle (p_exec s) @ group_list_inactive (p_exec s) @ group_list_disabled (p_exec s))"
  shows "\<exists>s'. mali_executor_depopulate s = Done s' \<and> owned s'"
proof -
  let ?l = "\<lambda>s. group_list_idle (p_exec s) @ group_list_inactive (p_exec s) @ group_list_disabled (p_exec s)"
  have "\<exists>s1. (case gp_group (p_exec s) of
         Some g \<Rightarrow> bind_outcome (group_delete g s) (\<lambda>s1. Done (upd_exec (\<lambda>e. e\<lparr>gp_group := None\<rparr>) s1))
       | None \<Rightarrow> Done s) = Done s1 \<and> owned s1 \<and> set (?l s) \<subseteq> set (glob_groups (p_exec s1)) \<and>
      (group_list_idle (p_exec s1), group_list_inactive (p_exec s1), group_list_disabled (p_exec s1), virtual_group (p_exec s1)) =
      (group_list_idle (p_exec s), group_list_inactive (p_exec s), group_list_disabled (p_exec s), None)"
  proof (cases gp)
    case None
    then show ?thesis using o e l(2) by simp
  next
    case (Some g)
    have gg: "g \<in> set (glob_groups (p_exec s))" "g \<notin> set (?l s)" using assms(6) [OF Some] by auto
    from delete_owned [OF o gg(1)] obtain s1 where s1: "group_delete g s = Done s1" "owned s1"
        "glob_groups (p_exec s1) = glob_remove g (glob_groups (p_exec s))" "populated (p_exec s1) = populated (p_exec s)" by blast
    let ?s = "upd_exec (\<lambda>e. e\<lparr>gp_group := None\<rparr>) s1"
    have d: "distinct (glob_groups (p_exec s))" using o by (simp add: owned_def)
    have "pointers ?s = pointers s1" by (simp add: pointers_def upd_exec_def fun_eq_iff)
    then have "owned ?s = owned s1" by (intro owned_cong) (simp_all add: upd_exec_def)
    moreover have "set (?l s) \<subseteq> set (glob_groups (p_exec ?s))"
      using l(2) gg(2) glob_remove_set(1) [OF d gg(1)] by (auto simp: s1(3) upd_exec_def)
    ultimately show ?thesis using s1 e Some by (simp add: populated_def upd_exec_def del: Un_iff)
  qed
  then obtain s1 where s1: "(case gp_group (p_exec s) of
         Some g \<Rightarrow> bind_outcome (group_delete g s) (\<lambda>s1. Done (upd_exec (\<lambda>e. e\<lparr>gp_group := None\<rparr>) s1))
       | None \<Rightarrow> Done s) = Done s1" "owned s1" "set (?l s) \<subseteq> set (glob_groups (p_exec s1))"
      "group_list_idle (p_exec s1) = group_list_idle (p_exec s)" "group_list_inactive (p_exec s1) = group_list_inactive (p_exec s)"
      "group_list_disabled (p_exec s1) = group_list_disabled (p_exec s)" "virtual_group (p_exec s1) = None" by auto
  obtain s2 where s2: "delete_all (group_list_idle (p_exec s1)) s1 = Done s2" "owned s2"
      "set (glob_groups (p_exec s2)) = set (glob_groups (p_exec s1)) - set (group_list_idle (p_exec s1))"
      "populated (p_exec s2) = populated (p_exec s1)"
    using delete_all_ok [OF s1(2), of "group_list_idle (p_exec s1)"] s1(3,4) l(1) by auto
  have p2: "group_list_inactive (p_exec s2) = group_list_inactive (p_exec s)"
    using s2(4) s1(5) by (simp add: populated_def)
  have "set (group_list_inactive (p_exec s2)) \<subseteq> set (glob_groups (p_exec s2))" using s2(3) s1(3,4) l(1) by (auto simp: p2)
  moreover have "distinct (group_list_inactive (p_exec s2))" using l(1) by (simp add: p2)
  ultimately obtain s3 where s3: "delete_all (group_list_inactive (p_exec s2)) s2 = Done s3" "owned s3"
      "set (glob_groups (p_exec s3)) = set (glob_groups (p_exec s2)) - set (group_list_inactive (p_exec s2))"
      "populated (p_exec s3) = populated (p_exec s2)"
    using delete_all_ok [OF s2(2)] by blast
  have p3: "group_list_disabled (p_exec s3) = group_list_disabled (p_exec s)"
    using s3(4) s2(4) s1(6) by (simp add: populated_def)
  have "set (group_list_disabled (p_exec s3)) \<subseteq> set (glob_groups (p_exec s3))"
    using s3(3) s2(3) s1(3,4) l(1) by (auto simp: p3 p2)
  moreover have "distinct (group_list_disabled (p_exec s3))" using l(1) by (simp add: p3)
  ultimately obtain s4 where "delete_all (group_list_disabled (p_exec s3)) s3 = Done s4" "owned s4"
    using delete_all_ok [OF s3(2)] by blast
  then show ?thesis using s1(1,7) s2(1) s3(1) by (simp add: mali_executor_depopulate_def)
qed

lemma delete_l2_caches_ok:
  assumes "distinct (mali_global_l2s s)" "live s = L2Core ` set (mali_global_l2s s)" and "length (mali_global_l2s s) \<le> n"
  shows "\<exists>s'. delete_l2_caches n s = Done s' \<and> live s' = {}"
  using assms
proof (induction n arbitrary: s)
  case 0
  then show ?case by (simp add: delete_l2_caches.simps mali_l2_cache_core_get_glob_l2_core_def)
next
  case (Suc n)
  show ?case
  proof (cases "mali_global_l2s s")
    case Nil
    then show ?thesis using Suc.prems by (simp add: delete_l2_caches.simps mali_l2_cache_core_get_glob_l2_core_def)
  next
    case (Cons l ls)
    then have l: "l \<in> set (mali_global_l2s s)" by simp
    define s1 where "s1 = s\<lparr>live := live s - {L2Core l}, mali_global_l2s := glob_remove l (mali_global_l2s s)\<rparr>"
    have d: "mali_l2_cache_delete l s = Done s1" using Suc.prems(2) l by (simp add: mali_l2_cache_delete_def free_def s1_def)
    note r = glob_remove_set [OF Suc.prems(1) l]
    have "distinct (mali_global_l2s s1)" "live s1 = L2Core ` set (mali_global_l2s s1)" "length (mali_global_l2s s1) \<le> n"
      using r Suc.prems by (auto simp: s1_def)
    from Suc.IH [OF this] show ?thesis
      using Cons d by (simp add: delete_l2_caches.simps [of "Suc n"] mali_l2_cache_core_get_glob_l2_core_def)
  qed
qed

lemma release_after_depopulate:
  assumes "mali_executor_depopulate s = Done s1" and "owned s1"
  shows "\<exists>s'. release_hardware s = Done s' \<and> live s' = {}"
proof -
  obtain s2 where s2: "delete_groups (length (glob_groups (p_exec s1))) s1 = Done s2" "owned s2"
      "mali_global_l2s s2 = mali_global_l2s s1" "glob_groups (p_exec s2) = []"
    using delete_groups_ok [OF assms(2) order_refl] by blast
  have "distinct (mali_global_l2s s2)" "live s2 = L2Core ` set (mali_global_l2s s2)"
    using s2(2,4) unfolding owned_def by (metis distinct_upt, simp)
  from delete_l2_caches_ok [OF this order_refl] show ?thesis
    using assms(1) s2(1) by (simp add: release_hardware_def mali_delete_groups_def mali_delete_l2_cache_cores_def)
qed

end
