(* ===== verification/Exec_Boot.thy ===== *)
theory Exec_Boot
  imports Exec_Suspend Probe_Objects
begin

text \<open>
  The invariant of the executor holds when it has been populated with the groups of a platform
  without virtual group: what the probing of the hardware leaves behind.
\<close>

section \<open>Registering with the power manager\<close>

lemma register_members:
  assumes "pm_ok s"
  shows "mali_pm_register_group i g s = (s', d) \<Longrightarrow> exists_domain s' k = exists_domain s k \<and>
      group_list (domain s' k) = (if k = d then group_list (domain s k) @ [g] else group_list (domain s k))"
    "mali_pm_register_l2_cache i l s = (s', d) \<Longrightarrow> exists_domain s' k = exists_domain s k \<and>
      group_list (domain s' k) = group_list (domain s k)"
proof -
  have e: "pm_domains s DOMAIN_DUMMY \<noteq> None" using assms by (simp add: pm_ok_def domains_ok_def)
  have x: "exists_domain (upd_domain d f s) k = exists_domain s k" if "pm_domains s d \<noteq> None" for d f
    using that by (simp add: exists_domain_def del: not_None_eq)
  have c: "exists_domain (upd_domain d f (s\<lparr>domain_config := c\<rparr>)) k = exists_domain s k" if "pm_domains s d \<noteq> None" for d f c
    using that by (simp add: exists_domain_def upd_domain_def)
  show "exists_domain s' k = exists_domain s k \<and>
      group_list (domain s' k) = (if k = d then group_list (domain s k) @ [g] else group_list (domain s k))"
    if "mali_pm_register_group i g s = (s', d)"
    using that registered_domain [of _ s] e x c
    by (auto simp: mali_pm_register_group_def mali_pm_domain_add_group_def Let_def split: option.splits)
  show "exists_domain s' k = exists_domain s k \<and> group_list (domain s' k) = group_list (domain s k)"
    if "mali_pm_register_l2_cache i l s = (s', d)"
    using that registered_domain [of _ s] e x c
    by (auto simp: mali_pm_register_l2_cache_def mali_pm_domain_add_l2_cache_def Let_def split: option.splits)
qed

section \<open>Groups that have been created and not populated\<close>

definition unused_pm :: "pm \<Rightarrow> bool" where
  "unused_pm p \<longleftrightarrow> pm_ok p \<and> settled p \<and> (\<forall>d. \<not> used p d \<and> \<not> powered p d)"

lemma unused_register:
  assumes "unused_pm p" and "mali_pm_register_group i g p = (p', d) \<or> mali_pm_register_l2_cache i l p = (p', d)"
  shows "unused_pm p' \<and> exists_domain p' d"
  using register_ok [of p i g p' d l] assms by (simp add: unused_pm_def exists_domain_def del: not_None_eq)

definition new_group :: "exec \<Rightarrow> gid \<Rightarrow> bool" where
  "new_group e g \<longleftrightarrow> gst e g = GROUP_INACTIVE \<and> \<not> gpow e g \<and> busy e g = (False, None, None) \<and>
     parent_group (groups e g) = None \<and> \<not> dlbu_core (groups e g) \<and> gp_core (groups e g) \<noteq> pp_core (groups e g) \<and>
     l2_cache_core (groups e g) ! 0 \<noteq> None"

definition no_lists :: "exec \<Rightarrow> bool" where
  "no_lists e \<longleftrightarrow> (\<forall>l. list_of l e = [] \<and> count_of l e = 0) \<and> virtual_group e = None \<and>
     virtual_group_state e = EXEC_STATE_NOT_PRESENT \<and> gp_group e = None \<and> num_physical_pp_cores_total e = 0"

definition unpopulated :: "exec \<Rightarrow> bool" where
  "unpopulated e \<longleftrightarrow> unused_pm (e_pm e) \<and> registered e \<and> distinct (glob_groups e) \<and>
     length (glob_groups e) \<le> MAX_NUMBER_OF_GROUPS \<and> (\<forall>l. exists_domain (e_pm e) (l2_pm_domain e l)) \<and>
     (\<forall>g \<in> set (glob_groups e). new_group e g) \<and> no_lists e"

lemma unpopulated_boot:
  assumes "config_ok c" and "mali_pm_create_pm_domains ok (pm_boot c active) = (p, ERR_OK)"
  shows "unpopulated (executor_boot \<sigma> p secure pmu)"
proof -
  note b = boot_ok [OF assms]
  have u: "unused_pm p" using b by (simp add: unused_pm_def)
  then have "exists_domain p DOMAIN_DUMMY" by (simp add: unused_pm_def pm_ok_def domains_ok_def exists_domain_def)
  moreover have "group_list (domain p d) = []" if x: "exists_domain p d" for d
  proof -
    have "only_new p"
    proof -
      have "config_ok (domain_config (pm_boot c active))" "only_new (pm_boot c active)" using assms(1) by (simp_all add: pm_boot_def only_new_def)
      moreover have "set [0 ..< MAX_DOMAINS] \<subseteq> {..< MAX_DOMAINS}" by auto
      ultimately show ?thesis
        using PM_Reach.created [of "pm_boot c active" ok "[0 ..< MAX_DOMAINS]" p ERR_OK] assms(2) by (simp add: mali_pm_create_pm_domains_def)
    qed
    moreover obtain y where y: "pm_domains p d = Some y" using x by (auto simp: exists_domain_def)
    ultimately have "y = new_domain d" unfolding only_new_def by blast
    then show ?thesis using y by (simp add: domain_def new_domain_def)
  qed
  moreover have "no_lists (executor_boot \<sigma> p secure pmu)"
    by (simp add: no_lists_def executor_boot_def) (intro allI; case_tac l; simp)
  ultimately show ?thesis
    using u by (auto simp: unpopulated_def executor_boot_def registered_def)
qed

lemma unpopulated_l2:
  assumes e: "unpopulated e" and r: "mali_pm_register_l2_cache i l (e_pm e) = (p, d)"
  shows "unpopulated (e\<lparr>e_pm := p, l2_pm_domain := (l2_pm_domain e)(l := d)\<rparr>)" (is "unpopulated ?e")
proof -
  have pm: "pm_ok (e_pm e)" and u: "unused_pm (e_pm e)" using e by (simp_all add: unpopulated_def unused_pm_def)
  have k: "exists_domain p k = exists_domain (e_pm e) k" "group_list (domain p k) = group_list (domain (e_pm e) k)" for k
    using register_members(2) [OF pm r] by blast+
  have n: "unused_pm p" "exists_domain p d" using unused_register [OF u] r by blast+
  have "list_of x ?e = list_of x e" "count_of x ?e = count_of x e" for x by (cases x; simp)+
  then have "no_lists ?e" using e by (simp add: unpopulated_def no_lists_def)
  moreover have "registered ?e"
    using e n(2) by (simp add: unpopulated_def registered_def own_def l2_domain_def k)
  moreover have "new_group ?e g = new_group e g" for g by (simp add: new_group_def gst_def gpow_def busy_def)
  ultimately show ?thesis using e n by (simp add: unpopulated_def k)
qed

text \<open>A further group behind a cache.\<close>

lemma unpopulated_group:
  assumes e: "unpopulated (p_exec s)" and g: "g = next_gid s" "g \<notin> set (glob_groups (p_exec s))"
    and n: "length (glob_groups (p_exec s)) < MAX_NUMBER_OF_GROUPS" and gp: "gp \<noteq> pp"
  shows "unpopulated (new_exec (Some l) gp pp i s)"
    "glob_groups (new_exec (Some l) gp pp i s) = glob_groups (p_exec s) @ [g]"
    "gp_core (groups (new_exec (Some l) gp pp i s) k) = (if k = g then gp else gp_core (groups (p_exec s) k))"
proof -
  let ?e = "p_exec s"
  let ?e' = "new_exec (Some l) gp pp i s"
  obtain p d where r: "mali_pm_register_group i g (e_pm ?e) = (p, d)" by fastforce
  have pm: "pm_ok (e_pm ?e)" and u: "unused_pm (e_pm ?e)" using e by (simp_all add: unpopulated_def unused_pm_def)
  have k: "exists_domain p k = exists_domain (e_pm ?e) k"
    "group_list (domain p k) = (if k = d then group_list (domain (e_pm ?e) k) @ [g] else group_list (domain (e_pm ?e) k))" for k
    using register_members(1) [OF pm r] by blast+
  have new: "unused_pm p" "exists_domain p d" using unused_register [OF u] r by blast+
  have at: "groups ?e' k = (if k = g then groups ?e' g else groups ?e k)" for k
    using n r by (auto simp: new_exec_def mali_group_create_def upd_group_def Let_def g(1) [symmetric])
  have gg: "grp_pm_domain (groups ?e' g) = d" "l2_cache_core (groups ?e' g) = [Some l, None]" "gp_core (groups ?e' g) = gp"
    "pp_core (groups ?e' g) = pp" "new_group ?e' g"
    using n r gp by (auto simp: new_exec_def mali_group_create_def upd_group_def Let_def g(1) [symmetric] new_group_def gst_def gpow_def busy_def)
  have f: "e_pm ?e' = p" "glob_groups ?e' = glob_groups ?e @ [g]" "l2_pm_domain ?e' = l2_pm_domain ?e"
    using n r by (auto simp: new_exec_def mali_group_create_def upd_group_def Let_def g(1) [symmetric])
  show "glob_groups ?e' = glob_groups ?e @ [g]" by (rule f)
  show "gp_core (groups ?e' k) = (if k = g then gp else gp_core (groups ?e k))" using at [of k] gg(3) by simp
  have "list_of x ?e' = list_of x ?e \<and> count_of x ?e' = count_of x ?e" for x
    using n r by (cases x) (auto simp: new_exec_def mali_group_create_def upd_group_def Let_def g(1) [symmetric])
  moreover have "virtual_group ?e' = virtual_group ?e" "virtual_group_state ?e' = virtual_group_state ?e"
    "gp_group ?e' = gp_group ?e" "num_physical_pp_cores_total ?e' = num_physical_pp_cores_total ?e"
    using n r by (auto simp: new_exec_def mali_group_create_def upd_group_def Let_def g(1) [symmetric])
  ultimately have "no_lists ?e'" using e by (simp add: unpopulated_def no_lists_def)
  moreover have "registered ?e'"
  proof -
    have o: "own ?e' k = (if k = g then d else own ?e k)" "l2_domain ?e' k = (if k = g then l2_pm_domain ?e l else l2_domain ?e k)" for k
      using at [of k] gg by (auto simp: own_def l2_domain_def f)
    have "registered ?e" "exists_domain (e_pm ?e) (l2_pm_domain ?e l)" using e by (simp_all add: unpopulated_def)
    then show ?thesis
      using new(2) g(2) unfolding registered_def f(1,2) o k by auto
  qed
  moreover have "new_group ?e' k" if "k \<in> set (glob_groups ?e)" for k
  proof -
    have "k \<noteq> g" using that g(2) by blast
    then have "groups ?e' k = groups ?e k" using at [of k] by simp
    moreover have "new_group ?e k" using e that by (simp add: unpopulated_def)
    ultimately show ?thesis by (simp add: new_group_def gst_def gpow_def busy_def)
  qed
  ultimately show "unpopulated ?e'"
    using e new gg(5) g(2) n by (auto simp: unpopulated_def f k)
qed

section \<open>Populating\<close>

lemma populate_physical_eq:
  assumes "\<forall>g \<in> set gs. \<not> mali_group_is_virtual (groups e g) \<and> gp_core (groups e g) \<noteq> pp_core (groups e g)" and "virtual_group e = None"
  shows "populate_physical gs e = e\<lparr>
      group_list_inactive := rev (filter (\<lambda>g. pp_core (groups e g)) gs) @ group_list_inactive e,
      group_list_inactive_count := group_list_inactive_count e + of_nat (length (filter (\<lambda>g. pp_core (groups e g)) gs)),
      num_physical_pp_cores_total := num_physical_pp_cores_total e + of_nat (length (filter (\<lambda>g. pp_core (groups e g)) gs)),
      gp_group := (case rev (filter (\<lambda>g. gp_core (groups e g)) gs) of [] \<Rightarrow> gp_group e | g # _ \<Rightarrow> Some g),
      gp_group_state := (if filter (\<lambda>g. gp_core (groups e g)) gs = [] then gp_group_state e else EXEC_STATE_INACTIVE)\<rparr>"
  using assms
proof (induction gs arbitrary: e)
  case (Cons g gs)
  show ?case
  proof (cases "pp_core (groups e g)")
    case True
    then show ?thesis
      using Cons.prems Cons.IH [of "(mali_executor_set_state_pp_physical g Inactive e)\<lparr>num_physical_pp_cores_total := num_physical_pp_cores_total e + 1\<rparr>"]
      by (simp add: mali_executor_set_state_pp_physical_def Let_def add.assoc cong: if_cong list.case_cong)
  next
    case False
    then show ?thesis
      using Cons.prems Cons.IH [of "e\<lparr>gp_group := Some g, gp_group_state := EXEC_STATE_INACTIVE\<rparr>"]
      by (auto simp: Let_def split: list.split)
  qed
qed simp

lemma populate_eq:
  assumes e: "unpopulated e" and gp: "filter (\<lambda>g. gp_core (groups e g)) (glob_groups e) = [g0]"
    and pps: "pps = filter (\<lambda>g. pp_core (groups e g)) (glob_groups e)"
  shows "mali_executor_populate e = e\<lparr>group_list_inactive := rev pps, group_list_inactive_count := of_nat (length pps),
      num_physical_pp_cores_total := of_nat (length pps), gp_group := Some g0, gp_group_state := EXEC_STATE_INACTIVE,
      num_physical_pp_cores_enabled := of_nat (length pps)\<rparr>"
proof -
  have new: "\<And>g. g \<in> set (glob_groups e) \<Longrightarrow> new_group e g" and nl: "no_lists e" using e by (simp_all add: unpopulated_def)
  have v: "\<forall>g \<in> set (glob_groups e). \<not> mali_group_is_virtual (groups e g) \<and> gp_core (groups e g) \<noteq> pp_core (groups e g)"
    using new by (simp add: new_group_def mali_group_is_virtual_def)
  have nv: "virtual_group e = None" using nl by (simp add: no_lists_def)
  have l0: "list_of l e = []" "count_of l e = 0" for l using nl by (simp_all add: no_lists_def)
  have nf: "filter (\<lambda>g. mali_group_is_virtual (groups e g)) (glob_groups e) = []" using v by (auto simp: filter_empty_conv)
  show ?thesis
    using nl l0 [of Inactive, simplified] unfolding pps
    by (simp add: mali_executor_populate_def nf populate_physical_eq [OF v nv] gp no_lists_def)
qed

lemma populate_ok:
  assumes e: "unpopulated e" and gp: "filter (\<lambda>g. gp_core (groups e g)) (glob_groups e) = [g0]"
    and c: "coherent (mali_executor_populate e)" and e': "e' = mali_executor_populate e"
  shows "exec_ok Steady {} e'"
proof -
  let ?pps = "filter (\<lambda>g. pp_core (groups e g)) (glob_groups e)"
  have new: "\<And>g. g \<in> set (glob_groups e) \<Longrightarrow> new_group e g" and nl: "no_lists e" using e by (simp_all add: unpopulated_def)
  have v: "\<forall>g \<in> set (glob_groups e). \<not> mali_group_is_virtual (groups e g) \<and> gp_core (groups e g) \<noteq> pp_core (groups e g)"
    using new by (simp add: new_group_def mali_group_is_virtual_def)
  have nv: "virtual_group e = None" using nl by (simp add: no_lists_def)
  have l0: "list_of l e = []" "count_of l e = 0" for l using nl by (simp_all add: no_lists_def)
  note l00 = l0 [of Inactive, simplified] l0 [of Idle, simplified] l0 [of Working, simplified] l0 [of Disabled, simplified]
  have eq: "e' = e\<lparr>group_list_inactive := rev ?pps, group_list_inactive_count := of_nat (length ?pps),
      num_physical_pp_cores_total := of_nat (length ?pps), gp_group := Some g0, gp_group_state := EXEC_STATE_INACTIVE,
      num_physical_pp_cores_enabled := of_nat (length ?pps)\<rparr>"
    unfolding e' by (rule populate_eq [OF e gp refl])
  have g0: "g0 \<in> set (glob_groups e)" "gp_core (groups e g0)" using gp by (auto simp: filter_eq_Cons_iff)
  have one: "gp_core (groups e g) \<longleftrightarrow> g = g0" if "g \<in> set (glob_groups e)" for g
  proof -
    have "g \<in> set (filter (\<lambda>g. gp_core (groups e g)) (glob_groups e)) \<longleftrightarrow> g = g0" unfolding gp by simp
    then show ?thesis using that by simp
  qed
  have pp: "set ?pps = pp_groups e'" using v one by (auto simp: eq pp_groups_def)
  have len: "length ?pps \<le> 10"
    using e order_trans [OF length_filter_le [of "\<lambda>g. pp_core (groups e g)" "glob_groups e"]]
    by (simp add: unpopulated_def MAX_NUMBER_OF_GROUPS_def)
  then have cnt: "unat (of_nat (length ?pps) :: u32) = length ?pps" by (simp add: unat_of_nat)
  have d: "distinct (glob_groups e)" using e by (simp add: unpopulated_def)
  have ls: "list_of l e' = (if l = Inactive then rev ?pps else [])" "count_of l e' = (if l = Inactive then of_nat (length ?pps) else 0)" for l
    using l00 by (cases l; simp add: eq)+
  have lo: "lists_ok e'"
  proof -
    have "(\<Union>l. set (list_of l e')) = pp_groups e'" unfolding ls using pp by auto
    moreover have "\<exists>x \<in> set (glob_groups e'). gp_group e' = Some x" using g0 by (simp add: eq)
    moreover have "gp_group_state e' \<in> range state_of" by (simp add: eq) (metis rangeI state_of.simps(2))
    moreover have "length (glob_groups e') \<le> MAX_NUMBER_OF_GROUPS" using e by (simp add: eq unpopulated_def)
    moreover have "set (list_of l e') \<inter> set (list_of l' e') = {}" if "l \<noteq> l'" for l l' using that by (auto simp: ls)
    ultimately show ?thesis using d cnt by (simp add: lists_ok_def) (simp add: ls)
  qed
  have pl: "place e' g = EXEC_STATE_INACTIVE" if "g \<in> set (glob_groups e)" for g
  proof (cases "g = g0")
    case True
    then show ?thesis by (simp add: place_def eq)
  next
    case False
    then have "g \<in> set (list_of Inactive e')" using that pp g0 by (simp add: ls) (auto simp: eq pp_groups_def)
    then show ?thesis using place_iff [OF lo, of g Inactive] by simp
  qed
  have views: "gst e' = gst e" "gpow e' = gpow e" "busy e' = busy e" "e_pm e' = e_pm e" "groups e' = groups e" "glob_groups e' = glob_groups e"
    "own e' = own e" "l2_domain e' = l2_domain e"
    by (simp_all add: eq gst_def gpow_def busy_def own_def l2_domain_def fun_eq_iff)
  have "registered e'" using e by (simp add: unpopulated_def registered_def views)
  moreover have "shape_ok e'"
    using c d new v one nl by (auto simp: shape_ok_def e' [symmetric] physical_def new_group_def views) (auto simp: eq no_lists_def)
  moreover have "enabled_ok e'"
  proof -
    have "{g \<in> pp_groups e'. place e' g \<noteq> EXEC_STATE_DISABLED} = set ?pps" unfolding pp [symmetric] using pl by auto
    moreover have "card (set ?pps) = length ?pps" by (rule distinct_card) (simp add: d)
    ultimately show ?thesis using cnt by (simp add: enabled_ok_def) (simp add: eq)
  qed
  moreover have un: "unused_pm (e_pm e')" using e by (simp add: unpopulated_def views)
  moreover have "refs_exact e'"
  proof -
    have "uses e' d = 0" for d using new by (simp add: uses_def views new_group_def)
    moreover have "use_count (domain (e_pm e') d) = 0" if "exists_domain (e_pm e') d" for d
    proof -
      have "\<not> used (e_pm e') d" using un by (simp add: unused_pm_def)
      then show ?thesis using that by (auto simp: used_def exists_domain_def)
    qed
    ultimately show ?thesis by (simp add: refs_exact_def)
  qed
  moreover have "group_ok {} e' g \<and> group_power_ok Steady e' g" if "g \<in> set (glob_groups e)" for g
    using new [OF that] pl [OF that] un by (simp add: group_ok_def group_power_ok_def views new_group_def running_def unused_pm_def)
  ultimately show ?thesis using lo by (simp add: exec_ok_def unused_pm_def views)
qed

section \<open>Probing a Mali-400\<close>

text \<open>The groups so far: one with the geometry processor, the others with a pixel processor.\<close>

definition probing :: "gid list \<Rightarrow> probe \<Rightarrow> bool" where
  "probing gps s \<longleftrightarrow> unpopulated (p_exec s) \<and> owned s \<and>
     filter (\<lambda>g. gp_core (groups (p_exec s) g)) (glob_groups (p_exec s)) = gps"

lemma create_group_probing:
  assumes p: "probing gps s" and c: "mali_create_group pl (Some l) gp pp d s = Done (s', Some g)" and gp: "gp \<noteq> pp"
  shows "probing (gps @ (if gp then [g] else [])) s'" "mali_global_l2s s' = mali_global_l2s s"
proof -
  have u: "unpopulated (p_exec s)" and o: "owned s" and f: "fresh s" using p by (simp_all add: probing_def owned_def)
  have cr: "s' = created (Some l) gp pp d s" "g = next_gid s" "group_complete pl gp pp s"
    using mali_create_group_cases [OF f, of pl gp pp "Some l" d] c by (auto split: if_splits)
  have n: "length (glob_groups (p_exec s)) < MAX_NUMBER_OF_GROUPS"
    using cr(3) by (simp add: group_complete_def group_starts_def Let_def)
  have gn: "g \<notin> set (glob_groups (p_exec s))" using f by (auto simp: fresh_def cr(2))
  have e: "p_exec s' = new_exec (Some l) gp pp d s" by (simp add: cr(1) created_def Let_def)
  note k = unpopulated_group [OF u cr(2) gn n gp, of l d]
  have "filter (\<lambda>h. gp_core (groups (p_exec s') h)) (glob_groups (p_exec s)) = gps"
  proof -
    have "filter (\<lambda>h. gp_core (groups (p_exec s') h)) (glob_groups (p_exec s)) =
        filter (\<lambda>h. gp_core (groups (p_exec s) h)) (glob_groups (p_exec s))"
      unfolding e k(3) by (rule filter_cong) (use gn in auto)
    then show ?thesis using p by (simp add: probing_def)
  qed
  moreover have "glob_groups (p_exec s') = glob_groups (p_exec s) @ [g]" "gp_core (groups (p_exec s') g) = gp"
    using k(2) k(3) [of g] by (simp_all add: e)
  ultimately have "filter (\<lambda>h. gp_core (groups (p_exec s') h)) (glob_groups (p_exec s')) = gps @ (if gp then [g] else [])" by simp
  moreover have "unpopulated (p_exec s')" unfolding e by (rule k(1))
  moreover have "owned s'" unfolding cr(1) by (rule created_owned [OF o n])
  ultimately show "probing (gps @ (if gp then [g] else [])) s'" by (simp add: probing_def)
  show "mali_global_l2s s' = mali_global_l2s s" by (simp add: cr(1) created_def Let_def)
qed

lemma probing_counts [simp]:
  "probing gps (count_pp b s) = probing gps s" "mali_global_l2s (count_pp b s) = mali_global_l2s s"
  "probing gps (device_job_runtime pl s) = probing gps s" "mali_global_l2s (device_job_runtime pl s) = mali_global_l2s s"
  "probing gps (s\<lparr>mali_max_pp_cores_group_1 := i, mali_max_pp_cores_group_2 := j\<rparr>) = probing gps s"
  by (auto simp: probing_def owned_def fresh_def pointers_def count_pp_def device_job_runtime_def split: option.splits)

lemma create_pp_groups_probing:
  assumes "probing gps s" and "c < length (mali_global_l2s s)" and "create_pp_groups pl c b is s = Done (s', ERR_OK)"
  shows "probing gps s' \<and> mali_global_l2s s' = mali_global_l2s s"
  using assms
proof (induction pl c b "is" s arbitrary: s' rule: create_pp_groups.induct)
  case (2 pl c b i "is" s)
  show ?case
  proof (cases "inited_pp b s < limit_pp b s \<and> resource_found pl (RES_PP i) \<and> resource_found pl (RES_PP_MMU i)")
    case False
    have "create_pp_groups pl c b (i # is) s = create_pp_groups pl c b is s" by (simp only: create_pp_groups.simps False if_False)
    then show ?thesis using "2.IH"(2) [OF False "2.prems"(1,2)] "2.prems"(3) by simp
  next
    case True
    let ?l = "mali_global_l2s s ! c"
    have l: "mali_l2_cache_core_get_glob_l2_core c s = Some ?l"
      using "2.prems"(2) by (simp add: mali_l2_cache_core_get_glob_l2_core_def)
    obtain s1 r where c1: "mali_create_group pl (Some ?l) False True (DOMAIN_INDEX_PP0 + i) s = Done (s1, r)"
        "(case r of None \<Rightarrow> Done (s1, ERR_FAULT) | Some g \<Rightarrow> create_pp_groups pl c b is (count_pp b s1)) = Done (s', ERR_OK)"
      using "2.prems"(3) True l by (auto simp: bind_outcome_Done)
    then obtain g where g: "r = Some g" by (cases r) auto
    note k = create_group_probing [OF "2.prems"(1) c1(1) [unfolded g]]
    have "probing gps s' \<and> mali_global_l2s s' = mali_global_l2s (count_pp b s1)"
      by (rule "2.IH"(1) [OF True, of "(s1, Some g)" s1 "Some g" g]) (use k c1 g l "2.prems"(2) in simp_all)
    then show ?thesis using k(2) by simp
  qed
qed simp

lemma l2_owned:
  assumes o: "owned s" and l: "l = length (mali_global_l2s s)"
    and s': "s' = (alloc (L2Core l) (upd_exec (\<lambda>e. e\<lparr>e_pm := q, l2_pm_domain := (l2_pm_domain e)(l := k)\<rparr>) s))
                 \<lparr>mali_global_l2s := mali_global_l2s s @ [l]\<rparr>"
  shows "owned s'"
proof -
  have ps: "pointers s' = pointers s" by (simp add: fun_eq_iff pointers_def s' alloc_def upd_exec_def)
  have e: "glob_groups (p_exec s') = glob_groups (p_exec s)" "groups (p_exec s') = groups (p_exec s)" by (simp_all add: s' alloc_def upd_exec_def)
  have f: "live s' = insert (L2Core l) (live s)" "next_gid s' = next_gid s" "mali_global_l2s s' = mali_global_l2s s @ [l]"
    by (simp_all add: s' alloc_def upd_exec_def)
  have "fresh s'" using o by (auto simp: owned_def fresh_def f e objects_of_def)
  moreover have "mali_global_l2s s' = [0 ..< length (mali_global_l2s s')]" using o by (simp add: f l owned_def)
  ultimately show ?thesis using o by (auto simp: owned_def ps f(1,3) e)
qed

lemma l2_probing:
  assumes p: "probing gps s" and c: "mandatory_l2 pl i d s = (s', True)"
  shows "probing gps s' \<and> mali_global_l2s s' \<noteq> []"
proof -
  let ?l = "length (mali_global_l2s s)"
  obtain q k where r: "mali_pm_register_l2_cache d ?l (e_pm (p_exec s)) = (q, k)" by fastforce
  have s': "s' = (alloc (L2Core ?l) (upd_exec (\<lambda>e. e\<lparr>e_pm := q, l2_pm_domain := (l2_pm_domain e)(?l := k)\<rparr>) s))
                 \<lparr>mali_global_l2s := mali_global_l2s s @ [?l]\<rparr>"
    using c r by (auto simp: mandatory_l2_def mali_l2_cache_create_def Let_def split: if_splits)
  have e: "p_exec s' = (p_exec s)\<lparr>e_pm := q, l2_pm_domain := (l2_pm_domain (p_exec s))(?l := k)\<rparr>"
    by (simp add: s' alloc_def upd_exec_def)
  have u: "unpopulated (p_exec s')" unfolding e by (rule unpopulated_l2 [OF _ r]) (use p in \<open>simp add: probing_def\<close>)
  have "owned s'" using l2_owned [OF _ refl s'] p by (simp add: probing_def)
  then show ?thesis using p u by (simp add: probing_def e) (simp add: s')
qed

text \<open>The steps of the configuration that have to succeed.\<close>

lemma with_group_ok: "with_group r k = Done (s', ERR_OK) \<Longrightarrow> \<exists>t g. r = Done (t, Some g) \<and> k t = Done (s', ERR_OK)"
  by (auto simp: with_group_def bind_outcome_Done split: if_splits)

lemma if_ok_ok: "if_ok r k = Done (s', ERR_OK) \<Longrightarrow> \<exists>t. r = Done (t, ERR_OK) \<and> k t = Done (s', ERR_OK)"
  by (auto simp: if_ok_def bind_outcome_Done split: if_splits)

lemma groups_inited_probing [simp]: "probing gps (groups_inited s) = probing gps s"
  by (simp add: groups_inited_def)

lemma parse_groups_probing:
  assumes m: "product_id pl = Mali400" and p: "probing [] s" and l2: "mali_global_l2s s \<noteq> []"
    and c: "mali_parse_config_groups pl s = Done (s', ERR_OK)"
  shows "\<exists>g. probing [g] s'"
proof -
  let ?s1 = "device_job_runtime pl s"
  define l where "l = mali_global_l2s s ! 0"
  have l: "mali_l2_cache_core_get_glob_l2_core 0 t = Some l" if "mali_global_l2s t = mali_global_l2s s" for t
    using l2 that by (simp add: mali_l2_cache_core_get_glob_l2_core_def l_def)
  have "with_group (mali_create_group pl (Some l) True False DOMAIN_INDEX_GP ?s1) (\<lambda>s2.
           with_group (mali_create_group pl (mali_l2_cache_core_get_glob_l2_core 0 s2) False True DOMAIN_INDEX_PP0 s2) (\<lambda>s3.
           if_ok (create_pp_groups pl 0 True [1 ..< 4] (count_pp True s3)) (\<lambda>s4.
           if_ok (create_pp_groups pl 0 False [4 ..< 8] s4) (\<lambda>s5.
           if_ok (Done (s5, ERR_OK)) (\<lambda>s6. Done (groups_inited s6, ERR_OK)))))) = Done (s', ERR_OK)"
    using c l [of ?s1] m
    by (simp add: mali_parse_config_groups_def Let_def del: create_pp_groups.simps upt_rec_numeral split: if_splits)
  from with_group_ok [OF this] obtain s2 g0 where a: "mali_create_group pl (Some l) True False DOMAIN_INDEX_GP ?s1 = Done (s2, Some g0)"
    and r2: "with_group (mali_create_group pl (mali_l2_cache_core_get_glob_l2_core 0 s2) False True DOMAIN_INDEX_PP0 s2) (\<lambda>s3.
           if_ok (create_pp_groups pl 0 True [1 ..< 4] (count_pp True s3)) (\<lambda>s4.
           if_ok (create_pp_groups pl 0 False [4 ..< 8] s4) (\<lambda>s5.
           if_ok (Done (s5, ERR_OK)) (\<lambda>s6. Done (groups_inited s6, ERR_OK))))) = Done (s', ERR_OK)" by blast
  have p2: "probing [g0] s2" "mali_global_l2s s2 = mali_global_l2s s"
    using create_group_probing [OF _ a, of "[]"] p by simp_all
  from with_group_ok [OF r2 [unfolded l [OF p2(2)]]] obtain s3 g1 where
      b: "mali_create_group pl (Some l) False True DOMAIN_INDEX_PP0 s2 = Done (s3, Some g1)"
    and r3: "if_ok (create_pp_groups pl 0 True [1 ..< 4] (count_pp True s3)) (\<lambda>s4.
           if_ok (create_pp_groups pl 0 False [4 ..< 8] s4) (\<lambda>s5.
           if_ok (Done (s5, ERR_OK)) (\<lambda>s6. Done (groups_inited s6, ERR_OK)))) = Done (s', ERR_OK)" by blast
  have p3: "probing [g0] s3" "mali_global_l2s s3 = mali_global_l2s s"
    using create_group_probing [OF p2(1) b] p2(2) by auto
  have n: "0 < length (mali_global_l2s s)" using l2 by simp
  from if_ok_ok [OF r3] obtain s4 where c1: "create_pp_groups pl 0 True [1 ..< 4] (count_pp True s3) = Done (s4, ERR_OK)"
    and r4: "if_ok (create_pp_groups pl 0 False [4 ..< 8] s4) (\<lambda>s5.
           if_ok (Done (s5, ERR_OK)) (\<lambda>s6. Done (groups_inited s6, ERR_OK))) = Done (s', ERR_OK)" by blast
  have p4: "probing [g0] s4 \<and> mali_global_l2s s4 = mali_global_l2s s"
    using create_pp_groups_probing [OF _ _ c1] p3 n by simp
  from if_ok_ok [OF r4] obtain s5 where c2: "create_pp_groups pl 0 False [4 ..< 8] s4 = Done (s5, ERR_OK)"
    and "s' = groups_inited s5" by (auto simp: if_ok_def simp del: create_pp_groups.simps upt_rec_numeral)
  moreover have "probing [g0] s5" using create_pp_groups_probing [OF _ _ c2] p4 n by simp
  ultimately show ?thesis by auto
qed

lemma configure_hardware_ok:
  assumes m: "product_id pl = Mali400" and p: "probing [] s" and c: "configure_hardware pl s = Done (s', ERR_OK)"
  shows "\<exists>s1 g. s' = upd_exec mali_executor_populate s1 \<and> probing [g] s1"
proof -
  from if_ok_ok [OF c [unfolded configure_hardware_def]] obtain s1 where l: "mali_parse_config_l2_cache pl s = (s1, ERR_OK)"
      "if_ok (mali_parse_config_groups pl s1) (\<lambda>s2. Done (upd_exec mali_executor_populate s2, ERR_OK)) = Done (s', ERR_OK)" by auto
  have "mandatory_l2 pl 0 DOMAIN_INDEX_L20 s = (s1, True)"
    using l(1) m by (auto simp: mali_parse_config_l2_cache_def split: prod.splits if_splits)
  note s1 = l2_probing [OF p this]
  from if_ok_ok [OF l(2)] obtain s2 where s2: "mali_parse_config_groups pl s1 = Done (s2, ERR_OK)"
      "s' = upd_exec mali_executor_populate s2" by auto
  show ?thesis using parse_groups_probing [OF m _ _ s2(1)] s1 s2(2) by blast
qed

lemma probing_boot:
  assumes "config_ok c" and "mali_pm_create_pm_domains ok (pm_boot c active) = (p, ERR_OK)"
  shows "probing [] (probe_boot (executor_boot \<sigma> p secure pmu) max1 max2 runtime)"
  using unpopulated_boot [OF assms, of \<sigma> secure pmu]
  by (simp add: probing_def owned_def fresh_def probe_boot_def executor_boot_def)

text \<open>The executor is well-formed once the hardware is configured.\<close>

lemma configured_ok:
  assumes "product_id pl = Mali400" and "config_ok c" and "mali_pm_create_pm_domains ok (pm_boot c active) = (p, ERR_OK)"
    and "configure_hardware pl (probe_boot (executor_boot \<sigma> p secure pmu) max1 max2 runtime) = Done (s, ERR_OK)"
    and c: "coherent (p_exec s)"
  shows "exec_ok Steady {} (p_exec s)"
proof -
  obtain s1 g where s1: "s = upd_exec mali_executor_populate s1" "probing [g] s1"
    using configure_hardware_ok [OF assms(1) probing_boot [OF assms(2,3)] assms(4)] by blast
  then show ?thesis using populate_ok [of "p_exec s1" g "p_exec s"] c by (simp add: probing_def upd_exec_def)
qed

end
