(* ===== verification/Exec_Run.thy ===== *)
theory Exec_Run
  imports Exec_Boot
begin

text \<open>
  The executor and the power manager as one transition system, from the probing of the hardware on:
  jobs, completions, enabling and disabling of cores, core scaling, aborting sessions, suspending,
  resuming and the updates of the power domains, in any order, with the notifications of an update
  as steps of their own. The invariant holds in every reachable state, and the properties of the
  two components together follow from it.
\<close>

section \<open>Steps\<close>

text \<open>What a step does to the jobs that run: it leaves them, ends that of one group, or those of a session.\<close>

datatype step_kind = Internal | Completes gid | Aborts session_id

text \<open>Everything under the lock of the executor is one step. The updates of the power manager exclude each
  other, so one starts only in the phase \<open>Steady\<close>; what other threads do to the executor goes on in any
  phase. Jobs, queues and timelines are changed at any time by the rest of the driver.\<close>

inductive exec_step :: "step_kind \<Rightarrow> exec \<times> phase \<Rightarrow> exec \<times> phase \<Rightarrow> bool" where
  gpu: "exec_step Internal (e, ph) (e\<lparr>e_gpu := \<sigma>\<rparr>, ph)"
| schedule: "mali_executor_schedule m e = Done e' \<Longrightarrow> exec_step Internal (e, ph) (e', ph)"
| complete: "g \<in> set (glob_groups e) \<Longrightarrow> grp_is_working (groups e g) \<Longrightarrow>
     mali_executor_complete_group fuel m r g success e = Done (e', gp_done, pp_done) \<Longrightarrow>
     exec_step (Completes g) (e, ph) (e', ph)"
| enable: "g \<in> set (glob_groups e) \<Longrightarrow> mali_executor_group_enable m g e = Done e' \<Longrightarrow> exec_step Internal (e, ph) (e', ph)"
| disable: "g \<in> set (glob_groups e) \<Longrightarrow> mali_executor_group_disable m g e = Done e' \<Longrightarrow> exec_step Internal (e, ph) (e', ph)"
| perf_level: "mali_executor_set_perf_level m costs n override e = Done (e', res) \<Longrightarrow> exec_step Internal (e, ph) (e', ph)"
| abort: "mali_executor_abort_session fuel m r s e = Done e' \<Longrightarrow> exec_step (Aborts s) (e, ph) (e', ph)"
| suspend_begin: "exec_step Internal (e, ph) (suspend_begin e, ph)"
| suspend_finish: "mali_executor_is_suspended e \<Longrightarrow> exec_step Internal (e, ph) (suspend_finish e, ph)"
| resume: "0 < pause_count e \<Longrightarrow> mali_executor_resume m e = Done e' \<Longrightarrow> exec_step Internal (e, ph) (e', ph)"
| update: "runtime_active (e_pm e) \<Longrightarrow> p = update_power_up (e_pm e) \<Longrightarrow>
     exec_step Internal (e, Steady) (e\<lparr>e_pm := p\<rparr>, Rising (told (e_pm e) p))"
| groups_up: "mali_executor_group_power_up m gs e = Done e' \<Longrightarrow> exec_step Internal (e, Rising gs) (e', Between)"
| update_down: "p = update_power_down (e_pm e) \<Longrightarrow>
     exec_step Internal (e, Between) (e\<lparr>e_pm := p\<rparr>, Falling (told (e_pm e) p))"
| groups_down: "exec_step Internal (e, Falling gs) (mali_executor_group_power_down gs e, Steady)"
| pm_suspend: "mali_pm_common_suspend (e_pm e) = (p, True) \<Longrightarrow> active \<in> {runtime_active p, False} \<Longrightarrow>
     exec_step Internal (e, Steady) (e\<lparr>e_pm := p\<lparr>runtime_active := active\<rparr>\<rparr>, Falling (told (e_pm e) p))"
| pm_resume: "pd_mask_current (e_pm e) = 0 \<Longrightarrow> (\<forall>m d. pmu = Some m \<longrightarrow> bit m d \<longrightarrow> d < DOMAIN_DUMMY) \<Longrightarrow>
     p = pmu_resume pmu ((e_pm e)\<lparr>runtime_active := True\<rparr>) \<Longrightarrow>
     exec_step Internal (e, Steady) (e\<lparr>e_pm := update_power_up p\<rparr>, Rising (told p (update_power_up p)))"

text \<open>The start is a Mali-400 that has been probed, with domains that are coherent.\<close>

inductive exec_reachable :: "exec \<times> phase \<Rightarrow> bool" where
  init: "product_id pl = Mali400 \<Longrightarrow> config_ok c \<Longrightarrow> mali_pm_create_pm_domains ok (pm_boot c active) = (p, ERR_OK) \<Longrightarrow>
     configure_hardware pl (probe_boot (executor_boot \<sigma> p secure pmu) max1 max2 runtime) = Done (s, ERR_OK) \<Longrightarrow>
     coherent (p_exec s) \<Longrightarrow> exec_reachable (p_exec s, Steady)"
| step: "exec_reachable x \<Longrightarrow> exec_step k x y \<Longrightarrow> exec_reachable y"

section \<open>The invariant\<close>

lemma working_place:
  assumes ok: "exec_ok ph {} e" and g: "g \<in> set (glob_groups e)"
  shows "grp_is_working (groups e g) \<longleftrightarrow> place e g = EXEC_STATE_WORKING"
  using exec_okD(7) [OF ok g] by (simp add: group_ok_def busy_def)

lemma runtime_active_ok:
  assumes "exec_ok ph S (e\<lparr>e_pm := p\<rparr>)"
  shows "exec_ok ph S (e\<lparr>e_pm := p\<lparr>runtime_active := b\<rparr>\<rparr>)"
proof -
  let ?e = "e\<lparr>e_pm := p\<rparr>" and ?p = "p\<lparr>runtime_active := b\<rparr>"
  have d: "domain ?p = domain p" by simp
  have x: "pm_ok ?p = pm_ok p" "settled ?p = settled p" "powered ?p = powered p"
    by (simp_all add: pm_ok_def refs_ok_def power_ok_def settled_def)
  have "same_refs p ?p" by (simp add: same_refs_def same_domains_def exists_domain_def)
  moreover have "group_power_ok ph (?e\<lparr>e_pm := ?p\<rparr>) k" if "k \<in> set (glob_groups e)" for k
    using exec_okD(8) [OF assms, of k] that group_power_views [of "?e\<lparr>e_pm := ?p\<rparr>" ?e k ph] x(3) by simp
  ultimately have "exec_ok ph S (?e\<lparr>e_pm := ?p\<rparr>)"
    using assms by (intro exec_ok_pm [OF assms]) (simp_all add: x exec_ok_def)
  then show ?thesis by simp
qed

lemma gpu_frame [simp]: "frame (e\<lparr>e_gpu := \<sigma>\<rparr>) = frame e" "frame (suspend_begin e) = frame e"
  by (simp_all add: suspend_begin_def)

lemma pm_views:
  "place (e\<lparr>e_pm := p\<rparr>) = place e" "busy (e\<lparr>e_pm := p\<rparr>) = busy e" "runs_on e (e\<lparr>e_pm := p\<rparr>)"
proof -
  show "place (e\<lparr>e_pm := p\<rparr>) = place e" by (rule lists_views) simp_all
  then show "runs_on e (e\<lparr>e_pm := p\<rparr>)" by (simp add: runs_on_def)
qed simp

lemma exec_step_ok:
  assumes "exec_step k x y" and "exec_ok (snd x) {} (fst x)"
  shows "exec_ok (snd y) {} (fst y) \<and> (k = Internal \<longrightarrow> runs_on (fst x) (fst y)) \<and>
    (\<forall>g. k = Completes g \<longrightarrow> others_run g (fst x) (fst y))"
  using assms
proof (induction rule: exec_step.induct)
  case (gpu e ph \<sigma>)
  then show ?case using exec_ok_frame [of "e\<lparr>e_gpu := \<sigma>\<rparr>" e] runs_on_frame [of "e\<lparr>e_gpu := \<sigma>\<rparr>" e] by simp
next
  case (schedule m e e' ph)
  then show ?case using schedule_ok [of ph e m e'] by simp
next
  case (complete g e fuel m r success e' gp_done pp_done ph)
  then have "place e g = EXEC_STATE_WORKING" using working_place [of ph e g] by simp
  then show ?case using complete complete_group_ok [of ph e g] by simp
next
  case (enable g e m e' ph)
  then show ?case using group_enable_ok [of ph e g m e'] by simp
next
  case (disable g e m e' ph)
  then show ?case using group_disable_ok [of ph e g m e'] by simp
next
  case (perf_level m costs n override e e' res ph)
  then show ?case using set_perf_level_ok [of ph e m costs n override e' res] by simp
next
  case (abort fuel m r s e e' ph)
  then show ?case using abort_session_ok [of ph e fuel m r s e'] by simp
next
  case (suspend_begin e ph)
  then show ?case using exec_ok_frame [of "suspend_begin e" e] runs_on_frame [of "suspend_begin e" e] by simp
next
  case (suspend_finish e ph)
  then have w: "\<not> mali_executor_is_working e" and ok: "exec_ok ph {} e" by (simp_all add: mali_executor_is_suspended_def)
  have "place e g \<noteq> EXEC_STATE_WORKING" for g
  proof (cases "g \<in> set (glob_groups e)")
    case False
    then have "gp_group e \<noteq> Some g" "g \<notin> pp_groups e" using exec_okD(3) [OF ok] by (auto simp: lists_ok_def pp_groups_def)
    moreover from this(2) have "g \<notin> set (list_of l e)" for l using place_iff [OF exec_okD(3) [OF ok]] by blast
    ultimately show ?thesis by (simp add: place_def del: list_of.simps)
  qed (rule not_working [OF ok w])
  then show ?case using suspend_finish_ok [OF ok w] by (simp add: runs_on_def)
next
  case (resume e m e' ph)
  then show ?case using resume_executor_ok [of ph e m e'] by simp
next
  case (update e p)
  then show ?case using update_up_step [OF steady_between, of "{}" e] pm_views by simp
next
  case (groups_up m gs e e')
  then show ?case using group_power_up_ok [of gs e m e'] by simp
next
  case (update_down p e)
  then show ?case using update_down_step [of "{}" e] pm_views by simp
next
  case (groups_down e gs)
  then show ?case using group_power_down_ok [of gs "{}" e] by simp
next
  case (pm_suspend e p active)
  have "exec_ok (Falling (told (e_pm e) p)) {} (e\<lparr>e_pm := p\<rparr>)" using suspend_step(1) [of "{}" e p] pm_suspend by simp
  then show ?case using runtime_active_ok pm_views by simp
next
  case (pm_resume e pmu p)
  have "exec_ok Between {} (e\<lparr>e_pm := p\<rparr>)" using resume_step [of "{}" e pmu p True] pm_resume by simp
  from update_up_step [OF this] show ?case using pm_views by simp
qed

lemma exec_reachable_ok: "exec_reachable x \<Longrightarrow> exec_ok (snd x) {} (fst x)"
proof (induction rule: exec_reachable.induct)
  case (init pl c ok active p \<sigma> secure pmu max1 max2 runtime s)
  then show ?case using configured_ok by simp
next
  case (step x k y)
  then show ?case using exec_step_ok [of k x y] by simp
qed

end
