(* ===== verification/Exec_Example.thy ===== *)
theory Exec_Example
  imports Exec_Run Timeline_Examples
begin

text \<open>
  A run of the executor and the power manager for the witnesses of their properties: a Mali-400
  with one geometry and one pixel processor is probed, a GP job is scheduled and started, the
  executor is suspended and its domains are powered down.
\<close>

section \<open>An example\<close>

definition example_platform :: platform where
  "example_platform = \<lparr>product_id = Mali400,
     resource_found = (\<lambda>r. r \<in> {RES_L2 0, RES_GP, RES_GP_MMU, RES_PP 0, RES_PP_MMU 0}),
     can = (\<lambda>_. True), device_max_job_runtime = None\<rparr>"

definition example_config :: "16 word list" where
  "example_config = [1, 2, 0, 0, 0, 0, 0, 0, 0, 4, 0, 0, 4096]"

definition example_boot :: probe where
  "example_boot = probe_boot (executor_boot idle_gpu (fst (mali_pm_create_pm_domains (\<lambda>_. True) (pm_boot example_config True))) False True)
     255 255 5000"

fun the_done :: "'a outcome \<Rightarrow> 'a" where
  "the_done (Done x) = x"

fun is_done :: "'a outcome \<Rightarrow> bool" where
  "is_done (Done _) = True"
| "is_done _ = False"

lemma the_done: "is_done r \<Longrightarrow> r = Done (the_done r)"
  by (cases r) simp_all

definition example_probe :: probe where
  "example_probe = fst (the_done (configure_hardware example_platform example_boot))"

text \<open>A GP job is queued and scheduled, the update powers its group, the job runs.\<close>

definition example_queued :: exec where
  "example_queued = (p_exec example_probe)\<lparr>e_gpu := idle_gpu\<lparr>job_queue_gp := empty_queue\<lparr>normal_pri := [0], depth := 1\<rparr>\<rparr>\<rparr>"

definition example_waiting :: exec where
  "example_waiting = the_done (mali_executor_schedule True example_queued)"

definition example_rising :: exec where
  "example_rising = example_waiting\<lparr>e_pm := update_power_up (e_pm example_waiting)\<rparr>"

definition example_running :: exec where
  "example_running = the_done (mali_executor_group_power_up True (told (e_pm example_waiting) (e_pm example_rising)) example_rising)"

text \<open>The update ends, the executor is suspended when the job is done, and the domains are powered down.\<close>

definition example_steady :: exec where
  "example_steady = mali_executor_group_power_down (told (e_pm example_running) (update_power_down (e_pm example_running)))
     (example_running\<lparr>e_pm := update_power_down (e_pm example_running)\<rparr>)"

definition example_paused :: exec where
  "example_paused = fst (the_done (mali_executor_complete_group 20 True True 0 True (suspend_begin example_steady)))"

definition example_suspended :: exec where
  "example_suspended = suspend_finish example_paused"

definition example_falling :: exec where
  "example_falling = example_suspended\<lparr>e_pm := fst (mali_pm_common_suspend (e_pm example_suspended))\<rparr>"

lemma example_facts:
  "let c = configure_hardware example_platform example_boot; e = p_exec (fst (the_done c));
       q = e\<lparr>e_gpu := idle_gpu\<lparr>job_queue_gp := empty_queue\<lparr>normal_pri := [0], depth := 1\<rparr>\<rparr>\<rparr>;
       sw = mali_executor_schedule True q; w = the_done sw; r = w\<lparr>e_pm := update_power_up (e_pm w)\<rparr>;
       ru = mali_executor_group_power_up True (told (e_pm w) (e_pm r)) r; u = the_done ru;
       d = update_power_down (e_pm u); s = mali_executor_group_power_down (told (e_pm u) d) (u\<lparr>e_pm := d\<rparr>);
       cp = mali_executor_complete_group 20 True True 0 True (suspend_begin s); p = fst (the_done cp);
       x = suspend_finish p; pm = mali_pm_common_suspend (e_pm x)
   in is_done c \<and> snd (the_done c) = ERR_OK \<and> coherent e \<and> glob_groups s = [0, 1] \<and> is_done sw \<and> gst w 0 = GROUP_ACTIVATION_PENDING \<and>
      runtime_active (e_pm w) \<and> is_done ru \<and> gst u 0 = GROUP_ACTIVE \<and> grp_is_working (groups s 0) \<and> is_done cp \<and>
      mali_executor_is_suspended p \<and> snd pm \<and> told (e_pm x) (fst pm) = [0] \<and>
      pm_domains (e_pm s) 2 \<noteq> None \<and>
      map (\<lambda>g. (grp_state (groups s g), grp_pm_domain (groups s g), l2_domain s g)) [0, 1] = [(GROUP_ACTIVE, 0, 2), (GROUP_INACTIVE, 1, 2)]"
  by code_simp

lemmas example_defs = example_falling_def example_suspended_def example_paused_def example_steady_def example_running_def
  example_rising_def example_waiting_def example_queued_def example_probe_def

lemma example_results:
  "configure_hardware example_platform example_boot = Done (example_probe, ERR_OK)"
  "coherent (p_exec example_probe)" "glob_groups example_steady = [0, 1]"
  "mali_executor_schedule True example_queued = Done example_waiting"
  "gst example_waiting 0 = GROUP_ACTIVATION_PENDING" "runtime_active (e_pm example_waiting)"
  "mali_executor_group_power_up True (told (e_pm example_waiting) (e_pm example_rising)) example_rising = Done example_running"
  "gst example_running 0 = GROUP_ACTIVE" "grp_is_working (groups example_steady 0)"
  "\<exists>x. mali_executor_complete_group 20 True True 0 True (suspend_begin example_steady) = Done (example_paused, x)"
  "mali_executor_is_suspended example_paused" "snd (mali_pm_common_suspend (e_pm example_suspended))"
  "told (e_pm example_suspended) (fst (mali_pm_common_suspend (e_pm example_suspended))) = [0]"
  "pm_domains (e_pm example_steady) 2 \<noteq> None"
  "map (\<lambda>g. (grp_state (groups example_steady g), grp_pm_domain (groups example_steady g), l2_domain example_steady g)) [0, 1] =
     [(GROUP_ACTIVE, 0, 2), (GROUP_INACTIVE, 1, 2)]"
proof -
  have c: "is_done (configure_hardware example_platform example_boot)"
    "snd (the_done (configure_hardware example_platform example_boot)) = ERR_OK"
    "is_done (mali_executor_complete_group 20 True True 0 True (suspend_begin example_steady))"
    using example_facts unfolding Let_def example_defs by blast+
  show "configure_hardware example_platform example_boot = Done (example_probe, ERR_OK)"
    using the_done [OF c(1)] c(2) by (metis example_probe_def prod.collapse)
  show "\<exists>x. mali_executor_complete_group 20 True True 0 True (suspend_begin example_steady) = Done (example_paused, x)"
    using the_done [OF c(3)] by (metis example_paused_def prod.collapse)
  show "coherent (p_exec example_probe)" "glob_groups example_steady = [0, 1]"
    "mali_executor_schedule True example_queued = Done example_waiting"
    "gst example_waiting 0 = GROUP_ACTIVATION_PENDING" "runtime_active (e_pm example_waiting)"
    "mali_executor_group_power_up True (told (e_pm example_waiting) (e_pm example_rising)) example_rising = Done example_running"
    "gst example_running 0 = GROUP_ACTIVE" "grp_is_working (groups example_steady 0)"
    "mali_executor_is_suspended example_paused" "snd (mali_pm_common_suspend (e_pm example_suspended))"
    "told (e_pm example_suspended) (fst (mali_pm_common_suspend (e_pm example_suspended))) = [0]"
    "pm_domains (e_pm example_steady) 2 \<noteq> None"
    "map (\<lambda>g. (grp_state (groups example_steady g), grp_pm_domain (groups example_steady g), l2_domain example_steady g)) [0, 1] =
       [(GROUP_ACTIVE, 0, 2), (GROUP_INACTIVE, 1, 2)]"
    using example_facts the_done unfolding Let_def example_defs
    by (blast, blast, blast, blast, blast, blast, blast, blast, blast, blast, blast, blast, blast)
qed

lemma example_config_ok: "config_ok example_config"
proof -
  have "example_config ! i = 0 \<or> (\<exists>d < MAX_DOMAINS. ucast (example_config ! i) = domain_bit d)" if "i < MAX_DOMAINS" for i
  proof -
    have "\<forall>i \<in> set [0 ..< MAX_DOMAINS]. example_config ! i = 0 \<or> (\<exists>d \<in> set [0 ..< MAX_DOMAINS]. ucast (example_config ! i) = domain_bit d)"
      by code_simp
    moreover have "i \<in> set [0 ..< MAX_DOMAINS]" using that by simp
    ultimately have "example_config ! i = 0 \<or> (\<exists>d \<in> set [0 ..< MAX_DOMAINS]. ucast (example_config ! i) = domain_bit d)"
      by (rule bspec)
    then show ?thesis by (metis atLeastLessThan_iff set_upt)
  qed
  moreover have "ucast (example_config ! DOMAIN_DUMMY) = DUMMY_MASK" "length example_config = MAX_DOMAINS" by code_simp+
  ultimately show ?thesis by (simp add: config_ok_def)
qed

lemma example_domains_created:
  "mali_pm_create_pm_domains (\<lambda>_. True) (pm_boot example_config True) =
     (fst (mali_pm_create_pm_domains (\<lambda>_. True) (pm_boot example_config True)), ERR_OK)"
  using create_all [of "\<lambda>_. True" "[0 ..< MAX_DOMAINS]"] by (simp add: mali_pm_create_pm_domains_def prod_eq_iff)

lemma example_reached:
  "exec_reachable (example_waiting, Steady)" "exec_reachable (example_rising, Rising (told (e_pm example_waiting) (e_pm example_rising)))"
  "exec_reachable (example_running, Between)" "exec_reachable (example_steady, Steady)" "exec_reachable (example_paused, Steady)"
  "exec_reachable (example_suspended, Steady)" "exec_reachable (example_falling, Falling [0])"
proof -
  note r = example_results
  have i: "exec_reachable (p_exec example_probe, Steady)"
    by (rule exec_reachable.init [OF _ example_config_ok example_domains_created r(1) [unfolded example_boot_def] r(2)])
      (simp add: example_platform_def)
  have q: "exec_reachable (example_queued, Steady)"
    unfolding example_queued_def by (rule exec_reachable.step [OF i exec_step.gpu])
  show w: "exec_reachable (example_waiting, Steady)" by (rule exec_reachable.step [OF q exec_step.schedule [OF r(4)]])
  have p: "e_pm example_rising = update_power_up (e_pm example_waiting)" by (simp add: example_rising_def)
  show u: "exec_reachable (example_rising, Rising (told (e_pm example_waiting) (e_pm example_rising)))"
    using exec_reachable.step [OF w exec_step.update [OF r(6) refl]] unfolding p unfolding example_rising_def .
  show n: "exec_reachable (example_running, Between)" by (rule exec_reachable.step [OF u exec_step.groups_up [OF r(7)]])
  show s: "exec_reachable (example_steady, Steady)"
    unfolding example_steady_def
    by (rule exec_reachable.step [OF exec_reachable.step [OF n exec_step.update_down [OF refl]] exec_step.groups_down])
  have b: "exec_reachable (suspend_begin example_steady, Steady)" by (rule exec_reachable.step [OF s exec_step.suspend_begin])
  obtain x y where c: "mali_executor_complete_group 20 True True 0 True (suspend_begin example_steady) = Done (example_paused, x, y)"
    using r(10) by (metis prod.collapse)
  have "glob_groups (suspend_begin example_steady) = [0, 1]" using r(3) by (simp add: suspend_begin_def)
  moreover have "grp_is_working (groups (suspend_begin example_steady) 0)" using r(9) by (simp add: suspend_begin_def)
  ultimately show p: "exec_reachable (example_paused, Steady)"
    by (intro exec_reachable.step [OF b exec_step.complete [OF _ _ c]]) simp_all
  show x: "exec_reachable (example_suspended, Steady)"
    unfolding example_suspended_def by (rule exec_reachable.step [OF p exec_step.suspend_finish [OF r(11)]])
  obtain pm where pm: "mali_pm_common_suspend (e_pm example_suspended) = (pm, True)" using r(12) by (metis prod.collapse)
  have "exec_step Internal (example_suspended, Steady) (example_suspended\<lparr>e_pm := pm\<lparr>runtime_active := runtime_active pm\<rparr>\<rparr>, Falling (told (e_pm example_suspended) pm))"
    by (rule exec_step.pm_suspend [OF pm]) simp
  from exec_reachable.step [OF x this] show "exec_reachable (example_falling, Falling [0])"
    using r(13) pm by (simp add: example_falling_def)
qed

end
