(* ===== verification/Probe_Release.thy ===== *)
theory Probe_Release
  imports Exec_Boot
begin

text \<open>
  Giving the hardware back: however the probing of a Mali-400 ends, the deletion of the groups and
  of the caches frees every object that has been allocated, and none of them twice.
\<close>

section \<open>Before the executor is populated\<close>

definition bare :: "probe \<Rightarrow> bool" where
  "bare s \<longleftrightarrow> owned s \<and> populated (p_exec s) = (None, None, [], [], [])"

lemma bare_create_group:
  assumes b: "bare s" and c: "mali_create_group pl cache gp pp d s = Done (s', r)"
  shows "bare s'"
proof -
  have o: "owned s" and f: "fresh s" using b by (simp_all add: bare_def owned_def)
  note cases = mali_create_group_cases [OF f, of pl gp pp cache d]
  show ?thesis
  proof (cases "group_complete pl gp pp s \<and> \<not> dangles pl gp pp s")
    case True
    then have s': "s' = created cache gp pp d s" and n: "length (glob_groups (p_exec s)) < MAX_NUMBER_OF_GROUPS"
      using cases c by (simp_all add: group_complete_def group_starts_def Let_def)
    have "populated (p_exec s') = populated (p_exec s)"
      using n by (auto simp: s' created_def new_exec_def mali_group_create_def upd_group_def populated_def Let_def split: prod.split)
    then show ?thesis using created_owned [OF o n] b by (simp add: bare_def s')
  next
    case False
    then have "undone s s'" using cases c by (auto split: if_splits)
    then show ?thesis using undone_owned [OF o] b by (simp add: bare_def undone_def)
  qed
qed

lemma bare_counts [simp]:
  "bare (count_pp b s) = bare s" "bare (device_job_runtime pl s) = bare s" "bare (groups_inited s) = bare s"
  by (auto simp: bare_def owned_def fresh_def pointers_def count_pp_def device_job_runtime_def groups_inited_def split: option.splits)

lemma bare_with_group:
  assumes "with_group (mali_create_group pl cache gp pp d s) k = Done (s', err)" and "bare s"
    and "\<And>t. bare t \<Longrightarrow> k t = Done (s', err) \<Longrightarrow> bare s'"
  shows "bare s'"
proof -
  obtain t r where t: "mali_create_group pl cache gp pp d s = Done (t, r)" "(if r = None then Done (t, ERR_FAULT) else k t) = Done (s', err)"
    using assms(1) by (auto simp: with_group_def bind_outcome_Done)
  have "bare t" by (rule bare_create_group [OF assms(2) t(1)])
  then show ?thesis using t(2) assms(3) by (cases r) auto
qed

lemma bare_if_ok:
  assumes "if_ok r k = Done (s', err)" and "\<And>t e. r = Done (t, e) \<Longrightarrow> bare t"
    and "\<And>t. bare t \<Longrightarrow> k t = Done (s', err) \<Longrightarrow> bare s'"
  shows "bare s'"
  using assms by (auto simp: if_ok_def bind_outcome_Done split: if_splits)

lemma bare_create_pp_groups:
  assumes "bare s" and "create_pp_groups pl c b is s = Done (s', err)"
  shows "bare s'"
  using assms
proof (induction "is" arbitrary: s)
  case (Cons i "is")
  show ?case
  proof (cases "inited_pp b s < limit_pp b s \<and> resource_found pl (RES_PP i) \<and> resource_found pl (RES_PP_MMU i)")
    case False
    then have "create_pp_groups pl c b is s = Done (s', err)" using Cons.prems(2) by auto
    then show ?thesis by (rule Cons.IH [OF Cons.prems(1)])
  next
    case True
    obtain s1 r where c1: "mali_create_group pl (mali_l2_cache_core_get_glob_l2_core c s) False True (DOMAIN_INDEX_PP0 + i) s = Done (s1, r)"
        "(case r of None \<Rightarrow> Done (s1, ERR_FAULT) | Some g \<Rightarrow> create_pp_groups pl c b is (count_pp b s1)) = Done (s', err)"
      using Cons.prems(2) True by (auto simp: bind_outcome_Done)
    have "bare s1" by (rule bare_create_group [OF Cons.prems(1) c1(1)])
    then show ?thesis using c1(2) Cons.IH [of "count_pp b s1"] by (cases r) auto
  qed
qed simp

lemma bare_parse_groups:
  assumes m: "product_id pl = Mali400" and b: "bare s" and c: "mali_parse_config_groups pl s = Done (s', err)"
  shows "bare s'"
proof (cases "resource_found pl RES_GP \<and> resource_found pl RES_GP_MMU \<and> resource_found pl (RES_PP 0) \<and> resource_found pl (RES_PP_MMU 0)")
  case False
  then show ?thesis using m b c by (auto simp: mali_parse_config_groups_def Let_def)
next
  case True
  let ?s1 = "device_job_runtime pl s"
  have "with_group (mali_create_group pl (mali_l2_cache_core_get_glob_l2_core 0 ?s1) True False DOMAIN_INDEX_GP ?s1) (\<lambda>s2.
           with_group (mali_create_group pl (mali_l2_cache_core_get_glob_l2_core 0 s2) False True DOMAIN_INDEX_PP0 s2) (\<lambda>s3.
           if_ok (create_pp_groups pl 0 True [1 ..< 4] (count_pp True s3)) (\<lambda>s4.
           if_ok (create_pp_groups pl 0 False [4 ..< 8] s4) (\<lambda>s5.
           if_ok (Done (s5, ERR_OK)) (\<lambda>s6. Done (groups_inited s6, ERR_OK)))))) = Done (s', err)"
    using c m True
    by (simp add: mali_parse_config_groups_def Let_def del: create_pp_groups.simps upt_rec_numeral split: if_splits)
  then show ?thesis
  proof (rule bare_with_group)
    fix s2 assume "bare s2" and "with_group (mali_create_group pl (mali_l2_cache_core_get_glob_l2_core 0 s2) False True DOMAIN_INDEX_PP0 s2) (\<lambda>s3.
           if_ok (create_pp_groups pl 0 True [1 ..< 4] (count_pp True s3)) (\<lambda>s4.
           if_ok (create_pp_groups pl 0 False [4 ..< 8] s4) (\<lambda>s5.
           if_ok (Done (s5, ERR_OK)) (\<lambda>s6. Done (groups_inited s6, ERR_OK))))) = Done (s', err)"
    from this(2,1) show "bare s'"
    proof (rule bare_with_group)
      fix s3 assume "bare s3" and "if_ok (create_pp_groups pl 0 True [1 ..< 4] (count_pp True s3)) (\<lambda>s4.
           if_ok (create_pp_groups pl 0 False [4 ..< 8] s4) (\<lambda>s5.
           if_ok (Done (s5, ERR_OK)) (\<lambda>s6. Done (groups_inited s6, ERR_OK)))) = Done (s', err)"
      from this(2) show "bare s'"
      proof (rule bare_if_ok)
        show "bare t" if "create_pp_groups pl 0 True [1 ..< 4] (count_pp True s3) = Done (t, e)" for t e
          by (rule bare_create_pp_groups [OF _ that]) (simp add: \<open>bare s3\<close>)
        fix s4 assume "bare s4" and "if_ok (create_pp_groups pl 0 False [4 ..< 8] s4) (\<lambda>s5.
           if_ok (Done (s5, ERR_OK)) (\<lambda>s6. Done (groups_inited s6, ERR_OK))) = Done (s', err)"
        from this(2) show "bare s'"
        proof (rule bare_if_ok)
          show "bare t" if "create_pp_groups pl 0 False [4 ..< 8] s4 = Done (t, e)" for t e
            by (rule bare_create_pp_groups [OF \<open>bare s4\<close> that])
          show "bare s'" if "bare t" "if_ok (Done (t, ERR_OK)) (\<lambda>s6. Done (groups_inited s6, ERR_OK)) = Done (s', err)" for t
            using that by (auto simp: if_ok_def)
        qed
      qed
    qed
  qed (simp add: b)
qed

lemma bare_l2:
  assumes b: "bare s" and c: "mandatory_l2 pl i d s = (s', ok)"
  shows "bare s'"
proof (cases ok)
  case False
  then have "s' = s" using c by (auto simp: mandatory_l2_def mali_l2_cache_create_def Let_def split: if_splits prod.splits)
  then show ?thesis using b by simp
next
  case True
  let ?l = "length (mali_global_l2s s)"
  obtain q k where r: "mali_pm_register_l2_cache d ?l (e_pm (p_exec s)) = (q, k)" by fastforce
  have s': "s' = (alloc (L2Core ?l) (upd_exec (\<lambda>e. e\<lparr>e_pm := q, l2_pm_domain := (l2_pm_domain e)(?l := k)\<rparr>) s))
                 \<lparr>mali_global_l2s := mali_global_l2s s @ [?l]\<rparr>"
    using c r True by (auto simp: mandatory_l2_def mali_l2_cache_create_def Let_def split: if_splits)
  have p: "populated (p_exec s') = populated (p_exec s)" by (simp add: s' alloc_def upd_exec_def populated_def)
  show ?thesis using l2_owned [OF _ refl s'] b p by (simp add: bare_def)
qed

section \<open>After the executor is populated\<close>

lemma release_populated:
  assumes p: "probing [g] s"
  shows "\<exists>s'. release_hardware (upd_exec mali_executor_populate s) = Done s' \<and> live s' = {}"
proof -
  let ?s = "upd_exec mali_executor_populate s"
  define pps where "pps = filter (\<lambda>g. pp_core (groups (p_exec s) g)) (glob_groups (p_exec s))"
  have u: "unpopulated (p_exec s)" and o: "owned s" and gp: "filter (\<lambda>g. gp_core (groups (p_exec s) g)) (glob_groups (p_exec s)) = [g]"
    using p by (simp_all add: probing_def)
  note e = populate_eq [OF u gp pps_def]
  have "pointers ?s = pointers s" by (simp add: pointers_def upd_exec_def e fun_eq_iff)
  then have "owned ?s = owned s" by (intro owned_cong) (simp_all add: upd_exec_def e)
  then have o': "owned ?s" using o by simp
  have nl: "group_list_idle (p_exec s) = []" "group_list_disabled (p_exec s) = []" "virtual_group (p_exec s) = None"
    using u unfolding unpopulated_def no_lists_def by (metis list_of.simps)+
  have d: "distinct pps" "set pps \<subseteq> set (glob_groups (p_exec s))" using o by (auto simp: pps_def owned_def)
  have "g \<in> set (glob_groups (p_exec s))" "gp_core (groups (p_exec s) g)" using gp by (auto simp: filter_eq_Cons_iff)
  moreover from this have "g \<notin> set pps" using u by (auto simp: unpopulated_def new_group_def pps_def)
  ultimately have "\<exists>s'. mali_executor_depopulate ?s = Done s' \<and> owned s'"
    using d nl by (intro depopulate_ok [OF o' refl]) (auto simp: upd_exec_def e)
  then show ?thesis using release_after_depopulate by blast
qed

lemma release_bare:
  assumes "bare s"
  shows "\<exists>s'. release_hardware s = Done s' \<and> live s' = {}"
proof -
  have "mali_executor_depopulate s = Done s" using assms by (simp add: bare_def populated_def mali_executor_depopulate_def)
  from release_after_depopulate [OF this] show ?thesis using assms by (simp add: bare_def)
qed

lemma configure_released:
  assumes m: "product_id pl = Mali400" and p: "probing [] s" and c: "configure_hardware pl s = Done (s', err)"
  shows "\<exists>t. release_hardware s' = Done t \<and> live t = {}"
proof (cases "err = ERR_OK")
  case True
  then show ?thesis using configure_hardware_ok [OF m p] c release_populated by blast
next
  case False
  have "no_lists (p_exec s)" using p by (simp add: probing_def unpopulated_def)
  then have "populated (p_exec s) = (None, None, [], [], [])"
    unfolding no_lists_def populated_def by (metis list_of.simps)
  then have b: "bare s" using p by (simp add: bare_def probing_def)
  obtain s1 e1 where l: "mali_parse_config_l2_cache pl s = (s1, e1)" by fastforce
  have b1: "bare s1" using l m bare_l2 [OF b] by (auto simp: mali_parse_config_l2_cache_def split: prod.splits)
  have "bare s'"
  proof (cases "e1 = ERR_OK")
    case True
    then have "if_ok (mali_parse_config_groups pl s1) (\<lambda>s2. Done (upd_exec mali_executor_populate s2, ERR_OK)) = Done (s', err)"
      using c l by (simp add: configure_hardware_def if_ok_def)
    then show ?thesis using bare_parse_groups [OF m b1] False by (auto simp: if_ok_def bind_outcome_Done split: if_splits)
  next
    case False
    then show ?thesis using c l b1 by (simp add: configure_hardware_def if_ok_def)
  qed
  then show ?thesis by (rule release_bare)
qed

end
