(* ===== verification/Exec_Properties.thy ===== *)
theory Exec_Properties
  imports Exec_Example Probe_Release
begin

text \<open>
  The properties of the executor together with the power manager, in every reachable state or of
  every step.
\<close>

section \<open>More about the example\<close>

lemma example_waiting_groups: "glob_groups example_waiting = [0, 1]"
proof -
  have up: "exec_ok (Rising (told (e_pm example_waiting) (e_pm example_rising))) {} example_rising"
    using exec_reachable_ok [OF example_reached(2)] by simp
  have "fixed example_running = fixed example_rising" by (rule group_power_up_ok(2) [OF up example_results(7)])
  then have u: "glob_groups example_running = glob_groups example_rising" by (rule fixed_eq(1))
  have r: "glob_groups example_rising = glob_groups example_waiting" by (simp add: example_rising_def)
  have ok: "exec_ok Between {} example_running" using exec_reachable_ok [OF example_reached(3)] by simp
  have "fixed example_steady = fixed example_running"
    using group_power_down_ok [OF update_down_step [OF ok] example_steady_def] by simp
  then have "glob_groups example_steady = glob_groups example_running" by (rule fixed_eq(1))
  then show ?thesis using u r example_results(3) by simp
qed


section \<open>Counting\<close>

lemma enabled_length:
  assumes l: "lists_ok e" and n: "enabled_ok e"
  shows "unat (num_physical_pp_cores_enabled e) = length (group_list_inactive e) + length (group_list_idle e) + length (group_list_working e)"
proof -
  have d: "distinct (list_of x e)" "x \<noteq> y \<Longrightarrow> set (list_of x e) \<inter> set (list_of y e) = {}" for x y
    using l by (simp_all add: lists_ok_def)
  have "{g \<in> pp_groups e. place e g \<noteq> EXEC_STATE_DISABLED} = set (list_of Inactive e) \<union> set (list_of Idle e) \<union> set (list_of Working e)"
  proof (intro set_eqI)
    fix g
    have "g \<in> pp_groups e \<Longrightarrow> \<exists>x. place e g = state_of x"
      using place_in_range [OF l, of g] by (auto simp: pp_groups_def)
    then show "g \<in> {g \<in> pp_groups e. place e g \<noteq> EXEC_STATE_DISABLED} \<longleftrightarrow>
        g \<in> set (list_of Inactive e) \<union> set (list_of Idle e) \<union> set (list_of Working e)"
      unfolding Un_iff place_iff [OF l] mem_Collect_eq by (metis group_list.exhaust state_of.simps(1) state_of_inj group_list.distinct)
  qed
  moreover have "card (set (list_of Inactive e) \<union> set (list_of Idle e) \<union> set (list_of Working e)) =
      length (list_of Inactive e) + length (list_of Idle e) + length (list_of Working e)"
    using d(2) [of Inactive Idle] d(2) [of Inactive Working] d(2) [of Idle Working]
    by (simp add: card_Un_disjoint Int_Un_distrib2 distinct_card [OF d(1)] del: list_of.simps)
  ultimately show ?thesis using n by (simp add: enabled_ok_def)
qed

lemma sum_indicator:
  assumes "distinct gs"
  shows "(\<Sum>g \<in> set gs. if P g then 1 else 0) = length (filter P gs)"
proof -
  have "(\<Sum>g \<in> set gs. if P g then 1 else 0) = (\<Sum>g \<in> {g \<in> set gs. P g}. 1 :: nat)" by (rule sum.inter_filter [symmetric]) simp
  also have "\<dots> = length (filter P gs)"
    using distinct_card [OF distinct_filter [OF assms, of P]] by simp
  finally show ?thesis .
qed

lemma uses_length:
  assumes "distinct (glob_groups e)"
  shows "uses e d = length (filter (\<lambda>g. gst e g \<noteq> GROUP_INACTIVE \<and> own e g = d) (glob_groups e)) +
    length (filter (\<lambda>g. gst e g \<noteq> GROUP_INACTIVE \<and> l2_domain e g = d) (glob_groups e))"
proof -
  have "uses e d = (\<Sum>g \<in> set (glob_groups e). (if gst e g \<noteq> GROUP_INACTIVE \<and> own e g = d then 1 else 0) +
      (if gst e g \<noteq> GROUP_INACTIVE \<and> l2_domain e g = d then 1 else 0))"
    unfolding uses_def by (rule sum.cong) simp_all
  then show ?thesis unfolding sum.distrib sum_indicator [OF assms] .
qed

section \<open>Lists, states and jobs\<close>

text \<open>C4: in every reachable state every pixel processor group is in exactly one of the four lists, the
  counts are the lengths of the lists and the number of enabled cores is that of the groups that
  are not disabled; a group is active exactly if it is idle or works, a disabled one is inactive,
  and a group works exactly if it has a running job.\<close>

theorem executor_state_consistent:
  assumes "exec_reachable (e, ph)" and "g \<in> set (glob_groups e)"
  shows "(\<forall>l. distinct (list_of l e) \<and> unat (count_of l e) = length (list_of l e)) \<and>
    (gp_group e \<noteq> Some g \<longrightarrow> (\<exists>!l. g \<in> set (list_of l e))) \<and>
    unat (num_physical_pp_cores_enabled e) = length (group_list_inactive e) + length (group_list_idle e) + length (group_list_working e) \<and>
    (grp_state (groups e g) = GROUP_ACTIVE \<longleftrightarrow>
       mali_executor_group_is_in_state g EXEC_STATE_IDLE e \<or> mali_executor_group_is_in_state g EXEC_STATE_WORKING e) \<and>
    (mali_executor_group_is_in_state g EXEC_STATE_DISABLED e \<longrightarrow> grp_state (groups e g) = GROUP_INACTIVE) \<and>
    (grp_is_working (groups e g) \<longleftrightarrow> mali_executor_group_is_in_state g EXEC_STATE_WORKING e) \<and>
    (grp_is_working (groups e g) \<longleftrightarrow>
       (if gp_core (groups e g) then gp_running_job (groups e g) else pp_running_job (groups e g)) \<noteq> None)"
proof -
  have ok: "exec_ok ph {} e" using exec_reachable_ok [OF assms(1)] by simp
  have l: "lists_ok e" by (rule exec_okD(3) [OF ok])
  have d: "distinct (list_of l e)" "unat (count_of l e) = length (list_of l e)" for l using l by (simp_all add: lists_ok_def)
  have un: "\<exists>!l. g \<in> set (list_of l e)" if "gp_group e \<noteq> Some g"
  proof -
    obtain x where x: "place e g = state_of x" using place_in_range [OF l assms(2)] by blast
    have "g \<in> pp_groups e" using that assms(2) pp_group [OF l] by simp
    then have "g \<in> set (list_of y e) \<longleftrightarrow> y = x" for y using x place_iff [OF l, of g y] by auto
    then show ?thesis by simp
  qed
  have st: "mali_executor_group_is_in_state g (state_of x) e \<longleftrightarrow> place e g = state_of x" for x
    using in_state [OF l _ _ assms(2)] exec_okD(9) [OF ok assms(2)] by (simp add: physical_def)
  have k: "group_ok {} e g" by (rule exec_okD(7) [OF ok assms(2)])
  have b: "fst (snd (busy e g)) = gp_running_job (groups e g)" "snd (snd (busy e g)) = pp_running_job (groups e g)"
    by (simp_all add: busy_def)
  show ?thesis
    using d un k [unfolded group_ok_def running_def b] st [of Idle] st [of Working] st [of Disabled] enabled_length [OF l exec_okD(4) [OF ok]]
    by (auto simp: gst_def busy_def)
qed

theorem executor_state_consistent_witness:
  "grp_is_working (groups example_steady 0) \<and> mali_executor_group_is_in_state 0 EXEC_STATE_WORKING example_steady \<and>
   grp_state (groups example_steady 0) = GROUP_ACTIVE"
  using executor_state_consistent [OF example_reached(4), of 0] example_results(3,9) by simp

section \<open>Power\<close>

text \<open>C5: in every reachable state the power domains of a group that is active or works, its own and that
  of its L2 cache, are marked as powered and, apart from the dummy domain, powered by the PMU, and
  the group knows that it has power: no job is started on a group without power.\<close>

theorem active_groups_powered:
  assumes "exec_reachable (e, ph)" and "g \<in> set (glob_groups e)"
    and "grp_state (groups e g) = GROUP_ACTIVE \<or> grp_is_working (groups e g)" and "d \<in> {grp_pm_domain (groups e g), l2_domain e g}"
  shows "grp_power_is_on (groups e g) \<and> power_is_on (domain (e_pm e) d) \<and>
    (d \<noteq> DOMAIN_DUMMY \<longrightarrow> bit (pmu_mask_current (e_pm e)) d)"
proof -
  have ok: "exec_ok ph {} e" using exec_reachable_ok [OF assms(1)] by simp
  have "gst e g = GROUP_ACTIVE"
    using assms(3) exec_okD(7) [OF ok assms(2)] by (auto simp: group_ok_def gst_def busy_def)
  then have "gpow e g" "powered (e_pm e) d"
    using exec_okD(8) [OF ok assms(2)] assms(4) by (auto simp: group_power_ok_def own_def)
  moreover have "power_ok (e_pm e)" using exec_okD(5) [OF ok] by (simp add: pm_ok_def)
  ultimately show ?thesis by (auto simp: gpow_def powered_def power_ok_def)
qed

theorem active_groups_powered_witness:
  "grp_power_is_on (groups example_steady 0) \<and> power_is_on (domain (e_pm example_steady) (l2_domain example_steady 0))"
  using active_groups_powered [OF example_reached(4), of 0 "l2_domain example_steady 0"] example_results(3,9) by simp

text \<open>C6: in every reachable state the use count of each power domain is the number of references that the
  groups which are not inactive hold, one to their own domain and one to that of their L2 cache:
  no operation of the executor forgets or repeats to take or to give back a reference.\<close>

theorem domain_references_exact:
  assumes "exec_reachable (e, ph)" and "pm_domains (e_pm e) d \<noteq> None"
  shows "unat (use_count (domain (e_pm e) d)) =
    length (filter (\<lambda>g. grp_state (groups e g) \<noteq> GROUP_INACTIVE \<and> grp_pm_domain (groups e g) = d) (glob_groups e)) +
    length (filter (\<lambda>g. grp_state (groups e g) \<noteq> GROUP_INACTIVE \<and> l2_domain e g = d) (glob_groups e))"
proof -
  have ok: "exec_ok ph {} e" using exec_reachable_ok [OF assms(1)] by simp
  have "unat (use_count (domain (e_pm e) d)) = uses e d"
    using exec_okD(6) [OF ok] assms(2) by (simp add: refs_exact_def exists_domain_def)
  moreover have "distinct (glob_groups e)" using exec_okD(1) [OF ok] by (simp add: shape_ok_def)
  ultimately show ?thesis using uses_length [of e d] by (simp add: gst_def own_def)
qed

theorem domain_references_exact_witness:
  "unat (use_count (domain (e_pm example_steady) 2)) = 1"
  using domain_references_exact [OF example_reached(4) example_results(14)] example_results(3,15) by simp

text \<open>C7: a group that waits for power gets it: the next update of the power domains tells it, and when the
  executor has handled the notification the group is active.\<close>

theorem waiting_group_powered:
  assumes "exec_reachable (e, Steady)" and "g \<in> set (glob_groups e)" and "grp_state (groups e g) = GROUP_ACTIVATION_PENDING"
    and "p = update_power_up (e_pm e)" and "power_up_loop (told (e_pm e) p) (e\<lparr>e_pm := p\<rparr>) False False = (e', c, d)"
  shows "g \<in> set (told (e_pm e) p) \<and> grp_state (groups e' g) = GROUP_ACTIVE \<and> grp_power_is_on (groups e' g)"
proof -
  let ?e = "e\<lparr>e_pm := p\<rparr>"
  have ok: "exec_ok Between {} e" using exec_reachable_ok [OF assms(1)] steady_between by simp
  have pok: "pm_ok (e_pm e)" by (rule exec_okD(5) [OF ok])
  have g: "gst e g = GROUP_ACTIVATION_PENDING" using assms(3) by (simp add: gst_def)
  have "group_power_ok Steady e g" using exec_okD(8) [OF _ assms(2)] exec_reachable_ok [OF assms(1)] by simp
  then have "used (e_pm e) (own e g)" "\<not> powered (e_pm e) (own e g)"
    using active_used(1) [OF ok assms(2)] g by (simp_all add: group_power_ok_def)
  then have "bit (up_mask (e_pm e)) (own e g)" using up_mask_bits [OF ok] by blast
  then have t: "g \<in> set (told (e_pm e) p)"
    unfolding assms(4) told_update using told_groups [OF exec_okD(2) [OF ok] exists_bits(3) [OF pok]] assms(2) by blast
  have "exec_ok (Rising (told (e_pm e) p)) {} ?e" using update_up_step [OF ok] by (simp add: assms(4))
  note l = power_up_loop_ok [OF this assms(5)]
  have "gst e' g \<noteq> GROUP_ACTIVATION_PENDING" "gst e' g = gst ?e g \<or> gst e' g = GROUP_ACTIVE"
    using l t by blast+
  then have a: "gst e' g = GROUP_ACTIVE" using g by simp
  have "g \<in> set (glob_groups e')" using l assms(2) fixed_eq(1) [of e' ?e] by simp
  then have "gpow e' g" using exec_okD(8) [of Between "{}" e' g] l a by (simp add: group_power_ok_def)
  then show ?thesis using t a by (simp add: gst_def gpow_def)
qed

theorem waiting_group_powered_witness:
  "0 \<in> set (told (e_pm example_waiting) (update_power_up (e_pm example_waiting)))"
proof -
  obtain e' c d where l: "power_up_loop (told (e_pm example_waiting) (update_power_up (e_pm example_waiting)))
      (example_waiting\<lparr>e_pm := update_power_up (e_pm example_waiting)\<rparr>) False False = (e', c, d)" by (metis prod.collapse)
  have g: "0 \<in> set (glob_groups example_waiting)" by (simp add: example_waiting_groups)
  have "grp_state (groups example_waiting 0) = GROUP_ACTIVATION_PENDING" using example_results(5) by (simp add: gst_def)
  from waiting_group_powered [OF example_reached(1) g this refl l] show ?thesis by blast
qed

section \<open>Running jobs\<close>



text \<open>C9: power is taken away only from groups that nothing uses: when the power manager tells groups that their
  domains are down, none of them works, holds a job or waits for one.\<close>

theorem power_taken_from_unused:
  assumes "exec_reachable (e, Falling gs)" and "g \<in> set gs"
  shows "\<not> grp_is_working (groups e g) \<and> grp_state (groups e g) \<noteq> GROUP_ACTIVE \<and>
    \<not> mali_executor_group_is_in_state g EXEC_STATE_IDLE e \<and> \<not> mali_executor_group_is_in_state g EXEC_STATE_WORKING e"
proof -
  have ok: "exec_ok (Falling gs) {} e" using exec_reachable_ok [OF assms(1)] by simp
  have g: "g \<in> set (glob_groups e)" using ok assms(2) by (auto simp: exec_ok_def)
  have st: "mali_executor_group_is_in_state g (state_of x) e \<longleftrightarrow> place e g = state_of x" for x
    using in_state [OF exec_okD(3) [OF ok] _ _ g] exec_okD(9) [OF ok g] by (simp add: physical_def)
  show ?thesis
    using falling_unused [OF ok assms(2)] st [of Idle] st [of Working] by (auto simp: busy_def gst_def)
qed

theorem power_taken_from_unused_witness:
  "\<not> grp_is_working (groups example_falling 0) \<and> grp_state (groups example_falling 0) \<noteq> GROUP_ACTIVE"
  using power_taken_from_unused [OF example_reached(7), of 0] by simp

text \<open>C10: once no group works any more the suspension of the executor makes every group inactive, and then the
  power manager can power down all domains at once: it is not refused because a domain is still used.\<close>

theorem suspension_completes:
  assumes "exec_reachable (e, Steady)" and "mali_executor_is_suspended e"
  shows "(\<forall>g. g \<in> set (glob_groups (suspend_finish e)) \<longrightarrow> grp_state (groups (suspend_finish e) g) = GROUP_INACTIVE) \<and>
    (\<exists>p. mali_pm_common_suspend (e_pm (suspend_finish e)) = (p, True) \<and> (\<forall>d. \<not> powered p d))"
proof -
  have ok: "exec_ok Steady {} e" and w: "\<not> mali_executor_is_working e"
    using exec_reachable_ok [OF assms(1)] assms(2) by (simp_all add: mali_executor_is_suspended_def)
  note s = suspend_finish_ok [OF ok w]
  have "grp_state (groups (suspend_finish e) g) = GROUP_INACTIVE" if "g \<in> set (glob_groups (suspend_finish e))" for g
    using s(3) [of g] that fixed_eq(1) [OF s(2)] by (simp add: gst_def)
  then show ?thesis using suspended_powers_down [OF ok w] suspend_step(3) [OF s(1)] by blast
qed

theorem suspension_completes_witness:
  "\<exists>p. mali_pm_common_suspend (e_pm (suspend_finish example_paused)) = (p, True)"
  using suspension_completes [OF example_reached(5) example_results(11)] by blast

section \<open>Creating and deleting groups\<close>



text \<open>C25: however the probing of a Mali-400 ends, with success or at any step that fails, unless it has followed
  a dangling pointer, giving the hardware back frees every object that is still allocated and
  none of them twice.\<close>

theorem hardware_released:
  assumes "product_id pl = Mali400" and "config_ok c" and "mali_pm_create_pm_domains ok (pm_boot c active) = (p, ERR_OK)"
    and "configure_hardware pl (probe_boot (executor_boot \<sigma> p secure pmu) max1 max2 runtime) = Done (s, err)"
  shows "\<exists>s'. release_hardware s = Done s' \<and> live s' = {}"
  by (rule configure_released [OF assms(1) probing_boot [OF assms(2,3)] assms(4)])

theorem hardware_released_witness:
  "\<exists>s'. release_hardware example_probe = Done s' \<and> live s' = {}"
  by (rule hardware_released [OF _ example_config_ok example_domains_created example_results(1) [unfolded example_boot_def]])
    (simp add: example_platform_def)

end
