(* ===== verification/Page_Directory.thy ===== *)
theory Page_Directory
  imports GPU_State
begin

text \<open>
  The page tables of the GPU (common/mali_mmu_page_directory.c) and the pool of pages they are made
  of (linux/mali_memory_os_alloc.c). A page directory has 1024 entries, each for a page table with
  1024 entries, each for a page of 4096 bytes.

  A mapping of a table page into the kernel is represented by the bus address of the page it maps,
  NULL by 0. The contents of a page that comes from the kernel or from the pool are what they are:
  \<open>words\<close> is total, and only the driver's own writes change it.
\<close>

section \<open>Addresses and entries\<close>

definition MALI_MMU_PAGE_SIZE :: u32 where "MALI_MMU_PAGE_SIZE = 0x1000"
definition MALI_MMU_VIRTUAL_PAGE_SIZE :: u32 where "MALI_MMU_VIRTUAL_PAGE_SIZE = 0x400000"

definition MALI_MMU_PDE_ENTRY :: "u32 \<Rightarrow> nat" where
  "MALI_MMU_PDE_ENTRY a = unat (drop_bit 22 a AND 0x3FF)"

definition MALI_MMU_PTE_ENTRY :: "u32 \<Rightarrow> nat" where
  "MALI_MMU_PTE_ENTRY a = unat (drop_bit 12 a AND 0x3FF)"

definition MALI_MMU_ENTRY_ADDRESS :: "u32 \<Rightarrow> u32" where
  "MALI_MMU_ENTRY_ADDRESS v = v AND 0xFFFFFC00"

definition MALI_INVALID_PAGE :: u32 where "MALI_INVALID_PAGE = NOT 0"

definition FLAGS_PRESENT :: u32 where "FLAGS_PRESENT = 1"
definition FLAGS_READ_PERMISSION :: u32 where "FLAGS_READ_PERMISSION = 2"
definition FLAGS_WRITE_PERMISSION :: u32 where "FLAGS_WRITE_PERMISSION = 4"
definition FLAGS_MASK :: u32 where "FLAGS_MASK = 0x1FF"

definition MALI_MMU_FLAGS_DEFAULT :: u32 where
  "MALI_MMU_FLAGS_DEFAULT = FLAGS_PRESENT OR FLAGS_READ_PERMISSION OR FLAGS_WRITE_PERMISSION"

section \<open>Table pages\<close>

datatype l2_request = InvalidateAll | InvalidatePages "u32 list"

text \<open>The pages the kernel has given to the driver, and those of them in the pool, the last entry first out.\<close>

record table_memory =
  words :: "u32 \<Rightarrow> nat \<Rightarrow> u32"
  table_pool :: "(u32 \<times> u32) list"
  dma_pages :: "u32 set"
  dma_calls :: nat
  l2_log :: "l2_request list"

text \<open>What the kernel answers to a request for a page: it may depend on when it is made, and on the pages given.\<close>

type_synonym dma = "nat \<Rightarrow> u32 set \<Rightarrow> u32 option"

definition mem_write :: "u32 \<Rightarrow> nat \<Rightarrow> u32 \<Rightarrow> table_memory \<Rightarrow> table_memory" where
  "mem_write p i v m = m\<lparr>words := (words m)(p := (words m p)(i := v))\<rparr>"

definition fill_page :: "u32 \<Rightarrow> u32 \<Rightarrow> table_memory \<Rightarrow> table_memory" where
  "fill_page p v m = m\<lparr>words := (words m)(p := (\<lambda>i. if i < 1024 then v else words m p i))\<rparr>"

definition PAGE_TABLE_PAGE_POOL_SIZE :: nat where "PAGE_TABLE_PAGE_POOL_SIZE = 128"
definition CHUNK_TO_FREE :: nat where "CHUNK_TO_FREE = 64"

definition mali_mem_os_get_table_page :: "dma \<Rightarrow> table_memory \<Rightarrow> table_memory \<times> (u32 \<times> u32) option" where
  "mali_mem_os_get_table_page alloc m =
     (if 0 < length (table_pool m)
      then (m\<lparr>table_pool := butlast (table_pool m)\<rparr>, Some (last (table_pool m)))
      else let m1 = m\<lparr>dma_calls := dma_calls m + 1\<rparr> in
        case alloc (dma_calls m) (dma_pages m) of
          None \<Rightarrow> (m1, None)
        | Some p \<Rightarrow> (m1\<lparr>dma_pages := insert p (dma_pages m)\<rparr>, Some (p, p)))"

definition mali_mem_os_release_table_page :: "u32 \<Rightarrow> u32 \<Rightarrow> table_memory \<Rightarrow> table_memory" where
  "mali_mem_os_release_table_page phys virt m =
     (if PAGE_TABLE_PAGE_POOL_SIZE > length (table_pool m)
      then m\<lparr>table_pool := table_pool m @ [(phys, virt)]\<rparr>
      else m\<lparr>dma_pages := dma_pages m - {phys}\<rparr>)"

definition mali_mem_os_page_table_pool_free :: "nat \<Rightarrow> table_memory \<Rightarrow> table_memory" where
  "mali_mem_os_page_table_pool_free nr m =
     (let k = length (table_pool m) - nr
      in m\<lparr>table_pool := take k (table_pool m), dma_pages := dma_pages m - fst ` set (drop k (table_pool m))\<rparr>)"

text \<open>The timer that trims the pools: two table pages are kept for each 1024 pages in the other pool, and eight.\<close>

definition mali_mem_os_trim_page_table_page_pool :: "nat \<Rightarrow> table_memory \<Rightarrow> table_memory" where
  "mali_mem_os_trim_page_table_page_pool pool_count m =
     (let nr_to_keep = pool_count div 512 + 8
      in mali_mem_os_page_table_pool_free
           (if nr_to_keep < length (table_pool m) then min CHUNK_TO_FREE (length (table_pool m) - nr_to_keep) else 0) m)"

function release_pool :: "table_memory \<Rightarrow> table_memory" where
  "release_pool m =
     (let m1 = mali_mem_os_page_table_pool_free (min CHUNK_TO_FREE (length (table_pool m))) m
      in if 0 \<noteq> length (table_pool m1) then release_pool m1 else m1)"
  by auto
termination
  by (relation "measure (\<lambda>m. length (table_pool m))")
    (auto simp: mali_mem_os_page_table_pool_free_def CHUNK_TO_FREE_def Let_def)

declare release_pool.simps [simp del]

section \<open>Page directories\<close>

record page_directory =
  page_dir :: u32
  page_directory_mapped :: u32
  page_entries_mapped :: "nat \<Rightarrow> u32"
  page_entries_usage_count :: "nat \<Rightarrow> u32"

definition set_entry :: "nat \<Rightarrow> u32 \<Rightarrow> page_directory \<Rightarrow> page_directory" where
  "set_entry i p pd = pd\<lparr>page_entries_mapped := (page_entries_mapped pd)(i := p)\<rparr>"

definition set_usage :: "nat \<Rightarrow> u32 \<Rightarrow> page_directory \<Rightarrow> page_directory" where
  "set_usage i n pd = pd\<lparr>page_entries_usage_count := (page_entries_usage_count pd)(i := n)\<rparr>"

definition pde :: "page_directory \<Rightarrow> nat \<Rightarrow> table_memory \<Rightarrow> u32" where
  "pde pd i m = words m (page_directory_mapped pd) i"

definition mali_mmu_pagedir_alloc :: "dma \<Rightarrow> bool \<Rightarrow> table_memory \<Rightarrow> table_memory \<times> page_directory option" where
  "mali_mmu_pagedir_alloc alloc can_calloc m =
     (if \<not> can_calloc then (m, None)
      else case mali_mem_os_get_table_page alloc m of
        (m1, None) \<Rightarrow> (m1, None)
      | (m1, Some (phys, virt)) \<Rightarrow>
          (fill_page virt 0 m1, Some \<lparr>page_dir = phys, page_directory_mapped = virt,
             page_entries_mapped = (\<lambda>_. 0), page_entries_usage_count = (\<lambda>_. 0)\<rparr>))"

fun free_tables :: "page_directory \<Rightarrow> nat list \<Rightarrow> table_memory \<Rightarrow> table_memory" where
  "free_tables pd [] m = m"
| "free_tables pd (i # is) m =
     free_tables pd is
       (if page_directory_mapped pd \<noteq> 0 \<and> pde pd i m AND FLAGS_PRESENT \<noteq> 0
        then mali_mem_os_release_table_page (pde pd i m AND NOT FLAGS_MASK) (page_entries_mapped pd i)
               (mem_write (page_directory_mapped pd) i 0 m)
        else m)"

definition mali_mmu_pagedir_free :: "page_directory \<Rightarrow> table_memory \<Rightarrow> table_memory" where
  "mali_mmu_pagedir_free pd m =
     mali_mem_os_release_table_page (page_dir pd) (page_directory_mapped pd) (free_tables pd [0 ..< 1024] m)"

section \<open>Reserving addresses\<close>

text \<open>The pages of the range that lie in entry \<open>i\<close> are added to its usage count; an entry in the middle has them all.\<close>

definition count_pages :: "nat \<Rightarrow> nat \<Rightarrow> u32 \<Rightarrow> u32 \<Rightarrow> nat \<Rightarrow> u32 \<Rightarrow> u32" where
  "count_pages first_pde last_pde a sz i n =
     (if first_pde = last_pde then n + sz div MALI_MMU_PAGE_SIZE
      else if i = first_pde
      then n + (of_nat i * MALI_MMU_VIRTUAL_PAGE_SIZE + MALI_MMU_VIRTUAL_PAGE_SIZE - a) div MALI_MMU_PAGE_SIZE
      else if i = last_pde then n + (a + sz - of_nat i * MALI_MMU_VIRTUAL_PAGE_SIZE) div MALI_MMU_PAGE_SIZE
      else 1024)"

text \<open>A page table is made present in an entry without one.\<close>

definition ensure_table :: "dma \<Rightarrow> nat \<Rightarrow> page_directory \<times> table_memory \<Rightarrow> (page_directory \<times> table_memory) \<times> bool" where
  "ensure_table alloc i = (\<lambda>(pd, m).
     if pde pd i m AND FLAGS_PRESENT = 0
     then case mali_mem_os_get_table_page alloc m of
            (m1, None) \<Rightarrow> ((pd, m1), False)
          | (m1, Some (phys, virt)) \<Rightarrow>
              ((set_entry i virt pd, mem_write (page_directory_mapped pd) i (phys OR FLAGS_PRESENT) m1), True)
     else ((pd, m), True))"

fun map_entries :: "dma \<Rightarrow> nat \<Rightarrow> nat \<Rightarrow> u32 \<Rightarrow> u32 \<Rightarrow> nat list \<Rightarrow> page_directory \<times> table_memory \<Rightarrow>
    (page_directory \<times> table_memory) \<times> osk_err" where
  "map_entries alloc first_pde last_pde a sz [] s = (s, ERR_OK)"
| "map_entries alloc first_pde last_pde a sz (i # is) s =
     (case ensure_table alloc i s of
        (s1, False) \<Rightarrow> (s1, ERR_NOMEM)
      | ((pd, m), True) \<Rightarrow>
          map_entries alloc first_pde last_pde a sz is
            (set_usage i (count_pages first_pde last_pde a sz i (page_entries_usage_count pd i)) pd, m))"

definition mali_mmu_pagedir_map :: "dma \<Rightarrow> u32 \<Rightarrow> u32 \<Rightarrow> page_directory \<times> table_memory \<Rightarrow>
    (page_directory \<times> table_memory) \<times> osk_err" where
  "mali_mmu_pagedir_map alloc a sz s =
     (let first_pde = MALI_MMU_PDE_ENTRY a; last_pde = MALI_MMU_PDE_ENTRY (a + sz - 1) in
      if last_pde < first_pde then (s, ERR_INVALID_ARGS)
      else map_entries alloc first_pde last_pde a sz [first_pde ..< Suc last_pde] s)"

section \<open>Giving addresses back\<close>

definition mali_mmu_zero_pte :: "u32 \<Rightarrow> u32 \<Rightarrow> u32 \<Rightarrow> table_memory \<Rightarrow> table_memory" where
  "mali_mmu_zero_pte t a sz m =
     fold (\<lambda>i. mem_write t i 0) [MALI_MMU_PTE_ENTRY a ..< Suc (MALI_MMU_PTE_ENTRY (a + sz - 1))] m"

definition mali_page_directory_get_phys_address :: "page_directory \<Rightarrow> nat \<Rightarrow> table_memory \<Rightarrow> u32" where
  "mali_page_directory_get_phys_address pd i m = pde pd i m AND NOT FLAGS_MASK"

text \<open>What the loop has collected: whether the directory has changed, the pages to invalidate in the L2 caches,
  and whether there were too many of them for the array.\<close>

record unmap_state =
  pd_changed :: bool
  pages_to_invalidate :: "u32 list"
  invalidate_all :: bool

definition add_page :: "nat \<Rightarrow> u32 \<Rightarrow> unmap_state \<Rightarrow> unmap_state" where
  "add_page limit p u =
     (if length (pages_to_invalidate u) < limit then u\<lparr>pages_to_invalidate := pages_to_invalidate u @ [p]\<rparr>
      else u\<lparr>invalidate_all := True\<rparr>)"

text \<open>One entry, with the part of the range that lies in it. A missing page table is an assertion of the code
  before it is dereferenced.\<close>

definition unmap_entry :: "nat \<Rightarrow> u32 \<Rightarrow> u32 \<Rightarrow> unmap_state \<times> page_directory \<times> table_memory \<Rightarrow>
    (unmap_state \<times> page_directory \<times> table_memory) outcome" where
  "unmap_entry i a size_in_pde = (\<lambda>(u, pd, m).
     if page_entries_mapped pd i = 0 then Oops
     else let n = page_entries_usage_count pd i - size_in_pde div MALI_MMU_PAGE_SIZE; pd1 = set_usage i n pd in
       if n = 0
       then Done (u\<lparr>pd_changed := True\<rparr>, set_entry i 0 pd1,
              mali_mem_os_release_table_page (MALI_MMU_ENTRY_ADDRESS (pde pd i m)) (page_entries_mapped pd i)
                (mem_write (page_directory_mapped pd) i 0 m))
       else Done (add_page 2 (mali_page_directory_get_phys_address pd1 i m) u, pd1,
              mali_mmu_zero_pte (page_entries_mapped pd i) a size_in_pde m))"

fun unmap_entries :: "nat list \<Rightarrow> u32 \<Rightarrow> u32 \<Rightarrow> unmap_state \<times> page_directory \<times> table_memory \<Rightarrow>
    (unmap_state \<times> page_directory \<times> table_memory) outcome" where
  "unmap_entries [] a left s = Done s"
| "unmap_entries (i # is) a left s =
     (let offset = a AND (MALI_MMU_VIRTUAL_PAGE_SIZE - 1);
          size_in_pde = (if left < MALI_MMU_VIRTUAL_PAGE_SIZE - offset then left else MALI_MMU_VIRTUAL_PAGE_SIZE - offset)
      in bind_outcome (unmap_entry i a size_in_pde s) (unmap_entries is (a + size_in_pde) (left - size_in_pde)))"

definition mali_mmu_pagedir_unmap :: "u32 \<Rightarrow> u32 \<Rightarrow> page_directory \<times> table_memory \<Rightarrow> (page_directory \<times> table_memory) outcome" where
  "mali_mmu_pagedir_unmap a sz = (\<lambda>(pd, m).
     bind_outcome
       (unmap_entries [MALI_MMU_PDE_ENTRY a ..< Suc (MALI_MMU_PDE_ENTRY (a + sz - 1))] a sz
          (\<lparr>pd_changed = False, pages_to_invalidate = [], invalidate_all = False\<rparr>, pd, m))
       (\<lambda>(u, pd1, m1).
          let u1 = (if pd_changed u then add_page 3 (page_dir pd1) u else u)
          in Done (pd1, m1\<lparr>l2_log := l2_log m1 @
               [if invalidate_all u1 then InvalidateAll else InvalidatePages (pages_to_invalidate u1)]\<rparr>)))"

section \<open>Backing addresses with pages\<close>

fun update_pages :: "nat \<Rightarrow> page_directory \<Rightarrow> u32 \<Rightarrow> u32 \<Rightarrow> u32 \<Rightarrow> u32 \<Rightarrow> table_memory \<Rightarrow> table_memory outcome" where
  "update_pages fuel pd a end_address phys permission_bits m =
     (if a < end_address
      then case fuel of
             0 \<Rightarrow> OutOfFuel
           | Suc n \<Rightarrow>
               let t = page_entries_mapped pd (MALI_MMU_PDE_ENTRY a) in
               if t = 0 then Oops
               else update_pages n pd (a + MALI_MMU_PAGE_SIZE) end_address (phys + MALI_MMU_PAGE_SIZE) permission_bits
                      (mem_write t (MALI_MMU_PTE_ENTRY a) (phys OR permission_bits) m)
      else Done m)"

declare update_pages.simps [simp del]

definition mali_mmu_pagedir_update ::
    "nat \<Rightarrow> page_directory \<Rightarrow> u32 \<Rightarrow> u32 \<Rightarrow> u32 \<Rightarrow> u32 \<Rightarrow> table_memory \<Rightarrow> table_memory outcome" where
  "mali_mmu_pagedir_update fuel pd a phys sz permission_bits m =
     update_pages fuel pd a (a + sz) phys permission_bits m"

text \<open>What a fault at an address is reported with: the address of the page table and the entry, if there is a table.\<close>

definition mali_mmu_pagedir_diag :: "page_directory \<Rightarrow> u32 \<Rightarrow> table_memory \<Rightarrow> (u32 \<times> u32) option" where
  "mali_mmu_pagedir_diag pd fault_addr m =
     (let e = pde pd (MALI_MMU_PDE_ENTRY fault_addr) m in
      if e AND FLAGS_PRESENT \<noteq> 0
      then Some (MALI_MMU_ENTRY_ADDRESS e,
                 words m (page_entries_mapped pd (MALI_MMU_PDE_ENTRY fault_addr)) (MALI_MMU_PTE_ENTRY fault_addr))
      else None)"

text \<open>What the MMU does with an address: it reads the entry of the directory, then that of the table.\<close>

definition mmu_walk :: "u32 \<Rightarrow> table_memory \<Rightarrow> u32 \<Rightarrow> u32 option" where
  "mmu_walk root m a =
     (let e = words m root (MALI_MMU_PDE_ENTRY a) in
      if e AND FLAGS_PRESENT = 0 then None
      else let t = words m (MALI_MMU_ENTRY_ADDRESS e) (MALI_MMU_PTE_ENTRY a)
           in if t AND FLAGS_PRESENT = 0 then None else Some t)"

definition walk :: "page_directory \<Rightarrow> table_memory \<Rightarrow> u32 \<Rightarrow> u32 option" where
  "walk pd = mmu_walk (page_dir pd)"

end
