(* ===== verification/Page_Ranges.thy ===== *)
theory Page_Ranges
  imports Page_Directory
begin

text \<open>
  Addresses as numbers of pages. The driver works with ranges of whole pages that start at a page;
  this theory says which entries and how many pages of each entry such a range has.
\<close>

section \<open>Pages and entries\<close>

definition page_addr :: "nat \<Rightarrow> u32" where
  "page_addr p = of_nat (4096 * p)"

definition PAGES :: nat where "PAGES = 1024 * 1024"

lemma pde_entry_div: "MALI_MMU_PDE_ENTRY a = unat a div 4194304"
proof -
  have "drop_bit 22 a AND 0x3FF = take_bit 10 (drop_bit 22 a)" by (simp add: take_bit_eq_mask mask_numeral)
  moreover have "unat a div 4194304 < 1024" using unat_lt_u32 [of a] by (simp add: less_mult_imp_div_less)
  ultimately show ?thesis
    by (simp add: MALI_MMU_PDE_ENTRY_def take_bit_eq_mod drop_bit_eq_div unat_mod unat_div)
qed

lemma pte_entry_div: "MALI_MMU_PTE_ENTRY a = unat a div 4096 mod 1024"
proof -
  have "drop_bit 12 a AND 0x3FF = take_bit 10 (drop_bit 12 a)" by (simp add: take_bit_eq_mask mask_numeral)
  then show ?thesis
    by (simp add: MALI_MMU_PTE_ENTRY_def take_bit_eq_mod drop_bit_eq_div unat_mod unat_div)
qed

lemma pde_lt: "MALI_MMU_PDE_ENTRY a < 1024"
  using unat_lt_u32 [of a] by (simp add: pde_entry_div less_mult_imp_div_less)

lemma unat_of_small: "n < 4294967296 \<Longrightarrow> unat (of_nat n :: u32) = n"
  by (simp add: unat_of_nat)

lemma unat_page_addr: "p < PAGES \<Longrightarrow> unat (page_addr p) = 4096 * p"
  using unat_of_small [of "4096 * p"] by (simp add: page_addr_def PAGES_def del: of_nat_mult)

lemma page_addr_add: "page_addr p + page_addr q = page_addr (p + q)"
  by (simp add: page_addr_def distrib_left)

lemma page_addr_diff: "q \<le> p \<Longrightarrow> page_addr p - page_addr q = page_addr (p - q)"
  by (simp add: page_addr_def of_nat_diff right_diff_distrib)

lemma page_addr_Suc: "page_addr p + MALI_MMU_PAGE_SIZE = page_addr (Suc p)"
  by (simp add: page_addr_def MALI_MMU_PAGE_SIZE_def)

lemma page_entries:
  assumes "p < PAGES"
  shows "MALI_MMU_PDE_ENTRY (page_addr p) = p div 1024" "MALI_MMU_PTE_ENTRY (page_addr p) = p mod 1024"
  using assms by (simp_all add: pde_entry_div pte_entry_div unat_page_addr div_mult2_eq [symmetric])

text \<open>The last byte of a range.\<close>

lemma last_entries:
  assumes "0 < p" "p \<le> PAGES"
  shows "MALI_MMU_PDE_ENTRY (page_addr p - 1) = (p - 1) div 1024" "MALI_MMU_PTE_ENTRY (page_addr p - 1) = (p - 1) mod 1024"
proof -
  obtain q where q: "p = Suc q" using assms(1) by (cases p) auto
  have "page_addr p - 1 = of_nat (4096 * q + 4095)" by (simp add: page_addr_def q)
  then have "unat (page_addr p - 1) = 4096 * q + 4095"
    using assms(2) unat_of_small [of "4096 * q + 4095"] by (simp add: PAGES_def q del: of_nat_mult of_nat_add)
  then show "MALI_MMU_PDE_ENTRY (page_addr p - 1) = (p - 1) div 1024" "MALI_MMU_PTE_ENTRY (page_addr p - 1) = (p - 1) mod 1024"
    by (simp_all add: pde_entry_div pte_entry_div q)
qed

lemma page_addr_div:
  assumes "n < PAGES" shows "page_addr n div MALI_MMU_PAGE_SIZE = of_nat n"
proof -
  have "unat (page_addr n div MALI_MMU_PAGE_SIZE) = n"
    using assms by (simp add: MALI_MMU_PAGE_SIZE_def unat_div unat_page_addr)
  moreover have "unat (of_nat n :: u32) = n" using assms by (intro unat_of_small) (simp add: PAGES_def)
  ultimately show ?thesis by (simp add: word_unat_eq_iff)
qed

section \<open>The part of a range in one entry\<close>

definition in_entry :: "nat \<Rightarrow> nat \<Rightarrow> nat \<Rightarrow> nat set" where
  "in_entry i lo hi = {max lo (1024 * i) ..< min hi (1024 * Suc i)}"

lemma in_entry_iff: "p \<in> in_entry i lo hi \<longleftrightarrow> lo \<le> p \<and> p < hi \<and> p div 1024 = i"
  by (auto simp: in_entry_def)

lemma table_start: "of_nat i * MALI_MMU_VIRTUAL_PAGE_SIZE = page_addr (1024 * i)"
  by (simp add: page_addr_def MALI_MMU_VIRTUAL_PAGE_SIZE_def mult.commute)

lemma count_pages_eq:
  assumes "0 < n" "p + n \<le> PAGES" "n < PAGES"
    and f: "f = p div 1024" "l = (p + n - 1) div 1024" and i: "f \<le> i" "i \<le> l"
    and free: "f < i \<Longrightarrow> i < l \<Longrightarrow> c = 0"
  shows "count_pages f l (page_addr p) (page_addr n) i (of_nat c) = of_nat (c + card (in_entry i p (p + n)))"
proof -
  have p: "p < PAGES" using assms by simp
  have lo: "1024 * f \<le> p" "p < 1024 * Suc f" and hi: "1024 * l \<le> p + n - 1" "p + n - 1 < 1024 * Suc l"
    using f by (simp_all add: dividend_less_times_div)
  consider "f = l" | "i = f" "f < l" | "i = l" "f < l" | "f < i" "i < l" using i by linarith
  then show ?thesis
  proof cases
    case 1
    then have "in_entry i p (p + n) = {p ..< p + n}" using i lo hi by (auto simp: in_entry_def)
    then show ?thesis using 1 by (simp add: count_pages_def page_addr_div assms(3))
  next
    case 2
    then have "1024 * Suc f \<le> p + n - 1" using hi(1) by (meson Suc_leI le_trans mult_le_mono2)
    then have e: "in_entry i p (p + n) = {p ..< 1024 * Suc f}" using 2 lo by (auto simp: in_entry_def)
    have "page_addr (1024 * f) + page_addr 1024 - page_addr p = page_addr (1024 * Suc f - p)"
      using lo by (simp add: page_addr_add page_addr_diff add.commute)
    moreover have "page_addr 1024 = MALI_MMU_VIRTUAL_PAGE_SIZE" by (simp add: page_addr_def MALI_MMU_VIRTUAL_PAGE_SIZE_def)
    moreover have "1024 * Suc f - p < PAGES" using lo by (simp add: PAGES_def)
    ultimately show ?thesis using 2 e by (simp add: count_pages_def table_start page_addr_div)
  next
    case 3
    then have "p < 1024 * l" using lo(2) by (meson Suc_leI less_le_trans mult_le_mono2)
    then have e: "in_entry i p (p + n) = {1024 * l ..< p + n}" using 3 hi by (auto simp: in_entry_def)
    have "page_addr p + page_addr n - page_addr (1024 * l) = page_addr (p + n - 1024 * l)"
      using hi by (simp add: page_addr_add page_addr_diff)
    moreover have "p + n - 1024 * l < PAGES" using hi assms(1) by (simp add: PAGES_def)
    ultimately show ?thesis using 3 e by (simp add: count_pages_def table_start page_addr_div)
  next
    case 4
    then have "p < 1024 * i" "1024 * Suc i \<le> p + n - 1"
      using lo(2) hi(1) by (meson Suc_leI less_le_trans le_trans mult_le_mono2)+
    then have "in_entry i p (p + n) = {1024 * i ..< 1024 * Suc i}" by (auto simp: in_entry_def)
    then show ?thesis using 4 free by (simp add: count_pages_def)
  qed
qed

text \<open>The part that is still to be given back when the loop over the entries is at entry \<open>i\<close>.\<close>

lemma size_in_entry:
  assumes "p < hi" "hi \<le> PAGES" "hi - p < PAGES" and i: "i = p div 1024" and q: "q = min hi (1024 * Suc i)"
  shows "(let offset = page_addr p AND (MALI_MMU_VIRTUAL_PAGE_SIZE - 1) in
      if page_addr (hi - p) < MALI_MMU_VIRTUAL_PAGE_SIZE - offset then page_addr (hi - p)
      else MALI_MMU_VIRTUAL_PAGE_SIZE - offset) = page_addr (q - p)"
proof -
  have pl: "p < PAGES" using assms by simp
  have lo: "1024 * i \<le> p" "p < 1024 * Suc i" using i by (simp_all add: dividend_less_times_div)
  have "page_addr p AND (MALI_MMU_VIRTUAL_PAGE_SIZE - 1) = take_bit 22 (page_addr p)"
    by (simp add: MALI_MMU_VIRTUAL_PAGE_SIZE_def take_bit_eq_mask mask_numeral)
  then have "unat (page_addr p AND (MALI_MMU_VIRTUAL_PAGE_SIZE - 1)) = 4096 * p mod 4194304"
    using unat_page_addr [OF pl] by (simp add: take_bit_eq_mod unat_mod)
  also have "\<dots> = 4096 * (p mod 1024)" by (simp add: mult_mod_right [of 4096 p 1024, simplified])
  also have "p mod 1024 = p - 1024 * i" by (simp add: i minus_mult_div_eq_mod)
  finally have off: "page_addr p AND (MALI_MMU_VIRTUAL_PAGE_SIZE - 1) = page_addr (p - 1024 * i)"
    using unat_page_addr [of "p - 1024 * i"] pl by (metis diff_le_self le_less_trans word_unat_eq_iff)
  have v: "MALI_MMU_VIRTUAL_PAGE_SIZE = page_addr 1024" by (simp add: page_addr_def MALI_MMU_VIRTUAL_PAGE_SIZE_def)
  have d: "MALI_MMU_VIRTUAL_PAGE_SIZE - page_addr (p - 1024 * i) = page_addr (1024 * Suc i - p)"
  proof -
    have "1024 - (p - 1024 * i) = 1024 * Suc i - p" "p - 1024 * i \<le> 1024" using lo by simp_all
    then show ?thesis unfolding v by (simp add: page_addr_diff)
  qed
  have lt: "page_addr (hi - p) < page_addr (1024 * Suc i - p) \<longleftrightarrow> hi - p < 1024 * Suc i - p"
    using assms(3) lo unat_page_addr [of "1024 * Suc i - p"] unat_page_addr [of "hi - p"] by (simp add: word_less_nat_alt PAGES_def)
  have "q - p = (if hi - p < 1024 * Suc i - p then hi - p else 1024 * Suc i - p)" using q assms(1) lo by (auto simp: min_def)
  then show ?thesis unfolding Let_def off d lt by simp
qed

end
