(* ===== verification/Page_Tables.thy ===== *)
theory Page_Tables
  imports Page_Ranges
begin

text \<open>
  What holds of a page directory between two operations: which entries have a page table, what
  their usage counts are, and that the pages it uses are its own. A directory is described by the
  set \<open>R\<close> of pages that are reserved in it.
\<close>

section \<open>Pages of the kernel\<close>

text \<open>The kernel gives whole pages that are not in use, and never page 0.\<close>

definition page_ok :: "u32 \<Rightarrow> bool" where
  "page_ok p \<longleftrightarrow> p \<noteq> 0 \<and> p AND 0xFFF = 0"

definition dma_ok :: "dma \<Rightarrow> bool" where
  "dma_ok alloc \<longleftrightarrow> (\<forall>n P p. alloc n P = Some p \<longrightarrow> p \<notin> P \<and> page_ok p)"

definition memory_ok :: "table_memory \<Rightarrow> bool" where
  "memory_ok m \<longleftrightarrow> distinct (map fst (table_pool m)) \<and> (\<forall>(phys, virt) \<in> set (table_pool m). phys = virt) \<and>
     fst ` set (table_pool m) \<subseteq> dma_pages m \<and> (\<forall>p \<in> dma_pages m. page_ok p) \<and>
     length (table_pool m) \<le> PAGE_TABLE_PAGE_POOL_SIZE"

text \<open>The pages that are neither with the kernel nor in the pool.\<close>

definition in_use :: "table_memory \<Rightarrow> u32 set" where
  "in_use m = dma_pages m - fst ` set (table_pool m)"

lemma get_table_page_ok:
  assumes "memory_ok m" "dma_ok alloc" and "mali_mem_os_get_table_page alloc m = (m', r)"
  shows "memory_ok m' \<and> words m' = words m \<and> l2_log m' = l2_log m \<and>
    (case r of None \<Rightarrow> in_use m' = in_use m
     | Some (phys, virt) \<Rightarrow> phys = virt \<and> page_ok phys \<and> phys \<notin> in_use m \<and> in_use m' = insert phys (in_use m))"
proof (cases "table_pool m = []")
  case True
  then show ?thesis
    using assms by (auto simp: mali_mem_os_get_table_page_def Let_def dma_ok_def memory_ok_def in_use_def split: option.splits)
next
  case False
  then obtain ps p where p: "table_pool m = ps @ [p]" by (metis rev_exhaust)
  then have "fst p = snd p" "fst p \<notin> fst ` set ps" "fst p \<in> dma_pages m" "page_ok (fst p)" "distinct (map fst ps)"
    using assms(1) by (auto simp: memory_ok_def)
  moreover have "x \<in> dma_pages m" if "(x, y) \<in> set ps" for x y
    using assms(1) p that by (force simp: memory_ok_def)
  ultimately show ?thesis
    using assms(1,3) p by (cases p) (auto simp: mali_mem_os_get_table_page_def memory_ok_def in_use_def)
qed

lemma release_table_page_ok:
  assumes "memory_ok m" "p \<in> in_use m" and "m' = mali_mem_os_release_table_page p p m"
  shows "memory_ok m' \<and> words m' = words m \<and> l2_log m' = l2_log m \<and> in_use m' = in_use m - {p}"
  using assms by (auto simp: mali_mem_os_release_table_page_def memory_ok_def in_use_def)

lemma mem_write_views [simp]:
  "memory_ok (mem_write p i v m) = memory_ok m" "in_use (mem_write p i v m) = in_use m"
  "l2_log (mem_write p i v m) = l2_log m"
  by (simp_all add: mem_write_def memory_ok_def in_use_def)

lemma words_mem_write: "words (mem_write p i v m) q j = (if q = p \<and> j = i then v else words m q j)"
  by (simp add: mem_write_def)

section \<open>Entries\<close>

lemma page_flags:
  assumes "page_ok p"
  shows "(p OR FLAGS_PRESENT) AND FLAGS_PRESENT \<noteq> 0" "MALI_MMU_ENTRY_ADDRESS (p OR FLAGS_PRESENT) = p"
    "(p OR FLAGS_PRESENT) AND NOT FLAGS_MASK = p"
proof -
  have low: "\<not> bit p i" if "i < 12" for i
  proof -
    have "bit (p AND 0xFFF) i = (bit p i \<and> bit (0xFFF :: u32) i)" by (simp add: bit_and_iff)
    moreover have "(0xFFF :: u32) = mask 12" by (simp add: mask_numeral)
    ultimately show ?thesis using assms that by (simp add: page_ok_def bit_mask_iff)
  qed
  have one: "bit (FLAGS_PRESENT) i \<longleftrightarrow> i = 0" for i by (simp add: FLAGS_PRESENT_def bit_1_iff)
  have "bit ((p OR FLAGS_PRESENT) AND FLAGS_PRESENT) 0" by (simp add: bit_and_iff bit_or_iff one)
  then show "(p OR FLAGS_PRESENT) AND FLAGS_PRESENT \<noteq> 0" by (metis bit_0_eq bot_apply bot_bool_def)
  have m: "(0xFFFFFC00 :: u32) = NOT (mask 10)" "FLAGS_MASK = mask 9" by (simp_all add: mask_numeral FLAGS_MASK_def)
  have lt: "bit p i \<Longrightarrow> i < 32" for i using bit_imp_le_length [of p i] by simp
  show "MALI_MMU_ENTRY_ADDRESS (p OR FLAGS_PRESENT) = p"
    unfolding MALI_MMU_ENTRY_ADDRESS_def m
    by (rule bit_word_eqI) (auto simp: low bit_and_iff bit_or_iff bit_not_iff bit_mask_iff one)
  show "(p OR FLAGS_PRESENT) AND NOT FLAGS_MASK = p"
    unfolding m
    by (rule bit_word_eqI) (auto simp: low bit_and_iff bit_or_iff bit_not_iff bit_mask_iff one)
qed

section \<open>One directory\<close>

definition reserved_in :: "nat set \<Rightarrow> nat \<Rightarrow> nat set" where
  "reserved_in R i = {p \<in> R. p div 1024 = i}"

definition pages_of :: "page_directory \<Rightarrow> u32 set" where
  "pages_of pd = insert (page_dir pd) {t. t \<noteq> 0 \<and> (\<exists>i < 1024. page_entries_mapped pd i = t)}"

text \<open>\<open>T\<close>: the entries with a table, \<open>c\<close>: the usage counts.\<close>

definition dir_ok :: "nat set \<Rightarrow> (nat \<Rightarrow> nat) \<Rightarrow> page_directory \<Rightarrow> table_memory \<Rightarrow> bool" where
  "dir_ok T c pd m \<longleftrightarrow> memory_ok m \<and> page_directory_mapped pd = page_dir pd \<and> pages_of pd \<subseteq> in_use m \<and>
     (\<forall>i < 1024. (page_entries_mapped pd i \<noteq> 0 \<longleftrightarrow> i \<in> T) \<and> page_entries_usage_count pd i = of_nat (c i) \<and>
        page_entries_mapped pd i \<noteq> page_dir pd \<and>
        pde pd i m = (if page_entries_mapped pd i = 0 then 0 else page_entries_mapped pd i OR FLAGS_PRESENT) \<and>
        (\<forall>j < 1024. page_entries_mapped pd i \<noteq> 0 \<longrightarrow> page_entries_mapped pd i = page_entries_mapped pd j \<longrightarrow> i = j))"

definition pagedir_ok :: "nat set \<Rightarrow> page_directory \<Rightarrow> table_memory \<Rightarrow> bool" where
  "pagedir_ok R pd m \<longleftrightarrow> R \<subseteq> {..< PAGES} \<and>
     dir_ok {i. reserved_in R i \<noteq> {}} (\<lambda>i. card (reserved_in R i)) pd m"

lemma dir_okD:
  assumes "dir_ok T c pd m"
  shows "memory_ok m" "page_directory_mapped pd = page_dir pd" "pages_of pd \<subseteq> in_use m"
    "\<And>i. i < 1024 \<Longrightarrow> page_entries_mapped pd i \<noteq> 0 \<longleftrightarrow> i \<in> T"
    "\<And>i. i < 1024 \<Longrightarrow> page_entries_usage_count pd i = of_nat (c i)"
    "\<And>i. i < 1024 \<Longrightarrow> page_entries_mapped pd i \<noteq> page_dir pd"
    "\<And>i. i < 1024 \<Longrightarrow> pde pd i m = (if page_entries_mapped pd i = 0 then 0 else page_entries_mapped pd i OR FLAGS_PRESENT)"
    "\<And>i j. i < 1024 \<Longrightarrow> j < 1024 \<Longrightarrow> page_entries_mapped pd i \<noteq> 0 \<Longrightarrow>
      page_entries_mapped pd i = page_entries_mapped pd j \<Longrightarrow> i = j"
  using assms unfolding dir_ok_def by blast+

text \<open>Its pages, and what the MMU finds.\<close>

lemma dir_page_ok: "dir_ok T c pd m \<Longrightarrow> p \<in> pages_of pd \<Longrightarrow> page_ok p"
  by (auto simp: dir_ok_def memory_ok_def in_use_def)

lemma table_in_pages: "i < 1024 \<Longrightarrow> page_entries_mapped pd i \<noteq> 0 \<Longrightarrow> page_entries_mapped pd i \<in> pages_of pd"
  by (auto simp: pages_of_def)

lemma dir_present:
  assumes ok: "dir_ok T c pd m" and i: "i < 1024"
  shows "pde pd i m AND FLAGS_PRESENT = 0 \<longleftrightarrow> page_entries_mapped pd i = 0"
  using dir_okD(7) [OF ok i] page_flags(1) [OF dir_page_ok [OF ok table_in_pages [OF i]]] by auto

definition pte :: "page_directory \<Rightarrow> table_memory \<Rightarrow> nat \<Rightarrow> u32 option" where
  "pte pd m p = (let t = page_entries_mapped pd (p div 1024); e = words m t (p mod 1024)
     in if t = 0 \<or> e AND FLAGS_PRESENT = 0 then None else Some e)"

lemma walk_pte:
  assumes ok: "dir_ok T c pd m" and p: "p < PAGES"
  shows "walk pd m (page_addr p) = pte pd m p"
proof -
  have i: "p div 1024 < 1024" using p by (simp add: PAGES_def less_mult_imp_div_less)
  have e: "words m (page_dir pd) (p div 1024) = pde pd (p div 1024) m" by (simp add: pde_def dir_okD(2) [OF ok])
  show ?thesis
  proof (cases "page_entries_mapped pd (p div 1024) = 0")
    case True
    then show ?thesis
      using dir_okD(7) [OF ok i] by (simp add: walk_def mmu_walk_def page_entries [OF p] e pte_def Let_def)
  next
    case False
    then show ?thesis
      using dir_okD(7) [OF ok i] page_flags [OF dir_page_ok [OF ok table_in_pages [OF i False]]]
      by (simp add: walk_def mmu_walk_def page_entries [OF p] e pte_def Let_def)
  qed
qed

section \<open>Other directories\<close>

text \<open>An operation on a directory uses its own pages and pages that nobody uses.\<close>

definition own_pages_only :: "page_directory \<Rightarrow> table_memory \<Rightarrow> page_directory \<Rightarrow> table_memory \<Rightarrow> bool" where
  "own_pages_only pd m pd' m' \<longleftrightarrow>
     in_use m' - pages_of pd' = in_use m - pages_of pd \<and> (\<forall>p \<in> in_use m - pages_of pd. words m' p = words m p)"

lemma own_pages_only_refl [simp]: "own_pages_only pd m pd m"
  by (simp add: own_pages_only_def)

lemma own_pages_only_trans:
  "own_pages_only pd m pd1 m1 \<Longrightarrow> own_pages_only pd1 m1 pd2 m2 \<Longrightarrow> own_pages_only pd m pd2 m2"
  by (auto simp: own_pages_only_def)

text \<open>What a directory keeps when the memory changes outside its pages.\<close>

lemma pagedir_kept:
  assumes ok: "pagedir_ok R pd m" and m: "memory_ok m'" "pages_of pd \<subseteq> in_use m'" and w: "\<And>p. p \<in> pages_of pd \<Longrightarrow> words m' p = words m p"
  shows "pagedir_ok R pd m'" "walk pd m' a = walk pd m a"
proof -
  have dok: "dir_ok {i. reserved_in R i \<noteq> {}} (\<lambda>i. card (reserved_in R i)) pd m" using ok by (simp add: pagedir_ok_def)
  note D = dir_okD [OF dok]
  have root: "page_dir pd \<in> pages_of pd" by (simp add: pages_of_def)
  have pde: "pde pd i m' = pde pd i m" for i using w [OF root] by (simp add: pde_def D(2))
  show "pagedir_ok R pd m'" using ok m unfolding pagedir_ok_def dir_ok_def pde by blast
  let ?i = "MALI_MMU_PDE_ENTRY a"
  have e: "words m (page_dir pd) ?i = pde pd ?i m" by (simp add: pde_def D(2))
  show "walk pd m' a = walk pd m a"
  proof (cases "page_entries_mapped pd ?i = 0")
    case True
    then show ?thesis using D(7) [OF pde_lt] w [OF root] e by (simp add: walk_def mmu_walk_def Let_def)
  next
    case False
    note t = table_in_pages [OF pde_lt False]
    show ?thesis
      using D(7) [OF pde_lt [of a]] False w [OF root] w [OF t] e page_flags [OF dir_page_ok [OF dok t]]
      by (simp add: walk_def mmu_walk_def Let_def)
  qed
qed

lemma others_ok:
  assumes o: "own_pages_only pd m pd' m'" and ok: "pagedir_ok R pd2 m" and d: "pages_of pd \<inter> pages_of pd2 = {}" and m: "memory_ok m'"
  shows "pagedir_ok R pd2 m'" "pages_of pd' \<inter> pages_of pd2 = {}" "walk pd2 m' a = walk pd2 m a"
proof -
  have "pages_of pd2 \<subseteq> in_use m" using ok by (simp add: pagedir_ok_def dir_ok_def)
  then have sub: "pages_of pd2 \<subseteq> in_use m - pages_of pd" using d by blast
  then have k: "pages_of pd2 \<subseteq> in_use m'" "\<And>p. p \<in> pages_of pd2 \<Longrightarrow> words m' p = words m p" using o unfolding own_pages_only_def by blast+
  from pagedir_kept [OF ok m this] show "pagedir_ok R pd2 m'" "walk pd2 m' a = walk pd2 m a" by simp_all
  show "pages_of pd' \<inter> pages_of pd2 = {}" using o sub unfolding own_pages_only_def by blast
qed

end
