(* ===== verification/Page_Map.thy ===== *)
theory Page_Map
  imports Page_Tables
begin

text \<open>
  Creating a page directory, reserving pages in it and backing them: what each operation does to
  the description of the directory, to what the MMU finds, and to the pages of others.
\<close>

section \<open>Creating\<close>

lemma reserved_in_empty [simp]: "reserved_in {} i = {}"
  by (simp add: reserved_in_def)

lemma pagedir_alloc_ok:
  assumes m: "memory_ok m" and a: "dma_ok alloc" and r: "mali_mmu_pagedir_alloc alloc can_calloc m = (m', Some pd)"
  shows "pagedir_ok {} pd m'" "pages_of pd \<inter> in_use m = {}" "walk pd m' x = None"
    "\<And>p. p \<in> in_use m \<Longrightarrow> words m' p = words m p" "in_use m' = in_use m \<union> pages_of pd"
proof -
  obtain m1 phys virt where g: "mali_mem_os_get_table_page alloc m = (m1, Some (phys, virt))"
    and m': "m' = fill_page virt 0 m1"
    and pd: "pd = \<lparr>page_dir = phys, page_directory_mapped = virt, page_entries_mapped = (\<lambda>_. 0), page_entries_usage_count = (\<lambda>_. 0)\<rparr>"
    using r by (auto simp: mali_mmu_pagedir_alloc_def split: if_splits prod.splits option.splits)
  have k: "memory_ok m1" "words m1 = words m" "phys = virt" "page_ok phys" "phys \<notin> in_use m" "in_use m1 = insert phys (in_use m)"
    using get_table_page_ok [OF m a g] by auto
  have f: "memory_ok m'" "in_use m' = in_use m1" using k(1) by (simp_all add: m' fill_page_def memory_ok_def in_use_def)
  have ps: "pages_of pd = {phys}" by (auto simp: pages_of_def pd)
  show "pages_of pd \<inter> in_use m = {}" using k(5) ps by simp
  show "words m' p = words m p" if "p \<in> in_use m" for p
    using that k(2,3,5) by (auto simp: m' fill_page_def)
  show "in_use m' = in_use m \<union> pages_of pd" using k(6) f(2) ps by simp
  have "0 \<noteq> phys" using k(4) by (auto simp: page_ok_def)
  then show "pagedir_ok {} pd m'"
    using f k ps by (auto simp: pagedir_ok_def dir_ok_def pd pde_def m' fill_page_def)
  show "walk pd m' x = None"
    using pde_lt [of x] k(3) by (simp add: walk_def mmu_walk_def pd m' fill_page_def)
qed

lemma pagedir_alloc_none:
  assumes m: "memory_ok m" and a: "dma_ok alloc" and r: "mali_mmu_pagedir_alloc alloc can_calloc m = (m', None)"
  shows "memory_ok m'" "words m' = words m" "in_use m' = in_use m"
proof -
  have "m' = m \<or> mali_mem_os_get_table_page alloc m = (m', None)"
    using r by (auto simp: mali_mmu_pagedir_alloc_def split: if_splits prod.splits option.splits)
  then show "memory_ok m'" "words m' = words m" "in_use m' = in_use m" using m get_table_page_ok [OF m a, of m' None] by auto
qed

section \<open>Making a page table present\<close>

lemma entries_set [simp]:
  "page_entries_mapped (set_entry i t pd) = (page_entries_mapped pd)(i := t)" "page_dir (set_entry i t pd) = page_dir pd"
  "page_directory_mapped (set_entry i t pd) = page_directory_mapped pd"
  "page_entries_usage_count (set_entry i t pd) = page_entries_usage_count pd"
  "page_entries_mapped (set_usage i n pd) = page_entries_mapped pd" "page_dir (set_usage i n pd) = page_dir pd"
  "page_directory_mapped (set_usage i n pd) = page_directory_mapped pd"
  "page_entries_usage_count (set_usage i n pd) = (page_entries_usage_count pd)(i := n)"
  by (simp_all add: set_entry_def set_usage_def)

lemma pages_set_usage [simp]: "pages_of (set_usage i n pd) = pages_of pd"
  by (simp add: pages_of_def)

lemma pde_views: "pde (set_usage i n pd) = pde pd" "pde (set_entry i t pd) = pde pd"
  by (simp_all add: pde_def fun_eq_iff)

lemma ensure_table_ok:
  assumes ok: "dir_ok T c pd m" and a: "dma_ok alloc" and i: "i < 1024"
    and e: "ensure_table alloc i (pd, m) = ((pd', m'), b)"
  shows "dir_ok (if b then insert i T else T) c pd' m'" "own_pages_only pd m pd' m'"
    "\<And>p. p < PAGES \<Longrightarrow> p div 1024 \<in> T \<Longrightarrow> pte pd' m' p = pte pd m p" "l2_log m' = l2_log m"
proof -
  note D = dir_okD [OF ok]
  have "dir_ok (if b then insert i T else T) c pd' m' \<and> own_pages_only pd m pd' m' \<and>
    (\<forall>p. p < PAGES \<longrightarrow> p div 1024 \<in> T \<longrightarrow> pte pd' m' p = pte pd m p) \<and> l2_log m' = l2_log m"
  proof (cases "page_entries_mapped pd i = 0")
    case False
    then have "((pd', m'), b) = ((pd, m), True)" using e dir_present [OF ok i] by (simp add: ensure_table_def)
    moreover have "insert i T = T" using D(4) [OF i] False by blast
    ultimately show ?thesis using ok by simp
  next
    case True
    obtain m1 r where g: "mali_mem_os_get_table_page alloc m = (m1, r)" by fastforce
    note k = get_table_page_ok [OF D(1) a g]
    have iT: "i \<notin> T" using D(4) [OF i] True by blast
    show ?thesis
    proof (cases r)
      case None
      then have r: "pd' = pd" "m' = m1" "b = False" using e True dir_present [OF ok i] g by (simp_all add: ensure_table_def)
      have "dir_ok T c pd m1" using ok k None by (auto simp: dir_ok_def pde_def)
      moreover have "own_pages_only pd m pd m1" using k None by (auto simp: own_pages_only_def)
      ultimately show ?thesis using k r by (simp add: pte_def)
    next
      case (Some x)
      then obtain t where t: "r = Some (t, t)" "page_ok t" "t \<notin> in_use m" "in_use m1 = insert t (in_use m)"
        using k by (cases x) auto
      have r: "pd' = set_entry i t pd" "m' = mem_write (page_directory_mapped pd) i (t OR FLAGS_PRESENT) m1" "b = True"
        using e True dir_present [OF ok i] g t(1) by (simp_all add: ensure_table_def)
      have root: "page_dir pd \<in> in_use m" using D(3) by (auto simp: pages_of_def)
      have tn: "t \<noteq> 0" "t \<noteq> page_dir pd" using t(2,3) root by (auto simp: page_ok_def)
      have old: "page_entries_mapped pd j \<noteq> t" if "j < 1024" for j
        using table_in_pages [OF that] D(3) t(3) tn(1) by auto
      have pg: "pages_of pd' = insert t (pages_of pd)"
        using i True tn(1) by (auto simp: r pages_of_def)
      have pde: "pde pd' j m' = (if j = i then t OR FLAGS_PRESENT else pde pd j m)" for j
        using k by (simp add: r pde_views) (simp add: pde_def words_mem_write)
      have "dir_ok (insert i T) c pd' m'"
        unfolding dir_ok_def pde
        using ok k t tn old pg True by (auto simp: dir_ok_def r)
      moreover have "own_pages_only pd m pd' m'"
        using k t tn(1) pg D(2) by (auto simp: own_pages_only_def words_mem_write r(2) pages_of_def)
      moreover have "pte pd' m' p = pte pd m p" if "p < PAGES" "p div 1024 \<in> T" for p
      proof -
        have "p div 1024 \<noteq> i" using that iT by blast
        moreover have "p div 1024 < 1024" using that(1) by (simp add: PAGES_def less_mult_imp_div_less)
        ultimately show ?thesis using k D(2,6) by (auto simp: pte_def r words_mem_write)
      qed
      ultimately show ?thesis using r k by simp
    qed
  qed
  then show "dir_ok (if b then insert i T else T) c pd' m'" "own_pages_only pd m pd' m'"
    "\<And>p. p < PAGES \<Longrightarrow> p div 1024 \<in> T \<Longrightarrow> pte pd' m' p = pte pd m p" "l2_log m' = l2_log m" by blast+
qed

section \<open>Reserving a range\<close>

lemma set_usage_ok:
  assumes "dir_ok T c pd m" and "n = of_nat k"
  shows "dir_ok T (c(i := k)) (set_usage i n pd) m"
  using assms by (auto simp: dir_ok_def pde_views)

text \<open>The part of the range in the entries before \<open>i\<close>.\<close>

definition before_entry :: "nat \<Rightarrow> nat \<Rightarrow> nat \<Rightarrow> nat set" where
  "before_entry lo hi i = {lo ..< min hi (1024 * i)}"

lemma before_entry_Suc: "before_entry lo hi (Suc i) = before_entry lo hi i \<union> in_entry i lo hi"
  by (auto simp: before_entry_def in_entry_def)

lemma reserved_before:
  "reserved_in (R \<union> before_entry lo hi (Suc i)) j =
     (if j = i then reserved_in (R \<union> before_entry lo hi i) i \<union> in_entry i lo hi else reserved_in (R \<union> before_entry lo hi i) j)"
  unfolding before_entry_Suc by (auto simp: reserved_in_def in_entry_iff)

lemma pagedir_okD: "pagedir_ok R pd m \<Longrightarrow> dir_ok {i. reserved_in R i \<noteq> {}} (\<lambda>i. card (reserved_in R i)) pd m"
  by (simp add: pagedir_ok_def)

lemma finite_reserved: "R \<subseteq> {..< PAGES} \<Longrightarrow> finite (reserved_in R i)"
  by (rule finite_subset [of _ "{..< PAGES}"]) (auto simp: reserved_in_def)

text \<open>One entry of the range: its table is made present and its count raised.\<close>

lemma map_entry_ok:
  assumes ok: "pagedir_ok (R \<union> before_entry p (p + n) i) pd m" and a: "dma_ok alloc"
    and rg: "0 < n" "p + n \<le> PAGES" "n < PAGES" "f = p div 1024" "l = (p + n - 1) div 1024" "f \<le> i" "i \<le> l"
    and dis: "R \<inter> {p ..< p + n} = {}"
    and e: "ensure_table alloc i (pd, m) = ((pd1, m1), True)"
  shows "pagedir_ok (R \<union> before_entry p (p + n) (Suc i))
    (set_usage i (count_pages f l (page_addr p) (page_addr n) i (page_entries_usage_count pd1 i)) pd1) m1"
proof -
  let ?R = "R \<union> before_entry p (p + n) i" and ?R' = "R \<union> before_entry p (p + n) (Suc i)"
  let ?c = "card (reserved_in ?R i)"
  have "p + n - 1 < PAGES" using rg by simp
  then have "l < 1024" unfolding rg(5) by (simp add: PAGES_def less_mult_imp_div_less)
  then have i: "i < 1024" using rg(7) by simp
  have sub: "?R' \<subseteq> {..< PAGES}" using ok rg(2) by (auto simp: pagedir_ok_def before_entry_def)
  have r: "reserved_in ?R i = reserved_in R i" by (auto simp: reserved_in_def before_entry_def)
  have new: "reserved_in ?R i \<inter> in_entry i p (p + n) = {}" unfolding r using dis by (auto simp: reserved_in_def in_entry_iff)
  have ne: "in_entry i p (p + n) \<noteq> {}"
  proof -
    have "1024 * l \<le> p + n - 1" "p < 1024 * Suc f" by (simp_all add: rg(4,5) dividend_less_times_div)
    moreover have "1024 * i \<le> 1024 * l" "1024 * Suc f \<le> 1024 * Suc i" using rg(6,7) by simp_all
    ultimately show ?thesis using rg(1) by (auto simp: in_entry_def)
  qed
  note k = ensure_table_ok(1) [OF pagedir_okD [OF ok] a i e, simplified]
  have u: "page_entries_usage_count pd1 i = of_nat ?c" by (rule dir_okD(5) [OF k i])
  have free: "?c = 0" if "f < i" "i < l"
  proof -
    have "reserved_in R i \<subseteq> in_entry i p (p + n)"
    proof
      fix q assume q: "q \<in> reserved_in R i"
      then have "q div 1024 = i" by (simp add: reserved_in_def)
      then have "p div 1024 < q div 1024" "q div 1024 < (p + n - 1) div 1024" using that by (simp_all add: rg(4,5))
      then have "p < q" "q < p + n - 1" by (meson div_le_mono leD leI)+
      then have "p \<le> q" "q < p + n" by simp_all
      then show "q \<in> in_entry i p (p + n)" using \<open>q div 1024 = i\<close> by (simp add: in_entry_iff)
    qed
    then show ?thesis using new r by (simp add: Int_absorb2 card_eq_0_iff)
  qed
  have fin: "finite (reserved_in ?R i)" by (rule finite_reserved) (use ok in \<open>simp add: pagedir_ok_def\<close>)
  have "card (reserved_in ?R' i) = ?c + card (in_entry i p (p + n))"
    unfolding reserved_before using card_Un_disjoint [OF fin _ new] by (simp add: in_entry_def)
  then have cnt: "count_pages f l (page_addr p) (page_addr n) i (page_entries_usage_count pd1 i) = of_nat (card (reserved_in ?R' i))"
    unfolding u using count_pages_eq [OF rg(1-7) free] by simp
  have "insert i {j. reserved_in ?R j \<noteq> {}} = {j. reserved_in ?R' j \<noteq> {}}" using ne by (auto simp: reserved_before)
  moreover have "(\<lambda>j. card (reserved_in ?R j))(i := card (reserved_in ?R' i)) = (\<lambda>j. card (reserved_in ?R' j))"
    by (auto simp: reserved_before fun_eq_iff)
  ultimately show ?thesis using set_usage_ok [OF k cnt, of i] sub by (simp add: pagedir_ok_def)
qed

text \<open>The whole range, or as far as the pages for tables last.\<close>

lemma map_entries_ok:
  assumes "pagedir_ok (R \<union> before_entry p (p + n) i) pd m" and a: "dma_ok alloc"
    and rg: "0 < n" "p + n \<le> PAGES" "n < PAGES" "f = p div 1024" "l = (p + n - 1) div 1024" "f \<le> i" "i \<le> Suc l"
    and dis: "R \<inter> {p ..< p + n} = {}"
    and "map_entries alloc f l (page_addr p) (page_addr n) [i ..< Suc l] (pd, m) = ((pd', m'), err)"
  shows "\<exists>k. pagedir_ok (R \<union> before_entry p (p + n) k) pd' m' \<and> (err = ERR_OK \<and> k = Suc l \<or> err = ERR_NOMEM \<and> i \<le> k \<and> k \<le> l \<and> page_entries_mapped pd' k = 0) \<and>
    own_pages_only pd m pd' m' \<and> (\<forall>q \<in> R. pte pd' m' q = pte pd m q) \<and> l2_log m' = l2_log m"
  using assms(1,8,9,11)
proof (induction "Suc l - i" arbitrary: i pd m)
  case 0
  then have "i = Suc l" by simp
  then show ?case using 0 by auto
next
  case (Suc x)
  then have il: "i \<le> l" by simp
  then have u: "[i ..< Suc l] = i # [Suc i ..< Suc l]" by (simp add: upt_conv_Cons)
  obtain pd1 m1 b where e: "ensure_table alloc i (pd, m) = ((pd1, m1), b)" by (metis prod.collapse)
  have "p + n - 1 < PAGES" using rg by simp
  then have "l < 1024" unfolding rg(5) by (simp add: PAGES_def less_mult_imp_div_less)
  then have i: "i < 1024" using il by simp
  note k = ensure_table_ok [OF pagedir_okD [OF Suc.prems(1)] a i e]
  have R: "R \<subseteq> {..< PAGES}" using Suc.prems(1) by (simp add: pagedir_ok_def)
  have same: "pte pd1 m1 q = pte pd m q" if "q \<in> R" for q
    using k(3) [of q] that R by (auto simp: reserved_in_def)
  show ?case
  proof (cases b)
    case False
    then have "pd' = pd1" "m' = m1" "err = ERR_NOMEM" using Suc.prems(4) e unfolding u by simp_all
    moreover have "pagedir_ok (R \<union> before_entry p (p + n) i) pd1 m1"
      using k(1) False Suc.prems(1) by (simp add: pagedir_ok_def)
    moreover have "page_entries_mapped pd1 i = 0"
    proof (rule ccontr)
      assume "page_entries_mapped pd1 i \<noteq> 0"
      then have "reserved_in (R \<union> before_entry p (p + n) i) i \<noteq> {}" using dir_okD(4) [OF k(1) i] False by simp
      then have "pde pd i m AND FLAGS_PRESENT \<noteq> 0"
        using dir_present [OF pagedir_okD [OF Suc.prems(1)] i] dir_okD(4) [OF pagedir_okD [OF Suc.prems(1)] i] by simp
      then have "b = True" using e by (simp add: ensure_table_def)
      then show False using False by simp
    qed
    ultimately show ?thesis using k(2,4) same il by (intro exI [of _ i]) auto
  next
    case True
    let ?pd = "set_usage i (count_pages f l (page_addr p) (page_addr n) i (page_entries_usage_count pd1 i)) pd1"
    have ok: "pagedir_ok (R \<union> before_entry p (p + n) (Suc i)) ?pd m1"
      by (rule map_entry_ok [OF Suc.prems(1) a rg(1-5) Suc.prems(2) il dis]) (simp add: e True)
    have run: "map_entries alloc f l (page_addr p) (page_addr n) [Suc i ..< Suc l] (?pd, m1) = ((pd', m'), err)"
      using Suc.prems(4) e True unfolding u by simp
    have "x = Suc l - Suc i" "f \<le> Suc i" "Suc i \<le> Suc l" using Suc.hyps(2) Suc.prems(2) il by simp_all
    from Suc.hyps(1) [OF this(1) ok this(2,3) run] obtain k' where k': "pagedir_ok (R \<union> before_entry p (p + n) k') pd' m'"
        "err = ERR_OK \<and> k' = Suc l \<or> err = ERR_NOMEM \<and> Suc i \<le> k' \<and> k' \<le> l \<and> page_entries_mapped pd' k' = 0" "own_pages_only ?pd m1 pd' m'"
        "\<forall>q \<in> R. pte pd' m' q = pte ?pd m1 q" "l2_log m' = l2_log m1" by blast
    have "own_pages_only pd m ?pd m1" using k(2) by (simp add: own_pages_only_def)
    then have "own_pages_only pd m pd' m'" using k'(3) by (rule own_pages_only_trans)
    moreover have "pte pd' m' q = pte pd m q" if "q \<in> R" for q
      using k'(4) same [OF that] that by (simp add: pte_def)
    ultimately show ?thesis using k' k(4) by (intro exI [of _ k']) auto
  qed
qed

text \<open>Where a map has stopped: at the first entry without a table, or at the end.\<close>

definition map_stopped :: "page_directory \<Rightarrow> nat \<Rightarrow> nat \<Rightarrow> nat" where
  "map_stopped pd p n =
     (case find (\<lambda>i. page_entries_mapped pd i = 0) [p div 1024 ..< Suc ((p + n - 1) div 1024)] of
        None \<Rightarrow> p + n | Some k \<Rightarrow> max p (1024 * k))"

lemma map_stopped_at:
  assumes ok: "pagedir_ok (R \<union> before_entry p (p + n) k) pd m" and n: "0 < n" "p + n \<le> PAGES"
    and k: "p div 1024 \<le> k" "k \<le> (p + n - 1) div 1024" "page_entries_mapped pd k = 0"
  shows "map_stopped pd p n = max p (1024 * k)"
proof -
  let ?l = "(p + n - 1) div 1024"
  have "page_entries_mapped pd j \<noteq> 0" if "p div 1024 \<le> j" "j < k" for j
  proof -
    have "1024 * ?l \<le> p + n - 1" by simp
    moreover have "1024 * Suc j \<le> 1024 * ?l" using that k(2) by (intro mult_le_mono2) simp
    ultimately have e: "1024 * Suc j \<le> p + n - 1" by linarith
    have "p < 1024 * Suc (p div 1024)" by (simp add: dividend_less_times_div)
    also have "\<dots> \<le> 1024 * Suc j" using that by (intro mult_le_mono2) simp
    finally have pj: "p < 1024 * Suc j" .
    let ?x = "max p (1024 * j)"
    have "?x div 1024 = j"
    proof (cases "p \<le> 1024 * j")
      case False
      then have "j \<le> p div 1024" using div_le_mono [of "1024 * j" p 1024] by simp
      then show ?thesis using that False by (simp add: max_def)
    qed (simp add: max_def)
    moreover have "?x < p + n" "?x < 1024 * k" "p \<le> ?x" using e pj n(1) that(2) by auto
    ultimately have "?x \<in> reserved_in (R \<union> before_entry p (p + n) k) j" by (simp add: reserved_in_def before_entry_def)
    moreover have "j < 1024" using e n(2) by (simp add: PAGES_def)
    ultimately show ?thesis using dir_okD(4) [OF pagedir_okD [OF ok], of j] by blast
  qed
  then have "find (\<lambda>i. page_entries_mapped pd i = 0) [p div 1024 ..< Suc ?l] = Some k"
    using k unfolding find_Some_iff by (intro exI [of _ "k - p div 1024"]) (simp add: less_diff_conv2 nth_append del: upt_Suc)
  then show ?thesis by (simp add: map_stopped_def del: upt_Suc)
qed

lemma map_stopped_end:
  assumes ok: "pagedir_ok (R \<union> {p ..< p + n}) pd m" and n: "0 < n" "p + n \<le> PAGES"
  shows "map_stopped pd p n = p + n"
proof -
  let ?l = "(p + n - 1) div 1024"
  have "page_entries_mapped pd j \<noteq> 0" if "p div 1024 \<le> j" "j \<le> ?l" for j
  proof -
    have x: "max p (1024 * j) \<le> p + n - 1" "max p (1024 * j) div 1024 = j"
    proof -
      have "1024 * j \<le> 1024 * ?l" using that(2) by simp
      also have "\<dots> \<le> p + n - 1" by simp
      finally show "max p (1024 * j) \<le> p + n - 1" using n(1) by simp
      show "max p (1024 * j) div 1024 = j"
      proof (cases "p \<le> 1024 * j")
        case False
        then have "j \<le> p div 1024" using div_le_mono [of "1024 * j" p 1024] by simp
        then show ?thesis using that False by (simp add: max_def)
      qed (simp add: max_def)
    qed
    then have "max p (1024 * j) \<in> reserved_in (R \<union> {p ..< p + n}) j" using n(1) by (auto simp: reserved_in_def)
    moreover have "1024 * j < 1048576" using x(1) n unfolding PAGES_def by linarith
    then have "j < 1024" by simp
    ultimately show ?thesis using \<open>j < 1024\<close> dir_okD(4) [OF pagedir_okD [OF ok], of j] by blast
  qed
  then have "find (\<lambda>i. page_entries_mapped pd i = 0) [p div 1024 ..< Suc ?l] = None"
    unfolding find_None_iff set_upt atLeastLessThan_iff less_Suc_eq_le by blast
  then show ?thesis by (simp add: map_stopped_def del: upt_Suc)
qed

lemma pagedir_map_ok:
  assumes ok: "pagedir_ok R pd m" and a: "dma_ok alloc"
    and rg: "0 < n" "p + n \<le> PAGES" "n < PAGES" and dis: "R \<inter> {p ..< p + n} = {}"
    and r: "mali_mmu_pagedir_map alloc (page_addr p) (page_addr n) (pd, m) = ((pd', m'), err)"
  shows "pagedir_ok (R \<union> {p ..< map_stopped pd' p n}) pd' m'"
    "err = ERR_OK \<and> map_stopped pd' p n = p + n \<or> err = ERR_NOMEM \<and> map_stopped pd' p n < p + n"
    "own_pages_only pd m pd' m'" "\<And>q. q \<in> R \<Longrightarrow> pte pd' m' q = pte pd m q" "l2_log m' = l2_log m"
proof -
  define f where "f = p div 1024"
  define l where "l = (p + n - 1) div 1024"
  have e: "MALI_MMU_PDE_ENTRY (page_addr p) = f" "MALI_MMU_PDE_ENTRY (page_addr p + page_addr n - 1) = l"
    using rg page_entries(1) [of p] last_entries(1) [of "p + n"] by (simp_all add: f_def l_def page_addr_add)
  have fl: "f \<le> l" unfolding f_def l_def using rg(1) by (intro div_le_mono) simp
  have b0: "before_entry p (p + n) f = {}" by (auto simp: before_entry_def f_def)
  have run: "map_entries alloc f l (page_addr p) (page_addr n) [f ..< Suc l] (pd, m) = ((pd', m'), err)"
    using r fl by (simp add: mali_mmu_pagedir_map_def e Let_def)
  have "pagedir_ok (R \<union> before_entry p (p + n) f) pd m" using ok b0 by simp
  from map_entries_ok [OF this a rg f_def l_def order_refl _ dis run] fl
  obtain k where k: "pagedir_ok (R \<union> before_entry p (p + n) k) pd' m'"
      "err = ERR_OK \<and> k = Suc l \<or> err = ERR_NOMEM \<and> f \<le> k \<and> k \<le> l \<and> page_entries_mapped pd' k = 0"
      "own_pages_only pd m pd' m'" "\<forall>q \<in> R. pte pd' m' q = pte pd m q" "l2_log m' = l2_log m" by auto
  show "own_pages_only pd m pd' m'" "\<And>q. q \<in> R \<Longrightarrow> pte pd' m' q = pte pd m q" "l2_log m' = l2_log m" using k by blast+
  have "pagedir_ok (R \<union> {p ..< map_stopped pd' p n}) pd' m' \<and>
      (err = ERR_OK \<and> map_stopped pd' p n = p + n \<or> err = ERR_NOMEM \<and> map_stopped pd' p n < p + n)"
  proof (cases "err = ERR_OK")
    case True
    then have "k = Suc l" using k(2) by auto
    moreover have "p + n - 1 < 1024 * Suc l" by (simp add: l_def dividend_less_times_div)
    ultimately have "before_entry p (p + n) k = {p ..< p + n}" by (auto simp: before_entry_def)
    then have ok': "pagedir_ok (R \<union> {p ..< p + n}) pd' m'" using k(1) by simp
    from map_stopped_end [OF this rg(1,2)] show ?thesis using ok' True by simp
  next
    case False
    then have kl: "err = ERR_NOMEM" "f \<le> k" "k \<le> l" "page_entries_mapped pd' k = 0" using k(2) by auto
    have st: "map_stopped pd' p n = max p (1024 * k)"
      by (rule map_stopped_at [OF k(1) rg(1,2)]) (use kl in \<open>simp_all add: f_def l_def\<close>)
    have "1024 * l \<le> p + n - 1" by (simp add: l_def)
    then have lt: "1024 * k < p + n" using kl(3) rg(1) by linarith
    then have "before_entry p (p + n) k = {p ..< max p (1024 * k)}" by (auto simp: before_entry_def)
    then show ?thesis using k(1) kl(1) lt rg(1) by (simp add: st)
  qed
  then show "pagedir_ok (R \<union> {p ..< map_stopped pd' p n}) pd' m'"
    "err = ERR_OK \<and> map_stopped pd' p n = p + n \<or> err = ERR_NOMEM \<and> map_stopped pd' p n < p + n" by blast+
qed

section \<open>Writing entries of a table\<close>

lemma pte_write:
  assumes ok: "dir_ok T c pd m" and i: "i < 1024" and t: "t = page_entries_mapped pd i" "t \<noteq> 0"
  shows "dir_ok T c pd (mem_write t j v m)" "own_pages_only pd m pd (mem_write t j v m)"
    "x < PAGES \<Longrightarrow> pte pd (mem_write t j v m) x =
      (if x div 1024 = i \<and> x mod 1024 = j then if v AND FLAGS_PRESENT = 0 then None else Some v else pte pd m x)"
proof -
  note D = dir_okD [OF ok]
  have "t \<noteq> page_dir pd" using D(6) [OF i] t by simp
  then have pde: "pde pd k (mem_write t j v m) = pde pd k m" for k by (simp add: pde_def words_mem_write D(2))
  show "dir_ok T c pd (mem_write t j v m)" using ok unfolding dir_ok_def pde mem_write_views .
  have tp: "t \<in> pages_of pd" using table_in_pages [OF i, of pd] t by simp
  show "own_pages_only pd m pd (mem_write t j v m)"
    unfolding own_pages_only_def mem_write_views
  proof (intro conjI ballI refl)
    fix p assume "p \<in> in_use m - pages_of pd"
    then have "p \<noteq> t" using tp by blast
    then show "words (mem_write t j v m) p = words m p" by (simp add: mem_write_def)
  qed
  assume "x < PAGES"
  then have "x div 1024 < 1024" by (simp add: PAGES_def less_mult_imp_div_less)
  then have "page_entries_mapped pd (x div 1024) = t \<longleftrightarrow> x div 1024 = i" using D(8) [OF i, of "x div 1024"] t(2) unfolding t(1) by metis
  then show "pte pd (mem_write t j v m) x =
      (if x div 1024 = i \<and> x mod 1024 = j then if v AND FLAGS_PRESENT = 0 then None else Some v else pte pd m x)"
    using t(2) by (auto simp: pte_def words_mem_write)
qed

lemma pte_clear:
  assumes "dir_ok T c pd m" and i: "i < 1024" and t: "t = page_entries_mapped pd i" "t \<noteq> 0"
  shows "dir_ok T c pd (fold (\<lambda>j. mem_write t j 0) js m) \<and> own_pages_only pd m pd (fold (\<lambda>j. mem_write t j 0) js m) \<and>
    (\<forall>x < PAGES. pte pd (fold (\<lambda>j. mem_write t j 0) js m) x =
      (if x div 1024 = i \<and> x mod 1024 \<in> set js then None else pte pd m x)) \<and>
    l2_log (fold (\<lambda>j. mem_write t j 0) js m) = l2_log m"
  using assms(1)
proof (induction js arbitrary: m)
  case (Cons j js)
  note w = pte_write [OF Cons.prems i t, where j = j and v = 0]
  from Cons.IH [OF w(1)] show ?case
    using w own_pages_only_trans [OF w(2)] by (auto simp: words_mem_write)
qed simp

section \<open>Backing pages\<close>

lemma update_pages_ok:
  assumes "pagedir_ok R pd m" and "q \<le> hi" "hi < PAGES" "{q ..< hi} \<subseteq> R" "hi - q \<le> fuel"
  shows "\<exists>m'. update_pages fuel pd (page_addr q) (page_addr hi) phys perm m = Done m' \<and> pagedir_ok R pd m' \<and>
    own_pages_only pd m pd m' \<and> l2_log m' = l2_log m \<and>
    (\<forall>x < PAGES. pte pd m' x = (if q \<le> x \<and> x < hi
       then (let e = (phys + page_addr (x - q)) OR perm in if e AND FLAGS_PRESENT = 0 then None else Some e) else pte pd m x))"
  using assms
proof (induction "hi - q" arbitrary: q m fuel phys)
  case 0
  then have "\<not> page_addr q < page_addr hi" by simp
  then have "update_pages fuel pd (page_addr q) (page_addr hi) phys perm m = Done m" by (simp add: update_pages.simps [of fuel])
  then show ?case using 0 by auto
next
  case (Suc d)
  then have lt: "q < hi" by simp
  then have less: "page_addr q < page_addr hi" using Suc.prems(3) unat_page_addr [of q] unat_page_addr [of hi] by (simp add: word_less_nat_alt)
  obtain n where n: "fuel = Suc n" using Suc.prems(5) lt by (cases fuel) auto
  have q: "q < PAGES" "q div 1024 < 1024" using lt Suc.prems(3) by (simp_all add: PAGES_def less_mult_imp_div_less)
  note D = pagedir_okD [OF Suc.prems(1)]
  define t where "t = page_entries_mapped pd (q div 1024)"
  have "q \<in> reserved_in R (q div 1024)" using Suc.prems(4) lt by (auto simp: reserved_in_def)
  then have t0: "t \<noteq> 0" using dir_okD(4) [OF D q(2)] by (auto simp: t_def)
  define m1 where "m1 = mem_write t (q mod 1024) (phys OR perm) m"
  note w = pte_write [OF D q(2) t_def t0, where j = "q mod 1024" and v = "phys OR perm", folded m1_def]
  have ok1: "pagedir_ok R pd m1" using w(1) Suc.prems(1) by (simp add: pagedir_ok_def)
  have run: "update_pages fuel pd (page_addr q) (page_addr hi) phys perm m =
      update_pages n pd (page_addr (Suc q)) (page_addr hi) (phys + MALI_MMU_PAGE_SIZE) perm m1"
    using less t0 by (simp add: n update_pages.simps [of "Suc n"] page_entries [OF q(1)] t_def [symmetric] m1_def page_addr_Suc)
  have "d = hi - Suc q" "Suc q \<le> hi" "{Suc q ..< hi} \<subseteq> R" "hi - Suc q \<le> n" using Suc.hyps(2) Suc.prems(4,5) lt n by auto
  from Suc.hyps(1) [OF this(1) ok1 this(2) Suc.prems(3) this(3,4), of "phys + MALI_MMU_PAGE_SIZE"]
  obtain m' where m': "update_pages n pd (page_addr (Suc q)) (page_addr hi) (phys + MALI_MMU_PAGE_SIZE) perm m1 = Done m'"
      "pagedir_ok R pd m'" "own_pages_only pd m1 pd m'" "l2_log m' = l2_log m1"
      "\<And>x. x < PAGES \<Longrightarrow> pte pd m' x = (if Suc q \<le> x \<and> x < hi
         then (let e = (phys + MALI_MMU_PAGE_SIZE + page_addr (x - Suc q)) OR perm in if e AND FLAGS_PRESENT = 0 then None else Some e)
         else pte pd m1 x)" by blast
  have "pte pd m' x = (if q \<le> x \<and> x < hi
       then (let e = (phys + page_addr (x - q)) OR perm in if e AND FLAGS_PRESENT = 0 then None else Some e) else pte pd m x)"
    if "x < PAGES" for x
  proof (cases "Suc q \<le> x \<and> x < hi")
    case True
    then have "x - q = Suc (x - Suc q)" by (metis Suc_diff_Suc Suc_le_eq)
    then have e: "phys + MALI_MMU_PAGE_SIZE + page_addr (x - Suc q) = phys + page_addr (x - q)"
      using page_addr_Suc [of "x - Suc q"] by (simp only: add.assoc) (simp only: add.commute)
    show ?thesis using m'(5) [OF that, unfolded e] True by simp
  next
    case False
    have "x div 1024 = q div 1024 \<and> x mod 1024 = q mod 1024 \<longleftrightarrow> x = q" by (metis div_mult_mod_eq)
    then show ?thesis using m'(5) [OF that] w(3) [OF that] False lt by (auto simp: page_addr_def)
  qed
  then show ?case using run m'(1,2,4) own_pages_only_trans [OF w(2) m'(3)] by (simp add: m1_def)
qed

end
