(* ===== verification/Page_Unmap.thy ===== *)
theory Page_Unmap
  imports Page_Map
begin

text \<open>
  Giving pages back: the tables that are not needed any more are released, the entries of the
  others are cleared, and what has changed is invalidated in the L2 caches. Deleting a directory
  and emptying the pool.
\<close>

section \<open>One entry\<close>

lemma card_diff_zero:
  assumes "finite A" "card A \<le> 1024" "S \<subseteq> A"
  shows "(of_nat (card A) - of_nat (card S) :: u32) = 0 \<longleftrightarrow> A - S = {}"
    "(of_nat (card A) - of_nat (card S) :: u32) = of_nat (card (A - S))"
proof -
  have "card S \<le> card A" "card (A - S) = card A - card S" using assms by (simp_all add: card_mono card_Diff_subset finite_subset)
  then show e: "(of_nat (card A) - of_nat (card S) :: u32) = of_nat (card (A - S))" by (simp add: of_nat_diff)
  have "unat (of_nat (card (A - S)) :: u32) = card (A - S)"
    using assms(2) \<open>card (A - S) = card A - card S\<close> by (intro unat_of_small) simp
  then have "(of_nat (card (A - S)) :: u32) = 0 \<longleftrightarrow> card (A - S) = 0" by (simp only: word_unat_eq_iff unat_0)
  then show "(of_nat (card A) - of_nat (card S) :: u32) = 0 \<longleftrightarrow> A - S = {}" unfolding e using assms(1) by simp
qed

lemma card_reserved: "card (reserved_in R i) \<le> 1024"
proof -
  have "reserved_in R i \<subseteq> {1024 * i ..< 1024 * Suc i}" by (auto simp: reserved_in_def)
  from card_mono [OF _ this] show ?thesis by simp
qed

lemma reserved_diff:
  assumes "S \<subseteq> reserved_in R i"
  shows "reserved_in (R - S) j = (if j = i then reserved_in R i - S else reserved_in R j)"
  using assms by (auto simp: reserved_in_def)

text \<open>The table of an entry without pages is released.\<close>

lemma release_entry_ok:
  assumes ok: "dir_ok T c pd m" and i: "i < 1024" "page_entries_mapped pd i \<noteq> 0"
    and r: "pd' = set_entry i 0 pd"
      "m' = mali_mem_os_release_table_page (MALI_MMU_ENTRY_ADDRESS (pde pd i m)) (page_entries_mapped pd i)
         (mem_write (page_directory_mapped pd) i 0 m)"
  shows "dir_ok (T - {i}) c pd' m'" "own_pages_only pd m pd' m'" "l2_log m' = l2_log m"
    "x div 1024 \<noteq> i \<Longrightarrow> x < PAGES \<Longrightarrow> pte pd' m' x = pte pd m x"
    "x div 1024 = i \<Longrightarrow> pte pd' m' x = None"
proof -
  define t where "t = page_entries_mapped pd i"
  let ?m = "mem_write (page_directory_mapped pd) i 0 m"
  note D = dir_okD [OF ok]
  have t: "page_ok t" "t \<in> in_use m" "t \<noteq> page_dir pd" "t \<noteq> 0"
    using dir_page_ok [OF ok table_in_pages [OF i]] table_in_pages [OF i] D(3) D(6) [OF i(1)] i(2) by (auto simp: t_def)
  have "MALI_MMU_ENTRY_ADDRESS (pde pd i m) = t" using D(7) [OF i(1)] i(2) page_flags(2) [OF t(1)] by (simp add: t_def)
  then have m': "m' = mali_mem_os_release_table_page t t ?m" using r(2) by (simp add: t_def)
  have k: "memory_ok m'" "words m' = words ?m" "l2_log m' = l2_log m" "in_use m' = in_use m - {t}"
    using release_table_page_ok [OF _ _ m'] D(1) t(2) by simp_all
  then show "l2_log m' = l2_log m" by simp
  have other: "page_entries_mapped pd j \<noteq> t" if "j < 1024" "j \<noteq> i" for j
    using D(8) [OF i(1) that(1) i(2)] that(2) by (auto simp: t_def)
  have pg: "pages_of pd' = pages_of pd - {t}"
  proof (rule set_eqI)
    fix y
    have "(\<exists>j < 1024. ((page_entries_mapped pd)(i := 0)) j = y) \<longleftrightarrow> (\<exists>j < 1024. page_entries_mapped pd j = y) \<and> y \<noteq> t" if "y \<noteq> 0"
      using that other t_def by (metis fun_upd_def)
    then show "y \<in> pages_of pd' \<longleftrightarrow> y \<in> pages_of pd - {t}" using t(3) unfolding pages_of_def r(1) entries_set by blast
  qed
  have pde: "pde pd' j m' = (if j = i then 0 else pde pd j m)" for j
    using k(2) by (simp add: r(1) pde_views) (simp add: pde_def words_mem_write)
  have ent: "page_entries_mapped pd' = (page_entries_mapped pd)(i := 0)" "page_dir pd' = page_dir pd"
    "page_directory_mapped pd' = page_directory_mapped pd" "page_entries_usage_count pd' = page_entries_usage_count pd"
    by (simp_all add: r(1))
  have root0: "page_dir pd \<noteq> 0" using dir_page_ok [OF ok, of "page_dir pd"] by (simp add: pages_of_def page_ok_def)
  show "dir_ok (T - {i}) c pd' m'"
    unfolding dir_ok_def pde ent pg k(4)
  proof (intro conjI allI impI)
    show "memory_ok m'" "page_directory_mapped pd = page_dir pd" by (fact k(1), fact D(2))
    show "pages_of pd - {t} \<subseteq> in_use m - {t}" using D(3) by blast
    fix j :: nat assume j: "j < 1024"
    show "(((page_entries_mapped pd)(i := 0)) j \<noteq> 0) = (j \<in> T - {i})" using D(4) [OF j] by simp
    show "page_entries_usage_count pd j = of_nat (c j)" using D(5) [OF j] .
    show "((page_entries_mapped pd)(i := 0)) j \<noteq> page_dir pd" using D(6) [OF j] root0 by auto
    show "(if j = i then 0 else pde pd j m) =
        (if ((page_entries_mapped pd)(i := 0)) j = 0 then 0 else ((page_entries_mapped pd)(i := 0)) j OR FLAGS_PRESENT)"
      using D(7) [OF j] by simp
    fix k assume "k < 1024" "((page_entries_mapped pd)(i := 0)) j \<noteq> 0" "((page_entries_mapped pd)(i := 0)) j = ((page_entries_mapped pd)(i := 0)) k"
    then show "j = k" using D(8) [OF j, of k] by (auto split: if_splits)
  qed
  show "own_pages_only pd m pd' m'"
  proof -
    have "t \<in> pages_of pd" "page_directory_mapped pd \<in> pages_of pd" using table_in_pages [OF i] D(2) by (simp_all add: t_def pages_of_def)
    then show ?thesis unfolding own_pages_only_def k(2,4) words_mem_write pg by auto
  qed
  show "x div 1024 = i \<Longrightarrow> pte pd' m' x = None" by (simp add: pte_def ent)
  assume x: "x div 1024 \<noteq> i" "x < PAGES"
  then have "x div 1024 < 1024" by (simp add: PAGES_def less_mult_imp_div_less)
  from D(6) [OF this] show "pte pd' m' x = pte pd m x" using x(1) by (simp add: pte_def ent k(2) words_mem_write D(2))
qed

text \<open>The pages of the entry that are given back are \<open>q\<close> up to \<open>q'\<close>.\<close>

lemma unmap_entry_ok:
  assumes ok: "pagedir_ok R pd m" and q: "q < q'" "q div 1024 = i" "q' \<le> 1024 * Suc i" "q' \<le> PAGES" and S: "{q ..< q'} \<subseteq> R"
  shows "\<exists>u' pd' m'. unmap_entry i (page_addr q) (page_addr (q' - q)) (u, pd, m) = Done (u', pd', m') \<and>
    pagedir_ok (R - {q ..< q'}) pd' m' \<and> own_pages_only pd m pd' m' \<and> l2_log m' = l2_log m \<and> page_dir pd' = page_dir pd \<and>
    (\<forall>j. j \<noteq> i \<longrightarrow> page_entries_mapped pd' j = page_entries_mapped pd j) \<and>
    (\<forall>x \<in> R - {q ..< q'}. pte pd' m' x = pte pd m x) \<and> (\<forall>x \<in> {q ..< q'}. pte pd' m' x = None) \<and>
    (\<forall>x < PAGES. pte pd m x = None \<longrightarrow> pte pd' m' x = None) \<and>
    (if reserved_in (R - {q ..< q'}) i = {} then u' = u\<lparr>pd_changed := True\<rparr> else u' = add_page 2 (page_entries_mapped pd i) u)"
proof -
  let ?S = "{q ..< q'}"
  note D = pagedir_okD [OF ok]
  have "1024 * i \<le> q" using q(2) by (metis times_div_less_eq_dividend)
  then have lo: "1024 * i \<le> q" "q' \<le> 1024 * i + 1024" using q(3) by simp_all
  have div: "x div 1024 = i" if "x \<in> ?S" for x
    using that lo div_less_iff_less_mult [of 1024 x "Suc i"] by (intro antisym) (auto simp: less_eq_div_iff_mult_less_eq mult.commute)
  have Si: "?S \<subseteq> reserved_in R i" using S div by (auto simp: reserved_in_def)
  have qp: "q < PAGES" and R: "R \<subseteq> {..< PAGES}" using q(1,4) ok by (simp_all add: pagedir_ok_def)
  have i: "i < 1024" using qp by (simp add: PAGES_def less_mult_imp_div_less q(2) [symmetric])
  have t0: "page_entries_mapped pd i \<noteq> 0" using dir_okD(4) [OF D i] Si q(1) by auto
  have sz: "page_addr (q' - q) div MALI_MMU_PAGE_SIZE = of_nat (card ?S)" using lo by (simp add: page_addr_div PAGES_def)
  define n where "n = page_entries_usage_count pd i - page_addr (q' - q) div MALI_MMU_PAGE_SIZE"
  have n: "n = 0 \<longleftrightarrow> reserved_in R i - ?S = {}" "n = of_nat (card (reserved_in R i - ?S))"
    using card_diff_zero [OF finite_reserved [OF R] card_reserved Si] unfolding n_def sz dir_okD(5) [OF D i] .
  have rd: "reserved_in (R - ?S) j = (if j = i then reserved_in R i - ?S else reserved_in R j)" for j
    by (rule reserved_diff [OF Si])
  let ?pd = "set_usage i n pd"
  have ok1: "dir_ok {i. reserved_in R i \<noteq> {}} ((\<lambda>j. card (reserved_in R j))(i := card (reserved_in R i - ?S))) ?pd m"
    by (rule set_usage_ok [OF D n(2)])
  have cnt: "(\<lambda>j. card (reserved_in R j))(i := card (reserved_in R i - ?S)) = (\<lambda>j. card (reserved_in (R - ?S) j))"
    by (simp add: rd fun_eq_iff)
  note ok2 = ok1 [unfolded cnt]
  have own: "own_pages_only pd m ?pd m" and ptes: "pte ?pd m = pte pd m" by (simp_all add: own_pages_only_def pte_def fun_eq_iff)
  have R': "R - ?S \<subseteq> {..< PAGES}" using R by blast
  show ?thesis
  proof (cases "n = 0")
    case True
    define pd' where "pd' = set_entry i 0 ?pd"
    define m' where "m' = mali_mem_os_release_table_page (MALI_MMU_ENTRY_ADDRESS (pde pd i m)) (page_entries_mapped pd i)
       (mem_write (page_directory_mapped pd) i 0 m)"
    have m'': "m' = mali_mem_os_release_table_page (MALI_MMU_ENTRY_ADDRESS (pde ?pd i m)) (page_entries_mapped ?pd i)
       (mem_write (page_directory_mapped ?pd) i 0 m)" by (simp add: m'_def pde_views)
    have "page_entries_mapped ?pd i \<noteq> 0" using t0 by simp
    note k = release_entry_ok [OF ok2 i this pd'_def m'']
    have run: "unmap_entry i (page_addr q) (page_addr (q' - q)) (u, pd, m) = Done (u\<lparr>pd_changed := True\<rparr>, pd', m')"
      using t0 True by (simp add: unmap_entry_def n_def [symmetric] Let_def pd'_def m'_def)
    have e: "reserved_in R i - ?S = {}" using n(1) True by simp
    then have "{i. reserved_in R i \<noteq> {}} - {i} = {j. reserved_in (R - ?S) j \<noteq> {}}" by (auto simp: rd)
    then have "pagedir_ok (R - ?S) pd' m'" using k(1) R' by (simp add: pagedir_ok_def)
    moreover have "pte pd' m' x = pte pd m x" if "x \<in> R - ?S" for x
    proof -
      have "x div 1024 \<noteq> i" using e that by (auto simp: reserved_in_def)
      then show ?thesis using k(4) [of x] that R ptes by auto
    qed
    moreover have "pte pd' m' x = None" if "x \<in> ?S" for x using k(5) [OF div [OF that]] .
    moreover have "pte pd' m' x = None" if "x < PAGES" "pte pd m x = None" for x
      using k(4) [OF _ that(1)] k(5) that(2) ptes by (cases "x div 1024 = i") simp_all
    moreover have "reserved_in (R - ?S) i = {}" using e by (simp add: rd)
    ultimately show ?thesis using run own_pages_only_trans [OF own k(2)] k(3) by (simp add: pd'_def)
  next
    case False
    define t where "t = page_entries_mapped pd i"
    define js where "js = [MALI_MMU_PTE_ENTRY (page_addr q) ..< Suc (MALI_MMU_PTE_ENTRY (page_addr q + page_addr (q' - q) - 1))]"
    define m' where "m' = fold (\<lambda>j. mem_write t j 0) js m"
    have t: "t = page_entries_mapped ?pd i" "t \<noteq> 0" using t0 by (simp_all add: t_def)
    note k = pte_clear [OF ok2 i t, of js, folded m'_def]
    have "mali_page_directory_get_phys_address ?pd i m = t"
      using dir_okD(7) [OF ok2 i] page_flags(3) [OF dir_page_ok [OF ok2 table_in_pages [OF i]]] t
      by (simp add: mali_page_directory_get_phys_address_def)
    then have run: "unmap_entry i (page_addr q) (page_addr (q' - q)) (u, pd, m) = Done (add_page 2 t u, ?pd, m')"
      using t0 False by (simp add: unmap_entry_def n_def [symmetric] Let_def t_def [symmetric] mali_mmu_zero_pte_def m'_def js_def)
    have js: "x div 1024 = i \<and> x mod 1024 \<in> set js \<longleftrightarrow> x \<in> ?S" for x
    proof -
      have "(q' - 1) div 1024 = i" using div [of "q' - 1"] q(1) by simp
      moreover have "js = [q mod 1024 ..< Suc ((q' - 1) mod 1024)]"
        using q(1,4) page_entries(2) [OF qp] last_entries(2) [of q'] by (simp add: js_def page_addr_add)
      ultimately have e: "q = 1024 * i + q mod 1024" "q' - 1 = 1024 * i + (q' - 1) mod 1024" "set js = {q mod 1024 .. (q' - 1) mod 1024}"
        using q(2) mult_div_mod_eq [of 1024 q] mult_div_mod_eq [of 1024 "q' - 1"] by auto
      show ?thesis
      proof
        assume x: "x div 1024 = i \<and> x mod 1024 \<in> set js"
        then have "x = 1024 * i + x mod 1024" using mult_div_mod_eq [of 1024 x] by simp
        then have "q \<le> x" "x \<le> q' - 1" using x e by simp_all
        then show "x \<in> ?S" using q(1) by simp
      next
        assume x: "x \<in> ?S"
        then have d: "x div 1024 = i" by (rule div)
        then have "x = 1024 * i + x mod 1024" using mult_div_mod_eq [of 1024 x] by simp
        moreover have "q \<le> x" "x \<le> q' - 1" using x by auto
        ultimately have "1024 * i + q mod 1024 \<le> 1024 * i + x mod 1024" "1024 * i + x mod 1024 \<le> 1024 * i + (q' - 1) mod 1024"
          using e(1,2) by simp_all
        then have "q mod 1024 \<le> x mod 1024" "x mod 1024 \<le> (q' - 1) mod 1024" by simp_all
        then show "x div 1024 = i \<and> x mod 1024 \<in> set js" using d e(3) by simp
      qed
    qed
    have ne: "reserved_in R i - ?S \<noteq> {}" using n(1) False by simp
    then have "{i. reserved_in R i \<noteq> {}} = {j. reserved_in (R - ?S) j \<noteq> {}}" by (auto simp: rd)
    then have "pagedir_ok (R - ?S) ?pd m'" using k R' by (simp add: pagedir_ok_def)
    moreover have "pte ?pd m' x = (if x \<in> ?S then None else pte pd m x)" if "x < PAGES" for x
      using k that js ptes by auto
    moreover have "own_pages_only pd m ?pd m'" using own_pages_only_trans [OF own, of ?pd m'] k by blast
    moreover have "reserved_in (R - ?S) i \<noteq> {}" using ne by (simp add: rd)
    moreover have "?S \<subseteq> {..< PAGES}" using S R by blast
    ultimately show ?thesis using run R k by (intro exI [of _ "add_page 2 t u"] exI [of _ ?pd] exI [of _ m']) (auto simp: t_def)
  qed
qed

section \<open>The whole range\<close>

text \<open>The entries of a range that have pages left: only the first and the last can have.\<close>

definition entries_of :: "nat \<Rightarrow> nat \<Rightarrow> nat list" where
  "entries_of lo hi = [lo div 1024 ..< Suc ((hi - 1) div 1024)]"

definition kept_entries :: "nat set \<Rightarrow> nat \<Rightarrow> nat \<Rightarrow> nat list" where
  "kept_entries R lo hi = filter (\<lambda>i. reserved_in (R - {lo ..< hi}) i \<noteq> {}) (entries_of lo hi)"

definition entry_released :: "nat set \<Rightarrow> nat \<Rightarrow> nat \<Rightarrow> bool" where
  "entry_released R lo hi = list_ex (\<lambda>i. reserved_in (R - {lo ..< hi}) i = {}) (entries_of lo hi)"

lemma kept_entries_ends: "set (kept_entries R lo hi) \<subseteq> {lo div 1024, (hi - 1) div 1024}"
proof
  fix i assume "i \<in> set (kept_entries R lo hi)"
  then have e: "i \<in> set (entries_of lo hi)" and "reserved_in (R - {lo ..< hi}) i \<noteq> {}" by (simp_all add: kept_entries_def)
  then obtain x where x: "x \<notin> {lo ..< hi}" "x div 1024 = i" unfolding reserved_in_def by blast
  have i: "lo div 1024 \<le> i" "i \<le> (hi - 1) div 1024" using e unfolding entries_of_def set_upt atLeastLessThan_iff by linarith+
  show "i \<in> {lo div 1024, (hi - 1) div 1024}"
  proof (cases "x < lo")
    case True
    then have "i \<le> lo div 1024" using x(2) div_le_mono [of x lo 1024] by simp
    then show ?thesis using i by simp
  next
    case False
    then have "(hi - 1) div 1024 \<le> i" using x div_le_mono [of "hi - 1" x 1024] by simp
    then show ?thesis using i by simp
  qed
qed

lemma kept_entries_length: "length (kept_entries R lo hi) \<le> 2"
proof -
  have "distinct (kept_entries R lo hi)" by (simp add: kept_entries_def entries_of_def)
  then have "length (kept_entries R lo hi) = card (set (kept_entries R lo hi))" by (simp add: distinct_card)
  also have "\<dots> \<le> card {lo div 1024, (hi - 1) div 1024}" by (rule card_mono) (simp, rule kept_entries_ends)
  also have "\<dots> \<le> 2" by (simp add: card_insert_if)
  finally show ?thesis .
qed

text \<open>The range is taken one entry at a time.\<close>

lemma entries_first:
  assumes "q < hi" and i: "i = q div 1024" and q': "q' = min hi (1024 * Suc i)"
  shows "entries_of q hi = i # (if q' < hi then entries_of q' hi else [])"
    "reserved_in (R - {q ..< hi}) i = reserved_in (R - {q ..< q'}) i"
    "(\<not> q' < hi) = (q' = hi)" "q < q'" "q' \<le> 1024 * Suc i"
proof -
  have lo: "1024 * i \<le> q" "q < 1024 * Suc i" using i by (simp_all add: dividend_less_times_div)
  show "(\<not> q' < hi) = (q' = hi)" "q < q'" "q' \<le> 1024 * Suc i" using q' assms(1) lo by auto
  have le: "i \<le> (hi - 1) div 1024" unfolding i using assms(1) by (intro div_le_mono) simp
  show "entries_of q hi = i # (if q' < hi then entries_of q' hi else [])"
  proof (cases "q' < hi")
    case True
    then have "q' = 1024 * Suc i" using q' by auto
    then have "q' div 1024 = Suc i" by simp
    then show ?thesis using True le upt_conv_Cons [of i "Suc ((hi - 1) div 1024)"] by (simp add: entries_of_def i del: upt_Suc)
  next
    case False
    then have "hi - 1 < 1024 * Suc i" using q' assms(1) by auto
    then have "(hi - 1) div 1024 < Suc i" by (simp only: div_less_iff_less_mult mult.commute)
    then show ?thesis using False le by (simp add: entries_of_def i)
  qed
  have "x < q'" if "x \<in> {q ..< hi}" "x div 1024 = i" for x
    using that dividend_less_times_div [of 1024 x] unfolding q' by (simp only: min_less_iff_conj atLeastLessThan_iff) simp
  then show "reserved_in (R - {q ..< hi}) i = reserved_in (R - {q ..< q'}) i"
    using q' unfolding reserved_in_def by fastforce
qed

end
