(* ===== verification/Page_Release.thy ===== *)
theory Page_Release
  imports Page_Unmap
begin

text \<open>
  Giving a range of pages back, deleting a directory, and emptying the pool of table pages.
\<close>

section \<open>The loop over the entries\<close>

definition collected :: "page_directory \<Rightarrow> nat set \<Rightarrow> nat \<Rightarrow> nat \<Rightarrow> unmap_state \<Rightarrow> unmap_state" where
  "collected pd R lo hi u = u\<lparr>pd_changed := pd_changed u \<or> entry_released R lo hi,
     pages_to_invalidate := pages_to_invalidate u @ map (page_entries_mapped pd) (kept_entries R lo hi)\<rparr>"

lemma unmap_entries_ok:
  assumes "pagedir_ok R pd m" and "q < hi" "hi \<le> PAGES" "hi - q < PAGES" "{q ..< hi} \<subseteq> R"
    and "length (pages_to_invalidate u) + length (kept_entries R q hi) \<le> 2"
  shows "\<exists>pd' m'. unmap_entries (entries_of q hi) (page_addr q) (page_addr (hi - q)) (u, pd, m) =
      Done (collected pd R q hi u, pd', m') \<and>
    pagedir_ok (R - {q ..< hi}) pd' m' \<and> own_pages_only pd m pd' m' \<and> l2_log m' = l2_log m \<and> page_dir pd' = page_dir pd \<and>
    (\<forall>x \<in> R - {q ..< hi}. pte pd' m' x = pte pd m x) \<and> (\<forall>x \<in> {q ..< hi}. pte pd' m' x = None) \<and>
    (\<forall>x < PAGES. pte pd m x = None \<longrightarrow> pte pd' m' x = None)"
  using assms
proof (induction "hi - q" arbitrary: q R u pd m rule: less_induct)
  case less
  define i where "i = q div 1024"
  define q' where "q' = min hi (1024 * Suc i)"
  note F = entries_first [OF less.prems(2) i_def q'_def]
  have q'hi: "q' \<le> hi" by (simp add: q'_def)
  define R1 where "R1 = R - {q ..< q'}"
  have S: "{q ..< q'} \<subseteq> R" using less.prems(5) q'hi by auto
  have rest: "R1 - {q' ..< hi} = R - {q ..< hi}" using F(4) q'hi unfolding R1_def by auto
  from unmap_entry_ok [OF less.prems(1) F(4) i_def [symmetric] F(5) _ S, of u] q'hi less.prems(3)
  obtain u1 pd1 m1 where e: "unmap_entry i (page_addr q) (page_addr (q' - q)) (u, pd, m) = Done (u1, pd1, m1)"
    and ok1: "pagedir_ok R1 pd1 m1" and own1: "own_pages_only pd m pd1 m1" "l2_log m1 = l2_log m" "page_dir pd1 = page_dir pd"
    and ent: "\<forall>j. j \<noteq> i \<longrightarrow> page_entries_mapped pd1 j = page_entries_mapped pd j"
    and pt: "\<forall>x \<in> R1. pte pd1 m1 x = pte pd m x" "\<forall>x \<in> {q ..< q'}. pte pd1 m1 x = None"
      "\<forall>x < PAGES. pte pd m x = None \<longrightarrow> pte pd1 m1 x = None"
    and u1: "if reserved_in R1 i = {} then u1 = u\<lparr>pd_changed := True\<rparr> else u1 = add_page 2 (page_entries_mapped pd i) u"
    unfolding R1_def by auto
  have sz: "unmap_entries (i # is) (page_addr q) (page_addr (hi - q)) (u, pd, m) =
      unmap_entries is (page_addr q') (page_addr (hi - q')) (u1, pd1, m1)" for "is"
  proof -
    have "hi - q - (q' - q) = hi - q'" "q' - q \<le> hi - q" using F(4) q'hi by simp_all
    then show ?thesis
      using size_in_entry [OF less.prems(2-4) i_def q'_def] e F(4)
      by (simp add: Let_def page_addr_add page_addr_diff)
  qed
  have fst_kept: "reserved_in (R - {q ..< hi}) i = reserved_in R1 i" using F(2) by (simp add: R1_def)
  show ?case
  proof (cases "q' < hi")
    case False
    then have hi: "q' = hi" using F(3) by simp
    have es: "entries_of q hi = [i]" using F(1) False by simp
    have k: "kept_entries R q hi = (if reserved_in R1 i = {} then [] else [i])" "entry_released R q hi = (reserved_in R1 i = {})"
      by (simp_all add: kept_entries_def entry_released_def es fst_kept)
    have "u1 = collected pd R q hi u"
      using u1 less.prems(6) k by (auto simp: collected_def add_page_def split: if_splits)
    then show ?thesis using sz [of "[]"] ok1 own1 pt by (auto simp: es hi R1_def)
  next
    case True
    have es: "entries_of q hi = i # entries_of q' hi" using F(1) True by simp
    have k: "kept_entries R q hi = (if reserved_in R1 i = {} then [] else [i]) @ kept_entries R1 q' hi"
      "entry_released R q hi = (reserved_in R1 i = {} \<or> entry_released R1 q' hi)"
      by (simp_all add: kept_entries_def entry_released_def es fst_kept rest)
    have few: "length (pages_to_invalidate u1) + length (kept_entries R1 q' hi) \<le> 2"
      using u1 less.prems(6) k by (auto simp: add_page_def split: if_splits)
    have S1: "{q' ..< hi} \<subseteq> R1" using less.prems(5) F(4) by (auto simp: R1_def)
    have "hi - q' < hi - q" "hi - q' < PAGES" using F(4) True less.prems(4) by simp_all
    from less.hyps [OF this(1) ok1 True less.prems(3) this(2) S1 few]
    obtain pd' m' where r: "unmap_entries (entries_of q' hi) (page_addr q') (page_addr (hi - q')) (u1, pd1, m1) =
        Done (collected pd1 R1 q' hi u1, pd', m')"
      and ok': "pagedir_ok (R - {q ..< hi}) pd' m'" and own': "own_pages_only pd1 m1 pd' m'" "l2_log m' = l2_log m1" "page_dir pd' = page_dir pd1"
      and pt': "\<forall>x \<in> R - {q ..< hi}. pte pd' m' x = pte pd1 m1 x" "\<forall>x \<in> {q' ..< hi}. pte pd' m' x = None"
        "\<forall>x < PAGES. pte pd1 m1 x = None \<longrightarrow> pte pd' m' x = None"
      unfolding rest by blast
    have "q' = 1024 * Suc i" using True by (auto simp: q'_def min_def split: if_splits)
    then have "i \<notin> set (kept_entries R1 q' hi)" by (simp add: kept_entries_def entries_of_def)
    then have "map (page_entries_mapped pd1) (kept_entries R1 q' hi) = map (page_entries_mapped pd) (kept_entries R1 q' hi)"
      using ent by (intro map_cong) auto
    then have col: "collected pd1 R1 q' hi u1 = collected pd R q hi u"
      using u1 less.prems(6) k by (auto simp: collected_def add_page_def split: if_splits)
    have ptx: "pte pd' m' x = pte pd m x" if "x \<in> R - {q ..< hi}" for x
      using pt'(1) pt(1) that q'hi by (auto simp: R1_def)
    have ptn: "pte pd' m' x = None" if "x \<in> {q ..< hi}" for x
    proof (cases "x < q'")
      case False
      then show ?thesis using pt'(2) that by simp
    next
      case x: True
      have "x < PAGES" using that less.prems(3) by simp
      then show ?thesis using pt'(3) pt(2) that x by simp
    qed
    have "\<forall>x < PAGES. pte pd m x = None \<longrightarrow> pte pd' m' x = None" using pt(3) pt'(3) by blast
    moreover have "unmap_entries (entries_of q hi) (page_addr q) (page_addr (hi - q)) (u, pd, m) = Done (collected pd R q hi u, pd', m')"
      unfolding es sz r col ..
    ultimately show ?thesis
      using own_pages_only_trans [OF own1(1) own'(1)] own' own1 ok' ptx ptn by (intro exI [of _ pd'] exI [of _ m']) simp
  qed
qed

section \<open>A range\<close>

lemma log_ok: "pagedir_ok R pd (m\<lparr>l2_log := ls\<rparr>) = pagedir_ok R pd m"
  by (simp add: pagedir_ok_def dir_ok_def memory_ok_def in_use_def pde_def)

lemma pagedir_unmap_ok:
  assumes ok: "pagedir_ok R pd m" and rg: "0 < n" "p + n \<le> PAGES" "n < PAGES" and S: "{p ..< p + n} \<subseteq> R"
  shows "\<exists>pd' m'. mali_mmu_pagedir_unmap (page_addr p) (page_addr n) (pd, m) = Done (pd', m') \<and>
    pagedir_ok (R - {p ..< p + n}) pd' m' \<and> own_pages_only pd m pd' m' \<and>
    (\<forall>x \<in> R - {p ..< p + n}. pte pd' m' x = pte pd m x) \<and> (\<forall>x \<in> {p ..< p + n}. pte pd' m' x = None) \<and>
    (\<forall>x < PAGES. pte pd m x = None \<longrightarrow> pte pd' m' x = None) \<and>
    l2_log m' = l2_log m @ [InvalidatePages (map (page_entries_mapped pd) (kept_entries R p (p + n)) @
      (if entry_released R p (p + n) then [page_dir pd] else []))]"
proof -
  let ?u = "\<lparr>pd_changed = False, pages_to_invalidate = [], invalidate_all = False\<rparr>"
  have few: "length (pages_to_invalidate ?u) + length (kept_entries R p (p + n)) \<le> 2" using kept_entries_length by simp
  have "p < p + n" "p + n - p < PAGES" using rg by simp_all
  from unmap_entries_ok [OF ok this(1) rg(2) this(2) S few]
  obtain pd1 m1 where r: "unmap_entries (entries_of p (p + n)) (page_addr p) (page_addr n) (?u, pd, m) =
      Done (collected pd R p (p + n) ?u, pd1, m1)"
    and ok1: "pagedir_ok (R - {p ..< p + n}) pd1 m1" "own_pages_only pd m pd1 m1" "l2_log m1 = l2_log m" "page_dir pd1 = page_dir pd"
    and pt: "\<forall>x \<in> R - {p ..< p + n}. pte pd1 m1 x = pte pd m x" "\<forall>x \<in> {p ..< p + n}. pte pd1 m1 x = None"
      "\<forall>x < PAGES. pte pd m x = None \<longrightarrow> pte pd1 m1 x = None"
    by auto
  have e: "[MALI_MMU_PDE_ENTRY (page_addr p) ..< Suc (MALI_MMU_PDE_ENTRY (page_addr p + page_addr n - 1))] = entries_of p (p + n)"
    using rg page_entries(1) [of p] last_entries(1) [of "p + n"] by (simp add: entries_of_def page_addr_add)
  let ?l = "map (page_entries_mapped pd) (kept_entries R p (p + n)) @ (if entry_released R p (p + n) then [page_dir pd] else [])"
  define m' where "m' = m1\<lparr>l2_log := l2_log m1 @ [InvalidatePages ?l]\<rparr>"
  have "mali_mmu_pagedir_unmap (page_addr p) (page_addr n) (pd, m) = Done (pd1, m')"
    using kept_entries_length [of R p "p + n"]
    by (simp add: mali_mmu_pagedir_unmap_def e r collected_def add_page_def m'_def ok1(4) Let_def del: upt_Suc)
  moreover have "pagedir_ok (R - {p ..< p + n}) pd1 m'" unfolding m'_def log_ok by (fact ok1(1))
  moreover have "own_pages_only pd m pd1 m'" using ok1(2) by (simp add: own_pages_only_def in_use_def m'_def)
  moreover have "pte pd1 m' = pte pd1 m1" by (simp add: pte_def fun_eq_iff m'_def)
  ultimately show ?thesis using pt ok1(3) by (intro exI [of _ pd1] exI [of _ m']) (simp add: m'_def)
qed

section \<open>Deleting a directory\<close>

text \<open>The tables of the entries are released, then the page of the directory.\<close>

lemma free_tables_ok:
  assumes "dir_ok T c pd m" "\<forall>i \<in> set is. i < 1024"  "distinct is"
  shows "memory_ok (free_tables pd is m) \<and> l2_log (free_tables pd is m) = l2_log m \<and>
    in_use (free_tables pd is m) = in_use m - {t. t \<noteq> 0 \<and> (\<exists>i \<in> set is. page_entries_mapped pd i = t)} \<and>
    (\<forall>q. q \<noteq> page_dir pd \<longrightarrow> words (free_tables pd is m) q = words m q)"
proof -
  note D = dir_okD [OF assms(1)]
  have root0: "page_dir pd \<noteq> 0" using dir_page_ok [OF assms(1), of "page_dir pd"] by (simp add: pages_of_def page_ok_def)
  have "memory_ok (free_tables pd is m1) \<and> l2_log (free_tables pd is m1) = l2_log m1 \<and>
    in_use (free_tables pd is m1) = in_use m1 - {t. t \<noteq> 0 \<and> (\<exists>i \<in> set is. page_entries_mapped pd i = t)} \<and>
    (\<forall>q. q \<noteq> page_dir pd \<longrightarrow> words (free_tables pd is m1) q = words m1 q)"
    if "memory_ok m1" "\<forall>i \<in> set is. pde pd i m1 = pde pd i m \<and> (page_entries_mapped pd i \<noteq> 0 \<longrightarrow> page_entries_mapped pd i \<in> in_use m1)" for m1
    using that assms(2,3)
  proof (induction "is" arbitrary: m1)
    case (Cons i "is")
    have i: "i < 1024" and p: "pde pd i m1 = pde pd i m" using Cons.prems by simp_all
    show ?case
    proof (cases "page_entries_mapped pd i = 0")
      case True
      then have "free_tables pd (i # is) m1 = free_tables pd is m1" using dir_present [OF assms(1) i] p by simp
      then show ?thesis using Cons.IH [OF Cons.prems(1)] Cons.prems(2-4) True by auto
    next
      case False
      define t where "t = page_entries_mapped pd i"
      define m2 where "m2 = mali_mem_os_release_table_page t t (mem_write (page_dir pd) i 0 m1)"
      have t: "t \<in> in_use m1" "t \<noteq> 0" using Cons.prems(2) False by (simp_all add: t_def)
      have "pde pd i m AND NOT FLAGS_MASK = t"
        using D(7) [OF i] page_flags(3) [OF dir_page_ok [OF assms(1) table_in_pages [OF i False]]] False by (simp add: t_def)
      then have run: "free_tables pd (i # is) m1 = free_tables pd is m2"
        using dir_present [OF assms(1) i] p False root0 by (simp add: D(2) m2_def t_def)
      have k: "memory_ok m2" "words m2 = words (mem_write (page_dir pd) i 0 m1)" "l2_log m2 = l2_log m1" "in_use m2 = in_use m1 - {t}"
        using release_table_page_ok [OF _ _ m2_def] Cons.prems(1) t by simp_all
      have other: "page_entries_mapped pd j \<noteq> t" if "j \<in> set is" for j
        using D(8) [OF i _ False, of j] that Cons.prems(3,4) by (auto simp: t_def)
      have "\<forall>j \<in> set is. pde pd j m2 = pde pd j m \<and> (page_entries_mapped pd j \<noteq> 0 \<longrightarrow> page_entries_mapped pd j \<in> in_use m2)"
      proof
        fix j assume j: "j \<in> set is"
        then have "j \<noteq> i" using Cons.prems(4) by auto
        then have "pde pd j m2 = pde pd j m1" unfolding pde_def k(2) words_mem_write by simp
        then show "pde pd j m2 = pde pd j m \<and> (page_entries_mapped pd j \<noteq> 0 \<longrightarrow> page_entries_mapped pd j \<in> in_use m2)"
          using Cons.prems(2) j other [OF j] by (simp add: k(4))
      qed
      from Cons.IH [OF k(1) this] Cons.prems(3,4)
      have ih: "memory_ok (free_tables pd is m2)" "l2_log (free_tables pd is m2) = l2_log m2"
        "in_use (free_tables pd is m2) = in_use m2 - {t. t \<noteq> 0 \<and> (\<exists>i \<in> set is. page_entries_mapped pd i = t)}"
        "\<forall>q. q \<noteq> page_dir pd \<longrightarrow> words (free_tables pd is m2) q = words m2 q" by simp_all
      have "in_use m2 - {t. t \<noteq> 0 \<and> (\<exists>i \<in> set is. page_entries_mapped pd i = t)} =
          in_use m1 - {t. t \<noteq> 0 \<and> (\<exists>i \<in> set (i # is). page_entries_mapped pd i = t)}"
        unfolding k(4) using t(2) by (auto simp: t_def)
      moreover have "words m2 q = words m1 q" if "q \<noteq> page_dir pd" for q using that by (simp add: k(2) mem_write_def)
      ultimately show ?thesis unfolding run using ih k(3) by simp
    qed
  qed simp
  from this [OF D(1)] show ?thesis
    using assms(2) D(3) table_in_pages [of _ pd] by blast
qed

lemma pagedir_free_ok:
  assumes "pagedir_ok R pd m"
  shows "memory_ok (mali_mmu_pagedir_free pd m)" "in_use (mali_mmu_pagedir_free pd m) = in_use m - pages_of pd"
    "q \<notin> pages_of pd \<Longrightarrow> words (mali_mmu_pagedir_free pd m) q = words m q"
proof -
  note D = dir_okD [OF pagedir_okD [OF assms]]
  define m1 where "m1 = free_tables pd [0 ..< 1024] m"
  have k: "memory_ok m1" "in_use m1 = in_use m - {t. t \<noteq> 0 \<and> (\<exists>i < 1024. page_entries_mapped pd i = t)}"
    "q \<noteq> page_dir pd \<Longrightarrow> words m1 q = words m q" for q
    using free_tables_ok [OF pagedir_okD [OF assms], of "[0 ..< 1024]"] by (auto simp: m1_def simp del: upt_rec_numeral upt_0 upt_Suc)
  have "page_dir pd \<in> in_use m" using D(3) by (simp add: pages_of_def)
  then have "page_dir pd \<in> in_use m1" using k(2) D(6) by auto
  from release_table_page_ok [OF k(1) this refl]
  have r: "memory_ok (mali_mmu_pagedir_free pd m)" "words (mali_mmu_pagedir_free pd m) = words m1"
    "in_use (mali_mmu_pagedir_free pd m) = in_use m1 - {page_dir pd}"
    by (simp_all add: mali_mmu_pagedir_free_def D(2) m1_def)
  show "memory_ok (mali_mmu_pagedir_free pd m)" by (fact r(1))
  show "in_use (mali_mmu_pagedir_free pd m) = in_use m - pages_of pd" unfolding r(3) k(2) pages_of_def by auto
  show "q \<notin> pages_of pd \<Longrightarrow> words (mali_mmu_pagedir_free pd m) q = words m q" using k(3) by (simp add: r(2) pages_of_def)
qed

section \<open>Emptying the pool\<close>

text \<open>The pages that go back to the kernel are pages of the pool only.\<close>

lemma pool_free_ok:
  assumes "memory_ok m"
  shows "memory_ok (mali_mem_os_page_table_pool_free nr m)" "in_use (mali_mem_os_page_table_pool_free nr m) = in_use m"
    "words (mali_mem_os_page_table_pool_free nr m) = words m"
proof -
  define k where "k = length (table_pool m) - nr"
  let ?t = "take k (table_pool m)" and ?d = "drop k (table_pool m)"
  have e: "mali_mem_os_page_table_pool_free nr m = m\<lparr>table_pool := ?t, dma_pages := dma_pages m - fst ` set ?d\<rparr>"
    by (simp add: mali_mem_os_page_table_pool_free_def k_def Let_def)
  have s: "set (table_pool m) = set ?t \<union> set ?d" by (metis append_take_drop_id set_append)
  have "distinct (map fst ?t @ map fst ?d)" using assms by (simp add: memory_ok_def flip: map_append)
  then have d: "fst ` set ?t \<inter> fst ` set ?d = {}" "distinct (map fst ?t)" by auto
  have M: "\<forall>(phys, virt) \<in> set (table_pool m). phys = virt" "fst ` set (table_pool m) \<subseteq> dma_pages m"
    "\<forall>p \<in> dma_pages m. page_ok p" "length (table_pool m) \<le> PAGE_TABLE_PAGE_POOL_SIZE"
    using assms by (simp_all add: memory_ok_def)
  have v: "table_pool (mali_mem_os_page_table_pool_free nr m) = ?t"
    "dma_pages (mali_mem_os_page_table_pool_free nr m) = dma_pages m - fst ` set ?d" by (simp_all add: e)
  show "memory_ok (mali_mem_os_page_table_pool_free nr m)"
    unfolding memory_ok_def v
  proof (intro conjI ballI)
    show "distinct (map fst ?t)" by (fact d(2))
    fix x assume "x \<in> set ?t"
    then have "x \<in> set (table_pool m)" by (rule in_set_takeD)
    with M(1) show "case x of (phys, virt) \<Rightarrow> phys = virt" by (rule bspec)
  next
    have "fst ` set ?t \<subseteq> fst ` set (table_pool m)" by (intro image_mono set_take_subset)
    then show "fst ` set ?t \<subseteq> dma_pages m - fst ` set ?d" using M(2) d(1) by blast
    show "length ?t \<le> PAGE_TABLE_PAGE_POOL_SIZE" using M(4) by simp
  next
    fix x assume "x \<in> dma_pages m - fst ` set ?d"
    then show "page_ok x" using M(3) by blast
  qed
  show "in_use (mali_mem_os_page_table_pool_free nr m) = in_use m"
    unfolding in_use_def e s using d(1) by auto
  show "words (mali_mem_os_page_table_pool_free nr m) = words m" by (simp add: e)
qed

lemma trim_pool_ok:
  assumes "memory_ok m"
  shows "memory_ok (mali_mem_os_trim_page_table_page_pool k m)" "in_use (mali_mem_os_trim_page_table_page_pool k m) = in_use m"
    "words (mali_mem_os_trim_page_table_page_pool k m) = words m"
  using pool_free_ok [OF assms] by (simp_all add: mali_mem_os_trim_page_table_page_pool_def Let_def)

lemma release_pool_ok:
  assumes "memory_ok m"
  shows "memory_ok (release_pool m) \<and> in_use (release_pool m) = in_use m \<and> table_pool (release_pool m) = []"
  using assms
proof (induction m rule: release_pool.induct)
  case (1 m)
  define m1 where "m1 = mali_mem_os_page_table_pool_free (min CHUNK_TO_FREE (length (table_pool m))) m"
  note k = pool_free_ok [OF 1(2), of "min CHUNK_TO_FREE (length (table_pool m))", folded m1_def]
  have e: "release_pool m = (if 0 \<noteq> length (table_pool m1) then release_pool m1 else m1)"
    by (subst release_pool.simps) (simp add: m1_def Let_def)
  show ?case using 1(1) [OF m1_def _ k(1)] k(1,2) unfolding e by (cases "table_pool m1 = []") simp_all
qed

end
