(* ===== verification/Page_Sessions.thy ===== *)
theory Page_Sessions
  imports Page_Release
begin

text \<open>
  The address spaces of the sessions (the page directory part of \<open>_mali_ukk_open\<close> and \<open>_mali_ukk_close\<close> of
  common/mali_kernel_core.c), and all of them together: what the sessions have is a state of the
  driver that the operations on the page directories lead from one to the next.
\<close>

section \<open>Opening and closing\<close>

definition MALI_DLBU_VIRT_ADDR :: u32 where "MALI_DLBU_VIRT_ADDR = 0xFFF00000"

text \<open>What the other things a session needs have come to: its structure, its queue of notifications, the structure
  of the page directory, and its memory, soft jobs and timelines.\<close>

record open_results =
  session_allocated :: bool
  queue_created :: bool
  pagedir_allocated :: bool
  memory_begun :: bool
  soft_system_created :: bool
  timeline_system_created :: bool

text \<open>Without the page of the DLBU in it, the directory is left where it is: \<open>err_mmu\<close> comes after \<open>err_session\<close>.\<close>

definition mali_ukk_open :: "dma \<Rightarrow> u32 \<Rightarrow> open_results \<Rightarrow> table_memory \<Rightarrow> (table_memory \<times> page_directory option) outcome" where
  "mali_ukk_open alloc dlbu_phys r m =
     (if \<not> session_allocated r \<or> \<not> queue_created r then Done (m, None)
      else case mali_mmu_pagedir_alloc alloc (pagedir_allocated r) m of
        (m1, None) \<Rightarrow> Done (m1, None)
      | (m1, Some pd) \<Rightarrow>
          (case mali_mmu_pagedir_map alloc MALI_DLBU_VIRT_ADDR MALI_MMU_PAGE_SIZE (pd, m1) of
             ((pd1, m2), err) \<Rightarrow>
               if err \<noteq> ERR_OK then Done (m2, None)
               else bind_outcome
                 (if dlbu_phys \<noteq> 0
                  then mali_mmu_pagedir_update 1 pd1 MALI_DLBU_VIRT_ADDR dlbu_phys MALI_MMU_PAGE_SIZE MALI_MMU_FLAGS_DEFAULT m2
                  else Done m2)
                 (\<lambda>m3. if memory_begun r \<and> soft_system_created r \<and> timeline_system_created r then Done (m3, Some pd1)
                       else Done (mali_mmu_pagedir_free pd1 m3, None))))"

definition mali_ukk_close :: "page_directory \<Rightarrow> table_memory \<Rightarrow> table_memory outcome" where
  "mali_ukk_close pd m =
     bind_outcome (mali_mmu_pagedir_unmap MALI_DLBU_VIRT_ADDR MALI_MMU_PAGE_SIZE (pd, m))
       (\<lambda>(pd1, m1). Done (mali_mmu_pagedir_free pd1 m1))"

definition DLBU_PAGE :: nat where "DLBU_PAGE = 0xFFF00"

lemma dlbu_addr: "MALI_DLBU_VIRT_ADDR = page_addr DLBU_PAGE" "MALI_MMU_PAGE_SIZE = page_addr 1" "DLBU_PAGE + 1 < PAGES"
  by (simp_all add: MALI_DLBU_VIRT_ADDR_def MALI_MMU_PAGE_SIZE_def DLBU_PAGE_def page_addr_def PAGES_def)

lemma own_in_use: "own_pages_only pd m pd' m' \<Longrightarrow> in_use m' - pages_of pd' = in_use m - pages_of pd"
  by (simp add: own_pages_only_def)

lemma own_words: "own_pages_only pd m pd' m' \<Longrightarrow> p \<in> in_use m \<Longrightarrow> p \<notin> pages_of pd \<Longrightarrow> words m' p = words m p"
  by (simp add: own_pages_only_def)

lemma pagedir_pages: "pagedir_ok R pd m \<Longrightarrow> memory_ok m \<and> pages_of pd \<subseteq> in_use m"
  by (simp add: pagedir_ok_def dir_ok_def)

lemma update_ok:
  assumes ok: "pagedir_ok R pd m" and rg: "p + n < PAGES" "{p ..< p + n} \<subseteq> R"
  shows "\<exists>m'. mali_mmu_pagedir_update n pd (page_addr p) phys (page_addr n) perm m = Done m' \<and> pagedir_ok R pd m' \<and>
    own_pages_only pd m pd m' \<and> l2_log m' = l2_log m \<and>
    (\<forall>x < PAGES. pte pd m' x = (if p \<le> x \<and> x < p + n
       then (let e = (phys + page_addr (x - p)) OR perm in if e AND FLAGS_PRESENT = 0 then None else Some e) else pte pd m x))"
  unfolding mali_mmu_pagedir_update_def page_addr_add
  by (rule update_pages_ok [OF ok _ rg]) simp_all

text \<open>A new directory and what is done to it: the others keep their pages and their contents.\<close>

lemma own_new:
  assumes new: "pages_of pd \<inter> in_use m = {}" "in_use m1 = in_use m \<union> pages_of pd" "\<And>p. p \<in> in_use m \<Longrightarrow> words m1 p = words m p"
    and own: "own_pages_only pd m1 pd' m'" and ok: "pagedir_ok R pd' m'"
  shows "in_use m' = in_use m \<union> pages_of pd'" "pages_of pd' \<inter> in_use m = {}" "\<And>p. p \<in> in_use m \<Longrightarrow> words m' p = words m p"
proof -
  have e: "in_use m' - pages_of pd' = in_use m" using own_in_use [OF own] new(1,2) by blast
  then show "in_use m' = in_use m \<union> pages_of pd'" "pages_of pd' \<inter> in_use m = {}" using pagedir_pages [OF ok] by blast+
  show "words m' p = words m p" if "p \<in> in_use m" for p
    using own_words [OF own, of p] new that by auto
qed

definition kept_memory :: "table_memory \<Rightarrow> table_memory \<Rightarrow> bool" where
  "kept_memory m m' \<longleftrightarrow> memory_ok m' \<and> in_use m \<subseteq> in_use m' \<and> (\<forall>p \<in> in_use m. words m' p = words m p)"

text \<open>What opening leaves in use: the directory, nothing, or the one page of a directory that is lost.\<close>

lemma open_ok:
  assumes m: "memory_ok m" and a: "dma_ok alloc"
  shows "\<exists>m' r'. mali_ukk_open alloc dlbu r m = Done (m', r') \<and> kept_memory m m' \<and>
    (case r' of
       None \<Rightarrow> in_use m' = in_use m \<or> (\<exists>p. p \<notin> in_use m \<and> in_use m' = insert p (in_use m))
     | Some pd \<Rightarrow> pagedir_ok {DLBU_PAGE} pd m' \<and> in_use m' = in_use m \<union> pages_of pd \<and> pages_of pd \<inter> in_use m = {} \<and>
         (dlbu \<noteq> 0 \<longrightarrow> pte pd m' DLBU_PAGE = Some (dlbu OR MALI_MMU_FLAGS_DEFAULT)))"
proof (cases "session_allocated r \<and> queue_created r")
  case False
  then have "mali_ukk_open alloc dlbu r m = Done (m, None)" by (auto simp: mali_ukk_open_def)
  then show ?thesis using m by (simp add: kept_memory_def)
next
  case start: True
  obtain m1 o1 where al: "mali_mmu_pagedir_alloc alloc (pagedir_allocated r) m = (m1, o1)" by fastforce
  show ?thesis
  proof (cases o1)
    case None
    note k = pagedir_alloc_none [OF m a al [unfolded None]]
    have "mali_ukk_open alloc dlbu r m = Done (m1, None)" using start al None by (simp add: mali_ukk_open_def)
    then show ?thesis using k by (simp add: kept_memory_def)
  next
    case (Some pd)
    note k = pagedir_alloc_ok [OF m a al [unfolded Some]]
    obtain pd1 m2 err where mp: "mali_mmu_pagedir_map alloc (page_addr DLBU_PAGE) (page_addr 1) (pd, m1) = ((pd1, m2), err)"
      by (metis prod.collapse)
    have rg: "(0::nat) < 1" "DLBU_PAGE + 1 \<le> PAGES" "1 < PAGES" "{} \<inter> {DLBU_PAGE ..< DLBU_PAGE + 1} = {}"
      using dlbu_addr(3) by (simp_all add: PAGES_def)
    note w = pagedir_map_ok [OF k(1) a rg mp]
    note own = own_new [OF k(2,5,4) w(3) w(1)]
    show ?thesis
    proof (cases "err = ERR_OK")
      case False
      then have st: "map_stopped pd1 DLBU_PAGE 1 \<le> DLBU_PAGE" using w(2) by auto
      have "mali_ukk_open alloc dlbu r m = Done (m2, None)"
        using start al Some mp False by (simp add: mali_ukk_open_def dlbu_addr)
      moreover have "pages_of pd1 = {page_dir pd1}"
      proof -
        have "pagedir_ok {} pd1 m2" using w(1) st by simp
        from dir_okD(4) [OF pagedir_okD [OF this]] show ?thesis by (auto simp: pages_of_def)
      qed
      moreover have "kept_memory m m2" using own pagedir_pages [OF w(1)] by (simp add: kept_memory_def)
      ultimately show ?thesis using own by (intro exI [of _ m2] exI [of _ None]) auto
    next
      case True
      then have R: "pagedir_ok {DLBU_PAGE} pd1 m2" using w(1,2) by auto
      obtain m3 where m3: "(if dlbu \<noteq> 0
            then mali_mmu_pagedir_update 1 pd1 MALI_DLBU_VIRT_ADDR dlbu MALI_MMU_PAGE_SIZE MALI_MMU_FLAGS_DEFAULT m2
            else Done m2) = Done m3"
          "pagedir_ok {DLBU_PAGE} pd1 m3" "own_pages_only pd1 m2 pd1 m3"
          "dlbu \<noteq> 0 \<longrightarrow> pte pd1 m3 DLBU_PAGE = Some (dlbu OR MALI_MMU_FLAGS_DEFAULT)"
      proof (cases "dlbu = 0")
        case False
        have "{DLBU_PAGE ..< DLBU_PAGE + 1} \<subseteq> {DLBU_PAGE}" by auto
        from update_ok [OF R dlbu_addr(3) this, of dlbu MALI_MMU_FLAGS_DEFAULT]
        obtain m3 where u: "mali_mmu_pagedir_update 1 pd1 (page_addr DLBU_PAGE) dlbu (page_addr 1) MALI_MMU_FLAGS_DEFAULT m2 = Done m3"
          "pagedir_ok {DLBU_PAGE} pd1 m3" "own_pages_only pd1 m2 pd1 m3"
          "\<forall>x < PAGES. pte pd1 m3 x = (if DLBU_PAGE \<le> x \<and> x < DLBU_PAGE + 1
             then (let e = (dlbu + page_addr (x - DLBU_PAGE)) OR MALI_MMU_FLAGS_DEFAULT in if e AND FLAGS_PRESENT = 0 then None else Some e)
             else pte pd1 m2 x)" by blast
        have "DLBU_PAGE < PAGES" using dlbu_addr(3) by simp
        with u(4) have "pte pd1 m3 DLBU_PAGE =
            (let e = (dlbu + page_addr 0) OR MALI_MMU_FLAGS_DEFAULT in if e AND FLAGS_PRESENT = 0 then None else Some e)"
          by simp
        moreover have "(dlbu OR MALI_MMU_FLAGS_DEFAULT) AND FLAGS_PRESENT \<noteq> 0"
        proof -
          have "bit ((dlbu OR MALI_MMU_FLAGS_DEFAULT) AND FLAGS_PRESENT) 0"
            by (simp add: bit_and_iff bit_or_iff MALI_MMU_FLAGS_DEFAULT_def FLAGS_PRESENT_def)
          then show ?thesis by (metis bit_0_eq bot_apply bot_bool_def)
        qed
        ultimately have "pte pd1 m3 DLBU_PAGE = Some (dlbu OR MALI_MMU_FLAGS_DEFAULT)" by (simp add: page_addr_def)
        then show thesis using that [of m3] u False by (simp add: dlbu_addr)
      qed (use R that in simp)
      have own3: "own_pages_only pd m1 pd1 m3" by (rule own_pages_only_trans [OF w(3) m3(3)])
      note n = own_new [OF k(2,5,4) own3 m3(2)]
      show ?thesis
      proof (cases "memory_begun r \<and> soft_system_created r \<and> timeline_system_created r")
        case all: True
        have "mali_ukk_open alloc dlbu r m = Done (m3, Some pd1)"
          using start al Some mp True m3(1) all by (simp add: mali_ukk_open_def dlbu_addr)
        then show ?thesis using n m3(2,4) pagedir_pages [OF m3(2)] by (simp add: kept_memory_def)
      next
        case fail: False
        let ?m = "mali_mmu_pagedir_free pd1 m3"
        have "mali_ukk_open alloc dlbu r m = Done (?m, None)"
          using start al Some mp True m3(1) fail by (simp add: mali_ukk_open_def dlbu_addr)
        moreover have "in_use ?m = in_use m" using pagedir_free_ok(2) [OF m3(2)] n(1,2) by blast
        moreover have "words ?m p = words m p" if "p \<in> in_use m" for p
          using pagedir_free_ok(3) [OF m3(2), of p] n(2,3) that by auto
        ultimately show ?thesis using pagedir_free_ok(1) [OF m3(2)] by (simp add: kept_memory_def)
      qed
    qed
  qed
qed

text \<open>Closing gives all the pages back, whatever is still reserved.\<close>

lemma close_ok:
  assumes ok: "pagedir_ok R pd m" and d: "DLBU_PAGE \<in> R"
  shows "\<exists>m'. mali_ukk_close pd m = Done m' \<and> memory_ok m' \<and> in_use m' = in_use m - pages_of pd \<and>
    (\<forall>p \<in> in_use m - pages_of pd. words m' p = words m p)"
proof -
  have rg: "(0::nat) < 1" "DLBU_PAGE + 1 \<le> PAGES" "1 < PAGES" "{DLBU_PAGE ..< DLBU_PAGE + 1} \<subseteq> R"
    using dlbu_addr(3) d by (simp_all add: PAGES_def)
  from pagedir_unmap_ok [OF ok rg] obtain pd1 m1 where u:
    "mali_mmu_pagedir_unmap (page_addr DLBU_PAGE) (page_addr 1) (pd, m) = Done (pd1, m1)"
    "pagedir_ok (R - {DLBU_PAGE ..< DLBU_PAGE + 1}) pd1 m1" "own_pages_only pd m pd1 m1" by blast
  let ?m = "mali_mmu_pagedir_free pd1 m1"
  note f = pagedir_free_ok [OF u(2)]
  have "mali_ukk_close pd m = Done ?m" using u(1) by (simp add: mali_ukk_close_def dlbu_addr)
  moreover have e: "in_use ?m = in_use m - pages_of pd" using f(2) own_in_use [OF u(3)] by simp
  moreover have "words ?m p = words m p" if "p \<in> in_use m - pages_of pd" for p
    using f(3) [of p] own_words [OF u(3), of p] own_in_use [OF u(3)] that by auto
  ultimately show ?thesis using f(1) by blast
qed

end
