(* ===== verification/Page_System.thy ===== *)
theory Page_System
  imports Page_Sessions
begin

text \<open>
  The memory of all sessions: the steps they take, and what holds of every state that is reached.
  User space chooses the addresses. The steps are those of sessions that take whole pages which are
  not reserved already and are not the page of the DLBU; the driver itself checks less than that
  (GPU_Addresses).
\<close>

section \<open>States and steps\<close>

text \<open>\<open>lost\<close>: the pages of directories that opening has left behind.\<close>

record gpu_memory =
  tables :: table_memory
  spaces :: "session_id \<Rightarrow> (page_directory \<times> nat set) option"
  lost :: "u32 set"

definition fresh_memory :: "(u32 \<Rightarrow> nat \<Rightarrow> u32) \<Rightarrow> gpu_memory" where
  "fresh_memory w = \<lparr>tables = \<lparr>words = w, table_pool = [], dma_pages = {}, dma_calls = 0, l2_log = []\<rparr>, spaces = (\<lambda>_. None), lost = {}\<rparr>"

definition set_space :: "session_id \<Rightarrow> (page_directory \<times> nat set) option \<Rightarrow> table_memory \<Rightarrow> gpu_memory \<Rightarrow> gpu_memory" where
  "set_space s x m g = g\<lparr>tables := m, spaces := (spaces g)(s := x)\<rparr>"

text \<open>One step of session \<open>s\<close>. The timer that trims the pool is a step of whoever.\<close>

inductive memory_step :: "dma \<Rightarrow> u32 \<Rightarrow> session_id \<Rightarrow> gpu_memory \<Rightarrow> gpu_memory \<Rightarrow> bool"
  for alloc :: dma and dlbu :: u32 and s :: session_id where
  opened: "\<lbrakk>spaces g s = None; mali_ukk_open alloc dlbu r (tables g) = Done (m, Some pd)\<rbrakk> \<Longrightarrow>
    memory_step alloc dlbu s g (set_space s (Some (pd, {DLBU_PAGE})) m g)"
| not_opened: "\<lbrakk>spaces g s = None; mali_ukk_open alloc dlbu r (tables g) = Done (m, None)\<rbrakk> \<Longrightarrow>
    memory_step alloc dlbu s g (g\<lparr>tables := m, lost := lost g \<union> (in_use m - in_use (tables g))\<rparr>)"
| mapped: "\<lbrakk>spaces g s = Some (pd, R); 0 < n; p + n \<le> PAGES; n < PAGES; R \<inter> {p ..< p + n} = {};
    mali_mmu_pagedir_map alloc (page_addr p) (page_addr n) (pd, tables g) = ((pd', m), err)\<rbrakk> \<Longrightarrow>
    memory_step alloc dlbu s g (set_space s (Some (pd', R \<union> {p ..< map_stopped pd' p n})) m g)"
| backed: "\<lbrakk>spaces g s = Some (pd, R); p + n < PAGES; {p ..< p + n} \<subseteq> R;
    mali_mmu_pagedir_update n pd (page_addr p) phys (page_addr n) perm (tables g) = Done m\<rbrakk> \<Longrightarrow>
    memory_step alloc dlbu s g (set_space s (Some (pd, R)) m g)"
| unmapped: "\<lbrakk>spaces g s = Some (pd, R); 0 < n; p + n \<le> PAGES; n < PAGES; {p ..< p + n} \<subseteq> R; DLBU_PAGE \<notin> {p ..< p + n};
    mali_mmu_pagedir_unmap (page_addr p) (page_addr n) (pd, tables g) = Done (pd', m)\<rbrakk> \<Longrightarrow>
    memory_step alloc dlbu s g (set_space s (Some (pd', R - {p ..< p + n})) m g)"
| closed: "\<lbrakk>spaces g s = Some (pd, R); mali_ukk_close pd (tables g) = Done m\<rbrakk> \<Longrightarrow>
    memory_step alloc dlbu s g (set_space s None m g)"
| trimmed: "memory_step alloc dlbu s g (g\<lparr>tables := mali_mem_os_trim_page_table_page_pool k (tables g)\<rparr>)"

inductive memory_reached :: "dma \<Rightarrow> u32 \<Rightarrow> gpu_memory \<Rightarrow> bool" for alloc :: dma and dlbu :: u32 where
  start: "memory_reached alloc dlbu (fresh_memory w)"
| step: "memory_reached alloc dlbu g \<Longrightarrow> memory_step alloc dlbu s g g' \<Longrightarrow> memory_reached alloc dlbu g'"

section \<open>The invariant\<close>

text \<open>Every page that is neither with the kernel nor in the pool has one owner.\<close>

definition space_pages :: "gpu_memory \<Rightarrow> session_id \<Rightarrow> u32 set" where
  "space_pages g s = (case spaces g s of None \<Rightarrow> {} | Some (pd, R) \<Rightarrow> pages_of pd)"

definition gpu_memory_ok :: "gpu_memory \<Rightarrow> bool" where
  "gpu_memory_ok g \<longleftrightarrow> memory_ok (tables g) \<and>
     (\<forall>s pd R. spaces g s = Some (pd, R) \<longrightarrow> pagedir_ok R pd (tables g) \<and> DLBU_PAGE \<in> R) \<and>
     (\<forall>s t. s \<noteq> t \<longrightarrow> space_pages g s \<inter> space_pages g t = {}) \<and>
     (\<forall>s. space_pages g s \<inter> lost g = {}) \<and> in_use (tables g) = lost g \<union> (\<Union>s. space_pages g s)"

lemma gpu_memory_okD:
  assumes "gpu_memory_ok g"
  shows "memory_ok (tables g)" "\<And>s pd R. spaces g s = Some (pd, R) \<Longrightarrow> pagedir_ok R pd (tables g)"
    "\<And>s pd R. spaces g s = Some (pd, R) \<Longrightarrow> DLBU_PAGE \<in> R"
    "\<And>s t. s \<noteq> t \<Longrightarrow> space_pages g s \<inter> space_pages g t = {}" "\<And>s. space_pages g s \<inter> lost g = {}"
    "in_use (tables g) = lost g \<union> (\<Union>s. space_pages g s)"
proof -
  note a = assms [unfolded gpu_memory_ok_def]
  show "memory_ok (tables g)" by (rule conjunct1 [OF a])
  show "in_use (tables g) = lost g \<union> (\<Union>s. space_pages g s)" using a by (elim conjE)
  show "spaces g s = Some (pd, R) \<Longrightarrow> pagedir_ok R pd (tables g)" "spaces g s = Some (pd, R) \<Longrightarrow> DLBU_PAGE \<in> R" for s pd R
    using a by (elim conjE, metis)+
  show "s \<noteq> t \<Longrightarrow> space_pages g s \<inter> space_pages g t = {}" "space_pages g s \<inter> lost g = {}" for s t
    using a by (elim conjE, metis)+
qed

text \<open>
  A step of one session: its own pages before and after, the pages that are lost, and the rest
  of the pages in use, which stays what it is.
\<close>

lemma gpu_memory_step:
  assumes g: "gpu_memory_ok g" and m: "memory_ok m'"
    and new: "\<And>pd R. x = Some (pd, R) \<Longrightarrow> pagedir_ok R pd m' \<and> DLBU_PAGE \<in> R"
    and P: "P = (case x of None \<Rightarrow> {} | Some (pd, R) \<Rightarrow> pages_of pd)"
    and u: "in_use m' = (in_use (tables g) - space_pages g s) \<union> P \<union> L" "(P \<union> L) \<inter> (in_use (tables g) - space_pages g s) = {}" "P \<inter> L = {}"
    and w: "\<And>p. p \<in> in_use (tables g) \<Longrightarrow> p \<notin> space_pages g s \<Longrightarrow> words m' p = words (tables g) p"
  shows "gpu_memory_ok (set_space s x m' (g\<lparr>lost := lost g \<union> L\<rparr>))"
    "\<And>t pd R. t \<noteq> s \<Longrightarrow> spaces g t = Some (pd, R) \<Longrightarrow> walk pd m' a = walk pd (tables g) a"
proof -
  note G = gpu_memory_okD [OF g]
  let ?g = "set_space s x m' (g\<lparr>lost := lost g \<union> L\<rparr>)"
  have v: "tables ?g = m'" "spaces ?g = (spaces g)(s := x)" "lost ?g = lost g \<union> L" by (simp_all add: set_space_def)
  have sp: "space_pages ?g t = (if t = s then P else space_pages g t)" for t
    by (simp add: space_pages_def v(2) P)
  have rest: "space_pages g t \<subseteq> in_use (tables g) - space_pages g s" if "t \<noteq> s" for t
    using G(4) [OF that] G(6) by blast
  have lost: "lost g \<subseteq> in_use (tables g) - space_pages g s" using G(5) [of s] G(6) by blast
  have kept: "pagedir_ok R pd m'" "walk pd m' a = walk pd (tables g) a" if "t \<noteq> s" "spaces g t = Some (pd, R)" for t pd R a
  proof -
    have e: "space_pages g t = pages_of pd" using that(2) by (simp add: space_pages_def)
    have "pages_of pd \<subseteq> in_use m'" using rest [OF that(1)] u(1) unfolding e by blast
    moreover have "words m' p = words (tables g) p" if "p \<in> pages_of pd" for p
      using w [of p] rest [OF \<open>t \<noteq> s\<close>] that unfolding e by blast
    ultimately show "pagedir_ok R pd m'" "walk pd m' a = walk pd (tables g) a"
      using pagedir_kept [OF G(2) [OF that(2)] m] by blast+
  qed
  show "walk pd m' a = walk pd (tables g) a" if "t \<noteq> s" "spaces g t = Some (pd, R)" for t pd R by (rule kept(2) [OF that])
  show "gpu_memory_ok ?g"
    unfolding gpu_memory_ok_def v sp
  proof (intro conjI allI impI)
    show "memory_ok m'" by (fact m)
    fix t pd R assume t: "((spaces g)(s := x)) t = Some (pd, R)"
    show "pagedir_ok R pd m'" using t new kept(1) [of t] by (cases "t = s") simp_all
    show "DLBU_PAGE \<in> R" using t new G(3) [of t] by (cases "t = s") simp_all
  next
    fix t t' :: session_id assume n: "t \<noteq> t'"
    show "(if t = s then P else space_pages g t) \<inter> (if t' = s then P else space_pages g t') = {}"
      using n G(4) [OF n] rest [of t] rest [of t'] u(2) by (cases "t = s"; cases "t' = s") auto
  next
    fix t
    show "(if t = s then P else space_pages g t) \<inter> (lost g \<union> L) = {}"
      using lost u(2,3) rest [of t] G(5) [of t] by (cases "t = s") auto
  next
    have "in_use (tables g) - space_pages g s = lost g \<union> (\<Union>t \<in> UNIV - {s}. space_pages g t)"
      using G(4) G(5) unfolding G(6) by blast
    then have "in_use m' = lost g \<union> (\<Union>t \<in> UNIV - {s}. space_pages g t) \<union> P \<union> L" using u(1) by simp
    also have "\<dots> = lost g \<union> L \<union> (\<Union>t. if t = s then P else space_pages g t)" by auto
    finally show "in_use m' = lost g \<union> L \<union> (\<Union>t. if t = s then P else space_pages g t)" .
  qed
qed

section \<open>Every step keeps the invariant\<close>

definition others_see :: "session_id \<Rightarrow> gpu_memory \<Rightarrow> gpu_memory \<Rightarrow> bool" where
  "others_see s g g' \<longleftrightarrow> (\<forall>t pd R. t \<noteq> s \<longrightarrow> spaces g t = Some (pd, R) \<longrightarrow>
     spaces g' t = Some (pd, R) \<and> (\<forall>a. walk pd (tables g') a = walk pd (tables g) a))"

lemma own_step:
  assumes g: "gpu_memory_ok g" and s: "spaces g s = Some (pd, R0)"
    and own: "own_pages_only pd (tables g) pd' m'" and ok: "pagedir_ok R pd' m'" "DLBU_PAGE \<in> R"
  shows "gpu_memory_ok (set_space s (Some (pd', R)) m' g) \<and> others_see s g (set_space s (Some (pd', R)) m' g)"
proof -
  note G = gpu_memory_okD [OF g]
  have sp: "space_pages g s = pages_of pd" using s by (simp add: space_pages_def)
  have u: "in_use m' - pages_of pd' = in_use (tables g) - pages_of pd" by (rule own_in_use [OF own])
  have sub: "pages_of pd' \<subseteq> in_use m'" "memory_ok m'" using pagedir_pages [OF ok(1)] by simp_all
  have u': "in_use m' = (in_use (tables g) - space_pages g s) \<union> pages_of pd' \<union> {}"
    "(pages_of pd' \<union> {}) \<inter> (in_use (tables g) - space_pages g s) = {}" "pages_of pd' \<inter> {} = {}"
    unfolding sp u [symmetric] using sub by auto
  have w: "words m' p = words (tables g) p" if "p \<in> in_use (tables g)" "p \<notin> space_pages g s" for p
    using own_words [OF own] that unfolding sp by blast
  have x: "(Some (pd', R) = Some (pd2, R2)) \<Longrightarrow> pagedir_ok R2 pd2 m' \<and> DLBU_PAGE \<in> R2" for pd2 R2 using ok by simp
  have P: "pages_of pd' = (case Some (pd', R) of None \<Rightarrow> {} | Some (pd, R) \<Rightarrow> pages_of pd)" by simp
  note k = gpu_memory_step [OF g sub(2) x P u' w]
  have "g\<lparr>lost := lost g \<union> {}\<rparr> = g" by simp
  then show ?thesis using k by (simp add: others_see_def set_space_def)
qed

lemma gpu_memory_start: "gpu_memory_ok (fresh_memory w)"
  by (simp add: gpu_memory_ok_def fresh_memory_def memory_ok_def space_pages_def in_use_def)

lemma memory_step_ok:
  assumes "memory_step alloc dlbu s g g'" and a: "dma_ok alloc" and g: "gpu_memory_ok g"
  shows "gpu_memory_ok g' \<and> others_see s g g'"
  using assms(1)
proof cases
  case (opened r m pd)
  note G = gpu_memory_okD [OF g]
  have k: "kept_memory (tables g) m" "pagedir_ok {DLBU_PAGE} pd m" "in_use m = in_use (tables g) \<union> pages_of pd"
    "pages_of pd \<inter> in_use (tables g) = {}"
    using open_ok [OF G(1) a, of dlbu r] opened(3) by auto
  have sp: "space_pages g s = {}" using opened(2) by (simp add: space_pages_def)
  have u: "in_use m = (in_use (tables g) - space_pages g s) \<union> pages_of pd \<union> {}"
    "(pages_of pd \<union> {}) \<inter> (in_use (tables g) - space_pages g s) = {}" "pages_of pd \<inter> {} = {}"
    unfolding sp using k(3,4) by auto
  have w: "words m p = words (tables g) p" if "p \<in> in_use (tables g)" "p \<notin> space_pages g s" for p
    using k(1) that by (simp add: kept_memory_def)
  have m: "memory_ok m" using k(1) by (simp add: kept_memory_def)
  have x: "Some (pd, {DLBU_PAGE}) = Some (pd2, R2) \<Longrightarrow> pagedir_ok R2 pd2 m \<and> DLBU_PAGE \<in> R2" for pd2 R2 using k(2) by auto
  have P: "pages_of pd = (case Some (pd, {DLBU_PAGE}) of None \<Rightarrow> {} | Some (pd, R) \<Rightarrow> pages_of pd)" by simp
  have "g\<lparr>lost := lost g \<union> {}\<rparr> = g" by simp
  then show ?thesis using gpu_memory_step [OF g m x P u w] by (simp add: others_see_def set_space_def opened(1))
next
  case (not_opened r m)
  note G = gpu_memory_okD [OF g]
  have k: "kept_memory (tables g) m" using open_ok [OF G(1) a, of dlbu r] not_opened(3) by auto
  let ?L = "in_use m - in_use (tables g)"
  have sp: "space_pages g s = {}" using not_opened(2) by (simp add: space_pages_def)
  have u: "in_use m = (in_use (tables g) - space_pages g s) \<union> {} \<union> ?L" "({} \<union> ?L) \<inter> (in_use (tables g) - space_pages g s) = {}" "{} \<inter> ?L = {}"
    unfolding sp using k by (auto simp: kept_memory_def)
  have w: "words m p = words (tables g) p" if "p \<in> in_use (tables g)" "p \<notin> space_pages g s" for p
    using k that by (simp add: kept_memory_def)
  have m: "memory_ok m" using k by (simp add: kept_memory_def)
  have x: "None = Some (pd2, R2) \<Longrightarrow> pagedir_ok R2 pd2 m \<and> DLBU_PAGE \<in> R2" for pd2 R2 by simp
  have P: "{} = (case None of None \<Rightarrow> {} | Some (pd, R :: nat set) \<Rightarrow> pages_of pd)" by simp
  have e: "(spaces g)(s := None) = spaces g" using not_opened(2) by (simp add: fun_eq_iff)
  have "set_space s None m (g\<lparr>lost := lost g \<union> ?L\<rparr>) = g'"
    unfolding not_opened(1) set_space_def by (simp add: e)
  then show ?thesis using gpu_memory_step [OF g m x P u w] e by (auto simp: others_see_def not_opened(1))
next
  case (mapped pd R n p pd' m err)
  note w = pagedir_map_ok [OF gpu_memory_okD(2) [OF g mapped(2)] a mapped(3-7)]
  have "DLBU_PAGE \<in> R \<union> {p ..< map_stopped pd' p n}" using gpu_memory_okD(3) [OF g mapped(2)] by blast
  from own_step [OF g mapped(2) w(3,1) this] show ?thesis unfolding mapped(1) .
next
  case (backed pd R p n phys perm m)
  have "pagedir_ok R pd m" "own_pages_only pd (tables g) pd m"
    using update_ok [OF gpu_memory_okD(2) [OF g backed(2)] backed(3,4), of phys perm] backed(5) by auto
  from own_step [OF g backed(2) this(2,1) gpu_memory_okD(3) [OF g backed(2)]] show ?thesis unfolding backed(1) .
next
  case (unmapped pd R n p pd' m)
  have "pagedir_ok (R - {p ..< p + n}) pd' m" "own_pages_only pd (tables g) pd' m"
    using pagedir_unmap_ok [OF gpu_memory_okD(2) [OF g unmapped(2)] unmapped(3-6)] unmapped(8) by auto
  moreover have "DLBU_PAGE \<in> R - {p ..< p + n}" using gpu_memory_okD(3) [OF g unmapped(2)] unmapped(7) by blast
  ultimately show ?thesis using own_step [OF g unmapped(2)] unfolding unmapped(1) by blast
next
  case (closed pd R m)
  have k: "memory_ok m" "in_use m = in_use (tables g) - pages_of pd" "\<forall>p \<in> in_use (tables g) - pages_of pd. words m p = words (tables g) p"
    using close_ok [OF gpu_memory_okD(2,3) [OF g closed(2)]] closed(3) by auto
  have sp: "space_pages g s = pages_of pd" using closed(2) by (simp add: space_pages_def)
  have u: "in_use m = (in_use (tables g) - space_pages g s) \<union> {} \<union> {}" "({} \<union> {}) \<inter> (in_use (tables g) - space_pages g s) = {}"
    "({} :: u32 set) \<inter> {} = {}" unfolding sp k(2) by auto
  have w: "words m p = words (tables g) p" if "p \<in> in_use (tables g)" "p \<notin> space_pages g s" for p
    using k(3) that unfolding sp by blast
  have x: "None = Some (pd2, R2) \<Longrightarrow> pagedir_ok R2 pd2 m \<and> DLBU_PAGE \<in> R2" for pd2 R2 by simp
  have P: "{} = (case None of None \<Rightarrow> {} | Some (pd, R :: nat set) \<Rightarrow> pages_of pd)" by simp
  have "g\<lparr>lost := lost g \<union> {}\<rparr> = g" by simp
  then show ?thesis using gpu_memory_step [OF g k(1) x P u w] by (simp add: others_see_def set_space_def closed(1))
next
  case (trimmed k)
  note t = trim_pool_ok [OF gpu_memory_okD(1) [OF g], of k]
  let ?m = "mali_mem_os_trim_page_table_page_pool k (tables g)"
  note G = gpu_memory_okD [OF g]
  have p: "pagedir_ok R pd ?m" if "spaces g s = Some (pd, R)" for s pd R
    by (rule pagedir_kept(1) [OF G(2) [OF that] t(1)]) (use t pagedir_pages [OF G(2) [OF that]] in simp_all)
  have sp: "space_pages g' s = space_pages g s" for s by (simp add: trimmed space_pages_def)
  have v: "tables g' = ?m" "spaces g' = spaces g" "lost g' = lost g" by (simp_all add: trimmed)
  have "gpu_memory_ok g'"
    unfolding gpu_memory_ok_def sp v t(2)
    using p t(1) G by (intro conjI allI impI) assumption+
  moreover have "walk pd (tables g') a = walk pd (tables g) a" for pd a
    by (simp add: trimmed walk_def mmu_walk_def Let_def t(3))
  ultimately show ?thesis by (simp add: others_see_def trimmed)
qed

lemma memory_reached_ok:
  assumes "memory_reached alloc dlbu g" and "dma_ok alloc"
  shows "gpu_memory_ok g"
  using assms(1)
  by induction (use gpu_memory_start memory_step_ok [OF _ assms(2)] in blast)+

end
