(* ===== verification/Page_Helpers.thy ===== *)
theory Page_Helpers
  imports Page_Tables
begin

text \<open>
  The helper pages of common/mali_mmu.c: a directory without entries for the MMUs that nobody uses,
  and a directory all of whose addresses lead to one page, for an MMU that has faulted.
\<close>

section \<open>Operations\<close>

text \<open>A page is its bus address and its mapping.\<close>

record helper_pages =
  empty_page_directory :: "u32 \<times> u32"
  flush_page_directory :: "u32 \<times> u32"
  flush_page_table :: "u32 \<times> u32"
  flush_data_page :: "u32 \<times> u32"

definition NO_PAGE :: "u32 \<times> u32" where "NO_PAGE = (MALI_INVALID_PAGE, 0)"

definition no_helper_pages :: helper_pages where
  "no_helper_pages = \<lparr>empty_page_directory = NO_PAGE, flush_page_directory = NO_PAGE, flush_page_table = NO_PAGE, flush_data_page = NO_PAGE\<rparr>"

definition mali_allocate_empty_page :: "dma \<Rightarrow> table_memory \<Rightarrow> table_memory \<times> u32 \<times> u32 option" where
  "mali_allocate_empty_page alloc m =
     (case mali_mem_os_get_table_page alloc m of
        (m1, None) \<Rightarrow> (m1, 0, None)
      | (m1, Some (address, mapping)) \<Rightarrow> (fill_page mapping 0 m1, address, Some mapping))"

definition mali_free_empty_page :: "u32 \<times> u32 \<Rightarrow> table_memory \<Rightarrow> table_memory" where
  "mali_free_empty_page p m = (if fst p \<noteq> MALI_INVALID_PAGE then mali_mem_os_release_table_page (fst p) (snd p) m else m)"

text \<open>A page that could not be had leaves its mapping NULL and its address as it was.\<close>

definition get_page :: "dma \<Rightarrow> u32 \<times> u32 \<Rightarrow> table_memory \<Rightarrow> table_memory \<times> (u32 \<times> u32) \<times> osk_err" where
  "get_page alloc p m =
     (case mali_mem_os_get_table_page alloc m of
        (m1, None) \<Rightarrow> (m1, (fst p, 0), ERR_NOMEM)
      | (m1, Some q) \<Rightarrow> (m1, q, ERR_OK))"

definition release_page :: "u32 \<times> u32 \<Rightarrow> table_memory \<Rightarrow> table_memory" where
  "release_page p = mali_mem_os_release_table_page (fst p) (snd p)"

definition mali_create_fault_flush_pages :: "dma \<Rightarrow> helper_pages \<times> table_memory \<Rightarrow> (helper_pages \<times> table_memory) \<times> osk_err" where
  "mali_create_fault_flush_pages alloc = (\<lambda>(h, m).
     case get_page alloc (flush_data_page h) m of (m1, data, err) \<Rightarrow>
     if err \<noteq> ERR_OK then ((h\<lparr>flush_data_page := data\<rparr>, m1), err)
     else case get_page alloc (flush_page_table h) m1 of (m2, table, err) \<Rightarrow>
     if err \<noteq> ERR_OK
     then ((h\<lparr>flush_page_table := table, flush_data_page := (MALI_INVALID_PAGE, snd data)\<rparr>, release_page data m2), err)
     else case get_page alloc (flush_page_directory h) m2 of (m3, dir, err) \<Rightarrow>
     if err \<noteq> ERR_OK
     then ((h\<lparr>flush_page_directory := dir, flush_page_table := (MALI_INVALID_PAGE, snd table),
              flush_data_page := (MALI_INVALID_PAGE, snd data)\<rparr>, release_page data (release_page table m3)), err)
     else ((h\<lparr>flush_page_directory := dir, flush_page_table := table, flush_data_page := data\<rparr>,
            fill_page (snd dir) (fst table OR FLAGS_PRESENT)
              (fill_page (snd table) (fst data OR MALI_MMU_FLAGS_DEFAULT) (fill_page (snd data) 0 m3))), ERR_OK))"

definition mali_destroy_fault_flush_pages :: "helper_pages \<times> table_memory \<Rightarrow> helper_pages \<times> table_memory" where
  "mali_destroy_fault_flush_pages = (\<lambda>(h, m).
     let (h1, m1) = (if fst (flush_page_directory h) \<noteq> MALI_INVALID_PAGE
            then (h\<lparr>flush_page_directory := NO_PAGE\<rparr>, release_page (flush_page_directory h) m) else (h, m));
         (h2, m2) = (if fst (flush_page_table h1) \<noteq> MALI_INVALID_PAGE
            then (h1\<lparr>flush_page_table := NO_PAGE\<rparr>, release_page (flush_page_table h1) m1) else (h1, m1))
     in (if fst (flush_data_page h2) \<noteq> MALI_INVALID_PAGE
         then (h2\<lparr>flush_data_page := NO_PAGE\<rparr>, release_page (flush_data_page h2) m2) else (h2, m2)))"

definition mali_mmu_initialize :: "dma \<Rightarrow> helper_pages \<times> table_memory \<Rightarrow> (helper_pages \<times> table_memory) \<times> osk_err" where
  "mali_mmu_initialize alloc = (\<lambda>(h, m).
     case mali_allocate_empty_page alloc m of (m1, phys, virt) \<Rightarrow>
     let p = (phys, case virt of Some v \<Rightarrow> v | None \<Rightarrow> snd (empty_page_directory h)) in
     if phys = 0 then ((h\<lparr>empty_page_directory := (MALI_INVALID_PAGE, snd p)\<rparr>, m1), ERR_NOMEM)
     else case mali_create_fault_flush_pages alloc (h\<lparr>empty_page_directory := p\<rparr>, m1) of ((h2, m2), err) \<Rightarrow>
     if err \<noteq> ERR_OK
     then ((h2\<lparr>empty_page_directory := NO_PAGE\<rparr>, mali_free_empty_page (empty_page_directory h2) m2), ERR_NOMEM)
     else ((h2, m2), ERR_OK))"

definition mali_mmu_terminate :: "helper_pages \<times> table_memory \<Rightarrow> helper_pages \<times> table_memory" where
  "mali_mmu_terminate = (\<lambda>(h, m).
     mali_destroy_fault_flush_pages (h\<lparr>empty_page_directory := NO_PAGE\<rparr>, mali_free_empty_page (empty_page_directory h) m))"

section \<open>Properties of the operations\<close>

lemma fill_page_views [simp]:
  "memory_ok (fill_page p v m) = memory_ok m" "in_use (fill_page p v m) = in_use m"
  by (simp_all add: fill_page_def memory_ok_def in_use_def)

lemma words_fill_page: "words (fill_page p v m) q i = (if q = p \<and> i < 1024 then v else words m q i)"
  by (simp add: fill_page_def)

lemma page_valid: "page_ok p \<Longrightarrow> p \<noteq> MALI_INVALID_PAGE"
  by (auto simp: page_ok_def MALI_INVALID_PAGE_def)

lemma get_page_ok:
  assumes "memory_ok m" "dma_ok alloc" and "get_page alloc p m = (m', q, err)"
  shows "memory_ok m'" "words m' = words m"
    "err = ERR_OK \<and> fst q = snd q \<and> page_ok (fst q) \<and> fst q \<notin> in_use m \<and> in_use m' = insert (fst q) (in_use m) \<or>
     err = ERR_NOMEM \<and> fst q = fst p \<and> in_use m' = in_use m"
proof -
  obtain m1 r where g: "mali_mem_os_get_table_page alloc m = (m1, r)" by fastforce
  note k = get_table_page_ok [OF assms(1,2) g]
  have "memory_ok m' \<and> words m' = words m \<and>
    (err = ERR_OK \<and> fst q = snd q \<and> page_ok (fst q) \<and> fst q \<notin> in_use m \<and> in_use m' = insert (fst q) (in_use m) \<or>
     err = ERR_NOMEM \<and> fst q = fst p \<and> in_use m' = in_use m)"
  proof (cases r)
    case None
    then have "m' = m1" "q = (fst p, 0)" "err = ERR_NOMEM" using assms(3) g by (simp_all add: get_page_def)
    then show ?thesis using k None by simp
  next
    case (Some x)
    then have "m' = m1" "q = x" "err = ERR_OK" using assms(3) g by (simp_all add: get_page_def)
    then show ?thesis using k Some by (cases x) simp
  qed
  then show "memory_ok m'" "words m' = words m"
    "err = ERR_OK \<and> fst q = snd q \<and> page_ok (fst q) \<and> fst q \<notin> in_use m \<and> in_use m' = insert (fst q) (in_use m) \<or>
     err = ERR_NOMEM \<and> fst q = fst p \<and> in_use m' = in_use m" by blast+
qed

lemma release_page_ok:
  assumes "memory_ok m" "fst p \<in> in_use m" "fst p = snd p"
  shows "memory_ok (release_page p m)" "words (release_page p m) = words m" "in_use (release_page p m) = in_use m - {fst p}"
  using release_table_page_ok [OF assms(1,2) refl] assms(3) by (simp_all add: release_page_def)

lemma default_flags: "(p OR MALI_MMU_FLAGS_DEFAULT) AND FLAGS_PRESENT \<noteq> 0"
proof -
  have "bit ((p OR MALI_MMU_FLAGS_DEFAULT) AND FLAGS_PRESENT) 0"
    by (simp add: bit_and_iff bit_or_iff MALI_MMU_FLAGS_DEFAULT_def FLAGS_PRESENT_def)
  then show ?thesis by (metis bit_0_eq bot_apply bot_bool_def)
qed

lemma fault_flush_ok:
  assumes m: "memory_ok m" and a: "dma_ok alloc" and h: "fst (flush_page_directory h) = MALI_INVALID_PAGE"
      "fst (flush_page_table h) = MALI_INVALID_PAGE" "fst (flush_data_page h) = MALI_INVALID_PAGE"
    and r: "mali_create_fault_flush_pages alloc (h, m) = ((h', m'), err)"
  shows "memory_ok m' \<and> (\<forall>p \<in> in_use m. words m' p = words m p) \<and> empty_page_directory h' = empty_page_directory h \<and>
    (err = ERR_NOMEM \<and> in_use m' = in_use m \<and> fst (flush_page_directory h') = MALI_INVALID_PAGE \<and>
       fst (flush_page_table h') = MALI_INVALID_PAGE \<and> fst (flush_data_page h') = MALI_INVALID_PAGE \<or>
     err = ERR_OK \<and> (\<exists>d t p. h' = h\<lparr>flush_page_directory := (d, d), flush_page_table := (t, t), flush_data_page := (p, p)\<rparr> \<and>
       distinct [d, t, p] \<and> {d, t, p} \<inter> in_use m = {} \<and> in_use m' = in_use m \<union> {d, t, p} \<and> page_ok d \<and> page_ok t \<and> page_ok p \<and>
       (\<forall>x. mmu_walk d m' x = Some (p OR MALI_MMU_FLAGS_DEFAULT))))"
proof -
  obtain m1 data e1 where g1: "get_page alloc (flush_data_page h) m = (m1, data, e1)" by (metis prod.collapse)
  note k1 = get_page_ok [OF m a g1]
  show ?thesis
  proof (cases "e1 = ERR_OK")
    case False
    then show ?thesis using r g1 k1 h by (auto simp: mali_create_fault_flush_pages_def)
  next
    case ok1: True
    obtain m2 table e2 where g2: "get_page alloc (flush_page_table h) m1 = (m2, table, e2)" by (metis prod.collapse)
    note k2 = get_page_ok [OF k1(1) a g2]
    have d1: "fst data = snd data" "page_ok (fst data)" "fst data \<notin> in_use m" "in_use m1 = insert (fst data) (in_use m)" using k1(3) ok1 by auto
    show ?thesis
    proof (cases "e2 = ERR_OK")
      case False
      have u: "in_use m2 = in_use m1" "fst table = MALI_INVALID_PAGE" using k2(3) False h by auto
      have "fst data \<in> in_use m2" using u d1 by simp
      note rl = release_page_ok [OF k2(1) this d1(1)]
      have "((h', m'), err) = ((h\<lparr>flush_page_table := table, flush_data_page := (MALI_INVALID_PAGE, snd data)\<rparr>, release_page data m2), e2)"
        using r g1 ok1 g2 False by (simp add: mali_create_fault_flush_pages_def)
      then show ?thesis using rl u d1 k1(2) k2(2,3) h False by auto
    next
      case ok2: True
      obtain m3 dir e3 where g3: "get_page alloc (flush_page_directory h) m2 = (m3, dir, e3)" by (metis prod.collapse)
      note k3 = get_page_ok [OF k2(1) a g3]
      have d2: "fst table = snd table" "page_ok (fst table)" "fst table \<notin> in_use m1" "in_use m2 = insert (fst table) (in_use m1)" using k2(3) ok2 by auto
      show ?thesis
      proof (cases "e3 = ERR_OK")
        case False
        have u: "in_use m3 = in_use m2" "fst dir = MALI_INVALID_PAGE" using k3(3) False h by auto
        have "fst table \<in> in_use m3" using u d2 by simp
        note rl = release_page_ok [OF k3(1) this d2(1)]
        have "fst data \<in> in_use (release_page table m3)" using u d1 d2 rl by auto
        note rl2 = release_page_ok [OF rl(1) this d1(1)]
        have "((h', m'), err) = ((h\<lparr>flush_page_directory := dir, flush_page_table := (MALI_INVALID_PAGE, snd table),
              flush_data_page := (MALI_INVALID_PAGE, snd data)\<rparr>, release_page data (release_page table m3)), e3)"
          using r g1 ok1 g2 ok2 g3 False by (simp add: mali_create_fault_flush_pages_def)
        moreover have "in_use (release_page data (release_page table m3)) = in_use m"
          unfolding rl2(3) rl(3) u(1) d2(4) d1(4) using d1(3) d2(3) d1(4) by blast
        ultimately show ?thesis using rl rl2 u d1 d2 k1(2) k2(2) k3(2,3) False by auto
      next
        case ok3: True
        have d3: "fst dir = snd dir" "page_ok (fst dir)" "fst dir \<notin> in_use m2" "in_use m3 = insert (fst dir) (in_use m2)" using k3(3) ok3 by auto
        let ?m = "fill_page (snd dir) (fst table OR FLAGS_PRESENT)
              (fill_page (snd table) (fst data OR MALI_MMU_FLAGS_DEFAULT) (fill_page (snd data) 0 m3))"
        have e: "h' = h\<lparr>flush_page_directory := dir, flush_page_table := table, flush_data_page := data\<rparr>" "m' = ?m" "err = ERR_OK"
          using r g1 ok1 g2 ok2 g3 ok3 by (simp_all add: mali_create_fault_flush_pages_def)
        have ne: "fst dir \<noteq> fst table" "fst dir \<noteq> fst data" "fst table \<noteq> fst data" using d1 d2 d3 by auto
        have w: "mmu_walk (fst dir) ?m x = Some (fst data OR MALI_MMU_FLAGS_DEFAULT)" for x
        proof -
          have pte: "MALI_MMU_PTE_ENTRY x < 1024" by (simp add: pte_entry_div)
          show ?thesis
            using pde_lt [of x] pte ne d1(1) d2(1) d3(1) page_flags(1,2) [OF d2(2)] default_flags [of "fst data"]
            by (simp add: mmu_walk_def words_fill_page)
        qed
        have "words ?m p = words m p" if "p \<in> in_use m" for p
          using that d1 d2 d3 k1(2) k2(2) k3(2) by (auto simp: fill_page_def)
        moreover have "in_use ?m = in_use m \<union> {fst dir, fst table, fst data}" using d1 d2 d3 by auto
        moreover have "h' = h\<lparr>flush_page_directory := (fst dir, fst dir), flush_page_table := (fst table, fst table),
            flush_data_page := (fst data, fst data)\<rparr>" using d1(1) d2(1) d3(1) by (simp add: e(1) prod_eq_iff)
        moreover have "{fst dir, fst table, fst data} \<inter> in_use m = {}" using d1 d2 d3 by auto
        ultimately show ?thesis using e k3(1) w d1(2) d2(2) d3(2) ne by auto
      qed
    qed
  qed
qed

text \<open>Starting takes four pages or none; what is found in them is what they are for.\<close>

definition four_pages :: "u32 \<Rightarrow> u32 \<Rightarrow> u32 \<Rightarrow> u32 \<Rightarrow> helper_pages" where
  "four_pages e d t p = \<lparr>empty_page_directory = (e, e), flush_page_directory = (d, d), flush_page_table = (t, t), flush_data_page = (p, p)\<rparr>"

lemma mmu_initialize_ok:
  assumes m: "memory_ok m" and a: "dma_ok alloc" and r: "mali_mmu_initialize alloc (no_helper_pages, m) = ((h', m'), err)"
  shows "memory_ok m' \<and> (\<forall>q \<in> in_use m. words m' q = words m q) \<and>
    (err = ERR_NOMEM \<and> in_use m' = in_use m \<and> fst (empty_page_directory h') = MALI_INVALID_PAGE \<and>
       fst (flush_page_directory h') = MALI_INVALID_PAGE \<and> fst (flush_page_table h') = MALI_INVALID_PAGE \<and>
       fst (flush_data_page h') = MALI_INVALID_PAGE \<or>
     err = ERR_OK \<and> (\<exists>e d t p. h' = four_pages e d t p \<and> distinct [e, d, t, p] \<and> {e, d, t, p} \<inter> in_use m = {} \<and>
       in_use m' = in_use m \<union> {e, d, t, p} \<and> page_ok e \<and> page_ok d \<and> page_ok t \<and> page_ok p \<and>
       (\<forall>x. mmu_walk d m' x = Some (p OR MALI_MMU_FLAGS_DEFAULT)) \<and> (\<forall>x. mmu_walk e m' x = None)))"
proof -
  obtain m0 o1 where g: "mali_mem_os_get_table_page alloc m = (m0, o1)" by fastforce
  note k = get_table_page_ok [OF m a g]
  have inv: "fst NO_PAGE = MALI_INVALID_PAGE" by (simp add: NO_PAGE_def)
  show ?thesis
  proof (cases o1)
    case None
    then have "((h', m'), err) = ((no_helper_pages\<lparr>empty_page_directory := (MALI_INVALID_PAGE, 0)\<rparr>, m0), ERR_NOMEM)"
      using r [symmetric] g by (simp add: mali_mmu_initialize_def mali_allocate_empty_page_def no_helper_pages_def NO_PAGE_def)
    then show ?thesis using k None by (simp add: no_helper_pages_def inv)
  next
    case (Some x)
    then obtain e where e: "o1 = Some (e, e)" "page_ok e" "e \<notin> in_use m" "in_use m0 = insert e (in_use m)" using k by (cases x) auto
    define m1 where "m1 = fill_page e 0 m0"
    define h1 where "h1 = no_helper_pages\<lparr>empty_page_directory := (e, e)\<rparr>"
    have m1: "memory_ok m1" "in_use m1 = insert e (in_use m)" "\<And>q. q \<in> in_use m \<Longrightarrow> words m1 q = words m q"
      using k e by (auto simp: m1_def fill_page_def memory_ok_def in_use_def)
    have e0: "e \<noteq> 0" using e(2) by (simp add: page_ok_def)
    obtain h2 m2 err2 where f: "mali_create_fault_flush_pages alloc (h1, m1) = ((h2, m2), err2)" by (metis prod.collapse)
    have h1: "fst (flush_page_directory h1) = MALI_INVALID_PAGE" "fst (flush_page_table h1) = MALI_INVALID_PAGE"
      "fst (flush_data_page h1) = MALI_INVALID_PAGE" "empty_page_directory h1 = (e, e)"
      by (simp_all add: h1_def no_helper_pages_def inv)
    note c = fault_flush_ok [OF m1(1) a h1(1-3) f]
    have run: "((h', m'), err) = (if err2 \<noteq> ERR_OK
        then ((h2\<lparr>empty_page_directory := NO_PAGE\<rparr>, mali_free_empty_page (empty_page_directory h2) m2), ERR_NOMEM)
        else ((h2, m2), ERR_OK))"
      using r g e(1) e0 f by (simp add: mali_mmu_initialize_def mali_allocate_empty_page_def m1_def h1_def)
    have keep: "words m2 q = words m q" if "q \<in> in_use m" for q using c m1(2,3) that by simp
    show ?thesis
    proof (cases "err2 = ERR_OK")
      case False
      have c2: "memory_ok m2" "in_use m2 = insert e (in_use m)" "empty_page_directory h2 = (e, e)" "fst (flush_page_directory h2) = MALI_INVALID_PAGE"
        "fst (flush_page_table h2) = MALI_INVALID_PAGE" "fst (flush_data_page h2) = MALI_INVALID_PAGE" using c False h1(4) m1(2) by auto
      have "e \<in> in_use m2" using c2(2) by simp
      note rl = release_table_page_ok [OF c2(1) this refl]
      have "mali_free_empty_page (empty_page_directory h2) m2 = mali_mem_os_release_table_page e e m2"
        using page_valid [OF e(2)] by (simp add: mali_free_empty_page_def c2(3))
      then show ?thesis using run False rl keep c2 e(3) by (simp add: inv)
    next
      case True
      then obtain d t p where dtp: "h2 = h1\<lparr>flush_page_directory := (d, d), flush_page_table := (t, t), flush_data_page := (p, p)\<rparr>"
        "distinct [d, t, p]" "{d, t, p} \<inter> in_use m1 = {}" "in_use m2 = in_use m1 \<union> {d, t, p}" "page_ok d" "page_ok t" "page_ok p"
        "\<forall>x. mmu_walk d m2 x = Some (p OR MALI_MMU_FLAGS_DEFAULT)" using c by blast
      have "words m2 e = words m1 e" using c m1(2) by simp
      then have "mmu_walk e m2 x = None" for x
        using pde_lt [of x] by (simp add: mmu_walk_def m1_def words_fill_page)
      moreover have "h2 = four_pages e d t p" by (simp add: dtp(1) h1_def four_pages_def no_helper_pages_def)
      moreover have "distinct [e, d, t, p]" "{e, d, t, p} \<inter> in_use m = {}" "in_use m2 = in_use m \<union> {e, d, t, p}"
        using dtp(2-4) e(3) m1(2) by auto
      moreover have "h' = h2" "m' = m2" "err = ERR_OK" using run True by simp_all
      moreover have "memory_ok m2" using c by blast
      ultimately show ?thesis using keep dtp(5-8) e(2) by blast
    qed
  qed
qed

lemma mmu_terminate_ok:
  assumes m: "memory_ok m" and s: "{e, d, t, p} \<subseteq> in_use m" "distinct [e, d, t, p]"
  shows "\<exists>m'. mali_mmu_terminate (four_pages e d t p, m) = (no_helper_pages, m') \<and> memory_ok m' \<and>
    in_use m' = in_use m - {e, d, t, p} \<and> words m' = words m"
proof -
  have ok: "page_ok q" if "q \<in> in_use m" for q using m that by (auto simp: memory_ok_def in_use_def)
  then have v: "e \<noteq> MALI_INVALID_PAGE" "d \<noteq> MALI_INVALID_PAGE" "t \<noteq> MALI_INVALID_PAGE" "p \<noteq> MALI_INVALID_PAGE"
    using s(1) page_valid by blast+
  define m1 where "m1 = mali_mem_os_release_table_page e e m"
  define m2 where "m2 = mali_mem_os_release_table_page d d m1"
  define m3 where "m3 = mali_mem_os_release_table_page t t m2"
  define m4 where "m4 = mali_mem_os_release_table_page p p m3"
  have "e \<in> in_use m" using s by simp
  note k1 = release_table_page_ok [OF m this m1_def]
  then have "memory_ok m1" "d \<in> in_use m1" using s by auto
  note k2 = release_table_page_ok [OF this m2_def]
  then have "memory_ok m2" "t \<in> in_use m2" using s k1 by auto
  note k3 = release_table_page_ok [OF this m3_def]
  then have "memory_ok m3" "p \<in> in_use m3" using s k1 k2 by auto
  note k4 = release_table_page_ok [OF this m4_def]
  have "mali_mmu_terminate (four_pages e d t p, m) = (no_helper_pages, m4)"
    using v by (simp add: mali_mmu_terminate_def mali_destroy_fault_flush_pages_def mali_free_empty_page_def four_pages_def
      no_helper_pages_def release_page_def m1_def m2_def m3_def m4_def Let_def)
  moreover have "in_use m4 = in_use m - {e, d, t, p}" using k1 k2 k3 k4 by auto
  ultimately show ?thesis using k1 k2 k3 k4 by simp
qed

end
