(* ===== verification/Page_Dump.thy ===== *)
theory Page_Dump
  imports Page_Tables
begin

text \<open>
  The dump of the page tables for a user (the last part of common/mali_mmu_page_directory.c): first
  the size that is needed, then the dump into a buffer of the size that is given.
\<close>

section \<open>Operations\<close>

text \<open>\<open>buffer\<close>: the words written so far, or no buffer at all.\<close>

record dump_info =
  buffer_left :: u32
  register_writes_size :: u32
  page_table_dump_size :: u32
  buffer :: "u32 list option"

definition writereg :: "u32 \<Rightarrow> u32 \<Rightarrow> dump_info \<Rightarrow> dump_info \<times> osk_err" where
  "writereg a x info =
     (let i1 = info\<lparr>register_writes_size := register_writes_size info + 8\<rparr> in
      case buffer i1 of
        None \<Rightarrow> (i1, ERR_OK)
      | Some b \<Rightarrow> if buffer_left i1 < 8 then (i1, ERR_NOMEM)
                  else (i1\<lparr>buffer := Some (b @ [a, x]), buffer_left := buffer_left i1 - 8\<rparr>, ERR_OK))"

definition mali_mmu_dump_page :: "(nat \<Rightarrow> u32) \<Rightarrow> u32 \<Rightarrow> dump_info \<Rightarrow> dump_info \<times> osk_err" where
  "mali_mmu_dump_page page phys_addr info =
     (let dump_size = MALI_MMU_PAGE_SIZE + 4; i1 = info\<lparr>page_table_dump_size := page_table_dump_size info + dump_size\<rparr> in
      case buffer i1 of
        None \<Rightarrow> (i1, ERR_OK)
      | Some b \<Rightarrow> if buffer_left i1 < dump_size then (i1, ERR_NOMEM)
                  else (i1\<lparr>buffer := Some (b @ phys_addr # map page [0 ..< 1024]), buffer_left := buffer_left i1 - dump_size\<rparr>, ERR_OK))"

definition check_no_error :: "dump_info \<times> osk_err \<Rightarrow> (dump_info \<Rightarrow> dump_info \<times> osk_err) \<Rightarrow> dump_info \<times> osk_err" where
  "check_no_error r f = (case r of (i, err) \<Rightarrow> if err \<noteq> ERR_OK then (i, err) else f i)"

fun dump_tables :: "page_directory \<Rightarrow> table_memory \<Rightarrow> nat list \<Rightarrow> dump_info \<Rightarrow> dump_info \<times> osk_err" where
  "dump_tables pd m [] info = (info, ERR_OK)"
| "dump_tables pd m (i # is) info =
     check_no_error
       (if page_entries_mapped pd i \<noteq> 0
        then mali_mmu_dump_page (words m (page_entries_mapped pd i)) (pde pd i m AND NOT FLAGS_MASK) info
        else (info, ERR_OK))
       (dump_tables pd m is)"

definition dump_mmu_page_table :: "page_directory \<Rightarrow> table_memory \<Rightarrow> dump_info \<Rightarrow> dump_info \<times> osk_err" where
  "dump_mmu_page_table pd m info =
     (if page_directory_mapped pd \<noteq> 0
      then check_no_error (mali_mmu_dump_page (words m (page_directory_mapped pd)) (page_dir pd) info) (dump_tables pd m [0 ..< 1024])
      else (info, ERR_OK))"

definition dump_mmu_registers :: "page_directory \<Rightarrow> dump_info \<Rightarrow> dump_info \<times> osk_err" where
  "dump_mmu_registers pd info =
     check_no_error (writereg 0 (page_dir pd) info) (\<lambda>i. check_no_error (writereg 8 4 i) (writereg 8 0))"

definition query_mmu_page_table_dump_size :: "page_directory \<Rightarrow> table_memory \<Rightarrow> u32 option" where
  "query_mmu_page_table_dump_size pd m =
     (case check_no_error (dump_mmu_registers pd \<lparr>buffer_left = 0, register_writes_size = 0, page_table_dump_size = 0, buffer = None\<rparr>)
        (dump_mmu_page_table pd m) of
        (info, err) \<Rightarrow> if err \<noteq> ERR_OK then None else Some (register_writes_size info + page_table_dump_size info))"

definition dump_mmu_page_table_to_user :: "page_directory \<Rightarrow> table_memory \<Rightarrow> u32 \<Rightarrow> dump_info \<times> osk_err" where
  "dump_mmu_page_table_to_user pd m sz =
     check_no_error (dump_mmu_registers pd \<lparr>buffer_left = sz, register_writes_size = 0, page_table_dump_size = 0, buffer = Some []\<rparr>)
       (dump_mmu_page_table pd m)"

section \<open>What a part of the dump writes\<close>

text \<open>Without a buffer, the sizes are added; with one, the words are written, or as many of the parts as there is room for.\<close>

definition dumped :: "nat \<Rightarrow> nat \<Rightarrow> u32 list \<Rightarrow> dump_info \<Rightarrow> dump_info \<times> osk_err \<Rightarrow> bool" where
  "dumped r p W info = (\<lambda>(i, err).
     (case buffer info of
        None \<Rightarrow> err = ERR_OK \<and> buffer i = None
      | Some b \<Rightarrow>
          if 4 * length W \<le> unat (buffer_left info)
          then err = ERR_OK \<and> buffer i = Some (b @ W) \<and> unat (buffer_left i) = unat (buffer_left info) - 4 * length W
          else err = ERR_NOMEM \<and> (\<exists>k. buffer i = Some (b @ take k W) \<and> 4 * length (take k W) \<le> unat (buffer_left info))) \<and>
     (err = ERR_OK \<longrightarrow> register_writes_size i = register_writes_size info + of_nat r \<and>
        page_table_dump_size i = page_table_dump_size info + of_nat p))"

definition dumps :: "nat \<Rightarrow> nat \<Rightarrow> u32 list \<Rightarrow> (dump_info \<Rightarrow> dump_info \<times> osk_err) \<Rightarrow> bool" where
  "dumps r p W f \<longleftrightarrow> 4 * length W = r + p \<and> (\<forall>info. dumped r p W info (f info))"

lemma dumps_nothing: "dumps 0 0 [] (\<lambda>info. (info, ERR_OK))"
  by (auto simp: dumps_def dumped_def split: option.splits)

lemma dumps_writereg: "dumps 8 0 [a, x] (writereg a x)"
  by (auto simp: dumps_def dumped_def writereg_def Let_def word_less_nat_alt unat_sub word_le_nat_alt split: option.splits intro: exI [of _ 0])

lemma dumps_page: "dumps 0 4100 (phys # map page [0 ..< 1024]) (mali_mmu_dump_page page phys)"
  by (auto simp: dumps_def dumped_def mali_mmu_dump_page_def MALI_MMU_PAGE_SIZE_def Let_def word_less_nat_alt unat_sub word_le_nat_alt
      simp del: upt_rec_numeral split: option.splits intro: exI [of _ 0])

lemma dumps_seq:
  assumes f: "dumps r1 p1 W1 f" and g: "dumps r2 p2 W2 g"
  shows "dumps (r1 + r2) (p1 + p2) (W1 @ W2) (\<lambda>info. check_no_error (f info) g)"
proof -
  have "dumped (r1 + r2) (p1 + p2) (W1 @ W2) info (check_no_error (f info) g)" for info
  proof -
    obtain i1 e1 where 1: "f info = (i1, e1)" by fastforce
    obtain i2 e2 where 2: "g i1 = (i2, e2)" by fastforce
    have F: "dumped r1 p1 W1 info (i1, e1)" using f unfolding dumps_def 1 [symmetric] by simp
    have G: "dumped r2 p2 W2 i1 (i2, e2)" using g unfolding dumps_def 2 [symmetric] by simp
    note F = F [unfolded dumped_def prod.case] and G = G [unfolded dumped_def prod.case]
    show ?thesis
    proof (cases "buffer info")
      case None
      then show ?thesis using F G by (simp add: dumped_def 1 2 check_no_error_def)
    next
      case (Some b)
      show ?thesis
      proof (cases "4 * length W1 \<le> unat (buffer_left info)")
        case False
        then obtain k where k: "e1 = ERR_NOMEM" "buffer i1 = Some (b @ take k W1)" "4 * length (take k W1) \<le> unat (buffer_left info)"
          using F Some by auto
        have t: "take (min k (length W1)) (W1 @ W2) = take k W1" by (simp add: min_def)
        have "\<exists>k. buffer i1 = Some (b @ take k (W1 @ W2)) \<and> 4 * length (take k (W1 @ W2)) \<le> unat (buffer_left info)"
          using k(2,3) unfolding t [symmetric] by blast
        then show ?thesis using False k(1) by (auto simp: dumped_def 1 check_no_error_def Some simp del: take_append)
      next
        case fit: True
        then have i1: "e1 = ERR_OK" "buffer i1 = Some (b @ W1)" "unat (buffer_left i1) = unat (buffer_left info) - 4 * length W1"
          "register_writes_size i1 = register_writes_size info + of_nat r1" "page_table_dump_size i1 = page_table_dump_size info + of_nat p1"
          using F Some by simp_all
        show ?thesis
        proof (cases "4 * length W2 \<le> unat (buffer_left i1)")
          case True
          then have "4 * length (W1 @ W2) \<le> unat (buffer_left info)" using i1(3) fit by simp
          then show ?thesis using G True i1 by (simp add: dumped_def 1 2 check_no_error_def Some)
        next
          case False
          then obtain k where k: "e2 = ERR_NOMEM" "buffer i2 = Some (b @ W1 @ take k W2)" "4 * length (take k W2) \<le> unat (buffer_left i1)"
            using G i1(2) by auto
          have t: "take (length W1 + k) (W1 @ W2) = W1 @ take k W2" by simp
          have "4 * length (take (length W1 + k) (W1 @ W2)) \<le> unat (buffer_left info)" using k(3) i1(3) fit unfolding t by simp
          moreover have "\<not> 4 * length (W1 @ W2) \<le> unat (buffer_left info)" using False i1(3) fit by simp
          moreover have "buffer i2 = Some (b @ take (length W1 + k) (W1 @ W2))" using k(2) t by simp
          ultimately show ?thesis using k(1) i1(1) by (auto simp: dumped_def 1 2 check_no_error_def Some simp del: take_append)
        qed
      qed
    qed
  qed
  moreover have "4 * length (W1 @ W2) = r1 + r2 + (p1 + p2)" using f g by (simp add: dumps_def)
  ultimately show ?thesis unfolding dumps_def by blast
qed

section \<open>The whole dump\<close>

text \<open>Three writes to registers, and each page with its address.\<close>

definition table_words :: "page_directory \<Rightarrow> table_memory \<Rightarrow> nat \<Rightarrow> u32 list" where
  "table_words pd m i =
     (if page_entries_mapped pd i \<noteq> 0 then page_entries_mapped pd i # map (words m (page_entries_mapped pd i)) [0 ..< 1024] else [])"

definition dump_words :: "page_directory \<Rightarrow> table_memory \<Rightarrow> u32 list" where
  "dump_words pd m = [0, page_dir pd, 8, 4, 8, 0] @ (page_dir pd # map (words m (page_dir pd)) [0 ..< 1024]) @
     concat (map (table_words pd m) [0 ..< 1024])"

definition tables_present :: "page_directory \<Rightarrow> nat list \<Rightarrow> nat" where
  "tables_present pd is = length (filter (\<lambda>i. page_entries_mapped pd i \<noteq> 0) is)"

lemma dumps_registers: "dumps 24 0 [0, page_dir pd, 8, 4, 8, 0] (dump_mmu_registers pd)"
proof -
  have "dumps (8 + (8 + 8)) (0 + (0 + 0)) ([0, page_dir pd] @ [8, 4] @ [8, 0])
      (\<lambda>info. check_no_error (writereg 0 (page_dir pd) info) (\<lambda>i. check_no_error (writereg 8 4 i) (writereg 8 0)))"
    by (intro dumps_seq dumps_writereg)
  moreover have "dump_mmu_registers pd =
      (\<lambda>info. check_no_error (writereg 0 (page_dir pd) info) (\<lambda>i. check_no_error (writereg 8 4 i) (writereg 8 0)))"
    by (simp add: dump_mmu_registers_def fun_eq_iff)
  ultimately show ?thesis by simp
qed

lemma dumps_tables:
  assumes ok: "dir_ok T c pd m" and "\<forall>i \<in> set is. i < 1024"
  shows "dumps 0 (4100 * tables_present pd is) (concat (map (table_words pd m) is)) (dump_tables pd m is)"
  using assms(2)
proof (induction "is")
  case Nil
  have "dump_tables pd m [] = (\<lambda>info. (info, ERR_OK))" by (simp add: fun_eq_iff)
  then show ?case using dumps_nothing by (simp add: tables_present_def)
next
  case (Cons i "is")
  have i: "i < 1024" using Cons.prems by simp
  have e: "dump_tables pd m (i # is) = (\<lambda>info. check_no_error
       (if page_entries_mapped pd i \<noteq> 0
        then mali_mmu_dump_page (words m (page_entries_mapped pd i)) (pde pd i m AND NOT FLAGS_MASK) info
        else (info, ERR_OK)) (dump_tables pd m is))" by (simp add: fun_eq_iff)
  have ih: "dumps 0 (4100 * tables_present pd is) (concat (map (table_words pd m) is)) (dump_tables pd m is)"
    using Cons by simp
  show ?case
  proof (cases "page_entries_mapped pd i = 0")
    case True
    then have "table_words pd m i = []" by (simp add: table_words_def)
    with dumps_seq [OF dumps_nothing ih] True show ?thesis unfolding e by (simp add: tables_present_def)
  next
    case False
    have "pde pd i m AND NOT FLAGS_MASK = page_entries_mapped pd i"
      using dir_okD(7) [OF ok i] page_flags(3) [OF dir_page_ok [OF ok table_in_pages [OF i False]]] False by simp
    moreover have "table_words pd m i = page_entries_mapped pd i # map (words m (page_entries_mapped pd i)) [0 ..< 1024]"
      using False by (simp add: table_words_def)
    ultimately show ?thesis
      using dumps_seq [OF dumps_page ih, of "page_entries_mapped pd i" "words m (page_entries_mapped pd i)"] False
      unfolding e by (simp add: tables_present_def del: upt_rec_numeral)
  qed
qed

lemma dumps_all:
  assumes ok: "dir_ok T c pd m"
  shows "dumps 24 (4100 * Suc (tables_present pd [0 ..< 1024])) (dump_words pd m)
    (\<lambda>info. check_no_error (dump_mmu_registers pd info) (dump_mmu_page_table pd m))"
proof -
  have d: "page_directory_mapped pd = page_dir pd" "page_dir pd \<noteq> 0"
    using dir_okD(2) [OF ok] dir_page_ok [OF ok, of "page_dir pd"] by (simp_all add: pages_of_def page_ok_def)
  have "dumps 0 (4100 * tables_present pd [0 ..< 1024]) (concat (map (table_words pd m) [0 ..< 1024])) (dump_tables pd m [0 ..< 1024])"
    by (rule dumps_tables [OF ok]) simp
  from dumps_seq [OF dumps_page this, of "page_dir pd" "words m (page_dir pd)"]
  have "dumps 0 (4100 + 4100 * tables_present pd [0 ..< 1024])
      ((page_dir pd # map (words m (page_dir pd)) [0 ..< 1024]) @ concat (map (table_words pd m) [0 ..< 1024])) (dump_mmu_page_table pd m)"
    using d unfolding dump_mmu_page_table_def by (simp add: fun_eq_iff del: upt_rec_numeral)
  from dumps_seq [OF dumps_registers this] show ?thesis unfolding dump_words_def by (simp del: upt_rec_numeral)
qed

lemma tables_present_bound: "tables_present pd [0 ..< 1024] \<le> 1024"
  using length_filter_le [of "\<lambda>i. page_entries_mapped pd i \<noteq> 0" "[0 ..< 1024]"] by (simp add: tables_present_def del: upt_rec_numeral)

end
