(* ===== verification/Page_Properties.thy ===== *)
theory Page_Properties
  imports Page_System Page_Helpers Page_Dump
begin

text \<open>
  The properties of the address spaces, and concrete states and runs they apply to.
\<close>

section \<open>A small kernel\<close>

text \<open>A kernel with six pages to give.\<close>

definition sample_dma :: dma where
  "sample_dma n P = find (\<lambda>p. p \<notin> P) [0x1000, 0x2000, 0x3000, 0x4000, 0x5000, 0x6000]"

definition all_created :: open_results where
  "all_created = \<lparr>session_allocated = True, queue_created = True, pagedir_allocated = True, memory_begun = True,
     soft_system_created = True, timeline_system_created = True\<rparr>"

lemma find_SomeD: "find P xs = Some x \<Longrightarrow> P x \<and> x \<in> set xs"
  by (auto simp: find_Some_iff)

lemma sample_dma_ok: "dma_ok sample_dma"
  unfolding dma_ok_def
proof (intro allI impI)
  fix n P p assume "sample_dma n P = Some p"
  from find_SomeD [OF this [unfolded sample_dma_def]] show "p \<notin> P \<and> page_ok p" by (auto simp: page_ok_def)
qed

definition first_memory :: table_memory where
  "first_memory = tables (fresh_memory (\<lambda>_ _. 0))"

lemma first_memory_ok: "memory_ok first_memory"
  by (simp add: first_memory_def fresh_memory_def memory_ok_def)

text \<open>Two sessions are opened; the first has a page, and the second reserves the page next to it.\<close>

definition two_opened :: "(table_memory \<times> page_directory \<times> page_directory) outcome" where
  "two_opened =
     bind_outcome (mali_ukk_open sample_dma 0 all_created first_memory) (\<lambda>(m1, o1).
     bind_outcome (mali_ukk_open sample_dma 0 all_created m1) (\<lambda>(m2, o2).
     case (o1, o2) of (Some a, Some b) \<Rightarrow> Done (m2, a, b) | _ \<Rightarrow> Oops))"

definition page_passed_on :: "(osk_err \<times> osk_err \<times> u32 option \<times> u32 option) outcome" where
  "page_passed_on =
     bind_outcome two_opened (\<lambda>(m2, a, b).
     case mali_mmu_pagedir_map sample_dma (page_addr 0) (page_addr 1) (a, m2) of ((a1, m3), e1) \<Rightarrow>
     bind_outcome (mali_mmu_pagedir_update 1 a1 (page_addr 0) 0x80000000 (page_addr 1) MALI_MMU_FLAGS_DEFAULT m3) (\<lambda>m4.
     bind_outcome (mali_mmu_pagedir_unmap (page_addr 0) (page_addr 1) (a1, m4)) (\<lambda>(a2, m5).
     case mali_mmu_pagedir_map sample_dma (page_addr 1) (page_addr 1) (b, m5) of ((b1, m6), e2) \<Rightarrow>
     Done (e1, e2, walk a2 m6 (page_addr 0), walk b1 m6 (page_addr 0)))))"

lemma page_passed_on_value: "page_passed_on = Done (ERR_OK, ERR_OK, None, Some 0x80000007)"
  by code_simp

lemma bind_outcome_DoneE:
  assumes "bind_outcome x f = Done y" obtains z where "x = Done z" "f z = Done y"
  using assms by (cases x) auto

text \<open>The states of that run.\<close>

lemma two_opened_reached:
  assumes "two_opened = Done (m, a, b)"
  obtains g where "memory_reached sample_dma 0 g" "tables g = m" "spaces g 0 = Some (a, {DLBU_PAGE})" "spaces g 1 = Some (b, {DLBU_PAGE})"
    "spaces g = (\<lambda>_. None)(0 := Some (a, {DLBU_PAGE}), 1 := Some (b, {DLBU_PAGE}))"
proof -
  obtain m1 o1 where 1: "mali_ukk_open sample_dma 0 all_created first_memory = Done (m1, o1)"
    and r: "bind_outcome (mali_ukk_open sample_dma 0 all_created m1) (\<lambda>(m2, o2).
      case (o1, o2) of (Some a, Some b) \<Rightarrow> Done (m2, a, b) | _ \<Rightarrow> Oops) = Done (m, a, b)"
    using assms unfolding two_opened_def by (elim bind_outcome_DoneE) auto
  obtain m2 o2 where 2: "mali_ukk_open sample_dma 0 all_created m1 = Done (m2, o2)"
    and r2: "(case (o1, o2) of (Some a, Some b) \<Rightarrow> Done (m2, a, b) | _ \<Rightarrow> Oops) = Done (m, a, b)"
    using r by (elim bind_outcome_DoneE) auto
  have o: "o1 = Some a" "o2 = Some b" "m2 = m" using r2 by (auto split: option.splits)
  let ?g0 = "fresh_memory (\<lambda>_ _. 0)"
  let ?g1 = "set_space 0 (Some (a, {DLBU_PAGE})) m1 ?g0"
  let ?g2 = "set_space 1 (Some (b, {DLBU_PAGE})) m ?g1"
  have "memory_step sample_dma 0 0 ?g0 ?g1"
    by (rule opened) (use 1 o in \<open>simp_all add: first_memory_def fresh_memory_def\<close>)
  then have g1: "memory_reached sample_dma 0 ?g1" by (rule memory_reached.step [OF memory_reached.start])
  have "memory_step sample_dma 0 1 ?g1 ?g2"
    by (rule opened) (use 2 o in \<open>simp_all add: set_space_def fresh_memory_def\<close>)
  with g1 have "memory_reached sample_dma 0 ?g2" by (rule memory_reached.step)
  then show thesis by (rule that) (simp_all add: set_space_def fresh_memory_def fun_eq_iff)
qed

lemma page_passed_on_parts:
  obtains m2 a b a1 m3 m4 a2 m5 b1 m6 where "two_opened = Done (m2, a, b)"
    "mali_mmu_pagedir_map sample_dma (page_addr 0) (page_addr 1) (a, m2) = ((a1, m3), ERR_OK)"
    "mali_mmu_pagedir_update 1 a1 (page_addr 0) 0x80000000 (page_addr 1) MALI_MMU_FLAGS_DEFAULT m3 = Done m4"
    "mali_mmu_pagedir_unmap (page_addr 0) (page_addr 1) (a1, m4) = Done (a2, m5)"
    "mali_mmu_pagedir_map sample_dma (page_addr 1) (page_addr 1) (b, m5) = ((b1, m6), ERR_OK)"
    "walk a2 m6 (page_addr 0) = None" "walk b1 m6 (page_addr 0) = Some 0x80000007"
proof -
  from bind_outcome_DoneE [OF page_passed_on_value [unfolded page_passed_on_def]]
  obtain x where x: "two_opened = Done x" and r: "(\<lambda>(m2, a, b).
     case mali_mmu_pagedir_map sample_dma (page_addr 0) (page_addr 1) (a, m2) of ((a1, m3), e1) \<Rightarrow>
     bind_outcome (mali_mmu_pagedir_update 1 a1 (page_addr 0) 0x80000000 (page_addr 1) MALI_MMU_FLAGS_DEFAULT m3) (\<lambda>m4.
     bind_outcome (mali_mmu_pagedir_unmap (page_addr 0) (page_addr 1) (a1, m4)) (\<lambda>(a2, m5).
     case mali_mmu_pagedir_map sample_dma (page_addr 1) (page_addr 1) (b, m5) of ((b1, m6), e2) \<Rightarrow>
     Done (e1, e2, walk a2 m6 (page_addr 0), walk b1 m6 (page_addr 0))))) x = Done (ERR_OK, ERR_OK, None, Some 0x80000007)" by blast
  obtain m2 a b where xe: "x = (m2, a, b)" by (cases x) auto
  obtain a1 m3 e1 where 3: "mali_mmu_pagedir_map sample_dma (page_addr 0) (page_addr 1) (a, m2) = ((a1, m3), e1)" by (metis prod.collapse)
  from bind_outcome_DoneE [OF r [unfolded xe prod.case 3]]
  obtain m4 where 4: "mali_mmu_pagedir_update 1 a1 (page_addr 0) 0x80000000 (page_addr 1) MALI_MMU_FLAGS_DEFAULT m3 = Done m4"
    and r4: "bind_outcome (mali_mmu_pagedir_unmap (page_addr 0) (page_addr 1) (a1, m4)) (\<lambda>(a2, m5).
     case mali_mmu_pagedir_map sample_dma (page_addr 1) (page_addr 1) (b, m5) of ((b1, m6), e2) \<Rightarrow>
     Done (e1, e2, walk a2 m6 (page_addr 0), walk b1 m6 (page_addr 0))) = Done (ERR_OK, ERR_OK, None, Some 0x80000007)" by blast
  from bind_outcome_DoneE [OF r4] obtain y where 5: "mali_mmu_pagedir_unmap (page_addr 0) (page_addr 1) (a1, m4) = Done y"
    and r5: "(\<lambda>(a2, m5). case mali_mmu_pagedir_map sample_dma (page_addr 1) (page_addr 1) (b, m5) of ((b1, m6), e2) \<Rightarrow>
     Done (e1, e2, walk a2 m6 (page_addr 0), walk b1 m6 (page_addr 0))) y = Done (ERR_OK, ERR_OK, None, Some 0x80000007)" by blast
  obtain a2 m5 where y: "y = (a2, m5)" by (cases y)
  obtain b1 m6 e2 where 6: "mali_mmu_pagedir_map sample_dma (page_addr 1) (page_addr 1) (b, m5) = ((b1, m6), e2)" by (metis prod.collapse)
  have "e1 = ERR_OK" "e2 = ERR_OK" "walk a2 m6 (page_addr 0) = None" "walk b1 m6 (page_addr 0) = Some 0x80000007"
    using r5 [unfolded y prod.case 6] by simp_all
  then show thesis using that x 3 4 5 6 unfolding xe y by blast
qed

lemma page_passed_on_reached:
  obtains g a b Ra Rb where "memory_reached sample_dma 0 g" "spaces g 0 = Some (a, Ra)" "spaces g 1 = Some (b, Rb)" "0 \<notin> Ra" "0 \<notin> Rb"
    "walk a (tables g) (page_addr 0) = None" "walk b (tables g) (page_addr 0) = Some 0x80000007"
proof -
  obtain m2 a b a1 m3 m4 a2 m5 b1 m6 where two: "two_opened = Done (m2, a, b)"
    and 3: "mali_mmu_pagedir_map sample_dma (page_addr 0) (page_addr 1) (a, m2) = ((a1, m3), ERR_OK)"
    and 4: "mali_mmu_pagedir_update 1 a1 (page_addr 0) 0x80000000 (page_addr 1) MALI_MMU_FLAGS_DEFAULT m3 = Done m4"
    and 5: "mali_mmu_pagedir_unmap (page_addr 0) (page_addr 1) (a1, m4) = Done (a2, m5)"
    and 6: "mali_mmu_pagedir_map sample_dma (page_addr 1) (page_addr 1) (b, m5) = ((b1, m6), ERR_OK)"
    and e: "walk a2 m6 (page_addr 0) = None" "walk b1 m6 (page_addr 0) = Some 0x80000007"
    by (rule page_passed_on_parts) blast
  obtain g2 where g2: "memory_reached sample_dma 0 g2" "tables g2 = m2" "spaces g2 0 = Some (a, {DLBU_PAGE})"
    "spaces g2 1 = Some (b, {DLBU_PAGE})" by (rule two_opened_reached [OF two]) blast
  have P: "(0::nat) < 1" "0 + 1 \<le> PAGES" "1 + 1 \<le> PAGES" "1 < PAGES" "0 + 1 < PAGES" "DLBU_PAGE \<noteq> 0" "DLBU_PAGE \<noteq> 1"
    by (simp_all add: PAGES_def DLBU_PAGE_def)
  have d: "{DLBU_PAGE} \<inter> {0 ..< 0 + 1} = {}" "{DLBU_PAGE} \<inter> {1 ..< 1 + 1} = {}" using P(6,7) by auto
  let ?R = "{DLBU_PAGE} \<union> {0 ..< map_stopped a1 0 1}"
  let ?g3 = "set_space 0 (Some (a1, ?R)) m3 g2"
  have "memory_step sample_dma 0 0 g2 ?g3"
    by (rule mapped [OF g2(3) P(1,2,4) d(1)]) (use 3 g2(2) in simp)
  with g2(1) have g3: "memory_reached sample_dma 0 ?g3" by (rule memory_reached.step)
  have "map_stopped a1 0 1 = 1"
    using pagedir_map_ok(2) [OF gpu_memory_okD(2) [OF memory_reached_ok [OF g2(1) sample_dma_ok] g2(3)] sample_dma_ok P(1,2,4) d(1)]
      3 g2(2) by auto
  then have R: "{0 ..< 0 + 1} \<subseteq> ?R" by simp
  let ?g4 = "set_space 0 (Some (a1, ?R)) m4 ?g3"
  have s3: "spaces ?g3 0 = Some (a1, ?R)" by (simp add: set_space_def)
  have "memory_step sample_dma 0 0 ?g3 ?g4"
    by (rule backed [OF s3 P(5) R]) (use 4 in \<open>simp add: set_space_def\<close>)
  with g3 have g4: "memory_reached sample_dma 0 ?g4" by (rule memory_reached.step)
  let ?g5 = "set_space 0 (Some (a2, ?R - {0 ..< 0 + 1})) m5 ?g4"
  have s4: "spaces ?g4 0 = Some (a1, ?R)" by (simp add: set_space_def)
  have "memory_step sample_dma 0 0 ?g4 ?g5"
    by (rule unmapped [OF s4 P(1,2,4) R]) (use 5 P(6) in \<open>simp_all add: set_space_def\<close>)
  with g4 have g5: "memory_reached sample_dma 0 ?g5" by (rule memory_reached.step)
  let ?Rb = "{DLBU_PAGE} \<union> {1 ..< map_stopped b1 1 1}"
  let ?g6 = "set_space 1 (Some (b1, ?Rb)) m6 ?g5"
  have s5: "spaces ?g5 1 = Some (b, {DLBU_PAGE})" using g2(4) by (simp add: set_space_def)
  have "memory_step sample_dma 0 1 ?g5 ?g6"
    by (rule mapped [OF s5 P(1,3,4) d(2)]) (use 6 in \<open>simp add: set_space_def\<close>)
  with g5 have g6: "memory_reached sample_dma 0 ?g6" by (rule memory_reached.step)
  show thesis
    by (rule that [OF g6, of a2 "?R - {0 ..< 0 + 1}" b1 ?Rb]) (use e P(6) in \<open>simp_all add: set_space_def\<close>)
qed



text \<open>A directory in which the page of the DLBU is reserved.\<close>

lemma sample_space:
  obtains m pd where "mali_ukk_open sample_dma 0 all_created first_memory = Done (m, Some pd)" "pagedir_ok {DLBU_PAGE} pd m"
proof -
  obtain m2 a b where "two_opened = Done (m2, a, b)" by (rule page_passed_on_parts) blast
  then obtain m where "mali_ukk_open sample_dma 0 all_created first_memory = Done (m, Some a)"
    unfolding two_opened_def by (elim bind_outcome_DoneE) (auto split: option.splits elim: bind_outcome_DoneE)
  then show thesis using that open_ok [OF first_memory_ok sample_dma_ok, of 0 all_created] by auto
qed

lemma dlbu_range: "DLBU_PAGE + 1 \<le> PAGES" "1 < PAGES" "{DLBU_PAGE ..< DLBU_PAGE + 1} \<subseteq> {DLBU_PAGE}" "DLBU_PAGE < PAGES"
  using dlbu_addr(3) by (auto simp: PAGES_def)

section \<open>Properties\<close>

text \<open>C12: In every state the sessions can lead the driver to, each page directory agrees with what is reserved in it: an
  entry has a page table if and only if some page of its four megabytes is reserved, its usage count is the number of those
  pages, and no two entries share a table. Every page the driver has from the kernel is in the pool, or lost, or belongs to
  exactly one session.\<close>

theorem address_spaces_consistent:
  assumes "memory_reached alloc dlbu g" and "dma_ok alloc"
  shows "gpu_memory_ok g"
  using assms by (rule memory_reached_ok)

theorem address_spaces_consistent_witness:
  "\<exists>g a b. memory_reached sample_dma 0 g \<and> spaces g 0 = Some a \<and> spaces g 1 = Some b \<and> gpu_memory_ok g"
  by (rule page_passed_on_reached) (use address_spaces_consistent [OF _ sample_dma_ok] in blast)

text \<open>C11: Isolation: whatever one session does (open, reserve, back, give back, close, successfully or not), the MMU finds
  for every address of every other session exactly what it found before.\<close>

theorem sessions_isolated:
  assumes "memory_reached alloc dlbu g" and "dma_ok alloc" and "memory_step alloc dlbu s g g'"
    and "t \<noteq> s" and "spaces g t = Some (pd, R)"
  shows "spaces g' t = Some (pd, R) \<and> walk pd (tables g') a = walk pd (tables g) a"
  using memory_step_ok [OF assms(3,2) memory_reached_ok [OF assms(1,2)]] assms(4,5) unfolding others_see_def by blast

theorem sessions_isolated_witness:
  "\<exists>g g' b R. memory_step sample_dma 0 0 g g' \<and> spaces g' 0 = None \<and> spaces g 1 = Some (b, R) \<and> spaces g' 1 = Some (b, R) \<and>
    walk b (tables g') (page_addr 0) = walk b (tables g) (page_addr 0)"
proof -
  obtain g a b Ra Rb where g: "memory_reached sample_dma 0 g" "spaces g 0 = Some (a, Ra)" "spaces g 1 = Some (b, Rb)"
    by (rule page_passed_on_reached)
  obtain m where "mali_ukk_close a (tables g) = Done m"
    using close_ok gpu_memory_okD(2,3) [OF memory_reached_ok [OF g(1) sample_dma_ok] g(2)] by blast
  then have st: "memory_step sample_dma 0 0 g (set_space 0 None m g)" by (rule closed [OF g(2)])
  have "(1 :: session_id) \<noteq> 0" by simp
  from sessions_isolated [OF g(1) sample_dma_ok st this g(3), of "page_addr 0"] st g(3)
  show ?thesis by (intro exI [of _ g] exI [of _ "set_space 0 None m g"] exI [of _ b] exI [of _ Rb]) (simp add: set_space_def)
qed

text \<open>C15: Backing a reserved range of pages: the update returns, and afterwards the MMU finds for each page of the range the
  physical page at the same distance from the start, with the permissions asked for, and for every other page what it found before.\<close>

theorem backed_pages_found:
  assumes ok: "pagedir_ok R pd m" and rg: "p + n < PAGES" "{p ..< p + n} \<subseteq> R" and "x < PAGES"
  shows "\<exists>m'. mali_mmu_pagedir_update n pd (page_addr p) phys (page_addr n) MALI_MMU_FLAGS_DEFAULT m = Done m' \<and> pagedir_ok R pd m' \<and>
    walk pd m' (page_addr x) =
      (if p \<le> x \<and> x < p + n then Some ((phys + page_addr (x - p)) OR MALI_MMU_FLAGS_DEFAULT) else walk pd m (page_addr x))"
proof -
  obtain m' where u: "mali_mmu_pagedir_update n pd (page_addr p) phys (page_addr n) MALI_MMU_FLAGS_DEFAULT m = Done m'" "pagedir_ok R pd m'"
    "pte pd m' x = (if p \<le> x \<and> x < p + n
       then (let e = (phys + page_addr (x - p)) OR MALI_MMU_FLAGS_DEFAULT in if e AND FLAGS_PRESENT = 0 then None else Some e) else pte pd m x)"
    using update_ok [OF ok rg, of phys MALI_MMU_FLAGS_DEFAULT] assms(4) by blast
  then show ?thesis
    using default_flags walk_pte [OF pagedir_okD [OF ok] assms(4)] walk_pte [OF pagedir_okD [OF u(2)] assms(4)] by (simp add: Let_def)
qed

theorem backed_pages_found_witness:
  "\<exists>pd m m'. mali_mmu_pagedir_update 1 pd (page_addr DLBU_PAGE) 0x1000 (page_addr 1) MALI_MMU_FLAGS_DEFAULT m = Done m' \<and>
    walk pd m' (page_addr DLBU_PAGE) = Some (0x1000 OR MALI_MMU_FLAGS_DEFAULT)"
proof -
  obtain m pd where "pagedir_ok {DLBU_PAGE} pd m" by (rule sample_space)
  from backed_pages_found [OF this dlbu_addr(3) dlbu_range(3,4), of "0x1000"]
  show ?thesis by (auto simp: page_addr_def)
qed

text \<open>C14: Reserving a range that is free: with success the whole range is reserved; without memory for a page table, the
  range is reserved up to the entry without one, and stays so. What was reserved before is found as before in both cases.\<close>

theorem map_reserves:
  assumes ok: "pagedir_ok R pd m" and a: "dma_ok alloc" and rg: "0 < n" "p + n \<le> PAGES" "n < PAGES" "R \<inter> {p ..< p + n} = {}"
    and r: "mali_mmu_pagedir_map alloc (page_addr p) (page_addr n) (pd, m) = ((pd', m'), err)"
  shows "(err = ERR_OK \<and> pagedir_ok (R \<union> {p ..< p + n}) pd' m' \<or>
      err = ERR_NOMEM \<and> map_stopped pd' p n < p + n \<and> pagedir_ok (R \<union> {p ..< map_stopped pd' p n}) pd' m') \<and>
    (q \<in> R \<longrightarrow> walk pd' m' (page_addr q) = walk pd m (page_addr q))"
proof -
  note k = pagedir_map_ok [OF ok a rg r]
  have "walk pd' m' (page_addr q) = walk pd m (page_addr q)" if "q \<in> R"
  proof -
    have "q < PAGES" using ok that by (auto simp: pagedir_ok_def)
    then show ?thesis using k(4) [OF that] walk_pte [OF pagedir_okD [OF ok]] walk_pte [OF pagedir_okD [OF k(1)]] by simp
  qed
  then show ?thesis using k(1,2) by auto
qed

theorem map_reserves_witness:
  "\<exists>pd m pd' m' err. mali_mmu_pagedir_map sample_dma (page_addr 0) (page_addr 1) (pd, m) = ((pd', m'), err) \<and>
    walk pd' m' (page_addr DLBU_PAGE) = walk pd m (page_addr DLBU_PAGE)"
proof -
  obtain m pd where ok: "pagedir_ok {DLBU_PAGE} pd m" by (rule sample_space)
  obtain pd' m' err where r: "mali_mmu_pagedir_map sample_dma (page_addr 0) (page_addr 1) (pd, m) = ((pd', m'), err)" by (metis prod.collapse)
  have "(0::nat) < 1" "0 + 1 \<le> PAGES" "{DLBU_PAGE} \<inter> {0 ..< 0 + 1} = {}" by (auto simp: PAGES_def DLBU_PAGE_def)
  from map_reserves [OF ok sample_dma_ok this(1,2) dlbu_range(2) this(3) r, of DLBU_PAGE] r show ?thesis by blast
qed

text \<open>C13: Giving a reserved range back does not fail: afterwards the MMU finds nothing there, for the other reserved pages it
  finds what it found before, and nothing new anywhere. The L2 caches are told exactly the tables that keep pages, of which
  there are two at most, and the directory if a table has been released; the whole cache is never invalidated.\<close>

theorem unmap_releases:
  assumes ok: "pagedir_ok R pd m" and rg: "0 < n" "p + n \<le> PAGES" "n < PAGES" "{p ..< p + n} \<subseteq> R" and x: "x < PAGES"
  shows "\<exists>pd' m' ls. mali_mmu_pagedir_unmap (page_addr p) (page_addr n) (pd, m) = Done (pd', m') \<and>
    pagedir_ok (R - {p ..< p + n}) pd' m' \<and>
    (x \<in> {p ..< p + n} \<or> walk pd m (page_addr x) = None \<longrightarrow> walk pd' m' (page_addr x) = None) \<and>
    (x \<in> R - {p ..< p + n} \<longrightarrow> walk pd' m' (page_addr x) = walk pd m (page_addr x)) \<and>
    l2_log m' = l2_log m @ [InvalidatePages ls] \<and> length ls \<le> 3 \<and>
    ls = map (page_entries_mapped pd) (kept_entries R p (p + n)) @ (if entry_released R p (p + n) then [page_dir pd] else [])"
proof -
  obtain pd' m' where u: "mali_mmu_pagedir_unmap (page_addr p) (page_addr n) (pd, m) = Done (pd', m')"
    "pagedir_ok (R - {p ..< p + n}) pd' m'" "\<forall>x \<in> R - {p ..< p + n}. pte pd' m' x = pte pd m x"
    "\<forall>x \<in> {p ..< p + n}. pte pd' m' x = None" "\<forall>x < PAGES. pte pd m x = None \<longrightarrow> pte pd' m' x = None"
    "l2_log m' = l2_log m @ [InvalidatePages (map (page_entries_mapped pd) (kept_entries R p (p + n)) @
      (if entry_released R p (p + n) then [page_dir pd] else []))]"
    using pagedir_unmap_ok [OF ok rg] by blast
  have "length (map (page_entries_mapped pd) (kept_entries R p (p + n)) @ (if entry_released R p (p + n) then [page_dir pd] else [])) \<le> 3"
    using kept_entries_length [of R p "p + n"] by simp
  moreover have "walk pd m (page_addr x) = pte pd m x" "walk pd' m' (page_addr x) = pte pd' m' x"
    using walk_pte [OF pagedir_okD x] ok u(2) by blast+
  ultimately show ?thesis using u x by auto
qed

theorem unmap_releases_witness:
  "\<exists>pd m pd' m'. mali_mmu_pagedir_unmap (page_addr DLBU_PAGE) (page_addr 1) (pd, m) = Done (pd', m') \<and>
    walk pd' m' (page_addr DLBU_PAGE) = None"
proof -
  obtain m pd where ok: "pagedir_ok {DLBU_PAGE} pd m" by (rule sample_space)
  have "(0::nat) < 1" by simp
  from unmap_releases [OF ok this dlbu_range] show ?thesis by auto
qed

text \<open>C16: Opening a session does not fail to return. It succeeds with a directory in which only the page of the DLBU is
  reserved, on pages that nobody used, or it fails and has given back everything; or it fails and has left one page in use,
  the page of the directory. Pages in use before are still in use with their contents.\<close>

theorem opening_session:
  assumes "memory_ok m" and "dma_ok alloc"
  shows "\<exists>m' r'. mali_ukk_open alloc dlbu r m = Done (m', r') \<and> kept_memory m m' \<and>
    (case r' of
       None \<Rightarrow> in_use m' = in_use m \<or> (\<exists>p. p \<notin> in_use m \<and> in_use m' = insert p (in_use m))
     | Some pd \<Rightarrow> pagedir_ok {DLBU_PAGE} pd m' \<and> in_use m' = in_use m \<union> pages_of pd \<and> pages_of pd \<inter> in_use m = {} \<and>
         (dlbu \<noteq> 0 \<longrightarrow> walk pd m' MALI_DLBU_VIRT_ADDR = Some (dlbu OR MALI_MMU_FLAGS_DEFAULT)))"
proof -
  have d: "DLBU_PAGE < PAGES" using dlbu_addr(3) by simp
  obtain m' r' where o: "mali_ukk_open alloc dlbu r m = Done (m', r')" "kept_memory m m'"
    "case r' of
       None \<Rightarrow> in_use m' = in_use m \<or> (\<exists>p. p \<notin> in_use m \<and> in_use m' = insert p (in_use m))
     | Some pd \<Rightarrow> pagedir_ok {DLBU_PAGE} pd m' \<and> in_use m' = in_use m \<union> pages_of pd \<and> pages_of pd \<inter> in_use m = {} \<and>
         (dlbu \<noteq> 0 \<longrightarrow> pte pd m' DLBU_PAGE = Some (dlbu OR MALI_MMU_FLAGS_DEFAULT))"
    using open_ok [OF assms, of dlbu r] by blast
  have "walk pd m' MALI_DLBU_VIRT_ADDR = pte pd m' DLBU_PAGE" if "pagedir_ok {DLBU_PAGE} pd m'" for pd
    using walk_pte [OF pagedir_okD [OF that] d] by (simp add: dlbu_addr)
  then show ?thesis using o by (intro exI [of _ m'] exI [of _ r']) (auto split: option.splits)
qed

theorem opening_session_witness:
  "\<exists>m' r'. mali_ukk_open sample_dma 0x1000 all_created first_memory = Done (m', r') \<and> kept_memory first_memory m'"
  using opening_session [OF first_memory_ok sample_dma_ok, of "0x1000" all_created] by blast


text \<open>Closing a session returns and gives back all its pages, the directory and every page table, whatever is still
  reserved in it; nobody else's page is touched.\<close>

theorem closing_session:
  assumes "memory_reached alloc dlbu g" and "dma_ok alloc" and "spaces g s = Some (pd, R)"
  shows "\<exists>m'. mali_ukk_close pd (tables g) = Done m' \<and> memory_ok m' \<and> in_use m' = in_use (tables g) - pages_of pd \<and>
    (\<forall>p \<in> in_use (tables g) - pages_of pd. words m' p = words (tables g) p)"
  using gpu_memory_okD(2,3) [OF memory_reached_ok [OF assms(1,2)] assms(3)] by (rule close_ok)

theorem closing_session_witness:
  "\<exists>(g :: gpu_memory) pd R m'. spaces g 0 = Some (pd, R) \<and> mali_ukk_close pd (tables g) = Done m' \<and> in_use m' = in_use (tables g) - pages_of pd"
proof -
  obtain g a Ra where g: "memory_reached sample_dma 0 g" "spaces g 0 = Some (a, Ra)" by (rule page_passed_on_reached)
  from closing_session [OF g(1) sample_dma_ok g(2)] obtain m' where
    "mali_ukk_close a (tables g) = Done m'" "in_use m' = in_use (tables g) - pages_of a" by blast
  with g(2) show ?thesis by metis
qed

text \<open>C18: A page table keeps its entries when it is released, and a directory that gets it next does not clear it: a state is
  reached in which a session that has neither reserved nor backed address 0 has the MMU find the physical page there that
  another session had backed and given back.\<close>

theorem stale_translation:
  "\<exists>g a b Ra Rb. memory_reached sample_dma 0 g \<and> spaces g 0 = Some (a, Ra) \<and> spaces g 1 = Some (b, Rb) \<and> 0 \<notin> Ra \<and> 0 \<notin> Rb \<and>
    walk a (tables g) (page_addr 0) = None \<and> walk b (tables g) (page_addr 0) = Some (0x80000000 OR MALI_MMU_FLAGS_DEFAULT)"
proof -
  have "(0x80000000 :: u32) OR MALI_MMU_FLAGS_DEFAULT = 0x80000007"
    by (simp add: MALI_MMU_FLAGS_DEFAULT_def FLAGS_PRESENT_def FLAGS_READ_PERMISSION_def FLAGS_WRITE_PERMISSION_def)
  then show ?thesis using page_passed_on_reached by metis
qed

text \<open>C19: The helper pages: starting takes four pages, or fails without keeping any. In the flush directory every address
  leads to the data page, in the empty directory none leads anywhere; and stopping gives the four pages back.\<close>

theorem helper_pages_balanced:
  assumes "memory_ok m" and "dma_ok alloc" and "mali_mmu_initialize alloc (no_helper_pages, m) = ((h, m1), err)"
  shows "err = ERR_NOMEM \<and> in_use m1 = in_use m \<or>
    err = ERR_OK \<and> card (in_use m1 - in_use m) = 4 \<and>
      mmu_walk (fst (flush_page_directory h)) m1 x = Some (fst (flush_data_page h) OR MALI_MMU_FLAGS_DEFAULT) \<and>
      mmu_walk (fst (empty_page_directory h)) m1 x = None \<and>
      (\<exists>m2. mali_mmu_terminate (h, m1) = (no_helper_pages, m2) \<and> memory_ok m2 \<and> in_use m2 = in_use m)"
proof -
  note k = mmu_initialize_ok [OF assms]
  show ?thesis
  proof (cases "err = ERR_OK")
    case True
    then obtain e d t p where h: "h = four_pages e d t p" "distinct [e, d, t, p]" "{e, d, t, p} \<inter> in_use m = {}"
      "in_use m1 = in_use m \<union> {e, d, t, p}" "\<And>x. mmu_walk d m1 x = Some (p OR MALI_MMU_FLAGS_DEFAULT)" "\<And>x. mmu_walk e m1 x = None"
      using k by auto
    have "in_use m1 - in_use m = {e, d, t, p}" using h(3,4) by blast
    moreover have "card {e, d, t, p} = 4" using h(2) by simp
    moreover have "\<exists>m2. mali_mmu_terminate (h, m1) = (no_helper_pages, m2) \<and> memory_ok m2 \<and> in_use m2 = in_use m"
      using mmu_terminate_ok [of m1 e d t p] k h(1-4) by auto
    ultimately show ?thesis using True h by (simp add: four_pages_def)
  next
    case False
    then show ?thesis using k by auto
  qed
qed

theorem helper_pages_balanced_witness:
  "\<exists>h m1 err. mali_mmu_initialize sample_dma (no_helper_pages, first_memory) = ((h, m1), err) \<and>
    (err = ERR_NOMEM \<or> card (in_use m1 - in_use first_memory) = 4)"
proof -
  obtain h m1 err where r: "mali_mmu_initialize sample_dma (no_helper_pages, first_memory) = ((h, m1), err)" by (metis prod.collapse)
  from helper_pages_balanced [OF first_memory_ok sample_dma_ok r] r show ?thesis by blast
qed

text \<open>C20: The dump of the page tables: the size that is reported is the size of what is dumped, without overflow. Into a buffer
  of that size or more the whole dump is written, in that order; into a smaller one a part of it, never more than there is
  room for, and the error says so.\<close>

theorem dump_fits_reported_size:
  assumes "pagedir_ok R pd m"
  shows "\<exists>sz. query_mmu_page_table_dump_size pd m = Some sz \<and> unat sz = 4 * length (dump_words pd m) \<and>
    (case dump_mmu_page_table_to_user pd m buf of (info, err) \<Rightarrow>
      (if sz \<le> buf then err = ERR_OK \<and> buffer info = Some (dump_words pd m) \<and>
          register_writes_size info + page_table_dump_size info = sz
       else err = ERR_NOMEM \<and> (\<exists>k. buffer info = Some (take k (dump_words pd m)) \<and> 4 * length (take k (dump_words pd m)) \<le> unat buf)))"
proof -
  define f where "f = (\<lambda>info. check_no_error (dump_mmu_registers pd info) (dump_mmu_page_table pd m))"
  define k where "k = 4100 * Suc (tables_present pd [0 ..< 1024])"
  define sz where "sz = (of_nat (24 + k) :: u32)"
  have d: "4 * length (dump_words pd m) = 24 + k" "\<And>info. dumped 24 k (dump_words pd m) info (f info)"
    using dumps_all [OF pagedir_okD [OF assms]] unfolding dumps_def f_def k_def by simp_all
  have u: "unat sz = 24 + k"
    unfolding sz_def by (rule unat_of_small) (use tables_present_bound [of pd] in \<open>simp add: k_def del: upt_rec_numeral\<close>)
  let ?i0 = "\<lparr>buffer_left = 0, register_writes_size = 0, page_table_dump_size = 0, buffer = None\<rparr>"
  have "query_mmu_page_table_dump_size pd m = Some sz"
  proof -
    have e: "query_mmu_page_table_dump_size pd m =
        (case f ?i0 of (info, err) \<Rightarrow> if err \<noteq> ERR_OK then None else Some (register_writes_size info + page_table_dump_size info))"
      by (simp add: query_mmu_page_table_dump_size_def f_def)
    show ?thesis using d(2) [of ?i0] unfolding e by (cases "f ?i0") (simp add: dumped_def sz_def)
  qed
  moreover have "case dump_mmu_page_table_to_user pd m buf of (info, err) \<Rightarrow>
      (if sz \<le> buf then err = ERR_OK \<and> buffer info = Some (dump_words pd m) \<and>
          register_writes_size info + page_table_dump_size info = sz
       else err = ERR_NOMEM \<and> (\<exists>k. buffer info = Some (take k (dump_words pd m)) \<and> 4 * length (take k (dump_words pd m)) \<le> unat buf))"
  proof -
    let ?i = "\<lparr>buffer_left = buf, register_writes_size = 0, page_table_dump_size = 0, buffer = Some []\<rparr>"
    have e: "dump_mmu_page_table_to_user pd m buf = f ?i" by (simp add: dump_mmu_page_table_to_user_def f_def)
    obtain i err where r: "f ?i = (i, err)" by fastforce
    have "sz \<le> buf \<longleftrightarrow> 4 * length (dump_words pd m) \<le> unat buf" unfolding word_le_nat_alt u d(1) ..
    then show ?thesis
    proof (cases "sz \<le> buf")
      case True
      then show ?thesis using d(2) [of ?i] \<open>(sz \<le> buf) = _\<close> unfolding e r dumped_def by (simp add: sz_def)
    next
      case False
      then have "\<not> 4 * length (dump_words pd m) \<le> unat buf" using \<open>(sz \<le> buf) = _\<close> by blast
      with d(2) [of ?i] have "err = ERR_NOMEM"
        "\<exists>k. buffer i = Some ([] @ take k (dump_words pd m)) \<and> 4 * length (take k (dump_words pd m)) \<le> unat buf"
        unfolding r dumped_def prod.case dump_info.simps option.case by simp_all
      then show ?thesis unfolding e r using False by (simp only: append_Nil prod.case if_False)
    qed
  qed
  ultimately show ?thesis by (intro exI [of _ sz] conjI) (simp_all only: u d(1))
qed

theorem dump_fits_reported_size_witness:
  "\<exists>pd m sz. query_mmu_page_table_dump_size pd m = Some sz \<and> unat sz = 4 * length (dump_words pd m)"
proof -
  obtain m pd where "pagedir_ok {DLBU_PAGE} pd m" by (rule sample_space)
  from dump_fits_reported_size [OF this] show ?thesis by blast
qed

end
