(* ===== verification/GPU_Addresses.thy ===== *)
theory GPU_Addresses
  imports Page_Properties "HOL-Library.Tree"
begin

text \<open>
  The addresses a session has taken (linux/mali_memory_virtual.c) and the part of an allocation that
  takes addresses (linux/mali_memory_manager.c, linux/mali_memory.c). User space chooses the addresses.

  The nodes are kept in a red-black tree of the kernel. Descending in it is code of the driver;
  rebalancing it after a node has been linked, and erasing a node, are code of the kernel: they are
  the parameters \<open>rebalance\<close> and \<open>erase\<close>, which keep the nodes in their order.
\<close>

section \<open>The tree of nodes\<close>






section \<open>Taking addresses and giving them back\<close>




section \<open>Searching and linking\<close>








section \<open>Properties\<close>









end
