(* ===== verification/Spec2Isabelle.thy ===== *)
theory Spec2Isabelle
  imports Osk_List Timeline_Properties Sched_Properties PM_Cost Exec_Properties GPU_Addresses
begin

text \<open>
  A model of the kernel driver of the Mali-400/450/470 graphics processor under
  src/driver/src/devicedrv/mali: how jobs enter the driver, wait for each other on timelines, are
  queued, run, and leave it again, and the page tables that separate the memory of the sessions.

  \<^bold>\<open>The parts.\<close> User space starts GP (geometry), PP (pixel) and soft jobs. Every job carries a
  tracker. The timeline system of the session (common/mali_timeline.c) gives the tracker the next
  point of its timeline and a waiter for every point in the fence of the job. A tracker whose
  waiters are all released is activated: a GP or PP job goes to a queue of the scheduler
  (common/mali_scheduler.c), a soft job (common/mali_soft_job.c) is announced to user space, a
  fence wait (common/mali_timeline_fence_wait.c) is woken. When the job is done its tracker is
  released, which moves the oldest point of the timeline, which releases waiters, which activates
  further trackers. The executor (common/mali_executor.c) takes jobs from the queues, picks groups
  of cores (common/mali_group.c) for them, has the power manager (common/mali_pm.c) turn on the
  domains these groups are in, and starts the jobs. The groups are created when the hardware is
  probed (common/mali_kernel_core.c). What a job of a session can reach is what the page directory
  of the session (common/mali_mmu_page_directory.c) maps; its pages come from a pool
  (linux/mali_memory_os_alloc.c), its addresses from user space (linux/mali_memory_manager.c).

  \<^bold>\<open>The theories.\<close>
  \<^item> Mali_Prelude: error codes, words, lemmas on lists that the components share.
  \<^item> Timeline_Points: the inline functions of common/mali_timeline.h that compare 32-bit points
    and place them before, on or after a timeline.
  \<^item> Osk_List: the intrusive lists of common/mali_osk_list.h over a store of pointers, and the
    HOL lists they represent. The later theories use HOL lists for them.
  \<^item> PP_Job, GP_Job: the job objects (common/mali_pp_job.c, mali_gp_job.c): creation with every
    failing path, deletion, sub job accounting, counters, insertion into a queue by identifier.
  \<^item> GPU_State: the state the following theories share, one record field per structure or global
    of the code, and a log of the calls that leave them (notifications, power, timers).
  \<^item> Scheduler: the two queues and their operations.
  \<^item> Timeline: trackers, waiters, and the mutually recursive functions that release and activate
    them. Each of these functions is defined over the function \<open>rec\<close> that answers its calls;
    \<open>cascade\<close> ties the knot with one unit of fuel per nested call.
  \<^item> Cascade: two locales, \<open>cascade_steps\<close> and \<open>cascade_relation\<close>, prove what every run of the
    cascade keeps from what each primitive step keeps; their instances say that a cascade only
    removes trackers and waiters. The fuel \<open>fuel_for\<close>, nine units per waiter and the depth of
    the call, is enough.
  \<^item> Trigger_Counts: the cascade ends and returns; its trigger counts stay exact.
  \<^item> Timeline_Windows: order and windows of the timelines through a cascade.
  \<^item> Timeline_Ops: what the rest of the driver calls: adding trackers, starting jobs of all
    kinds, signalling and timing out soft jobs, aborting a session's soft jobs, fence waits.
  \<^item> Timeline_Invariant, Timeline_Order: adding a tracker keeps the invariant and the order of
    waiting.
  \<^item> Timeline_Reach: the transition system of all these entries and the invariant of its
    reachable states. Timeline_Properties: what follows for them.
  \<^item> Timeline_Examples: a concrete state.
  \<^item> Sched_Queues, Sched_Steps, Sched_Properties: what every operation of the scheduler keeps of
    the order of its queues, of the jobs in them and of the sub jobs that have started.
  \<^item> PM_Domains: the power domains with their use counts and masks; PM_Reach: their transition
    system; PM_Cost: the table of power costs that core scaling reads. \<open>update_power_up\<close> and
    \<open>update_power_down\<close> are the two halves of \<open>mali_pm_update_sync_internal\<close>, between which the
    groups are notified. The PMU is a mask and a log of the requests to it.
  \<^item> Core_Groups: groups with their state, power and jobs; Executor: all operations on them.
    Registers are a log of events, and answers of the hardware arguments.
  \<^item> Exec_View: the parts of the executor's state that its invariant reads, and which operation
    leaves which part alone. Exec_Lists: the four lists as one function from groups to places.
    Exec_Invariant: the invariant \<open>exec_ok\<close>. It has a phase, the groups that an update of the
    power domains has changed and not yet told, and a set of groups that are being worked on.
    Exec_Schedule, Exec_Steps, Exec_Complete, Exec_Power, Exec_Updates, Exec_Suspend: each
    operation keeps the invariant and leaves the jobs of the other groups alone.
  \<^item> Probe: probing and termination, with the set of objects that are allocated. Probe_Objects:
    what each constructor and destructor does to this set. Exec_Boot: what probing leaves is
    well-formed. Probe_Release: termination frees everything.
  \<^item> Exec_Run: executor and power manager as one transition system; Exec_Example: a run of it;
    Exec_Properties: what follows for all reachable states.

  \<^item> Page_Directory: the pool of table pages, and page directories with all their operations.
    Table pages are functions from the index of a word to the word; a mapping of a page is the bus
    address of the page. Page_Ranges: addresses as numbers of pages. Page_Tables: what holds of a
    directory in which a set of pages is reserved, \<open>pagedir_ok\<close>, what the MMU finds in it, and that
    an operation leaves pages of others alone, \<open>own_pages_only\<close>. Page_Map, Page_Unmap, Page_Release:
    every operation does what it promises of the three. The update loop runs once for each page of
    its range, and that is its fuel.
  \<^item> Page_Sessions: opening and closing a session, as far as its page directory is concerned.
    Page_System: the transition system of all sessions. Page_Helpers: the helper pages of
    common/mali_mmu.c. Page_Dump: the dump of the tables. Page_Properties: what follows.
  \<^item> GPU_Addresses: the tree of the allocations of a session, and the part of an allocation that
    takes addresses. Rebalancing the tree is code of the kernel and a parameter.

  \<^bold>\<open>Scope of the executor's invariant.\<close> The definitions cover virtual groups (Mali-450 and
  Mali-470), the invariant is about GPUs without one (Mali-400). It assumes that the configuration
  of the domains is coherent: no domain of a core is that of an L2 cache the core is not behind. The
  power manager notifies groups without holding the lock of the executor; the steps of Exec_Run
  allow everything else to happen between the change of the domains and the notification.

  \<^bold>\<open>Conventions.\<close> 32-bit integers are words, with their wrap-around. A function that fails
  returns a sum or option, one that may dereference NULL or run out of fuel an \<open>outcome\<close>.
  Allocation, copies from and to user space and the answers of code outside src/ are arguments.
  Functions run as they are called, under their locks; \<open>MALI_DEBUG_ASSERT\<close> conditions are
  preconditions where a theorem needs them.

  \<^bold>\<open>Configuration.\<close> A 32-bit kernel with CONFIG_MALI450, state tracking and
  CONFIG_MALI_DMA_BUF_MAP_ON_ATTACH; without CONFIG_SYNC, CONFIG_MALI_DMA_BUF_FENCE and
  CONFIG_MALI_DVFS.

  \<^bold>\<open>Not modelled.\<close> Sync and DMA fences, the debug printing and state dumps, the Linux glue below
  linux/, the user space libraries and headers next to the driver; locks and the threads that
  contend for them. Of the executor: the entry points of the interrupts, the answer to a GP job that
  is out of memory, the work items and wait queues, and the removal of a mapping from all MMUs. Of
  probing: the detection of the product, the configuration of memory and PMU, and the registers.
  Of memory: the backends of allocations, resizing, binding, copy-on-write and the mappings into user
  space. The pages behind the addresses of users, the rest of opening and closing a session, settings,
  utilization and UMP are not modelled.

  \<^bold>\<open>Scope of the isolation of sessions.\<close> The steps of Page_System are those of sessions whose
  allocations do not overlap. GPU_Addresses shows that the driver does not enforce this, and what
  comes of it.
\<close>

end
